(* ===== verification/Prelude.thy ===== *)
theory Prelude
  imports Main "HOL-Library.Word" "HOL-Library.Multiset"
begin

text \<open>
  Shared ground of the development: the two collections of facts the component
  proofs draw on, the ordered association lists that stand for the
  \<open>std::map\<close> objects of the runtime (iteration in ascending key order, at most
  one entry per key), the 32-bit signed counter increment with its wrap-around
  written out, and a few facts about multisets of held values.
\<close>

named_theorems omap_simps
named_theorems rc_simps

section \<open>Signed 32-bit counters\<close>

abbreviation INT32_MAX :: int where "INT32_MAX \<equiv> 2147483647"

definition inc32 :: "int \<Rightarrow> int" where
  "inc32 x = (x + 1 + 2147483648) mod 4294967296 - 2147483648"

lemma inc32_no_wrap [simp]:
  assumes "- 2147483648 \<le> x" "x < INT32_MAX"
  shows "inc32 x = x + 1"
  using assms unfolding inc32_def by (simp add: mod_pos_pos_trivial)

lemma inc32_wraps: "inc32 INT32_MAX = - 2147483648"
  by (simp add: inc32_def)

section \<open>Ordered maps\<close>

type_synonym ('k, 'v) omap = "('k \<times> 'v) list"

fun omap_put :: "'k::linorder \<Rightarrow> 'v \<Rightarrow> ('k, 'v) omap \<Rightarrow> ('k, 'v) omap" where
  "omap_put k v [] = [(k, v)]"
| "omap_put k v ((k', v') # m) =
     (if k < k' then (k, v) # (k', v') # m
      else if k = k' then (k, v) # m
      else (k', v') # omap_put k v m)"

definition omap_del :: "'k \<Rightarrow> ('k, 'v) omap \<Rightarrow> ('k, 'v) omap" where
  "omap_del k m = filter (\<lambda>p. fst p \<noteq> k) m"

definition omap_ok :: "('k::linorder, 'v) omap \<Rightarrow> bool" where
  "omap_ok m = sorted_wrt (<) (map fst m)"

definition ovals :: "('k, 'v) omap \<Rightarrow> 'v list" where
  "ovals m = map snd m"

definition okeys :: "('k, 'v) omap \<Rightarrow> 'k set" where
  "okeys m = set (map fst m)"

lemma ovals_simps [simp]: "ovals [] = []" "ovals (p # m) = snd p # ovals m"
  by (simp_all add: ovals_def)

lemma okeys_simps [simp]: "okeys [] = {}" "okeys (p # m) = insert (fst p) (okeys m)"
  by (simp_all add: okeys_def)

lemma finite_okeys [simp]: "finite (okeys m)"
  by (simp add: okeys_def)

lemma okeys_dom: "okeys m = dom (map_of m)"
  by (simp add: okeys_def dom_map_of_conv_image_fst)

lemma okeys_iff: "k \<in> okeys m \<longleftrightarrow> (\<exists>v. map_of m k = Some v)"
  by (auto simp: okeys_dom)

lemma map_of_None_okeys: "map_of m k = None \<longleftrightarrow> k \<notin> okeys m"
  by (auto simp: okeys_dom)

lemma map_of_omap_put [simp]: "map_of (omap_put k v m) = (map_of m)(k \<mapsto> v)"
  by (induction m) (auto simp: fun_eq_iff)

lemma map_of_omap_del [simp]: "map_of (omap_del k m) = (map_of m)(k := None)"
  by (induction m) (auto simp: omap_del_def fun_eq_iff)

lemma okeys_put [simp]: "okeys (omap_put k v m) = insert k (okeys m)"
  by (auto simp: okeys_dom)

lemma okeys_del [simp]: "okeys (omap_del k m) = okeys m - {k}"
  by (auto simp: okeys_dom split: if_splits)

lemma set_omap_put: "set (omap_put k v m) \<subseteq> insert (k, v) (set m)"
  by (induction m) (auto split: if_splits)

lemma set_omap_del: "set (omap_del k m) \<subseteq> set m"
  by (auto simp: omap_del_def)

lemma omap_ok_Nil [simp]: "omap_ok []"
  by (simp add: omap_ok_def)

lemma omap_ok_Cons: "omap_ok (p # m) \<longleftrightarrow> (\<forall>k\<in>okeys m. fst p < k) \<and> omap_ok m"
  by (auto simp: omap_ok_def okeys_def)

lemma omap_ok_put [simp]: "omap_ok m \<Longrightarrow> omap_ok (omap_put k v m)"
proof (induction m)
  case (Cons p m)
  then show ?case
    by (cases p) (auto simp: omap_ok_Cons dest: order.strict_trans)
qed (simp add: omap_ok_Cons)

lemma omap_ok_del [simp]: "omap_ok m \<Longrightarrow> omap_ok (omap_del k m)"
proof (induction m)
  case (Cons p m)
  moreover have "okeys (omap_del k m) \<subseteq> okeys m" by auto
  ultimately show ?case by (auto simp: omap_del_def omap_ok_Cons)
qed (simp add: omap_del_def)

lemma omap_ok_distinct: "omap_ok m \<Longrightarrow> distinct (map fst m)"
  by (simp add: omap_ok_def strict_sorted_iff)

lemma omap_del_absent: "k \<notin> okeys m \<Longrightarrow> omap_del k m = m"
  by (induction m) (auto simp: omap_del_def)

lemma omap_put_same:
  "map_of m k = Some v \<Longrightarrow> omap_ok m \<Longrightarrow> omap_put k v m = m"
proof (induction m)
  case (Cons p m)
  have "k \<in> okeys m" if "map_of m k = Some v" using that by (auto simp: okeys_iff)
  then show ?case using Cons by (cases p) (fastforce simp: omap_ok_Cons split: if_splits)
qed simp

lemma mset_ovals_del:
  assumes "omap_ok m" "map_of m k = Some v"
  shows "mset (ovals m) = add_mset v (mset (ovals (omap_del k m)))"
  using assms
proof (induction m)
  case (Cons p m)
  show ?case
  proof (cases "fst p = k")
    case True
    then have "k \<notin> okeys m" using Cons.prems by (auto simp: omap_ok_Cons)
    then have "omap_del k (p # m) = m"
      using True omap_del_absent [of k m] by (simp add: omap_del_def)
    then show ?thesis using Cons.prems True by (cases p) simp
  next
    case False
    then show ?thesis using Cons by (cases p) (auto simp: omap_del_def omap_ok_Cons)
  qed
qed simp

lemma mset_ovals_put_new:
  assumes "k \<notin> okeys m"
  shows "mset (ovals (omap_put k v m)) = add_mset v (mset (ovals m))"
  using assms by (induction m) auto

lemma mset_ovals_put_old:
  assumes "omap_ok m" "map_of m k = Some u"
  shows "add_mset u (mset (ovals (omap_put k v m))) = add_mset v (mset (ovals m))"
  using assms
proof (induction m)
  case (Cons p m)
  obtain k' v' where p: "p = (k', v')" by (cases p)
  consider "k < k'" | "k = k'" | "k' < k" by fastforce
  then show ?case
  proof cases
    case 1
    then have "k \<notin> okeys (p # m)" using Cons.prems(1) p by (auto simp: omap_ok_Cons)
    then show ?thesis using Cons.prems(2) by (simp add: map_of_None_okeys [symmetric])
  next
    case 2
    then show ?thesis using Cons.prems p by simp
  next
    case 3
    then have "map_of m k = Some u" using Cons.prems(2) p by (simp split: if_splits)
    then show ?thesis using Cons 3 p by (auto simp: omap_ok_Cons add_mset_commute)
  qed
qed simp

lemmas omap_facts = map_of_omap_put map_of_omap_del okeys_put okeys_del omap_ok_put omap_ok_del

section \<open>Summing a multiset-valued measure over a list\<close>

definition mset_over :: "('a \<Rightarrow> 'b multiset) \<Rightarrow> 'a list \<Rightarrow> 'b multiset" where
  "mset_over f xs = sum_mset (image_mset f (mset xs))"

lemma mset_over_simps [simp]:
  "mset_over f [] = {#}"
  "mset_over f (x # xs) = f x + mset_over f xs"
  by (simp_all add: mset_over_def)

lemma mset_over_append [simp]: "mset_over f (xs @ ys) = mset_over f xs + mset_over f ys"
  by (simp add: mset_over_def)

lemma mset_over_del:
  assumes "omap_ok m" "map_of m k = Some v"
  shows "mset_over f (ovals m) = f v + mset_over f (ovals (omap_del k m))"
  using mset_ovals_del [OF assms] by (simp add: mset_over_def)

lemma mset_over_put_new:
  assumes "k \<notin> okeys m"
  shows "mset_over f (ovals (omap_put k v m)) = f v + mset_over f (ovals m)"
  using mset_ovals_put_new [OF assms, of v] by (simp add: mset_over_def)

lemma mset_over_put_old:
  assumes "omap_ok m" "map_of m k = Some u"
  shows "f u + mset_over f (ovals (omap_put k v m)) = f v + mset_over f (ovals m)"
proof -
  have "sum_mset (image_mset f (add_mset u (mset (ovals (omap_put k v m)))))
      = sum_mset (image_mset f (add_mset v (mset (ovals m))))"
    by (simp only: mset_ovals_put_old [OF assms])
  then show ?thesis by (simp add: mset_over_def)
qed

end
