(* ===== verification/HandleTable.thy ===== *)
theory HandleTable
  imports Prelude
begin

text \<open>
  The interface the runtime's id-allocating tables share (callbacks, promises, events):
  \<open>add\<close> returns an id and a new table, \<open>del\<close> tells whether the id was there. A provider may
  give back a live id whose entry \<open>agrees\<close> with the new one instead of allocating.
  Clients rely on what is proved here from the laws alone: ids are never reused, a dead id
  stays dead, and distinct live ids keep their entries through other operations.
\<close>

datatype 'd hop = HAdd 'd | HDel int

fun is_add :: "'d hop \<Rightarrow> bool" where
  "is_add (HAdd d) = True"
| "is_add (HDel i) = False"

definition adds :: "'d hop list \<Rightarrow> int" where
  "adds hs = int (length (filter is_add hs))"

lemma adds_simps [simp]:
  "adds [] = 0" "adds (h # hs) = (if is_add h then 1 else 0) + adds hs" "0 \<le> adds hs"
  "adds (hs @ hs') = adds hs + adds hs'"
  by (simp_all add: adds_def)

locale handle_table =
  fixes lookup :: "'s \<Rightarrow> int \<Rightarrow> 'd option"
    and add :: "'d \<Rightarrow> 's \<Rightarrow> int \<times> 's"
    and del :: "int \<Rightarrow> 's \<Rightarrow> bool \<times> 's"
    and ok :: "'s \<Rightarrow> bool"
    and next_id :: "'s \<Rightarrow> int"
    and max_id :: int
    and agrees :: "'d \<Rightarrow> 'd \<Rightarrow> bool"
  assumes live_below: "ok s \<Longrightarrow> lookup s i \<noteq> None \<Longrightarrow> i < next_id s"
    and add_spec: "ok s \<Longrightarrow> next_id s \<le> max_id \<Longrightarrow> add d s = (i, s') \<Longrightarrow>
      ok s' \<and>
      ((s' = s \<and> (\<exists>d'. lookup s i = Some d' \<and> agrees d d')) \<or>
       (i = next_id s \<and> next_id s' = next_id s + 1 \<and> lookup s' = (lookup s)(i \<mapsto> d)))"
    and del_spec: "ok s \<Longrightarrow> del i s = (r, s') \<Longrightarrow>
      ok s' \<and> next_id s' = next_id s \<and> lookup s' = (lookup s)(i := None) \<and>
      r = (lookup s i \<noteq> None)"
begin

fun hstep :: "'d hop \<Rightarrow> 's \<Rightarrow> 's" where
  "hstep (HAdd d) s = snd (add d s)"
| "hstep (HDel i) s = snd (del i s)"

fun hrun :: "'d hop list \<Rightarrow> 's \<Rightarrow> 's" where
  "hrun [] s = s"
| "hrun (h # hs) s = hrun hs (hstep h s)"

lemma hrun_append: "hrun (hs @ hs') s = hrun hs' (hrun hs s)"
  by (induction hs arbitrary: s) auto

lemma hstep_facts:
  assumes "ok s" "is_add h \<longrightarrow> next_id s \<le> max_id"
  shows "ok (hstep h s)" "next_id s \<le> next_id (hstep h s)"
    "next_id (hstep h s) \<le> next_id s + (if is_add h then 1 else 0)"
    "i < next_id s \<Longrightarrow> lookup s i = None \<Longrightarrow> lookup (hstep h s) i = None"
    "lookup s i = Some d \<Longrightarrow> h \<noteq> HDel i \<Longrightarrow> lookup (hstep h s) i = Some d"
proof -
  have "ok (hstep h s) \<and> next_id s \<le> next_id (hstep h s) \<and>
     next_id (hstep h s) \<le> next_id s + (if is_add h then 1 else 0) \<and>
     (i < next_id s \<longrightarrow> lookup s i = None \<longrightarrow> lookup (hstep h s) i = None) \<and>
     (lookup s i = Some d \<longrightarrow> h \<noteq> HDel i \<longrightarrow> lookup (hstep h s) i = Some d)"
  proof (cases h)
    case (HAdd x)
    obtain j s' where a: "add x s = (j, s')" by fastforce
    show ?thesis using add_spec [OF assms(1) _ a] live_below [OF assms(1), of i] assms(2) a HAdd by auto
  next
    case (HDel j)
    obtain r s' where a: "del j s = (r, s')" by fastforce
    show ?thesis using del_spec [OF assms(1) a] a HDel by auto
  qed
  then show "ok (hstep h s)" "next_id s \<le> next_id (hstep h s)"
    "next_id (hstep h s) \<le> next_id s + (if is_add h then 1 else 0)"
    "i < next_id s \<Longrightarrow> lookup s i = None \<Longrightarrow> lookup (hstep h s) i = None"
    "lookup s i = Some d \<Longrightarrow> h \<noteq> HDel i \<Longrightarrow> lookup (hstep h s) i = Some d" by auto
qed

definition fits :: "'d hop list \<Rightarrow> 's \<Rightarrow> bool" where
  "fits hs s \<longleftrightarrow> next_id s + adds hs \<le> max_id + 1"

lemma fits_Cons:
  assumes "ok s" "fits (h # hs) s"
  shows "is_add h \<longrightarrow> next_id s \<le> max_id" "fits hs (hstep h s)"
proof -
  show l: "is_add h \<longrightarrow> next_id s \<le> max_id" using assms(2) adds_simps(3) [of hs]
    by (auto simp: fits_def simp del: adds_simps(3))
  show "fits hs (hstep h s)" using hstep_facts(3) [OF assms(1) l] assms(2)
    by (auto simp: fits_def)
qed

lemma hrun_ok: "ok s \<Longrightarrow> fits hs s \<Longrightarrow> ok (hrun hs s) \<and> next_id s \<le> next_id (hrun hs s)"
proof (induction hs arbitrary: s)
  case (Cons h hs)
  note f = fits_Cons [OF Cons.prems]
  show ?case using Cons.IH [of "hstep h s"] hstep_facts(1,2) [OF Cons.prems(1) f(1)] f(2) by simp
qed simp

lemma dead_stays_dead:
  "ok s \<Longrightarrow> fits hs s \<Longrightarrow> i < next_id s \<Longrightarrow> lookup s i = None \<Longrightarrow> lookup (hrun hs s) i = None"
proof (induction hs arbitrary: s)
  case (Cons h hs)
  note f = fits_Cons [OF Cons.prems(1,2)]
  show ?case using Cons.IH [of "hstep h s"] hstep_facts(1,2,4) [OF Cons.prems(1) f(1)] f(2) Cons.prems
    by simp
qed simp

lemma live_stays_live:
  "ok s \<Longrightarrow> fits hs s \<Longrightarrow> HDel i \<notin> set hs \<Longrightarrow> lookup s i = Some d \<Longrightarrow> lookup (hrun hs s) i = Some d"
proof (induction hs arbitrary: s)
  case (Cons h hs)
  note f = fits_Cons [OF Cons.prems(1,2)]
  show ?case using Cons.IH [of "hstep h s"] hstep_facts(1,5) [OF Cons.prems(1) f(1)] f(2) Cons.prems
    by auto
qed simp

lemma fits_del: "ok s \<Longrightarrow> fits hs s \<Longrightarrow> del i s = (r, s') \<Longrightarrow> fits hs s'"
  using del_spec by (auto simp: fits_def)

lemma removed_never_back:
  assumes "ok s" "lookup s i \<noteq> None" "fits hs s"
  shows "lookup (hrun hs (snd (del i s))) i = None"
proof -
  obtain r s' where d: "del i s = (r, s')" by fastforce
  show ?thesis
    using dead_stays_dead [of s' hs i] del_spec [OF assms(1) d] live_below [OF assms(1,2)]
      fits_del [OF assms(1,3) d] d
    by simp
qed

lemma second_del_fails:
  assumes "ok s" "fits hs s" "lookup s i \<noteq> None"
  shows "fst (del i s) \<and> \<not> fst (del i (hrun hs (snd (del i s))))"
proof -
  obtain r s' where d: "del i s = (r, s')" by fastforce
  have ok': "ok s'" and r: "r = (lookup s i \<noteq> None)"
    using del_spec [OF assms(1) d] by auto
  have "ok (hrun hs s')" using hrun_ok [OF ok' fits_del [OF assms(1,2) d]] by simp
  moreover have "lookup (hrun hs s') i = None"
    using removed_never_back [OF assms(1,3,2)] d by simp
  ultimately have "\<not> fst (del i (hrun hs s'))"
    using del_spec [of "hrun hs s'" i] by (cases "del i (hrun hs s')") simp
  then show ?thesis using d r assms(3) by simp
qed

end

end
