(* ===== verification/JsWorld.thy ===== *)
theory JsWorld
  imports Prelude
begin

text \<open>
  The JavaScript engine as the runtime sees it: its values, the reference counts
  the native side holds on them (\<open>feature_dup_value\<close>, \<open>feature_free_value\<close>), the
  trace of calls made into scripts (\<open>feature_call\<close>) and the engine's number,
  string and JSON primitives as a record of functions. The engine is QuickJS, which
  is not part of the repository: everything it computes is a field of the record
  \<open>engine\<close>, an argument of the definitions that use it, and the laws relied on are
  the named hypotheses \<open>engine_ok\<close>.
  \<open>balanced b M w\<close> says that, on top of the counts \<open>b\<close>, the native side owns exactly
  the references in the multiset \<open>M\<close>; every operation is proved to keep it.
\<close>

section \<open>Values\<close>

text \<open>
  \<open>JIndet\<close> is the content of a declared but not yet assigned \<open>JSValue\<close>: it counts as a
  reference, so releasing or storing one shows up as an unbalanced count.
\<close>

datatype jsval =
    JUndef
  | JNull
  | JException
  | JBool bool
  | JInt "32 word"
  | JFloat64 "64 word"
  | JBigInt int
  | JStr string
  | JFun nat
  | JObject "(string \<times> jsval) list"
  | JArr "jsval list"
  | JArrayBuf nat
  | JTypedBuf nat
  | JIface nat
  | JIndet

fun is_ref :: "jsval \<Rightarrow> bool" where
  "is_ref JUndef = False"
| "is_ref JNull = False"
| "is_ref JException = False"
| "is_ref (JBool _) = False"
| "is_ref (JInt _) = False"
| "is_ref (JFloat64 _) = False"
| "is_ref _ = True"

fun JS_IsNumber :: "jsval \<Rightarrow> bool" where
  "JS_IsNumber (JInt _) = True"
| "JS_IsNumber (JFloat64 _) = True"
| "JS_IsNumber _ = False"

fun JS_IsFunction :: "jsval \<Rightarrow> bool" where
  "JS_IsFunction (JFun _) = True"
| "JS_IsFunction _ = False"

fun JS_IsArray :: "jsval \<Rightarrow> bool" where
  "JS_IsArray (JArr _) = True"
| "JS_IsArray _ = False"

fun JS_IsString :: "jsval \<Rightarrow> bool" where
  "JS_IsString (JStr _) = True"
| "JS_IsString _ = False"

fun JS_IsObject :: "jsval \<Rightarrow> bool" where
  "JS_IsObject (JFun _) = True"
| "JS_IsObject (JObject _) = True"
| "JS_IsObject (JArr _) = True"
| "JS_IsObject (JArrayBuf _) = True"
| "JS_IsObject (JTypedBuf _) = True"
| "JS_IsObject (JIface _) = True"
| "JS_IsObject _ = False"

fun JS_GetProperty :: "jsval \<Rightarrow> string \<Rightarrow> jsval" where
  "JS_GetProperty (JObject ps) k = (case map_of ps k of Some v \<Rightarrow> v | None \<Rightarrow> JUndef)"
| "JS_GetProperty _ k = JUndef"

section \<open>The engine's primitives\<close>

record engine =
  e_NewUint32 :: "32 word \<Rightarrow> jsval"
  e_NewInt64 :: "64 word \<Rightarrow> jsval"
  e_NewBigUint64 :: "64 word \<Rightarrow> jsval"
  e_NewFloat64 :: "64 word \<Rightarrow> jsval"
  e_ToUint32 :: "jsval \<Rightarrow> 32 word option"
  e_ToInt64 :: "jsval \<Rightarrow> 64 word option"
  e_ToIndex :: "jsval \<Rightarrow> 64 word option"
  e_ToFloat64 :: "jsval \<Rightarrow> 64 word option"
  e_f32_of_f64 :: "64 word \<Rightarrow> 32 word"
  e_f64_of_f32 :: "32 word \<Rightarrow> 64 word"
  e_ParseJSON :: "string \<Rightarrow> jsval option"
  e_Stringify :: "jsval \<Rightarrow> string"
  e_protoToTarget :: "nat \<Rightarrow> jsval"
  e_protoToNative :: "jsval \<Rightarrow> nat"

definition engine_ok :: "engine \<Rightarrow> bool" where
  "engine_ok e \<longleftrightarrow>
     (\<forall>u. JS_IsNumber (e_NewUint32 e u) \<and> e_ToUint32 e (e_NewUint32 e u) = Some u) \<and>
     (\<forall>u. JS_IsNumber (e_NewInt64 e u) \<and>
          (- 9007199254740992 \<le> sint u \<and> sint u \<le> 9007199254740992 \<longrightarrow>
             e_ToInt64 e (e_NewInt64 e u) = Some u)) \<and>
     (\<forall>u. \<not> JS_IsNumber (e_NewBigUint64 e u)) \<and>
     (\<forall>d. JS_IsNumber (e_NewFloat64 e d) \<and> e_ToFloat64 e (e_NewFloat64 e d) = Some d) \<and>
     (\<forall>f. e_f32_of_f64 e (e_f64_of_f32 e f) = f)"

section \<open>Owned references and calls\<close>

record iface =
  if_is_interface :: bool
  if_init :: bool
  if_proto :: "string option"
  if_target :: jsval

record world =
  rc :: "jsval \<Rightarrow> int"
  calls :: "(jsval \<times> jsval list) list"
  ifaces :: "nat \<Rightarrow> iface option"

definition feature_dup_value :: "jsval \<Rightarrow> world \<Rightarrow> world" where
  "feature_dup_value v w = (if is_ref v then w\<lparr>rc := (rc w)(v := rc w v + 1)\<rparr> else w)"

definition feature_free_value :: "jsval \<Rightarrow> world \<Rightarrow> world" where
  "feature_free_value v w = (if is_ref v then w\<lparr>rc := (rc w)(v := rc w v - 1)\<rparr> else w)"

fun free_all :: "jsval list \<Rightarrow> world \<Rightarrow> world" where
  "free_all [] w = w"
| "free_all (v # vs) w = free_all vs (feature_free_value v w)"

definition feature_call :: "jsval \<Rightarrow> jsval list \<Rightarrow> world \<Rightarrow> world" where
  "feature_call f args w = w\<lparr>calls := calls w @ [(f, args)]\<rparr>"

text \<open>
  A value the engine creates comes with one reference owned by the native side.
  \<open>js_set_prop\<close> and \<open>js_push\<close> are \<open>JS_SetPropertyStr\<close> and \<open>JS_SetPropertyUint32\<close> on a
  fresh object or array the native side holds: the property's reference passes to the
  container, which has its new content from then on.
\<close>

abbreviation js_new :: "jsval \<Rightarrow> world \<Rightarrow> world" where
  "js_new \<equiv> feature_dup_value"

fun prop_put :: "string \<Rightarrow> jsval \<Rightarrow> (string \<times> jsval) list \<Rightarrow> (string \<times> jsval) list" where
  "prop_put k v [] = [(k, v)]"
| "prop_put k v ((k', v') # ps) = (if k = k' then (k, v) # ps else (k', v') # prop_put k v ps)"

fun js_set_prop :: "jsval \<Rightarrow> string \<Rightarrow> jsval \<Rightarrow> world \<Rightarrow> jsval \<times> world" where
  "js_set_prop (JObject ps) k v w =
     (let t = JObject (prop_put k v ps)
      in (t, feature_dup_value t (feature_free_value v (feature_free_value (JObject ps) w))))"
| "js_set_prop t k v w = (t, w)"

fun js_push :: "jsval \<Rightarrow> jsval \<Rightarrow> world \<Rightarrow> jsval \<times> world" where
  "js_push (JArr vs) v w =
     (let t = JArr (vs @ [v])
      in (t, feature_dup_value t (feature_free_value v (feature_free_value (JArr vs) w))))"
| "js_push t v w = (t, w)"

text \<open>An initialised interface instance owns one reference to its own target object.\<close>

fun iface_own :: "(nat \<Rightarrow> iface option) \<Rightarrow> jsval \<Rightarrow> int" where
  "iface_own I (JIface i) = (case I i of Some f \<Rightarrow> (if if_init f then 1 else 0) | None \<Rightarrow> 0)"
| "iface_own I _ = 0"

definition balanced :: "(jsval \<Rightarrow> int) \<Rightarrow> jsval multiset \<Rightarrow> world \<Rightarrow> bool" where
  "balanced b M w \<longleftrightarrow> (\<forall>v. is_ref v \<longrightarrow> rc w v = b v + iface_own (ifaces w) v + int (count M v))"

lemma balanced_dup: "balanced b M w \<Longrightarrow> balanced b (add_mset v M) (feature_dup_value v w)"
  by (auto simp: balanced_def feature_dup_value_def)

lemma balanced_free: "balanced b (add_mset v M) w \<Longrightarrow> balanced b M (feature_free_value v w)"
  by (auto simp: balanced_def feature_free_value_def)

lemma balanced_free_all: "balanced b (mset vs + M) w \<Longrightarrow> balanced b M (free_all vs w)"
  by (induction vs arbitrary: w) (auto intro: balanced_free)

lemma balanced_call [simp]: "balanced b M (feature_call f args w) = balanced b M w"
  by (simp add: balanced_def feature_call_def)

lemma balanced_nonref [simp]: "\<not> is_ref v \<Longrightarrow> balanced b (add_mset v M) w = balanced b M w"
  by (auto simp: balanced_def)

lemma balanced_unique:
  "balanced b M w \<Longrightarrow> balanced b M w' \<Longrightarrow> is_ref v \<Longrightarrow> ifaces w = ifaces w' \<Longrightarrow> rc w v = rc w' v"
  by (simp add: balanced_def)

lemma balanced_empty: "balanced b {#} w \<Longrightarrow> is_ref v \<Longrightarrow> rc w v = b v + iface_own (ifaces w) v"
  by (simp add: balanced_def)

lemma balanced_start: "balanced (\<lambda>v. rc w v - iface_own (ifaces w) v) {#} w"
  by (simp add: balanced_def)

lemma calls_dup [simp]: "calls (feature_dup_value v w) = calls w"
  by (simp add: feature_dup_value_def)

lemma calls_free [simp]: "calls (feature_free_value v w) = calls w"
  by (simp add: feature_free_value_def)

lemma calls_free_all [simp]: "calls (free_all vs w) = calls w"
  by (induction vs arbitrary: w) auto

lemma calls_call [simp]: "calls (feature_call f args w) = calls w @ [(f, args)]"
  by (simp add: feature_call_def)

lemma free_dup_cancel [simp]: "feature_free_value v (feature_dup_value v w) = w"
  by (simp add: feature_dup_value_def feature_free_value_def)

lemma free_dup_call [simp]:
  "feature_free_value v (feature_call f args (feature_dup_value v w)) = feature_call f args w"
  by (simp add: feature_dup_value_def feature_free_value_def feature_call_def)

lemma balanced_set_prop:
  "balanced b (add_mset v (add_mset (JObject ps) M)) w \<Longrightarrow>
   js_set_prop (JObject ps) k v w = (t, w') \<Longrightarrow> balanced b (add_mset t M) w'"
  by (auto simp: Let_def add_mset_commute intro!: balanced_dup balanced_free)

lemma balanced_push:
  "balanced b (add_mset v (add_mset (JArr vs) M)) w \<Longrightarrow>
   js_push (JArr vs) v w = (t, w') \<Longrightarrow> balanced b (add_mset t M) w'"
  by (auto simp: Let_def add_mset_commute intro!: balanced_dup balanced_free)

lemma map_of_prop_put [simp]: "map_of (prop_put k v ps) = (map_of ps)(k \<mapsto> v)"
  by (induction ps) (auto simp: fun_eq_iff)

lemma ifaces_simps [simp]:
  "ifaces (feature_dup_value v w) = ifaces w"
  "ifaces (feature_free_value v w) = ifaces w"
  "ifaces (feature_call f args w) = ifaces w"
  by (simp_all add: feature_dup_value_def feature_free_value_def feature_call_def)

lemmas balanced_intros = balanced_dup balanced_free balanced_free_all

end
