(* ===== verification/FeatureTypes.thy ===== *)
theory FeatureTypes
  imports JsWorld
begin

unbundle bit_operations_syntax

text \<open>
  Type descriptors: the tagged word \<open>FeatureType\<close> of \<open>include/feature_types.h\<close> and
  \<open>include/feature_description.h\<close>, its flag macros, and the helpers of
  \<open>src/feature_common.cpp\<close> that walk descriptors and the values they describe.
  A complex descriptor is a pointer in the code and a tree here; \<open>ftype_word\<close> gives
  the machine word of either form, and \<open>FT_IS_PRIMITIVE_word\<close> shows that the tag test
  on words agrees with the constructor.
\<close>

section \<open>Flags and enumerations\<close>

type_synonym uptr = "64 word"

definition TYPE_FLAGS_VALUE :: uptr where "TYPE_FLAGS_VALUE = 1"
definition TYPE_FLAGS_POINTER :: uptr where "TYPE_FLAGS_POINTER = 2"
definition TYPE_FLAGS_RAWPOINTER :: uptr where "TYPE_FLAGS_RAWPOINTER = TYPE_FLAGS_POINTER OR 1"
definition TYPE_FLAGS_UNMANAGED_POINTER :: uptr where
  "TYPE_FLAGS_UNMANAGED_POINTER = TYPE_FLAGS_RAWPOINTER"

definition FT_PRIMITIVE_BIT :: uptr where "FT_PRIMITIVE_BIT = 3"

definition FT_SET_PRIMITIVE_TYPE :: "uptr \<Rightarrow> uptr \<Rightarrow> uptr" where
  "FT_SET_PRIMITIVE_TYPE base flags = push_bit 2 base OR flags"

datatype prim =
    FT_VOID | FT_INT | FT_INT8 | FT_UINT8 | FT_INT16 | FT_UINT16 | FT_INT32 | FT_UINT32
  | FT_INT64 | FT_UINT64 | FT_FLOAT | FT_DOUBLE | FT_BOOLEAN | FT_STRING | FT_ANY_REF
  | FT_JSON_OBJ | FT_ARRAY_BUFFER

fun prim_base :: "prim \<Rightarrow> uptr" where
  "prim_base FT_VOID = 0"
| "prim_base FT_INT = 1"
| "prim_base FT_INT8 = 2"
| "prim_base FT_UINT8 = 3"
| "prim_base FT_INT16 = 4"
| "prim_base FT_UINT16 = 5"
| "prim_base FT_INT32 = 6"
| "prim_base FT_UINT32 = 7"
| "prim_base FT_INT64 = 8"
| "prim_base FT_UINT64 = 9"
| "prim_base FT_FLOAT = 10"
| "prim_base FT_DOUBLE = 11"
| "prim_base FT_BOOLEAN = 12"
| "prim_base FT_STRING = 13"
| "prim_base FT_ANY_REF = 14"
| "prim_base FT_JSON_OBJ = 15"
| "prim_base FT_ARRAY_BUFFER = 16"

fun prim_flags :: "prim \<Rightarrow> uptr" where
  "prim_flags FT_STRING = TYPE_FLAGS_POINTER"
| "prim_flags FT_ANY_REF = TYPE_FLAGS_POINTER"
| "prim_flags FT_JSON_OBJ = TYPE_FLAGS_POINTER"
| "prim_flags FT_ARRAY_BUFFER = TYPE_FLAGS_POINTER"
| "prim_flags _ = TYPE_FLAGS_VALUE"

definition prim_code :: "prim \<Rightarrow> uptr" where
  "prim_code p = FT_SET_PRIMITIVE_TYPE (prim_base p) (prim_flags p)"

datatype complex_enum =
    COMPLEX_STRUCT_MAP | COMPLEX_OPTIONAL | COMPLEX_CALLBACK | COMPLEX_ARRAY
  | COMPLEX_PROMISE | COMPLEX_INTERFACE | COMPLEX_PROTOBUF

fun complex_base :: "complex_enum \<Rightarrow> uptr" where
  "complex_base COMPLEX_STRUCT_MAP = 1"
| "complex_base COMPLEX_OPTIONAL = 2"
| "complex_base COMPLEX_CALLBACK = 3"
| "complex_base COMPLEX_ARRAY = 4"
| "complex_base COMPLEX_PROMISE = 5"
| "complex_base COMPLEX_INTERFACE = 6"
| "complex_base COMPLEX_PROTOBUF = 7"

fun complex_flags :: "complex_enum \<Rightarrow> uptr" where
  "complex_flags COMPLEX_STRUCT_MAP = TYPE_FLAGS_POINTER"
| "complex_flags COMPLEX_OPTIONAL = TYPE_FLAGS_VALUE"
| "complex_flags COMPLEX_CALLBACK = TYPE_FLAGS_VALUE"
| "complex_flags COMPLEX_ARRAY = TYPE_FLAGS_POINTER"
| "complex_flags COMPLEX_PROMISE = TYPE_FLAGS_UNMANAGED_POINTER"
| "complex_flags COMPLEX_INTERFACE = TYPE_FLAGS_UNMANAGED_POINTER"
| "complex_flags COMPLEX_PROTOBUF = TYPE_FLAGS_POINTER"

definition DEF_COMPLEX_TYPE :: "complex_enum \<Rightarrow> uptr" where
  "DEF_COMPLEX_TYPE c = push_bit 2 (complex_base c) OR complex_flags c"

section \<open>Descriptors\<close>

datatype 'a pentry = PType 'a | PRestEnd | PEnd

datatype optval = OptVal (obits: "64 word") (ostr: "string option")

datatype ftype =
    Prim prim
  | StructMap nat "(string \<times> ftype \<times> nat) list"
  | Optional ftype optval
  | Callback "ftype pentry list" ftype
  | Array ftype
  | Promise ftype
  | Interface string
  | Protobuf string

fun complex_of :: "ftype \<Rightarrow> complex_enum option" where
  "complex_of (Prim _) = None"
| "complex_of (StructMap _ _) = Some COMPLEX_STRUCT_MAP"
| "complex_of (Optional _ _) = Some COMPLEX_OPTIONAL"
| "complex_of (Callback _ _) = Some COMPLEX_CALLBACK"
| "complex_of (Array _) = Some COMPLEX_ARRAY"
| "complex_of (Promise _) = Some COMPLEX_PROMISE"
| "complex_of (Interface _) = Some COMPLEX_INTERFACE"
| "complex_of (Protobuf _) = Some COMPLEX_PROTOBUF"

definition ftype_word :: "(ftype \<Rightarrow> uptr) \<Rightarrow> ftype \<Rightarrow> uptr" where
  "ftype_word addr t = (case t of Prim p \<Rightarrow> prim_code p | _ \<Rightarrow> addr t)"

definition FT_IS_PRIMITIVE_W :: "uptr \<Rightarrow> bool" where
  "FT_IS_PRIMITIVE_W w \<longleftrightarrow> w AND FT_PRIMITIVE_BIT \<noteq> 0"

definition FT_IS_COMPLEX_W :: "uptr \<Rightarrow> bool" where
  "FT_IS_COMPLEX_W w \<longleftrightarrow> w AND FT_PRIMITIVE_BIT = 0"

fun FT_IS_PRIMITIVE :: "ftype \<Rightarrow> bool" where
  "FT_IS_PRIMITIVE (Prim _) = True"
| "FT_IS_PRIMITIVE _ = False"

abbreviation FT_IS_COMPLEX :: "ftype \<Rightarrow> bool" where
  "FT_IS_COMPLEX t \<equiv> \<not> FT_IS_PRIMITIVE t"

fun FT_GET_REAL_TYPE :: "ftype \<Rightarrow> ftype" where
  "FT_GET_REAL_TYPE (Optional t _) = t"
| "FT_GET_REAL_TYPE t = t"

definition FT_GET_TYPE_ENUM :: "ftype \<Rightarrow> uptr" where
  "FT_GET_TYPE_ENUM t = (case t of Prim p \<Rightarrow> prim_code p
     | _ \<Rightarrow> (case complex_of t of Some c \<Rightarrow> DEF_COMPLEX_TYPE c | None \<Rightarrow> 0))"

definition FT_GET_FLAG :: "ftype \<Rightarrow> uptr" where
  "FT_GET_FLAG t = FT_GET_TYPE_ENUM (FT_GET_REAL_TYPE t) AND TYPE_FLAGS_UNMANAGED_POINTER"

definition FT_IS_REFERENCE :: "ftype \<Rightarrow> bool" where
  "FT_IS_REFERENCE t \<longleftrightarrow> FT_GET_FLAG t AND TYPE_FLAGS_POINTER \<noteq> 0"

definition FT_NEED_FREE :: "ftype \<Rightarrow> bool" where
  "FT_NEED_FREE t \<longleftrightarrow> FT_GET_FLAG t = TYPE_FLAGS_POINTER"

definition FT_IS_RAW_REFERENCE :: "ftype \<Rightarrow> bool" where
  "FT_IS_RAW_REFERENCE t \<longleftrightarrow> FT_GET_FLAG t AND TYPE_FLAGS_RAWPOINTER \<noteq> 0"

definition FT_PARAM_REST_END :: uptr where
  "FT_PARAM_REST_END = push_bit 63 1"

lemmas type_flags = TYPE_FLAGS_VALUE_def TYPE_FLAGS_POINTER_def TYPE_FLAGS_RAWPOINTER_def
  TYPE_FLAGS_UNMANAGED_POINTER_def FT_PRIMITIVE_BIT_def

lemma prim_code_simps [simp]:
  "prim_code FT_VOID = 1" "prim_code FT_INT = 5" "prim_code FT_INT8 = 9" "prim_code FT_UINT8 = 13"
  "prim_code FT_INT16 = 17" "prim_code FT_UINT16 = 21" "prim_code FT_INT32 = 25"
  "prim_code FT_UINT32 = 29" "prim_code FT_INT64 = 33" "prim_code FT_UINT64 = 37"
  "prim_code FT_FLOAT = 41" "prim_code FT_DOUBLE = 45" "prim_code FT_BOOLEAN = 49"
  "prim_code FT_STRING = 54" "prim_code FT_ANY_REF = 58" "prim_code FT_JSON_OBJ = 62"
  "prim_code FT_ARRAY_BUFFER = 66"
  by (simp_all add: prim_code_def FT_SET_PRIMITIVE_TYPE_def type_flags)

lemma complex_code_simps [simp]:
  "DEF_COMPLEX_TYPE COMPLEX_STRUCT_MAP = 6" "DEF_COMPLEX_TYPE COMPLEX_OPTIONAL = 9"
  "DEF_COMPLEX_TYPE COMPLEX_CALLBACK = 13" "DEF_COMPLEX_TYPE COMPLEX_ARRAY = 18"
  "DEF_COMPLEX_TYPE COMPLEX_PROMISE = 23" "DEF_COMPLEX_TYPE COMPLEX_INTERFACE = 27"
  "DEF_COMPLEX_TYPE COMPLEX_PROTOBUF = 30"
  by (simp_all add: DEF_COMPLEX_TYPE_def type_flags)

lemma FT_IS_REFERENCE_iff:
  "FT_IS_REFERENCE t \<longleftrightarrow>
     (case FT_GET_REAL_TYPE t of
        Prim p \<Rightarrow> p \<in> {FT_STRING, FT_ANY_REF, FT_JSON_OBJ, FT_ARRAY_BUFFER}
      | Optional _ _ \<Rightarrow> False | Callback _ _ \<Rightarrow> False | _ \<Rightarrow> True)"
proof (cases "FT_GET_REAL_TYPE t")
  case (Prim p)
  then show ?thesis
    by (cases p) (simp_all add: FT_IS_REFERENCE_def FT_GET_FLAG_def FT_GET_TYPE_ENUM_def type_flags)
qed (simp_all add: FT_IS_REFERENCE_def FT_GET_FLAG_def FT_GET_TYPE_ENUM_def type_flags)

lemma FT_NEED_FREE_iff:
  "FT_NEED_FREE t \<longleftrightarrow>
     (case FT_GET_REAL_TYPE t of
        Prim p \<Rightarrow> p \<in> {FT_STRING, FT_ANY_REF, FT_JSON_OBJ, FT_ARRAY_BUFFER}
      | StructMap _ _ \<Rightarrow> True | Array _ \<Rightarrow> True | Protobuf _ \<Rightarrow> True | _ \<Rightarrow> False)"
proof (cases "FT_GET_REAL_TYPE t")
  case (Prim p)
  then show ?thesis
    by (cases p) (simp_all add: FT_NEED_FREE_def FT_GET_FLAG_def FT_GET_TYPE_ENUM_def type_flags)
qed (simp_all add: FT_NEED_FREE_def FT_GET_FLAG_def FT_GET_TYPE_ENUM_def type_flags)

lemma FT_IS_RAW_REFERENCE_always: "FT_IS_RAW_REFERENCE t"
proof (cases "FT_GET_REAL_TYPE t")
  case (Prim p)
  then show ?thesis
    by (cases p) (simp_all add: FT_IS_RAW_REFERENCE_def FT_GET_FLAG_def FT_GET_TYPE_ENUM_def type_flags)
qed (simp_all add: FT_IS_RAW_REFERENCE_def FT_GET_FLAG_def FT_GET_TYPE_ENUM_def type_flags)


lemma size_real_type [termination_simp]: "size (FT_GET_REAL_TYPE t) \<le> size t"
  by (cases t) auto

lemma real_type_idem [simp]: "FT_IS_COMPLEX t \<Longrightarrow> complex_of t \<noteq> Some COMPLEX_OPTIONAL \<Longrightarrow> FT_GET_REAL_TYPE t = t"
  by (cases t) auto

section \<open>Parameter lists and sizes\<close>

definition sizeof_ptr :: nat where "sizeof_ptr = 8"

fun getAlignedCount :: "nat \<Rightarrow> ftype \<Rightarrow> nat" where
  "getAlignedCount psz t =
     (if psz = 8 then 1
      else case t of
        Prim p \<Rightarrow> (if p = FT_DOUBLE \<or> p = FT_INT64 \<or> p = FT_UINT64 then 2 else 1)
      | Optional u _ \<Rightarrow> getAlignedCount psz u
      | _ \<Rightarrow> 1)"

declare getAlignedCount.simps [simp del]

record param_info =
  pi_count :: nat
  pi_rest :: bool
  pi_optional :: nat
  pi_int_count :: nat

fun is_optional :: "ftype \<Rightarrow> bool" where
  "is_optional (Optional _ _) = True"
| "is_optional _ = False"

fun getParamCount_loop :: "nat \<Rightarrow> ftype pentry list \<Rightarrow> param_info \<Rightarrow> param_info" where
  "getParamCount_loop psz (PType t # ps) i =
     getParamCount_loop psz ps
       (i\<lparr>pi_count := pi_count i + 1,
          pi_int_count := pi_int_count i + getAlignedCount psz t,
          pi_optional := (if is_optional t then pi_optional i + 1 else pi_optional i)\<rparr>)"
| "getParamCount_loop psz (PRestEnd # ps) i = i\<lparr>pi_rest := True\<rparr>"
| "getParamCount_loop psz (PEnd # ps) i = i\<lparr>pi_rest := False\<rparr>"
| "getParamCount_loop psz [] i = i\<lparr>pi_rest := False\<rparr>"

definition getParamCount :: "nat \<Rightarrow> ftype pentry list option \<Rightarrow> param_info" where
  "getParamCount psz ps =
     (let i = \<lparr>pi_count = 0, pi_rest = False, pi_optional = 0, pi_int_count = 0\<rparr>
      in case ps of None \<Rightarrow> i | Some l \<Rightarrow> getParamCount_loop psz l i)"

text \<open>The declared types of a parameter list, up to its terminator.\<close>

fun param_types :: "ftype pentry list \<Rightarrow> ftype list" where
  "param_types (PType t # ps) = t # param_types ps"
| "param_types _ = []"

fun rest_ended :: "ftype pentry list \<Rightarrow> bool" where
  "rest_ended (PType t # ps) = rest_ended ps"
| "rest_ended (PRestEnd # ps) = True"
| "rest_ended _ = False"

lemma getParamCount_loop_eq:
  "getParamCount_loop psz ps i =
     i\<lparr>pi_count := pi_count i + length (param_types ps),
       pi_rest := rest_ended ps,
       pi_optional := pi_optional i + length (filter is_optional (param_types ps)),
       pi_int_count := pi_int_count i + sum_list (map (getAlignedCount psz) (param_types ps))\<rparr>"
  by (induction psz ps i rule: getParamCount_loop.induct) auto

lemma getParamCount_Some:
  "getParamCount psz (Some ps) =
     \<lparr>pi_count = length (param_types ps), pi_rest = rest_ended ps,
      pi_optional = length (filter is_optional (param_types ps)),
      pi_int_count = sum_list (map (getAlignedCount psz) (param_types ps))\<rparr>"
  by (simp add: getParamCount_def getParamCount_loop_eq)

lemma getParamCount_None: "getParamCount psz None = \<lparr>pi_count = 0, pi_rest = False, pi_optional = 0, pi_int_count = 0\<rparr>"
  by (simp add: getParamCount_def)

definition getValueSize :: "ftype \<Rightarrow> nat" where
  "getValueSize t0 =
     (let t = FT_GET_REAL_TYPE t0 in
      if FT_IS_REFERENCE t then sizeof_ptr
      else case t of
        Prim FT_VOID \<Rightarrow> 0
      | Prim FT_INT \<Rightarrow> 4
      | Prim FT_INT8 \<Rightarrow> 1
      | Prim FT_UINT8 \<Rightarrow> 1
      | Prim FT_INT16 \<Rightarrow> 2
      | Prim FT_UINT16 \<Rightarrow> 2
      | Prim FT_INT32 \<Rightarrow> 4
      | Prim FT_UINT32 \<Rightarrow> 4
      | Prim FT_INT64 \<Rightarrow> 8
      | Prim FT_UINT64 \<Rightarrow> 8
      | Prim FT_DOUBLE \<Rightarrow> 8
      | Prim FT_FLOAT \<Rightarrow> 4
      | Prim FT_BOOLEAN \<Rightarrow> 1
      | Prim FT_STRING \<Rightarrow> sizeof_ptr
      | Prim FT_ANY_REF \<Rightarrow> sizeof_ptr
      | Prim _ \<Rightarrow> 0
      | Callback _ _ \<Rightarrow> 4
      | _ \<Rightarrow> 0)"

definition FeatureTypeGetValueSize :: "ftype \<Rightarrow> nat" where
  "FeatureTypeGetValueSize t = (if FT_IS_REFERENCE t then sizeof_ptr else getValueSize t)"

lemma FT_IS_REFERENCE_real:
  "\<not> is_optional (FT_GET_REAL_TYPE t) \<Longrightarrow> FT_IS_REFERENCE (FT_GET_REAL_TYPE t) = FT_IS_REFERENCE t"
  by (cases "FT_GET_REAL_TYPE t") (simp_all add: FT_IS_REFERENCE_iff)

section \<open>Default values of optional parameters\<close>

datatype optout =
    OBool bool
  | OInt32 "32 word"
  | OInt64 "64 word"
  | OUint32 "32 word"
  | OUint64 "64 word"
  | OFloat "32 word"
  | ODouble "64 word"
  | OString string
  | OPtr "64 word"
  | OUntouched

definition convertOptional :: "engine \<Rightarrow> ftype \<Rightarrow> optval \<Rightarrow> bool \<times> optout" where
  "convertOptional e t ov =
     (let ival = ucast (obits ov) :: 32 word in
      case t of
        Prim FT_VOID \<Rightarrow> (False, OUntouched)
      | Prim FT_BOOLEAN \<Rightarrow> (True, OBool (ival \<noteq> 0))
      | Prim FT_INT \<Rightarrow> (True, OInt32 ival)
      | Prim FT_INT64 \<Rightarrow> (True, OInt64 (obits ov))
      | Prim FT_UINT32 \<Rightarrow> (True, OUint32 ival)
      | Prim FT_UINT64 \<Rightarrow> (True, OUint64 (obits ov))
      | Prim FT_FLOAT \<Rightarrow> (True, OFloat (e_f32_of_f64 e (obits ov)))
      | Prim FT_DOUBLE \<Rightarrow> (True, ODouble (obits ov))
      | Prim FT_STRING \<Rightarrow> (True, case ostr ov of None \<Rightarrow> OUntouched | Some s \<Rightarrow> OString s)
      | Prim FT_ANY_REF \<Rightarrow> (True, OPtr (obits ov))
      | Prim FT_JSON_OBJ \<Rightarrow> (True, OPtr (obits ov))
      | Prim _ \<Rightarrow> (False, OUntouched)
      | _ \<Rightarrow> (True, OPtr (obits ov)))"

section \<open>Looking up a callback member by name\<close>

text \<open>
  The struct a member is read from is given by the callback id stored at each
  offset; \<open>None\<close> is the null struct pointer. The outer \<open>None\<close> of the result is the
  undefined behaviour of the code on an optional of a primitive type, whose stripped
  descriptor is dereferenced without a check.
\<close>

fun find_cb_member :: "(string \<times> ftype \<times> nat) list \<Rightarrow> (nat \<Rightarrow> int) \<Rightarrow> string \<Rightarrow> int" where
  "find_cb_member [] rd name = 0"
| "find_cb_member ((n, t, off) # ms) rd name =
     (if FT_IS_PRIMITIVE t then find_cb_member ms rd name
      else if n \<noteq> name then find_cb_member ms rd name
      else case t of
        Optional u _ \<Rightarrow> (case u of Callback _ _ \<Rightarrow> rd off | _ \<Rightarrow> 0)
      | Callback _ _ \<Rightarrow> rd off
      | _ \<Rightarrow> find_cb_member ms rd name)"

definition findCallbackIdByName :: "ftype \<Rightarrow> (nat \<Rightarrow> int) option \<Rightarrow> string \<Rightarrow> int option" where
  "findCallbackIdByName t st name =
     (if FT_IS_PRIMITIVE t then Some 0
      else case FT_GET_REAL_TYPE t of
        Prim _ \<Rightarrow> None
      | StructMap _ ms \<Rightarrow> (case st of None \<Rightarrow> Some 0 | Some rd \<Rightarrow> Some (find_cb_member ms rd name))
      | _ \<Rightarrow> Some 0)"

section \<open>Native values and the script references they hold\<close>

text \<open>
  A native value as it sits in a slot of a given descriptor: the bits of a scalar,
  or what the pointer in the slot leads to (struct members by offset).
\<close>

datatype nval =
    NNull
  | NBits "64 word"
  | NStr string
  | NAny jsval
  | NJson string
  | NBuf jsval
  | NStruct "(nat \<times> nval) list"
  | NArr "nval list"
  | NIface nat
  | NProto nat

text \<open>
  Every traversal of a value along its descriptor ends: a member or element
  descriptor is smaller, a rest of members or elements is shorter.
\<close>

abbreviation members_size :: "(string \<times> ftype \<times> nat) list \<Rightarrow> nat" where
  "members_size ms \<equiv> size_list (size_prod (\<lambda>x. 0) (size_prod size (\<lambda>x. 0))) ms"

lemma size_member: "(n, t, off) \<in> set ms \<Longrightarrow> size t < size (StructMap k ms)"
  by (induction ms) auto

lemma size_real_type_less [simp, termination_simp]:
  "2 * size (FT_GET_REAL_TYPE t) < Suc (Suc (Suc (Suc (2 * size t + k))))"
  "2 * size (FT_GET_REAL_TYPE t) < Suc (2 * size t + k)"
  "2 * size (FT_GET_REAL_TYPE t) < Suc (Suc (Suc (Suc (Suc (2 * size t + k)))))"
  "2 * size (FT_GET_REAL_TYPE t) < Suc (Suc (Suc (Suc (Suc (Suc (Suc (2 * size t + k)))))))"
  using size_real_type [of t] by linarith+

function (sequential)
  freeFtValue :: "ftype \<Rightarrow> nval \<Rightarrow> world \<Rightarrow> world"
  and free_members :: "(string \<times> ftype \<times> nat) list \<Rightarrow> (nat \<times> nval) list \<Rightarrow> world \<Rightarrow> world"
  and free_elems :: "ftype \<Rightarrow> nval list \<Rightarrow> world \<Rightarrow> world"
where
  "freeFtValue (Prim FT_ANY_REF) (NAny v) w = feature_free_value v w"
| "freeFtValue (StructMap _ ms) (NStruct fs) w = free_members ms fs w"
| "freeFtValue (Array t) (NArr vs) w = free_elems t vs w"
| "freeFtValue _ _ w = w"
| "free_members [] fs w = w"
| "free_members ((n, t, off) # ms) fs w =
     free_members ms fs
       (if FT_NEED_FREE (FT_GET_REAL_TYPE t)
        then (case map_of fs off of Some v \<Rightarrow> freeFtValue (FT_GET_REAL_TYPE t) v w | None \<Rightarrow> w)
        else w)"
| "free_elems t [] w = w"
| "free_elems t (v # vs) w = free_elems t vs (freeFtValue t v w)"
  by pat_completeness auto

termination
proof (relation "measures [\<lambda>x. case x of
      Inl (t, v, w) \<Rightarrow> 2 * size t
    | Inr (Inl (ms, fs, w)) \<Rightarrow> 2 * members_size ms + 1
    | Inr (Inr (t, vs, w)) \<Rightarrow> 2 * size t + 1,
    \<lambda>x. case x of Inl _ \<Rightarrow> 0 | Inr (Inl (ms, fs, w)) \<Rightarrow> 0 | Inr (Inr (t, vs, w)) \<Rightarrow> length vs]")
qed auto

function (sequential)
  dupFtValue :: "ftype \<Rightarrow> nval \<Rightarrow> world \<Rightarrow> world"
  and dup_members :: "(string \<times> ftype \<times> nat) list \<Rightarrow> (nat \<times> nval) list \<Rightarrow> world \<Rightarrow> world"
  and dup_elems :: "ftype \<Rightarrow> nval list \<Rightarrow> world \<Rightarrow> world"
where
  "dupFtValue (Prim FT_ANY_REF) (NAny v) w = feature_dup_value v w"
| "dupFtValue (StructMap _ ms) (NStruct fs) w = dup_members ms fs w"
| "dupFtValue (Array t) (NArr vs) w = dup_elems t vs w"
| "dupFtValue _ _ w = w"
| "dup_members [] fs w = w"
| "dup_members ((n, t, off) # ms) fs w =
     dup_members ms fs
       (if FT_NEED_FREE (FT_GET_REAL_TYPE t)
        then (case map_of fs off of Some v \<Rightarrow> dupFtValue (FT_GET_REAL_TYPE t) v w | None \<Rightarrow> w)
        else w)"
| "dup_elems t [] w = w"
| "dup_elems t (v # vs) w = dup_elems t vs (dupFtValue t v w)"
  by pat_completeness auto

termination
proof (relation "measures [\<lambda>x. case x of
      Inl (t, v, w) \<Rightarrow> 2 * size t
    | Inr (Inl (ms, fs, w)) \<Rightarrow> 2 * members_size ms + 1
    | Inr (Inr (t, vs, w)) \<Rightarrow> 2 * size t + 1,
    \<lambda>x. case x of Inl _ \<Rightarrow> 0 | Inr (Inl (ms, fs, w)) \<Rightarrow> 0 | Inr (Inr (t, vs, w)) \<Rightarrow> length vs]")
qed auto

text \<open>The script references a value holds, in the order the two traversals meet them.\<close>

function (sequential)
  any_refs :: "ftype \<Rightarrow> nval \<Rightarrow> jsval multiset"
  and any_refs_members :: "(string \<times> ftype \<times> nat) list \<Rightarrow> (nat \<times> nval) list \<Rightarrow> jsval multiset"
  and any_refs_elems :: "ftype \<Rightarrow> nval list \<Rightarrow> jsval multiset"
where
  "any_refs (Prim FT_ANY_REF) (NAny v) = {#v#}"
| "any_refs (StructMap _ ms) (NStruct fs) = any_refs_members ms fs"
| "any_refs (Array t) (NArr vs) = any_refs_elems t vs"
| "any_refs _ _ = {#}"
| "any_refs_members [] fs = {#}"
| "any_refs_members ((n, t, off) # ms) fs =
     (if FT_NEED_FREE (FT_GET_REAL_TYPE t)
      then (case map_of fs off of Some v \<Rightarrow> any_refs (FT_GET_REAL_TYPE t) v | None \<Rightarrow> {#})
      else {#}) + any_refs_members ms fs"
| "any_refs_elems t [] = {#}"
| "any_refs_elems t (v # vs) = any_refs t v + any_refs_elems t vs"
  by pat_completeness auto

termination
proof (relation "measures [\<lambda>x. case x of
      Inl (t, v) \<Rightarrow> 2 * size t
    | Inr (Inl (ms, fs)) \<Rightarrow> 2 * members_size ms + 1
    | Inr (Inr (t, vs)) \<Rightarrow> 2 * size t + 1,
    \<lambda>x. case x of Inl _ \<Rightarrow> 0 | Inr (Inl (ms, fs)) \<Rightarrow> 0 | Inr (Inr (t, vs)) \<Rightarrow> length vs]")
qed auto

lemma balanced_dupFtValue:
  "balanced b M w \<Longrightarrow> balanced b (any_refs t v + M) (dupFtValue t v w)"
  "balanced b M w \<Longrightarrow> balanced b (any_refs_members ms fs + M) (dup_members ms fs w)"
  "balanced b M w \<Longrightarrow> balanced b (any_refs_elems t vs + M) (dup_elems t vs w)"
proof (induction t v w and ms fs w and t vs w arbitrary: M and M and M
    rule: dupFtValue_dup_members_dup_elems.induct)
  case (1 v w)
  then show ?case by (simp add: balanced_dup)
qed (fastforce simp: ac_simps split: option.splits)+

lemma balanced_freeFtValue:
  "balanced b (any_refs t v + M) w \<Longrightarrow> balanced b M (freeFtValue t v w)"
  "balanced b (any_refs_members ms fs + M) w \<Longrightarrow> balanced b M (free_members ms fs w)"
  "balanced b (any_refs_elems t vs + M) w \<Longrightarrow> balanced b M (free_elems t vs w)"
proof (induction t v w and ms fs w and t vs w arbitrary: M and M and M
    rule: freeFtValue_free_members_free_elems.induct)
  case (1 v w)
  then show ?case by (simp add: balanced_free)
qed (fastforce simp: ac_simps split: option.splits)+

lemma ifaces_dupFtValue:
  "ifaces (dupFtValue t v w) = ifaces w"
  "ifaces (dup_members ms fs w) = ifaces w"
  "ifaces (dup_elems t vs w) = ifaces w"
  by (induction t v w and ms fs w and t vs w rule: dupFtValue_dup_members_dup_elems.induct)
     (auto split: option.splits)

lemma ifaces_freeFtValue:
  "ifaces (freeFtValue t v w) = ifaces w"
  "ifaces (free_members ms fs w) = ifaces w"
  "ifaces (free_elems t vs w) = ifaces w"
  by (induction t v w and ms fs w and t vs w rule: freeFtValue_free_members_free_elems.induct)
     (auto split: option.splits)

end
