(* ===== verification/Callbacks.thy ===== *)
theory Callbacks
  imports HandleTable FeatureTypes
begin

text \<open>
  \<open>CallbackManager\<close> of \<open>src/callback_manager.h\<close> with the reference handling of
  \<open>src/backend/qjs/callback_manager_qjs.h\<close>: script functions registered under positive
  ids, each holding one reference. Invariant \<open>cbm_ok\<close>: ids are positive and at most the
  counter, and no function is registered twice. \<open>JS_IsSameValue\<close> is equality of the model's
  values (callbacks are function objects, which it compares by identity).
\<close>

record cb_data =
  cd_cb :: jsval
  cd_params :: "ftype pentry list"

record cb_manager =
  callbacks :: "(int, cb_data) omap"
  curr_cid :: int

definition isSameValue :: "jsval \<Rightarrow> jsval \<Rightarrow> bool" where
  "isSameValue l r \<longleftrightarrow> l = r"

definition init_cbm :: cb_manager where
  "init_cbm = \<lparr>callbacks = [], curr_cid = 0\<rparr>"

fun find_cb :: "(int, cb_data) omap \<Rightarrow> jsval \<Rightarrow> int" where
  "find_cb [] v = 0"
| "find_cb ((cid, d) # m) v = (if isSameValue (cd_cb d) v then cid else find_cb m v)"

definition findCallbackId :: "cb_manager \<Rightarrow> jsval \<Rightarrow> int" where
  "findCallbackId m v = find_cb (callbacks m) v"

definition addCallback :: "jsval \<Rightarrow> ftype pentry list \<Rightarrow> cb_manager \<Rightarrow> world \<Rightarrow>
    int \<times> cb_manager \<times> world" where
  "addCallback v ps m w =
     (let cid = findCallbackId m v in
      if cid > 0 then (cid, m, w)
      else (let w' = feature_dup_value v w;
                c = inc32 (curr_cid m)
            in (c, m\<lparr>curr_cid := c,
                     callbacks := omap_put c \<lparr>cd_cb = v, cd_params = ps\<rparr> (callbacks m)\<rparr>, w')))"

definition eraseCallback :: "int \<Rightarrow> cb_manager \<Rightarrow> world \<Rightarrow> bool \<times> cb_manager \<times> world" where
  "eraseCallback cid m w =
     (if cid \<le> 0 then (False, m, w)
      else case map_of (callbacks m) cid of
        None \<Rightarrow> (False, m, w)
      | Some d \<Rightarrow> (True, m\<lparr>callbacks := omap_del cid (callbacks m)\<rparr>,
                    feature_free_value (cd_cb d) w))"

definition clearCallbacks :: "cb_manager \<Rightarrow> world \<Rightarrow> cb_manager \<times> world" where
  "clearCallbacks m w =
     (m\<lparr>callbacks := []\<rparr>, free_all (map cd_cb (ovals (callbacks m))) w)"

definition getCallbackData :: "cb_manager \<Rightarrow> int \<Rightarrow> cb_data option" where
  "getCallbackData m cid = map_of (callbacks m) cid"

section \<open>Invariant and ownership\<close>

definition cbm_ok :: "cb_manager \<Rightarrow> bool" where
  "cbm_ok m \<longleftrightarrow> omap_ok (callbacks m) \<and> 0 \<le> curr_cid m \<and> curr_cid m \<le> INT32_MAX \<and>
     (\<forall>k\<in>okeys (callbacks m). 0 < k \<and> k \<le> curr_cid m) \<and>
     distinct (map cd_cb (ovals (callbacks m)))"

definition cbm_refs :: "cb_manager \<Rightarrow> jsval multiset" where
  "cbm_refs m = mset (map cd_cb (ovals (callbacks m)))"

lemma find_cb_Some:
  "\<forall>k\<in>okeys m. 0 < k \<Longrightarrow> 0 < find_cb m v \<Longrightarrow> omap_ok m \<Longrightarrow>
   \<exists>d. map_of m (find_cb m v) = Some d \<and> cd_cb d = v"
proof (induction m v rule: find_cb.induct)
  case (2 cid d m v)
  show ?case
  proof (cases "cd_cb d = v")
    case False
    then obtain d' where d': "map_of m (find_cb m v) = Some d'" "cd_cb d' = v"
      using 2 by (auto simp: isSameValue_def omap_ok_Cons)
    then have "find_cb m v \<in> okeys m" by (auto simp: okeys_iff)
    then have "find_cb m v \<noteq> cid" using 2(4) by (auto simp: omap_ok_Cons)
    then show ?thesis using d' False by (auto simp: isSameValue_def)
  qed (simp add: isSameValue_def)
qed simp

lemma find_cb_None:
  "\<forall>k\<in>okeys m. 0 < k \<Longrightarrow> \<not> 0 < find_cb m v \<Longrightarrow> v \<notin> cd_cb ` set (ovals m)"
  by (induction m v rule: find_cb.induct) (auto simp: isSameValue_def split: if_splits)

lemma init_cbm_ok [simp]: "cbm_ok init_cbm" "cbm_refs init_cbm = {#}"
  by (simp_all add: cbm_ok_def cbm_refs_def init_cbm_def)

lemma cbm_next_fresh: "cbm_ok m \<Longrightarrow> curr_cid m + 1 \<notin> okeys (callbacks m)"
  by (auto simp: cbm_ok_def)

lemma distinct_put_new:
  "k \<notin> okeys m \<Longrightarrow> distinct (map f (ovals m)) \<Longrightarrow> f v \<notin> f ` set (ovals m) \<Longrightarrow>
   distinct (map f (ovals (omap_put k v m)))"
proof -
  assume a: "k \<notin> okeys m" "distinct (map f (ovals m))" "f v \<notin> f ` set (ovals m)"
  have "mset (map f (ovals (omap_put k v m))) = mset (map f (v # ovals m))"
    using mset_ovals_put_new [OF a(1), of v] by simp
  then have "distinct (map f (ovals (omap_put k v m))) = distinct (map f (v # ovals m))"
    using mset_eq_imp_distinct_iff by blast
  then show ?thesis using a by simp
qed

lemma distinct_del: "distinct (map f (ovals m)) \<Longrightarrow> distinct (map f (ovals (omap_del k m)))"
proof (induction m)
  case (Cons p m)
  have "set (ovals (omap_del k m)) \<subseteq> set (ovals m)" by (auto simp: ovals_def omap_del_def)
  then show ?case using Cons by (auto simp: omap_del_def)
qed (simp add: omap_del_def)

lemma addCallback_spec:
  assumes "cbm_ok m" "curr_cid m < INT32_MAX" "addCallback v ps m w = (i, m', w')"
  shows "cbm_ok m'" "0 < i"
    "(m' = m \<and> w' = w \<and> (\<exists>d. map_of (callbacks m) i = Some d \<and> cd_cb d = v)) \<or>
     (i = curr_cid m + 1 \<and> curr_cid m' = curr_cid m + 1 \<and> v \<notin># cbm_refs m \<and>
      map_of (callbacks m') = (map_of (callbacks m))(i \<mapsto> \<lparr>cd_cb = v, cd_params = ps\<rparr>) \<and>
      cbm_refs m' = add_mset v (cbm_refs m) \<and> w' = feature_dup_value v w)"
proof -
  have pos: "\<forall>k\<in>okeys (callbacks m). 0 < k" and ok: "omap_ok (callbacks m)"
    using assms(1) by (auto simp: cbm_ok_def)
  have "cbm_ok m' \<and> 0 < i \<and>
    ((m' = m \<and> w' = w \<and> (\<exists>d. map_of (callbacks m) i = Some d \<and> cd_cb d = v)) \<or>
     (i = curr_cid m + 1 \<and> curr_cid m' = curr_cid m + 1 \<and> v \<notin># cbm_refs m \<and>
      map_of (callbacks m') = (map_of (callbacks m))(i \<mapsto> \<lparr>cd_cb = v, cd_params = ps\<rparr>) \<and>
      cbm_refs m' = add_mset v (cbm_refs m) \<and> w' = feature_dup_value v w))"
  proof (cases "0 < findCallbackId m v")
    case True
    then show ?thesis
      using assms find_cb_Some [OF pos _ ok, of v]
      by (auto simp: addCallback_def findCallbackId_def)
  next
    case False
    have inc: "inc32 (curr_cid m) = curr_cid m + 1" using assms by (simp add: cbm_ok_def)
    have new: "v \<notin> cd_cb ` set (ovals (callbacks m))"
      using False find_cb_None [OF pos] by (simp add: findCallbackId_def)
    have m': "m' = m\<lparr>curr_cid := curr_cid m + 1, callbacks :=
        omap_put (curr_cid m + 1) \<lparr>cd_cb = v, cd_params = ps\<rparr> (callbacks m)\<rparr>"
      and i: "i = curr_cid m + 1" and w': "w' = feature_dup_value v w"
      using assms(3) False by (auto simp: addCallback_def Let_def inc)
    have "distinct (map cd_cb (ovals (callbacks m')))"
      unfolding m'
      using distinct_put_new [OF cbm_next_fresh [OF assms(1)], of cd_cb "\<lparr>cd_cb = v, cd_params = ps\<rparr>"]
        assms(1) new by (auto simp: cbm_ok_def)
    then have "cbm_ok m'" using assms(1,2) by (auto simp: m' cbm_ok_def)
    moreover have "cbm_refs m' = add_mset v (cbm_refs m)"
      using mset_ovals_put_new [OF cbm_next_fresh [OF assms(1)]] by (simp add: m' cbm_refs_def)
    moreover have "v \<notin># cbm_refs m" using new by (simp add: cbm_refs_def)
    ultimately show ?thesis using i w' assms(1) by (simp add: m' cbm_ok_def)
  qed
  then show "cbm_ok m'" "0 < i"
    "(m' = m \<and> w' = w \<and> (\<exists>d. map_of (callbacks m) i = Some d \<and> cd_cb d = v)) \<or>
     (i = curr_cid m + 1 \<and> curr_cid m' = curr_cid m + 1 \<and> v \<notin># cbm_refs m \<and>
      map_of (callbacks m') = (map_of (callbacks m))(i \<mapsto> \<lparr>cd_cb = v, cd_params = ps\<rparr>) \<and>
      cbm_refs m' = add_mset v (cbm_refs m) \<and> w' = feature_dup_value v w)" by auto
qed

lemma addCallback_balanced:
  assumes "cbm_ok m" "curr_cid m < INT32_MAX" "addCallback v ps m w = (i, m', w')"
    "balanced b (cbm_refs m + M) w"
  shows "balanced b (cbm_refs m' + M) w'"
  using addCallback_spec(3) [OF assms(1-3)] assms(4) by (auto intro: balanced_dup)

lemma eraseCallback_spec:
  assumes "cbm_ok m" "eraseCallback i m w = (r, m', w')"
  shows "cbm_ok m'" "curr_cid m' = curr_cid m"
    "map_of (callbacks m') = (map_of (callbacks m))(i := None)"
    "r = (getCallbackData m i \<noteq> None)"
    "balanced b (cbm_refs m + M) w \<Longrightarrow> balanced b (cbm_refs m' + M) w'"
proof -
  have absent: "map_of (callbacks m) i = None" if "i \<le> 0"
    using assms(1) that by (force simp: cbm_ok_def map_of_None_okeys)
  have "cbm_ok m' \<and> curr_cid m' = curr_cid m \<and>
    map_of (callbacks m') = (map_of (callbacks m))(i := None) \<and>
    r = (getCallbackData m i \<noteq> None) \<and>
    (balanced b (cbm_refs m + M) w \<longrightarrow> balanced b (cbm_refs m' + M) w')"
  proof (cases "map_of (callbacks m) i")
    case None
    then show ?thesis using assms
      by (auto simp: eraseCallback_def getCallbackData_def fun_eq_iff split: if_splits)
  next
    case (Some d)
    then have i: "\<not> i \<le> 0" using absent by auto
    have ok: "omap_ok (callbacks m)" using assms(1) by (simp add: cbm_ok_def)
    have "cbm_refs m = add_mset (cd_cb d) (cbm_refs m')"
      using mset_ovals_del [OF ok Some] assms(2) Some i
      by (auto simp: cbm_refs_def eraseCallback_def)
    then show ?thesis
      using assms Some i distinct_del [of cd_cb "callbacks m" i]
      by (auto simp: eraseCallback_def getCallbackData_def cbm_ok_def intro: balanced_free)
  qed
  then show "cbm_ok m'" "curr_cid m' = curr_cid m"
    "map_of (callbacks m') = (map_of (callbacks m))(i := None)"
    "r = (getCallbackData m i \<noteq> None)"
    "balanced b (cbm_refs m + M) w \<Longrightarrow> balanced b (cbm_refs m' + M) w'" by auto
qed

lemma clearCallbacks_spec:
  assumes "clearCallbacks m w = (m', w')"
  shows "callbacks m' = []" "cbm_refs m' = {#}" "curr_cid m' = curr_cid m"
    "cbm_ok m \<Longrightarrow> cbm_ok m'" "calls w' = calls w"
    "balanced b (cbm_refs m + M) w \<Longrightarrow> balanced b M w'"
  using assms by (auto simp: clearCallbacks_def cbm_refs_def cbm_ok_def intro: balanced_free_all)

section \<open>The table interface\<close>

interpretation cbt: handle_table
  "\<lambda>(m, w) i. getCallbackData m i"
  "\<lambda>d (m, w). addCallback (cd_cb d) (cd_params d) m w"
  "\<lambda>i (m, w). eraseCallback i m w"
  "\<lambda>(m, w). cbm_ok m"
  "\<lambda>(m, w). curr_cid m + 1"
  INT32_MAX
  "\<lambda>d d'. cd_cb d = cd_cb d'"
proof (unfold_locales, goal_cases)
  case (1 s i)
  then show ?case by (cases s) (force simp: getCallbackData_def cbm_ok_def okeys_iff)
next
  case (2 s d i s')
  obtain m w m' w' where "s = (m, w)" "s' = (m', w')" by (cases s, cases s')
  then show ?case
    using addCallback_spec [of m "cd_cb d" "cd_params d" w i m' w'] 2
    by (auto simp: getCallbackData_def fun_eq_iff)
next
  case (3 s i r s')
  obtain m w m' w' where "s = (m, w)" "s' = (m', w')" by (cases s, cases s')
  then show ?case
    using eraseCallback_spec(1-4) [of m i w r m' w'] 3
    by (auto simp: getCallbackData_def fun_eq_iff)
qed

end
