(* ===== verification/ToTarget.thy ===== *)
theory ToTarget
  imports FeatureTypes
begin

text \<open>
  Native values to script values: \<open>extractVariadicParam\<close> of \<open>src/feature_ffi.cpp\<close>, the
  \<open>toTarget\<close> family of \<open>src/value_translator.h\<close> and
  \<open>src/backend/qjs/value_translator_qjs.h\<close>, and \<open>convertValueToTarget\<close> of
  \<open>src/feature_convertor_templates.h\<close>, with the script references each step takes and
  gives back. \<open>target_of\<close> is the specification; \<open>convert_ok\<close> shows that the code
  computes it for every well-typed value and owns exactly one reference to the result.
\<close>

section \<open>Reading a variadic argument\<close>

text \<open>
  The caller's remaining arguments, each as the value its pointer or bits stand for;
  reading past the last one is undefined in C and yields a null here.
\<close>

fun va_arg :: "nval list \<Rightarrow> nval \<times> nval list" where
  "va_arg [] = (NNull, [])"
| "va_arg (a # ap) = (a, ap)"

fun nbits :: "nval \<Rightarrow> 64 word" where
  "nbits (NBits b) = b"
| "nbits _ = 0"

definition extractVariadicParam :: "engine \<Rightarrow> nval list \<Rightarrow> ftype \<Rightarrow> nval option \<times> nval list" where
  "extractVariadicParam e ap t =
     (let (a, ap') = va_arg ap in
      if FT_IS_REFERENCE t then (Some a, ap')
      else case t of
        Prim FT_VOID \<Rightarrow> (None, ap)
      | Prim FT_INT \<Rightarrow> (Some (NBits (ucast (ucast (nbits a) :: 32 word))), ap')
      | Prim FT_INT8 \<Rightarrow> (Some (NBits (ucast (ucast (nbits a) :: 8 word))), ap')
      | Prim FT_UINT8 \<Rightarrow> (Some (NBits (ucast (ucast (nbits a) :: 8 word))), ap')
      | Prim FT_INT16 \<Rightarrow> (Some (NBits (ucast (ucast (nbits a) :: 16 word))), ap')
      | Prim FT_UINT16 \<Rightarrow> (Some (NBits (ucast (ucast (nbits a) :: 16 word))), ap')
      | Prim FT_INT32 \<Rightarrow> (Some (NBits (ucast (ucast (nbits a) :: 32 word))), ap')
      | Prim FT_UINT32 \<Rightarrow> (Some (NBits (ucast (ucast (nbits a) :: 32 word))), ap')
      | Prim FT_INT64 \<Rightarrow> (Some (NBits (nbits a)), ap')
      | Prim FT_UINT64 \<Rightarrow> (Some (NBits (nbits a)), ap')
      | Prim FT_FLOAT \<Rightarrow> (Some (NBits (ucast (e_f32_of_f64 e (nbits a)))), ap')
      | Prim FT_DOUBLE \<Rightarrow> (Some (NBits (nbits a)), ap')
      | Prim FT_BOOLEAN \<Rightarrow> (Some (NBits (if (ucast (nbits a) :: 32 word) \<noteq> 0 then 1 else 0)), ap')
      | Prim FT_STRING \<Rightarrow> (Some a, ap')
      | Prim FT_ANY_REF \<Rightarrow> (Some a, ap')
      | Prim _ \<Rightarrow> (None, ap)
      | Callback _ _ \<Rightarrow> (Some (NBits (ucast (ucast (nbits a) :: 32 word))), ap')
      | _ \<Rightarrow> (Some NNull, ap))"

section \<open>Scalars\<close>

text \<open>A C string ends at its first NUL.\<close>

definition cstr :: "string \<Rightarrow> string" where
  "cstr s = takeWhile (\<lambda>c. c \<noteq> CHR 0x00) s"

lemma cstr_id: "CHR 0x00 \<notin> set s \<Longrightarrow> cstr s = s"
  by (auto simp: cstr_def takeWhile_eq_all_conv)

lemma cstr_idem [simp]: "cstr (cstr s) = cstr s"
  by (auto simp: cstr_def takeWhile_eq_all_conv dest: set_takeWhileD)

definition nativeToTarget :: "engine \<Rightarrow> prim \<Rightarrow> 64 word \<Rightarrow> jsval" where
  "nativeToTarget e p b =
     (case p of
        FT_INT \<Rightarrow> JInt (ucast b)
      | FT_INT8 \<Rightarrow> JInt (scast (ucast b :: 8 word))
      | FT_UINT8 \<Rightarrow> e_NewUint32 e (ucast (ucast b :: 8 word))
      | FT_INT16 \<Rightarrow> JInt (scast (ucast b :: 16 word))
      | FT_UINT16 \<Rightarrow> e_NewUint32 e (ucast (ucast b :: 16 word))
      | FT_INT32 \<Rightarrow> JInt (ucast b)
      | FT_UINT32 \<Rightarrow> e_NewUint32 e (ucast b)
      | FT_INT64 \<Rightarrow> e_NewInt64 e b
      | FT_UINT64 \<Rightarrow> e_NewBigUint64 e b
      | FT_FLOAT \<Rightarrow> e_NewFloat64 e (e_f64_of_f32 e (ucast b))
      | FT_DOUBLE \<Rightarrow> e_NewFloat64 e b
      | FT_BOOLEAN \<Rightarrow> JBool ((ucast b :: 8 word) \<noteq> 0)
      | _ \<Rightarrow> JUndef)"

definition scalar_prim :: "prim \<Rightarrow> bool" where
  "scalar_prim p \<longleftrightarrow>
     p \<in> {FT_INT, FT_INT8, FT_UINT8, FT_INT16, FT_UINT16, FT_INT32, FT_UINT32, FT_INT64,
          FT_UINT64, FT_FLOAT, FT_DOUBLE, FT_BOOLEAN}"

fun jsonToTarget :: "engine \<Rightarrow> nval \<Rightarrow> jsval \<Rightarrow> world \<Rightarrow> bool \<times> jsval \<times> world" where
  "jsonToTarget e (NJson s) t w =
     (case e_ParseJSON e s of
        Some v \<Rightarrow> (True, v, js_new v w)
      | None \<Rightarrow> (False, t, w))"
| "jsonToTarget e _ t w = (True, JNull, w)"

section \<open>The converter\<close>

text \<open>
  \<open>init_iface\<close> is the lazy initialisation of an interface instance: its prototype is
  looked up by description and its target object created, one reference of which stays
  with the instance.
\<close>

definition init_iface :: "nat \<Rightarrow> string \<Rightarrow> world \<Rightarrow> world" where
  "init_iface i desc w =
     (case ifaces w i of
        Some f \<Rightarrow>
          (if if_init f then w
           else js_new (JIface i) (w\<lparr>ifaces := (ifaces w)(i \<mapsto>
                  f\<lparr>if_init := True, if_proto := Some desc, if_target := JIface i\<rparr>)\<rparr>))
      | None \<Rightarrow> w)"

function (sequential)
  convertValueToTarget :: "engine \<Rightarrow> ftype \<Rightarrow> nval \<Rightarrow> jsval \<Rightarrow> world \<Rightarrow> bool \<times> jsval \<times> world"
  and cvt_members :: "engine \<Rightarrow> (string \<times> ftype \<times> nat) list \<Rightarrow> (nat \<times> nval) list \<Rightarrow> jsval \<Rightarrow>
        world \<Rightarrow> bool \<times> jsval \<times> world"
  and cvt_elems :: "engine \<Rightarrow> ftype \<Rightarrow> nval list \<Rightarrow> jsval \<Rightarrow> world \<Rightarrow> bool \<times> jsval \<times> world"
where
  "convertValueToTarget e (Prim p) n t w =
     (if scalar_prim p then
        (let v = nativeToTarget e p (nbits n) in (True, v, js_new v w))
      else case p of
        FT_STRING \<Rightarrow>
          (let v = JStr (case n of NStr s \<Rightarrow> cstr s | _ \<Rightarrow> []) in (True, v, js_new v w))
      | FT_ANY_REF \<Rightarrow>
          (case n of NAny v \<Rightarrow> (True, v, feature_dup_value v w) | _ \<Rightarrow> (True, JNull, w))
      | FT_JSON_OBJ \<Rightarrow> (let (ok, t', w') = jsonToTarget e n t w in (True, t', w'))
      | FT_ARRAY_BUFFER \<Rightarrow>
          (case n of NBuf v \<Rightarrow> (True, v, feature_dup_value v w) | _ \<Rightarrow> (True, JNull, w))
      | _ \<Rightarrow> (False, t, w))"
| "convertValueToTarget e (StructMap sz ms) n t w =
     (let w1 = js_new (JObject []) w in
      case n of
        NStruct fs \<Rightarrow> cvt_members e ms fs (JObject []) w1
      | _ \<Rightarrow> (True, JNull, feature_free_value (JObject []) w1))"
| "convertValueToTarget e (Optional u ov) n t w =
     (let (ok, t', w') = convertValueToTarget e u n t w
      in if ok then (True, t', w') else (False, t', feature_free_value t' w'))"
| "convertValueToTarget e (Callback ps r) n t w = (True, JInt (ucast (nbits n)), w)"
| "convertValueToTarget e (Array u) n t w =
     (case n of
        NArr vs \<Rightarrow> cvt_elems e u vs (JArr []) (js_new (JArr []) w)
      | _ \<Rightarrow> (True, JNull, w))"
| "convertValueToTarget e (Promise u) n t w = (False, t, w)"
| "convertValueToTarget e (Interface desc) n t w =
     (case n of
        NIface i \<Rightarrow>
          (case ifaces w i of
             Some f \<Rightarrow>
               (if \<not> if_is_interface f then (False, t, w)
                else let w1 = init_iface i desc w;
                         v = (case ifaces w1 i of Some f' \<Rightarrow> if_target f' | None \<Rightarrow> JUndef)
                     in (True, v, feature_dup_value v w1))
           | None \<Rightarrow> (False, t, w))
      | _ \<Rightarrow> (True, JNull, w))"
| "convertValueToTarget e (Protobuf d) n t w =
     (let v = (case n of NProto m \<Rightarrow> e_protoToTarget e m | _ \<Rightarrow> JObject [])
      in (True, v, js_new v w))"
| "cvt_members e [] fs t w = (True, t, w)"
| "cvt_members e ((name, u, off) # ms) fs t w =
     (let n = (case map_of fs off of Some v \<Rightarrow> v | None \<Rightarrow> NNull);
          (ok, field, w1) = convertValueToTarget e u n JIndet w
      in if \<not> ok then (False, t, feature_free_value field w1)
         else (let (t', w2) = js_set_prop t name field w1 in cvt_members e ms fs t' w2))"
| "cvt_elems e u [] t w = (True, t, w)"
| "cvt_elems e u (n # ns) t w =
     (let (ok, elem, w1) = convertValueToTarget e u n JIndet w
      in if \<not> ok then (False, t, feature_free_value t (feature_free_value elem w1))
         else (let (t', w2) = js_push t elem w1 in cvt_elems e u ns t' w2))"
  by pat_completeness auto

termination
proof (relation "measures [\<lambda>x. case x of
      Inl (e, t, v, tg, w) \<Rightarrow> 2 * size t
    | Inr (Inl (e, ms, fs, tg, w)) \<Rightarrow> 2 * members_size ms + 1
    | Inr (Inr (e, t, vs, tg, w)) \<Rightarrow> 2 * size t + 1,
    \<lambda>x. case x of Inl _ \<Rightarrow> 0 | Inr (Inl _) \<Rightarrow> 0 | Inr (Inr (e, t, vs, tg, w)) \<Rightarrow> length vs]")
qed auto

definition arg_to_target :: "engine \<Rightarrow> nval list \<Rightarrow> ftype \<Rightarrow> jsval \<Rightarrow> world \<Rightarrow>
    bool \<times> jsval \<times> nval list \<times> world" where
  "arg_to_target e ap t target w =
     (case extractVariadicParam e ap t of
        (None, ap') \<Rightarrow> (False, target, ap', w)
      | (Some n, ap') \<Rightarrow>
          (let (ok, target', w') = convertValueToTarget e t n target w
           in (ok, target', ap', w')))"

section \<open>Well-typed values and what they convert to\<close>

definition iface_ok :: "(nat \<Rightarrow> iface option) \<Rightarrow> nat \<Rightarrow> bool" where
  "iface_ok I i = (case I i of
     Some f \<Rightarrow> if_is_interface f \<and> (if_init f \<longrightarrow> if_target f = JIface i)
   | None \<Rightarrow> False)"

function (sequential)
  nval_ok :: "engine \<Rightarrow> (nat \<Rightarrow> iface option) \<Rightarrow> ftype \<Rightarrow> nval \<Rightarrow> bool"
  and members_ok :: "engine \<Rightarrow> (nat \<Rightarrow> iface option) \<Rightarrow> (string \<times> ftype \<times> nat) list \<Rightarrow>
        (nat \<times> nval) list \<Rightarrow> bool"
where
  "nval_ok e I (Prim p) n =
     (case n of
        NBits b \<Rightarrow> scalar_prim p
      | NStr s \<Rightarrow> p = FT_STRING
      | NAny v \<Rightarrow> p = FT_ANY_REF
      | NJson s \<Rightarrow> p = FT_JSON_OBJ \<and> e_ParseJSON e s \<noteq> None
      | NBuf v \<Rightarrow> p = FT_ARRAY_BUFFER
      | NNull \<Rightarrow> p \<in> {FT_STRING, FT_ANY_REF, FT_JSON_OBJ, FT_ARRAY_BUFFER}
      | _ \<Rightarrow> False)"
| "nval_ok e I (StructMap sz ms) n =
     (case n of NNull \<Rightarrow> True | NStruct fs \<Rightarrow> members_ok e I ms fs | _ \<Rightarrow> False)"
| "nval_ok e I (Optional u ov) n = nval_ok e I u n"
| "nval_ok e I (Callback ps r) n = (case n of NBits b \<Rightarrow> True | _ \<Rightarrow> False)"
| "nval_ok e I (Array u) n =
     (case n of NNull \<Rightarrow> True | NArr vs \<Rightarrow> list_all (nval_ok e I u) vs | _ \<Rightarrow> False)"
| "nval_ok e I (Promise u) n = False"
| "nval_ok e I (Interface d) n =
     (case n of NNull \<Rightarrow> True | NIface i \<Rightarrow> iface_ok I i | _ \<Rightarrow> False)"
| "nval_ok e I (Protobuf d) n = (case n of NProto m \<Rightarrow> True | _ \<Rightarrow> False)"
| "members_ok e I [] fs = True"
| "members_ok e I ((name, u, off) # ms) fs =
     ((case map_of fs off of Some v \<Rightarrow> nval_ok e I u v | None \<Rightarrow> False) \<and> members_ok e I ms fs)"
  by pat_completeness auto

termination
proof (relation "measure (\<lambda>x. case x of
      Inl (e, I, t, v) \<Rightarrow> 2 * size t
    | Inr (e, I, ms, fs) \<Rightarrow> 2 * members_size ms + 1)")
qed auto

function (sequential)
  target_of :: "engine \<Rightarrow> ftype \<Rightarrow> nval \<Rightarrow> jsval"
  and target_members :: "engine \<Rightarrow> (string \<times> ftype \<times> nat) list \<Rightarrow> (nat \<times> nval) list \<Rightarrow>
        (string \<times> jsval) list \<Rightarrow> (string \<times> jsval) list"
where
  "target_of e (Prim p) n =
     (case n of
        NBits b \<Rightarrow> nativeToTarget e p b
      | NStr s \<Rightarrow> JStr (cstr s)
      | NAny v \<Rightarrow> v
      | NBuf v \<Rightarrow> v
      | NJson s \<Rightarrow> (case e_ParseJSON e s of Some v \<Rightarrow> v | None \<Rightarrow> JUndef)
      | _ \<Rightarrow> if p = FT_STRING then JStr [] else JNull)"
| "target_of e (StructMap sz ms) n =
     (case n of NStruct fs \<Rightarrow> JObject (target_members e ms fs []) | _ \<Rightarrow> JNull)"
| "target_of e (Optional u ov) n = target_of e u n"
| "target_of e (Callback ps r) n = JInt (ucast (nbits n))"
| "target_of e (Array u) n =
     (case n of NArr vs \<Rightarrow> JArr (map (target_of e u) vs) | _ \<Rightarrow> JNull)"
| "target_of e (Promise u) n = JUndef"
| "target_of e (Interface d) n = (case n of NIface i \<Rightarrow> JIface i | _ \<Rightarrow> JNull)"
| "target_of e (Protobuf d) n = (case n of NProto m \<Rightarrow> e_protoToTarget e m | _ \<Rightarrow> JObject [])"
| "target_members e [] fs ps = ps"
| "target_members e ((name, u, off) # ms) fs ps =
     target_members e ms fs
       (prop_put name (target_of e u (case map_of fs off of Some v \<Rightarrow> v | None \<Rightarrow> NNull)) ps)"
  by pat_completeness auto

termination
proof (relation "measure (\<lambda>x. case x of
      Inl (e, t, v) \<Rightarrow> 2 * size t
    | Inr (e, ms, fs, ps) \<Rightarrow> 2 * members_size ms + 1)")
qed auto

lemma init_iface_ok:
  "iface_ok (ifaces w) i \<Longrightarrow> iface_ok (ifaces (init_iface j d w)) i"
  by (auto simp: iface_ok_def init_iface_def split: option.splits)

lemma init_iface_target:
  "iface_ok (ifaces w) i \<Longrightarrow> \<exists>f. ifaces (init_iface i d w) i = Some f \<and> if_target f = JIface i"
  by (auto simp: iface_ok_def init_iface_def split: option.splits)

lemma iface_own_other [simp]: "v \<noteq> JIface i \<Longrightarrow> iface_own (I(i \<mapsto> f)) v = iface_own I v"
  by (cases v) auto

lemma balanced_init_iface: "balanced b M w \<Longrightarrow> balanced b M (init_iface i d w)"
  by (auto simp: balanced_def init_iface_def feature_dup_value_def split: option.splits)

lemma calls_init_iface [simp]: "calls (init_iface i d w) = calls w"
  by (simp add: init_iface_def split: option.splits)

lemma ifaces_set_prop [simp]: "js_set_prop t k v w = (t', w') \<Longrightarrow> ifaces w' = ifaces w"
  by (cases t) (auto simp: Let_def)

lemma ifaces_push [simp]: "js_push t v w = (t', w') \<Longrightarrow> ifaces w' = ifaces w"
  by (cases t) (auto simp: Let_def)

lemma ifaces_json [simp]: "jsonToTarget e n t w = (ok, t', w') \<Longrightarrow> ifaces w' = ifaces w"
  by (cases n) (auto split: option.splits)

lemma convert_ifaces:
  "iface_ok (ifaces w) i \<Longrightarrow> iface_ok (ifaces (snd (snd (convertValueToTarget e t n tg w)))) i"
  "iface_ok (ifaces w) i \<Longrightarrow> iface_ok (ifaces (snd (snd (cvt_members e ms fs tg w)))) i"
  "iface_ok (ifaces w) i \<Longrightarrow> iface_ok (ifaces (snd (snd (cvt_elems e t ns tg w)))) i"
proof (induction e t n tg w and e ms fs tg w and e t ns tg w
    rule: convertValueToTarget_cvt_members_cvt_elems.induct)
  case (7 e desc n t w)
  then show ?case by (auto simp: Let_def init_iface_ok split: nval.splits option.splits)
next
  case (1 e p n t w)
  then show ?case by (cases n; cases p) (auto simp: scalar_prim_def Let_def split: option.splits)
next
  case (10 e name u off ms fs t w)
  then show ?case by (auto simp: Let_def split: prod.splits)
next
  case (12 e u n ns t w)
  then show ?case by (auto simp: Let_def split: prod.splits)
qed (auto simp: Let_def split: nval.splits option.splits prod.splits)

lemma nval_ok_mono:
  "\<forall>i. iface_ok I i \<longrightarrow> iface_ok I' i \<Longrightarrow> nval_ok e I t n \<Longrightarrow> nval_ok e I' t n"
  "\<forall>i. iface_ok I i \<longrightarrow> iface_ok I' i \<Longrightarrow> members_ok e I ms fs \<Longrightarrow> members_ok e I' ms fs"
proof (induction e I t n and e I ms fs rule: nval_ok_members_ok.induct)
  case (5 e I u n)
  then show ?case by (cases n) (auto simp: list_all_iff)
next
  case (10 e I name u off ms fs)
  then show ?case by (cases "map_of fs off") auto
qed (auto split: nval.splits)

lemma calls_set_prop: "js_set_prop t k v w = (t', w') \<Longrightarrow> calls w' = calls w"
  by (cases t) (auto simp: Let_def)

lemma calls_push: "js_push t v w = (t', w') \<Longrightarrow> calls w' = calls w"
  by (cases t) (auto simp: Let_def)

definition converted :: "(jsval \<Rightarrow> int) \<Rightarrow> jsval multiset \<Rightarrow> jsval \<Rightarrow> world \<Rightarrow>
    bool \<times> jsval \<times> world \<Rightarrow> jsval multiset \<Rightarrow> bool" where
  "converted b M v w r N \<longleftrightarrow>
     (\<exists>w'. r = (True, v, w') \<and> calls w' = calls w \<and>
       (balanced b (N + M) w \<longrightarrow> balanced b (add_mset v M) w'))"

lemma converted_new: "converted b M v w (True, v, feature_dup_value v w) {#}"
  by (auto simp: converted_def intro: balanced_dup)

lemma convert_all:
  "nval_ok e (ifaces w) t n \<Longrightarrow>
     converted b M (target_of e t n) w (convertValueToTarget e t n tg w) {#}"
  "members_ok e (ifaces w) ms fs \<Longrightarrow> tg = JObject ps \<Longrightarrow>
     converted b M (JObject (target_members e ms fs ps)) w (cvt_members e ms fs tg w) {#tg#}"
  "list_all (nval_ok e (ifaces w) t) ns \<Longrightarrow> tg = JArr vs \<Longrightarrow>
     converted b M (JArr (vs @ map (target_of e t) ns)) w (cvt_elems e t ns tg w) {#tg#}"
proof (induction e t n tg w and e ms fs tg w and e t ns tg w
    arbitrary: M and M ps and M vs rule: convertValueToTarget_cvt_members_cvt_elems.induct)
  case (1 e p n t w)
  then show ?case
    by (cases n; cases p)
       (auto simp: converted_def scalar_prim_def Let_def intro!: balanced_dup split: option.splits)
next
  case (2 e sz ms n t w)
  show ?case
  proof (cases n)
    case (NStruct fs)
    then have "converted b M (JObject (target_members e ms fs [])) (js_new (JObject []) w)
        (cvt_members e ms fs (JObject []) (js_new (JObject []) w)) {#JObject []#}"
      using 2 by auto
    then show ?thesis using NStruct by (auto simp: converted_def Let_def balanced_dup)
  qed (use 2 in \<open>auto simp: converted_def Let_def\<close>)
next
  case (3 e u ov n t w)
  then have "converted b M (target_of e u n) w (convertValueToTarget e u n t w) {#}" by auto
  then show ?case by (auto simp: converted_def)
next
  case (4 e ps r n t w)
  then show ?case by (auto simp: converted_def split: nval.splits)
next
  case (5 e u n t w)
  show ?case
  proof (cases n)
    case (NArr vs)
    then have "converted b M (JArr ([] @ map (target_of e u) vs)) (js_new (JArr []) w)
        (cvt_elems e u vs (JArr []) (js_new (JArr []) w)) {#JArr []#}"
      using 5 by auto
    then show ?thesis using NArr by (auto simp: converted_def balanced_dup)
  qed (use 5 in \<open>auto simp: converted_def\<close>)
next
  case (7 e desc n t w)
  show ?case
  proof (cases n)
    case (NIface i)
    then have ok: "iface_ok (ifaces w) i" using 7 by simp
    then obtain f f' where "ifaces w i = Some f" "if_is_interface f"
      "ifaces (init_iface i desc w) i = Some f'" "if_target f' = JIface i"
      using init_iface_target [OF ok, of desc] by (auto simp: iface_ok_def split: option.splits)
    then show ?thesis using NIface
      by (auto simp: converted_def Let_def intro!: balanced_dup balanced_init_iface)
  qed (use 7 in \<open>auto simp: converted_def\<close>)
next
  case (8 e d n t w)
  then show ?case by (auto simp: converted_def Let_def intro!: balanced_dup split: nval.splits)
next
  case (9 e fs t w)
  then show ?case by (auto simp: converted_def)
next
  case (10 e name u off ms fs t w)
  define n where "n = (case map_of fs off of Some v \<Rightarrow> v | None \<Rightarrow> NNull)"
  have nok: "nval_ok e (ifaces w) u n" and mok: "members_ok e (ifaces w) ms fs"
    using 10(3) by (auto simp: n_def split: option.splits)
  obtain w1 where c1: "convertValueToTarget e u n JIndet w = (True, target_of e u n, w1)"
    "calls w1 = calls w"
    "balanced b (add_mset t M) w \<longrightarrow> balanced b (add_mset (target_of e u n) (add_mset t M)) w1"
    using 10(1) [OF n_def, of "add_mset t M"] nok by (auto simp: converted_def)
  have mok1: "members_ok e (ifaces w1) ms fs"
    using nval_ok_mono(2) [OF _ mok] convert_ifaces(1) [of w _ e u n JIndet] c1(1) by force
  obtain t' w2 where s: "js_set_prop t name (target_of e u n) w1 = (t', w2)" by fastforce
  have t': "t' = JObject (prop_put name (target_of e u n) ps)"
    using s 10(4) by (auto simp: Let_def)
  have mok2: "members_ok e (ifaces w2) ms fs" using mok1 ifaces_set_prop [OF s] by simp
  have IH: "converted b M (JObject (target_members e ms fs (prop_put name (target_of e u n) ps))) w2
     (cvt_members e ms fs t' w2) {#t'#}"
    using 10(2) [OF n_def c1(1) [symmetric] refl refl _ s [symmetric] refl mok2 t'] by simp
  have "balanced b (add_mset t M) w \<longrightarrow> balanced b (add_mset t' M) w2"
    using c1(3) balanced_set_prop s 10(4) by blast
  then show ?case
    using IH c1(1,2) s calls_set_prop [OF s] 10(4) by (auto simp: converted_def n_def)
next
  case (11 e u t w)
  then show ?case by (auto simp: converted_def)
next
  case (12 e u n ns t w)
  have nok: "nval_ok e (ifaces w) u n" and mok: "list_all (nval_ok e (ifaces w) u) ns"
    using 12(3) by auto
  obtain w1 where c1: "convertValueToTarget e u n JIndet w = (True, target_of e u n, w1)"
    "calls w1 = calls w"
    "balanced b (add_mset t M) w \<longrightarrow> balanced b (add_mset (target_of e u n) (add_mset t M)) w1"
    using 12(1) [of "add_mset t M"] nok by (auto simp: converted_def)
  have mok1: "list_all (nval_ok e (ifaces w1) u) ns"
    using mok nval_ok_mono(1) [of "ifaces w" "ifaces w1" e u]
      convert_ifaces(1) [of w _ e u n JIndet] c1(1) by (force simp: list_all_iff)
  obtain t' w2 where s: "js_push t (target_of e u n) w1 = (t', w2)" by fastforce
  have t': "t' = JArr (vs @ [target_of e u n])" using s 12(4) by (auto simp: Let_def)
  have mok2: "list_all (nval_ok e (ifaces w2) u) ns" using mok1 ifaces_push [OF s] by simp
  have IH: "converted b M (JArr ((vs @ [target_of e u n]) @ map (target_of e u) ns)) w2
     (cvt_elems e u ns t' w2) {#t'#}"
    using 12(2) [OF c1(1) [symmetric] refl refl _ s [symmetric] refl mok2 t'] by simp
  have "balanced b (add_mset t M) w \<longrightarrow> balanced b (add_mset t' M) w2"
    using c1(3) balanced_push s 12(4) by blast
  then show ?case
    using IH c1(1,2) s calls_push [OF s] 12(4) by (auto simp: converted_def)
qed auto

lemma convert_calls:
  "calls (snd (snd (convertValueToTarget e t n tg w))) = calls w"
  "calls (snd (snd (cvt_members e ms fs tg w))) = calls w"
  "calls (snd (snd (cvt_elems e t ns tg w))) = calls w"
proof (induction e t n tg w and e ms fs tg w and e t ns tg w
    rule: convertValueToTarget_cvt_members_cvt_elems.induct)
  case (1 e p n t w)
  then show ?case by (cases n; cases p) (auto simp: scalar_prim_def Let_def split: option.splits)
next
  case (10 e name u off ms fs t w)
  then show ?case using calls_set_prop by (auto simp: Let_def split: prod.splits)
next
  case (12 e u n ns t w)
  then show ?case using calls_push by (auto simp: Let_def split: prod.splits)
qed (auto simp: Let_def split: nval.splits option.splits prod.splits)

lemma arg_to_target_calls: "calls (snd (snd (snd (arg_to_target e ap t tg w)))) = calls w"
  using convert_calls(1) [of e t _ tg w]
  by (auto simp: arg_to_target_def split: prod.splits option.splits) (metis snd_conv)

section \<open>Converting the next variadic argument\<close>

definition arg_ok :: "engine \<Rightarrow> (nat \<Rightarrow> iface option) \<Rightarrow> nval list \<Rightarrow> ftype \<Rightarrow> bool" where
  "arg_ok e I ap t =
     (case fst (extractVariadicParam e ap t) of Some n \<Rightarrow> nval_ok e I t n | None \<Rightarrow> False)"

definition arg_value :: "engine \<Rightarrow> nval list \<Rightarrow> ftype \<Rightarrow> jsval" where
  "arg_value e ap t =
     (case fst (extractVariadicParam e ap t) of Some n \<Rightarrow> target_of e t n | None \<Rightarrow> JUndef)"

lemma arg_to_target_ok:
  assumes "arg_ok e (ifaces w) ap t"
  shows "\<exists>w'. arg_to_target e ap t tg w =
      (True, arg_value e ap t, snd (extractVariadicParam e ap t), w') \<and>
    calls w' = calls w \<and> (balanced b M w \<longrightarrow> balanced b (add_mset (arg_value e ap t) M) w') \<and>
    (\<forall>i. iface_ok (ifaces w) i \<longrightarrow> iface_ok (ifaces w') i)"
proof -
  obtain n ap' where ex: "extractVariadicParam e ap t = (Some n, ap')"
    using assms by (cases "extractVariadicParam e ap t") (auto simp: arg_ok_def split: option.splits)
  then have nok: "nval_ok e (ifaces w) t n" using assms by (simp add: arg_ok_def)
  have "converted b M (target_of e t n) w (convertValueToTarget e t n tg w) {#}"
    using convert_all(1) [OF nok] .
  then show ?thesis using ex convert_ifaces(1) [of w _ e t n tg]
    by (auto simp: converted_def arg_to_target_def arg_value_def)
qed

end
