(* ===== verification/Promises.thy ===== *)
theory Promises
  imports HandleTable ToTarget
begin

text \<open>
  \<open>PromiseManager\<close> of \<open>src/promise_manager.h\<close> and \<open>src/promise_manager.cpp\<close>: a pending
  result is either a script promise with its two resolving functions or a triple of
  \<open>success\<close>/\<open>fail\<close>/\<open>complete\<close> callbacks. Invariant \<open>pm_ok\<close>: ids lie between 0 and the
  counter; \<open>pm_refs\<close> is the multiset of script references the table owns.
\<close>

datatype promise_data =
    PPromise ftype jsval jsval jsval
  | PCallbacks ftype jsval jsval jsval

record promise_manager =
  promises :: "(int, promise_data) omap"
  curr_pid :: int

definition init_pm :: promise_manager where
  "init_pm = \<lparr>promises = [], curr_pid = 0\<rparr>"

section \<open>One pending result\<close>

definition invoke_js_Callback :: "jsval \<Rightarrow> jsval list \<Rightarrow> world \<Rightarrow> int \<times> world" where
  "invoke_js_Callback cb argv w =
     (if cb = JUndef then (- 1, w)
      else (0, feature_free_value cb (feature_call cb argv (feature_dup_value cb w))))"

fun pd_type :: "promise_data \<Rightarrow> ftype" where
  "pd_type (PPromise t _ _ _) = t"
| "pd_type (PCallbacks t _ _ _) = t"

fun pd_delete :: "promise_data \<Rightarrow> world \<Rightarrow> world" where
  "pd_delete (PPromise t p f0 f1) w = free_all [p, f0, f1] w"
| "pd_delete (PCallbacks t s f c) w = free_all [s, f, c] w"

text \<open>
  \<open>init\<close> asks the engine for a promise and its resolving functions; \<open>None\<close> is the
  exception, on which the engine leaves the functions undefined.
\<close>

fun pd_init :: "(jsval \<times> jsval \<times> jsval) option \<Rightarrow> promise_data \<Rightarrow> world \<Rightarrow>
    bool \<times> promise_data \<times> world" where
  "pd_init cap (PPromise t p f0 f1) w =
     (case cap of
        None \<Rightarrow> (False, PPromise t p f0 f1, free_all [f0, f1, p] w)
      | Some (p', f0', f1') \<Rightarrow> (True, PPromise t p' f0' f1', js_new p' (js_new f0' (js_new f1' w))))"
| "pd_init cap (PCallbacks t s f c) w = (True, PCallbacks t s f c, w)"

fun pd_promise :: "promise_data \<Rightarrow> jsval" where
  "pd_promise (PCallbacks _ _ _ _) = JUndef"
| "pd_promise (PPromise _ p _ _) = p"

fun pd_complete :: "jsval \<Rightarrow> int \<Rightarrow> world \<Rightarrow> int \<times> world" where
  "pd_complete complete_func ret w =
     (if complete_func = JUndef then (ret, w)
      else (ret, snd (invoke_js_Callback complete_func [] w)))"

fun pd_resolve :: "engine \<Rightarrow> promise_data \<Rightarrow> nval list \<Rightarrow> world \<Rightarrow> int \<times> world" where
  "pd_resolve e (PPromise t p f0 f1) ap w =
     (if f0 = JUndef then (- 1, w)
      else (let (ok, target, ap', w1) =
                  (if t = Prim FT_VOID then (True, JUndef, ap, w) else arg_to_target e ap t JUndef w)
            in if \<not> ok then (- 1, w1)
               else (let (js_data, w2) = js_set_prop (JObject []) ''data'' target (js_new (JObject []) w1);
                         (ret, w3) = invoke_js_Callback f0 [js_data] w2
                     in (ret, feature_free_value js_data w3))))"
| "pd_resolve e (PCallbacks t s f c) ap w =
     (if s = JUndef then pd_complete c (- 1) w
      else (let (ok, target, ap', w1) =
                  (if t = Prim FT_VOID then (True, JUndef, ap, w) else arg_to_target e ap t JUndef w)
            in if \<not> ok then (- 1, w1)
               else (let (ret, w2) = invoke_js_Callback s [target] w1
                     in pd_complete c ret (feature_free_value target w2))))"

fun pd_reject :: "promise_data \<Rightarrow> 32 word \<Rightarrow> string option \<Rightarrow> world \<Rightarrow> int \<times> world" where
  "pd_reject (PPromise t p f0 f1) code msg w =
     (let safe_msg = (case msg of Some m \<Rightarrow> m | None \<Rightarrow> ''unknown error'') in
      if f1 = JUndef then (- 1, w)
      else (let w1 = js_new (JStr safe_msg) w;
                (d1, w2) = js_set_prop (JObject []) ''code'' (JInt code) (js_new (JObject []) w1);
                (d2, w3) = js_set_prop d1 ''data'' (JStr safe_msg) w2;
                (ret, w4) = invoke_js_Callback f1 [d2] w3
            in (ret, feature_free_value d2 w4)))"
| "pd_reject (PCallbacks t s f c) code msg w =
     (let safe_msg = (case msg of Some m \<Rightarrow> m | None \<Rightarrow> ''unknown error'') in
      if f = JUndef then pd_complete c (- 1) w
      else (let (ret, w1) = invoke_js_Callback f [JStr safe_msg, JInt code] (js_new (JStr safe_msg) w)
            in pd_complete c ret (free_all [JInt code, JStr safe_msg] w1)))"

fun pd_mark :: "promise_data \<Rightarrow> jsval list" where
  "pd_mark (PPromise t p f0 f1) = [p, f0, f1]"
| "pd_mark (PCallbacks t s f c) = [s, f, c]"

section \<open>The manager\<close>

definition insertPromise :: "promise_data \<Rightarrow> promise_manager \<Rightarrow> int \<times> promise_manager" where
  "insertPromise d m =
     (curr_pid m, m\<lparr>promises := omap_put (curr_pid m) d (promises m), curr_pid := inc32 (curr_pid m)\<rparr>)"

definition addPromise :: "(jsval \<times> jsval \<times> jsval) option \<Rightarrow> ftype \<Rightarrow> promise_manager \<Rightarrow> world \<Rightarrow>
    int \<times> promise_manager \<times> world" where
  "addPromise cap t m w =
     (let (ok, d, w1) = pd_init cap (PPromise t JUndef JUndef JUndef) w
      in if \<not> ok then (- 1, m, pd_delete d w1)
         else (let (pid, m') = insertPromise d m in (pid, m', w1)))"

definition addAsyncCallbacks :: "ftype \<Rightarrow> jsval \<Rightarrow> jsval \<Rightarrow> jsval \<Rightarrow> promise_manager \<Rightarrow> world \<Rightarrow>
    int \<times> promise_manager \<times> world" where
  "addAsyncCallbacks t success fail complete m w =
     (let (ok, d, w1) = pd_init None (PCallbacks t success fail complete) w
      in if \<not> ok then (- 1, m, pd_delete d w1)
         else (let (pid, m') = insertPromise d m in (pid, m', w1)))"

definition removePromise :: "int \<Rightarrow> promise_manager \<Rightarrow> world \<Rightarrow> bool \<times> promise_manager \<times> world" where
  "removePromise pid m w =
     (case map_of (promises m) pid of
        None \<Rightarrow> (False, m, w)
      | Some d \<Rightarrow> (True, m\<lparr>promises := omap_del pid (promises m)\<rparr>, pd_delete d w))"

fun delete_all :: "promise_data list \<Rightarrow> world \<Rightarrow> world" where
  "delete_all [] w = w"
| "delete_all (d # ds) w = delete_all ds (pd_delete d w)"

definition releasePromises :: "promise_manager \<Rightarrow> world \<Rightarrow> promise_manager \<times> world" where
  "releasePromises m w = (m\<lparr>promises := []\<rparr>, delete_all (ovals (promises m)) w)"

definition getPromiseData :: "promise_manager \<Rightarrow> int \<Rightarrow> promise_data option" where
  "getPromiseData m pid = map_of (promises m) pid"

definition doResolvePromise :: "engine \<Rightarrow> int \<Rightarrow> nval list \<Rightarrow> promise_manager \<Rightarrow> world \<Rightarrow> int \<times> world" where
  "doResolvePromise e pid ap m w =
     (case getPromiseData m pid of None \<Rightarrow> (- 1, w) | Some d \<Rightarrow> pd_resolve e d ap w)"

definition doRejectPromise :: "int \<Rightarrow> 32 word \<Rightarrow> string option \<Rightarrow> promise_manager \<Rightarrow> world \<Rightarrow> int \<times> world" where
  "doRejectPromise pid code msg m w =
     (case getPromiseData m pid of None \<Rightarrow> (- 1, w) | Some d \<Rightarrow> pd_reject d code msg w)"

definition doGetPromiseType :: "promise_manager \<Rightarrow> int \<Rightarrow> int" where
  "doGetPromiseType m pid =
     (case getPromiseData m pid of
        None \<Rightarrow> - 1 | Some (PPromise _ _ _ _) \<Rightarrow> 0 | Some (PCallbacks _ _ _ _) \<Rightarrow> 1)"

definition getPromise :: "promise_manager \<Rightarrow> int \<Rightarrow> jsval" where
  "getPromise m pid = (case getPromiseData m pid of Some d \<Rightarrow> pd_promise d | None \<Rightarrow> JUndef)"

definition markPromises :: "promise_manager \<Rightarrow> jsval list" where
  "markPromises m = concat (map pd_mark (ovals (promises m)))"

section \<open>Invariant and ownership\<close>

definition pd_refs :: "promise_data \<Rightarrow> jsval multiset" where
  "pd_refs d = mset (pd_mark d)"

definition pm_refs :: "promise_manager \<Rightarrow> jsval multiset" where
  "pm_refs m = mset_over pd_refs (ovals (promises m))"

definition pm_ok :: "promise_manager \<Rightarrow> bool" where
  "pm_ok m \<longleftrightarrow> omap_ok (promises m) \<and> 0 \<le> curr_pid m \<and> curr_pid m \<le> INT32_MAX \<and>
     (\<forall>k\<in>okeys (promises m). 0 \<le> k \<and> k < curr_pid m)"

lemma init_pm_ok [simp]: "pm_ok init_pm" "pm_refs init_pm = {#}"
  by (simp_all add: pm_ok_def pm_refs_def init_pm_def)

lemma calls_pd_delete [simp]: "calls (pd_delete d w) = calls w"
  by (cases d) simp_all

lemma calls_delete_all [simp]: "calls (delete_all ds w) = calls w"
  by (induction ds arbitrary: w) auto

lemma balanced_pd_delete: "balanced b (pd_refs d + M) w \<Longrightarrow> balanced b M (pd_delete d w)"
  by (cases d) (auto simp: pd_refs_def add_mset_commute intro!: balanced_free)

lemma balanced_delete_all:
  "balanced b (mset_over pd_refs ds + M) w \<Longrightarrow> balanced b M (delete_all ds w)"
proof (induction ds arbitrary: w)
  case (Cons d ds)
  then have "balanced b (pd_refs d + (mset_over pd_refs ds + M)) w" by (simp add: ac_simps)
  from Cons.IH [OF balanced_pd_delete [OF this]] show ?case by simp
qed simp

lemma insertPromise_spec:
  assumes "pm_ok m" "curr_pid m < INT32_MAX" "insertPromise d m = (i, m')"
  shows "pm_ok m'" "i = curr_pid m" "curr_pid m' = curr_pid m + 1"
    "map_of (promises m') = (map_of (promises m))(i \<mapsto> d)"
    "pm_refs m' = pd_refs d + pm_refs m"
proof -
  have inc: "inc32 (curr_pid m) = curr_pid m + 1" using assms by (simp add: pm_ok_def)
  have new: "curr_pid m \<notin> okeys (promises m)" using assms(1) by (auto simp: pm_ok_def)
  have below: "\<forall>k\<in>okeys (promises m). k \<le> curr_pid m" using assms(1) by (force simp: pm_ok_def)
  show "pm_ok m'" "i = curr_pid m" "curr_pid m' = curr_pid m + 1"
    "map_of (promises m') = (map_of (promises m))(i \<mapsto> d)"
    using assms below by (auto simp: insertPromise_def inc pm_ok_def)
  show "pm_refs m' = pd_refs d + pm_refs m"
    using assms(3) mset_over_put_new [OF new] by (auto simp: insertPromise_def pm_refs_def)
qed

lemma removePromise_spec:
  assumes "pm_ok m" "removePromise i m w = (r, m', w')"
  shows "pm_ok m'" "curr_pid m' = curr_pid m"
    "map_of (promises m') = (map_of (promises m))(i := None)"
    "r = (getPromiseData m i \<noteq> None)" "calls w' = calls w"
    "balanced b (pm_refs m + M) w \<Longrightarrow> balanced b (pm_refs m' + M) w'"
proof -
  have ok: "omap_ok (promises m)" using assms(1) by (simp add: pm_ok_def)
  have "pm_ok m' \<and> curr_pid m' = curr_pid m \<and>
    map_of (promises m') = (map_of (promises m))(i := None) \<and>
    r = (getPromiseData m i \<noteq> None) \<and> calls w' = calls w \<and>
    (balanced b (pm_refs m + M) w \<longrightarrow> balanced b (pm_refs m' + M) w')"
  proof (cases "map_of (promises m) i")
    case None
    then show ?thesis using assms
      by (auto simp: removePromise_def getPromiseData_def fun_eq_iff)
  next
    case (Some d)
    have "pm_refs m = pd_refs d + pm_refs m'"
      using mset_over_del [OF ok Some, of pd_refs] assms(2) Some
      by (auto simp: removePromise_def pm_refs_def)
    then show ?thesis using assms Some
      by (auto simp: removePromise_def getPromiseData_def pm_ok_def ac_simps
          intro: balanced_pd_delete)
  qed
  then show "pm_ok m'" "curr_pid m' = curr_pid m"
    "map_of (promises m') = (map_of (promises m))(i := None)"
    "r = (getPromiseData m i \<noteq> None)" "calls w' = calls w"
    "balanced b (pm_refs m + M) w \<Longrightarrow> balanced b (pm_refs m' + M) w'" by auto
qed

lemma addPromise_spec:
  assumes "pm_ok m" "curr_pid m < INT32_MAX" "addPromise cap t m w = (i, m', w')"
  shows "pm_ok m'" "calls w' = calls w"
    "cap = None \<Longrightarrow> i = - 1 \<and> m' = m"
    "cap = Some (p, f0, f1) \<Longrightarrow> i = curr_pid m \<and>
       map_of (promises m') = (map_of (promises m))(i \<mapsto> PPromise t p f0 f1)"
    "balanced b (pm_refs m + M) w \<Longrightarrow> balanced b (pm_refs m' + M) w'"
proof -
  have "pm_ok m' \<and> calls w' = calls w \<and>
    (cap = None \<longrightarrow> i = - 1 \<and> m' = m) \<and>
    (cap = Some (p, f0, f1) \<longrightarrow> i = curr_pid m \<and>
       map_of (promises m') = (map_of (promises m))(i \<mapsto> PPromise t p f0 f1)) \<and>
    (balanced b (pm_refs m + M) w \<longrightarrow> balanced b (pm_refs m' + M) w')"
  proof (cases cap)
    case None
    then show ?thesis using assms by (auto simp: addPromise_def feature_free_value_def)
  next
    case (Some c)
    obtain q g0 g1 where c: "c = (q, g0, g1)" by (cases c)
    obtain pid m1 where ins: "insertPromise (PPromise t q g0 g1) m = (pid, m1)" by fastforce
    show ?thesis
      using assms Some c ins insertPromise_spec [OF assms(1,2) ins]
      by (auto simp: addPromise_def pd_refs_def intro!: balanced_dup)
  qed
  then show "pm_ok m'" "calls w' = calls w" "cap = None \<Longrightarrow> i = - 1 \<and> m' = m"
    "cap = Some (p, f0, f1) \<Longrightarrow> i = curr_pid m \<and>
       map_of (promises m') = (map_of (promises m))(i \<mapsto> PPromise t p f0 f1)"
    "balanced b (pm_refs m + M) w \<Longrightarrow> balanced b (pm_refs m' + M) w'" by auto
qed

lemma addAsyncCallbacks_spec:
  assumes "pm_ok m" "curr_pid m < INT32_MAX" "addAsyncCallbacks t s f c m w = (i, m', w')"
  shows "pm_ok m'" "w' = w" "i = curr_pid m"
    "map_of (promises m') = (map_of (promises m))(i \<mapsto> PCallbacks t s f c)"
    "balanced b (pm_refs m + ({#s, f, c#} + M)) w \<Longrightarrow> balanced b (pm_refs m' + M) w'"
proof -
  obtain pid m1 where ins: "insertPromise (PCallbacks t s f c) m = (pid, m1)" by fastforce
  show "pm_ok m'" "w' = w" "i = curr_pid m"
    "map_of (promises m') = (map_of (promises m))(i \<mapsto> PCallbacks t s f c)"
    "balanced b (pm_refs m + ({#s, f, c#} + M)) w \<Longrightarrow> balanced b (pm_refs m' + M) w'"
    using assms ins insertPromise_spec [OF assms(1,2) ins]
    by (auto simp: addAsyncCallbacks_def pd_refs_def add_mset_commute)
qed

lemma releasePromises_spec:
  assumes "releasePromises m w = (m', w')"
  shows "promises m' = []" "pm_refs m' = {#}" "pm_ok m \<Longrightarrow> pm_ok m'" "calls w' = calls w"
    "balanced b (pm_refs m + M) w \<Longrightarrow> balanced b M w'"
  using assms by (auto simp: releasePromises_def pm_refs_def pm_ok_def intro: balanced_delete_all)

lemma mset_concat_mark: "mset (concat (map pd_mark ds)) = mset_over pd_refs ds"
  by (induction ds) (auto simp: pd_refs_def)

lemma markPromises_refs: "mset (markPromises m) = pm_refs m"
  by (simp add: markPromises_def pm_refs_def mset_concat_mark)

section \<open>What settling calls and releases\<close>

definition settle_value :: "engine \<Rightarrow> promise_data \<Rightarrow> nval list \<Rightarrow> jsval" where
  "settle_value e d ap =
     (if pd_type d = Prim FT_VOID then JUndef else arg_value e ap (pd_type d))"

definition settle_ok :: "engine \<Rightarrow> world \<Rightarrow> promise_data \<Rightarrow> nval list \<Rightarrow> bool" where
  "settle_ok e w d ap \<longleftrightarrow> pd_type d = Prim FT_VOID \<or> arg_ok e (ifaces w) ap (pd_type d)"

definition call_unless_undef :: "jsval \<Rightarrow> jsval list \<Rightarrow> (jsval \<times> jsval list) list" where
  "call_unless_undef f args = (if f = JUndef then [] else [(f, args)])"

fun resolve_calls :: "promise_data \<Rightarrow> jsval \<Rightarrow> (jsval \<times> jsval list) list" where
  "resolve_calls (PPromise t p f0 f1) v = call_unless_undef f0 [JObject [(''data'', v)]]"
| "resolve_calls (PCallbacks t s f c) v = call_unless_undef s [v] @ call_unless_undef c []"

fun reject_calls :: "promise_data \<Rightarrow> 32 word \<Rightarrow> string \<Rightarrow> (jsval \<times> jsval list) list" where
  "reject_calls (PPromise t p f0 f1) code msg =
     call_unless_undef f1 [JObject [(''code'', JInt code), (''data'', JStr msg)]]"
| "reject_calls (PCallbacks t s f c) code msg =
     call_unless_undef f [JStr msg, JInt code] @ call_unless_undef c []"

fun resolve_func :: "promise_data \<Rightarrow> jsval" where
  "resolve_func (PPromise t p f0 f1) = f0"
| "resolve_func (PCallbacks t s f c) = s"

fun reject_func :: "promise_data \<Rightarrow> jsval" where
  "reject_func (PPromise t p f0 f1) = f1"
| "reject_func (PCallbacks t s f c) = f"

lemma invoke_js_Callback_eq:
  "invoke_js_Callback cb argv w =
     (if cb = JUndef then (- 1, w) else (0, feature_call cb argv w))"
  by (simp add: invoke_js_Callback_def)

lemma pd_complete_eq:
  "pd_complete c ret w = (ret, if c = JUndef then w else feature_call c [] w)"
  by (simp add: invoke_js_Callback_eq)

declare pd_complete.simps [simp del]

lemma balanced_data_object:
  assumes "balanced b (add_mset v M) w"
    "js_set_prop (JObject []) k v (js_new (JObject []) w) = (t, w')"
  shows "balanced b (add_mset t M) w'"
proof -
  have "balanced b (add_mset v (add_mset (JObject []) M)) (js_new (JObject []) w)"
    using balanced_dup [OF assms(1), of "JObject []"] by (simp add: add_mset_commute)
  then show ?thesis using balanced_set_prop assms(2) by blast
qed

lemma pd_resolve_spec:
  assumes "settle_ok e w d ap"
  shows "\<exists>w'. pd_resolve e d ap w = (if resolve_func d = JUndef then - 1 else 0, w') \<and>
    calls w' = calls w @ resolve_calls d (settle_value e d ap) \<and>
    (balanced b M w \<longrightarrow> balanced b M w')"
proof -
  let ?t = "pd_type d" and ?v = "settle_value e d ap"
  obtain ap' w1 where arg:
    "(if ?t = Prim FT_VOID then (True, JUndef, ap, w) else arg_to_target e ap ?t JUndef w)
       = (True, ?v, ap', w1)"
    and c1: "calls w1 = calls w"
    and b1: "balanced b M w \<longrightarrow> balanced b (add_mset ?v M) w1"
    using assms arg_to_target_ok [of e w ap ?t JUndef b M]
    by (cases "?t = Prim FT_VOID") (auto simp: settle_ok_def settle_value_def)
  show ?thesis
  proof (cases d)
    case (PPromise t p f0 f1)
    obtain d1 w2 where set: "js_set_prop (JObject []) ''data'' ?v (js_new (JObject []) w1) = (d1, w2)"
      by fastforce
    have d1: "d1 = JObject [(''data'', ?v)]" using set by (simp add: Let_def)
    have b2: "balanced b M w \<longrightarrow> balanced b (add_mset d1 M) w2"
      using b1 balanced_data_object [OF _ set] by blast
    have c2: "calls w2 = calls w" using calls_set_prop [OF set] c1 by simp
    show ?thesis
      using PPromise arg set d1 b2 c2
      by (auto simp: call_unless_undef_def invoke_js_Callback_eq intro!: balanced_free)
  next
    case (PCallbacks t s f c)
    then show ?thesis using arg b1 c1
      by (auto simp: call_unless_undef_def invoke_js_Callback_eq pd_complete_eq intro!: balanced_free)
  qed
qed

lemma pd_reject_spec:
  "\<exists>w'. pd_reject d code msg w = (if reject_func d = JUndef then - 1 else 0, w') \<and>
    calls w' = calls w @ reject_calls d code (case msg of Some m \<Rightarrow> m | None \<Rightarrow> ''unknown error'') \<and>
    (balanced b M w \<longrightarrow> balanced b M w')"
proof (cases d)
  case (PPromise t p f0 f1)
  let ?m = "case msg of Some m \<Rightarrow> m | None \<Rightarrow> ''unknown error''"
  obtain d1 w2 where s1: "js_set_prop (JObject []) ''code'' (JInt code)
      (js_new (JObject []) (js_new (JStr ?m) w)) = (d1, w2)" by fastforce
  obtain d2 w3 where s2: "js_set_prop d1 ''data'' (JStr ?m) w2 = (d2, w3)" by fastforce
  have d1: "d1 = JObject [(''code'', JInt code)]" using s1 by (simp add: Let_def)
  have d2: "d2 = JObject [(''code'', JInt code), (''data'', JStr ?m)]"
    using s2 d1 by (simp add: Let_def)
  have "balanced b M w \<longrightarrow> balanced b (add_mset d2 M) w3"
  proof
    assume "balanced b M w"
    then have "balanced b (add_mset (JInt code) (add_mset (JStr ?m) M)) (js_new (JStr ?m) w)"
      by (simp add: balanced_dup)
    then have "balanced b (add_mset (JStr ?m) (add_mset d1 M)) w2"
      using balanced_data_object [OF _ s1] by (simp add: add_mset_commute)
    then show "balanced b (add_mset d2 M) w3"
      using balanced_set_prop s2 d1 by blast
  qed
  then show ?thesis
    using PPromise s1 s2 d2 calls_set_prop [OF s1] calls_set_prop [OF s2]
    by (auto simp: call_unless_undef_def invoke_js_Callback_eq Let_def simp del: js_set_prop.simps
        intro!: balanced_free)
next
  case (PCallbacks t s f c)
  then show ?thesis
    by (auto simp: call_unless_undef_def invoke_js_Callback_eq pd_complete_eq Let_def
        intro!: balanced_free balanced_dup)
qed

section \<open>The table interface\<close>

definition pm_erase :: "int \<Rightarrow> promise_manager \<Rightarrow> bool \<times> promise_manager" where
  "pm_erase pid m = (fst (removePromise pid m undefined), fst (snd (removePromise pid m undefined)))"

lemma pm_erase_eq: "removePromise pid m w = (r, m', w') \<Longrightarrow> pm_erase pid m = (r, m')"
  by (auto simp: pm_erase_def removePromise_def split: option.splits)

interpretation pmt: handle_table getPromiseData insertPromise pm_erase pm_ok curr_pid
  2147483646 "\<lambda>d d'. d = d'"
proof (unfold_locales, goal_cases)
  case (1 s i)
  then show ?case by (force simp: getPromiseData_def pm_ok_def okeys_iff)
next
  case (2 s d i s')
  then show ?case
    using insertPromise_spec [of s d i s'] by (auto simp: getPromiseData_def fun_eq_iff)
next
  case (3 s i r s')
  obtain r1 m1 w1 where "removePromise i s undefined = (r1, m1, w1)"
    by (cases "removePromise i s undefined") auto
  then show ?case
    using removePromise_spec(1-4) [of s i undefined r1 m1 w1] 3
    by (auto simp: getPromiseData_def fun_eq_iff pm_erase_def)
qed

end
