(* ===== verification/RefOwner.thy ===== *)
theory RefOwner
  imports JsWorld
begin

text \<open>
  The contract of a component that owns script references: every operation keeps the
  component's invariant and changes the reference counts exactly as the multiset of
  references it owns changes, and \<open>release\<close> gives all of them back. Proved once from the
  laws: after any sequence of enabled operations followed by \<open>release\<close>, every count is back
  where it was, so nothing leaks and nothing is released twice.
\<close>

locale ref_owner =
  fixes ok :: "'s \<Rightarrow> bool"
    and refs :: "'s \<Rightarrow> jsval multiset"
    and enabled :: "'o \<Rightarrow> 's \<times> world \<Rightarrow> bool"
    and exec :: "'o \<Rightarrow> 's \<times> world \<Rightarrow> 's \<times> world"
    and release :: "'s \<times> world \<Rightarrow> 's \<times> world"
  assumes exec_ok: "ok s \<Longrightarrow> enabled p (s, w) \<Longrightarrow> exec p (s, w) = (s', w') \<Longrightarrow> ok s'"
    and exec_balanced: "ok s \<Longrightarrow> enabled p (s, w) \<Longrightarrow> exec p (s, w) = (s', w') \<Longrightarrow>
      balanced b (refs s + M) w \<Longrightarrow> balanced b (refs s' + M) w'"
    and release_ok: "ok s \<Longrightarrow> release (s, w) = (s', w') \<Longrightarrow> ok s' \<and> refs s' = {#}"
    and release_balanced: "ok s \<Longrightarrow> release (s, w) = (s', w') \<Longrightarrow>
      balanced b (refs s + M) w \<Longrightarrow> balanced b M w'"
begin

fun run :: "'o list \<Rightarrow> 's \<times> world \<Rightarrow> 's \<times> world" where
  "run [] c = c"
| "run (p # ps) c = run ps (exec p c)"

fun all_enabled :: "'o list \<Rightarrow> 's \<times> world \<Rightarrow> bool" where
  "all_enabled [] c = True"
| "all_enabled (p # ps) c = (enabled p c \<and> all_enabled ps (exec p c))"

lemma run_ok:
  "ok s \<Longrightarrow> all_enabled ps (s, w) \<Longrightarrow> run ps (s, w) = (s', w') \<Longrightarrow>
   ok s' \<and> (balanced b (refs s + M) w \<longrightarrow> balanced b (refs s' + M) w')"
proof (induction ps arbitrary: s w)
  case (Cons p ps)
  obtain s1 w1 where e: "exec p (s, w) = (s1, w1)" by fastforce
  have en: "enabled p (s, w)" "all_enabled ps (s1, w1)"
    using Cons.prems(2) e by auto
  have ok1: "ok s1" using exec_ok [OF Cons.prems(1) en(1) e] .
  have "ok s' \<and> (balanced b (refs s1 + M) w1 \<longrightarrow> balanced b (refs s' + M) w')"
    using Cons.IH [OF ok1 en(2)] Cons.prems(3) e by simp
  moreover have "balanced b (refs s + M) w \<longrightarrow> balanced b (refs s1 + M) w1"
    using exec_balanced [OF Cons.prems(1) en(1) e, of b M] by simp
  ultimately show ?case by blast
qed auto

lemma run_release_restores:
  assumes "ok s" "all_enabled ps (s, w)" "balanced b (refs s + M) w"
    "release (run ps (s, w)) = (s', w')"
  shows "balanced b M w' \<and> refs s' = {#}"
proof -
  obtain s1 w1 where r: "run ps (s, w) = (s1, w1)" by fastforce
  have "ok s1" "balanced b (refs s1 + M) w1"
    using run_ok [OF assms(1,2) r, of b M] assms(3) by auto
  then show ?thesis
    using release_balanced release_ok assms(4) r by metis
qed

end

end
