(* ===== verification/Events.thy ===== *)
theory Events
  imports RefOwner Callbacks
begin

text \<open>
  \<open>EventData\<close> and \<open>EventManager\<close> of \<open>src/feature_event_manager.h\<close>: per event member the
  list of subscribed script functions, in subscription order and without duplicates, and the
  listener that hears when an event gets its first entry and when the entry goes away.
  A member description is a pointer in the code; \<open>me_addr\<close> is its identity.
\<close>

record member_event =
  me_addr :: nat
  me_id :: int
  me_name :: string
  me_params :: "ftype pentry list"

record event_data =
  ed_event :: member_event
  ed_callbacks :: "jsval list"

datatype ev_status = FEATURE_EVENT_ADDED | FEATURE_EVENT_REMOVED

record event_manager =
  events_map :: "(int, event_data) omap"
  has_listener :: bool
  notified :: "(int \<times> ev_status) list"

definition init_em :: event_manager where
  "init_em = \<lparr>events_map = [], has_listener = False, notified = []\<rparr>"

section \<open>One event's subscribers\<close>

definition findEvent :: "event_data \<Rightarrow> jsval \<Rightarrow> bool" where
  "findEvent d v = list_ex (\<lambda>u. isSameValue u v) (ed_callbacks d)"

definition ed_add :: "jsval \<Rightarrow> event_data \<Rightarrow> world \<Rightarrow> event_data \<times> world" where
  "ed_add v d w =
     (if findEvent d v then (d, w)
      else (d\<lparr>ed_callbacks := ed_callbacks d @ [v]\<rparr>, feature_dup_value v w))"

definition ed_erase :: "jsval \<Rightarrow> event_data \<Rightarrow> world \<Rightarrow> event_data \<times> world" where
  "ed_erase v d w =
     (d\<lparr>ed_callbacks := filter (\<lambda>u. \<not> isSameValue u v) (ed_callbacks d)\<rparr>,
      free_all (filter (\<lambda>u. isSameValue u v) (ed_callbacks d)) w)"

definition ed_clear :: "event_data \<Rightarrow> world \<Rightarrow> event_data \<times> world" where
  "ed_clear d w = (d\<lparr>ed_callbacks := []\<rparr>, free_all (ed_callbacks d) w)"

section \<open>The manager\<close>

fun find_event_id :: "(int, event_data) omap \<Rightarrow> member_event \<Rightarrow> int" where
  "find_event_id [] me = 0"
| "find_event_id ((eid, d) # m) me =
     (if me_addr (ed_event d) = me_addr me then eid else find_event_id m me)"

definition findEventId :: "event_manager \<Rightarrow> member_event \<Rightarrow> int" where
  "findEventId m me = find_event_id (events_map m) me"

definition notify :: "int \<Rightarrow> ev_status \<Rightarrow> event_manager \<Rightarrow> event_manager" where
  "notify eid st m = (if has_listener m then m\<lparr>notified := notified m @ [(eid, st)]\<rparr> else m)"

definition addEventCallback :: "member_event \<Rightarrow> jsval \<Rightarrow> event_manager \<Rightarrow> world \<Rightarrow>
    int \<times> event_manager \<times> world" where
  "addEventCallback me v m w =
     (let eid0 = findEventId m me;
          (eid, m1) = (if eid0 \<le> 0
            then (me_id me,
                  notify (me_id me) FEATURE_EVENT_ADDED
                    (m\<lparr>events_map := omap_put (me_id me) \<lparr>ed_event = me, ed_callbacks = []\<rparr> (events_map m)\<rparr>))
            else (eid0, m))
      in case map_of (events_map m1) eid of
           Some d \<Rightarrow> (let (d', w') = ed_add v d w
                      in (eid, m1\<lparr>events_map := omap_put eid d' (events_map m1)\<rparr>, w'))
         | None \<Rightarrow> (eid, m1, w))"

definition eraseEventCallback :: "member_event \<Rightarrow> jsval \<Rightarrow> event_manager \<Rightarrow> world \<Rightarrow>
    event_manager \<times> world" where
  "eraseEventCallback me v m w =
     (let eid = findEventId m me in
      if eid \<le> 0 then (m, w)
      else case map_of (events_map m) eid of
             Some d \<Rightarrow> (let (d', w') = ed_erase v d w
                        in (m\<lparr>events_map := omap_put eid d' (events_map m)\<rparr>, w'))
           | None \<Rightarrow> (m, w))"

definition removeEventCallbacks :: "int \<Rightarrow> bool \<Rightarrow> event_manager \<Rightarrow> world \<Rightarrow>
    bool \<times> event_manager \<times> world" where
  "removeEventCallbacks eid keep_id m w =
     (if eid \<le> 0 then (False, m, w)
      else case map_of (events_map m) eid of
        None \<Rightarrow> (False, m, w)
      | Some d \<Rightarrow>
          (let (d', w') = ed_clear d w in
           if keep_id then (True, m\<lparr>events_map := omap_put eid d' (events_map m)\<rparr>, w')
           else (let m1 = notify eid FEATURE_EVENT_REMOVED m
                 in (True, m1\<lparr>events_map := omap_del eid (events_map m1)\<rparr>, w'))))"

definition getEventData :: "event_manager \<Rightarrow> int \<Rightarrow> event_data option" where
  "getEventData m eid = map_of (events_map m) eid"

definition getEventCallbacks :: "event_manager \<Rightarrow> member_event \<Rightarrow> jsval list" where
  "getEventCallbacks m me =
     (let eid = findEventId m me in
      if eid \<le> 0 then []
      else case getEventData m eid of Some d \<Rightarrow> ed_callbacks d | None \<Rightarrow> [])"

fun clear_events :: "(int, event_data) omap \<Rightarrow> event_manager \<Rightarrow> world \<Rightarrow> event_manager \<times> world" where
  "clear_events [] m w = (m, w)"
| "clear_events ((eid, d) # es) m w =
     clear_events es (notify eid FEATURE_EVENT_REMOVED m) (snd (ed_clear d w))"

definition clearAllEvents :: "event_manager \<Rightarrow> world \<Rightarrow> event_manager \<times> world" where
  "clearAllEvents m w =
     (let (m1, w1) = clear_events (events_map m) m w in (m1\<lparr>events_map := []\<rparr>, w1))"

definition doSetEventChangeListener :: "bool \<Rightarrow> event_manager \<Rightarrow> event_manager" where
  "doSetEventChangeListener l m = m\<lparr>has_listener := l\<rparr>"

fun find_event_name :: "(int, event_data) omap \<Rightarrow> string \<Rightarrow> int" where
  "find_event_name [] name = 0"
| "find_event_name ((eid, d) # m) name =
     (if me_name (ed_event d) = name then eid else find_event_name m name)"

definition doGetEventId :: "event_manager \<Rightarrow> string \<Rightarrow> int" where
  "doGetEventId m name = find_event_name (events_map m) name"

definition doGetEventName :: "event_manager \<Rightarrow> int \<Rightarrow> string option" where
  "doGetEventName m eid = map_option (\<lambda>d. me_name (ed_event d)) (getEventData m eid)"

definition doGetEventCallbackCount :: "event_manager \<Rightarrow> int \<Rightarrow> nat" where
  "doGetEventCallbackCount m eid =
     (case getEventData m eid of Some d \<Rightarrow> length (ed_callbacks d) | None \<Rightarrow> 0)"

section \<open>Invariant and ownership\<close>

definition entry_ok :: "int \<Rightarrow> event_data \<Rightarrow> bool" where
  "entry_ok k d \<longleftrightarrow> 0 < k \<and> k = me_id (ed_event d) \<and> distinct (ed_callbacks d)"

definition em_ok :: "event_manager \<Rightarrow> bool" where
  "em_ok m \<longleftrightarrow> omap_ok (events_map m) \<and> (\<forall>(k, d)\<in>set (events_map m). entry_ok k d)"

definition em_refs :: "event_manager \<Rightarrow> jsval multiset" where
  "em_refs m = mset_over (\<lambda>d. mset (ed_callbacks d)) (ovals (events_map m))"

text \<open>
  A member may be registered if its id is positive and no other member sits under
  that id; descriptions give every event of a feature its own positive id.
\<close>

definition me_compatible :: "member_event \<Rightarrow> event_manager \<Rightarrow> bool" where
  "me_compatible me m \<longleftrightarrow> 0 < me_id me \<and>
     (\<forall>(k, d)\<in>set (events_map m). (me_addr (ed_event d) = me_addr me) = (k = me_id me))"

lemma init_em_ok [simp]: "em_ok init_em" "em_refs init_em = {#}"
  by (simp_all add: em_ok_def em_refs_def init_em_def)

lemma notify_simps [simp]:
  "events_map (notify eid st m) = events_map m" "em_refs (notify eid st m) = em_refs m"
  "has_listener (notify eid st m) = has_listener m"
  by (simp_all add: notify_def em_refs_def)

lemma entry_ok_lookup:
  "em_ok m \<Longrightarrow> map_of (events_map m) k = Some d \<Longrightarrow> entry_ok k d"
  by (auto simp: em_ok_def dest: map_of_SomeD)

lemma em_ok_put: "em_ok m \<Longrightarrow> entry_ok k d \<Longrightarrow> em_ok (m\<lparr>events_map := omap_put k d (events_map m)\<rparr>)"
  using set_omap_put [of k d "events_map m"] by (fastforce simp: em_ok_def)

lemma em_ok_del: "em_ok m \<Longrightarrow> em_ok (m\<lparr>events_map := omap_del k (events_map m)\<rparr>)"
  using set_omap_del [of k "events_map m"] by (fastforce simp: em_ok_def)

lemma em_ok_notify [simp]: "em_ok (notify eid st m) = em_ok m"
  by (simp add: em_ok_def)

lemma em_refs_put:
  assumes "em_ok m" "map_of (events_map m) k = Some d"
  shows "mset (ed_callbacks d) + em_refs (m\<lparr>events_map := omap_put k d' (events_map m)\<rparr>)
    = mset (ed_callbacks d') + em_refs m"
  using mset_over_put_old [of "events_map m" k d "\<lambda>d. mset (ed_callbacks d)" d'] assms
  by (simp add: em_refs_def em_ok_def)

lemma em_refs_split:
  assumes "em_ok m" "map_of (events_map m) k = Some d"
  shows "\<exists>R. em_refs m = mset (ed_callbacks d) + R \<and>
    (\<forall>d'. em_refs (m\<lparr>events_map := omap_put k d' (events_map m)\<rparr>) = mset (ed_callbacks d') + R) \<and>
    em_refs (m\<lparr>events_map := omap_del k (events_map m)\<rparr>) = R"
proof (intro exI conjI allI)
  let ?R = "em_refs (m\<lparr>events_map := omap_del k (events_map m)\<rparr>)"
  show *: "em_refs m = mset (ed_callbacks d) + ?R"
    using mset_over_del [of "events_map m" k d "\<lambda>d. mset (ed_callbacks d)"] assms
    by (simp add: em_refs_def em_ok_def)
  show "em_refs (m\<lparr>events_map := omap_put k d' (events_map m)\<rparr>) = mset (ed_callbacks d') + ?R" for d'
    using em_refs_put [OF assms, of d'] * by simp
  show "?R = ?R" ..
qed

lemma find_event_id_Some:
  "\<forall>(k, d)\<in>set es. 0 < k \<Longrightarrow> 0 < find_event_id es me \<Longrightarrow> omap_ok es \<Longrightarrow>
   \<exists>d. map_of es (find_event_id es me) = Some d \<and> me_addr (ed_event d) = me_addr me"
proof (induction es me rule: find_event_id.induct)
  case (2 eid d es me)
  show ?case
  proof (cases "me_addr (ed_event d) = me_addr me")
    case False
    then obtain d' where d': "map_of es (find_event_id es me) = Some d'"
      "me_addr (ed_event d') = me_addr me"
      using 2 by (auto simp: omap_ok_Cons)
    then have "find_event_id es me \<in> okeys es" by (auto simp: okeys_iff)
    then have "find_event_id es me \<noteq> eid" using 2(4) by (auto simp: omap_ok_Cons)
    then show ?thesis using d' False by auto
  qed simp
qed simp

lemma find_event_id_None:
  "\<forall>(k, d)\<in>set es. 0 < k \<Longrightarrow> find_event_id es me \<le> 0 \<Longrightarrow>
   (k, d) \<in> set es \<Longrightarrow> me_addr (ed_event d) \<noteq> me_addr me"
  by (induction es me rule: find_event_id.induct) (auto split: if_splits)

lemma em_ok_pos: "em_ok m \<Longrightarrow> \<forall>(k, d)\<in>set (events_map m). 0 < k"
  by (auto simp: em_ok_def entry_ok_def)

lemma findEventId_compatible:
  assumes "em_ok m" "me_compatible me m"
  shows "findEventId m me = (if me_id me \<in> okeys (events_map m) then me_id me else 0)"
proof -
  have "find_event_id es me = (if me_id me \<in> okeys es then me_id me else 0)"
    if "\<forall>(k, d)\<in>set es. (me_addr (ed_event d) = me_addr me) = (k = me_id me)" for es
    using that by (induction es me rule: find_event_id.induct) auto
  then show ?thesis using assms(2) by (simp add: findEventId_def me_compatible_def)
qed

lemma balanced_ed_add:
  "balanced b (mset (ed_callbacks d) + M) w \<Longrightarrow> ed_add v d w = (d', w') \<Longrightarrow>
   balanced b (mset (ed_callbacks d') + M) w'"
  by (auto simp: ed_add_def intro: balanced_dup split: if_splits)

lemma balanced_ed_erase:
  assumes "balanced b (mset (ed_callbacks d) + M) w" "ed_erase v d w = (d', w')"
  shows "balanced b (mset (ed_callbacks d') + M) w'"
proof -
  let ?P = "\<lambda>u. isSameValue u v"
  have "mset (ed_callbacks d) = mset (filter ?P (ed_callbacks d)) + mset (filter (\<lambda>u. \<not> ?P u) (ed_callbacks d))"
    by simp
  then have "balanced b (mset (filter ?P (ed_callbacks d)) + (mset (filter (\<lambda>u. \<not> ?P u) (ed_callbacks d)) + M)) w"
    using assms(1) by (metis add.assoc)
  then show ?thesis using assms(2) balanced_free_all by (auto simp: ed_erase_def)
qed

lemma addEventCallback_spec:
  assumes "em_ok m" "me_compatible me m" "addEventCallback me v m w = (i, m', w')"
  shows "em_ok m'" "i = me_id me"
    "\<exists>d. getEventData m' i = Some d \<and> v \<in> set (ed_callbacks d) \<and> ed_event d = (case getEventData m i of Some d0 \<Rightarrow> ed_event d0 | None \<Rightarrow> me)"
    "\<forall>j. j \<noteq> i \<longrightarrow> getEventData m' j = getEventData m j"
    "calls w' = calls w"
    "balanced b (em_refs m + M) w \<Longrightarrow> balanced b (em_refs m' + M) w'"
proof -
  have pos: "0 < me_id me" using assms(2) by (simp add: me_compatible_def)
  define m1 where "m1 = (if me_id me \<in> okeys (events_map m) then m else
     notify (me_id me) FEATURE_EVENT_ADDED
       (m\<lparr>events_map := omap_put (me_id me) \<lparr>ed_event = me, ed_callbacks = []\<rparr> (events_map m)\<rparr>))"
  have ok1: "em_ok m1"
    using assms(1) pos by (auto simp: m1_def entry_ok_def intro!: em_ok_put)
  obtain d where d: "map_of (events_map m1) (me_id me) = Some d"
    using okeys_iff [of "me_id me" "events_map m"] by (cases "me_id me \<in> okeys (events_map m)") (auto simp: m1_def)
  have refs1: "em_refs m1 = em_refs m"
    using mset_over_put_new [of "me_id me" "events_map m" "\<lambda>d. mset (ed_callbacks d)"]
    by (auto simp: m1_def em_refs_def)
  have d_ev: "ed_event d = (case getEventData m (me_id me) of Some d0 \<Rightarrow> ed_event d0 | None \<Rightarrow> me)"
    using d by (auto simp: m1_def getEventData_def okeys_iff split: if_splits option.splits)
  obtain d' w1 where add: "ed_add v d w = (d', w1)" by fastforce
  have res: "i = me_id me" "m' = m1\<lparr>events_map := omap_put (me_id me) d' (events_map m1)\<rparr>" "w' = w1"
    using assms(3) d add pos findEventId_compatible [OF assms(1,2)]
    by (auto simp: addEventCallback_def m1_def Let_def split: if_splits)
  have d': "entry_ok (me_id me) d'" "v \<in> set (ed_callbacks d')" "ed_event d' = ed_event d"
    using entry_ok_lookup [OF ok1 d] add
    by (auto simp: ed_add_def findEvent_def isSameValue_def list_ex_iff entry_ok_def split: if_splits)
  show "em_ok m'" using em_ok_put [OF ok1 d'(1)] res(2) by simp
  show "i = me_id me" by (rule res)
  show "\<exists>d. getEventData m' i = Some d \<and> v \<in> set (ed_callbacks d) \<and> ed_event d = (case getEventData m i of Some d0 \<Rightarrow> ed_event d0 | None \<Rightarrow> me)"
    using res d' d_ev by (simp add: getEventData_def)
  show "\<forall>j. j \<noteq> i \<longrightarrow> getEventData m' j = getEventData m j"
    using res by (simp add: getEventData_def m1_def)
  show "calls w' = calls w" using add res(3) by (auto simp: ed_add_def split: if_splits)
  show "balanced b (em_refs m' + M) w'" if "balanced b (em_refs m + M) w"
  proof -
    obtain R where R: "em_refs m1 = mset (ed_callbacks d) + R"
      "em_refs m' = mset (ed_callbacks d') + R"
      using em_refs_split [OF ok1 d] res(2) by blast
    then show ?thesis
      using balanced_ed_add [OF _ add, of b "R + M"] that refs1 res(3) by (simp add: add.assoc)
  qed
qed

lemma eraseEventCallback_spec:
  assumes "em_ok m" "eraseEventCallback me v m w = (m', w')"
  shows "em_ok m'" "calls w' = calls w" "v \<notin> set (getEventCallbacks m' me)"
    "balanced b (em_refs m + M) w \<Longrightarrow> balanced b (em_refs m' + M) w'"
proof -
  have "em_ok m' \<and> calls w' = calls w \<and> v \<notin> set (getEventCallbacks m' me) \<and>
    (balanced b (em_refs m + M) w \<longrightarrow> balanced b (em_refs m' + M) w')"
  proof (cases "findEventId m me \<le> 0")
    case True
    then show ?thesis using assms
      by (auto simp: eraseEventCallback_def getEventCallbacks_def Let_def)
  next
    case False
    obtain d where d: "map_of (events_map m) (findEventId m me) = Some d"
      "me_addr (ed_event d) = me_addr me"
      using find_event_id_Some [OF em_ok_pos [OF assms(1)], of me] False assms(1)
      by (auto simp: findEventId_def em_ok_def)
    obtain d' w1 where er: "ed_erase v d w = (d', w1)" by fastforce
    have res: "m' = m\<lparr>events_map := omap_put (findEventId m me) d' (events_map m)\<rparr>" "w' = w1"
      using assms(2) False d er by (auto simp: eraseEventCallback_def Let_def)
    have d': "entry_ok (findEventId m me) d'" "v \<notin> set (ed_callbacks d')" "ed_event d' = ed_event d"
      using entry_ok_lookup [OF assms(1) d(1)] er
      by (auto simp: ed_erase_def isSameValue_def entry_ok_def)
    have "find_event_id (omap_put k d' es) me = find_event_id es me"
      if "map_of es k = Some d" "omap_ok es" for es k
    proof -
      have "d \<in> snd ` set es" using that(1) by (force dest: map_of_SomeD)
      then show ?thesis using that
      proof (induction es)
        case (Cons p es)
        obtain j dj where p: "p = (j, dj)" by (cases p)
        show ?case
        proof (cases "j = k")
          case False
          then have m: "map_of es k = Some d" using Cons.prems(2) p by simp
          then have "k \<in> okeys es" by (auto simp: okeys_iff)
          then have "j < k" using Cons.prems(3) p by (auto simp: omap_ok_Cons)
          moreover have "d \<in> snd ` set es" using m by (force dest: map_of_SomeD)
          ultimately show ?thesis using Cons.IH [OF _ m] Cons.prems(3) p
            by (auto simp: omap_ok_Cons)
        qed (use Cons.prems p d'(3) in auto)
      qed simp
    qed
    then have "findEventId m' me = findEventId m me"
      using d(1) assms(1) res(1) by (simp add: findEventId_def em_ok_def)
    then have "v \<notin> set (getEventCallbacks m' me)"
      using d' res(1) False by (simp add: getEventCallbacks_def getEventData_def Let_def)
    moreover have "calls w' = calls w" using er res(2) by (auto simp: ed_erase_def)
    moreover have "balanced b (em_refs m' + M) w'" if "balanced b (em_refs m + M) w"
    proof -
      obtain R where "em_refs m = mset (ed_callbacks d) + R" "em_refs m' = mset (ed_callbacks d') + R"
        using em_refs_split [OF assms(1) d(1)] res(1) by blast
      then show ?thesis
        using balanced_ed_erase [OF _ er, of b "R + M"] that res(2) by (simp add: add.assoc)
    qed
    ultimately show ?thesis using em_ok_put [OF assms(1) d'(1)] res(1) by simp
  qed
  then show "em_ok m'" "calls w' = calls w" "v \<notin> set (getEventCallbacks m' me)"
    "balanced b (em_refs m + M) w \<Longrightarrow> balanced b (em_refs m' + M) w'" by auto
qed

lemma removeEventCallbacks_spec:
  assumes "em_ok m" "removeEventCallbacks eid keep_id m w = (r, m', w')"
  shows "em_ok m'" "r = (getEventData m eid \<noteq> None)" "calls w' = calls w"
    "getEventData m' eid =
       (if keep_id then map_option (\<lambda>d. d\<lparr>ed_callbacks := []\<rparr>) (getEventData m eid) else None)"
    "balanced b (em_refs m + M) w \<Longrightarrow> balanced b (em_refs m' + M) w'"
proof -
  have absent: "map_of (events_map m) eid = None" if "eid \<le> 0"
    using em_ok_pos [OF assms(1)] that by (force simp: map_of_eq_None_iff)
  have "em_ok m' \<and> r = (getEventData m eid \<noteq> None) \<and> calls w' = calls w \<and>
    getEventData m' eid =
       (if keep_id then map_option (\<lambda>d. d\<lparr>ed_callbacks := []\<rparr>) (getEventData m eid) else None) \<and>
    (balanced b (em_refs m + M) w \<longrightarrow> balanced b (em_refs m' + M) w')"
  proof (cases "map_of (events_map m) eid")
    case None
    then show ?thesis using assms
      by (auto simp: removeEventCallbacks_def getEventData_def split: if_splits)
  next
    case (Some d)
    then have pos: "\<not> eid \<le> 0" using absent by auto
    obtain R where R: "em_refs m = mset (ed_callbacks d) + R"
      "em_refs (m\<lparr>events_map := omap_put eid (d\<lparr>ed_callbacks := []\<rparr>) (events_map m)\<rparr>) = R"
      "em_refs (m\<lparr>events_map := omap_del eid (events_map m)\<rparr>) = R"
      using em_refs_split [OF assms(1) Some] by fastforce
    have R': "em_refs (n\<lparr>events_map := omap_del eid (events_map m)\<rparr>) = R" for n
      using R(3) by (simp add: em_refs_def)
    have okd: "entry_ok eid (d\<lparr>ed_callbacks := []\<rparr>)"
      using entry_ok_lookup [OF assms(1) Some] by (simp add: entry_ok_def)
    have okn: "em_ok (n\<lparr>events_map := omap_del eid (events_map m)\<rparr>)" for n
      using em_ok_del [OF assms(1), of eid] by (simp add: em_ok_def)
    have bal: "balanced b (em_refs m + M) w \<longrightarrow> balanced b (R + M) (free_all (ed_callbacks d) w)"
      using R(1) by (auto simp: add.assoc intro: balanced_free_all)
    show ?thesis
      using assms(2) Some pos R(2) R' bal em_ok_put [OF assms(1) okd] okn
      by (auto simp: removeEventCallbacks_def ed_clear_def getEventData_def)
  qed
  then show "em_ok m'" "r = (getEventData m eid \<noteq> None)" "calls w' = calls w"
    "getEventData m' eid =
       (if keep_id then map_option (\<lambda>d. d\<lparr>ed_callbacks := []\<rparr>) (getEventData m eid) else None)"
    "balanced b (em_refs m + M) w \<Longrightarrow> balanced b (em_refs m' + M) w'" by auto
qed

lemma clear_events_spec:
  "clear_events es m w = (m', w') \<Longrightarrow>
   events_map m' = events_map m \<and> has_listener m' = has_listener m \<and> calls w' = calls w \<and>
   notified m' = notified m @ (if has_listener m then map (\<lambda>p. (fst p, FEATURE_EVENT_REMOVED)) es else []) \<and>
   (balanced b (mset_over (\<lambda>d. mset (ed_callbacks d)) (ovals es) + M) w \<longrightarrow> balanced b M w')"
proof (induction es m w rule: clear_events.induct)
  case (2 eid d es m w)
  then show ?case
    by (auto simp: ed_clear_def notify_def add.assoc intro: balanced_free_all)
qed simp

lemma clearAllEvents_spec:
  assumes "clearAllEvents m w = (m', w')"
  shows "events_map m' = []" "em_ok m'" "em_refs m' = {#}" "calls w' = calls w"
    "notified m' = notified m @
       (if has_listener m then map (\<lambda>p. (fst p, FEATURE_EVENT_REMOVED)) (events_map m) else [])"
    "balanced b (em_refs m + M) w \<Longrightarrow> balanced b M w'"
proof -
  obtain m1 w1 where c: "clear_events (events_map m) m w = (m1, w1)" by fastforce
  then have res: "m' = m1\<lparr>events_map := []\<rparr>" "w' = w1"
    using assms by (auto simp: clearAllEvents_def)
  show "events_map m' = []" "em_ok m'" "em_refs m' = {#}" "calls w' = calls w"
    "notified m' = notified m @
       (if has_listener m then map (\<lambda>p. (fst p, FEATURE_EVENT_REMOVED)) (events_map m) else [])"
    "balanced b (em_refs m + M) w \<Longrightarrow> balanced b M w'"
    using clear_events_spec [OF c] res by (auto simp: em_ok_def em_refs_def)
qed

section \<open>The manager as an owner of references\<close>

datatype ev_op =
    EvAdd member_event jsval
  | EvErase member_event jsval
  | EvRemove int bool
  | EvListen bool

fun ev_enabled :: "ev_op \<Rightarrow> event_manager \<times> world \<Rightarrow> bool" where
  "ev_enabled (EvAdd me v) (m, w) = me_compatible me m"
| "ev_enabled _ c = True"

fun ev_exec :: "ev_op \<Rightarrow> event_manager \<times> world \<Rightarrow> event_manager \<times> world" where
  "ev_exec (EvAdd me v) (m, w) = snd (addEventCallback me v m w)"
| "ev_exec (EvErase me v) (m, w) = eraseEventCallback me v m w"
| "ev_exec (EvRemove eid k) (m, w) = snd (removeEventCallbacks eid k m w)"
| "ev_exec (EvListen l) (m, w) = (doSetEventChangeListener l m, w)"

interpretation ev_owner: ref_owner em_ok em_refs ev_enabled ev_exec
  "\<lambda>(m, w). clearAllEvents m w"
proof (unfold_locales, goal_cases)
  case (1 s p w s' w')
  then show ?case
  proof (cases p)
    case (EvAdd me v)
    then show ?thesis using addEventCallback_spec(1) [of s me v w _ s' w'] 1
      by (cases "addEventCallback me v s w") auto
  next
    case (EvErase me v)
    then show ?thesis using eraseEventCallback_spec(1) [of s me v w s' w'] 1 by auto
  next
    case (EvRemove eid k)
    then show ?thesis using removeEventCallbacks_spec(1) [of s eid k w _ s' w'] 1
      by (cases "removeEventCallbacks eid k s w") auto
  next
    case (EvListen l)
    then show ?thesis using 1 by (auto simp: doSetEventChangeListener_def em_ok_def)
  qed
next
  case (2 s p w s' w' b M)
  then show ?case
  proof (cases p)
    case (EvAdd me v)
    then show ?thesis using addEventCallback_spec(6) [of s me v w _ s' w' b M] 2
      by (cases "addEventCallback me v s w") auto
  next
    case (EvErase me v)
    then show ?thesis using eraseEventCallback_spec(4) [of s me v w s' w' b M] 2 by auto
  next
    case (EvRemove eid k)
    then show ?thesis using removeEventCallbacks_spec(5) [of s eid k w _ s' w' b M] 2
      by (cases "removeEventCallbacks eid k s w") auto
  next
    case (EvListen l)
    then show ?thesis using 2 by (auto simp: doSetEventChangeListener_def em_refs_def)
  qed
next
  case (3 s w s' w')
  then show ?case using clearAllEvents_spec(2,3) by fastforce
next
  case (4 s w s' w' b M)
  then show ?case using clearAllEvents_spec(6) by fastforce
qed

end
