(* ===== verification/Instance.thy ===== *)
theory Instance
  imports Callbacks Promises Events
begin

text \<open>
  A feature instance on the QuickJS backend: \<open>FeatureInstanceQjs\<close> of
  \<open>src/backend/qjs/feature_instance_qjs.cpp\<close> composed of the three managers, the entry points
  of \<open>src/feature_exports.cpp\<close> that check the handle before they forward, and the callback
  handling of \<open>src/backend/qjs/value_translator_qjs.cpp\<close>. \<open>inst_refs\<close> is everything the
  instance owns; \<open>inst_owner\<close> instantiates the ownership contract for the whole API.
\<close>

record inst =
  inst_cbs :: cb_manager
  inst_pm :: promise_manager
  inst_em :: event_manager
  inst_detached :: bool
  inst_error :: string
  inst_target :: jsval

definition new_inst :: "jsval \<Rightarrow> inst" where
  "new_inst target = \<lparr>inst_cbs = init_cbm, inst_pm = init_pm, inst_em = init_em,
     inst_detached = False, inst_error = [], inst_target = target\<rparr>"

section \<open>Calling a script function\<close>

text \<open>
  The fixed arguments are read from the variadic list by declared type; a rest argument
  points into framework memory whose header names its type, or (\<open>None\<close>) is memory without
  a type tag. \<open>AutoArgs\<close> releases every slot when the call returns, on each path.
\<close>

fun cvt_fixed :: "engine \<Rightarrow> ftype list \<Rightarrow> nval list \<Rightarrow> jsval list \<Rightarrow> world \<Rightarrow>
    bool \<times> jsval list \<times> nval list \<times> world" where
  "cvt_fixed e [] ap argv w = (True, argv, ap, w)"
| "cvt_fixed e (t # ts) ap argv w =
     (let (ok, target, ap', w') = arg_to_target e ap t JUndef w
      in if \<not> ok then (False, argv @ [target], ap', w')
         else cvt_fixed e ts ap' (argv @ [target]) w')"

fun cvt_rest :: "engine \<Rightarrow> (ftype option \<times> nval) list \<Rightarrow> jsval list \<Rightarrow> world \<Rightarrow> jsval list \<times> world" where
  "cvt_rest e [] argv w = (argv, w)"
| "cvt_rest e ((None, n) # rs) argv w = cvt_rest e rs (argv @ [JUndef]) w"
| "cvt_rest e ((Some t, n) # rs) argv w =
     (let (ok, target, w') = convertValueToTarget e t n JUndef w
      in cvt_rest e rs (argv @ [if ok then target else JUndef]) w')"

definition doInvokeCallback :: "engine \<Rightarrow> ftype list \<Rightarrow> jsval \<Rightarrow> nval list \<Rightarrow>
    (ftype option \<times> nval) list \<Rightarrow> world \<Rightarrow> int \<times> world" where
  "doInvokeCallback e ts callback ap rest w =
     (if callback = JUndef then (- 1, w)
      else (let (ok, argv, ap', w1) = cvt_fixed e ts ap [] w
            in if \<not> ok then (- 1, free_all argv w1)
               else (let (argv', w2) = cvt_rest e rest argv w1;
                         w3 = feature_dup_value callback w2;
                         w4 = feature_call callback argv' w3;
                         w5 = feature_free_value callback w4
                     in (0, free_all argv' w5))))"

section \<open>Instance operations\<close>

definition checkCallback :: "int \<Rightarrow> inst \<Rightarrow> bool" where
  "checkCallback cid s = (getCallbackData (inst_cbs s) cid \<noteq> None)"

definition invokeCallback :: "engine \<Rightarrow> int \<Rightarrow> nval list \<Rightarrow> inst \<Rightarrow> world \<Rightarrow> int \<times> world" where
  "invokeCallback e cid ap s w =
     (if cid \<le> 0 then (- 1, w)
      else case getCallbackData (inst_cbs s) cid of
        None \<Rightarrow> (- 1, w)
      | Some d \<Rightarrow>
          (let i = getParamCount sizeof_ptr (Some (cd_params d)) in
           if pi_rest i then (- 1, w)
           else doInvokeCallback e (param_types (cd_params d)) (cd_cb d) ap [] w))"

definition invokeCallbackCount :: "engine \<Rightarrow> int \<Rightarrow> nval list \<Rightarrow> (ftype option \<times> nval) list \<Rightarrow> int \<Rightarrow>
    inst \<Rightarrow> world \<Rightarrow> int \<times> world" where
  "invokeCallbackCount e cid ap rest cnt s w =
     (case getCallbackData (inst_cbs s) cid of
        None \<Rightarrow> (- 1, w)
      | Some d \<Rightarrow>
          (let i = getParamCount sizeof_ptr (Some (cd_params d)) in
           if \<not> pi_rest i \<or> cnt < int (pi_count i) then (- 1, w)
           else doInvokeCallback e (param_types (cd_params d)) (cd_cb d) ap
                  (take (nat (cnt - int (pi_count i))) rest) w))"

definition resolvePromise :: "engine \<Rightarrow> int \<Rightarrow> nval list \<Rightarrow> inst \<Rightarrow> world \<Rightarrow> int \<times> inst \<times> world" where
  "resolvePromise e pid ap s w =
     (let (ret, w1) = doResolvePromise e pid ap (inst_pm s) w;
          (removed, pm, w2) = removePromise pid (inst_pm s) w1
      in (if removed then ret else - 2, s\<lparr>inst_pm := pm\<rparr>, w2))"

definition rejectPromise :: "int \<Rightarrow> 32 word \<Rightarrow> string option \<Rightarrow> inst \<Rightarrow> world \<Rightarrow> int \<times> inst \<times> world" where
  "rejectPromise pid code msg s w =
     (let (ret, w1) = doRejectPromise pid code msg (inst_pm s) w;
          (removed, pm, w2) = removePromise pid (inst_pm s) w1
      in (if removed then ret else - 2, s\<lparr>inst_pm := pm\<rparr>, w2))"

fun emit_to :: "engine \<Rightarrow> ftype list \<Rightarrow> nval list \<Rightarrow> jsval list \<Rightarrow> world \<Rightarrow> world" where
  "emit_to e ts ap [] w = w"
| "emit_to e ts ap (cb # cbs) w = emit_to e ts ap cbs (snd (doInvokeCallback e ts cb ap [] w))"

definition doEmitEvent :: "engine \<Rightarrow> event_data option \<Rightarrow> nval list \<Rightarrow> world \<Rightarrow> bool \<times> world" where
  "doEmitEvent e ev ap w =
     (case ev of
        None \<Rightarrow> (False, w)
      | Some d \<Rightarrow> (True, emit_to e (param_types (me_params (ed_event d))) ap (ed_callbacks d) w))"

definition emitEvent :: "engine \<Rightarrow> int \<Rightarrow> nval list \<Rightarrow> inst \<Rightarrow> world \<Rightarrow> bool \<times> world" where
  "emitEvent e eid ap s w =
     (if eid \<le> 0 then (False, w)
      else case getEventData (inst_em s) eid of
        None \<Rightarrow> (False, w)
      | Some d \<Rightarrow>
          (if pi_rest (getParamCount sizeof_ptr (Some (me_params (ed_event d)))) then (False, w)
           else doEmitEvent e (Some d) ap w))"

definition markValues :: "inst \<Rightarrow> jsval list" where
  "markValues s = map cd_cb (ovals (callbacks (inst_cbs s))) @ markPromises (inst_pm s)"

definition throwError :: "string \<Rightarrow> inst \<Rightarrow> inst" where
  "throwError msg s = s\<lparr>inst_error := msg\<rparr>"

definition hasException :: "inst \<Rightarrow> bool" where
  "hasException s \<longleftrightarrow> inst_error s \<noteq> []"

section \<open>Callbacks found in an argument object\<close>

definition checkAsyncCallbacks :: "jsval \<Rightarrow> int" where
  "checkAsyncCallbacks arg =
     (if arg = JUndef \<or> \<not> JS_IsObject arg then 0
      else (let s = JS_GetProperty arg ''success'';
                f = JS_GetProperty arg ''fail'';
                c = JS_GetProperty arg ''complete'';
                bad = (\<lambda>v. v \<noteq> JUndef \<and> v \<noteq> JNull \<and> \<not> JS_IsFunction v)
            in if bad s \<or> bad f \<or> bad c then - 1
               else if JS_IsFunction s \<or> JS_IsFunction f \<or> JS_IsFunction c then 1 else 0))"

text \<open>The second component is the argument object afterwards, its three members undefined.\<close>

definition clear_cb_props :: "jsval \<Rightarrow> jsval" where
  "clear_cb_props arg =
     (case arg of
        JObject ps \<Rightarrow> JObject (prop_put ''complete'' JUndef
                        (prop_put ''fail'' JUndef (prop_put ''success'' JUndef ps)))
      | _ \<Rightarrow> arg)"

definition addAsyncCallbacksFromArg :: "ftype \<Rightarrow> jsval \<Rightarrow> inst \<Rightarrow> world \<Rightarrow>
    int \<times> jsval \<times> inst \<times> world" where
  "addAsyncCallbacksFromArg t arg st w =
     (if arg = JUndef \<or> \<not> JS_IsObject arg then (- 1, arg, st, w)
      else (let s = JS_GetProperty arg ''success'';
                f = JS_GetProperty arg ''fail'';
                c = JS_GetProperty arg ''complete'';
                w1 = feature_dup_value c (feature_dup_value f (feature_dup_value s w));
                arg' = clear_cb_props arg
            in if \<not> JS_IsFunction s \<and> \<not> JS_IsFunction f
               then (- 1, arg', st, free_all [s, f, c] w1)
               else (let (pid, pm, w2) = addAsyncCallbacks t s f c (inst_pm st) w1
                     in (pid, arg', st\<lparr>inst_pm := pm\<rparr>, w2))))"

section \<open>The checked entry points\<close>

text \<open>
  \<open>FEATURE_INSTANCE_CHECK\<close>: a null handle (\<open>None\<close>) and a detached instance are turned
  away before anything happens.
\<close>

definition usable :: "inst option \<Rightarrow> bool" where
  "usable h = (case h of None \<Rightarrow> False | Some s \<Rightarrow> \<not> inst_detached s)"

definition FeatureInvokeCallback :: "engine \<Rightarrow> inst option \<Rightarrow> int \<Rightarrow> nval list \<Rightarrow> world \<Rightarrow> bool \<times> world" where
  "FeatureInvokeCallback e h cid ap w =
     (if \<not> usable h then (False, w)
      else (let (ret, w') = invokeCallback e cid ap (the h) w in (ret = 0, w')))"

definition FeatureInvokeCallbackCount :: "engine \<Rightarrow> inst option \<Rightarrow> int \<Rightarrow> int \<Rightarrow> nval list \<Rightarrow>
    (ftype option \<times> nval) list \<Rightarrow> world \<Rightarrow> bool \<times> world" where
  "FeatureInvokeCallbackCount e h cid cnt ap rest w =
     (if \<not> usable h then (False, w)
      else (let (ret, w') = invokeCallbackCount e cid ap rest cnt (the h) w in (ret = 0, w')))"

definition FeatureRemoveCallback :: "inst option \<Rightarrow> int \<Rightarrow> world \<Rightarrow> bool \<times> inst option \<times> world" where
  "FeatureRemoveCallback h cid w =
     (if \<not> usable h then (False, h, w)
      else (let s = the h; (r, cm, w') = eraseCallback cid (inst_cbs s) w
            in (r, Some (s\<lparr>inst_cbs := cm\<rparr>), w')))"

definition FeaturePromiseResolve :: "engine \<Rightarrow> inst option \<Rightarrow> int \<Rightarrow> nval list \<Rightarrow> world \<Rightarrow>
    bool \<times> inst option \<times> world" where
  "FeaturePromiseResolve e h pid ap w =
     (if \<not> usable h then (False, h, w)
      else (let (ret, s', w') = resolvePromise e pid ap (the h) w in (ret = 0, Some s', w')))"

definition FeaturePromiseReject :: "inst option \<Rightarrow> int \<Rightarrow> 32 word \<Rightarrow> string option \<Rightarrow> world \<Rightarrow>
    bool \<times> inst option \<times> world" where
  "FeaturePromiseReject h pid code msg w =
     (if \<not> usable h then (False, h, w)
      else (let (ret, s', w') = rejectPromise pid code msg (the h) w in (ret = 0, Some s', w')))"

definition FeatureGetPromiseType :: "inst option \<Rightarrow> int \<Rightarrow> int" where
  "FeatureGetPromiseType h pid =
     (if \<not> usable h then - 1
      else (let t = doGetPromiseType (inst_pm (the h)) pid in if t < 0 \<or> t > 1 then - 1 else t))"

definition FeatureCheckCallbackId :: "inst option \<Rightarrow> int \<Rightarrow> bool" where
  "FeatureCheckCallbackId h cid = (usable h \<and> checkCallback cid (the h))"

definition FeatureGetEventId :: "inst option \<Rightarrow> string option \<Rightarrow> int" where
  "FeatureGetEventId h name =
     (if \<not> usable h then 0
      else case name of None \<Rightarrow> 0 | Some n \<Rightarrow> doGetEventId (inst_em (the h)) n)"

definition FeatureGetEventName :: "inst option \<Rightarrow> int \<Rightarrow> string option" where
  "FeatureGetEventName h eid = (if \<not> usable h then None else doGetEventName (inst_em (the h)) eid)"

definition FeatureEmitEvent :: "engine \<Rightarrow> inst option \<Rightarrow> int \<Rightarrow> nval list \<Rightarrow> world \<Rightarrow> bool \<times> world" where
  "FeatureEmitEvent e h eid ap w =
     (if \<not> usable h then (False, w) else emitEvent e eid ap (the h) w)"

definition FeatureEmitEventByName :: "engine \<Rightarrow> inst option \<Rightarrow> string option \<Rightarrow> nval list \<Rightarrow> world \<Rightarrow>
    bool \<times> world" where
  "FeatureEmitEventByName e h name ap w =
     (if \<not> usable h then (False, w)
      else (let eid = FeatureGetEventId h name in
            if eid \<le> 0 then (False, w) else emitEvent e eid ap (the h) w))"

definition FeatureSetEventChangeListener :: "inst option \<Rightarrow> bool \<Rightarrow> inst option" where
  "FeatureSetEventChangeListener h l =
     (if \<not> usable h then h
      else Some ((the h)\<lparr>inst_em := doSetEventChangeListener l (inst_em (the h))\<rparr>))"

definition FeatureGetEventCallbackCount :: "inst option \<Rightarrow> int \<Rightarrow> nat" where
  "FeatureGetEventCallbackCount h eid =
     (if \<not> usable h then 0 else doGetEventCallbackCount (inst_em (the h)) eid)"

definition FeatureInstanceIsDetached :: "inst option \<Rightarrow> bool" where
  "FeatureInstanceIsDetached h = (case h of Some s \<Rightarrow> inst_detached s | None \<Rightarrow> False)"

section \<open>What a call passes\<close>

fun args_ok :: "engine \<Rightarrow> (nat \<Rightarrow> iface option) \<Rightarrow> ftype list \<Rightarrow> nval list \<Rightarrow> bool" where
  "args_ok e I [] ap = True"
| "args_ok e I (t # ts) ap = (arg_ok e I ap t \<and> args_ok e I ts (snd (extractVariadicParam e ap t)))"

fun args_values :: "engine \<Rightarrow> ftype list \<Rightarrow> nval list \<Rightarrow> jsval list" where
  "args_values e [] ap = []"
| "args_values e (t # ts) ap =
     arg_value e ap t # args_values e ts (snd (extractVariadicParam e ap t))"

fun rest_ok :: "engine \<Rightarrow> (nat \<Rightarrow> iface option) \<Rightarrow> (ftype option \<times> nval) list \<Rightarrow> bool" where
  "rest_ok e I [] = True"
| "rest_ok e I ((None, n) # rs) = rest_ok e I rs"
| "rest_ok e I ((Some t, n) # rs) = (nval_ok e I t n \<and> rest_ok e I rs)"

fun rest_values :: "engine \<Rightarrow> (ftype option \<times> nval) list \<Rightarrow> jsval list" where
  "rest_values e [] = []"
| "rest_values e ((None, n) # rs) = JUndef # rest_values e rs"
| "rest_values e ((Some t, n) # rs) = target_of e t n # rest_values e rs"

definition iface_le :: "world \<Rightarrow> world \<Rightarrow> bool" where
  "iface_le w w' \<longleftrightarrow> (\<forall>i. iface_ok (ifaces w) i \<longrightarrow> iface_ok (ifaces w') i)"

lemma iface_le_refl [simp]: "iface_le w w"
  by (simp add: iface_le_def)

lemma iface_le_trans: "iface_le w w' \<Longrightarrow> iface_le w' w'' \<Longrightarrow> iface_le w w''"
  by (simp add: iface_le_def)

lemma args_ok_mono: "iface_le w w' \<Longrightarrow> args_ok e (ifaces w) ts ap \<Longrightarrow> args_ok e (ifaces w') ts ap"
proof (induction ts arbitrary: ap)
  case (Cons t ts)
  then have "arg_ok e (ifaces w') ap t"
    using nval_ok_mono(1) [of "ifaces w" "ifaces w'" e t]
    by (auto simp: arg_ok_def iface_le_def split: option.splits)
  then show ?case using Cons by auto
qed simp

lemma rest_ok_mono: "iface_le w w' \<Longrightarrow> rest_ok e (ifaces w) rs \<Longrightarrow> rest_ok e (ifaces w') rs"
  by (induction e "ifaces w" rs rule: rest_ok.induct)
     (auto simp: iface_le_def intro: nval_ok_mono(1) [of "ifaces w"])

lemma cvt_fixed_ok:
  "args_ok e (ifaces w) ts ap \<Longrightarrow>
   \<exists>ap' w'. cvt_fixed e ts ap argv w = (True, argv @ args_values e ts ap, ap', w') \<and>
     calls w' = calls w \<and> iface_le w w' \<and>
     (balanced b (mset argv + M) w \<longrightarrow> balanced b (mset (argv @ args_values e ts ap) + M) w')"
proof (induction ts arbitrary: ap argv w)
  case (Cons t ts)
  let ?v = "arg_value e ap t" and ?ap = "snd (extractVariadicParam e ap t)"
  obtain w1 where w1: "arg_to_target e ap t JUndef w = (True, ?v, ?ap, w1)" "calls w1 = calls w"
    "balanced b (mset argv + M) w \<longrightarrow> balanced b (add_mset ?v (mset argv + M)) w1" "iface_le w w1"
    using arg_to_target_ok [of e w ap t JUndef b "mset argv + M"] Cons.prems
    by (auto simp: iface_le_def)
  have "args_ok e (ifaces w1) ts ?ap" using Cons.prems args_ok_mono [OF w1(4)] by simp
  from Cons.IH [OF this, of "argv @ [?v]"] obtain ap' w' where
    "cvt_fixed e ts ?ap (argv @ [?v]) w1 = (True, (argv @ [?v]) @ args_values e ts ?ap, ap', w')"
    "calls w' = calls w1" "iface_le w1 w'"
    "balanced b (mset (argv @ [?v]) + M) w1 \<longrightarrow>
       balanced b (mset ((argv @ [?v]) @ args_values e ts ?ap) + M) w'"
    by blast
  then show ?case using w1 iface_le_trans by auto
qed auto

lemma cvt_rest_ok:
  "rest_ok e (ifaces w) rs \<Longrightarrow>
   \<exists>w'. cvt_rest e rs argv w = (argv @ rest_values e rs, w') \<and>
     calls w' = calls w \<and> iface_le w w' \<and>
     (balanced b (mset argv + M) w \<longrightarrow> balanced b (mset (argv @ rest_values e rs) + M) w')"
proof (induction e rs argv w rule: cvt_rest.induct)
  case (2 e n rs argv w)
  then show ?case by auto
next
  case (3 e t n rs argv w)
  obtain w1 where w1: "convertValueToTarget e t n JUndef w = (True, target_of e t n, w1)"
    "calls w1 = calls w"
    "balanced b (mset argv + M) w \<longrightarrow> balanced b (add_mset (target_of e t n) (mset argv + M)) w1"
    using convert_all(1) [of e w t n b "mset argv + M" JUndef] 3(2) by (auto simp: converted_def)
  have le: "iface_le w w1"
    using convert_ifaces(1) [of w _ e t n JUndef] w1(1) by (simp add: iface_le_def)
  have "rest_ok e (ifaces w1) rs" using 3(2) rest_ok_mono [OF le] by simp
  then show ?case using 3(1) [OF w1(1) [symmetric] refl refl] w1 le iface_le_trans by auto
qed auto

lemma balanced_call_args:
  "balanced b (mset argv + M) w \<Longrightarrow>
   balanced b M (free_all argv (feature_free_value f (feature_call f argv (feature_dup_value f w))))"
  by (simp add: balanced_free_all)

lemma ifaces_free_all [simp]: "ifaces (free_all vs w) = ifaces w"
  by (induction vs arbitrary: w) auto

lemma doInvokeCallback_ok:
  assumes "cb \<noteq> JUndef" "args_ok e (ifaces w) ts ap" "rest_ok e (ifaces w) rest"
  shows "\<exists>w'. doInvokeCallback e ts cb ap rest w = (0, w') \<and>
    calls w' = calls w @ [(cb, args_values e ts ap @ rest_values e rest)] \<and> iface_le w w' \<and>
    (balanced b M w \<longrightarrow> balanced b M w')"
proof -
  obtain ap1 w1 where 1: "cvt_fixed e ts ap [] w = (True, args_values e ts ap, ap1, w1)"
    "calls w1 = calls w" "iface_le w w1"
    "balanced b M w \<longrightarrow> balanced b (mset (args_values e ts ap) + M) w1"
    using cvt_fixed_ok [OF assms(2), of "[]" b M] by auto
  obtain w2 where 2: "cvt_rest e rest (args_values e ts ap) w1 =
      (args_values e ts ap @ rest_values e rest, w2)" "calls w2 = calls w1" "iface_le w1 w2"
    "balanced b (mset (args_values e ts ap) + M) w1 \<longrightarrow>
       balanced b (mset (args_values e ts ap @ rest_values e rest) + M) w2"
    using cvt_rest_ok [OF rest_ok_mono [OF 1(3) assms(3)], of "args_values e ts ap" b M] by auto
  show ?thesis
    using assms(1) 1 2 balanced_call_args [of b "args_values e ts ap @ rest_values e rest" M w2 cb]
    by (auto simp: doInvokeCallback_def iface_le_def)
qed

lemma emit_to_ok:
  "JUndef \<notin> set cbs \<Longrightarrow> args_ok e (ifaces w) ts ap \<Longrightarrow>
   calls (emit_to e ts ap cbs w) = calls w @ map (\<lambda>cb. (cb, args_values e ts ap)) cbs \<and>
   iface_le w (emit_to e ts ap cbs w) \<and>
   (balanced b M w \<longrightarrow> balanced b M (emit_to e ts ap cbs w))"
proof (induction cbs arbitrary: w)
  case (Cons cb cbs)
  have "cb \<noteq> JUndef" using Cons.prems(1) by auto
  then obtain w1 where w1: "doInvokeCallback e ts cb ap [] w = (0, w1)"
    "calls w1 = calls w @ [(cb, args_values e ts ap @ [])]" "iface_le w w1"
    "balanced b M w \<longrightarrow> balanced b M w1"
    using doInvokeCallback_ok [of cb e w ts ap "[]" b M] Cons.prems(2) by auto
  show ?case
    using Cons.IH [of w1] Cons.prems args_ok_mono [OF w1(3)] w1 iface_le_trans by auto
qed simp

section \<open>The API as one machine\<close>

datatype iop =
    OpAddCallback jsval "ftype pentry list"
  | OpRemoveCallback int
  | OpInvoke int "nval list"
  | OpInvokeCount int int "nval list" "(ftype option \<times> nval) list"
  | OpAddPromise "(jsval \<times> jsval \<times> jsval) option" ftype
  | OpAddAsync ftype jsval
  | OpResolve int "nval list"
  | OpReject int "32 word" "string option"
  | OpEmit int "nval list"
  | OpSubscribe member_event jsval
  | OpUnsubscribe member_event jsval
  | OpRemoveEvent int bool
  | OpListen bool
  | OpThrow string

fun iexec :: "engine \<Rightarrow> iop \<Rightarrow> inst \<times> world \<Rightarrow> inst \<times> world" where
  "iexec e (OpAddCallback v ps) (s, w) =
     (let (i, cm, w') = addCallback v ps (inst_cbs s) w in (s\<lparr>inst_cbs := cm\<rparr>, w'))"
| "iexec e (OpRemoveCallback cid) (s, w) =
     (let (r, h, w') = FeatureRemoveCallback (Some s) cid w in (the h, w'))"
| "iexec e (OpInvoke cid ap) (s, w) = (s, snd (FeatureInvokeCallback e (Some s) cid ap w))"
| "iexec e (OpInvokeCount cid n ap rest) (s, w) =
     (s, snd (FeatureInvokeCallbackCount e (Some s) cid n ap rest w))"
| "iexec e (OpAddPromise cap t) (s, w) =
     (let (i, pm, w') = addPromise cap t (inst_pm s) w in (s\<lparr>inst_pm := pm\<rparr>, w'))"
| "iexec e (OpAddAsync t arg) (s, w) =
     (let (i, arg', s', w') = addAsyncCallbacksFromArg t arg s w in (s', w'))"
| "iexec e (OpResolve pid ap) (s, w) =
     (let (r, h, w') = FeaturePromiseResolve e (Some s) pid ap w in (the h, w'))"
| "iexec e (OpReject pid code msg) (s, w) =
     (let (r, h, w') = FeaturePromiseReject (Some s) pid code msg w in (the h, w'))"
| "iexec e (OpEmit eid ap) (s, w) = (s, snd (FeatureEmitEvent e (Some s) eid ap w))"
| "iexec e (OpSubscribe me v) (s, w) =
     (let (i, em, w') = addEventCallback me v (inst_em s) w in (s\<lparr>inst_em := em\<rparr>, w'))"
| "iexec e (OpUnsubscribe me v) (s, w) =
     (let (em, w') = eraseEventCallback me v (inst_em s) w in (s\<lparr>inst_em := em\<rparr>, w'))"
| "iexec e (OpRemoveEvent eid k) (s, w) =
     (let (r, em, w') = removeEventCallbacks eid k (inst_em s) w in (s\<lparr>inst_em := em\<rparr>, w'))"
| "iexec e (OpListen l) (s, w) = (the (FeatureSetEventChangeListener (Some s) l), w)"
| "iexec e (OpThrow msg) (s, w) = (throwError msg s, w)"

text \<open>
  What the callers of the API guarantee: values that match the declared types, event
  members of the instance's own description, functions as event callbacks, and counters
  that have not used up the 32-bit ids.
\<close>

fun ienabled :: "engine \<Rightarrow> iop \<Rightarrow> inst \<times> world \<Rightarrow> bool" where
  "ienabled e (OpAddCallback v ps) (s, w) = (v \<noteq> JUndef \<and> curr_cid (inst_cbs s) < INT32_MAX)"
| "ienabled e (OpInvoke cid ap) (s, w) =
     (case getCallbackData (inst_cbs s) cid of
        Some d \<Rightarrow> args_ok e (ifaces w) (param_types (cd_params d)) ap | None \<Rightarrow> True)"
| "ienabled e (OpInvokeCount cid n ap rest) (s, w) =
     (case getCallbackData (inst_cbs s) cid of
        Some d \<Rightarrow> args_ok e (ifaces w) (param_types (cd_params d)) ap \<and>
          rest_ok e (ifaces w) (take (nat (n - int (length (param_types (cd_params d))))) rest)
      | None \<Rightarrow> True)"
| "ienabled e (OpAddPromise cap t) (s, w) = (curr_pid (inst_pm s) < INT32_MAX)"
| "ienabled e (OpAddAsync t arg) (s, w) = (curr_pid (inst_pm s) < INT32_MAX)"
| "ienabled e (OpResolve pid ap) (s, w) =
     (case getPromiseData (inst_pm s) pid of Some d \<Rightarrow> settle_ok e w d ap | None \<Rightarrow> True)"
| "ienabled e (OpEmit eid ap) (s, w) =
     (case getEventData (inst_em s) eid of
        Some d \<Rightarrow> args_ok e (ifaces w) (param_types (me_params (ed_event d))) ap | None \<Rightarrow> True)"
| "ienabled e (OpSubscribe me v) (s, w) = (v \<noteq> JUndef \<and> me_compatible me (inst_em s))"
| "ienabled e _ c = True"

definition inst_ok :: "inst \<Rightarrow> bool" where
  "inst_ok s \<longleftrightarrow> cbm_ok (inst_cbs s) \<and> pm_ok (inst_pm s) \<and> em_ok (inst_em s) \<and>
     JUndef \<notin># cbm_refs (inst_cbs s) \<and> JUndef \<notin># em_refs (inst_em s)"

definition table_refs :: "inst \<Rightarrow> jsval multiset" where
  "table_refs s = cbm_refs (inst_cbs s) + (pm_refs (inst_pm s) + em_refs (inst_em s))"

definition inst_refs :: "inst \<Rightarrow> jsval multiset" where
  "inst_refs s = table_refs s + (if inst_detached s then {#} else {#inst_target s#})"

text \<open>
  \<open>onDetached\<close> runs the description's native callback, a sequence \<open>nd\<close> of API calls, after
  the target object is released and before the tables are.
\<close>

fun iexec_all :: "engine \<Rightarrow> iop list \<Rightarrow> inst \<times> world \<Rightarrow> inst \<times> world" where
  "iexec_all e [] c = c"
| "iexec_all e (p # ps) c = iexec_all e ps (iexec e p c)"

definition onDetached :: "engine \<Rightarrow> iop list \<Rightarrow> inst \<times> world \<Rightarrow> inst \<times> world" where
  "onDetached e nd c =
     (let (s, w) = c in
      if inst_detached s then (s, w)
      else (let w1 = feature_free_value (inst_target s) w;
                (s2, w2) = iexec_all e nd (s, w1);
                (pm, w3) = releasePromises (inst_pm s2) w2;
                (cm, w4) = clearCallbacks (inst_cbs s2) w3;
                (em, w5) = clearAllEvents (inst_em s2) w4
            in (s2\<lparr>inst_pm := pm, inst_cbs := cm, inst_em := em, inst_detached := True\<rparr>, w5)))"

lemma iexec_detached [simp]:
  "inst_detached (fst (iexec e p (s, w))) = inst_detached s"
  "inst_target (fst (iexec e p (s, w))) = inst_target s"
  by (cases p; auto simp: Let_def FeatureRemoveCallback_def usable_def FeaturePromiseResolve_def
      FeaturePromiseReject_def resolvePromise_def rejectPromise_def addAsyncCallbacksFromArg_def
      FeatureSetEventChangeListener_def throwError_def split: prod.splits)+

lemma new_inst_ok: "inst_ok (new_inst t)" "table_refs (new_inst t) = {#}"
  by (simp_all add: inst_ok_def new_inst_def table_refs_def)

lemma cb_value_defined:
  "inst_ok s \<Longrightarrow> getCallbackData (inst_cbs s) cid = Some d \<Longrightarrow> cd_cb d \<noteq> JUndef"
  by (force simp: inst_ok_def cbm_refs_def getCallbackData_def ovals_def dest: map_of_SomeD)

lemma ev_values_defined:
  assumes "inst_ok s" "getEventData (inst_em s) eid = Some d"
  shows "JUndef \<notin> set (ed_callbacks d)"
proof -
  obtain R where "em_refs (inst_em s) = mset (ed_callbacks d) + R"
    using em_refs_split [of "inst_em s" eid d] assms by (auto simp: inst_ok_def getEventData_def)
  then show ?thesis using assms(1) by (auto simp: inst_ok_def)
qed

definition keeps :: "(jsval \<Rightarrow> int) \<Rightarrow> jsval multiset \<Rightarrow> inst \<times> world \<Rightarrow> inst \<times> world \<Rightarrow> bool" where
  "keeps b M c c' \<longleftrightarrow> inst_ok (fst c') \<and>
     (balanced b (table_refs (fst c) + M) (snd c) \<longrightarrow> balanced b (table_refs (fst c') + M) (snd c'))"

lemma settle_keeps:
  assumes "inst_ok s" "\<And>N. balanced b N w \<longrightarrow> balanced b N w1"
    "removePromise pid (inst_pm s) w1 = (r, pm, w2)"
  shows "keeps b M (s, w) (s\<lparr>inst_pm := pm\<rparr>, w2)"
proof -
  have ok: "pm_ok (inst_pm s)" using assms(1) by (simp add: inst_ok_def)
  have "balanced b (pm_refs (inst_pm s) + N) w \<longrightarrow> balanced b (pm_refs pm + N) w2" for N
    using removePromise_spec(6) [OF ok assms(3)] assms(2) by blast
  from this [of "cbm_refs (inst_cbs s) + (em_refs (inst_em s) + M)"]
  show ?thesis using assms(1) removePromise_spec(1) [OF ok assms(3)]
    by (auto simp: keeps_def inst_ok_def table_refs_def ac_simps)
qed

lemma pd_settle_balanced:
  "settle_ok e w d ap \<Longrightarrow> balanced b N w \<longrightarrow> balanced b N (snd (pd_resolve e d ap w))"
  "balanced b N w \<longrightarrow> balanced b N (snd (pd_reject d code msg w))"
  using pd_resolve_spec [of e w d ap b N] pd_reject_spec [of d code msg w b N] by auto

lemma iexec_resolve_eq:
  "\<not> inst_detached s \<Longrightarrow> iexec e (OpResolve pid ap) (s, w) =
     (let (ret, w1) = doResolvePromise e pid ap (inst_pm s) w;
          (removed, pm, w2) = removePromise pid (inst_pm s) w1 in (s\<lparr>inst_pm := pm\<rparr>, w2))"
  "\<not> inst_detached s \<Longrightarrow> iexec e (OpReject pid code msg) (s, w) =
     (let (ret, w1) = doRejectPromise pid code msg (inst_pm s) w;
          (removed, pm, w2) = removePromise pid (inst_pm s) w1 in (s\<lparr>inst_pm := pm\<rparr>, w2))"
  by (simp_all add: FeaturePromiseResolve_def FeaturePromiseReject_def usable_def
      resolvePromise_def rejectPromise_def split: prod.splits)

lemma iexec_resolve_keeps:
  assumes "inst_ok s" "ienabled e (OpResolve pid ap) (s, w)"
  shows "keeps b M (s, w) (iexec e (OpResolve pid ap) (s, w))"
proof (cases "inst_detached s")
  case False
  obtain ret w1 where r: "doResolvePromise e pid ap (inst_pm s) w = (ret, w1)" by fastforce
  obtain rm pm w2 where rm: "removePromise pid (inst_pm s) w1 = (rm, pm, w2)"
    by (cases "removePromise pid (inst_pm s) w1") auto
  have "balanced b N w \<longrightarrow> balanced b N w1" for N
  proof (cases "getPromiseData (inst_pm s) pid")
    case (Some d)
    then have "w1 = snd (pd_resolve e d ap w)" using r by (simp add: doResolvePromise_def)
    then show ?thesis using pd_settle_balanced(1) [of e w d ap b N] assms(2) Some by simp
  qed (use r in \<open>simp add: doResolvePromise_def\<close>)
  from settle_keeps [OF assms(1) this rm] show ?thesis
    using iexec_resolve_eq(1) [OF False] r rm by simp
qed (use assms(1) in \<open>simp add: keeps_def FeaturePromiseResolve_def usable_def\<close>)

lemma iexec_reject_keeps:
  assumes "inst_ok s"
  shows "keeps b M (s, w) (iexec e (OpReject pid code msg) (s, w))"
proof (cases "inst_detached s")
  case False
  obtain ret w1 where r: "doRejectPromise pid code msg (inst_pm s) w = (ret, w1)" by fastforce
  obtain rm pm w2 where rm: "removePromise pid (inst_pm s) w1 = (rm, pm, w2)"
    by (cases "removePromise pid (inst_pm s) w1") auto
  have "balanced b N w \<longrightarrow> balanced b N w1" for N
  proof (cases "getPromiseData (inst_pm s) pid")
    case (Some d)
    then have "w1 = snd (pd_reject d code msg w)" using r by (simp add: doRejectPromise_def)
    then show ?thesis using pd_settle_balanced(2) [of b N w d code msg] by simp
  qed (use r in \<open>simp add: doRejectPromise_def\<close>)
  from settle_keeps [OF assms(1) this rm] show ?thesis
    using iexec_resolve_eq(2) [OF False] r rm by simp
qed (use assms(1) in \<open>simp add: keeps_def FeaturePromiseReject_def usable_def\<close>)

lemma iexec_invoke_keeps:
  assumes "inst_ok s" "ienabled e (OpInvoke cid ap) (s, w)"
  shows "keeps b M (s, w) (iexec e (OpInvoke cid ap) (s, w))"
proof (cases "getCallbackData (inst_cbs s) cid")
  case (Some d)
  from doInvokeCallback_ok [OF cb_value_defined [OF assms(1) Some], of e w "param_types (cd_params d)" ap "[]" b]
  show ?thesis using assms Some
    by (auto simp: keeps_def FeatureInvokeCallback_def invokeCallback_def Let_def split: prod.splits)
qed (use assms in \<open>auto simp: keeps_def FeatureInvokeCallback_def invokeCallback_def\<close>)

lemma iexec_invoke_count_keeps:
  assumes "inst_ok s" "ienabled e (OpInvokeCount cid n ap rest) (s, w)"
  shows "keeps b M (s, w) (iexec e (OpInvokeCount cid n ap rest) (s, w))"
proof (cases "getCallbackData (inst_cbs s) cid")
  case (Some d)
  from doInvokeCallback_ok [OF cb_value_defined [OF assms(1) Some], of e w "param_types (cd_params d)" ap
      "take (nat (n - int (length (param_types (cd_params d))))) rest" b]
  show ?thesis using assms Some
    by (auto simp: keeps_def FeatureInvokeCallbackCount_def invokeCallbackCount_def Let_def
        getParamCount_Some split: prod.splits)
qed (use assms in \<open>auto simp: keeps_def FeatureInvokeCallbackCount_def invokeCallbackCount_def\<close>)

lemma iexec_emit_keeps:
  assumes "inst_ok s" "ienabled e (OpEmit eid ap) (s, w)"
  shows "keeps b M (s, w) (iexec e (OpEmit eid ap) (s, w))"
proof (cases "getEventData (inst_em s) eid")
  case (Some d)
  from emit_to_ok [OF ev_values_defined [OF assms(1) Some], of e w "param_types (me_params (ed_event d))" ap b]
  show ?thesis using assms Some
    by (auto simp: keeps_def FeatureEmitEvent_def emitEvent_def doEmitEvent_def Let_def)
qed (use assms in \<open>auto simp: keeps_def FeatureEmitEvent_def emitEvent_def\<close>)

lemma iexec_add_callback_keeps:
  assumes "inst_ok s" "ienabled e (OpAddCallback v ps) (s, w)"
  shows "keeps b M (s, w) (iexec e (OpAddCallback v ps) (s, w))"
proof -
  obtain i cm w' where a: "addCallback v ps (inst_cbs s) w = (i, cm, w')"
    by (cases "addCallback v ps (inst_cbs s) w") auto
  have pre: "cbm_ok (inst_cbs s)" "curr_cid (inst_cbs s) < INT32_MAX" "v \<noteq> JUndef"
    using assms by (auto simp: inst_ok_def)
  have "JUndef \<notin># cbm_refs cm"
    using addCallback_spec(3) [OF pre(1,2) a] assms(1) pre(3) by (auto simp: inst_ok_def)
  moreover have "balanced b (cbm_refs (inst_cbs s) + N) w \<longrightarrow> balanced b (cbm_refs cm + N) w'" for N
    using addCallback_balanced [OF pre(1,2) a] by blast
  ultimately show ?thesis using a assms(1) addCallback_spec(1) [OF pre(1,2) a]
    by (auto simp: keeps_def inst_ok_def table_refs_def add.assoc)
qed

lemma iexec_remove_callback_keeps:
  assumes "inst_ok s"
  shows "keeps b M (s, w) (iexec e (OpRemoveCallback cid) (s, w))"
proof -
  obtain r cm w' where a: "eraseCallback cid (inst_cbs s) w = (r, cm, w')"
    by (cases "eraseCallback cid (inst_cbs s) w") auto
  have pre: "cbm_ok (inst_cbs s)" using assms by (simp add: inst_ok_def)
  have "set_mset (cbm_refs cm) \<subseteq> set_mset (cbm_refs (inst_cbs s))"
    using a by (auto simp: eraseCallback_def cbm_refs_def omap_del_def ovals_def
        split: if_splits option.splits)
  moreover have "balanced b (cbm_refs (inst_cbs s) + N) w \<longrightarrow> balanced b (cbm_refs cm + N) w'" for N
    using eraseCallback_spec(5) [OF pre a] by blast
  ultimately show ?thesis using a assms eraseCallback_spec(1) [OF pre a]
    by (auto simp: keeps_def inst_ok_def table_refs_def add.assoc FeatureRemoveCallback_def)
qed

lemma iexec_add_promise_keeps:
  assumes "inst_ok s" "ienabled e (OpAddPromise cap t) (s, w)"
  shows "keeps b M (s, w) (iexec e (OpAddPromise cap t) (s, w))"
proof -
  obtain i pm w' where a: "addPromise cap t (inst_pm s) w = (i, pm, w')"
    by (cases "addPromise cap t (inst_pm s) w") auto
  have pre: "pm_ok (inst_pm s)" "curr_pid (inst_pm s) < INT32_MAX"
    using assms by (auto simp: inst_ok_def)
  have "balanced b (pm_refs (inst_pm s) + N) w \<longrightarrow> balanced b (pm_refs pm + N) w'" for N
    using addPromise_spec(5) [OF pre a] by blast
  from this [of "cbm_refs (inst_cbs s) + (em_refs (inst_em s) + M)"]
  show ?thesis using a assms(1) addPromise_spec(1) [OF pre a]
    by (auto simp: keeps_def inst_ok_def table_refs_def ac_simps)
qed

lemma addAsyncFromArg_keeps:
  assumes "inst_ok s" "curr_pid (inst_pm s) < INT32_MAX"
    "addAsyncCallbacksFromArg t arg s w = (i, arg', s', w')"
  shows "keeps b M (s, w) (s', w')" "calls w' = calls w"
proof -
  let ?su = "JS_GetProperty arg ''success''" and ?f = "JS_GetProperty arg ''fail''"
    and ?c = "JS_GetProperty arg ''complete''"
  let ?w1 = "feature_dup_value ?c (feature_dup_value ?f (feature_dup_value ?su w))"
  have b1: "balanced b N w \<longrightarrow> balanced b (add_mset ?su (add_mset ?f (add_mset ?c N))) ?w1" for N
    using balanced_dup [OF balanced_dup [OF balanced_dup [of b N w ?su], of ?f], of ?c]
    by (simp add: add_mset_commute)
  have "keeps b M (s, w) (s', w') \<and> calls w' = calls w"
  proof (cases "arg = JUndef \<or> \<not> JS_IsObject arg \<or> \<not> JS_IsFunction ?su \<and> \<not> JS_IsFunction ?f")
    case True
    then show ?thesis using assms b1 [of "table_refs s + M"]
      by (auto simp: addAsyncCallbacksFromArg_def keeps_def Let_def intro!: balanced_free split: if_splits)
  next
    case False
    obtain pid pm w2 where a: "addAsyncCallbacks t ?su ?f ?c (inst_pm s) ?w1 = (pid, pm, w2)"
      by (cases "addAsyncCallbacks t ?su ?f ?c (inst_pm s) ?w1") auto
    have pre: "pm_ok (inst_pm s)" using assms(1) by (simp add: inst_ok_def)
    let ?N = "cbm_refs (inst_cbs s) + (em_refs (inst_em s) + M)"
    have "balanced b (pm_refs (inst_pm s) + ?N) w \<longrightarrow> balanced b (pm_refs pm + ?N) w2"
      using addAsyncCallbacks_spec(5) [OF pre assms(2) a, of b ?N] b1 [of "pm_refs (inst_pm s) + ?N"]
      by (auto simp: ac_simps)
    then show ?thesis
      using assms(1,3) False a addAsyncCallbacks_spec(1,2) [OF pre assms(2) a]
      by (auto simp: addAsyncCallbacksFromArg_def Let_def keeps_def inst_ok_def table_refs_def ac_simps)
  qed
  then show "keeps b M (s, w) (s', w')" "calls w' = calls w" by auto
qed

lemma event_step_keeps:
  assumes "inst_ok s" "em_ok em" "JUndef \<notin># em_refs em"
    "\<And>N. balanced b (em_refs (inst_em s) + N) w \<longrightarrow> balanced b (em_refs em + N) w'"
  shows "keeps b M (s, w) (s\<lparr>inst_em := em\<rparr>, w')"
  using assms(1-3) assms(4) [of "cbm_refs (inst_cbs s) + (pm_refs (inst_pm s) + M)"]
  by (auto simp: keeps_def inst_ok_def table_refs_def ac_simps)

definition no_undef :: "(int, event_data) omap \<Rightarrow> bool" where
  "no_undef es \<longleftrightarrow> (\<forall>(k, d)\<in>set es. JUndef \<notin> set (ed_callbacks d))"

lemma em_undef_iff: "JUndef \<notin># em_refs m \<longleftrightarrow> no_undef (events_map m)"
proof -
  have "JUndef \<notin># mset_over (\<lambda>d. mset (ed_callbacks d)) (ovals es) \<longleftrightarrow> no_undef es" for es
    by (induction es) (auto simp: no_undef_def)
  then show ?thesis by (simp add: em_refs_def)
qed

lemma no_undef_put [intro!]:
  "no_undef es \<Longrightarrow> JUndef \<notin> set (ed_callbacks d) \<Longrightarrow> no_undef (omap_put k d es)"
  using set_omap_put [of k d es] by (fastforce simp: no_undef_def)

lemma no_undef_del [intro!]: "no_undef es \<Longrightarrow> no_undef (omap_del k es)"
  using set_omap_del [of k es] by (fastforce simp: no_undef_def)

lemma no_undef_lookup [dest]:
  "no_undef es \<Longrightarrow> map_of es k = Some d \<Longrightarrow> JUndef \<notin> set (ed_callbacks d)"
  by (force simp: no_undef_def dest: map_of_SomeD)

lemma iexec_subscribe_keeps:
  assumes "inst_ok s" "ienabled e (OpSubscribe me v) (s, w)"
  shows "keeps b M (s, w) (iexec e (OpSubscribe me v) (s, w))"
proof -
  obtain i em w' where a: "addEventCallback me v (inst_em s) w = (i, em, w')"
    by (cases "addEventCallback me v (inst_em s) w") auto
  have pre: "em_ok (inst_em s)" "me_compatible me (inst_em s)" "v \<noteq> JUndef"
    "JUndef \<notin># em_refs (inst_em s)"
    using assms by (auto simp: inst_ok_def)
  have u: "no_undef (events_map (inst_em s))" using pre(4) by (simp add: em_undef_iff)
  then have u1: "no_undef (omap_put (me_id me) \<lparr>ed_event = me, ed_callbacks = []\<rparr> (events_map (inst_em s)))"
    by auto
  have "no_undef (events_map em)"
  proof (cases "findEventId (inst_em s) me \<le> 0")
    case True
    then show ?thesis using a u1 pre(3)
      by (auto simp: addEventCallback_def Let_def ed_add_def findEvent_def)
  next
    case False
    then show ?thesis using a u pre(3) no_undef_lookup [OF u]
      by (auto simp: addEventCallback_def Let_def ed_add_def split: if_splits option.splits)
  qed
  then have "JUndef \<notin># em_refs em" by (simp add: em_undef_iff)
  moreover have "balanced b (em_refs (inst_em s) + N) w \<longrightarrow> balanced b (em_refs em + N) w'" for N
    using addEventCallback_spec(6) [OF pre(1,2) a] by blast
  ultimately show ?thesis
    using event_step_keeps [OF assms(1) addEventCallback_spec(1) [OF pre(1,2) a]] a by simp
qed

lemma iexec_unsubscribe_keeps:
  assumes "inst_ok s"
  shows "keeps b M (s, w) (iexec e (OpUnsubscribe me v) (s, w))"
proof -
  obtain em w' where a: "eraseEventCallback me v (inst_em s) w = (em, w')" by fastforce
  have pre: "em_ok (inst_em s)" "JUndef \<notin># em_refs (inst_em s)"
    using assms by (auto simp: inst_ok_def)
  have "JUndef \<notin># em_refs em"
    using a pre(2) no_undef_lookup [of "events_map (inst_em s)"] unfolding em_undef_iff
    by (auto simp: eraseEventCallback_def Let_def ed_erase_def split: if_splits option.splits)
  moreover have "balanced b (em_refs (inst_em s) + N) w \<longrightarrow> balanced b (em_refs em + N) w'" for N
    using eraseEventCallback_spec(4) [OF pre(1) a] by blast
  ultimately show ?thesis
    using event_step_keeps [OF assms(1) eraseEventCallback_spec(1) [OF pre(1) a]] a by simp
qed

lemma iexec_remove_event_keeps:
  assumes "inst_ok s"
  shows "keeps b M (s, w) (iexec e (OpRemoveEvent eid k) (s, w))"
proof -
  obtain r em w' where a: "removeEventCallbacks eid k (inst_em s) w = (r, em, w')"
    by (cases "removeEventCallbacks eid k (inst_em s) w") auto
  have pre: "em_ok (inst_em s)" "JUndef \<notin># em_refs (inst_em s)"
    using assms by (auto simp: inst_ok_def)
  have "JUndef \<notin># em_refs em"
    using a pre(2) unfolding em_undef_iff
    by (auto simp: removeEventCallbacks_def Let_def ed_clear_def split: if_splits option.splits)
  moreover have "balanced b (em_refs (inst_em s) + N) w \<longrightarrow> balanced b (em_refs em + N) w'" for N
    using removeEventCallbacks_spec(5) [OF pre(1) a] by blast
  ultimately show ?thesis
    using event_step_keeps [OF assms(1) removeEventCallbacks_spec(1) [OF pre(1) a]] a by simp
qed

lemma iexec_keeps:
  assumes "inst_ok s" "ienabled e p (s, w)"
  shows "keeps b M (s, w) (iexec e p (s, w))"
proof (cases p)
  case (OpAddAsync t arg)
  obtain i arg' s' w' where a: "addAsyncCallbacksFromArg t arg s w = (i, arg', s', w')"
    by (cases "addAsyncCallbacksFromArg t arg s w") auto
  then show ?thesis using addAsyncFromArg_keeps(1) [OF assms(1) _ a, of b M] assms(2) OpAddAsync by simp
next
  case (OpListen l)
  then show ?thesis using assms(1)
    by (auto simp: keeps_def FeatureSetEventChangeListener_def doSetEventChangeListener_def usable_def
        inst_ok_def table_refs_def em_ok_def em_refs_def)
next
  case (OpThrow msg)
  then show ?thesis using assms(1)
    by (auto simp: keeps_def throwError_def inst_ok_def table_refs_def)
qed (use assms in \<open>simp_all only: iexec_resolve_keeps iexec_reject_keeps iexec_invoke_keeps
      iexec_invoke_count_keeps iexec_emit_keeps iexec_add_callback_keeps
      iexec_remove_callback_keeps iexec_add_promise_keeps iexec_subscribe_keeps
      iexec_unsubscribe_keeps iexec_remove_event_keeps\<close>)

section \<open>Detaching gives everything back\<close>

fun is_internal :: "iop \<Rightarrow> bool" where
  "is_internal (OpAddCallback _ _) = True"
| "is_internal (OpAddPromise _ _) = True"
| "is_internal (OpAddAsync _ _) = True"
| "is_internal (OpSubscribe _ _) = True"
| "is_internal (OpUnsubscribe _ _) = True"
| "is_internal (OpRemoveEvent _ _) = True"
| "is_internal _ = False"

definition inst_live_ok :: "inst \<Rightarrow> bool" where
  "inst_live_ok s \<longleftrightarrow> inst_ok s \<and> (inst_detached s \<longrightarrow> table_refs s = {#})"

definition ilive :: "engine \<Rightarrow> iop \<Rightarrow> inst \<times> world \<Rightarrow> bool" where
  "ilive e p c \<longleftrightarrow> ienabled e p c \<and> (is_internal p \<longrightarrow> \<not> inst_detached (fst c))"

fun nd_enabled :: "engine \<Rightarrow> iop list \<Rightarrow> inst \<times> world \<Rightarrow> bool" where
  "nd_enabled e [] c = True"
| "nd_enabled e (p # ps) c = (ienabled e p c \<and> nd_enabled e ps (iexec e p c))"

lemma iexec_detached_noop:
  "inst_detached s \<Longrightarrow> \<not> is_internal p \<Longrightarrow>
   table_refs (fst (iexec e p (s, w))) = table_refs s \<and> snd (iexec e p (s, w)) = w"
  by (cases p) (auto simp: usable_def FeatureInvokeCallback_def FeatureInvokeCallbackCount_def
      FeatureRemoveCallback_def FeaturePromiseResolve_def FeaturePromiseReject_def
      FeatureEmitEvent_def FeatureSetEventChangeListener_def throwError_def table_refs_def)

lemma iexec_all_keeps:
  "inst_ok (fst c) \<Longrightarrow> nd_enabled e nd c \<Longrightarrow> keeps b M c (iexec_all e nd c)"
proof (induction nd arbitrary: c)
  case (Cons p ps)
  obtain s w where c: "c = (s, w)" by fastforce
  have k: "keeps b M c (iexec e p c)" using iexec_keeps Cons.prems c by simp
  then have "keeps b M (iexec e p c) (iexec_all e ps (iexec e p c))"
    using Cons by (simp add: keeps_def)
  then show ?case using k by (simp add: keeps_def)
qed (simp add: keeps_def)

lemma onDetached_spec:
  assumes "inst_ok s" "\<not> inst_detached s"
    "nd_enabled e nd (s, feature_free_value (inst_target s) w)"
    "onDetached e nd (s, w) = (s', w')"
  shows "inst_ok s'" "inst_detached s'" "table_refs s' = {#}"
    "balanced b (inst_refs s + M) w \<Longrightarrow> balanced b M w'"
proof -
  let ?w1 = "feature_free_value (inst_target s) w"
  obtain s2 w2 where 2: "iexec_all e nd (s, ?w1) = (s2, w2)" by fastforce
  obtain pm w3 where 3: "releasePromises (inst_pm s2) w2 = (pm, w3)" by fastforce
  obtain cm w4 where 4: "clearCallbacks (inst_cbs s2) w3 = (cm, w4)" by fastforce
  obtain em w5 where 5: "clearAllEvents (inst_em s2) w4 = (em, w5)" by fastforce
  have s': "s' = s2\<lparr>inst_pm := pm, inst_cbs := cm, inst_em := em, inst_detached := True\<rparr>" "w' = w5"
    using assms(2,4) 2 3 4 5 by (auto simp: onDetached_def)
  have k: "keeps b M (s, ?w1) (s2, w2)"
    using iexec_all_keeps [of "(s, ?w1)" e nd b M] assms(1,3) 2 by simp
  then have ok2: "inst_ok s2" by (simp add: keeps_def)
  show "inst_ok s'" "inst_detached s'" "table_refs s' = {#}"
    using s' ok2 releasePromises_spec(2,3) [OF 3] clearCallbacks_spec(2,4) [OF 4]
      clearAllEvents_spec(2,3) [OF 5]
    by (auto simp: inst_ok_def table_refs_def)
  show "balanced b M w'" if "balanced b (inst_refs s + M) w"
  proof -
    have "balanced b (table_refs s + M) ?w1"
      using that assms(2) by (auto simp: inst_refs_def intro: balanced_free)
    then have "balanced b (table_refs s2 + M) w2" using k by (simp add: keeps_def)
    then have "balanced b (pm_refs (inst_pm s2) + (cbm_refs (inst_cbs s2) + (em_refs (inst_em s2) + M))) w2"
      by (simp add: table_refs_def ac_simps)
    then have "balanced b (cbm_refs (inst_cbs s2) + (em_refs (inst_em s2) + M)) w3"
      by (rule releasePromises_spec(5) [OF 3])
    then have "balanced b (em_refs (inst_em s2) + M) w4"
      by (rule clearCallbacks_spec [OF 4])
    then show ?thesis using clearAllEvents_spec(6) [OF 5] s' by simp
  qed
qed

interpretation inst_owner: ref_owner inst_live_ok inst_refs "ilive e" "iexec e" "onDetached e []"
  for e
proof (unfold_locales, goal_cases)
  case (1 s p w s' w')
  then have "inst_ok s'" using iexec_keeps [of s e p w "\<lambda>v. 0" "{#}"]
    by (simp add: keeps_def ilive_def inst_live_ok_def)
  moreover have "inst_detached s' = inst_detached s" using 1(3) iexec_detached(1) [of e p s w] by simp
  ultimately show ?case using 1 iexec_detached_noop [of s p e w]
    by (auto simp: inst_live_ok_def ilive_def)
next
  case (2 s p w s' w' b M)
  have d: "inst_detached s' = inst_detached s" "inst_target s' = inst_target s"
    using 2(3) iexec_detached [of e p s w] by auto
  show ?case
    using iexec_keeps [of s e p w b "(if inst_detached s then {#} else {#inst_target s#}) + M"] 2 d
    by (auto simp: keeps_def inst_refs_def ilive_def inst_live_ok_def add.assoc)
next
  case (3 s w s' w')
  show ?case
  proof (cases "inst_detached s")
    case True
    then show ?thesis using 3 by (simp add: inst_live_ok_def inst_refs_def onDetached_def)
  next
    case False
    then show ?thesis using onDetached_spec(1-3) [OF _ False _ 3(2)] 3(1)
      by (simp add: inst_live_ok_def inst_refs_def)
  qed
next
  case (4 s w s' w' b M)
  show ?case
  proof (cases "inst_detached s")
    case True
    then show ?thesis using 4 by (simp add: inst_live_ok_def inst_refs_def onDetached_def)
  next
    case False
    then show ?thesis using onDetached_spec(4) [OF _ False _ 4(2)] 4(1,3)
      by (simp add: inst_live_ok_def)
  qed
qed

lemma FeatureInvokeCallback_live:
  assumes "inst_ok s" "\<not> inst_detached s" "getCallbackData (inst_cbs s) cid = Some d"
    "\<not> rest_ended (cd_params d)" "args_ok e (ifaces w) (param_types (cd_params d)) ap"
  shows "\<exists>w'. FeatureInvokeCallback e (Some s) cid ap w = (True, w') \<and>
    calls w' = calls w @ [(cd_cb d, args_values e (param_types (cd_params d)) ap)] \<and>
    (balanced b M w \<longrightarrow> balanced b M w')"
proof -
  have "0 < cid" using assms(1,3)
    by (force simp: inst_ok_def cbm_ok_def getCallbackData_def okeys_iff)
  moreover obtain w' where "doInvokeCallback e (param_types (cd_params d)) (cd_cb d) ap [] w = (0, w')"
    "calls w' = calls w @ [(cd_cb d, args_values e (param_types (cd_params d)) ap @ [])]"
    "balanced b M w \<longrightarrow> balanced b M w'"
    using doInvokeCallback_ok [OF cb_value_defined [OF assms(1,3)] assms(5), of "[]" b M] by auto
  ultimately show ?thesis using assms(2-4)
    by (auto simp: FeatureInvokeCallback_def usable_def invokeCallback_def getParamCount_Some)
qed

end
