(* ===== verification/ConcreteEngine.thy ===== *)
theory ConcreteEngine
  imports Instance
begin

text \<open>
  A concrete engine, world and instance, on which the witnesses of the properties run.
\<close>

definition engine0 :: engine where
  "engine0 = \<lparr>
     e_NewUint32 = (\<lambda>u. if u \<le> 2147483647 then JInt u else JFloat64 (ucast u)),
     e_NewInt64 = (\<lambda>u. JFloat64 u),
     e_NewBigUint64 = (\<lambda>u. JBigInt (uint u)),
     e_NewFloat64 = JFloat64,
     e_ToUint32 = (\<lambda>v. case v of JInt i \<Rightarrow> Some i | JFloat64 d \<Rightarrow> Some (ucast d) | _ \<Rightarrow> None),
     e_ToInt64 = (\<lambda>v. case v of JInt i \<Rightarrow> Some (scast i) | JFloat64 d \<Rightarrow> Some d | _ \<Rightarrow> None),
     e_ToIndex = (\<lambda>v. case v of JInt i \<Rightarrow> if 0 \<le> sint i then Some (ucast i) else None | _ \<Rightarrow> None),
     e_ToFloat64 = (\<lambda>v. case v of JInt i \<Rightarrow> Some (scast i) | JFloat64 d \<Rightarrow> Some d | _ \<Rightarrow> None),
     e_f32_of_f64 = ucast, e_f64_of_f32 = ucast,
     e_ParseJSON = (\<lambda>s. if s = ''{}'' then Some (JObject []) else None),
     e_Stringify = (\<lambda>v. ''{}''),
     e_protoToTarget = (\<lambda>n. JObject []), e_protoToNative = (\<lambda>v. 0)\<rparr>"

lemma engine0_ok: "engine_ok engine0"
  by (auto simp: engine_ok_def engine0_def is_up is_down ucast_down_ucast_id)

definition world0 :: world where
  "world0 = \<lparr>rc = (\<lambda>v. if v = JFun 0 then 1 else 0), calls = [], ifaces = (\<lambda>i. None)\<rparr>"

definition inst0 :: inst where
  "inst0 = (new_inst (JFun 0))\<lparr>
     inst_cbs := \<lparr>callbacks = [(1, \<lparr>cd_cb = JFun 1, cd_params = [PType (Prim FT_INT), PEnd]\<rparr>),
        (2, \<lparr>cd_cb = JFun 6, cd_params = [PType (Prim FT_INT), PRestEnd]\<rparr>)], curr_cid = 2\<rparr>,
     inst_pm := \<lparr>promises = [(0, PPromise (Prim FT_STRING) (JFun 2) (JFun 3) (JFun 4)),
        (1, PCallbacks (Prim FT_INT) (JFun 7) JUndef (JFun 8))], curr_pid = 2\<rparr>,
     inst_em := \<lparr>events_map = [(1, \<lparr>ed_event = \<lparr>me_addr = 9, me_id = 1, me_name = ''onchange'',
        me_params = [PType (Prim FT_BOOLEAN), PEnd]\<rparr>, ed_callbacks = [JFun 5, JFun 6]\<rparr>)],
        has_listener = True, notified = []\<rparr>\<rparr>"

lemma inst0_ok: "inst_ok inst0" "\<not> inst_detached inst0"
  by (simp_all add: inst0_def inst_ok_def new_inst_def cbm_ok_def pm_ok_def em_ok_def
      omap_ok_def cbm_refs_def em_refs_def entry_ok_def)

lemma world0_calls [simp]: "calls world0 = []"
  by (simp add: world0_def)

lemma world0_rc: "rc world0 (JFun 0) = 1"
  by (simp add: world0_def)

lemma iface_own_none [simp]: "iface_own (\<lambda>i. None) v = 0"
  by (cases v) auto

end
