(* ===== verification/HandleApi.thy ===== *)
theory HandleApi
  imports Instance
begin

text \<open>
  What the handle functions of \<open>Instance\<close> do on a live instance, in the form the service modules use them: a
  callback is called with strings and codes, and given back.
\<close>

text \<open>A registered callback with parameters of the given types, and the function it stands for.\<close>

definition takes :: "inst \<Rightarrow> int \<Rightarrow> ftype list \<Rightarrow> bool" where
  "takes s cid ts \<longleftrightarrow>
     (case getCallbackData (inst_cbs s) cid of
        None \<Rightarrow> False
      | Some d \<Rightarrow> \<not> rest_ended (cd_params d) \<and> param_types (cd_params d) = ts)"

definition taker :: "inst \<Rightarrow> int \<Rightarrow> jsval" where
  "taker s cid = (case getCallbackData (inst_cbs s) cid of None \<Rightarrow> JUndef | Some d \<Rightarrow> cd_cb d)"

definition alive :: "inst \<Rightarrow> bool" where
  "alive s \<longleftrightarrow> inst_ok s \<and> \<not> inst_detached s"

lemma invoke_takes:
  assumes "alive s" "takes s cid ts" "args_ok e (ifaces w) ts ap"
  shows "calls (snd (FeatureInvokeCallback e (Some s) cid ap w)) = calls w @ [(taker s cid, args_values e ts ap)]"
    "balanced b M w \<Longrightarrow> balanced b M (snd (FeatureInvokeCallback e (Some s) cid ap w))"
    "fst (FeatureInvokeCallback e (Some s) cid ap w)"
proof -
  obtain d where d: "getCallbackData (inst_cbs s) cid = Some d" "\<not> rest_ended (cd_params d)" "param_types (cd_params d) = ts"
    using assms(2) by (auto simp: takes_def split: option.splits)
  obtain w' where "FeatureInvokeCallback e (Some s) cid ap w = (True, w')"
    "calls w' = calls w @ [(cd_cb d, args_values e ts ap)]" "balanced b M w \<longrightarrow> balanced b M w'"
    using FeatureInvokeCallback_live [of s cid d e w ap b M] assms d by (auto simp: alive_def)
  then show "calls (snd (FeatureInvokeCallback e (Some s) cid ap w)) = calls w @ [(taker s cid, args_values e ts ap)]"
    "balanced b M w \<Longrightarrow> balanced b M (snd (FeatureInvokeCallback e (Some s) cid ap w))"
    "fst (FeatureInvokeCallback e (Some s) cid ap w)"
    using d(1) by (simp_all add: taker_def)
qed

lemma string_args:
  "args_ok e I [Prim FT_STRING] [NStr t]" "args_values e [Prim FT_STRING] [NStr t] = [JStr (cstr t)]"
  "args_ok e I [Prim FT_STRING, Prim FT_INT] [NStr t, NBits c]"
  "args_values e [Prim FT_STRING, Prim FT_INT] [NStr t, NBits c] = [JStr (cstr t), JInt (ucast c)]"
proof -
  have "ucast (ucast (ucast c :: 32 word) :: 64 word) = (ucast c :: 32 word)"
    by (rule bit_word_eqI) (simp add: bit_simps)
  then show "args_values e [Prim FT_STRING, Prim FT_INT] [NStr t, NBits c] = [JStr (cstr t), JInt (ucast c)]"
    by (simp add: arg_value_def extractVariadicParam_def FT_IS_REFERENCE_iff nativeToTarget_def)
qed (simp_all add: arg_ok_def arg_value_def extractVariadicParam_def FT_IS_REFERENCE_iff scalar_prim_def)

lemma code_bits: "(ucast (word_of_int i :: 64 word) :: 32 word) = word_of_int i"
  by (rule bit_word_eqI) (simp add: bit_simps)

lemma invoke_string:
  assumes "alive s" "takes s cid [Prim FT_STRING]"
  shows "calls (snd (FeatureInvokeCallback e (Some s) cid [NStr t] w)) = calls w @ [(taker s cid, [JStr (cstr t)])]"
    "balanced b M w \<Longrightarrow> balanced b M (snd (FeatureInvokeCallback e (Some s) cid [NStr t] w))"
  using invoke_takes [OF assms string_args(1)] by (simp_all only: string_args)

lemma invoke_string_code:
  assumes "alive s" "takes s cid [Prim FT_STRING, Prim FT_INT]"
  shows "calls (snd (FeatureInvokeCallback e (Some s) cid [NStr t, NBits c] w)) = calls w @ [(taker s cid, [JStr (cstr t), JInt (ucast c)])]"
    "balanced b M w \<Longrightarrow> balanced b M (snd (FeatureInvokeCallback e (Some s) cid [NStr t, NBits c] w))"
  using invoke_takes [OF assms string_args(3)] by (simp_all only: string_args)

lemma remove_live:
  assumes "alive s" "FeatureRemoveCallback (Some s) cid w = (r, h', w')"
  shows "\<exists>s'. h' = Some s' \<and> alive s' \<and> inst_pm s' = inst_pm s \<and> inst_em s' = inst_em s \<and>
    map_of (callbacks (inst_cbs s')) = (map_of (callbacks (inst_cbs s)))(cid := None) \<and> calls w' = calls w \<and>
    (balanced b (cbm_refs (inst_cbs s) + M) w \<longrightarrow> balanced b (cbm_refs (inst_cbs s') + M) w')"
proof -
  obtain cm where e: "eraseCallback cid (inst_cbs s) w = (r, cm, w')" and h: "h' = Some (s\<lparr>inst_cbs := cm\<rparr>)"
    using assms by (auto simp: FeatureRemoveCallback_def usable_def alive_def Let_def split: prod.splits)
  have ok: "cbm_ok (inst_cbs s)" using assms(1) by (simp add: alive_def inst_ok_def)
  note sp = eraseCallback_spec [OF ok e]
  have "set (callbacks cm) \<subseteq> set (callbacks (inst_cbs s))" "calls w' = calls w"
    using e set_omap_del [of cid "callbacks (inst_cbs s)"] by (auto simp: eraseCallback_def split: if_splits option.splits)
  moreover from this(1) have "set (ovals (callbacks cm)) \<subseteq> set (ovals (callbacks (inst_cbs s)))" by (auto simp: ovals_def)
  then have "JUndef \<notin># cbm_refs cm" using assms(1) by (auto simp: alive_def inst_ok_def cbm_refs_def mset_over_def)
  then have "alive (s\<lparr>inst_cbs := cm\<rparr>)" using assms(1) sp(1) by (simp add: alive_def inst_ok_def)
  ultimately show ?thesis using h sp(3,5) by simp
qed

text \<open>Settling a promise of a live instance makes the calls of the promise and removes its id; nothing else of the
  instance changes.\<close>

definition settled_from :: "inst \<Rightarrow> int \<Rightarrow> inst \<Rightarrow> bool" where
  "settled_from s pid s' \<longleftrightarrow> alive s' \<and> inst_cbs s' = inst_cbs s \<and> inst_em s' = inst_em s \<and>
     getPromiseData (inst_pm s') = (getPromiseData (inst_pm s))(pid := None)"

lemma settled_by_removal:
  assumes "alive s" "removePromise pid (inst_pm s) w1 = (r, pm, w2)"
  shows "settled_from s pid (s\<lparr>inst_pm := pm\<rparr>)" "calls w2 = calls w1"
    "r \<longleftrightarrow> getPromiseData (inst_pm s) pid \<noteq> None"
    "balanced b (inst_refs s + M) w1 \<longrightarrow> balanced b (inst_refs (s\<lparr>inst_pm := pm\<rparr>) + M) w2"
proof -
  have ok: "pm_ok (inst_pm s)" using assms(1) by (simp add: alive_def inst_ok_def)
  note spec = removePromise_spec [OF ok assms(2)]
  show "settled_from s pid (s\<lparr>inst_pm := pm\<rparr>)"
    using assms(1) spec(1,3) by (simp add: settled_from_def alive_def inst_ok_def getPromiseData_def [abs_def])
  show "calls w2 = calls w1" "r \<longleftrightarrow> getPromiseData (inst_pm s) pid \<noteq> None" using spec(4,5) by simp_all
  show "balanced b (inst_refs s + M) w1 \<longrightarrow> balanced b (inst_refs (s\<lparr>inst_pm := pm\<rparr>) + M) w2"
    using spec(6) [of b "cbm_refs (inst_cbs s) + em_refs (inst_em s) + {#inst_target s#} + M"] assms(1)
    by (auto simp: alive_def inst_refs_def table_refs_def ac_simps)
qed

lemma resolve_live:
  assumes "alive s" "getPromiseData (inst_pm s) pid = Some d" "settle_ok e w d ap"
  shows "\<exists>s' w'. FeaturePromiseResolve e (Some s) pid ap w = (resolve_func d \<noteq> JUndef, Some s', w') \<and>
    calls w' = calls w @ resolve_calls d (settle_value e d ap) \<and> settled_from s pid s' \<and>
    (balanced b (inst_refs s + M) w \<longrightarrow> balanced b (inst_refs s' + M) w')"
proof -
  obtain w1 where w1: "pd_resolve e d ap w = (if resolve_func d = JUndef then - 1 else 0, w1)"
    "calls w1 = calls w @ resolve_calls d (settle_value e d ap)"
    "balanced b (inst_refs s + M) w \<longrightarrow> balanced b (inst_refs s + M) w1"
    using pd_resolve_spec [OF assms(3), of b "inst_refs s + M"] by blast
  obtain rm pm w2 where rm: "removePromise pid (inst_pm s) w1 = (rm, pm, w2)"
    by (cases "removePromise pid (inst_pm s) w1") auto
  show ?thesis
    using assms(1,2) w1 rm settled_by_removal(1-3) [OF assms(1) rm] settled_by_removal(4) [OF assms(1) rm, of b M]
    by (auto simp: FeaturePromiseResolve_def usable_def alive_def resolvePromise_def doResolvePromise_def getPromiseData_def)
qed

lemma reject_live:
  assumes "alive s" "getPromiseData (inst_pm s) pid = Some d"
  shows "\<exists>s' w'. FeaturePromiseReject (Some s) pid code msg w = (reject_func d \<noteq> JUndef, Some s', w') \<and>
    calls w' = calls w @ reject_calls d code (case msg of Some m \<Rightarrow> m | None \<Rightarrow> ''unknown error'') \<and> settled_from s pid s' \<and>
    (balanced b (inst_refs s + M) w \<longrightarrow> balanced b (inst_refs s' + M) w')"
proof -
  obtain w1 where w1: "pd_reject d code msg w = (if reject_func d = JUndef then - 1 else 0, w1)"
    "calls w1 = calls w @ reject_calls d code (case msg of Some m \<Rightarrow> m | None \<Rightarrow> ''unknown error'')"
    "balanced b (inst_refs s + M) w \<longrightarrow> balanced b (inst_refs s + M) w1"
    using pd_reject_spec [of d code msg w b "inst_refs s + M"] by blast
  obtain rm pm w2 where rm: "removePromise pid (inst_pm s) w1 = (rm, pm, w2)"
    by (cases "removePromise pid (inst_pm s) w1") auto
  show ?thesis
    using assms(1,2) w1 rm settled_by_removal(1-3) [OF assms(1) rm] settled_by_removal(4) [OF assms(1) rm, of b M]
    by (auto simp: FeaturePromiseReject_def usable_def alive_def rejectPromise_def doRejectPromise_def getPromiseData_def)
qed

text \<open>An id that is not pending is refused.\<close>

lemma settle_dead:
  assumes "alive s" "getPromiseData (inst_pm s) pid = None"
  shows "FeaturePromiseReject (Some s) pid code msg w = (False, Some s, w)" "FeaturePromiseResolve e (Some s) pid ap w = (False, Some s, w)"
  using assms
  by (simp_all add: FeaturePromiseReject_def FeaturePromiseResolve_def usable_def alive_def rejectPromise_def resolvePromise_def
      doRejectPromise_def doResolvePromise_def removePromise_def getPromiseData_def)

end
