(* ===== verification/CoreProps.thy ===== *)
theory CoreProps
  imports ConcreteEngine HandleApi
begin

text \<open>
  The properties of the instance core: what the checked API of
  \<open>src/feature_exports.cpp\<close> guarantees about promises, callbacks, events, ownership of script
  references and detachment, each with a witness on a concrete instance.
\<close>

section \<open>The concrete instance\<close>

definition pd0 :: promise_data where
  "pd0 = PPromise (Prim FT_STRING) (JFun 2) (JFun 3) (JFun 4)"

definition pd1 :: promise_data where
  "pd1 = PCallbacks (Prim FT_INT) (JFun 7) JUndef (JFun 8)"

definition cd1 :: cb_data where
  "cd1 = \<lparr>cd_cb = JFun 1, cd_params = [PType (Prim FT_INT), PEnd]\<rparr>"

definition cd2 :: cb_data where
  "cd2 = \<lparr>cd_cb = JFun 6, cd_params = [PType (Prim FT_INT), PRestEnd]\<rparr>"

definition me1 :: member_event where
  "me1 = \<lparr>me_addr = 9, me_id = 1, me_name = ''onchange'', me_params = [PType (Prim FT_BOOLEAN), PEnd]\<rparr>"

definition ed1 :: event_data where
  "ed1 = \<lparr>ed_event = me1, ed_callbacks = [JFun 5, JFun 6]\<rparr>"

lemma inst0_lookup:
  "getPromiseData (inst_pm inst0) 0 = Some pd0" "getPromiseData (inst_pm inst0) 1 = Some pd1"
  "getCallbackData (inst_cbs inst0) 1 = Some cd1" "getCallbackData (inst_cbs inst0) 2 = Some cd2"
  "getEventData (inst_em inst0) 1 = Some ed1"
  by (simp_all add: inst0_def getPromiseData_def getCallbackData_def getEventData_def pd0_def pd1_def
      cd1_def cd2_def ed1_def me1_def)

lemma args0:
  "arg_ok engine0 I [NStr ''ok''] (Prim FT_STRING)"
  "arg_value engine0 [NStr ''ok''] (Prim FT_STRING) = JStr ''ok''"
  "arg_ok engine0 I [NBits 4294967295] (Prim FT_INT)"
  "arg_value engine0 [NBits 4294967295] (Prim FT_INT) = JInt (- 1)"
  "arg_ok engine0 I [NBits 1] (Prim FT_BOOLEAN)"
  "arg_value engine0 [NBits 1] (Prim FT_BOOLEAN) = JBool True"
  by (simp_all add: arg_ok_def arg_value_def extractVariadicParam_def FT_IS_REFERENCE_iff
      scalar_prim_def nativeToTarget_def cstr_def)

lemmas api_eval = FeaturePromiseResolve_def FeaturePromiseReject_def FeatureInvokeCallback_def
  FeatureRemoveCallback_def FeatureEmitEvent_def usable_def inst0_def new_inst_def
  resolvePromise_def rejectPromise_def doResolvePromise_def doRejectPromise_def
  getPromiseData_def getCallbackData_def getEventData_def arg_to_target_def
  extractVariadicParam_def FT_IS_REFERENCE_iff Let_def scalar_prim_def removePromise_def
  invoke_js_Callback_def invokeCallback_def ilive_def arg_ok_def addCallback_def addPromise_def
  insertPromise_def eraseCallback_def findCallbackId_def isSameValue_def

section \<open>Runs of the API\<close>

fun api_enabled :: "engine \<Rightarrow> iop list \<Rightarrow> inst \<times> world \<Rightarrow> bool" where
  "api_enabled e [] c = True"
| "api_enabled e (p # ps) c = (ilive e p c \<and> api_enabled e ps (iexec e p c))"

lemma api_run: "inst_owner.run e ps c = iexec_all e ps c"
  by (induction ps arbitrary: c) auto

lemma api_all_enabled: "inst_owner.all_enabled e ps c = api_enabled e ps c"
  by (induction ps arbitrary: c) auto

lemma api_run_ok: "inst_ok (fst c) \<Longrightarrow> api_enabled e ps c \<Longrightarrow> inst_ok (fst (iexec_all e ps c))"
proof (induction ps arbitrary: c)
  case (Cons p ps)
  have "inst_ok (fst (iexec e p c))"
    using iexec_keeps [of "fst c" e p "snd c" "\<lambda>v. 0" "{#}"] Cons.prems
    by (simp add: keeps_def ilive_def)
  then show ?case using Cons by simp
qed simp

lemma api_run_detached:
  "inst_detached (fst (iexec_all e ps c)) = inst_detached (fst c)"
proof (induction ps arbitrary: c)
  case (Cons p ps)
  then show ?case using iexec_detached(1) [of e p "fst c" "snd c"] by simp
qed simp

text \<open>Every API operation changes the promise table by at most one table operation.\<close>

text \<open>Every API operation is at most one operation on the promise table.\<close>

lemma addPromise_hstep:
  "addPromise cap t m w = (i, m', w') \<Longrightarrow>
   \<exists>hs. m' = pmt.hrun hs m \<and> length hs \<le> 1"
proof (cases cap)
  case (Some c)
  assume a: "addPromise cap t m w = (i, m', w')"
  obtain q g0 g1 where "c = (q, g0, g1)" by (cases c)
  then have "m' = pmt.hrun [HAdd (PPromise t q g0 g1)] m"
    using a Some by (cases "insertPromise (PPromise t q g0 g1) m") (auto simp: addPromise_def)
  then show ?thesis by (intro exI [of _ "[HAdd (PPromise t q g0 g1)]"]) simp
qed (auto simp: addPromise_def intro: exI [of _ "[]"])

lemma addAsync_hstep:
  "addAsyncCallbacksFromArg t arg s w = (i, arg', s', w') \<Longrightarrow>
   \<exists>hs. inst_pm s' = pmt.hrun hs (inst_pm s) \<and> length hs \<le> 1"
proof -
  assume a: "addAsyncCallbacksFromArg t arg s w = (i, arg', s', w')"
  let ?d = "PCallbacks t (JS_GetProperty arg ''success'') (JS_GetProperty arg ''fail'')
     (JS_GetProperty arg ''complete'')"
  have "inst_pm s' = pmt.hrun [] (inst_pm s) \<or> inst_pm s' = pmt.hrun [HAdd ?d] (inst_pm s)"
    using a by (cases "insertPromise ?d (inst_pm s)")
      (auto simp: addAsyncCallbacksFromArg_def addAsyncCallbacks_def Let_def split: if_splits)
  then show ?thesis
    by (elim disjE) (rule exI [of _ "[]"], simp, rule exI [of _ "[HAdd ?d]"], simp)
qed

lemma removePromise_hstep: "removePromise pid m w = (r, m', w') \<Longrightarrow> m' = pmt.hrun [HDel pid] m"
  using pm_erase_eq by simp

lemma iexec_pm_other:
  "(\<forall>cap t. p \<noteq> OpAddPromise cap t) \<Longrightarrow> (\<forall>t a. p \<noteq> OpAddAsync t a) \<Longrightarrow>
   (\<forall>pid ap. p \<noteq> OpResolve pid ap) \<Longrightarrow> (\<forall>pid c m. p \<noteq> OpReject pid c m) \<Longrightarrow>
   inst_pm (fst (iexec e p (s, w))) = inst_pm s"
  by (cases p) (auto simp: FeatureRemoveCallback_def FeatureSetEventChangeListener_def
      usable_def throwError_def split: prod.splits)

lemma iexec_pm:
  assumes "ienabled e p (s, w)"
  shows "\<exists>hs. inst_pm (fst (iexec e p (s, w))) = pmt.hrun hs (inst_pm s) \<and>
    (curr_pid (inst_pm s) \<le> INT32_MAX \<longrightarrow> pmt.fits hs (inst_pm s))"
proof -
  have fits: "pmt.fits hs m" if "length hs \<le> 1" "curr_pid m < INT32_MAX" for hs m
    using that by (cases hs) (auto simp: pmt.fits_def split: if_splits)
  have none: ?thesis if "inst_pm (fst (iexec e p (s, w))) = inst_pm s"
    using that by (intro exI [of _ "[]"]) (simp add: pmt.fits_def)
  have del: ?thesis if "inst_pm (fst (iexec e p (s, w))) = pmt.hrun [HDel pid] (inst_pm s)" for pid
    using that by (intro exI [of _ "[HDel pid]"]) (simp add: pmt.fits_def)
  consider (ap) cap t where "p = OpAddPromise cap t" | (aa) t a where "p = OpAddAsync t a"
    | (rs) pid ap where "p = OpResolve pid ap" | (rj) pid c m where "p = OpReject pid c m"
    | (other) "inst_pm (fst (iexec e p (s, w))) = inst_pm s"
    using iexec_pm_other [of p e s w] by blast
  then show ?thesis
  proof cases
    case ap
    obtain i pm w' where a: "addPromise cap t (inst_pm s) w = (i, pm, w')"
      by (cases "addPromise cap t (inst_pm s) w") auto
    then show ?thesis using addPromise_hstep [OF a] fits assms ap by auto
  next
    case aa
    obtain i arg' s' w' where x: "addAsyncCallbacksFromArg t a s w = (i, arg', s', w')"
      by (cases "addAsyncCallbacksFromArg t a s w") auto
    then show ?thesis using addAsync_hstep [OF x] fits assms aa by auto
  next
    case rs
    show ?thesis
    proof (cases "inst_detached s")
      case True
      then show ?thesis using none rs by (simp add: FeaturePromiseResolve_def usable_def)
    next
      case False
      then have "inst_pm (fst (iexec e p (s, w))) = pmt.hrun [HDel pid] (inst_pm s)"
        using rs removePromise_hstep
        by (auto simp: iexec_resolve_eq(1) Let_def simp del: iexec.simps pmt.hrun.simps split: prod.splits)
      then show ?thesis by (rule del)
    qed
  next
    case rj
    show ?thesis
    proof (cases "inst_detached s")
      case True
      then show ?thesis using none rj by (simp add: FeaturePromiseReject_def usable_def)
    next
      case False
      then have "inst_pm (fst (iexec e p (s, w))) = pmt.hrun [HDel pid] (inst_pm s)"
        using rj removePromise_hstep
        by (auto simp: iexec_resolve_eq(2) Let_def simp del: iexec.simps pmt.hrun.simps split: prod.splits)
      then show ?thesis by (rule del)
    qed
  qed (rule none)
qed

lemma dead_pid_stays_dead:
  "inst_ok (fst c) \<Longrightarrow> api_enabled e ps c \<Longrightarrow> pid < curr_pid (inst_pm (fst c)) \<Longrightarrow>
   getPromiseData (inst_pm (fst c)) pid = None \<Longrightarrow>
   getPromiseData (inst_pm (fst (iexec_all e ps c))) pid = None"
proof (induction ps arbitrary: c)
  case (Cons p ps)
  have en: "ienabled e p c" "api_enabled e ps (iexec e p c)"
    using Cons.prems(2) by (auto simp: ilive_def)
  have ok: "pm_ok (inst_pm (fst c))" using Cons.prems(1) by (simp add: inst_ok_def)
  have ok1: "inst_ok (fst (iexec e p c))"
    using iexec_keeps [of "fst c" e p "snd c" "\<lambda>v. 0" "{#}"] Cons.prems(1) en(1)
    by (simp add: keeps_def)
  obtain hs where hs: "inst_pm (fst (iexec e p c)) = pmt.hrun hs (inst_pm (fst c))"
    "pmt.fits hs (inst_pm (fst c))"
    using iexec_pm [of e p "fst c" "snd c"] en(1) ok by (auto simp: pm_ok_def)
  have "getPromiseData (inst_pm (fst (iexec e p c))) pid = None"
    using pmt.dead_stays_dead [OF ok hs(2) Cons.prems(3,4)] hs(1) by simp
  moreover have "pid < curr_pid (inst_pm (fst (iexec e p c)))"
    using pmt.hrun_ok [OF ok hs(2)] Cons.prems(3) hs(1) by simp
  ultimately show ?case using Cons.IH [OF ok1 en(2)] by simp
qed simp

lemma settle_dead_pid:
  assumes "getPromiseData (inst_pm s) pid = None"
  shows "FeaturePromiseResolve e (Some s) pid ap w = (False, Some s, w)"
    "FeaturePromiseReject (Some s) pid code msg w = (False, Some s, w)"
  using assms by (auto simp: FeaturePromiseResolve_def FeaturePromiseReject_def usable_def
      resolvePromise_def rejectPromise_def doResolvePromise_def doRejectPromise_def
      removePromise_def getPromiseData_def)

section \<open>Settling promises\<close>

lemma usable_iff: "usable (Some s) \<longleftrightarrow> \<not> inst_detached s"
  by (simp add: usable_def)

lemma resolve_removes:
  assumes "inst_ok s" "FeaturePromiseResolve e (Some s) pid ap w = (r, Some s1, w1)" "\<not> inst_detached s"
  shows "inst_ok s1" "getPromiseData (inst_pm s1) pid = None" "curr_pid (inst_pm s1) = curr_pid (inst_pm s)"
proof -
  obtain ret w' where r: "doResolvePromise e pid ap (inst_pm s) w = (ret, w')" by fastforce
  obtain rm pm w2 where rm: "removePromise pid (inst_pm s) w' = (rm, pm, w2)"
    by (cases "removePromise pid (inst_pm s) w'") auto
  have s1: "s1 = s\<lparr>inst_pm := pm\<rparr>"
    using assms r rm by (auto simp: FeaturePromiseResolve_def resolvePromise_def usable_def)
  have "pm_ok (inst_pm s)" using assms(1) by (simp add: inst_ok_def)
  note spec = removePromise_spec(1-3) [OF this rm]
  show "inst_ok s1" "getPromiseData (inst_pm s1) pid = None" "curr_pid (inst_pm s1) = curr_pid (inst_pm s)"
    using spec s1 assms(1) by (auto simp: inst_ok_def getPromiseData_def)
qed

lemma reject_removes:
  assumes "inst_ok s" "FeaturePromiseReject (Some s) pid code msg w = (r, Some s1, w1)" "\<not> inst_detached s"
  shows "inst_ok s1" "getPromiseData (inst_pm s1) pid = None" "curr_pid (inst_pm s1) = curr_pid (inst_pm s)"
proof -
  obtain ret w' where r: "doRejectPromise pid code msg (inst_pm s) w = (ret, w')" by fastforce
  obtain rm pm w2 where rm: "removePromise pid (inst_pm s) w' = (rm, pm, w2)"
    by (cases "removePromise pid (inst_pm s) w'") auto
  have s1: "s1 = s\<lparr>inst_pm := pm\<rparr>"
    using assms r rm by (auto simp: FeaturePromiseReject_def rejectPromise_def usable_def)
  have "pm_ok (inst_pm s)" using assms(1) by (simp add: inst_ok_def)
  note spec = removePromise_spec(1-3) [OF this rm]
  show "inst_ok s1" "getPromiseData (inst_pm s1) pid = None" "curr_pid (inst_pm s1) = curr_pid (inst_pm s)"
    using spec s1 assms(1) by (auto simp: inst_ok_def getPromiseData_def)
qed

definition ops0 :: "iop list" where
  "ops0 = [OpAddCallback (JFun 1) [PType (Prim FT_INT), PEnd],
     OpAddPromise (Some (JFun 2, JFun 3, JFun 4)) (Prim FT_STRING),
     OpSubscribe \<lparr>me_addr = 9, me_id = 1, me_name = ''onchange'', me_params = [PEnd]\<rparr> (JFun 5),
     OpInvoke 1 [NBits 7], OpEmit 1 [], OpRemoveCallback 1]"

text \<open>C4: A pending promise is settled at most once: after \<open>FeaturePromiseResolve\<close> or
  \<open>FeaturePromiseReject\<close> on a live id, whatever their outcome, and after any further enabled
  sequence of API operations, settling the same id again fails, calls no script function and
  changes nothing, and its type is reported as invalid.\<close>

theorem promise_settles_once:
  assumes "inst_ok s" "\<not> inst_detached s" "getPromiseData (inst_pm s) pid \<noteq> None"
    "FeaturePromiseResolve e (Some s) pid ap w = (r, Some s1, w1) \<or>
     FeaturePromiseReject (Some s) pid code msg w = (r, Some s1, w1)"
    "api_enabled e ps (s1, w1)" "iexec_all e ps (s1, w1) = (s2, w2)"
  shows "FeaturePromiseResolve e (Some s2) pid ap' w2 = (False, Some s2, w2) \<and>
    FeaturePromiseReject (Some s2) pid code' msg' w2 = (False, Some s2, w2) \<and>
    FeatureGetPromiseType (Some s2) pid = - 1"
proof -
  have "pid < curr_pid (inst_pm s)"
    using pmt.live_below assms(1,3) by (simp add: inst_ok_def)
  then have "inst_ok s1" "getPromiseData (inst_pm s1) pid = None" "pid < curr_pid (inst_pm s1)"
    using assms(1,2,4) resolve_removes reject_removes by metis+
  then have "getPromiseData (inst_pm s2) pid = None"
    using dead_pid_stays_dead [of "(s1, w1)" e ps pid] assms(5,6) by simp
  then show ?thesis using settle_dead_pid
    by (auto simp: FeatureGetPromiseType_def doGetPromiseType_def)
qed

theorem promise_settles_once_witness:
  "\<exists>s1 w1 s2 w2. FeaturePromiseResolve engine0 (Some inst0) 0 [NStr ''ok''] world0 = (True, Some s1, w1) \<and>
     iexec_all engine0 [OpInvoke 1 [NBits 7]] (s1, w1) = (s2, w2) \<and>
     FeaturePromiseResolve engine0 (Some s2) 0 [NStr ''again''] w2 = (False, Some s2, w2)"
proof -
  let ?r = "FeaturePromiseResolve engine0 (Some inst0) 0 [NStr ''ok''] world0"
  have live: "getPromiseData (inst_pm inst0) 0 \<noteq> None" by (simp add: inst0_def getPromiseData_def)
  have "fst ?r" by (simp add: api_eval)
  then have res: "?r = (True, Some (the (fst (snd ?r))), snd (snd ?r))"
    using inst0_ok by (auto simp: FeaturePromiseResolve_def usable_def split: prod.splits)
  have en: "api_enabled engine0 [OpInvoke 1 [NBits 7]] (the (fst (snd ?r)), snd (snd ?r))"
    by (simp add: api_eval)
  show ?thesis
    using promise_settles_once [OF inst0_ok live disjI1 [OF res] en surjective_pairing] res
    by (metis prod.collapse)
qed

text \<open>C18: Resolving a live promise with an argument that fits its declared type succeeds
  exactly when there is a function to call, makes exactly the calls the kind of promise asks
  for (the resolving function with an object whose \<open>data\<close> is the converted value, or \<open>success\<close>
  with the value and then \<open>complete\<close>), removes the id and gives back every temporary reference.\<close>

theorem resolve_delivers:
  assumes "inst_ok s" "\<not> inst_detached s" "getPromiseData (inst_pm s) pid = Some d" "settle_ok e w d ap"
  shows "\<exists>s' w'. FeaturePromiseResolve e (Some s) pid ap w = (resolve_func d \<noteq> JUndef, Some s', w') \<and>
    calls w' = calls w @ resolve_calls d (settle_value e d ap) \<and>
    getPromiseData (inst_pm s') pid = None \<and>
    (balanced b (inst_refs s + M) w \<longrightarrow> balanced b (inst_refs s' + M) w')"
  using resolve_live [OF _ assms(3,4), of b M] assms(1,2) by (auto simp: alive_def settled_from_def)

theorem resolve_delivers_witness:
  "\<exists>s' w'. FeaturePromiseResolve engine0 (Some inst0) 0 [NStr ''ok''] world0 = (True, Some s', w') \<and>
    calls w' = [(JFun 3, [JObject [(''data'', JStr ''ok'')]])]"
proof -
  have "settle_ok engine0 world0 pd0 [NStr ''ok'']" "resolve_func pd0 \<noteq> JUndef"
    and "resolve_calls pd0 (settle_value engine0 pd0 [NStr ''ok'']) =
      [(JFun 3, [JObject [(''data'', JStr ''ok'')]])]"
    by (simp_all add: settle_ok_def pd0_def args0 settle_value_def call_unless_undef_def)
  then show ?thesis using resolve_delivers [OF inst0_ok inst0_lookup(1)] by fastforce
qed

text \<open>C19: Rejecting a live promise succeeds exactly when there is a function to call and calls the
  rejecting function with an object holding \<open>code\<close> and \<open>data\<close>, or \<open>fail\<close> with the message
  and the code and then \<open>complete\<close>; a null message is delivered as ``unknown error''.\<close>

theorem reject_delivers:
  assumes "inst_ok s" "\<not> inst_detached s" "getPromiseData (inst_pm s) pid = Some d"
  shows "\<exists>s' w'. FeaturePromiseReject (Some s) pid code msg w = (reject_func d \<noteq> JUndef, Some s', w') \<and>
    calls w' = calls w @ reject_calls d code (case msg of Some m \<Rightarrow> m | None \<Rightarrow> ''unknown error'') \<and>
    getPromiseData (inst_pm s') pid = None \<and>
    (balanced b (inst_refs s + M) w \<longrightarrow> balanced b (inst_refs s' + M) w')"
  using reject_live [OF _ assms(3), where w = w and code = code and msg = msg and b = b and M = M] assms(1,2) by (auto simp: alive_def settled_from_def)

theorem reject_delivers_witness:
  "\<exists>s' w'. FeaturePromiseReject (Some inst0) 1 202 None world0 = (False, Some s', w') \<and>
    calls w' = [(JFun 8, [])]"
proof -
  have "reject_func pd1 = JUndef" "reject_calls pd1 202 ''unknown error'' = [(JFun 8, [])]"
    by (simp_all add: pd1_def call_unless_undef_def)
  then show ?thesis using reject_delivers [OF inst0_ok inst0_lookup(2), of 202 None] by fastforce
qed

text \<open>When the value passed to \<open>FeaturePromiseResolve\<close> cannot be converted, the call
  fails and the pending result is dropped without any script call: neither \<open>success\<close> nor
  \<open>fail\<close> nor \<open>complete\<close> is called.\<close>

theorem unconvertible_result_is_dropped:
  assumes "inst_ok s" "\<not> inst_detached s" "getPromiseData (inst_pm s) pid = Some d"
    "resolve_func d \<noteq> JUndef" "pd_type d \<noteq> Prim FT_VOID"
    "\<not> fst (arg_to_target e ap (pd_type d) JUndef w)"
  shows "\<exists>s' w'. FeaturePromiseResolve e (Some s) pid ap w = (False, Some s', w') \<and>
    calls w' = calls w \<and> getPromiseData (inst_pm s') pid = None"
proof -
  obtain tg ap' w1 where a: "arg_to_target e ap (pd_type d) JUndef w = (False, tg, ap', w1)"
    using assms(6) by (cases "arg_to_target e ap (pd_type d) JUndef w") auto
  have c: "calls w1 = calls w" using arg_to_target_calls [of e ap "pd_type d" JUndef w] a by simp
  obtain rm pm w2 where rm: "removePromise pid (inst_pm s) w1 = (rm, pm, w2)"
    by (cases "removePromise pid (inst_pm s) w1") auto
  have "pm_ok (inst_pm s)" using assms(1) by (simp add: inst_ok_def)
  note spec = removePromise_spec(3-5) [OF this rm]
  have "pd_resolve e d ap w = (- 1, w1)" using a assms(4,5) by (cases d) auto
  then show ?thesis
    using assms(2,3) rm spec c
    by (auto simp: FeaturePromiseResolve_def usable_def resolvePromise_def doResolvePromise_def
        getPromiseData_def)
qed

theorem unconvertible_result_is_dropped_witness:
  "\<exists>s' w'. FeaturePromiseResolve engine0
      (Some (inst0\<lparr>inst_pm := \<lparr>promises = [(0, PCallbacks (Promise (Prim FT_INT)) (JFun 7) (JFun 9) (JFun 8))],
         curr_pid = 1\<rparr>\<rparr>)) 0 [NNull] world0 = (False, Some s', w') \<and>
    calls w' = []"
proof -
  let ?s = "inst0\<lparr>inst_pm := \<lparr>promises = [(0, PCallbacks (Promise (Prim FT_INT)) (JFun 7) (JFun 9) (JFun 8))],
         curr_pid = 1\<rparr>\<rparr>"
  have "inst_ok ?s" using inst0_ok(1) by (simp add: inst_ok_def pm_ok_def omap_ok_def)
  moreover have "\<not> inst_detached ?s" using inst0_ok(2) by simp
  moreover have "getPromiseData (inst_pm ?s) 0 =
      Some (PCallbacks (Promise (Prim FT_INT)) (JFun 7) (JFun 9) (JFun 8))"
    by (simp add: getPromiseData_def)
  moreover have "\<not> fst (arg_to_target engine0 [NNull] (Promise (Prim FT_INT)) JUndef world0)"
    by (simp add: arg_to_target_def extractVariadicParam_def FT_IS_REFERENCE_iff)
  ultimately show ?thesis
    using unconvertible_result_is_dropped [of ?s 0 _ engine0 "[NNull]" world0] by fastforce
qed

section \<open>Callbacks and events\<close>

text \<open>C22: Invoking a live callback with fitting arguments calls the registered function
  exactly once, with the converted arguments in declaration order, and leaves every reference
  count as it was.\<close>

theorem invoke_calls_once:
  assumes "inst_ok s" "\<not> inst_detached s" "getCallbackData (inst_cbs s) cid = Some d"
    "\<not> rest_ended (cd_params d)" "args_ok e (ifaces w) (param_types (cd_params d)) ap"
  shows "\<exists>w'. FeatureInvokeCallback e (Some s) cid ap w = (True, w') \<and>
    calls w' = calls w @ [(cd_cb d, args_values e (param_types (cd_params d)) ap)] \<and>
    (balanced b M w \<longrightarrow> balanced b M w')"
  by (rule FeatureInvokeCallback_live [OF assms])

theorem invoke_calls_once_witness:
  "\<exists>w'. FeatureInvokeCallback engine0 (Some inst0) 1 [NBits 4294967295] world0 = (True, w') \<and>
    calls w' = [(JFun 1, [JInt (- 1)])]"
proof -
  have "\<not> rest_ended (cd_params cd1)" "cd_cb cd1 = JFun 1"
    "args_ok engine0 (ifaces world0) (param_types (cd_params cd1)) [NBits 4294967295]"
    "args_values engine0 (param_types (cd_params cd1)) [NBits 4294967295] = [JInt (- 1)]"
    by (simp_all add: cd1_def args0)
  then show ?thesis using invoke_calls_once [OF inst0_ok inst0_lookup(3)] by fastforce
qed

text \<open>A callback with a rest parameter is refused by \<open>FeatureInvokeCallback\<close>, and
  \<open>FeatureInvokeCallbackCount\<close> refuses a callback without one as well as a count below
  the number of fixed parameters; nothing is called in these cases.\<close>

theorem arity_is_checked:
  assumes "getCallbackData (inst_cbs s) cid = Some d"
  shows "(rest_ended (cd_params d) \<longrightarrow> FeatureInvokeCallback e (Some s) cid ap w = (False, w)) \<and>
    (\<not> rest_ended (cd_params d) \<or> n < int (length (param_types (cd_params d))) \<longrightarrow>
      FeatureInvokeCallbackCount e (Some s) cid n ap rest w = (False, w))"
  using assms by (auto simp: FeatureInvokeCallback_def FeatureInvokeCallbackCount_def
      invokeCallback_def invokeCallbackCount_def getParamCount_Some Let_def)

theorem arity_is_checked_witness:
  "FeatureInvokeCallback engine0 (Some inst0) 2 [NBits 1] world0 = (False, world0) \<and>
   FeatureInvokeCallbackCount engine0 (Some inst0) 2 0 [NBits 1] [] world0 = (False, world0)"
  using arity_is_checked [OF inst0_lookup(4)] by (simp add: cd2_def)

text \<open>C21: Emitting an event calls every subscriber exactly once, in subscription order, each
  with the same converted arguments.\<close>

theorem emit_reaches_all_subscribers:
  assumes "inst_ok s" "\<not> inst_detached s" "getEventData (inst_em s) eid = Some d"
    "\<not> rest_ended (me_params (ed_event d))"
    "args_ok e (ifaces w) (param_types (me_params (ed_event d))) ap"
  shows "\<exists>w'. FeatureEmitEvent e (Some s) eid ap w = (True, w') \<and>
    calls w' = calls w @ map (\<lambda>f. (f, args_values e (param_types (me_params (ed_event d))) ap)) (ed_callbacks d) \<and>
    (balanced b M w \<longrightarrow> balanced b M w')"
proof -
  have "0 < eid" using assms(1,3) entry_ok_lookup [of "inst_em s" eid d]
    by (simp add: inst_ok_def getEventData_def entry_ok_def)
  then show ?thesis
    using assms(2-4) emit_to_ok [OF ev_values_defined [OF assms(1,3)] assms(5), of b M]
    by (auto simp: FeatureEmitEvent_def usable_def emitEvent_def getParamCount_Some doEmitEvent_def)
qed

theorem emit_reaches_all_subscribers_witness:
  "\<exists>w'. FeatureEmitEvent engine0 (Some inst0) 1 [NBits 1] world0 = (True, w') \<and>
    calls w' = [(JFun 5, [JBool True]), (JFun 6, [JBool True])]"
proof -
  have "\<not> rest_ended (me_params (ed_event ed1))" "ed_callbacks ed1 = [JFun 5, JFun 6]"
    "args_ok engine0 (ifaces world0) (param_types (me_params (ed_event ed1))) [NBits 1]"
    "args_values engine0 (param_types (me_params (ed_event ed1))) [NBits 1] = [JBool True]"
    by (simp_all add: ed1_def me1_def args0)
  then show ?thesis using emit_reaches_all_subscribers [OF inst0_ok inst0_lookup(5)] by fastforce
qed

lemma me_compatible_add:
  assumes "em_ok m" "me_compatible me m" "addEventCallback me v m w = (i, m1, w1)"
  shows "me_compatible me m1"
proof -
  note add = addEventCallback_spec [OF assms]
  have c: "(me_addr (ed_event d) = me_addr me) = (k = me_id me)" if "map_of (events_map m) k = Some d" for k d
    using assms(2) map_of_SomeD [OF that] by (auto simp: me_compatible_def)
  have "(me_addr (ed_event d) = me_addr me) = (k = me_id me)" if kd: "(k, d) \<in> set (events_map m1)" for k d
  proof -
    have "distinct (map fst (events_map m1))"
      using add(1) omap_ok_distinct by (auto simp: em_ok_def)
    then have l: "getEventData m1 k = Some d" using kd by (simp add: getEventData_def)
    show ?thesis
    proof (cases "k = i")
      case True
      then have "ed_event d = (case getEventData m i of Some d0 \<Rightarrow> ed_event d0 | None \<Rightarrow> me)"
        using add(3) l by auto
      then show ?thesis using c [of i] True add(2) by (auto simp: getEventData_def split: option.splits)
    next
      case False
      then have "map_of (events_map m) k = Some d" using add(4) l by (simp add: getEventData_def)
      then show ?thesis using c by blast
    qed
  qed
  then show ?thesis using assms(2) by (auto simp: me_compatible_def)
qed

text \<open>C20: Subscribing puts the function among the event's subscribers under the member's own id
  without touching any other event, subscribing it again changes nothing, and unsubscribing
  removes it; the table's invariant and the ownership of references hold throughout.\<close>

theorem subscription_lifecycle:
  assumes "em_ok m" "me_compatible me m" "addEventCallback me v m w = (i, m1, w1)"
    "eraseEventCallback me v m1 w1 = (m2, w2)"
  shows "i = me_id me \<and> em_ok m1 \<and> v \<in> set (getEventCallbacks m1 me) \<and>
    (\<forall>j. j \<noteq> i \<longrightarrow> getEventData m1 j = getEventData m j) \<and>
    addEventCallback me v m1 w1 = (i, m1, w1) \<and>
    em_ok m2 \<and> v \<notin> set (getEventCallbacks m2 me) \<and>
    (balanced b (em_refs m + M) w \<longrightarrow> balanced b (em_refs m2 + M) w2)"
proof -
  note add = addEventCallback_spec [OF assms(1-3)]
  obtain d where d: "getEventData m1 i = Some d" "v \<in> set (ed_callbacks d)"
    using add(3) by blast
  have comp: "me_compatible me m1" using me_compatible_add [OF assms(1-3)] .
  have i: "findEventId m1 me = i" "0 < i"
    using findEventId_compatible [OF add(1) comp] d(1) add(2) assms(2)
    by (auto simp: getEventData_def okeys_iff me_compatible_def)
  have in1: "v \<in> set (getEventCallbacks m1 me)"
    using i d by (simp add: getEventCallbacks_def)
  have id: "events_map m1 = omap_put i d (events_map m1)"
    using d(1) add(1) by (simp add: omap_put_same getEventData_def em_ok_def)
  have again: "addEventCallback me v m1 w1 = (i, m1, w1)"
    using i d id by (simp add: addEventCallback_def getEventData_def ed_add_def findEvent_def
        isSameValue_def list_ex_iff Let_def)
  show ?thesis
    using add(1,2,4) in1 again eraseEventCallback_spec [OF add(1) assms(4)]
      add(6) [of b M] eraseEventCallback_spec(4) [OF add(1) assms(4), of b M] by blast
qed

theorem subscription_lifecycle_witness:
  "\<exists>m1 w1 m2 w2. addEventCallback me1 (JFun 5) init_em world0 = (1, m1, w1) \<and>
     JFun 5 \<in> set (getEventCallbacks m1 me1) \<and> eraseEventCallback me1 (JFun 5) m1 w1 = (m2, w2) \<and>
     JFun 5 \<notin> set (getEventCallbacks m2 me1)"
proof -
  have "me_compatible me1 init_em" by (simp add: me_compatible_def me1_def init_em_def)
  moreover have "me_id me1 = 1" by (simp add: me1_def)
  ultimately show ?thesis
    using subscription_lifecycle [OF init_em_ok(1), of me1 "JFun 5" world0]
    by (metis prod.collapse)
qed

text \<open>A script function has one id per instance: registering it again, under whatever
  callback type, returns the first id and changes neither the table nor any reference count;
  ids are positive and the function stored under the id is the one registered.\<close>

theorem callback_registered_once:
  assumes "cbm_ok m" "curr_cid m < INT32_MAX" "addCallback v ps m w = (i, m1, w1)"
  shows "addCallback v ps' m1 w1 = (i, m1, w1) \<and> 0 < i \<and>
    (\<exists>d. getCallbackData m1 i = Some d \<and> cd_cb d = v) \<and>
    (balanced b (cbm_refs m + M) w \<longrightarrow> balanced b (cbm_refs m1 + M) w1)"
proof -
  note add = addCallback_spec [OF assms]
  obtain d where d: "map_of (callbacks m1) i = Some d" "cd_cb d = v" using add(3) by auto
  have pos: "\<forall>k\<in>okeys (callbacks m1). 0 < k" and ok: "omap_ok (callbacks m1)"
    and dist: "distinct (map cd_cb (ovals (callbacks m1)))"
    using add(1) by (auto simp: cbm_ok_def)
  have "v \<in> cd_cb ` set (ovals (callbacks m1))"
    using d by (force simp: ovals_def dest: map_of_SomeD)
  then have f: "0 < findCallbackId m1 v" using find_cb_None [OF pos] by (auto simp: findCallbackId_def)
  then obtain d' where d': "map_of (callbacks m1) (findCallbackId m1 v) = Some d'" "cd_cb d' = v"
    using find_cb_Some [OF pos _ ok] by (auto simp: findCallbackId_def)
  have "k = k'" if "map_of es k = Some x" "map_of es k' = Some y" "cd_cb x = cd_cb y"
    "distinct (map cd_cb (ovals es))" for k k' x y and es :: "(int, cb_data) omap"
    using that by (induction es) (auto simp: ovals_def split: if_splits dest!: map_of_SomeD, force+)
  then have "findCallbackId m1 v = i" using d d' dist by metis
  then show ?thesis using add(2) d f addCallback_balanced [OF assms]
    by (auto simp: addCallback_def getCallbackData_def)
qed

theorem callback_registered_once_witness:
  "\<exists>m1 w1. addCallback (JFun 5) [PRestEnd] init_cbm world0 = (1, m1, w1) \<and>
     addCallback (JFun 5) [PEnd] m1 w1 = (1, m1, w1)"
proof -
  obtain i m1 w1 where a: "addCallback (JFun 5) [PRestEnd] init_cbm world0 = (i, m1, w1)"
    by (rule prod_cases3)
  moreover have "i = 1" using a by (simp add: addCallback_def init_cbm_def findCallbackId_def)
  moreover have "curr_cid init_cbm < INT32_MAX" by (simp add: init_cbm_def)
  ultimately show ?thesis using callback_registered_once [OF init_cbm_ok(1)] by blast
qed

text \<open>Once removed, a callback id never comes back: after any further sequence of
  registrations and removals that fits into 32-bit ids it is still unknown, and removing it
  again fails.\<close>

theorem removed_callback_id_is_dead:
  assumes "cbm_ok m" "getCallbackData m i \<noteq> None" "cbt.fits hs (m, w)"
    "eraseCallback i m w = (r, m1, w1)" "cbt.hrun hs (m1, w1) = (m2, w2)"
  shows "r \<and> getCallbackData m2 i = None \<and> fst (eraseCallback i m2 w2) = False"
  using cbt.removed_never_back [of "(m, w)" i hs] cbt.second_del_fails [of "(m, w)" hs i] assms by simp

theorem removed_callback_id_is_dead_witness:
  "\<exists>m1 w1 m2 w2. eraseCallback 1 (inst_cbs inst0) world0 = (True, m1, w1) \<and>
     cbt.hrun [HAdd cd1, HDel 2] (m1, w1) = (m2, w2) \<and> getCallbackData m2 1 = None"
proof -
  have "cbm_ok (inst_cbs inst0)" using inst0_ok(1) by (simp add: inst_ok_def)
  moreover have "getCallbackData (inst_cbs inst0) 1 \<noteq> None" using inst0_lookup(3) by simp
  moreover have "cbt.fits [HAdd cd1, HDel 2] (inst_cbs inst0, world0)"
    by (simp add: cbt.fits_def inst0_def)
  moreover obtain r m1 w1 where "eraseCallback 1 (inst_cbs inst0) world0 = (r, m1, w1)"
    by (rule prod_cases3)
  moreover obtain m2 w2 where "cbt.hrun [HAdd cd1, HDel 2] (m1, w1) = (m2, w2)" by fastforce
  ultimately show ?thesis
    using removed_callback_id_is_dead [of "inst_cbs inst0" 1 "[HAdd cd1, HDel 2]" world0 r m1 w1 m2 w2]
    by auto
qed

section \<open>Detachment\<close>

text \<open>C2: Nothing leaks and nothing is released twice: take a new instance that owns its
  target object, run any enabled sequence of API operations, detach it while the feature's own
  \<open>onDetached\<close> callback makes further enabled calls; then every reference count is back to what
  it was without the instance, and the instance owns nothing.\<close>

theorem detach_restores_counts:
  assumes "balanced b {#t#} w" "api_enabled e ps (new_inst t, w)"
    "iexec_all e ps (new_inst t, w) = (s, w1)"
    "nd_enabled e nd (s, feature_free_value (inst_target s) w1)"
    "onDetached e nd (s, w1) = (s', w')"
  shows "balanced b {#} w' \<and> inst_refs s' = {#} \<and> inst_detached s'"
proof -
  have refs: "inst_refs (new_inst t) = {#t#}" "inst_live_ok (new_inst t)" "\<not> inst_detached (new_inst t)"
    using new_inst_ok [of t] by (simp_all add: inst_refs_def inst_live_ok_def new_inst_def)
  have r: "inst_owner.run e ps (new_inst t, w) = (s, w1)" using assms(3) by (simp add: api_run)
  have "inst_owner.all_enabled e ps (new_inst t, w)" using assms(2) by (simp add: api_all_enabled)
  from inst_owner.run_ok [OF refs(2) this r, of b "{#}"]
  have "inst_live_ok s" "balanced b (inst_refs s + {#}) w1" using assms(1) refs(1) by auto
  moreover have "\<not> inst_detached s" using api_run_detached [of e ps "(new_inst t, w)"] assms(3) refs(3) by simp
  ultimately show ?thesis
    using onDetached_spec(1-3) [of s e nd w1 s' w'] onDetached_spec(4) [of s e nd w1 s' w' b "{#}"] assms(4,5)
    by (auto simp: inst_live_ok_def inst_refs_def)
qed

theorem detach_restores_counts_witness:
  "balanced (\<lambda>v. 0) {#} (snd (onDetached engine0 [OpEmit 1 []] (iexec_all engine0 ops0 (new_inst (JFun 0), world0))))"
proof -
  let ?c = "iexec_all engine0 ops0 (new_inst (JFun 0), world0)"
  have bal: "balanced (\<lambda>v. 0) {#JFun 0#} world0"
    by (auto simp: balanced_def world0_def)
  have en: "api_enabled engine0 ops0 (new_inst (JFun 0), world0)"
    by (simp add: ops0_def api_eval init_cbm_def init_pm_def init_em_def me_compatible_def
        addEventCallback_def findEventId_def ed_add_def findEvent_def notify_def)
  have nd: "nd_enabled engine0 [OpEmit 1 []] (fst ?c, feature_free_value (inst_target (fst ?c)) (snd ?c))"
    by (simp add: ops0_def api_eval init_cbm_def init_pm_def init_em_def me_compatible_def
        addEventCallback_def findEventId_def ed_add_def findEvent_def notify_def)
  show ?thesis
    using detach_restores_counts [OF bal en surjective_pairing nd] by (metis prod.collapse)
qed

text \<open>On a null or detached handle every checked entry point fails and does nothing.\<close>

theorem detached_api_is_inert:
  assumes "\<not> usable h"
  shows "(FeatureInvokeCallback e h cid ap w = (False, w)) \<and>
    (FeatureInvokeCallbackCount e h cid n ap rest w = (False, w)) \<and>
    (FeatureRemoveCallback h cid w = (False, h, w)) \<and>
    (FeaturePromiseResolve e h pid ap w = (False, h, w)) \<and>
    (FeaturePromiseReject h pid code msg w = (False, h, w)) \<and>
    (FeatureGetPromiseType h pid = - 1) \<and> (\<not> FeatureCheckCallbackId h cid) \<and>
    (FeatureGetEventId h name = 0) \<and> (FeatureGetEventName h eid = None) \<and>
    (FeatureEmitEvent e h eid ap w = (False, w)) \<and>
    (FeatureEmitEventByName e h name ap w = (False, w)) \<and>
    (FeatureSetEventChangeListener h l = h) \<and> (FeatureGetEventCallbackCount h eid = 0)"
  using assms by (simp_all add: FeatureInvokeCallback_def FeatureInvokeCallbackCount_def
      FeatureRemoveCallback_def FeaturePromiseResolve_def FeaturePromiseReject_def
      FeatureGetPromiseType_def FeatureCheckCallbackId_def FeatureGetEventId_def
      FeatureGetEventName_def FeatureEmitEvent_def FeatureEmitEventByName_def
      FeatureSetEventChangeListener_def FeatureGetEventCallbackCount_def)

theorem detached_api_is_inert_witness:
  "FeaturePromiseResolve engine0 (Some (inst0\<lparr>inst_detached := True\<rparr>)) 0 [NStr ''ok''] world0 =
     (False, Some (inst0\<lparr>inst_detached := True\<rparr>), world0)"
  using detached_api_is_inert [of "Some (inst0\<lparr>inst_detached := True\<rparr>)"] by (simp add: usable_def)

section \<open>Callbacks in an argument object\<close>

text \<open>Of the argument objects \<open>checkAsyncCallbacks\<close> accepts as callback-style calls,
  \<open>addAsyncCallbacks\<close> registers those with a \<open>success\<close> or \<open>fail\<close> function and returns the next
  promise id for them; an object with only a \<open>complete\<close> function is accepted by the check and
  then answered with the invalid id -1. The references taken from the object are owned or
  given back in both cases.\<close>

theorem async_callbacks_registered:
  assumes "inst_ok s" "curr_pid (inst_pm s) < INT32_MAX" "checkAsyncCallbacks arg = 1"
    "addAsyncCallbacksFromArg t arg s w = (pid, arg', s', w')"
  shows "pid = (if JS_IsFunction (JS_GetProperty arg ''success'') \<or> JS_IsFunction (JS_GetProperty arg ''fail'')
       then curr_pid (inst_pm s) else - 1) \<and>
    (pid = - 1 \<longrightarrow> JS_IsFunction (JS_GetProperty arg ''complete'') \<and> s' = s) \<and>
    (balanced b (table_refs s + M) w \<longrightarrow> balanced b (table_refs s' + M) w')"
proof -
  have obj: "JS_IsObject arg" "arg \<noteq> JUndef"
    and some: "JS_IsFunction (JS_GetProperty arg ''success'') \<or> JS_IsFunction (JS_GetProperty arg ''fail'')
      \<or> JS_IsFunction (JS_GetProperty arg ''complete'')"
    using assms(3) by (auto simp: checkAsyncCallbacks_def Let_def split: if_splits)
  have "0 \<le> curr_pid (inst_pm s)" using assms(1) by (simp add: inst_ok_def pm_ok_def)
  moreover have "balanced b (table_refs s + M) w \<longrightarrow> balanced b (table_refs s' + M) w'"
    using addAsyncFromArg_keeps(1) [OF assms(1,2,4), of b M] by (simp add: keeps_def)
  ultimately show ?thesis using assms(4) obj some
    by (auto simp: addAsyncCallbacksFromArg_def addAsyncCallbacks_def insertPromise_def Let_def
        split: if_splits)
qed

theorem async_callbacks_registered_witness:
  "fst (addAsyncCallbacksFromArg (Prim FT_INT) (JObject [(''complete'', JFun 1)]) inst0 world0) = - 1 \<and>
   checkAsyncCallbacks (JObject [(''complete'', JFun 1)]) = 1"
proof -
  let ?a = "JObject [(''complete'', JFun 1)]"
  have c: "checkAsyncCallbacks ?a = 1" by (simp add: checkAsyncCallbacks_def)
  have "curr_pid (inst_pm inst0) < INT32_MAX" by (simp add: inst0_def)
  moreover obtain pid a' s' w' where
    "addAsyncCallbacksFromArg (Prim FT_INT) ?a inst0 world0 = (pid, a', s', w')"
    by (rule prod_cases4)
  ultimately show ?thesis using async_callbacks_registered [OF inst0_ok(1) _ c] c by fastforce
qed

text \<open>The garbage collector's mark phase visits, with multiplicity, every reference the
  callback and promise tables own and none of those the event table owns.\<close>

theorem mark_covers_all_but_events:
  "mset (markValues s) + em_refs (inst_em s) = table_refs s"
  by (simp add: markValues_def table_refs_def cbm_refs_def markPromises_refs)

section \<open>Conversion and native values\<close>

text \<open>C5: Converting a well-typed native value succeeds, yields exactly the script value the
  descriptor prescribes (struct members by name, array elements in order, null pointers as
  null, strings cut at the first NUL), calls no script and leaves one owned reference, to the
  result.\<close>

theorem convertValueToTarget_correct:
  assumes "nval_ok e (ifaces w) t n"
  shows "\<exists>w'. convertValueToTarget e t n tg w = (True, target_of e t n, w') \<and> calls w' = calls w \<and>
    (balanced b M w \<longrightarrow> balanced b (add_mset (target_of e t n) M) w')"
  using convert_all(1) [OF assms, of b M tg] by (simp add: converted_def)

theorem convertValueToTarget_correct_witness:
  "\<exists>w'. convertValueToTarget engine0
      (StructMap 16 [(''name'', Prim FT_STRING, 0), (''ids'', Array (Prim FT_INT8), 8)])
      (NStruct [(0, NNull), (8, NArr [NBits 255, NBits 7])]) JUndef world0 =
     (True, JObject [(''name'', JStr []), (''ids'', JArr [JInt (- 1), JInt 7])], w')"
  using convertValueToTarget_correct [of engine0 world0
      "StructMap 16 [(''name'', Prim FT_STRING, 0), (''ids'', Array (Prim FT_INT8), 8)]"
      "NStruct [(0, NNull), (8, NArr [NBits 255, NBits 7])]" JUndef]
  by (force simp: scalar_prim_def nativeToTarget_def)

text \<open>Duplicating the script references of a native value and releasing them again touches
  the same references: the two traversals of a value along its descriptor cancel out on every
  reference count.\<close>

theorem dup_then_free_is_neutral:
  assumes "is_ref v"
  shows "rc (freeFtValue t n (dupFtValue t n w)) v = rc w v"
proof -
  let ?b = "\<lambda>v. rc w v - iface_own (ifaces w) v"
  have "balanced ?b {#} (freeFtValue t n (dupFtValue t n w))"
    using balanced_freeFtValue(1) balanced_dupFtValue(1) balanced_start [of w] by metis
  moreover have "ifaces (freeFtValue t n (dupFtValue t n w)) = ifaces w"
    by (simp add: ifaces_dupFtValue ifaces_freeFtValue)
  ultimately show ?thesis using assms by (simp add: balanced_def)
qed

theorem dup_then_free_is_neutral_witness:
  "rc (freeFtValue (Array (Prim FT_ANY_REF)) (NArr [NAny (JFun 0), NAny (JFun 1)])
     (dupFtValue (Array (Prim FT_ANY_REF)) (NArr [NAny (JFun 0), NAny (JFun 1)]) world0)) (JFun 0) = 1"
  using dup_then_free_is_neutral [of "JFun 0" _ _ world0] by (simp only: world0_rc is_ref.simps simp_thms)

text \<open>The tag test of \<open>FT_IS_PRIMITIVE\<close> on machine words tells primitive descriptors from
  complex ones for every primitive code and every descriptor address aligned to four bytes, and
  no descriptor is taken for the end of a parameter list.\<close>

theorem type_tag_is_sound:
  assumes "\<forall>t. addr t AND 3 = 0" "\<forall>t. addr t \<noteq> 0 \<and> addr t < push_bit 63 1"
  shows "FT_IS_PRIMITIVE_W (ftype_word addr t) = FT_IS_PRIMITIVE t \<and>
    FT_IS_COMPLEX_W (ftype_word addr t) = FT_IS_COMPLEX t \<and>
    ftype_word addr t \<noteq> FT_PARAM_REST_END \<and> ftype_word addr t \<noteq> 0"
proof (cases t)
  case (Prim p)
  then show ?thesis
    by (cases p) (simp_all add: ftype_word_def FT_IS_PRIMITIVE_W_def FT_IS_COMPLEX_W_def
        FT_PRIMITIVE_BIT_def FT_PARAM_REST_END_def)
qed (use assms in \<open>simp_all add: ftype_word_def FT_IS_PRIMITIVE_W_def FT_IS_COMPLEX_W_def
      FT_PRIMITIVE_BIT_def FT_PARAM_REST_END_def order.strict_implies_not_eq\<close>)

theorem type_tag_is_sound_witness:
  "FT_IS_PRIMITIVE_W (ftype_word (\<lambda>t. 4096) (Array (Prim FT_INT))) = False \<and>
   FT_IS_PRIMITIVE_W (ftype_word (\<lambda>t. 4096) (Prim FT_ARRAY_BUFFER))"
  using type_tag_is_sound [of "\<lambda>t. 4096" "Array (Prim FT_INT)"]
    type_tag_is_sound [of "\<lambda>t. 4096" "Prim FT_ARRAY_BUFFER"] by simp

end
