(* ===== verification/ToNative.thy ===== *)
theory ToNative
  imports Instance
begin

text \<open>
  Script values to native values: the \<open>toNative\<close> family of \<open>src/value_translator.h\<close> and
  \<open>src/backend/qjs/value_translator_qjs.{h,cpp}\<close> and \<open>convertValueToNative\<close> of
  \<open>src/feature_convertor_templates.h\<close>. The converter works on the slot \<open>n\<close> the result goes to
  (cleared memory before the call), registers callbacks with the instance, and takes and gives
  back script references. Its result is \<open>None\<close> where a \<open>FEATURE_CHECK\<close> aborts the process.
  \<open>roundtrip\<close> shows that it undoes \<open>convertValueToTarget\<close>.
\<close>

section \<open>Scalars and predicates\<close>

definition toNumber :: "engine \<Rightarrow> prim \<Rightarrow> jsval \<Rightarrow> 64 word option" where
  "toNumber e p v =
     (let int32 = (case v of JInt i \<Rightarrow> Some i | _ \<Rightarrow> None);
          uint32 = (if JS_IsNumber v then e_ToUint32 e v else None);
          float64 = (if JS_IsNumber v then e_ToFloat64 e v else None)
      in case p of
        FT_INT \<Rightarrow> map_option (\<lambda>i. ucast i) int32
      | FT_INT32 \<Rightarrow> map_option (\<lambda>i. ucast i) int32
      | FT_INT8 \<Rightarrow> map_option (\<lambda>i. ucast (ucast i :: 8 word)) int32
      | FT_INT16 \<Rightarrow> map_option (\<lambda>i. ucast (ucast i :: 16 word)) int32
      | FT_UINT8 \<Rightarrow> map_option (\<lambda>i. ucast (ucast i :: 8 word)) uint32
      | FT_UINT16 \<Rightarrow> map_option (\<lambda>i. ucast (ucast i :: 16 word)) uint32
      | FT_UINT32 \<Rightarrow> map_option (\<lambda>i. ucast i) uint32
      | FT_INT64 \<Rightarrow> (if JS_IsNumber v then e_ToInt64 e v else None)
      | FT_UINT64 \<Rightarrow> (if JS_IsNumber v then e_ToIndex e v else None)
      | FT_FLOAT \<Rightarrow> map_option (\<lambda>d. ucast (e_f32_of_f64 e d)) float64
      | FT_DOUBLE \<Rightarrow> float64
      | FT_BOOLEAN \<Rightarrow> (case v of JBool b \<Rightarrow> Some (if b then 1 else 0) | _ \<Rightarrow> None)
      | _ \<Rightarrow> None)"

definition isPlainObject :: "jsval \<Rightarrow> bool" where
  "isPlainObject v \<longleftrightarrow> JS_IsObject v \<and> \<not> JS_IsArray v \<and> \<not> JS_IsFunction v \<and>
     (case v of JArrayBuf _ \<Rightarrow> False | JTypedBuf _ \<Rightarrow> False | _ \<Rightarrow> True)"

definition isArrayBuffer :: "jsval \<Rightarrow> bool" where
  "isArrayBuffer v \<longleftrightarrow> (case v of JArrayBuf _ \<Rightarrow> True | _ \<Rightarrow> False)"

fun interfaceFromTarget :: "jsval \<Rightarrow> nat option" where
  "interfaceFromTarget (JIface i) = Some i"
| "interfaceFromTarget _ = None"

abbreviation nullish :: "jsval \<Rightarrow> bool" where
  "nullish v \<equiv> v = JNull \<or> v = JUndef"

text \<open>What \<open>getStructField\<close> reports as missing, and the default written in its place.\<close>

definition getStructField :: "jsval \<Rightarrow> string \<Rightarrow> world \<Rightarrow> bool \<times> jsval \<times> world" where
  "getStructField v name w =
     (let field = JS_GetProperty v name in (field \<noteq> JUndef, field, feature_dup_value field w))"

fun opt_slot :: "nval \<Rightarrow> optout \<Rightarrow> nval" where
  "opt_slot n (OBool b) = NBits (if b then 1 else 0)"
| "opt_slot n (OInt32 i) = NBits (ucast i)"
| "opt_slot n (OInt64 i) = NBits i"
| "opt_slot n (OUint32 i) = NBits (ucast i)"
| "opt_slot n (OUint64 i) = NBits i"
| "opt_slot n (OFloat f) = NBits (ucast f)"
| "opt_slot n (ODouble d) = NBits d"
| "opt_slot n (OString s) = NStr s"
| "opt_slot n (OPtr b) = (if b = 0 then NNull else NBits b)"
| "opt_slot n OUntouched = n"

definition zero_slot :: "ftype \<Rightarrow> nval" where
  "zero_slot t = (if FT_IS_REFERENCE t then NNull else NBits 0)"

section \<open>The converter\<close>

fun set_slot :: "nat \<Rightarrow> nval \<Rightarrow> (nat \<times> nval) list \<Rightarrow> (nat \<times> nval) list" where
  "set_slot off n [] = [(off, n)]"
| "set_slot off n ((o', n') # fs) = (if off = o' then (off, n) # fs else (o', n') # set_slot off n fs)"

definition get_slot :: "nat \<Rightarrow> ftype \<Rightarrow> (nat \<times> nval) list \<Rightarrow> nval" where
  "get_slot off t fs = (case map_of fs off of Some n \<Rightarrow> n | None \<Rightarrow> zero_slot t)"

definition convertString :: "engine \<Rightarrow> jsval \<Rightarrow> nval \<Rightarrow> bool \<times> nval" where
  "convertString e v n =
     (if nullish v then (True, NNull)
      else case v of JStr s \<Rightarrow> (True, NStr (cstr s)) | _ \<Rightarrow> (False, n))"

definition convertJson :: "engine \<Rightarrow> jsval \<Rightarrow> nval \<Rightarrow> bool \<times> nval" where
  "convertJson e v n =
     (if nullish v then (True, NNull)
      else if JS_IsObject v then (True, NJson (cstr (e_Stringify e v)))
      else (False, n))"

definition convertBuffer :: "jsval \<Rightarrow> world \<Rightarrow> bool \<times> nval \<times> world" where
  "convertBuffer v w =
     (if nullish v then (True, NNull, w)
      else if isArrayBuffer v then (True, NBuf v, feature_dup_value v w)
      else (False, NNull, w))"

type_synonym nstate = "inst \<times> world"

definition convertPrim :: "engine \<Rightarrow> prim \<Rightarrow> jsval \<Rightarrow> nval \<Rightarrow> world \<Rightarrow> bool \<times> nval \<times> world" where
  "convertPrim e p v n w =
     (if scalar_prim p then
        (case toNumber e p v of Some b \<Rightarrow> (True, NBits b, w) | None \<Rightarrow> (False, n, w))
      else case p of
        FT_STRING \<Rightarrow> (let (ok, n') = convertString e v n in (ok, n', w))
      | FT_ANY_REF \<Rightarrow> (True, if nullish v then NNull else NAny v, w)
      | FT_JSON_OBJ \<Rightarrow> (let (ok, n') = convertJson e v n in (ok, n', w))
      | FT_ARRAY_BUFFER \<Rightarrow> convertBuffer v w
      | _ \<Rightarrow> (False, n, w))"

function (sequential)
  convertValueToNative :: "engine \<Rightarrow> ftype \<Rightarrow> jsval \<Rightarrow> nval \<Rightarrow> nstate \<Rightarrow> (bool \<times> nval \<times> nstate) option"
  and to_members :: "engine \<Rightarrow> (string \<times> ftype \<times> nat) list \<Rightarrow> jsval \<Rightarrow> (nat \<times> nval) list \<Rightarrow> nstate \<Rightarrow>
        (bool \<times> (nat \<times> nval) list \<times> nstate) option"
  and to_elems :: "engine \<Rightarrow> ftype \<Rightarrow> jsval list \<Rightarrow> nval list \<Rightarrow> nstate \<Rightarrow>
        (bool \<times> nval list \<times> nstate) option"
where
  "convertValueToNative e (Prim p) v n (s, w) =
     (let (ok, n', w') = convertPrim e p v n w in Some (ok, n', s, w'))"
| "convertValueToNative e (StructMap sz ms) v n sw =
     (if nullish v then Some (True, n, sw)
      else if \<not> isPlainObject v then Some (False, n, sw)
      else (let fs = (case n of NStruct fs \<Rightarrow> fs | _ \<Rightarrow> map (\<lambda>(k, t, off). (off, zero_slot t)) ms) in
        case to_members e ms v fs sw of
          None \<Rightarrow> None
        | Some (ok, fs', sw') \<Rightarrow> Some (ok, NStruct fs', sw')))"
| "convertValueToNative e (Optional t ov) v n sw = convertValueToNative e t v n sw"
| "convertValueToNative e (Callback ps r) v n (s, w) =
     (if nullish v then Some (True, n, s, w)
      else if \<not> JS_IsFunction v then Some (False, n, s, w)
      else (let (cid, cm, w') = addCallback v ps (inst_cbs s) w
            in Some (True, NBits (word_of_int cid), s\<lparr>inst_cbs := cm\<rparr>, w')))"
| "convertValueToNative e (Array t) v n sw =
     (if nullish v then Some (True, NNull, sw)
      else case v of
        JArr vs \<Rightarrow>
          (if vs \<noteq> [] \<and> getValueSize t = 0 \<and> \<not> FT_IS_REFERENCE t then None
           else case to_elems e t vs [] sw of
             None \<Rightarrow> None
           | Some (ok, ns, sw') \<Rightarrow> Some (ok, NArr ns, sw'))
      | _ \<Rightarrow> Some (False, n, sw))"
| "convertValueToNative e (Promise t) v n sw = Some (False, n, sw)"
| "convertValueToNative e (Interface d) v n sw =
     (case interfaceFromTarget v of Some i \<Rightarrow> Some (True, NIface i, sw) | None \<Rightarrow> None)"
| "convertValueToNative e (Protobuf d) v n sw = Some (True, NProto (e_protoToNative e v), sw)"
| "to_members e [] v fs sw = Some (True, fs, sw)"
| "to_members e ((name, t, off) # ms) v fs (s, w) =
     (let (present, field, w1) = getStructField v name w;
          missing = (\<not> present \<and> FT_IS_PRIMITIVE t \<and>
             t \<noteq> Prim FT_ANY_REF \<and> t \<noteq> Prim FT_STRING \<and> t \<noteq> Prim FT_JSON_OBJ)
      in if missing then Some (False, fs, s, w1)
         else case (if present then None else case t of Optional u ov \<Rightarrow> Some (convertOptional e u ov) | _ \<Rightarrow> None) of
           Some (True, out) \<Rightarrow> to_members e ms v (set_slot off (opt_slot (get_slot off t fs) out) fs) (s, w1)
         | Some (False, out) \<Rightarrow> Some (False, fs, s, feature_free_value field w1)
         | None \<Rightarrow>
             (case convertValueToNative e t field (get_slot off t fs) (s, w1) of
                None \<Rightarrow> None
              | Some (ok, n, s2, w2) \<Rightarrow>
                  (let fs' = set_slot off n fs; w3 = feature_free_value field w2
                   in if \<not> ok then Some (False, fs', s2, w3)
                      else to_members e ms v fs' (s2, w3))))"
| "to_elems e t [] ns sw = Some (True, ns, sw)"
| "to_elems e t (v # vs) ns (s, w) =
     (if v = JUndef then None
      else case convertValueToNative e t v (zero_slot t) (s, feature_dup_value v w) of
        None \<Rightarrow> None
      | Some (ok, n, s2, w2) \<Rightarrow>
          (let w3 = feature_free_value v w2
           in if \<not> ok then Some (False, ns @ [n] @ replicate (length vs) (zero_slot t), s2, w3)
              else to_elems e t vs (ns @ [n]) (s2, w3)))"
  by pat_completeness auto

termination
proof (relation "measures [\<lambda>x. case x of
      Inl (e, t, v, n, sw) \<Rightarrow> 2 * size t
    | Inr (Inl (e, ms, v, fs, sw)) \<Rightarrow> 2 * members_size ms + 1
    | Inr (Inr (e, t, vs, ns, sw)) \<Rightarrow> 2 * size t + 1,
    \<lambda>x. case x of Inl _ \<Rightarrow> 0 | Inr (Inl _) \<Rightarrow> 0 | Inr (Inr (e, t, vs, ns, sw)) \<Rightarrow> length vs]")
qed auto

section \<open>Undoing the other direction\<close>

lemma dup_free [simp]: "feature_free_value v (feature_dup_value v w) = w"
  by (simp add: feature_free_value_def feature_dup_value_def)

text \<open>The bits a scalar slot of the type can hold.\<close>

definition bits_ok :: "prim \<Rightarrow> 64 word \<Rightarrow> bool" where
  "bits_ok p b \<longleftrightarrow>
     (if p \<in> {FT_INT, FT_INT32, FT_UINT32, FT_FLOAT} then ucast (ucast b :: 32 word) = b
      else if p \<in> {FT_INT8, FT_UINT8} then ucast (ucast b :: 8 word) = b
      else if p \<in> {FT_INT16, FT_UINT16} then ucast (ucast b :: 16 word) = b
      else if p = FT_INT64 then - 9007199254740992 \<le> sint b \<and> sint b \<le> 9007199254740992
      else if p = FT_BOOLEAN then b = 0 \<or> b = 1
      else p = FT_DOUBLE)"

lemma ucast_down_up [simp]:
  "ucast (ucast (x :: 16 word) :: 32 word) = x" "ucast (ucast (y :: 8 word) :: 32 word) = y"
  "ucast (scast (x :: 16 word) :: 32 word) = x" "ucast (scast (y :: 8 word) :: 32 word) = y"
  by (rule bit_word_eqI; auto simp: bit_word_ucast_iff bit_word_scast_iff)+

lemma scalar_roundtrip:
  assumes "engine_ok e" "scalar_prim p" "p \<noteq> FT_UINT64" "bits_ok p b"
  shows "toNumber e p (nativeToTarget e p b) = Some b"
  using assms
  by (cases p) (auto simp: toNumber_def nativeToTarget_def bits_ok_def engine_ok_def scalar_prim_def)

text \<open>
  The values the two converters agree on: scalars other than \<open>uint64_t\<close>, strings, and structs,
  arrays and optionals of them.
\<close>

function (sequential)
  rt_ok :: "ftype \<Rightarrow> nval \<Rightarrow> bool"
  and rt_members :: "(string \<times> ftype \<times> nat) list \<Rightarrow> (nat \<times> nval) list \<Rightarrow> bool"
where
  "rt_ok (Prim p) n =
     (case n of
        NBits b \<Rightarrow> scalar_prim p \<and> p \<noteq> FT_UINT64 \<and> bits_ok p b
      | NStr s \<Rightarrow> p = FT_STRING \<and> CHR 0x00 \<notin> set s
      | _ \<Rightarrow> False)"
| "rt_ok (StructMap sz ms) n =
     (case n of NStruct fs \<Rightarrow>
        distinct (map fst ms) \<and> distinct (map (snd \<circ> snd) ms) \<and> rt_members ms fs
      | _ \<Rightarrow> False)"
| "rt_ok (Optional t ov) n = (\<not> is_optional t \<and> rt_ok t n)"
| "rt_ok (Array t) n = (case n of NArr vs \<Rightarrow> list_all (rt_ok t) vs | _ \<Rightarrow> False)"
| "rt_ok _ n = False"
| "rt_members [] fs = (fs = [])"
| "rt_members ((k, t, off) # ms) fs =
     (case fs of (off', n) # fs' \<Rightarrow> off' = off \<and> rt_ok t n \<and> rt_members ms fs' | [] \<Rightarrow> False)"
  by pat_completeness auto

termination
proof (relation "measure (\<lambda>x. case x of
      Inl (t, v) \<Rightarrow> 2 * size t
    | Inr (ms, fs) \<Rightarrow> 2 * members_size ms + 1)")
qed auto

lemma rt_value_size: "rt_ok t n \<Longrightarrow> getValueSize t = 0 \<Longrightarrow> FT_IS_REFERENCE t"
proof (induction t n rule: rt_ok_rt_members.induct(1) [of _ "\<lambda>ms fs. True"])
  case (1 p n)
  then show ?case
    by (cases p) (auto simp: getValueSize_def scalar_prim_def FT_IS_REFERENCE_iff Let_def split: nval.splits)
next
  case (3 t ov n)
  then show ?case
    by (cases t) (auto simp: getValueSize_def FT_IS_REFERENCE_def FT_GET_FLAG_def Let_def split: if_splits)
qed (auto simp: FT_IS_REFERENCE_iff)

lemma toNumber_nullish [simp]: "toNumber e p JUndef = None" "toNumber e p JNull = None"
  by (cases p; simp add: toNumber_def)+

lemma rt_defined: "engine_ok e \<Longrightarrow> rt_ok t n \<Longrightarrow> target_of e t n \<noteq> JUndef \<and> target_of e t n \<noteq> JNull"
proof (induction t n rule: rt_ok_rt_members.induct(1) [of _ "\<lambda>ms fs. True"])
  case (1 p n)
  then show ?case using scalar_roundtrip [of e p]
    by (cases n) (auto, (metis toNumber_nullish option.distinct(1))+)
qed (auto split: nval.splits)

lemma set_slot_mid: "off \<notin> fst ` set pre \<Longrightarrow> set_slot off n (pre @ (off, z) # fs) = pre @ (off, n) # fs"
  by (induction pre) auto

lemma get_slot_mid: "off \<notin> fst ` set pre \<Longrightarrow> get_slot off t (pre @ (off, z) # fs) = z"
  by (induction pre) (auto simp: get_slot_def)

lemma zero_slot_no_struct [simp]: "zero_slot t \<noteq> NStruct fs"
  by (simp add: zero_slot_def)

lemma prop_put_lookup: "map_of (prop_put k v ps) k' = (if k' = k then Some v else map_of ps k')"
  by (induction k v ps rule: prop_put.induct) auto

lemma target_members_other:
  "name \<notin> fst ` set ms \<Longrightarrow> map_of (target_members e ms fs ps) name = map_of ps name"
proof (induction ms arbitrary: ps)
  case (Cons m ms)
  obtain k t off where "m = (k, t, off)" by (cases m)
  then show ?case using Cons by (simp add: prop_put_lookup)
qed simp

lemma target_members_lookup:
  "distinct (map fst ms) \<Longrightarrow> (k, t, off) \<in> set ms \<Longrightarrow>
   map_of (target_members e ms fs ps) k = Some (target_of e t (case map_of fs off of Some v \<Rightarrow> v | None \<Rightarrow> NNull))"
proof (induction ms arbitrary: ps)
  case (Cons m ms)
  obtain k' t' off' where m: "m = (k', t', off')" by (cases m)
  show ?case
  proof (cases "(k, t, off) = m")
    case True
    then show ?thesis using Cons.prems m by (auto simp: target_members_other prop_put_lookup)
  next
    case False
    then show ?thesis using Cons m by auto
  qed
qed simp

lemma rt_members_length: "rt_members ms fs \<Longrightarrow> map fst fs = map (snd \<circ> snd) ms"
  by (induction ms arbitrary: fs) (auto split: list.splits)

lemma roundtrip_elems:
  assumes "\<And>n n0. n \<in> set ns \<Longrightarrow> (\<forall>fs. n0 \<noteq> NStruct fs) \<Longrightarrow> target_of e t n \<noteq> JUndef \<and>
     (\<forall>s w. convertValueToNative e t (target_of e t n) n0 (s, w) = Some (True, n, s, w))"
  shows "to_elems e t (map (target_of e t) ns) done (s, w) = Some (True, done @ ns, s, w)"
  using assms by (induction ns arbitrary: "done" w) auto

lemma roundtrip_members:
  assumes "\<And>k t off n n0. (k, t, off) \<in> set ms \<Longrightarrow> map_of fs off = Some n \<Longrightarrow> (\<forall>fs. n0 \<noteq> NStruct fs) \<Longrightarrow>
     JS_GetProperty v k \<noteq> JUndef \<and>
     (\<forall>s w. convertValueToNative e t (JS_GetProperty v k) n0 (s, w) = Some (True, n, s, w))"
    and "map fst fs = map (snd \<circ> snd) ms" "distinct (map fst (pre @ fs))"
  shows "to_members e ms v (pre @ map (\<lambda>(k, t, off). (off, zero_slot t)) ms) (s, w) = Some (True, pre @ fs, s, w)"
  using assms
proof (induction ms arbitrary: pre fs w)
  case (Cons m ms)
  obtain k t off where m: "m = (k, t, off)" by (cases m)
  obtain n fs' where fs: "fs = (off, n) # fs'" using Cons.prems(2) m by (cases fs) auto
  have off: "off \<notin> fst ` set pre" "off \<notin> fst ` set fs'" using Cons.prems(3) fs by auto
  have head: "JS_GetProperty v k \<noteq> JUndef"
    "convertValueToNative e t (JS_GetProperty v k) (zero_slot t) (s, w') = Some (True, n, s, w')" for w'
    using Cons.prems(1) [of k t off n "zero_slot t"] m fs by auto
  have rest: "to_members e ms v ((pre @ [(off, n)]) @ map (\<lambda>(k, t, off). (off, zero_slot t)) ms) (s, w)
      = Some (True, (pre @ [(off, n)]) @ fs', s, w)" for w
  proof (rule Cons.IH)
    fix k1 t1 off1 n1 n0
    assume a: "(k1, t1, off1) \<in> set ms" "map_of fs' off1 = Some n1" "\<forall>fs. n0 \<noteq> NStruct fs"
    then have "off1 \<noteq> off" using off(2) by (metis domI dom_map_of_conv_image_fst)
    then show "JS_GetProperty v k1 \<noteq> JUndef \<and>
      (\<forall>s w. convertValueToNative e t1 (JS_GetProperty v k1) n0 (s, w) = Some (True, n1, s, w))"
      using a fs by (intro Cons.prems(1)) auto
  qed (use Cons.prems(2,3) fs m in auto)
  show ?case
    using head rest off(1) fs
    by (simp add: m getStructField_def set_slot_mid get_slot_mid Let_def)
qed simp

lemma rt_members_ok: "rt_members ms fs \<Longrightarrow> (k, t, off) \<in> set ms \<Longrightarrow> distinct (map (snd \<circ> snd) ms) \<Longrightarrow>
   \<exists>n. map_of fs off = Some n \<and> rt_ok t n"
proof (induction ms arbitrary: fs)
  case (Cons m ms)
  obtain k' t' off' where m: "m = (k', t', off')" by (cases m)
  obtain n fs' where fs: "fs = (off', n) # fs'" "rt_ok t' n" "rt_members ms fs'"
    using Cons.prems(1) m by (auto split: list.splits)
  show ?case
  proof (cases "(k, t, off) = m")
    case False
    then have in': "(k, t, off) \<in> set ms" using Cons.prems(2) by simp
    then have "off \<noteq> off'" using Cons.prems(3) m by force
    then show ?thesis using Cons.IH [OF fs(3) in'] Cons.prems(3) fs(1) by simp
  qed (use m fs in simp)
qed simp

lemma roundtrip_converters:
  assumes e: "engine_ok e"
  shows "rt_ok t n \<Longrightarrow> (\<forall>fs. n0 \<noteq> NStruct fs) \<Longrightarrow>
     convertValueToNative e t (target_of e t n) n0 (s, w) = Some (True, n, s, w)"
proof (induction "size t" arbitrary: t n n0 s w rule: less_induct)
  case less
  note IH = less.hyps and ok = less.prems(1) and n0 = less.prems(2)
  show ?case
  proof (cases t)
    case (Prim p)
    then show ?thesis using ok e scalar_roundtrip [of e p]
      by (cases n) (auto simp: convertPrim_def convertString_def scalar_prim_def cstr_id)
  next
    case (StructMap sz ms)
    obtain fs where n: "n = NStruct fs" and d: "distinct (map fst ms)" "distinct (map (snd \<circ> snd) ms)"
      and r: "rt_members ms fs" using ok StructMap by (auto split: nval.splits)
    let ?v = "target_of e t n"
    have v: "?v = JObject (target_members e ms fs [])" using n StructMap by simp
    have offs: "map fst fs = map (snd \<circ> snd) ms" by (rule rt_members_length [OF r])
    have "to_members e ms ?v ([] @ map (\<lambda>(k, t, off). (off, zero_slot t)) ms) (s, w) = Some (True, [] @ fs, s, w)"
    proof (rule roundtrip_members)
      fix k u off m m0
      assume a: "(k, u, off) \<in> set ms" "map_of fs off = Some m" "\<forall>fs. m0 \<noteq> NStruct fs"
      have g: "JS_GetProperty ?v k = target_of e u m"
        using target_members_lookup [OF d(1) a(1)] a(2) v by simp
      have um: "rt_ok u m" using rt_members_ok [OF r a(1) d(2)] a(2) by auto
      have "size u < size t" using size_member [OF a(1)] StructMap by simp
      then show "JS_GetProperty ?v k \<noteq> JUndef \<and>
          (\<forall>s w. convertValueToNative e u (JS_GetProperty ?v k) m0 (s, w) = Some (True, m, s, w))"
        unfolding g using IH um a(3) rt_defined [OF e um] by blast
    qed (use offs d(2) in auto)
    then show ?thesis using n0 n v StructMap
      by (cases n0) (simp_all add: isPlainObject_def)
  next
    case (Optional u ov)
    then show ?thesis using ok n0 IH [of u] by simp
  next
    case (Array u)
    obtain vs where n: "n = NArr vs" and r: "list_all (rt_ok u) vs" using ok Array by (auto split: nval.splits)
    have su: "size u < size t" using Array by simp
    have "to_elems e u (map (target_of e u) vs) [] (s, w) = Some (True, [] @ vs, s, w)"
      by (rule roundtrip_elems) (use IH [OF su] r rt_defined [OF e] in \<open>auto simp: list_all_iff\<close>)
    moreover have "vs \<noteq> [] \<Longrightarrow> getValueSize u = 0 \<Longrightarrow> FT_IS_REFERENCE u"
      using rt_value_size r by (cases vs) auto
    ultimately show ?thesis using n Array by auto
  qed (use ok in auto)
qed

end
