(* ===== verification/MethodCall.thy ===== *)
theory MethodCall
  imports ToNative
begin

text \<open>
  The calls a script makes into a native feature: \<open>methodCall\<close>, the accessors and the event
  properties of \<open>src/feature_ffi_templates.h\<close> and their entry points of
  \<open>src/backend/qjs/feature_manager_qjs.cpp\<close>. The native function (\<open>func_stub\<close>) is a
  parameter: it gets the argument slots and gives the contents of the result slot and the
  state after its own API calls. \<open>None\<close> is an abort of the process.
\<close>

section \<open>Outcomes and messages\<close>

datatype RetCode = RET_OK | RET_ARGS_COUNT_ERR | RET_ARGS_TYPE_ERR | RET_INTERNAL_ERR

definition FT_ERR_ARGS :: "32 word" where "FT_ERR_ARGS = 202"

definition get_error_msg :: "RetCode \<Rightarrow> string \<Rightarrow> string" where
  "get_error_msg r mthd_msg =
     (case r of
        RET_OK \<Rightarrow> ''no error''
      | RET_ARGS_COUNT_ERR \<Rightarrow> ''args count error''
      | RET_ARGS_TYPE_ERR \<Rightarrow> ''args type error''
      | RET_INTERNAL_ERR \<Rightarrow> ''internal error'') @ '', '' @ mthd_msg"

lemma real_type_half: "2 * size (FT_GET_REAL_TYPE t) < Suc (2 * size t)"
  using size_real_type [of t] by simp

text \<open>
  \<open>FeatureFreeValue\<close> on the memory of an argument: the only script references native memory
  owns are those of array buffers, which are destroyed with it.
\<close>

function (sequential)
  free_native :: "ftype \<Rightarrow> nval \<Rightarrow> world \<Rightarrow> world"
  and free_native_members :: "(string \<times> ftype \<times> nat) list \<Rightarrow> (nat \<times> nval) list \<Rightarrow> world \<Rightarrow> world"
  and free_native_elems :: "ftype \<Rightarrow> nval list \<Rightarrow> world \<Rightarrow> world"
where
  "free_native (Prim FT_ARRAY_BUFFER) (NBuf v) w = feature_free_value v w"
| "free_native (StructMap _ ms) (NStruct fs) w = free_native_members ms fs w"
| "free_native (Array t) (NArr vs) w = (if FT_NEED_FREE t then free_native_elems t vs w else w)"
| "free_native _ _ w = w"
| "free_native_members [] fs w = w"
| "free_native_members ((n, t, off) # ms) fs w =
     free_native_members ms fs
       (if FT_NEED_FREE (FT_GET_REAL_TYPE t)
        then (case map_of fs off of Some v \<Rightarrow> free_native (FT_GET_REAL_TYPE t) v w | None \<Rightarrow> w)
        else w)"
| "free_native_elems t [] w = w"
| "free_native_elems t (v # vs) w = free_native_elems t vs (free_native (FT_GET_REAL_TYPE t) v w)"
  by pat_completeness auto

termination
proof (relation "measures [\<lambda>x. case x of
      Inl (t, v, w) \<Rightarrow> 2 * size t
    | Inr (Inl (ms, fs, w)) \<Rightarrow> 2 * members_size ms + 1
    | Inr (Inr (t, vs, w)) \<Rightarrow> 2 * size t + 1,
    \<lambda>x. case x of Inl _ \<Rightarrow> 0 | Inr (Inl (ms, fs, w)) \<Rightarrow> 0 | Inr (Inr (t, vs, w)) \<Rightarrow> length vs]")
qed (auto simp: real_type_half)

fun free_method_args :: "ftype list \<Rightarrow> nval option list \<Rightarrow> world \<Rightarrow> world" where
  "free_method_args (t # ts) (Some n # bs) w =
     free_method_args ts bs (if FT_NEED_FREE t then free_native (FT_GET_REAL_TYPE t) n w else w)"
| "free_method_args (t # ts) (None # bs) w = free_method_args ts bs w"
| "free_method_args _ _ w = w"

section \<open>The arguments\<close>

text \<open>The fixed arguments, one slot each; the slots not reached stay null (\<open>None\<close>).\<close>

fun conv_args :: "engine \<Rightarrow> ftype list \<Rightarrow> jsval list \<Rightarrow> nval option list \<Rightarrow> nstate \<Rightarrow>
    (bool \<times> nval option list \<times> nstate) option" where
  "conv_args e (t # ts) (v # vs) bs sw =
     (case t of
        Promise u \<Rightarrow> Some (False, bs @ [Some (zero_slot t)] @ map (\<lambda>_. None) ts, sw)
      | _ \<Rightarrow>
        (case convertValueToNative e t v (zero_slot t) sw of
           None \<Rightarrow> None
         | Some (ok, n, sw') \<Rightarrow>
             (if \<not> ok then Some (False, bs @ [Some n] @ map (\<lambda>_. None) ts, sw')
              else conv_args e ts vs (bs @ [Some n]) sw')))"
| "conv_args e ts [] bs sw = Some (True, bs @ map (\<lambda>_. None) ts, sw)"
| "conv_args e [] vs bs sw = Some (True, bs, sw)"

text \<open>The declared defaults of the parameters from position \<open>argc\<close> on.\<close>

fun conv_defaults :: "engine \<Rightarrow> nat \<Rightarrow> ftype list \<Rightarrow> nval option list \<Rightarrow> (bool \<times> nval option list) option" where
  "conv_defaults e (Suc k) (t # ts) (b # bs) =
     (case conv_defaults e k ts bs of None \<Rightarrow> None | Some (ok, bs') \<Rightarrow> Some (ok, b # bs'))"
| "conv_defaults e 0 (t # ts) (b # bs) =
     (case t of
        Optional u ov \<Rightarrow>
          (let (ok, out) = convertOptional e u ov; n = opt_slot (zero_slot u) out
           in if \<not> ok then Some (False, Some n # bs)
              else (case conv_defaults e 0 ts bs of None \<Rightarrow> None | Some (ok', bs') \<Rightarrow> Some (ok', Some n # bs')))
      | _ \<Rightarrow> None)"
| "conv_defaults e k ts bs = Some (True, bs)"

section \<open>The method call\<close>

record stub_args =
  sa_pid :: "int option"
  sa_slots :: "nval option list"
  sa_rest :: "jsval list option"
  sa_total :: int

type_synonym stub = "stub_args \<Rightarrow> nstate \<Rightarrow> nval \<times> nstate"

record mthd =
  mt_name :: string
  mt_params :: "ftype pentry list"
  mt_ret :: ftype
  mt_stub :: stub

fun is_promise :: "ftype \<Rightarrow> bool" where
  "is_promise (Promise t) = True"
| "is_promise _ = False"

fun resolve_type :: "ftype \<Rightarrow> ftype" where
  "resolve_type (Promise t) = t"
| "resolve_type t = t"

definition getPromise :: "promise_manager \<Rightarrow> int \<Rightarrow> jsval" where
  "getPromise m pid = (case getPromiseData m pid of Some d \<Rightarrow> pd_promise d | None \<Rightarrow> JUndef)"

type_synonym call_result = "RetCode \<times> jsval \<times> nstate"

text \<open>\<open>HANDLE_ERROR_AND_RETURN\<close>: an asynchronous method reports through its promise.\<close>

definition handle_error :: "RetCode \<Rightarrow> ftype \<Rightarrow> int \<Rightarrow> string \<Rightarrow> jsval \<Rightarrow> nstate \<Rightarrow> call_result" where
  "handle_error r ret pid msg rv sw =
     (if is_promise ret
      then (let (_, s', w') = rejectPromise pid FT_ERR_ARGS (Some (get_error_msg r msg)) (fst sw) (snd sw)
            in (RET_OK, rv, s', w'))
      else (r, rv, sw))"

text \<open>
  The start of an asynchronous call: an argument object with callbacks as the last argument,
  or a new promise. \<open>Inl\<close> is the early return; otherwise the promise id, whether a promise is
  used, the result value and the arguments as the registration left them.
\<close>

definition begin_async :: "(jsval \<times> jsval \<times> jsval) option \<Rightarrow> ftype \<Rightarrow> jsval list \<Rightarrow> nstate \<Rightarrow>
    RetCode + int \<times> bool \<times> jsval \<times> jsval list \<times> nstate" where
  "begin_async cap ret argv sw =
     (if \<not> is_promise ret then Inr (- 1, False, JUndef, argv, sw)
      else
        let flag = (if argv = [] then 0 else checkAsyncCallbacks (last argv)) in
        if flag = - 1 then Inl RET_ARGS_TYPE_ERR
        else if flag \<noteq> 0 then
          (let (pid, arg', s', w') = addAsyncCallbacksFromArg (resolve_type ret) (last argv) (fst sw) (snd sw)
           in Inr (pid, False, JUndef, butlast argv @ [arg'], s', w'))
        else
          (let (pid, pm, w') = addPromise cap (resolve_type ret) (inst_pm (fst sw)) (snd sw);
               p = getPromise pm pid
           in Inr (pid, True, p, argv, (fst sw)\<lparr>inst_pm := pm\<rparr>, feature_dup_value p w')))"

definition arity_ok :: "param_info \<Rightarrow> bool \<Rightarrow> bool \<Rightarrow> nat \<Rightarrow> bool" where
  "arity_ok i promise use_promise argc =
     (if pi_rest i then pi_count i \<le> argc
      else if 0 < pi_optional i then pi_count i \<le> argc + pi_optional i
      else \<not> (argc \<noteq> pi_count i \<and> (\<not> promise \<or> use_promise)))"

text \<open>The result of a synchronous method, after the native function has returned.\<close>

definition finish_call :: "engine \<Rightarrow> ftype \<Rightarrow> ftype list \<Rightarrow> nval option list \<Rightarrow> jsval \<Rightarrow> nval \<times> nstate \<Rightarrow>
    call_result" where
  "finish_call e ret ts bs rv r =
     (let (n, s, w) = r;
          has_ret = (\<not> is_promise ret \<and> ret \<noteq> Prim FT_VOID);
          free_ret = (\<lambda>w. if has_ret \<and> FT_NEED_FREE ret then free_native (FT_GET_REAL_TYPE ret) n w else w)
      in if has_ret then
           (let (ok, rv', w1) = convertValueToTarget e ret n rv w in
            if \<not> ok then (RET_INTERNAL_ERR, rv', s, free_ret (freeFtValue ret n (free_method_args ts bs w1)))
            else
              (let w2 = (if ret = Prim FT_ANY_REF then feature_free_value rv' w1 else w1);
                   w3 = free_ret (free_method_args ts bs w2)
               in if hasException s then (RET_INTERNAL_ERR, rv', s, feature_free_value rv' w3)
                  else (RET_OK, rv', s, w3)))
         else
           (let w3 = free_method_args ts bs w
            in if hasException s then (RET_INTERNAL_ERR, rv, s, feature_free_value rv w3)
               else (RET_OK, rv, s, w3)))"

definition methodCall :: "engine \<Rightarrow> (jsval \<times> jsval \<times> jsval) option \<Rightarrow> string \<Rightarrow> mthd \<Rightarrow> jsval list \<Rightarrow>
    nstate \<Rightarrow> call_result option" where
  "methodCall e cap dname mt argv sw =
     (let i = getParamCount sizeof_ptr (Some (mt_params mt));
          ts = param_types (mt_params mt);
          ret = mt_ret mt;
          msg = ''feature:'' @ dname @ '', method:'' @ mt_name mt;
          argc = length argv
      in if pi_rest i \<and> 0 < pi_optional i then None
         else case begin_async cap ret argv sw of
           Inl r \<Rightarrow> Some (r, JUndef, sw)
         | Inr (pid, use_promise, rv, args, sw1) \<Rightarrow>
             if \<not> arity_ok i (is_promise ret) use_promise argc
             then Some (handle_error RET_ARGS_COUNT_ERR ret pid msg rv sw1)
             else case conv_args e ts args [] sw1 of
               None \<Rightarrow> None
             | Some (False, bs, s2, w2) \<Rightarrow>
                 Some (handle_error RET_ARGS_TYPE_ERR ret pid msg rv (s2, free_method_args ts bs w2))
             | Some (True, bs, s2, w2) \<Rightarrow>
                 (case (if \<not> pi_rest i \<and> 0 < pi_optional i then conv_defaults e argc ts bs else Some (True, bs)) of
                    None \<Rightarrow> None
                  | Some (False, bs') \<Rightarrow>
                      Some (handle_error RET_ARGS_TYPE_ERR ret pid msg rv (s2, free_method_args ts bs' w2))
                  | Some (True, bs') \<Rightarrow>
                      (let a = \<lparr>sa_pid = (if is_promise ret then Some pid else None), sa_slots = bs',
                                sa_rest = (if pi_rest i then Some (drop (pi_count i) args) else None),
                                sa_total = int (pi_count i) + (if pi_rest i then 1 else 0) +
                                  int (pi_optional i) + (if is_promise ret then 1 else 0)\<rparr>
                       in Some (finish_call e ret ts bs' rv (mt_stub mt a (throwError [] s2, w2))))))"

section \<open>Accessors and constants\<close>

record accessor =
  ac_name :: string
  ac_type :: ftype
  ac_getter :: "nstate \<Rightarrow> nval \<times> nstate"
  ac_setter :: "nval \<Rightarrow> nstate \<Rightarrow> nstate"

definition accessorGet :: "engine \<Rightarrow> accessor \<Rightarrow> nstate \<Rightarrow> call_result option" where
  "accessorGet e ac sw =
     (if ac_type ac = Prim FT_VOID then None
      else
        let (n, s, w) = ac_getter ac sw;
            (ok, rv, w1) = convertValueToTarget e (ac_type ac) n JUndef w
        in Some (
          if \<not> ok then (RET_INTERNAL_ERR, rv, s, feature_free_value rv w1)
          else
            let w2 = (if ac_type ac = Prim FT_ANY_REF then feature_free_value rv w1 else w1)
            in (RET_OK, rv, s,
                if FT_NEED_FREE (ac_type ac) then free_native (FT_GET_REAL_TYPE (ac_type ac)) n w2 else w2)))"

definition accessorSet :: "engine \<Rightarrow> accessor \<Rightarrow> jsval \<Rightarrow> nstate \<Rightarrow> (RetCode \<times> nstate) option" where
  "accessorSet e ac v sw =
     (if ac_type ac = Prim FT_VOID then None
      else case convertValueToNative e (ac_type ac) v (zero_slot (ac_type ac)) sw of
        None \<Rightarrow> None
      | Some (False, n, sw1) \<Rightarrow> Some (RET_ARGS_TYPE_ERR, sw1)
      | Some (True, n, sw1) \<Rightarrow>
          (let (s2, w2) = ac_setter ac n sw1
           in Some (RET_OK, s2,
                if FT_NEED_FREE (ac_type ac) then free_native (FT_GET_REAL_TYPE (ac_type ac)) n w2 else w2)))"

definition constGet :: "engine \<Rightarrow> ftype \<Rightarrow> nval \<Rightarrow> world \<Rightarrow> (bool \<times> jsval \<times> world) option" where
  "constGet e t n w =
     (if t = Prim FT_VOID then None
      else let (ok, rv, w1) = convertValueToTarget e t n JUndef w
           in Some (if ok then (True, rv, w1) else (False, rv, feature_free_value rv w1)))"

section \<open>Event properties\<close>

definition subscribe :: "member_event \<Rightarrow> jsval \<Rightarrow> nstate \<Rightarrow> nstate" where
  "subscribe me v sw =
     (let (eid, em, w') = addEventCallback me v (inst_em (fst sw)) (snd sw)
      in ((fst sw)\<lparr>inst_em := em\<rparr>, w'))"

definition unsubscribe :: "member_event \<Rightarrow> jsval \<Rightarrow> nstate \<Rightarrow> nstate" where
  "unsubscribe me v sw =
     (let (em, w') = eraseEventCallback me v (inst_em (fst sw)) (snd sw)
      in ((fst sw)\<lparr>inst_em := em\<rparr>, w'))"

definition drop_subscribers :: "member_event \<Rightarrow> nstate \<Rightarrow> nstate" where
  "drop_subscribers me sw =
     (let eid = findEventId (inst_em (fst sw)) me in
      if eid > 0
      then (let (r, em, w') = removeEventCallbacks eid True (inst_em (fst sw)) (snd sw)
            in ((fst sw)\<lparr>inst_em := em\<rparr>, w'))
      else sw)"

text \<open>The elements of a function array, up to the first that is not a function.\<close>

fun each_function :: "(jsval \<Rightarrow> nstate \<Rightarrow> nstate) \<Rightarrow> jsval list \<Rightarrow> nstate \<Rightarrow> bool \<times> nstate" where
  "each_function f [] sw = (True, sw)"
| "each_function f (v # vs) (s, w) =
     (let w1 = feature_dup_value v w in
      if \<not> JS_IsFunction v then (False, s, feature_free_value v w1)
      else (let (s2, w2) = f v (s, w1) in each_function f vs (s2, feature_free_value v w2)))"

definition addEventCallbacks :: "member_event option \<Rightarrow> jsval \<Rightarrow> nstate \<Rightarrow> bool \<times> nstate" where
  "addEventCallbacks meo v sw =
     (case meo of
        None \<Rightarrow> (False, sw)
      | Some me \<Rightarrow>
          (if nullish v then (True, sw)
           else if JS_IsFunction v then (True, subscribe me v sw)
           else case v of JArr vs \<Rightarrow> each_function (subscribe me) vs sw | _ \<Rightarrow> (False, sw)))"

fun push_all :: "jsval \<Rightarrow> jsval list \<Rightarrow> world \<Rightarrow> jsval \<times> world" where
  "push_all t [] w = (t, w)"
| "push_all t (v # vs) w = (let (t', w') = js_push t v (feature_dup_value v w) in push_all t' vs w')"

definition getEventCallbacksTarget :: "member_event option \<Rightarrow> inst \<Rightarrow> world \<Rightarrow> bool \<times> jsval \<times> world" where
  "getEventCallbacksTarget meo s w =
     (case meo of
        None \<Rightarrow> (False, JUndef, w)
      | Some me \<Rightarrow>
          (let (t, w') = push_all (JArr []) (getEventCallbacks (inst_em s) me) (js_new (JArr []) w)
           in (True, t, w')))"

definition removeEventCallbacksFrom :: "member_event \<Rightarrow> jsval \<Rightarrow> nstate \<Rightarrow> bool \<times> nstate" where
  "removeEventCallbacksFrom me v sw =
     (if nullish v then (True, drop_subscribers me sw)
      else if JS_IsFunction v then (True, unsubscribe me v sw)
      else case v of JArr vs \<Rightarrow> each_function (unsubscribe me) vs sw | _ \<Rightarrow> (False, sw))"

definition eventSet :: "member_event \<Rightarrow> jsval \<Rightarrow> nstate \<Rightarrow> RetCode \<times> nstate" where
  "eventSet me v sw =
     (let (ok, sw') = addEventCallbacks (Some me) v (drop_subscribers me sw)
      in (if ok then RET_OK else RET_ARGS_TYPE_ERR, sw'))"

definition eventOnOff :: "member_event \<Rightarrow> jsval \<Rightarrow> bool \<Rightarrow> nstate \<Rightarrow> bool \<times> nstate" where
  "eventOnOff me v is_on sw =
     (if is_on then addEventCallbacks (Some me) v sw else removeEventCallbacksFrom me v sw)"

section \<open>The entry points a script reaches\<close>

text \<open>
  A failed call is first offered to the host's error callback (the first argument, absent or a
  function of the message); only if that declines an error is thrown into the script.
\<close>

datatype js_result = Returned jsval | Thrown string

definition reportArgsError :: "(string \<Rightarrow> bool) option \<Rightarrow> RetCode \<Rightarrow> string \<Rightarrow> js_result" where
  "reportArgsError cb r message =
     (if r = RET_OK then Returned JUndef
      else (let msg = get_error_msg r message in
            case cb of
              Some f \<Rightarrow> (if f msg then Returned JUndef else Thrown (''error: '' @ msg))
            | None \<Rightarrow> Thrown (''error: '' @ msg)))"

definition method_call :: "engine \<Rightarrow> (string \<Rightarrow> bool) option \<Rightarrow> (jsval \<times> jsval \<times> jsval) option \<Rightarrow> string \<Rightarrow>
    mthd \<Rightarrow> jsval list \<Rightarrow> nstate \<Rightarrow> (js_result \<times> nstate) option" where
  "method_call e cb cap dname mt argv sw =
     map_option (\<lambda>(r, rv, s, w).
       if r = RET_OK then (Returned rv, s, w)
       else
         let msg = ''feature: '' @ dname @ '', method:'' @ mt_name mt @
               (if hasException s then '', exception: '' @ inst_error s else [])
         in (reportArgsError cb r msg, if hasException s then throwError [] s else s, w))
       (methodCall e cap dname mt argv sw)"

definition accessor_get :: "engine \<Rightarrow> accessor \<Rightarrow> nstate \<Rightarrow> (js_result \<times> nstate) option" where
  "accessor_get e ac sw =
     map_option (\<lambda>(r, rv, sw').
       (if r = RET_OK then Returned rv else Thrown ''property get error'', sw')) (accessorGet e ac sw)"

definition accessor_set :: "engine \<Rightarrow> (string \<Rightarrow> bool) option \<Rightarrow> string \<Rightarrow> accessor \<Rightarrow> jsval \<Rightarrow> nstate \<Rightarrow>
    (js_result \<times> nstate) option" where
  "accessor_set e cb dname ac v sw =
     map_option (\<lambda>(r, sw').
       (if r = RET_OK then Returned JUndef
        else reportArgsError cb r (''feature: '' @ dname @ '', property:'' @ ac_name ac), sw'))
       (accessorSet e ac v sw)"

definition event_set :: "(string \<Rightarrow> bool) option \<Rightarrow> string \<Rightarrow> member_event \<Rightarrow> jsval \<Rightarrow> nstate \<Rightarrow> js_result \<times> nstate" where
  "event_set cb dname me v sw =
     (let (r, sw') = eventSet me v sw
      in (if r = RET_OK then Returned JUndef
          else reportArgsError cb r (''feature: '' @ dname @ '', property:'' @ me_name me), sw'))"

definition event_get :: "member_event \<Rightarrow> inst \<Rightarrow> world \<Rightarrow> js_result \<times> world" where
  "event_get me s w =
     (let (ok, t, w') = getEventCallbacksTarget (Some me) s w
      in (Returned (if ok then t else JException), w'))"

definition event_on_off :: "(string \<times> member_event) list \<Rightarrow> string \<Rightarrow> jsval \<Rightarrow> bool \<Rightarrow> nstate \<Rightarrow> js_result \<times> nstate" where
  "event_on_off members name v is_on sw =
     (case map_of members name of
        None \<Rightarrow> (Returned JUndef, sw)
      | Some me \<Rightarrow> (Returned JUndef, snd (eventOnOff me v is_on sw)))"

section \<open>Arguments that come from native values\<close>

lemma rt_nval_ok: "rt_ok t n \<Longrightarrow> nval_ok e I t n" "rt_members ms fs \<Longrightarrow> distinct (map (snd \<circ> snd) ms) \<Longrightarrow>
    \<forall>(off, n)\<in>set fs. map_of gs off = Some n \<Longrightarrow> members_ok e I ms gs"
proof (induction t n and ms fs arbitrary: and gs rule: rt_ok_rt_members.induct)
  case (2 sz ms n)
  then obtain fs where n: "n = NStruct fs" and d: "distinct (map (snd \<circ> snd) ms)" and r: "rt_members ms fs"
    by (auto split: nval.splits)
  have "distinct (map fst fs)" using d rt_members_length [OF r] by simp
  then have "\<forall>(off, n)\<in>set fs. map_of fs off = Some n" by auto
  then show ?case using 2 n d r by (auto simp: comp_def)
next
  case (4 t n)
  then show ?case by (auto simp: list_all_iff split: nval.splits)
qed (auto split: nval.splits list.splits)

lemma rt_real_type: "rt_ok t n \<Longrightarrow> rt_ok (FT_GET_REAL_TYPE t) n"
  by (cases t) auto

lemma rt_free_members:
  assumes "\<And>k t off n. (k, t, off) \<in> set ms \<Longrightarrow> map_of gs off = Some n \<Longrightarrow>
      free_native (FT_GET_REAL_TYPE t) n w = w"
  shows "free_native_members ms gs w = w"
  using assms
proof (induction ms)
  case (Cons m ms)
  obtain k t off where m: "m = (k, t, off)" by (cases m)
  have "(case map_of gs off of Some v \<Rightarrow> free_native (FT_GET_REAL_TYPE t) v w | None \<Rightarrow> w) = w"
    using Cons.prems [of k t off] m by (auto split: option.splits)
  moreover have "free_native_members ms gs w = w" using Cons.prems by (intro Cons.IH) auto
  ultimately show ?case using m by simp
qed simp

lemma rt_free_elems: "(\<And>n. n \<in> set ns \<Longrightarrow> free_native (FT_GET_REAL_TYPE t) n w = w) \<Longrightarrow> free_native_elems t ns w = w"
  by (induction ns) auto

lemma rt_free_native: "rt_ok t n \<Longrightarrow> free_native t n w = w"
proof (induction "size t" arbitrary: t n rule: less_induct)
  case less
  note IH = less.hyps and ok = less.prems
  show ?case
  proof (cases t)
    case (StructMap sz ms)
    obtain fs where n: "n = NStruct fs" and d: "distinct (map (snd \<circ> snd) ms)" and r: "rt_members ms fs"
      using ok StructMap by (auto split: nval.splits)
    have "free_native_members ms fs w = w"
    proof (rule rt_free_members)
      fix k u off m assume a: "(k, u, off) \<in> set ms" "map_of fs off = Some m"
      have "rt_ok u m" using rt_members_ok [OF r a(1) d] a(2) by auto
      moreover have "size (FT_GET_REAL_TYPE u) < size t"
        using size_member [OF a(1), of sz] size_real_type [of u] StructMap by simp
      ultimately show "free_native (FT_GET_REAL_TYPE u) m w = w" using IH rt_real_type by blast
    qed
    then show ?thesis using n StructMap by simp
  next
    case (Array u)
    obtain vs where n: "n = NArr vs" and r: "list_all (rt_ok u) vs" using ok Array by (auto split: nval.splits)
    have "size (FT_GET_REAL_TYPE u) < size t" using size_real_type [of u] Array by simp
    then have "free_native_elems u vs w = w"
      using IH rt_real_type r by (intro rt_free_elems) (auto simp: list_all_iff)
    then show ?thesis using n Array by simp
  next
    case (Prim p)
    then show ?thesis using ok by (cases p; cases n) auto
  qed (use ok in auto)
qed

lemma rt_free_args:
  "list_all2 rt_ok ts ns \<Longrightarrow> free_method_args (ts @ us) (map Some ns @ bs) w = free_method_args us bs w"
  by (induction ts ns rule: list_all2_induct) (simp_all add: rt_free_native rt_real_type)

lemma conv_args_rt:
  assumes "engine_ok e" "list_all2 rt_ok ts ns"
  shows "conv_args e (ts @ us) (map2 (target_of e) ts ns @ vs) bs sw = conv_args e us vs (bs @ map Some ns) sw"
  using assms(2)
proof (induction ts ns arbitrary: bs rule: list_all2_induct)
  case (Cons t ts n ns)
  obtain s w where "sw = (s, w)" by (cases sw)
  then have "convertValueToNative e t (target_of e t n) (zero_slot t) sw = Some (True, n, sw)"
    using roundtrip_converters [OF assms(1) Cons(1)] by simp
  moreover have "\<not> is_promise t" using Cons(1) by (cases t) auto
  ultimately show ?case using Cons.IH by (cases t) auto
qed simp

lemma free_none_args: "free_method_args ts (map (\<lambda>_. None) us) w = w"
  by (induction ts arbitrary: us; case_tac us; simp)

section \<open>What a call does\<close>

lemma methodCall_sync:
  assumes "\<not> rest_ended (mt_params mt)" "list_all (\<lambda>t. \<not> is_optional t) (param_types (mt_params mt))"
    "\<not> is_promise (mt_ret mt)"
  shows "methodCall e cap d mt argv sw =
     (let ts = param_types (mt_params mt) in
      if length argv \<noteq> length ts then Some (RET_ARGS_COUNT_ERR, JUndef, sw)
      else case conv_args e ts argv [] sw of
        None \<Rightarrow> None
      | Some (False, bs, s, w) \<Rightarrow> Some (RET_ARGS_TYPE_ERR, JUndef, s, free_method_args ts bs w)
      | Some (True, bs, s, w) \<Rightarrow>
          Some (finish_call e (mt_ret mt) ts bs JUndef
            (mt_stub mt \<lparr>sa_pid = None, sa_slots = bs, sa_rest = None, sa_total = int (length ts)\<rparr>
              (throwError [] s, w))))"
proof -
  have o: "filter is_optional (param_types (mt_params mt)) = []"
    using assms(2) by (simp add: list_all_iff filter_empty_conv)
  show ?thesis
    using assms(1,3) o
    by (auto simp: methodCall_def getParamCount_Some begin_async_def arity_ok_def handle_error_def Let_def
      split: option.splits prod.splits bool.splits)
qed

end
