(* ===== verification/CallProps.thy ===== *)
theory CallProps
  imports MethodCall CoreProps
begin

text \<open>
  The properties of the path from a script into a native feature: the two converters undo each
  other, a call delivers its arguments and its result, arguments are checked before the
  native function runs, asynchronous methods report through their promise, and an event
  property assignment replaces the subscribers.
\<close>

section \<open>Lemmas\<close>

lemma rt_convert:
  assumes "rt_ok t n"
  shows "\<exists>w'. convertValueToTarget e t n tg w = (True, target_of e t n, w') \<and> calls w' = calls w \<and>
     (balanced b M w \<longrightarrow> balanced b (add_mset (target_of e t n) M) w')"
  using convert_all(1) [OF rt_nval_ok(1) [OF assms], where b = b and M = M and tg = tg and w = w and e = e] by (simp add: converted_def)

lemma addEventCallback_list:
  assumes ok: "em_ok m" and me: "me_compatible me m" and add: "addEventCallback me v m w = (i, m', w')"
  shows "me_compatible me m' \<and> getEventCallbacks m' me =
    (if v \<in> set (getEventCallbacks m me) then getEventCallbacks m me else getEventCallbacks m me @ [v])"
proof -
  let ?k = "me_id me" and ?es = "events_map m"
  have pos: "0 < ?k" using me by (simp add: me_compatible_def)
  note fid = findEventId_compatible [OF ok me]
  define d where "d = (case map_of ?es ?k of Some d0 \<Rightarrow> d0 | None \<Rightarrow> \<lparr>ed_event = me, ed_callbacks = []\<rparr>)"
  obtain d' w1 where ad: "ed_add v d w = (d', w1)" by fastforce
  have d': "ed_event d' = ed_event d"
    "ed_callbacks d' = (if v \<in> set (ed_callbacks d) then ed_callbacks d else ed_callbacks d @ [v])"
    using ad by (auto simp: ed_add_def findEvent_def isSameValue_def list_ex_iff split: if_splits)
  have addr: "me_addr (ed_event d) = me_addr me"
    using me by (auto simp: d_def me_compatible_def dest: map_of_SomeD split: option.splits)
  have old: "getEventCallbacks m me = ed_callbacks d"
    using fid pos by (auto simp: getEventCallbacks_def getEventData_def d_def okeys_iff Let_def split: option.splits)
  have m': "map_of (events_map m') ?k = Some d'" "set (events_map m') \<subseteq> insert (?k, d') (insert (?k, d) (set ?es))"
  proof -
    show "map_of (events_map m') ?k = Some d'"
      using add ad fid pos by (cases "map_of ?es ?k") (auto simp: addEventCallback_def d_def okeys_iff Let_def)
    show "set (events_map m') \<subseteq> insert (?k, d') (insert (?k, d) (set ?es))"
    proof (cases "map_of ?es ?k")
      case None
      then have "events_map m' = omap_put ?k d' (omap_put ?k d ?es)"
        using add ad fid pos by (auto simp: addEventCallback_def d_def okeys_iff Let_def)
      then show ?thesis using set_omap_put [of ?k d' "omap_put ?k d ?es"] set_omap_put [of ?k d ?es] by auto
    next
      case (Some d0)
      then have "events_map m' = omap_put ?k d' ?es"
        using add ad fid pos by (auto simp: addEventCallback_def d_def okeys_iff Let_def)
      then show ?thesis using set_omap_put [of ?k d' ?es] by auto
    qed
  qed
  have c: "me_compatible me m'"
    using me m'(2) addr d'(1) unfolding me_compatible_def by fastforce
  have "em_ok m'" by (rule addEventCallback_spec(1) [OF ok me add])
  then have "findEventId m' me = ?k" using findEventId_compatible [OF _ c] m'(1) by (auto simp: okeys_iff)
  then have "getEventCallbacks m' me = ed_callbacks d'"
    using pos m'(1) by (simp add: getEventCallbacks_def getEventData_def)
  then show ?thesis using c old d'(2) by simp
qed

lemma each_function_subscribe:
  assumes "list_all JS_IsFunction vs" "distinct vs" "\<forall>v\<in>set vs. v \<notin> set (getEventCallbacks (inst_em s) me)"
    "em_ok (inst_em s)" "me_compatible me (inst_em s)"
  shows "\<exists>em w'. each_function (subscribe me) vs (s, w) = (True, s\<lparr>inst_em := em\<rparr>, w') \<and> em_ok em \<and>
     me_compatible me em \<and> getEventCallbacks em me = getEventCallbacks (inst_em s) me @ vs \<and> calls w' = calls w \<and>
     (balanced b (em_refs (inst_em s) + M) w \<longrightarrow> balanced b (em_refs em + M) w')"
  using assms
proof (induction vs arbitrary: s w)
  case Nil
  then show ?case by (intro exI [of _ "inst_em s"] exI [of _ w]) simp
next
  case (Cons v vs)
  let ?w1 = "feature_dup_value v w"
  obtain i em w2 where add: "addEventCallback me v (inst_em s) ?w1 = (i, em, w2)" by (metis prod_cases3)
  note sp = addEventCallback_spec [OF Cons.prems(4,5) add]
    and li = addEventCallback_list [OF Cons.prems(4,5) add]
  have get: "getEventCallbacks em me = getEventCallbacks (inst_em s) me @ [v]" using li Cons.prems(3) by simp
  let ?s = "s\<lparr>inst_em := em\<rparr>" and ?w3 = "feature_free_value v w2"
  obtain em' w' where IH: "each_function (subscribe me) vs (?s, ?w3) = (True, ?s\<lparr>inst_em := em'\<rparr>, w')" "em_ok em'"
    "me_compatible me em'" "getEventCallbacks em' me = getEventCallbacks em me @ vs" "calls w' = calls ?w3"
    "balanced b (em_refs em + M) ?w3 \<longrightarrow> balanced b (em_refs em' + M) w'"
    using Cons.IH [of ?s ?w3] Cons.prems sp(1) li get by auto
  have "balanced b (em_refs em + M) ?w3" if "balanced b (em_refs (inst_em s) + M) w"
  proof -
    have "balanced b (em_refs (inst_em s) + add_mset v M) ?w1" using balanced_dup [OF that, of v] by simp
    then have "balanced b (add_mset v (em_refs em + M)) w2" using sp(6) [of b "add_mset v M"] by simp
    then show ?thesis by (rule balanced_free)
  qed
  moreover have "subscribe me v (s, ?w1) = (?s, w2)" using add by (simp add: subscribe_def)
  ultimately show ?case using Cons.prems(1) IH get sp(5)
    by (intro exI [of _ em'] exI [of _ w']) (simp add: Let_def)
qed

lemma drop_subscribers_ok:
  assumes "em_ok (inst_em s)" "me_compatible me (inst_em s)"
  shows "\<exists>em w'. drop_subscribers me (s, w) = (s\<lparr>inst_em := em\<rparr>, w') \<and> em_ok em \<and> me_compatible me em \<and>
     getEventCallbacks em me = [] \<and> calls w' = calls w \<and>
     (balanced b (em_refs (inst_em s) + M) w \<longrightarrow> balanced b (em_refs em + M) w')"
proof (cases "findEventId (inst_em s) me > 0")
  case False
  then show ?thesis using assms
    by (intro exI [of _ "inst_em s"] exI [of _ w]) (simp add: drop_subscribers_def getEventCallbacks_def)
next
  case True
  let ?k = "me_id me"
  have k: "findEventId (inst_em s) me = ?k" "?k \<in> okeys (events_map (inst_em s))"
    using True findEventId_compatible [OF assms] by (auto split: if_splits)
  obtain d where d: "map_of (events_map (inst_em s)) ?k = Some d" using k(2) by (auto simp: okeys_iff)
  obtain r em w' where rm: "removeEventCallbacks ?k True (inst_em s) w = (r, em, w')" by (metis prod_cases3)
  note sp = removeEventCallbacks_spec [OF assms(1) rm]
  have em: "events_map em = omap_put ?k (d\<lparr>ed_callbacks := []\<rparr>) (events_map (inst_em s))"
    using rm d True k(1) by (auto simp: removeEventCallbacks_def ed_clear_def)
  have c: "me_compatible me em"
    using assms(2) d set_omap_put [of ?k "d\<lparr>ed_callbacks := []\<rparr>" "events_map (inst_em s)"]
    unfolding me_compatible_def em by (fastforce dest: map_of_SomeD)
  have "getEventCallbacks em me = []"
    using findEventId_compatible [OF sp(1) c] sp(4) d
    by (auto simp: getEventCallbacks_def getEventData_def Let_def split: option.splits)
  then show ?thesis using True k(1) rm sp c
    by (intro exI [of _ em] exI [of _ w']) (simp add: drop_subscribers_def)
qed

lemma finish_call_rt:
  assumes ts: "list_all2 rt_ok ts ns" and rn: "rt_ok ret n" and ex: "\<not> hasException s"
  shows "\<exists>w'. finish_call e ret ts (map Some ns) JUndef (n, s, w) = (RET_OK, target_of e ret n, s, w') \<and>
    calls w' = calls w \<and> (balanced b M w \<longrightarrow> balanced b (add_mset (target_of e ret n) M) w')"
proof -
  have nr: "\<not> is_promise ret" "ret \<noteq> Prim FT_VOID" "ret \<noteq> Prim FT_ANY_REF"
    using rn by (cases ret; auto simp: scalar_prim_def split: nval.splits)+
  obtain w' where c: "convertValueToTarget e ret n JUndef w = (True, target_of e ret n, w')" "calls w' = calls w"
    "balanced b M w \<longrightarrow> balanced b (add_mset (target_of e ret n) M) w'"
    using rt_convert [OF rn] by blast
  have "free_method_args ts (map Some ns) w' = w'" using rt_free_args [OF ts, of "[]" "[]"] by simp
  moreover have "free_native (FT_GET_REAL_TYPE ret) n w' = w'" using rn by (simp add: rt_free_native rt_real_type)
  ultimately have "finish_call e ret ts (map Some ns) JUndef (n, s, w) = (RET_OK, target_of e ret n, s, w')"
    using nr ex c(1) by (simp add: finish_call_def Let_def)
  then show ?thesis using c by blast
qed

definition simple_method :: "mthd \<Rightarrow> bool" where
  "simple_method mt \<longleftrightarrow> \<not> rest_ended (mt_params mt) \<and>
     list_all (\<lambda>t. \<not> is_optional t) (param_types (mt_params mt))"

definition msg_of :: "RetCode \<Rightarrow> string \<Rightarrow> mthd \<Rightarrow> string" where
  "msg_of r dname mt = get_error_msg r (''feature:'' @ dname @ '', method:'' @ mt_name mt)"

text \<open>A method for the witnesses: \<open>add(int, string): int\<close> that returns its first argument.\<close>

definition mt0 :: mthd where
  "mt0 = \<lparr>mt_name = ''add'', mt_params = [PType (Prim FT_INT), PType (Prim FT_STRING), PEnd],
     mt_ret = Prim FT_INT,
     mt_stub = (\<lambda>a sw. (case sa_slots a of Some n # _ \<Rightarrow> n | _ \<Rightarrow> NNull, sw))\<rparr>"

lemma mt0_simple: "simple_method mt0" "param_types (mt_params mt0) = [Prim FT_INT, Prim FT_STRING]"
  "mt_ret mt0 = Prim FT_INT"
  by (simp_all add: mt0_def simple_method_def)

section \<open>The properties\<close>



text \<open>a 64-bit unsigned result reaches the script as a BigInt, which the converter back refuses:
  such a value cannot be handed back to a native function.\<close>
theorem uint64_is_refused_back:
  assumes "engine_ok e"
  shows "\<exists>v w'. convertValueToTarget e (Prim FT_UINT64) (NBits b) tg w = (True, v, w') \<and>
     convertValueToNative e (Prim FT_UINT64) v n (s, w') = Some (False, n, s, w')"
  using assms by (auto simp: engine_ok_def convertPrim_def toNumber_def nativeToTarget_def scalar_prim_def Let_def)

lemma uint64_is_refused_back_witness:
  "\<exists>v w'. convertValueToTarget engine0 (Prim FT_UINT64) (NBits 5) JUndef world0 = (True, v, w') \<and>
     convertValueToNative engine0 (Prim FT_UINT64) v (NBits 0) (inst0, w') = Some (False, NBits 0, inst0, w')"
  by (rule uint64_is_refused_back [OF engine0_ok])

text \<open>a script can abort the process: an undefined element in an array argument, or a value that
  is not a native interface where one is declared, trips a check instead of being refused.\<close>
theorem script_values_can_abort:
  assumes "engine_ok e" "list_all (rt_ok t) ns" "interfaceFromTarget v = None"
  shows "convertValueToNative e (Array t) (JArr (map (target_of e t) ns @ JUndef # vs)) n sw = None \<and>
     convertValueToNative e (Interface d) v n sw = None"
proof -
  obtain s w where sw: "sw = (s, w)" by (cases sw)
  have "to_elems e t (map (target_of e t) ns @ JUndef # vs) done (s, w) = None" for "done"
    using assms(2)
  proof (induction ns arbitrary: "done")
    case (Cons m ns)
    then show ?case
      using roundtrip_converters [OF assms(1), of t m "zero_slot t" s] rt_defined [OF assms(1), of t m] by simp
  qed simp
  then show ?thesis using assms(3) by (simp add: sw)
qed

lemma script_values_can_abort_witness:
  "convertValueToNative engine0 (Array (Prim FT_INT)) (JArr [JInt 1, JUndef]) NNull (inst0, world0) = None \<and>
   convertValueToNative engine0 (Interface ''Socket'') (JObject []) NNull (inst0, world0) = None"
  using script_values_can_abort [OF engine0_ok, of "Prim FT_INT" "[NBits 1]" "JObject []" "[]" NNull "(inst0, world0)"]
  by (simp add: bits_ok_def scalar_prim_def nativeToTarget_def)

text \<open>C15: a script call of a method delivers: the native function runs once, on exactly the native
  values the script values stand for, and the value it leaves in the result slot is what the script
  receives, with one reference more owned and nothing else changed by the framework.\<close>
theorem method_call_delivers:
  assumes "engine_ok e" and mt: "simple_method mt" "\<not> is_promise (mt_ret mt)"
    and args: "list_all2 rt_ok (param_types (mt_params mt)) ns"
    and stub: "mt_stub mt \<lparr>sa_pid = None, sa_slots = map Some ns, sa_rest = None, sa_total = int (length ns)\<rparr>
        (throwError [] s, w) = (n, s', w')"
    and ret: "rt_ok (mt_ret mt) n" "\<not> hasException s'"
  shows "\<exists>w2. methodCall e cap d mt (map2 (target_of e) (param_types (mt_params mt)) ns) (s, w) =
      Some (RET_OK, target_of e (mt_ret mt) n, s', w2) \<and> calls w2 = calls w' \<and>
    (balanced b M w' \<longrightarrow> balanced b (add_mset (target_of e (mt_ret mt) n) M) w2)"
proof -
  have l: "length (param_types (mt_params mt)) = length ns" by (rule list_all2_lengthD [OF args])
  have "conv_args e (param_types (mt_params mt)) (map2 (target_of e) (param_types (mt_params mt)) ns) [] (s, w)
      = Some (True, map Some ns, s, w)"
    using conv_args_rt [OF assms(1) args, of "[]" "[]" "[]"] by simp
  moreover obtain w2 where "finish_call e (mt_ret mt) (param_types (mt_params mt)) (map Some ns) JUndef (n, s', w') =
      (RET_OK, target_of e (mt_ret mt) n, s', w2)" "calls w2 = calls w'"
    "balanced b M w' \<longrightarrow> balanced b (add_mset (target_of e (mt_ret mt) n) M) w2"
    using finish_call_rt [OF args ret] by blast
  ultimately show ?thesis
    using mt stub l by (simp add: methodCall_sync simple_method_def)
qed

lemma method_call_delivers_witness:
  "\<exists>w2. methodCall engine0 None ''calc'' mt0 [JInt 7, JStr ''x''] (inst0, world0) =
      Some (RET_OK, JInt 7, throwError [] inst0, w2) \<and> calls w2 = calls world0 \<and>
    (balanced (rc world0) {#} world0 \<longrightarrow> balanced (rc world0) {#JInt 7#} w2)"
  using method_call_delivers [OF engine0_ok mt0_simple(1), of "[NBits 7, NStr ''x'']" inst0 world0 "NBits 7"
      "throwError [] inst0" world0 None "''calc''" "rc world0" "{#}"] mt0_simple
  by (simp add: bits_ok_def scalar_prim_def mt0_def hasException_def throwError_def nativeToTarget_def cstr_def)

text \<open>the arguments are checked before the native function runs: with the wrong number of them, or
  with one a scalar parameter cannot take (after any prefix of good ones), a synchronous call fails
  with the matching code whatever the native function is, and nothing has changed.\<close>
theorem method_arguments_are_checked:
  assumes "engine_ok e" and mt: "simple_method mt" "\<not> is_promise (mt_ret mt)"
    and args: "param_types (mt_params mt) = ts @ Prim p # us" "list_all2 rt_ok ts ns"
    and bad: "scalar_prim p" "toNumber e p v = None" "length vs = length us"
  shows "(length argv \<noteq> length ts + 1 + length us \<longrightarrow>
      methodCall e cap d mt argv (s, w) = Some (RET_ARGS_COUNT_ERR, JUndef, s, w)) \<and>
    methodCall e cap d mt (map2 (target_of e) ts ns @ v # vs) (s, w) = Some (RET_ARGS_TYPE_ERR, JUndef, s, w)"
proof -
  have l: "length ts = length ns" by (rule list_all2_lengthD [OF args(2)])
  have "conv_args e (ts @ Prim p # us) (map2 (target_of e) ts ns @ v # vs) [] (s, w) =
      Some (False, map Some ns @ Some (zero_slot (Prim p)) # map (\<lambda>_. None) us, s, w)"
    using conv_args_rt [OF assms(1) args(2), of "Prim p # us" "v # vs" "[]"] bad
    by (simp add: convertPrim_def)
  moreover have "free_method_args (ts @ Prim p # us)
      (map Some ns @ Some (zero_slot (Prim p)) # map (\<lambda>_. None) us) w = w"
    using rt_free_args [OF args(2)] bad(1)
    by (auto simp: free_none_args FT_NEED_FREE_iff scalar_prim_def)
  ultimately show ?thesis
    using mt args(1) bad(3) l by (simp add: methodCall_sync simple_method_def)
qed

lemma method_arguments_are_checked_witness:
  "methodCall engine0 None ''calc'' mt0 [JInt 7] (inst0, world0) = Some (RET_ARGS_COUNT_ERR, JUndef, inst0, world0) \<and>
   methodCall engine0 None ''calc'' mt0 [JStr ''7'', JStr ''x''] (inst0, world0) =
     Some (RET_ARGS_TYPE_ERR, JUndef, inst0, world0)"
  using method_arguments_are_checked [OF engine0_ok mt0_simple(1), of "[]" FT_INT "[Prim FT_STRING]" "[]"
      "JStr ''7''" "[JStr ''x'']" "[JInt 7]" None "''calc''" inst0 world0] mt0_simple
  by (simp add: scalar_prim_def toNumber_def)

text \<open>an asynchronous method called with the wrong number of arguments and no callback object
  returns its promise to the script and rejects it at once, with the code and the message, calling
  nothing else; the promise is gone from the table and the native function has not run.\<close>
theorem async_argument_error_rejects:
  assumes mt: "simple_method mt" "mt_ret mt = Promise u"
    and s: "pm_ok (inst_pm s)" "curr_pid (inst_pm s) < INT32_MAX"
    and noc: "argv = [] \<or> checkAsyncCallbacks (last argv) = 0" and f1: "f1 \<noteq> JUndef"
    and cnt: "length argv \<noteq> length (param_types (mt_params mt))"
  shows "\<exists>s' w'. methodCall e (Some (p, f0, f1)) d mt argv (s, w) = Some (RET_OK, p, s', w') \<and>
    calls w' = calls w @ [(f1, [JObject [(''code'', JInt 202), (''data'', JStr (msg_of RET_ARGS_COUNT_ERR d mt))]])] \<and>
    (\<forall>pid. getPromiseData (inst_pm s') pid = getPromiseData (inst_pm s) pid)"
proof -
  obtain pid pm w1 where ap: "addPromise (Some (p, f0, f1)) u (inst_pm s) w = (pid, pm, w1)" by (metis prod_cases3)
  note sp = addPromise_spec [OF s ap]
  have pid: "pid = curr_pid (inst_pm s)"
    "map_of (promises pm) = (map_of (promises (inst_pm s)))(pid \<mapsto> PPromise u p f0 f1)"
    using sp(4) by blast+
  have new: "map_of (promises (inst_pm s)) pid = None"
    using s(1) pid(1) okeys_iff [of pid "promises (inst_pm s)"] by (force simp: pm_ok_def)
  have gp: "getPromise pm pid = p" "getPromiseData pm pid = Some (PPromise u p f0 f1)"
    using pid(2) by (simp_all add: getPromise_def getPromiseData_def)
  let ?w2 = "feature_dup_value p w1" and ?msg = "msg_of RET_ARGS_COUNT_ERR d mt"
  obtain w3 where rj: "pd_reject (PPromise u p f0 f1) FT_ERR_ARGS (Some ?msg) ?w2 = (0, w3)"
    "calls w3 = calls ?w2 @ [(f1, [JObject [(''code'', JInt 202), (''data'', JStr ?msg)]])]"
    using pd_reject_spec [of "PPromise u p f0 f1" FT_ERR_ARGS "Some ?msg" ?w2] f1 by (auto simp: FT_ERR_ARGS_def call_unless_undef_def simp del: pd_reject.simps)
  obtain r pm' w4 where rm: "removePromise pid pm w3 = (r, pm', w4)" by (metis prod_cases3)
  note rs = removePromise_spec [OF sp(1) rm]
  let ?s = "s\<lparr>inst_pm := pm'\<rparr>"
  have rp: "rejectPromise pid FT_ERR_ARGS (Some ?msg) (s\<lparr>inst_pm := pm\<rparr>) ?w2 = (0, ?s, w4)"
    using gp(2) rj(1) rm rs(4) by (simp add: rejectPromise_def doRejectPromise_def)
  have o: "filter is_optional (param_types (mt_params mt)) = []"
    using mt(1) by (simp add: simple_method_def list_all_iff filter_empty_conv)
  have fl: "(if argv = [] then 0 else checkAsyncCallbacks (last argv)) = 0" using noc by auto
  have "methodCall e (Some (p, f0, f1)) d mt argv (s, w) = Some (RET_OK, p, ?s, w4)"
    using mt cnt rp ap gp(1) o fl
    by (simp add: methodCall_def getParamCount_Some begin_async_def arity_ok_def handle_error_def
      simple_method_def msg_of_def)
  moreover have "calls w4 = calls w @ [(f1, [JObject [(''code'', JInt 202), (''data'', JStr ?msg)]])]"
    using rs(5) rj(2) sp(2) by simp
  moreover have "getPromiseData (inst_pm ?s) q = getPromiseData (inst_pm s) q" for q
    using rs(3) pid(2) new by (simp add: getPromiseData_def)
  ultimately show ?thesis by blast
qed

definition mt1 :: mthd where
  "mt1 = \<lparr>mt_name = ''read'', mt_params = [PType (Prim FT_ANY_REF), PType (Prim FT_STRING), PEnd],
     mt_ret = Promise (Prim FT_STRING), mt_stub = (\<lambda>a sw. (NNull, sw))\<rparr>"

lemma async_argument_error_rejects_witness:
  "\<exists>s' w'. methodCall engine0 (Some (JFun 20, JFun 21, JFun 22)) ''file'' mt1 [JInt 1] (inst0, world0) =
      Some (RET_OK, JFun 20, s', w') \<and>
    calls w' = calls world0 @
      [(JFun 22, [JObject [(''code'', JInt 202), (''data'', JStr (msg_of RET_ARGS_COUNT_ERR ''file'' mt1))]])] \<and>
    (\<forall>pid. getPromiseData (inst_pm s') pid = getPromiseData (inst_pm inst0) pid)"
  by (rule async_argument_error_rejects)
    (use inst0_ok in \<open>simp_all add: mt1_def simple_method_def inst_ok_def checkAsyncCallbacks_def inst0_def\<close>)

text \<open>with a callback object as the last argument the count is not checked: an asynchronous method
  with further parameters, called with the object alone, runs its native function with the object as
  first argument and null slots for all the others.\<close>
theorem async_callbacks_bypass_arity:
  assumes mt: "simple_method mt" "mt_ret mt = Promise u" "param_types (mt_params mt) = Prim FT_ANY_REF # ts"
    and cb: "checkAsyncCallbacks arg = 1" "addAsyncCallbacksFromArg u arg s w = (pid, arg', s', w')"
  shows "methodCall e cap d mt [arg] (s, w) =
    Some (finish_call e (Promise u) (Prim FT_ANY_REF # ts) (Some (NAny arg') # map (\<lambda>_. None) ts) JUndef
      (mt_stub mt \<lparr>sa_pid = Some pid, sa_slots = Some (NAny arg') # map (\<lambda>_. None) ts, sa_rest = None,
         sa_total = 2 + int (length ts)\<rparr> (throwError [] s', w')))"
proof -
  have obj: "arg \<noteq> JUndef" "JS_IsObject arg" using cb(1) by (auto simp: checkAsyncCallbacks_def split: if_splits)
  have "arg' = clear_cb_props arg"
    using cb(2) obj by (auto simp: addAsyncCallbacksFromArg_def Let_def split: if_splits prod.splits)
  then have n: "\<not> nullish arg'" using obj by (cases arg) (auto simp: clear_cb_props_def)
  have o: "filter is_optional ts = []"
    using mt(1,3) by (simp add: simple_method_def list_all_iff filter_empty_conv)
  show ?thesis
    using mt cb n o
    by (simp add: methodCall_def getParamCount_Some begin_async_def arity_ok_def simple_method_def
      convertPrim_def scalar_prim_def)
qed

lemma async_callbacks_bypass_arity_witness:
  "\<exists>pid arg' s' w'. methodCall engine0 None ''file'' mt1 [JObject [(''success'', JFun 30)]] (inst0, world0) =
    Some (finish_call engine0 (Promise (Prim FT_STRING)) [Prim FT_ANY_REF, Prim FT_STRING] [Some (NAny arg'), None] JUndef
      (mt_stub mt1 \<lparr>sa_pid = Some pid, sa_slots = [Some (NAny arg'), None], sa_rest = None, sa_total = 3\<rparr>
        (throwError [] s', w')))"
proof -
  obtain pid arg' s' w' where "addAsyncCallbacksFromArg (Prim FT_STRING) (JObject [(''success'', JFun 30)]) inst0 world0
      = (pid, arg', s', w')" by (metis prod_cases4)
  then show ?thesis
    using async_callbacks_bypass_arity [of mt1 "Prim FT_STRING" "[Prim FT_STRING]"]
    by (fastforce simp: mt1_def simple_method_def checkAsyncCallbacks_def Let_def)
qed

text \<open>assigning an array of distinct functions to an event property replaces the subscribers by
  exactly these, in order; the references of the old ones are given back, those of the new ones taken.\<close>
theorem event_assignment_replaces:
  assumes "em_ok (inst_em s)" "me_compatible me (inst_em s)" "list_all JS_IsFunction vs" "distinct vs"
  shows "\<exists>em w'. eventSet me (JArr vs) (s, w) = (RET_OK, s\<lparr>inst_em := em\<rparr>, w') \<and> em_ok em \<and>
    getEventCallbacks em me = vs \<and> calls w' = calls w \<and>
    (balanced b (em_refs (inst_em s) + M) w \<longrightarrow> balanced b (em_refs em + M) w')"
proof -
  obtain em w1 where d: "drop_subscribers me (s, w) = (s\<lparr>inst_em := em\<rparr>, w1)" "em_ok em" "me_compatible me em"
    "getEventCallbacks em me = []" "calls w1 = calls w"
    "balanced b (em_refs (inst_em s) + M) w \<longrightarrow> balanced b (em_refs em + M) w1"
    using drop_subscribers_ok [OF assms(1,2)] by blast
  obtain em' w2 where a: "each_function (subscribe me) vs (s\<lparr>inst_em := em\<rparr>, w1) = (True, s\<lparr>inst_em := em'\<rparr>, w2)"
    "em_ok em'" "getEventCallbacks em' me = vs" "calls w2 = calls w1"
    "balanced b (em_refs em + M) w1 \<longrightarrow> balanced b (em_refs em' + M) w2"
    using each_function_subscribe [OF assms(3,4), of "s\<lparr>inst_em := em\<rparr>" me w1 b M] d(2-4) by auto
  have "eventSet me (JArr vs) (s, w) = (RET_OK, s\<lparr>inst_em := em'\<rparr>, w2)"
    using d(1) a(1) by (simp add: eventSet_def addEventCallbacks_def)
  then show ?thesis using a d by auto
qed

lemma event_assignment_replaces_witness:
  "\<exists>em w'. eventSet me1 (JArr [JFun 40, JFun 5]) (inst0, world0) = (RET_OK, inst0\<lparr>inst_em := em\<rparr>, w') \<and> em_ok em \<and>
    getEventCallbacks em me1 = [JFun 40, JFun 5] \<and> calls w' = calls world0 \<and>
    (balanced (rc world0) (em_refs (inst_em inst0) + {#}) world0 \<longrightarrow> balanced (rc world0) (em_refs em + {#}) w')"
  by (rule event_assignment_replaces)
    (use inst0_ok in \<open>simp_all add: inst_ok_def inst0_def me_compatible_def me1_def\<close>)

end
