(* ===== verification/FeatureMemory.thy ===== *)
theory FeatureMemory
  imports FeatureTypes
begin

text \<open>
  The reference-counted native heap of \<open>src/feature_exports.cpp\<close>: allocation with a header
  (\<open>FTObjHeader\<close>), duplication with the refusal to revive a dead object, and
  \<open>FeatureFreeValue\<close>, which walks the descriptor when the last reference goes. Addresses
  are numbers, 0 is the null pointer; a slot that was never written is \<open>None\<close>. Reading it, or
  touching an address without an object, is undefined behaviour and the outcome \<open>UB\<close>.
  \<open>FeatureFreeValue\<close> recurses through the heap, so it takes fuel for its depth;
  \<open>free_safe\<close> shows that on an acyclic heap with correct counts the rank of the object is
  enough, that nothing undefined happens, and that the counts stay correct.
  Allocation is assumed to succeed.
\<close>

section \<open>Outcomes\<close>

datatype 'a outcome = Ok 'a | UB | Fuel

fun obind :: "'a outcome \<Rightarrow> ('a \<Rightarrow> 'b outcome) \<Rightarrow> 'b outcome" where
  "obind (Ok x) f = f x"
| "obind UB f = UB"
| "obind Fuel f = Fuel"

lemma obind_Ok_iff: "obind r f = Ok y \<longleftrightarrow> (\<exists>x. r = Ok x \<and> f x = Ok y)"
  by (cases r) auto

section \<open>Objects\<close>

type_synonym addr = nat

datatype mem_type = MEMORY_REF_COUNT_ONLY | MEMORY_FEATURE_TYPE ftype | MEMORY_PROTOBUF

record ft_array =
  a_size :: int
  a_capacity :: int
  a_element :: "nat option list"

datatype payload =
    PStr string
  | PStruct "(nat \<times> nat) list"
  | PArray ft_array
  | PRaw "64 word"

record obj =
  o_ref_count :: "32 word"
  o_type :: mem_type
  o_data :: payload

record mem =
  objs :: "addr \<Rightarrow> obj option"
  brk :: addr

definition put_obj :: "addr \<Rightarrow> obj \<Rightarrow> mem \<Rightarrow> mem" where
  "put_obj p ob m = m\<lparr>objs := (objs m)(p \<mapsto> ob)\<rparr>"

definition del_obj :: "addr \<Rightarrow> mem \<Rightarrow> mem" where
  "del_obj p m = m\<lparr>objs := (objs m)(p := None)\<rparr>"

section \<open>Allocation and duplication\<close>

definition alloc :: "mem_type \<Rightarrow> payload \<Rightarrow> mem \<Rightarrow> addr \<times> mem" where
  "alloc ty d m =
     (let p = Suc (brk m) in
      (p, (put_obj p \<lparr>o_ref_count = 1, o_type = ty, o_data = d\<rparr> m)\<lparr>brk := p\<rparr>))"

definition FeatureInstanceAlloc :: "mem \<Rightarrow> addr \<times> mem" where
  "FeatureInstanceAlloc m = alloc MEMORY_REF_COUNT_ONLY (PRaw 0) m"

definition FeatureInstanceAllocProtobuf :: "mem \<Rightarrow> addr \<times> mem" where
  "FeatureInstanceAllocProtobuf m = alloc MEMORY_PROTOBUF (PRaw 0) m"

text \<open>The block is cleared: every pointer member of a struct starts as null.\<close>

fun zero_payload :: "ftype \<Rightarrow> payload" where
  "zero_payload (Prim FT_STRING) = PStr []"
| "zero_payload (StructMap _ ms) = PStruct (map (\<lambda>(n, t, off). (off, 0)) ms)"
| "zero_payload (Array _) = PArray \<lparr>a_size = 0, a_capacity = 0, a_element = []\<rparr>"
| "zero_payload _ = PRaw 0"

definition FeatureInstanceAllocType :: "ftype \<Rightarrow> mem \<Rightarrow> addr \<times> mem" where
  "FeatureInstanceAllocType t m = alloc (MEMORY_FEATURE_TYPE t) (zero_payload t) m"

definition FeatureStrCopy :: "string \<Rightarrow> mem \<Rightarrow> addr \<times> mem" where
  "FeatureStrCopy str m =
     (let (p, m1) = FeatureInstanceAllocType (Prim FT_STRING) m in
      case objs m1 p of
        Some ob \<Rightarrow> (p, put_obj p (ob\<lparr>o_data := PStr str\<rparr>) m1)
      | None \<Rightarrow> (p, m1))"

definition FeatureDupValue :: "addr \<Rightarrow> mem \<Rightarrow> (addr \<times> mem) outcome" where
  "FeatureDupValue p m =
     (if p = 0 then Ok (0, m)
      else case objs m p of
        None \<Rightarrow> UB
      | Some ob \<Rightarrow>
          (if o_ref_count ob = 0 then Ok (0, m)
           else Ok (p, put_obj p (ob\<lparr>o_ref_count := o_ref_count ob + 1\<rparr>) m)))"

definition FeatureInstanceDupValue :: "addr \<Rightarrow> mem \<Rightarrow> (addr \<times> mem) outcome" where
  "FeatureInstanceDupValue p m =
     (case objs m p of
        None \<Rightarrow> UB
      | Some ob \<Rightarrow> Ok (p, put_obj p (ob\<lparr>o_ref_count := o_ref_count ob + 1\<rparr>) m))"

definition FeatureGetValueRefCount :: "addr \<Rightarrow> mem \<Rightarrow> int outcome" where
  "FeatureGetValueRefCount p m =
     (case objs m p of None \<Rightarrow> UB | Some ob \<Rightarrow> Ok (sint (o_ref_count ob)))"

section \<open>Release\<close>

fun struct_slots :: "(string \<times> ftype \<times> nat) list \<Rightarrow> (nat \<times> nat) list \<Rightarrow> nat option list" where
  "struct_slots [] fs = []"
| "struct_slots ((n, t, off) # ms) fs =
     (if FT_NEED_FREE (FT_GET_REAL_TYPE t) then [map_of fs off] else []) @ struct_slots ms fs"

text \<open>
  The slots whose references an object gives back when it dies; \<open>None\<close> stands for the
  abort on a protobuf message or an optional stored in typed memory. The buffer of an
  \<open>ArrayBuffer\<close> is destroyed with it; the second \<open>FeatureFreeValue\<close> on the dying object
  wraps its count from 0 to the largest 32-bit value and returns.
\<close>

fun owned_slots :: "obj \<Rightarrow> nat option list option" where
  "owned_slots ob =
     (case o_type ob of
        MEMORY_FEATURE_TYPE (StructMap _ ms) \<Rightarrow>
          (case o_data ob of PStruct fs \<Rightarrow> Some (struct_slots ms fs) | _ \<Rightarrow> None)
      | MEMORY_FEATURE_TYPE (Array et) \<Rightarrow>
          (case o_data ob of
             PArray a \<Rightarrow>
               (if FT_NEED_FREE et
                then (if int (length (a_element a)) < a_size a then None
                      else Some (take (nat (a_size a)) (a_element a)))
                else Some [])
           | _ \<Rightarrow> None)
      | MEMORY_FEATURE_TYPE (Optional _ _) \<Rightarrow> None
      | MEMORY_FEATURE_TYPE (Protobuf _) \<Rightarrow> None
      | _ \<Rightarrow> Some [])"

declare owned_slots.simps [simp del]

fun FeatureFreeValue :: "nat \<Rightarrow> addr \<Rightarrow> mem \<Rightarrow> mem outcome"
  and free_slots :: "nat \<Rightarrow> nat option list \<Rightarrow> mem \<Rightarrow> mem outcome"
where
  "FeatureFreeValue 0 p m = (if p = 0 then Ok m else Fuel)"
| "FeatureFreeValue (Suc n) p m =
     (if p = 0 then Ok m
      else case objs m p of
        None \<Rightarrow> UB
      | Some ob \<Rightarrow>
          (let desired = o_ref_count ob - 1;
               m1 = put_obj p (ob\<lparr>o_ref_count := desired\<rparr>) m
           in if desired > 0 then Ok m1
              else case owned_slots ob of
                None \<Rightarrow> UB
              | Some ss \<Rightarrow> obind (free_slots n ss m1) (\<lambda>m2. Ok (del_obj p m2))))"
| "free_slots n [] m = Ok m"
| "free_slots n (None # ss) m = UB"
| "free_slots n (Some p # ss) m = obind (FeatureFreeValue n p m) (free_slots n ss)"

section \<open>Correct counts\<close>

definition refs_of :: "obj \<Rightarrow> nat multiset" where
  "refs_of ob = (case owned_slots ob of
     Some ss \<Rightarrow> mset (map the (filter (\<lambda>s. s \<noteq> None \<and> s \<noteq> Some 0) ss)) | None \<Rightarrow> {#})"

definition slots_ok :: "obj \<Rightarrow> bool" where
  "slots_ok ob \<longleftrightarrow> (case owned_slots ob of Some ss \<Rightarrow> None \<notin> set ss | None \<Rightarrow> False)"

text \<open>
  \<open>counts_ok D S R m\<close>: outside the objects \<open>D\<close> being torn down, every object's count is
  positive and is the number of references to it in \<open>R\<close> (those the code holds) and in the other
  objects, and every reference leads to an object. The slots of the objects in \<open>S\<close>, which an
  operation has open, are not counted: their references are in \<open>R\<close>.
\<close>

definition held :: "addr set \<Rightarrow> mem \<Rightarrow> addr \<Rightarrow> nat" where
  "held D m p = (\<Sum>q\<in>dom (objs m) - D. count (refs_of (the (objs m q))) p)"

definition counts_ok :: "addr set \<Rightarrow> addr set \<Rightarrow> addr multiset \<Rightarrow> mem \<Rightarrow> bool" where
  "counts_ok D S R m \<longleftrightarrow>
     finite (dom (objs m)) \<and> 0 \<notin># R \<and>
     (\<forall>p ob. objs m p = Some ob \<longrightarrow> p \<notin> D \<longrightarrow>
        (p \<notin> S \<longrightarrow> slots_ok ob) \<and> 0 < unat (o_ref_count ob) \<and>
        unat (o_ref_count ob) = count R p + held (D \<union> S) m p) \<and>
     (\<forall>p. 0 < count R p + held (D \<union> S) m p \<longrightarrow> p \<in> dom (objs m) - D)"

definition ranked :: "(addr \<Rightarrow> nat) \<Rightarrow> mem \<Rightarrow> bool" where
  "ranked r m \<longleftrightarrow> (\<forall>p ob. objs m p = Some ob \<longrightarrow> (\<forall>q\<in>#refs_of ob. r q < r p))"

text \<open>What a release may do to the heap: remove objects and lower counts, nothing else.\<close>

definition shrinks :: "addr set \<Rightarrow> mem \<Rightarrow> mem \<Rightarrow> bool" where
  "shrinks D m m' \<longleftrightarrow>
     (\<forall>p ob'. objs m' p = Some ob' \<longrightarrow>
        (\<exists>ob. objs m p = Some ob \<and> o_type ob' = o_type ob \<and> o_data ob' = o_data ob)) \<and>
     (\<forall>p\<in>D. objs m' p = objs m p)"

lemma owned_slots_cong: "o_type ob' = o_type ob \<Longrightarrow> o_data ob' = o_data ob \<Longrightarrow> owned_slots ob' = owned_slots ob"
  by (simp only: owned_slots.simps)

lemma refs_of_cong: "o_type ob' = o_type ob \<Longrightarrow> o_data ob' = o_data ob \<Longrightarrow> refs_of ob' = refs_of ob"
  using owned_slots_cong by (metis refs_of_def)

lemma slots_ok_cong: "o_type ob' = o_type ob \<Longrightarrow> o_data ob' = o_data ob \<Longrightarrow> slots_ok ob' = slots_ok ob"
  using owned_slots_cong by (metis slots_ok_def)

lemma refs_of_count [simp]: "refs_of (ob\<lparr>o_ref_count := c\<rparr>) = refs_of ob"
  by (rule refs_of_cong) simp_all

lemma slots_ok_count [simp]: "slots_ok (ob\<lparr>o_ref_count := c\<rparr>) = slots_ok ob"
  by (rule slots_ok_cong) simp_all

lemma shrinks_refl: "shrinks D m m"
  by (simp add: shrinks_def)

lemma shrinks_trans: "shrinks D m m' \<Longrightarrow> shrinks D m' m'' \<Longrightarrow> shrinks D m m''"
  unfolding shrinks_def by metis

lemma shrinks_ranked: "shrinks D m m' \<Longrightarrow> ranked r m \<Longrightarrow> ranked r m'"
  unfolding shrinks_def ranked_def using refs_of_cong by metis

lemma put_obj_simps [simp]: "objs (put_obj p ob m) = (objs m)(p \<mapsto> ob)" "objs (del_obj p m) = (objs m)(p := None)"
  by (simp_all add: put_obj_def del_obj_def)

lemma held_put:
  assumes "objs m p = Some ob" "refs_of ob' = refs_of ob"
  shows "held D (put_obj p ob' m) = held D m"
proof (rule ext)
  fix x
  have "dom (objs (put_obj p ob' m)) = dom (objs m)" using assms(1) by auto
  then show "held D (put_obj p ob' m) x = held D m x"
    using assms unfolding held_def by (intro sum.cong) auto
qed

lemma held_insert:
  assumes "finite (dom (objs m))" "objs m p = Some ob" "p \<notin> D"
  shows "held D m x = count (refs_of ob) x + held (insert p D) m x"
proof -
  have d: "dom (objs m) - D = insert p (dom (objs m) - insert p D)" using assms by auto
  have f: "finite (dom (objs m) - insert p D)" using assms(1) by simp
  show ?thesis unfolding held_def d by (subst sum.insert [OF f]) (use assms(2) in auto)
qed

lemma held_del:
  assumes "p \<in> D"
  shows "held D (del_obj p m) = held D m"
proof (rule ext)
  fix x
  have "dom (objs (del_obj p m)) - D = dom (objs m) - D" using assms by auto
  then show "held D (del_obj p m) x = held D m x"
    using assms unfolding held_def by (intro sum.cong) auto
qed

lemma held_shrink: "held (insert p D) (del_obj p m) = held D (del_obj p m)"
  unfolding held_def by (intro ext sum.cong) auto

section \<open>Release is safe\<close>

definition ptrs :: "nat option list \<Rightarrow> nat list" where
  "ptrs ss = map the (filter (\<lambda>s. s \<noteq> None \<and> s \<noteq> Some 0) ss)"

lemma ptrs_simps [simp]:
  "ptrs [] = []" "ptrs (None # ss) = ptrs ss" "ptrs (Some 0 # ss) = ptrs ss"
  "q \<noteq> 0 \<Longrightarrow> ptrs (Some q # ss) = q # ptrs ss"
  by (simp_all add: ptrs_def)

lemma zero_ptrs [simp]: "0 \<notin> set (ptrs ss)"
  by (auto simp: ptrs_def)

lemma refs_of_ptrs: "owned_slots ob = Some ss \<Longrightarrow> refs_of ob = mset (ptrs ss)"
  by (simp add: refs_of_def ptrs_def)

lemma counts_ok_obj:
  assumes "counts_ok D S R m" "objs m p = Some ob" "p \<notin> D"
  shows "p \<notin> S \<Longrightarrow> slots_ok ob" "0 < unat (o_ref_count ob)"
    "unat (o_ref_count ob) = count R p + held (D \<union> S) m p"
  using assms unfolding counts_ok_def by blast+

lemma counts_ok_ref:
  "counts_ok D S R m \<Longrightarrow> 0 < count R p + held (D \<union> S) m p \<Longrightarrow> p \<in> dom (objs m) - D"
  by (simp only: counts_ok_def)

lemma counts_okI:
  assumes "finite (dom (objs m))" "0 \<notin># R"
    "\<And>p ob. objs m p = Some ob \<Longrightarrow> p \<notin> D \<Longrightarrow>
       (p \<notin> S \<longrightarrow> slots_ok ob) \<and> 0 < unat (o_ref_count ob) \<and>
       unat (o_ref_count ob) = count R p + held (D \<union> S) m p"
    "\<And>p. 0 < count R p + held (D \<union> S) m p \<Longrightarrow> p \<in> dom (objs m) - D"
  shows "counts_ok D S R m"
  using assms unfolding counts_ok_def by blast

lemma counts_okD:
  assumes "counts_ok D S R m" "p \<in># R"
  shows "p \<noteq> 0" "p \<notin> D" "\<exists>ob. objs m p = Some ob"
proof -
  have "0 < count R p" using assms(2) by simp
  then have "p \<in> dom (objs m) - D" using counts_ok_ref [OF assms(1), of p] by simp
  then show "p \<noteq> 0" "p \<notin> D" "\<exists>ob. objs m p = Some ob"
    using assms by (auto simp: counts_ok_def simp del: neq0_conv intro: ccontr)
qed

lemma held_0 [simp]: "held D m 0 = 0"
proof -
  have "count (refs_of ob) 0 = 0" for ob
    by (auto simp: refs_of_ptrs refs_of_def count_eq_zero_iff split: option.splits)
  then show ?thesis by (simp add: held_def)
qed

text \<open>Changing one count and the references held together.\<close>

lemma counts_ok_recount:
  assumes ok: "counts_ok D S R m" and ob: "objs m p = Some ob" and pD: "p \<notin> D"
    and R: "\<And>q. q \<noteq> p \<Longrightarrow> count R' q = count R q"
    and c: "0 < unat c" "unat c + count R p = unat (o_ref_count ob) + count R' p"
  shows "counts_ok D S R' (put_obj p (ob\<lparr>o_ref_count := c\<rparr>) m)"
proof -
  let ?m = "put_obj p (ob\<lparr>o_ref_count := c\<rparr>) m"
  have h: "held (D \<union> S) ?m = held (D \<union> S) m" by (rule held_put [OF ob]) simp
  note op = counts_ok_obj [OF ok ob pD]
  have "count R 0 = 0" using ok by (simp add: counts_ok_def count_eq_zero_iff)
  then have p0: "p \<noteq> 0" using op(2,3) by (intro notI) simp
  show ?thesis
  proof (rule counts_okI)
    show "finite (dom (objs ?m))" using ok by (simp add: counts_ok_def)
    show "0 \<notin># R'" using ok R [of 0] p0 by (simp add: counts_ok_def flip: count_greater_zero_iff)
    show "q \<in> dom (objs ?m) - D" if "0 < count R' q + held (D \<union> S) ?m q" for q
      using counts_ok_ref [OF ok, of q] R [of q] that h ob pD by (cases "q = p") auto
    show "(q \<notin> S \<longrightarrow> slots_ok ob') \<and> 0 < unat (o_ref_count ob') \<and>
        unat (o_ref_count ob') = count R' q + held (D \<union> S) ?m q"
      if "objs ?m q = Some ob'" "q \<notin> D" for q ob'
    proof (cases "q = p")
      case True
      then show ?thesis using that op c h by auto
    next
      case False
      then have "objs m q = Some ob'" using that by simp
      then show ?thesis using counts_ok_obj [OF ok _ that(2)] R [OF False] h by auto
    qed
  qed
qed

text \<open>The last reference goes: the object is torn down, its slots become held references.\<close>

lemma counts_ok_open:
  assumes ok: "counts_ok D S (add_mset p R) m" and S: "S \<subseteq> set_mset R"
    and ob: "objs m p = Some ob"
    and last: "\<not> o_ref_count ob - 1 > 0" and ss: "owned_slots ob = Some ss"
  shows "counts_ok (insert p D) S (mset (ptrs ss) + R) (put_obj p (ob\<lparr>o_ref_count := o_ref_count ob - 1\<rparr>) m)"
proof -
  let ?m = "put_obj p (ob\<lparr>o_ref_count := o_ref_count ob - 1\<rparr>) m"
  have pD: "p \<notin> D" using counts_okD(2) [OF ok] by simp
  have fin: "finite (dom (objs m))" using ok by (simp add: counts_ok_def)
  have one: "unat (o_ref_count ob) = 1"
    using last counts_ok_obj(2) [OF ok ob pD] by (simp add: word_greater_zero_iff)
  have p0: "count R p = 0" "held (D \<union> S) m p = 0"
    using counts_ok_obj(3) [OF ok ob pD] one by auto
  have pS: "p \<notin> S" using p0(1) S by (auto simp: count_eq_zero_iff)
  have h: "held (D \<union> S) m x = count (mset (ptrs ss)) x + held (insert p D \<union> S) ?m x" for x
    using held_insert [OF fin ob, of "D \<union> S" x] pD pS refs_of_ptrs [OF ss]
      held_put [OF ob, of "ob\<lparr>o_ref_count := o_ref_count ob - 1\<rparr>" "insert p D \<union> S"] by simp
  have sum: "count (mset (ptrs ss) + R) x + held (insert p D \<union> S) ?m x = count R x + held (D \<union> S) m x" for x
    using h [of x] by simp
  show ?thesis
  proof (rule counts_okI)
    show "finite (dom (objs ?m))" using fin by auto
    show "0 \<notin># mset (ptrs ss) + R" using ok by (auto simp: counts_ok_def)
    show "q \<in> dom (objs ?m) - insert p D"
      if "0 < count (mset (ptrs ss) + R) q + held (insert p D \<union> S) ?m q" for q
    proof -
      have pos: "0 < count R q + held (D \<union> S) m q" using that by (simp only: sum)
      then have np: "q \<noteq> p" using p0 by (metis add_0 less_irrefl)
      then have "0 < count (add_mset p R) q + held (D \<union> S) m q" using pos by simp
      then have "q \<in> dom (objs m) - D" by (rule counts_ok_ref [OF ok])
      with np show ?thesis by auto
    qed
    show "(q \<notin> S \<longrightarrow> slots_ok ob') \<and> 0 < unat (o_ref_count ob') \<and>
        unat (o_ref_count ob') = count (mset (ptrs ss) + R) q + held (insert p D \<union> S) ?m q"
      if "objs ?m q = Some ob'" "q \<notin> insert p D" for q ob'
    proof -
      have "objs m q = Some ob'" "q \<noteq> p" "q \<notin> D" using that by auto
      then show ?thesis using counts_ok_obj [OF ok, of q ob'] sum [of q] by simp
    qed
  qed
qed

lemma counts_ok_close:
  assumes ok: "counts_ok (insert p D) S R m"
  shows "counts_ok D S R (del_obj p m)"
proof -
  have h: "held (D \<union> S) (del_obj p m) = held (insert p D \<union> S) m"
    using held_shrink [of p "D \<union> S" m] held_del [of p "insert p (D \<union> S)" m] by simp
  show ?thesis
  proof (rule counts_okI)
    show "finite (dom (objs (del_obj p m)))" "0 \<notin># R" using ok by (auto simp: counts_ok_def)
    show "q \<in> dom (objs (del_obj p m)) - D" if "0 < count R q + held (D \<union> S) (del_obj p m) q" for q
      using counts_ok_ref [OF ok, of q] that h by auto
    show "(q \<notin> S \<longrightarrow> slots_ok ob') \<and> 0 < unat (o_ref_count ob') \<and>
        unat (o_ref_count ob') = count R q + held (D \<union> S) (del_obj p m) q"
      if "objs (del_obj p m) q = Some ob'" "q \<notin> D" for q ob'
      using counts_ok_obj [OF ok, of q ob'] that h by (auto split: if_splits)
  qed
qed

text \<open>A live object's slots are opened for an operation, and closed with other contents.\<close>

lemma counts_ok_borrow:
  assumes ok: "counts_ok D {} R m" and ob: "objs m p = Some ob" and pD: "p \<notin> D"
    and ss: "owned_slots ob = Some ss"
  shows "counts_ok D {p} (mset (ptrs ss) + R) m"
proof -
  have fin: "finite (dom (objs m))" using ok by (simp add: counts_ok_def)
  have h: "count R q + held D m q = count (mset (ptrs ss) + R) q + held (D \<union> {p}) m q" for q
    using held_insert [OF fin ob pD, of q] refs_of_ptrs [OF ss] by simp
  show ?thesis
  proof (rule counts_okI)
    show "finite (dom (objs m))" by (rule fin)
    show "0 \<notin># mset (ptrs ss) + R" using ok by (simp add: counts_ok_def)
    show "q \<in> dom (objs m) - D" if "0 < count (mset (ptrs ss) + R) q + held (D \<union> {p}) m q" for q
      using counts_ok_ref [OF ok, of q] that by (simp only: h Un_empty_right)
    show "(q \<notin> {p} \<longrightarrow> slots_ok ob') \<and> 0 < unat (o_ref_count ob') \<and>
        unat (o_ref_count ob') = count (mset (ptrs ss) + R) q + held (D \<union> {p}) m q"
      if "objs m q = Some ob'" "q \<notin> D" for q ob'
      using counts_ok_obj [OF ok that] by (simp only: h [symmetric] Un_empty_right simp_thms empty_iff)
  qed
qed

lemma held_put_open: "p \<in> D \<Longrightarrow> objs m p = Some ob \<Longrightarrow> held D (put_obj p ob' m) = held D m"
  unfolding held_def by (intro ext sum.cong) auto

lemma counts_ok_give_back:
  assumes ok: "counts_ok D {p} (mset (ptrs ss) + R) m" and ob: "objs m p = Some ob" and pD: "p \<notin> D"
    and ob': "owned_slots ob' = Some ss" "None \<notin> set ss" "o_ref_count ob' = o_ref_count ob"
  shows "counts_ok D {} R (put_obj p ob' m)"
proof -
  let ?m = "put_obj p ob' m"
  have fin: "finite (dom (objs ?m))" using ok by (simp add: counts_ok_def)
  have h: "count R q + held D ?m q = count (mset (ptrs ss) + R) q + held (D \<union> {p}) m q" for q
    using held_insert [OF fin, of p ob' D q] refs_of_ptrs [OF ob'(1)] pD
      held_put_open [OF _ ob, of "insert p D" ob'] by simp
  show ?thesis
  proof (rule counts_okI)
    show "finite (dom (objs ?m))" by (rule fin)
    show "0 \<notin># R" using ok by (simp add: counts_ok_def)
    show "q \<in> dom (objs ?m) - D" if "0 < count R q + held (D \<union> {}) ?m q" for q
      using counts_ok_ref [OF ok, of q] that ob by (simp only: h Un_empty_right) auto
    show "(q \<notin> {} \<longrightarrow> slots_ok b) \<and> 0 < unat (o_ref_count b) \<and>
        unat (o_ref_count b) = count R q + held (D \<union> {}) ?m q"
      if "objs ?m q = Some b" "q \<notin> D" for q b
    proof (cases "q = p")
      case True
      then have "b = ob'" using that by simp
      then show ?thesis using counts_ok_obj(2,3) [OF ok ob pD] True ob'
        by (simp only: h Un_empty_right) (simp add: slots_ok_def)
    next
      case False
      then have "objs m q = Some b" using that by simp
      then show ?thesis using counts_ok_obj [OF ok _ that(2)] False by (simp only: h Un_empty_right) auto
    qed
  qed
qed

lemma counts_ok_lower:
  assumes ok: "counts_ok D S (add_mset p R) m" and ob: "objs m p = Some ob"
    and pos: "o_ref_count ob - 1 > 0"
  shows "counts_ok D S R (put_obj p (ob\<lparr>o_ref_count := o_ref_count ob - 1\<rparr>) m)"
proof (rule counts_ok_recount [OF ok ob])
  show pD: "p \<notin> D" using counts_okD(2) [OF ok] by simp
  have "0 < unat (o_ref_count ob)" by (rule counts_ok_obj(2) [OF ok ob pD])
  then have "o_ref_count ob \<noteq> 0" by auto
  with \<open>0 < unat (o_ref_count ob)\<close>
  show "unat (o_ref_count ob - 1) + count (add_mset p R) p = unat (o_ref_count ob) + count R p"
    by (simp add: unat_minus_one)
  show "0 < unat (o_ref_count ob - 1)" using pos by (simp add: word_greater_zero_iff unat_gt_0)
qed simp

lemma free_slots_safe:
  assumes step: "\<And>p R m. counts_ok D S (add_mset p R) m \<Longrightarrow> S \<subseteq> set_mset R \<Longrightarrow> ranked r m \<Longrightarrow> r p < n \<Longrightarrow>
      \<exists>m'. FeatureFreeValue n p m = Ok m' \<and> counts_ok D S R m' \<and> shrinks D m m'"
    and S: "S \<subseteq> set_mset R"
  shows "counts_ok D S (mset (ptrs ss) + R) m \<Longrightarrow> None \<notin> set ss \<Longrightarrow> ranked r m \<Longrightarrow>
     \<forall>q\<in>set (ptrs ss). r q < n \<Longrightarrow>
     \<exists>m'. free_slots n ss m = Ok m' \<and> counts_ok D S R m' \<and> shrinks D m m'"
proof (induction ss arbitrary: m)
  case Nil
  then show ?case by (auto intro: shrinks_refl)
next
  case (Cons s ss)
  obtain q where s: "s = Some q" using Cons.prems(2) by (cases s) auto
  show ?case
  proof (cases "q = 0")
    case True
    then have "FeatureFreeValue n q m = Ok m" by (cases n) simp_all
    then show ?thesis using Cons s True by simp
  next
    case False
    have ok: "counts_ok D S (add_mset q (mset (ptrs ss) + R)) m" using Cons.prems(1) s False by simp
    have S': "S \<subseteq> set_mset (mset (ptrs ss) + R)" using S by auto
    from step [OF ok S' Cons.prems(3)] obtain m1 where m1: "FeatureFreeValue n q m = Ok m1"
      "counts_ok D S (mset (ptrs ss) + R) m1" "shrinks D m m1"
      using Cons.prems(4) s False by auto
    obtain m2 where "free_slots n ss m1 = Ok m2" "counts_ok D S R m2" "shrinks D m1 m2"
      using Cons.IH [OF m1(2) _ shrinks_ranked [OF m1(3) Cons.prems(3)]] Cons.prems(2,4) s False by auto
    then show ?thesis using m1 s shrinks_trans [OF m1(3)] by auto
  qed
qed

lemma free_safe:
  "counts_ok D S (add_mset p R) m \<Longrightarrow> S \<subseteq> set_mset R \<Longrightarrow> ranked r m \<Longrightarrow> r p < n \<Longrightarrow>
   \<exists>m'. FeatureFreeValue n p m = Ok m' \<and> counts_ok D S R m' \<and> shrinks D m m'"
proof (induction n arbitrary: D p R m)
  case (Suc n)
  obtain ob where ob: "objs m p = Some ob" and p0: "p \<noteq> 0" and pD: "p \<notin> D"
    using counts_okD [OF Suc.prems(1), of p] by auto
  let ?m1 = "put_obj p (ob\<lparr>o_ref_count := o_ref_count ob - 1\<rparr>) m"
  have sh: "shrinks D m ?m1" using ob pD by (auto simp: shrinks_def)
  show ?case
  proof (cases "o_ref_count ob - 1 > 0")
    case True
    then show ?thesis using counts_ok_lower [OF Suc.prems(1) ob True] ob p0 sh by (simp add: Let_def)
  next
    case False
    have "unat (o_ref_count ob) = 1"
      using False counts_ok_obj(2) [OF Suc.prems(1) ob pD] by (simp add: word_greater_zero_iff)
    then have "count R p = 0" using counts_ok_obj(3) [OF Suc.prems(1) ob pD] by simp
    then have "p \<notin> S" using Suc.prems(2) by (auto simp: count_eq_zero_iff)
    then obtain ss where ss: "owned_slots ob = Some ss" "None \<notin> set ss"
      using counts_ok_obj(1) [OF Suc.prems(1) ob pD] by (auto simp: slots_ok_def split: option.splits)
    have rk1: "ranked r ?m1"
    proof -
      have "shrinks {} m ?m1" using ob by (auto simp: shrinks_def)
      then show ?thesis using shrinks_ranked Suc.prems(3) by blast
    qed
    have rk: "\<forall>q\<in>set (ptrs ss). r q < n"
      using Suc.prems(3,4) ob refs_of_ptrs [OF ss(1)] by (force simp: ranked_def)
    from free_slots_safe [OF Suc.IH Suc.prems(2) counts_ok_open [OF Suc.prems(1,2) ob False ss(1)] ss(2) rk1 rk]
    obtain m2 where m2: "free_slots n ss ?m1 = Ok m2" "counts_ok (insert p D) S R m2"
      "shrinks (insert p D) ?m1 m2" by blast
    have "shrinks D m (del_obj p m2)"
      using m2(3) ob pD unfolding shrinks_def by (auto split: if_splits) metis+
    then show ?thesis using m2 counts_ok_close [OF m2(2)] ob p0 False ss(1) by (simp add: Let_def)
  qed
qed simp

section \<open>Typed heaps\<close>

text \<open>
  Typed memory is acyclic: a slot leads to memory of the declared type, which is smaller than
  the type of the object that has the slot. Its size is fuel enough for a release.
\<close>

fun slot_types :: "mem_type \<Rightarrow> nat \<Rightarrow> ftype list" where
  "slot_types (MEMORY_FEATURE_TYPE (StructMap _ ms)) k =
     map (\<lambda>(n, t, off). FT_GET_REAL_TYPE t) (filter (\<lambda>(n, t, off). FT_NEED_FREE (FT_GET_REAL_TYPE t)) ms)"
| "slot_types (MEMORY_FEATURE_TYPE (Array et)) k = replicate k et"
| "slot_types _ k = []"

fun slot_typed :: "mem \<Rightarrow> nat option \<Rightarrow> ftype \<Rightarrow> bool" where
  "slot_typed m (Some q) t =
     (q = 0 \<or> (case objs m q of None \<Rightarrow> False | Some ob \<Rightarrow>
        (case o_type ob of MEMORY_FEATURE_TYPE t' \<Rightarrow> t' = t | _ \<Rightarrow> True)))"
| "slot_typed m None t = True"

definition typed :: "mem \<Rightarrow> bool" where
  "typed m \<longleftrightarrow> (\<forall>p ob ss. objs m p = Some ob \<longrightarrow> owned_slots ob = Some ss \<longrightarrow>
     list_all2 (slot_typed m) ss (slot_types (o_type ob) (length ss)))"

fun type_size :: "mem_type \<Rightarrow> nat" where
  "type_size (MEMORY_FEATURE_TYPE t) = Suc (size t)"
| "type_size _ = 0"

definition rank_of :: "mem \<Rightarrow> addr \<Rightarrow> nat" where
  "rank_of m p = (case objs m p of Some ob \<Rightarrow> type_size (o_type ob) | None \<Rightarrow> 0)"

lemma size_slot_type: "t \<in> set (slot_types mt k) \<Longrightarrow> Suc (size t) < type_size mt"
proof (induction mt k rule: slot_types.induct)
  case (1 i ms k)
  then obtain n t' off where "(n, t', off) \<in> set ms" "t = FT_GET_REAL_TYPE t'" by auto
  then show ?case using size_member [of n t' off ms i] size_real_type [of t'] by simp
qed auto

lemma set_ptrs: "set (ptrs ss) = {q. Some q \<in> set ss \<and> q \<noteq> 0}"
  by (force simp: ptrs_def)

lemma refs_of_slots: "q \<in># refs_of ob \<Longrightarrow> \<exists>ss. owned_slots ob = Some ss \<and> Some q \<in> set ss \<and> q \<noteq> 0"
  by (cases "owned_slots ob") (auto simp: refs_of_ptrs set_ptrs refs_of_def)

lemma typed_ranked:
  assumes "typed m"
  shows "ranked (rank_of m) m"
  unfolding ranked_def
proof (intro allI impI ballI)
  fix p ob q
  assume ob: "objs m p = Some ob" and "q \<in># refs_of ob"
  then obtain ss where ss: "owned_slots ob = Some ss" "Some q \<in> set ss" "q \<noteq> 0"
    using refs_of_slots by blast
  have l: "list_all2 (slot_typed m) ss (slot_types (o_type ob) (length ss))"
    using assms ob ss(1) by (simp add: typed_def)
  obtain i where i: "i < length ss" "ss ! i = Some q" using ss(2) by (auto simp: in_set_conv_nth)
  let ?t = "slot_types (o_type ob) (length ss) ! i"
  have "slot_typed m (Some q) ?t" using list_all2_nthD [OF l i(1)] i(2) by simp
  moreover have "?t \<in> set (slot_types (o_type ob) (length ss))"
    using list_all2_lengthD [OF l] i(1) by simp
  then have "Suc (size ?t) < type_size (o_type ob)" by (rule size_slot_type)
  ultimately show "rank_of m q < rank_of m p"
    using ss(3) ob by (auto simp: rank_of_def split: option.splits mem_type.splits)
qed

lemma refs_present:
  assumes ok: "counts_ok {} {} R m" and ob: "objs m p = Some ob" and q: "q \<in># refs_of ob"
  shows "\<exists>b. objs m q = Some b"
proof -
  have "finite (dom (objs m))" using ok by (simp add: counts_ok_def)
  then have "0 < held {} m q"
    using ob q unfolding held_def by (auto simp: count_greater_zero_iff simp del: sum_eq_0_iff intro!: sum_pos2)
  then show ?thesis using counts_ok_ref [OF ok, of q] by auto
qed

lemma typedI:
  assumes slots: "\<And>p ob ss. objs m' p = Some ob \<Longrightarrow> owned_slots ob = Some ss \<Longrightarrow>
       list_all2 (slot_typed m) ss (slot_types (o_type ob) (length ss))"
    and types: "\<And>q b. objs m' q = Some b \<Longrightarrow> \<exists>b0. objs m q = Some b0 \<and> o_type b0 = o_type b"
    and ok: "counts_ok {} {} R m'"
  shows "typed m'"
  unfolding typed_def
proof (intro allI impI)
  fix p ob' ss
  assume ob': "objs m' p = Some ob'" and ss: "owned_slots ob' = Some ss"
  show "list_all2 (slot_typed m') ss (slot_types (o_type ob') (length ss))"
  proof (rule list.rel_mono_strong [OF slots [OF ob' ss]])
    fix s t assume s: "s \<in> set ss" and t: "slot_typed m s t"
    show "slot_typed m' s t"
    proof (cases s)
      case (Some q)
      show ?thesis
      proof (cases "q = 0")
        case False
        have "q \<in># refs_of ob'" using s Some False ss by (simp add: refs_of_ptrs set_ptrs)
        then obtain b where b: "objs m' q = Some b" using refs_present [OF ok ob'] by blast
        then obtain b0 where "objs m q = Some b0" "o_type b0 = o_type b" using types by blast
        then show ?thesis using t b Some by simp
      qed (use Some in simp)
    qed simp
  qed
qed

lemma typed_shrinks:
  assumes m: "typed m" and sh: "shrinks {} m m'" and ok: "counts_ok {} {} R m'"
  shows "typed m'"
proof (rule typedI [OF _ _ ok])
  show "\<exists>b0. objs m q = Some b0 \<and> o_type b0 = o_type b" if "objs m' q = Some b" for q b
    using sh that unfolding shrinks_def by metis
  show "list_all2 (slot_typed m) ss (slot_types (o_type ob') (length ss))"
    if ob': "objs m' p = Some ob'" and ss: "owned_slots ob' = Some ss" for p ob' ss
  proof -
    obtain ob where ob: "objs m p = Some ob" "o_type ob' = o_type ob" "o_data ob' = o_data ob"
      using sh ob' unfolding shrinks_def by blast
    then have "owned_slots ob = Some ss" using owned_slots_cong [OF ob(2,3)] ss by simp
    then show ?thesis using m ob by (simp add: typed_def)
  qed
qed

section \<open>The operations keep the counts\<close>

text \<open>A heap nobody refers to is empty: releasing everything leaks nothing.\<close>

lemma no_leak:
  assumes ok: "counts_ok {} {} {#} m" and rk: "ranked r m"
  shows "objs m = Map.empty"
proof (rule ccontr)
  let ?d = "dom (objs m)"
  assume "objs m \<noteq> Map.empty"
  then have ne: "?d \<noteq> {}" by auto
  have fin: "finite ?d" using ok by (simp add: counts_ok_def)
  have "Max (r ` ?d) \<in> r ` ?d" using fin ne by (intro Max_in) auto
  then obtain p where p: "p \<in> ?d" "r p = Max (r ` ?d)" by (metis imageE)
  have top: "r q \<le> r p" if "q \<in> ?d" for q using p(2) fin that by simp
  from p(1) obtain ob where ob: "objs m p = Some ob" by auto
  have "0 < held {} m p" using counts_ok_obj(2,3) [OF ok ob] by simp
  then have "\<not> (\<forall>q\<in>?d. count (refs_of (the (objs m q))) p = 0)"
    unfolding held_def using sum.neutral [of "?d - {}"] by fastforce
  then obtain q where q: "q \<in> ?d" "p \<in># refs_of (the (objs m q))"
    by (auto simp: count_eq_zero_iff)
  then have "r p < r q" using rk by (auto simp: ranked_def)
  with top [OF q(1)] show False by simp
qed

lemma FeatureFreeValue_ok:
  assumes "counts_ok {} {} (add_mset p R) m" "typed m" "objs m p = Some ob"
    "type_size (o_type ob) < n"
  shows "\<exists>m'. FeatureFreeValue n p m = Ok m' \<and> counts_ok {} {} R m' \<and> typed m' \<and> shrinks {} m m'"
  using free_safe [OF assms(1) _ typed_ranked [OF assms(2)], of n] assms(3,4) typed_shrinks [OF assms(2)]
  by (auto simp: rank_of_def)

lemma typed_recount: "typed m \<Longrightarrow> objs m p = Some ob \<Longrightarrow> typed (put_obj p (ob\<lparr>o_ref_count := c\<rparr>) m)"
proof -
  assume m: "typed m" and ob: "objs m p = Some ob"
  let ?m = "put_obj p (ob\<lparr>o_ref_count := c\<rparr>) m"
  have s: "slot_typed ?m = slot_typed m"
  proof (intro ext)
    fix s t show "slot_typed ?m s t = slot_typed m s t" using ob by (cases s) auto
  qed
  have "owned_slots (ob\<lparr>o_ref_count := c\<rparr>) = owned_slots ob" by (rule owned_slots_cong) simp_all
  then show "typed ?m" using m ob unfolding typed_def s by auto
qed

lemma InstanceDupValue_ok:
  assumes ok: "counts_ok {} {} R m" and ty: "typed m" and p: "objs m p = Some ob"
    and room: "o_ref_count ob + 1 \<noteq> 0"
  shows "\<exists>m'. FeatureInstanceDupValue p m = Ok (p, m') \<and> FeatureDupValue p m = Ok (p, m') \<and>
     counts_ok {} {} (add_mset p R) m' \<and> typed m' \<and> shrinks {} m m' \<and> shrinks {} m' m"
proof -
  let ?m = "put_obj p (ob\<lparr>o_ref_count := o_ref_count ob + 1\<rparr>) m"
  have pos: "0 < unat (o_ref_count ob)" using counts_ok_obj(2) [OF ok p] by simp
  have u: "unat (o_ref_count ob + 1) = Suc (unat (o_ref_count ob))" using room by (metis Suc_eq_plus1 add.commute unatSuc)
  have c: "counts_ok {} {} (add_mset p R) ?m"
    by (rule counts_ok_recount [OF ok p]) (use u in auto)
  then have "p \<noteq> 0" using counts_okD(1) [of "{}" "{}" "add_mset p R" ?m p] by simp
  moreover have "o_ref_count ob \<noteq> 0" using pos by auto
  ultimately show ?thesis using c p typed_recount [OF ty p]
    by (simp add: FeatureInstanceDupValue_def FeatureDupValue_def shrinks_def)
qed

text \<open>Addresses not yet handed out hold nothing.\<close>

definition fresh :: "mem \<Rightarrow> bool" where
  "fresh m \<longleftrightarrow> (\<forall>p. brk m < p \<longrightarrow> objs m p = None)"

lemma alloc_ok:
  assumes ok: "counts_ok {} {} R m" and ty: "typed m" and fr: "fresh m"
    and al: "alloc mt d m = (p, m')"
    and em: "owned_slots \<lparr>o_ref_count = 1, o_type = mt, o_data = d\<rparr> = Some ss" "set ss \<subseteq> {Some 0}"
      "length (slot_types mt (length ss)) = length ss"
  shows "counts_ok {} {} (add_mset p R) m'" "typed m'" "fresh m'"
    "objs m' p = Some \<lparr>o_ref_count = 1, o_type = mt, o_data = d\<rparr>" "p = Suc (brk m)" "brk m' = p"
    "\<forall>q. q \<noteq> p \<longrightarrow> objs m' q = objs m q"
proof -
  let ?ob = "\<lparr>o_ref_count = 1, o_type = mt, o_data = d\<rparr>"
  have p: "p = Suc (brk m)" and m': "objs m' = (objs m)(p \<mapsto> ?ob)" and b: "brk m' = p"
    using al by (auto simp: alloc_def Let_def)
  then show "objs m' p = Some ?ob" "p = Suc (brk m)" "brk m' = p" "\<forall>q. q \<noteq> p \<longrightarrow> objs m' q = objs m q"
    by auto
  have none: "objs m p = None" using fr p by (simp add: fresh_def)
  show "fresh m'" using fr p by (simp add: fresh_def m' b)
  have e0: "refs_of ?ob = {#}" using em(2) by (auto simp: refs_of_ptrs [OF em(1)] ptrs_def filter_empty_conv)
  have fin: "finite (dom (objs m))" using ok by (simp add: counts_ok_def)
  have h: "held {} m' q = held {} m q" for q
  proof -
    have "dom (objs m') = insert p (dom (objs m))" "p \<notin> dom (objs m)" using m' none by auto
    then show ?thesis using fin m' e0 by (auto simp: held_def domI intro!: sum.cong)
  qed
  have "\<not> 0 < count R p + held {} m p" using counts_ok_ref [OF ok, of p] none by auto
  then have z: "count R p + held {} m p = 0" by (simp only: not_gr_zero)
  show "counts_ok {} {} (add_mset p R) m'"
  proof (rule counts_okI)
    show "finite (dom (objs m'))" using fin m' by simp
    show "0 \<notin># add_mset p R" using ok p by (simp add: counts_ok_def)
    show "q \<in> dom (objs m') - {}" if "0 < count (add_mset p R) q + held ({} \<union> {}) m' q" for q
      using that counts_ok_ref [OF ok, of q] m' h by (cases "q = p") auto
    show "(q \<notin> {} \<longrightarrow> slots_ok b) \<and> 0 < unat (o_ref_count b) \<and>
        unat (o_ref_count b) = count (add_mset p R) q + held ({} \<union> {}) m' q"
      if "objs m' q = Some b" "q \<notin> {}" for q b
    proof (cases "q = p")
      case True
      then have "b = ?ob" using that m' by simp
      then show ?thesis using True z em h by (auto simp: slots_ok_def)
    next
      case False
      then show ?thesis using that counts_ok_obj [OF ok, of q b] m' h by auto
    qed
  qed
  show "typed m'"
    unfolding typed_def
  proof (intro allI impI)
    fix q b qs assume b: "objs m' q = Some b" and qs: "owned_slots b = Some qs"
    show "list_all2 (slot_typed m') qs (slot_types (o_type b) (length qs))"
    proof (cases "q = p")
      case True
      then have "qs = ss" "o_type b = mt" using b qs em m' by auto
      moreover have "\<forall>s\<in>set ss. \<forall>t. slot_typed m' s t" using em(2) by auto
      ultimately show ?thesis using em(3) by (simp add: list_all2_conv_all_nth)
    next
      case False
      then have "list_all2 (slot_typed m) qs (slot_types (o_type b) (length qs))"
        using ty b qs m' by (simp add: typed_def)
      then show ?thesis
      proof (rule list.rel_mono_strong)
        fix s t assume "slot_typed m s t"
        then show "slot_typed m' s t" using m' none by (cases s) auto
      qed
    qed
  qed
qed

lemma FeatureStrCopy_ok:
  assumes ok: "counts_ok {} {} R m" and ty: "typed m" and fr: "fresh m"
  shows "\<exists>q m'. FeatureStrCopy s m = (q, m') \<and> q = Suc (brk m) \<and> fresh m' \<and>
     counts_ok {} {} (add_mset q R) m' \<and> typed m' \<and>
     objs m' = (objs m)(q \<mapsto> \<lparr>o_ref_count = 1, o_type = MEMORY_FEATURE_TYPE (Prim FT_STRING), o_data = PStr s\<rparr>) \<and>
     brk m' = q"
proof -
  obtain q m' where al: "alloc (MEMORY_FEATURE_TYPE (Prim FT_STRING)) (PStr s) m = (q, m')" by force
  note r = alloc_ok [OF ok ty fr al]
  have f: "FeatureStrCopy s m = (q, m')"
    using al by (auto simp: FeatureStrCopy_def FeatureInstanceAllocType_def alloc_def put_obj_def Let_def)
  show ?thesis using r [of "[]"] f al by (auto simp: owned_slots.simps alloc_def Let_def)
qed

lemma brk_put_obj [simp]: "brk (put_obj p b m) = brk m"
  by (simp add: put_obj_def)

lemma brk_del_obj [simp]: "brk (del_obj p m) = brk m"
  by (simp add: del_obj_def)

lemma free_brk:
  "FeatureFreeValue n p m = Ok m' \<Longrightarrow> brk m' = brk m"
  "free_slots n ss m = Ok m' \<Longrightarrow> brk m' = brk m"
proof (induction n p m and n ss m arbitrary: m' and m' rule: FeatureFreeValue_free_slots.induct)
  case (2 n p m)
  show ?case
  proof (cases "p = 0")
    case False
    obtain ob where ob: "objs m p = Some ob" using 2(2) False by (cases "objs m p") simp_all
    let ?m1 = "put_obj p (ob\<lparr>o_ref_count := o_ref_count ob - 1\<rparr>) m"
    show ?thesis
    proof (cases "o_ref_count ob - 1 > 0")
      case True
      then have "m' = ?m1" using 2(2) False ob by (simp add: Let_def)
      then show ?thesis by simp
    next
      case last: False
      obtain ss where ss: "owned_slots ob = Some ss"
        using 2(2) False ob last by (cases "owned_slots ob") (simp_all add: Let_def)
      obtain m2 where m2: "free_slots n ss ?m1 = Ok m2" "m' = del_obj p m2"
        using 2(2) False ob last ss by (auto simp: Let_def obind_Ok_iff)
      have "brk m2 = brk ?m1" by (rule 2(1) [OF False ob refl refl last ss m2(1)])
      then show ?thesis using m2(2) by simp
    qed
  qed (use 2(2) in simp)
next
  case (5 n p ss m)
  then show ?case by (auto simp: obind_Ok_iff)
qed (auto split: if_splits)

end
