(* ===== verification/FeatureArrays.thy ===== *)
theory FeatureArrays
  imports FeatureMemory
begin

text \<open>
  The growable arrays of \<open>src/feature_exports.cpp\<close>: creation, copies, growth, append, insertion
  before and after an index, removal with its mixed signed and unsigned arithmetic, and clearing.
  The element buffer is a list of slots as long as the capacity; a slot that was never
  written is \<open>None\<close>. An access outside the buffer is the outcome \<open>UB\<close>. Sizes are integers in the
  range of \<open>int32_t\<close>; where the code goes through \<open>size_t\<close> the conversions are written out.
\<close>

section \<open>The element buffer\<close>

definition slot_at :: "ft_array \<Rightarrow> nat \<Rightarrow> nat option" where
  "slot_at a i = (if i < length (a_element a) then a_element a ! i else None)"

text \<open>\<open>memmove\<close> and \<open>memcpy\<close> of whole slots; \<open>None\<close> when the range leaves the buffer.\<close>

definition move_slots :: "int \<Rightarrow> int \<Rightarrow> int \<Rightarrow> 'a list \<Rightarrow> 'a list option" where
  "move_slots dst src n xs =
     (if n = 0 then Some xs
      else if dst < 0 \<or> src < 0 \<or> n < 0 \<or> int (length xs) < dst + n \<or> int (length xs) < src + n then None
      else Some (take (nat dst) xs @ take (nat n) (drop (nat src) xs) @ drop (nat (dst + n)) xs))"

definition store_slots :: "int \<Rightarrow> 'a list \<Rightarrow> 'a list \<Rightarrow> 'a list option" where
  "store_slots dst vs xs =
     (if vs = [] then Some xs
      else if dst < 0 \<or> int (length xs) < dst + int (length vs) then None
      else Some (take (nat dst) xs @ vs @ drop (nat dst + length vs) xs))"

definition arr_of :: "addr \<Rightarrow> mem \<Rightarrow> ft_array outcome" where
  "arr_of p m = (case objs m p of
     Some ob \<Rightarrow> (case o_data ob of PArray a \<Rightarrow> Ok a | _ \<Rightarrow> UB) | None \<Rightarrow> UB)"

definition put_arr :: "addr \<Rightarrow> ft_array \<Rightarrow> mem \<Rightarrow> mem outcome" where
  "put_arr p a m = (case objs m p of
     Some ob \<Rightarrow> Ok (put_obj p (ob\<lparr>o_data := PArray a\<rparr>) m) | None \<Rightarrow> UB)"

definition put_slots :: "addr \<Rightarrow> nat option list option \<Rightarrow> mem \<Rightarrow> mem outcome" where
  "put_slots p ys m = (case ys of None \<Rightarrow> UB
     | Some es \<Rightarrow> obind (arr_of p m) (\<lambda>a. put_arr p (a\<lparr>a_element := es\<rparr>) m))"

section \<open>The operations\<close>

definition getArrayFeatureType :: "ftype \<Rightarrow> ftype" where
  "getArrayFeatureType et = Array et"

definition ARRAY_NEW_CAPACITY :: "nat \<Rightarrow> nat" where
  "ARRAY_NEW_CAPACITY n = n + 5"

definition FeatureCreateArray :: "nat \<Rightarrow> ftype \<Rightarrow> mem \<Rightarrow> (addr \<times> mem) outcome" where
  "FeatureCreateArray capacity et m =
     (let (p, m1) = FeatureInstanceAllocType (getArrayFeatureType et) m in
      obind (put_arr p \<lparr>a_size = 0, a_capacity = int capacity, a_element = replicate capacity (Some 0)\<rparr> m1)
        (\<lambda>m2. Ok (p, m2)))"

fun copy_strings :: "addr \<Rightarrow> int \<Rightarrow> string list \<Rightarrow> mem \<Rightarrow> mem outcome" where
  "copy_strings p i [] m = Ok m"
| "copy_strings p i (s # ss) m =
     (let (q, m1) = FeatureStrCopy s m in
      obind (arr_of p m1) (\<lambda>a.
      obind (put_slots p (store_slots i [Some q] (a_element a)) m1)
        (copy_strings p (i + 1) ss)))"

definition FeatureArrayCopyRaw :: "ftype \<Rightarrow> string list \<Rightarrow> mem \<Rightarrow> (addr \<times> mem) outcome" where
  "FeatureArrayCopyRaw et data m =
     (if et = Prim FT_STRING then
        obind (FeatureCreateArray (length data) et m) (\<lambda>(p, m1).
        obind (copy_strings p 0 data m1) (\<lambda>m2.
        obind (arr_of p m2) (\<lambda>a.
        obind (put_arr p (a\<lparr>a_size := int (length data)\<rparr>) m2) (\<lambda>m3. Ok (p, m3)))))
      else UB)"

fun dup_all :: "addr list \<Rightarrow> mem \<Rightarrow> mem outcome" where
  "dup_all [] m = Ok m"
| "dup_all (q # qs) m = obind (FeatureInstanceDupValue q m) (\<lambda>(_, m1). dup_all qs m1)"

definition FeatureArrayCopy :: "ftype \<Rightarrow> nat list \<Rightarrow> mem \<Rightarrow> (addr \<times> mem) outcome" where
  "FeatureArrayCopy et data m =
     obind (FeatureCreateArray (length data) et m) (\<lambda>(p, m1).
     obind (if FT_IS_REFERENCE et then dup_all data m1 else Ok m1) (\<lambda>m2.
     obind (put_arr p \<lparr>a_size = int (length data), a_capacity = int (length data), a_element = map Some data\<rparr> m2)
       (\<lambda>m3. Ok (p, m3))))"

definition getElementType :: "addr \<Rightarrow> mem \<Rightarrow> ftype outcome" where
  "getElementType p m = (case objs m p of
     Some ob \<Rightarrow> (case o_type ob of
        MEMORY_FEATURE_TYPE (Array et) \<Rightarrow> (if et = Prim FT_VOID then UB else Ok et) | _ \<Rightarrow> UB)
   | None \<Rightarrow> UB)"

definition FeatureArrayResize :: "addr \<Rightarrow> nat \<Rightarrow> mem \<Rightarrow> mem outcome" where
  "FeatureArrayResize p new_size m =
     obind (arr_of p m) (\<lambda>a.
       if int new_size \<le> a_capacity a then Ok m
       else obind (getElementType p m) (\<lambda>et.
         put_arr p (a\<lparr>a_capacity := int new_size,
           a_element := take new_size (a_element a) @ replicate (new_size - length (a_element a)) None\<rparr>) m))"

definition FeatureArrayGetLength :: "addr \<Rightarrow> mem \<Rightarrow> int outcome" where
  "FeatureArrayGetLength p m = obind (arr_of p m) (\<lambda>a. Ok (a_size a))"

definition FeatureArrayGetData :: "addr \<Rightarrow> int \<Rightarrow> mem \<Rightarrow> int option outcome" where
  "FeatureArrayGetData p start m =
     obind (arr_of p m) (\<lambda>a.
       if start < a_size a
       then obind (getElementType p m) (\<lambda>et. Ok (Some (start * int (getValueSize et))))
       else Ok None)"

definition FeatureArrayClear :: "nat \<Rightarrow> addr \<Rightarrow> mem \<Rightarrow> (int \<times> mem) outcome" where
  "FeatureArrayClear n p m =
     obind (arr_of p m) (\<lambda>a.
     obind (getElementType p m) (\<lambda>et.
     obind (if FT_IS_REFERENCE et
            then free_slots n (map (slot_at a) [0..<nat (a_size a)]) m else Ok m) (\<lambda>m1.
     obind (arr_of p m1) (\<lambda>a1.
     obind (put_arr p (a1\<lparr>a_size := 0\<rparr>) m1) (\<lambda>m2. Ok (a_size a, m2))))))"

text \<open>
  \<open>FeatureArrayRemove\<close>: \<open>std::min\<close> works on \<open>int\<close>, its result is kept as \<open>size_t\<close>, so the guard
  \<open>del_size <= 0\<close> only catches 0.
\<close>

definition FeatureArrayRemove :: "nat \<Rightarrow> addr \<Rightarrow> int \<Rightarrow> 64 word \<Rightarrow> mem \<Rightarrow> (int \<times> mem) outcome" where
  "FeatureArrayRemove n p start cnt m =
     obind (arr_of p m) (\<lambda>a.
     let room = sint (word_of_int (a_size a - start) :: 32 word);
         del_size = word_of_int (min (sint (ucast cnt :: 32 word)) room) :: 64 word;
         first = word_of_int start :: 64 word
     in if del_size = 0 then Ok (0, m)
        else
        obind (getElementType p m) (\<lambda>et.
        let left_count = word_of_int (a_size a - start) - del_size in
        obind (if FT_IS_REFERENCE et
               then free_slots n (map (slot_at a) [unat first..<unat (first + del_size)]) m
               else Ok m) (\<lambda>m1.
        obind (if left_count \<noteq> 0
               then put_slots p (move_slots start (sint (first + del_size)) (uint left_count) (a_element a)) m1
               else Ok m1) (\<lambda>m2.
        obind (arr_of p m2) (\<lambda>a2.
        obind (put_arr p (a2\<lparr>a_size := sint (ucast (word_of_int (a_size a) - del_size) :: 32 word)\<rparr>) m2)
          (\<lambda>m3. Ok (sint (ucast del_size :: 32 word), m3)))))))"

definition isFeatureTypeEqual :: "addr \<Rightarrow> ftype \<Rightarrow> mem \<Rightarrow> bool outcome" where
  "isFeatureTypeEqual p t m = (case objs m p of
     Some ob \<Rightarrow> (case o_type ob of MEMORY_FEATURE_TYPE t' \<Rightarrow> Ok (t' = t) | _ \<Rightarrow> Ok False)
   | None \<Rightarrow> UB)"

definition value_bits :: "addr \<Rightarrow> mem \<Rightarrow> nat option" where
  "value_bits p m = (case objs m p of
     Some ob \<Rightarrow> (case o_data ob of PRaw w \<Rightarrow> Some (unat w) | _ \<Rightarrow> None) | None \<Rightarrow> None)"

definition FeatureArrayAppend :: "addr \<Rightarrow> addr \<Rightarrow> mem \<Rightarrow> (addr \<times> mem) outcome" where
  "FeatureArrayAppend p data m =
     obind (getElementType p m) (\<lambda>et.
     obind (isFeatureTypeEqual data et m) (\<lambda>eq.
     if \<not> eq then Ok (0, m)
     else
     obind (arr_of p m) (\<lambda>a.
     obind (if a_size a + 1 > a_capacity a
            then FeatureArrayResize p (ARRAY_NEW_CAPACITY (nat (a_size a))) m else Ok m) (\<lambda>m1.
     obind (if FT_IS_REFERENCE et
            then obind (FeatureInstanceDupValue data m1) (\<lambda>(_, m2). Ok (Some data, m2))
            else Ok (value_bits data m1, m1)) (\<lambda>(v, m2).
     obind (arr_of p m2) (\<lambda>a2.
     obind (put_slots p (store_slots (a_size a2) [v] (a_element a2)) m2) (\<lambda>m3.
     obind (arr_of p m3) (\<lambda>a3.
     obind (put_arr p (a3\<lparr>a_size := a_size a3 + 1\<rparr>) m3) (\<lambda>m4. Ok (p, m4))))))))))"

definition FeatureArrayAppendRaw :: "nat \<Rightarrow> addr \<Rightarrow> string \<Rightarrow> mem \<Rightarrow> (addr \<times> mem) outcome" where
  "FeatureArrayAppendRaw n p str m =
     obind (getElementType p m) (\<lambda>et.
     if et = Prim FT_STRING then
       (let (q, m1) = FeatureStrCopy str m in
        obind (FeatureArrayAppend p q m1) (\<lambda>(ret, m2).
        obind (FeatureFreeValue n q m2) (\<lambda>m3. Ok (ret, m3))))
     else Ok (0, m))"

text \<open>
  \<open>data\<close> is a buffer of slots, each with its own address and its contents: the loop over a
  reference type counts up the slot addresses, not the objects the slots lead to.
\<close>

definition FeatureArrayInsertAfter :: "addr \<Rightarrow> int \<Rightarrow> (addr \<times> nat) list \<Rightarrow> mem \<Rightarrow> (int \<times> mem) outcome" where
  "FeatureArrayInsertAfter p start data m =
     obind (arr_of p m) (\<lambda>a.
     if start \<ge> a_size a then Ok (0, m)
     else
     let cnt = length data in
     obind (if a_size a + int cnt > a_capacity a
            then FeatureArrayResize p (ARRAY_NEW_CAPACITY (nat (a_size a) + cnt)) m else Ok m) (\<lambda>m1.
     obind (getElementType p m1) (\<lambda>et.
     obind (if FT_IS_REFERENCE et then dup_all (map fst data) m1 else Ok m1) (\<lambda>m2.
     obind (arr_of p m2) (\<lambda>a2.
     obind (if start = a_size a2 - 1
            then put_slots p (store_slots (a_size a2) (map (Some \<circ> snd) data) (a_element a2)) m2
            else
              obind (put_slots p (move_slots (start + int cnt + 1) (start + 1) (a_size a2 - start - 1)
                (a_element a2)) m2) (\<lambda>m3.
              obind (arr_of p m3) (\<lambda>a3.
              put_slots p (store_slots (start + 1) (map (Some \<circ> snd) data) (a_element a3)) m3))) (\<lambda>m4.
     obind (arr_of p m4) (\<lambda>a4.
     obind (put_arr p (a4\<lparr>a_size := a_size a4 + int cnt\<rparr>) m4) (\<lambda>m5. Ok (int cnt, m5)))))))))"

fun insert_strings :: "nat \<Rightarrow> addr \<Rightarrow> int \<Rightarrow> string list \<Rightarrow> mem \<Rightarrow> mem outcome" where
  "insert_strings n p i [] m = Ok m"
| "insert_strings n p i (s # ss) m =
     (let (q, m1) = FeatureStrCopy s m in
      obind (arr_of p m1) (\<lambda>a.
      obind (put_slots p (store_slots i [Some q] (a_element a)) m1) (\<lambda>m2.
      obind (FeatureInstanceDupValue q m2) (\<lambda>(_, m3).
      obind (FeatureFreeValue n q m3) (insert_strings n p (i + 1) ss)))))"

definition FeatureArrayInsertRawAfter :: "nat \<Rightarrow> addr \<Rightarrow> int \<Rightarrow> string list \<Rightarrow> mem \<Rightarrow> (int \<times> mem) outcome" where
  "FeatureArrayInsertRawAfter n p start data m =
     obind (arr_of p m) (\<lambda>a.
     if start \<ge> a_size a then Ok (0, m)
     else
     let cnt = length data in
     obind (if a_size a + int cnt > a_capacity a
            then FeatureArrayResize p (ARRAY_NEW_CAPACITY (nat (a_size a) + cnt)) m else Ok m) (\<lambda>m1.
     obind (getElementType p m1) (\<lambda>et.
     if et = Prim FT_STRING then
       obind (FeatureArrayResize p (ARRAY_NEW_CAPACITY (nat (a_size a) + cnt)) m1) (\<lambda>m2.
       obind (arr_of p m2) (\<lambda>a2.
       obind (put_slots p (move_slots (start + int cnt + 1) (start + 1) (a_size a2 - start - 1)
         (a_element a2)) m2) (\<lambda>m3.
       obind (insert_strings n p (start + 1) data m3) (\<lambda>m4.
       obind (arr_of p m4) (\<lambda>a4.
       obind (put_arr p (a4\<lparr>a_size := a_size a4 + int cnt\<rparr>) m4) (\<lambda>m5. Ok (int cnt, m5)))))))
     else Ok (0, m1))))"

definition FeatureArrayInsertBefore :: "addr \<Rightarrow> int \<Rightarrow> (addr \<times> nat) list \<Rightarrow> mem \<Rightarrow> (int \<times> mem) outcome" where
  "FeatureArrayInsertBefore p start data m =
     (if start < 0 then Ok (0, m) else FeatureArrayInsertAfter p (start - 1) data m)"

definition FeatureArrayInsertRawBefore :: "nat \<Rightarrow> addr \<Rightarrow> int \<Rightarrow> string list \<Rightarrow> mem \<Rightarrow> (int \<times> mem) outcome" where
  "FeatureArrayInsertRawBefore n p start data m =
     (if start < 0 then Ok (0, m) else FeatureArrayInsertRawAfter n p (start - 1) data m)"

section \<open>An array is a list\<close>

text \<open>\<open>arr_rep m p et xs\<close>: the object at \<open>p\<close> is an array of \<open>et\<close> with the contents \<open>xs\<close>.\<close>

definition arr_rep :: "mem \<Rightarrow> addr \<Rightarrow> ftype \<Rightarrow> nat list \<Rightarrow> bool" where
  "arr_rep m p et xs \<longleftrightarrow> et \<noteq> Prim FT_VOID \<and>
     (case objs m p of
        Some ob \<Rightarrow> o_type ob = MEMORY_FEATURE_TYPE (Array et) \<and>
          (case o_data ob of
             PArray a \<Rightarrow> a_size a = int (length xs) \<and> a_capacity a = int (length (a_element a)) \<and>
               take (length xs) (a_element a) = map Some xs
           | _ \<Rightarrow> False)
      | None \<Rightarrow> False)"

lemma arr_repE:
  assumes "arr_rep m p et xs"
  obtains ob a where "objs m p = Some ob" "o_type ob = MEMORY_FEATURE_TYPE (Array et)" "o_data ob = PArray a"
    "a_size a = int (length xs)" "a_capacity a = int (length (a_element a))"
    "take (length xs) (a_element a) = map Some xs" "length xs \<le> length (a_element a)" "et \<noteq> Prim FT_VOID"
    "arr_of p m = Ok a" "getElementType p m = Ok et"
proof -
  obtain ob a where o: "objs m p = Some ob" "o_type ob = MEMORY_FEATURE_TYPE (Array et)" "o_data ob = PArray a"
    "a_size a = int (length xs)" "a_capacity a = int (length (a_element a))"
    "take (length xs) (a_element a) = map Some xs" "et \<noteq> Prim FT_VOID"
    using assms by (auto simp: arr_rep_def split: option.splits payload.splits)
  have "length (take (length xs) (a_element a)) = length xs" using o(6) by simp
  then have "length xs \<le> length (a_element a)" by simp
  then show ?thesis using that [OF o(1-6) _ o(7)] o by (simp add: arr_of_def getElementType_def)
qed

lemma arr_rep_objE:
  assumes "arr_rep m p et xs" "objs m p = Some ob"
  obtains a where "o_type ob = MEMORY_FEATURE_TYPE (Array et)" "o_data ob = PArray a"
    "a_size a = int (length xs)" "a_capacity a = int (length (a_element a))"
    "take (length xs) (a_element a) = map Some xs" "length xs \<le> length (a_element a)" "et \<noteq> Prim FT_VOID"
    "arr_of p m = Ok a" "getElementType p m = Ok et"
proof (rule arr_repE [OF assms(1)])
  fix ob' a
  assume "objs m p = Some ob'" "o_type ob' = MEMORY_FEATURE_TYPE (Array et)" "o_data ob' = PArray a"
    "a_size a = int (length xs)" "a_capacity a = int (length (a_element a))"
    "take (length xs) (a_element a) = map Some xs" "length xs \<le> length (a_element a)" "et \<noteq> Prim FT_VOID"
    "arr_of p m = Ok a" "getElementType p m = Ok et"
  then show thesis using that assms(2) by simp
qed

lemma arr_repI:
  "objs m p = Some ob \<Longrightarrow> o_type ob = MEMORY_FEATURE_TYPE (Array et) \<Longrightarrow> o_data ob = PArray a \<Longrightarrow>
   a_size a = int (length xs) \<Longrightarrow> a_capacity a = int (length (a_element a)) \<Longrightarrow>
   take (length xs) (a_element a) = map Some xs \<Longrightarrow> et \<noteq> Prim FT_VOID \<Longrightarrow> arr_rep m p et xs"
  by (simp add: arr_rep_def)

lemma arr_rep_cong:
  "objs m' p = Some ob' \<Longrightarrow> objs m p = Some ob \<Longrightarrow> o_type ob' = o_type ob \<Longrightarrow> o_data ob' = o_data ob \<Longrightarrow>
   arr_rep m' p et xs = arr_rep m p et xs"
  by (simp add: arr_rep_def)

lemma arr_owned:
  assumes "o_type ob = MEMORY_FEATURE_TYPE (Array et)" "o_data ob = PArray a" "FT_NEED_FREE et"
    "a_size a = int (length xs)" "take (length xs) (a_element a) = map Some xs"
  shows "owned_slots ob = Some (map Some xs)"
proof -
  have "length (take (length xs) (a_element a)) = length xs" using assms(5) by simp
  then have "length xs \<le> length (a_element a)" by simp
  then show ?thesis using assms by (simp add: owned_slots.simps)
qed

lemma ptrs_map_Some: "ptrs (map Some xs) = filter (\<lambda>x. x \<noteq> 0) xs"
  by (induction xs) (auto simp: ptrs_def)

text \<open>Replacing the contents of a live array, with the references accounted for.\<close>

lemma array_update:
  assumes ok: "counts_ok {} {} R m" and ty: "typed m" and ob: "objs m p = Some ob"
    and rep: "arr_rep m p et xs" and nf: "FT_NEED_FREE et"
    and ob': "o_type ob' = o_type ob" "o_ref_count ob' = o_ref_count ob" "arr_rep (put_obj p ob' m) p et xs'"
    and R': "mset (filter (\<lambda>x. x \<noteq> 0) xs') + R' = mset (filter (\<lambda>x. x \<noteq> 0) xs) + R"
    and slots: "\<forall>x\<in>set xs'. slot_typed m (Some x) et"
  shows "counts_ok {} {} R' (put_obj p ob' m)" "typed (put_obj p ob' m)"
proof -
  obtain a where a: "owned_slots ob = Some (map Some xs)"
    using arr_repE [OF rep] arr_owned [OF _ _ nf] ob by (metis option.inject)
  obtain b a' where "objs (put_obj p ob' m) p = Some b" "owned_slots b = Some (map Some xs')"
    using arr_repE [OF ob'(3)] arr_owned [OF _ _ nf] by metis
  then have a': "owned_slots ob' = Some (map Some xs')" by simp
  have tp: "o_type ob = MEMORY_FEATURE_TYPE (Array et)" using arr_repE [OF rep] ob by (metis option.inject)
  have "counts_ok {} {p} (mset (ptrs (map Some xs')) + R') m"
    using counts_ok_borrow [OF ok ob _ a] R' by (simp add: ptrs_map_Some)
  then show c: "counts_ok {} {} R' (put_obj p ob' m)"
    by (rule counts_ok_give_back [OF _ ob _ a']) (use ob' in auto)
  show "typed (put_obj p ob' m)"
  proof (rule typedI [OF _ _ c])
    show "\<exists>b0. objs m q = Some b0 \<and> o_type b0 = o_type b" if "objs (put_obj p ob' m) q = Some b" for q b
      using that ob ob' by (cases "q = p") auto
    show "list_all2 (slot_typed m) ss (slot_types (o_type b) (length ss))"
      if b: "objs (put_obj p ob' m) q = Some b" and ss: "owned_slots b = Some ss" for q b ss
    proof (cases "q = p")
      case True
      then have "b = ob'" "ss = map Some xs'" using b ss a' by auto
      then show ?thesis using ob'(1) tp slots by (simp add: list_all2_conv_all_nth)
    next
      case False
      then show ?thesis using ty b ss by (simp add: typed_def)
    qed
  qed
qed

lemma arr_rep_typed:
  assumes "typed m" "arr_rep m p et xs" "FT_NEED_FREE et"
  shows "\<forall>x\<in>set xs. slot_typed m (Some x) et"
proof -
  obtain ob where ob: "objs m p = Some ob" "o_type ob = MEMORY_FEATURE_TYPE (Array et)"
    "owned_slots ob = Some (map Some xs)"
    using arr_repE [OF assms(2)] arr_owned [OF _ _ assms(3)] by metis
  then have "list_all2 (slot_typed m) (map Some xs) (replicate (length xs) et)"
    using assms(1) unfolding typed_def by fastforce
  then show ?thesis by (auto simp: list_all2_conv_all_nth in_set_conv_nth)
qed

section \<open>Growth and append\<close>

lemma put_obj_id: "objs m p = Some ob \<Longrightarrow> put_obj p ob m = m"
  by (cases m) (simp add: put_obj_def map_upd_triv)

lemma put_obj_twice [simp]: "put_obj p b (put_obj p b' m) = put_obj p b m"
  by (simp add: put_obj_def)

lemma arr_of_put [simp]: "o_data ob = PArray a \<Longrightarrow> arr_of p (put_obj p ob m) = Ok a"
  by (simp add: arr_of_def)

lemma put_arr_put [simp]: "put_arr p a (put_obj p ob m) = Ok (put_obj p (ob\<lparr>o_data := PArray a\<rparr>) m)"
  by (simp add: put_arr_def)

lemma put_slots_put [simp]:
  "o_data ob = PArray a \<Longrightarrow>
   put_slots p (Some es) (put_obj p ob m) = Ok (put_obj p (ob\<lparr>o_data := PArray (a\<lparr>a_element := es\<rparr>)\<rparr>) m)"
  by (simp add: put_slots_def)

text \<open>The array object with other contents; \<open>es\<close> is the whole buffer.\<close>

abbreviation arr_obj :: "obj \<Rightarrow> nat \<Rightarrow> nat option list \<Rightarrow> obj" where
  "arr_obj ob n es \<equiv> ob\<lparr>o_data := PArray \<lparr>a_size = int n, a_capacity = int (length es), a_element = es\<rparr>\<rparr>"

lemma arr_rep_obj:
  assumes "o_type ob = MEMORY_FEATURE_TYPE (Array et)" "et \<noteq> Prim FT_VOID" "n = length xs"
    "take n es = map Some xs"
  shows "arr_rep (put_obj p (arr_obj ob n es) m) p et xs"
  using assms by (simp add: arr_rep_def)

lemma arr_rep_is_obj:
  assumes "arr_rep m p et xs" "objs m p = Some ob"
  obtains es where "m = put_obj p (arr_obj ob (length xs) es) m" "ob = arr_obj ob (length xs) es"
    "take (length xs) es = map Some xs" "length xs \<le> length es"
proof -
  obtain a where a: "o_data ob = PArray a" "a_size a = int (length xs)" "a_capacity a = int (length (a_element a))"
    "take (length xs) (a_element a) = map Some xs" "length xs \<le> length (a_element a)"
    using arr_repE [OF assms(1)] assms(2) by (metis option.inject)
  have "a = \<lparr>a_size = int (length xs), a_capacity = int (length (a_element a)), a_element = a_element a\<rparr>"
    using a(2,3) by (cases a) simp
  then have "ob = arr_obj ob (length xs) (a_element a)" using a(1) by (cases ob) simp
  then show ?thesis using that [of "a_element a"] a(4,5) put_obj_id [OF assms(2)] by metis
qed

lemma Resize_rep:
  assumes rep: "arr_rep m p et xs" and ob: "objs m p = Some ob"
  shows "\<exists>es. FeatureArrayResize p n m = Ok (put_obj p (arr_obj ob (length xs) es) m) \<and>
     take (length xs) es = map Some xs \<and> n \<le> length es \<and> length xs \<le> length es"
proof -
  obtain es where es: "m = put_obj p (arr_obj ob (length xs) es) m" "ob = arr_obj ob (length xs) es"
    "take (length xs) es = map Some xs" "length xs \<le> length es"
    using arr_rep_is_obj [OF rep ob] .
  obtain a where a: "arr_of p m = Ok a" "getElementType p m = Ok et" "o_data ob = PArray a"
    using arr_repE [OF rep] ob by (metis option.inject)
  have ae: "a = \<lparr>a_size = int (length xs), a_capacity = int (length es), a_element = es\<rparr>"
    using a(3) es(2) by (metis obj.select_convs(3) obj.surjective obj.update_convs(3) payload.inject(3))
  show ?thesis
  proof (cases "n \<le> length es")
    case True
    then have "FeatureArrayResize p n m = Ok m" using a ae by (simp add: FeatureArrayResize_def)
    then show ?thesis using es True by (intro exI [of _ es]) metis
  next
    case False
    let ?es = "es @ replicate (n - length es) None"
    have "FeatureArrayResize p n m = Ok (put_obj p (arr_obj ob (length xs) ?es) m)"
      using a ae False ob by (simp add: FeatureArrayResize_def put_arr_def)
    then show ?thesis using es False by (intro exI [of _ ?es]) simp
  qed
qed

lemma Append_rep:
  assumes rep: "arr_rep m p et xs" and ob: "objs m p = Some ob"
    and d: "objs m data = Some d" "o_type d = MEMORY_FEATURE_TYPE et" and ref: "FT_IS_REFERENCE et"
    and ne: "data \<noteq> p"
  shows "\<exists>es. FeatureArrayAppend p data m =
      Ok (p, put_obj p (arr_obj ob (Suc (length xs)) es) (put_obj data (d\<lparr>o_ref_count := o_ref_count d + 1\<rparr>) m)) \<and>
     take (Suc (length xs)) es = map Some (xs @ [data])"
proof -
  let ?d = "d\<lparr>o_ref_count := o_ref_count d + 1\<rparr>"
  obtain a where a: "arr_of p m = Ok a" "getElementType p m = Ok et" "o_data ob = PArray a"
    "a_size a = int (length xs)" "a_capacity a = int (length (a_element a))"
    using arr_repE [OF rep] ob by (metis option.inject)
  have eq: "isFeatureTypeEqual data et m = Ok True" using d by (simp add: isFeatureTypeEqual_def)
  have "\<exists>es. (if a_size a + 1 > a_capacity a
        then FeatureArrayResize p (ARRAY_NEW_CAPACITY (nat (a_size a))) m else Ok m) =
       Ok (put_obj p (arr_obj ob (length xs) es) m) \<and>
      take (length xs) es = map Some xs \<and> length xs < length es"
  proof (cases "a_size a + 1 > a_capacity a")
    case True
    obtain es where "FeatureArrayResize p (ARRAY_NEW_CAPACITY (length xs)) m = Ok (put_obj p (arr_obj ob (length xs) es) m)"
      "take (length xs) es = map Some xs" "ARRAY_NEW_CAPACITY (length xs) \<le> length es"
      using Resize_rep [OF rep ob] by blast
    then show ?thesis using True a(4) by (intro exI [of _ es]) (simp add: ARRAY_NEW_CAPACITY_def)
  next
    case False
    obtain es where es: "m = put_obj p (arr_obj ob (length xs) es) m" "ob = arr_obj ob (length xs) es"
      "take (length xs) es = map Some xs"
      using arr_rep_is_obj [OF rep ob] .
    have "PArray a = PArray \<lparr>a_size = int (length xs), a_capacity = int (length es), a_element = es\<rparr>"
      using a(3) es(2) by (metis obj.select_convs(3) obj.surjective obj.update_convs(3))
    then have "length xs < length es" using False a(4,5) by auto
    then show ?thesis using False es by (intro exI [of _ es]) metis
  qed
  then obtain es where r: "(if a_size a + 1 > a_capacity a
        then FeatureArrayResize p (ARRAY_NEW_CAPACITY (nat (a_size a))) m else Ok m) =
       Ok (put_obj p (arr_obj ob (length xs) es) m)"
    and es: "take (length xs) es = map Some xs" "length xs < length es" by blast
  let ?m1 = "put_obj p (arr_obj ob (length xs) es) m"
  have dup: "FeatureInstanceDupValue data ?m1 = Ok (data, put_obj p (arr_obj ob (length xs) es) (put_obj data ?d m))"
    using d ne by (simp add: FeatureInstanceDupValue_def put_obj_def fun_upd_twist)
  let ?es = "take (length xs) es @ [Some data] @ drop (Suc (length xs)) es"
  have st: "store_slots (int (length xs)) [Some data] es = Some ?es" and l: "length ?es = length es"
    using es(2) by (simp_all add: store_slots_def)
  have "FeatureArrayAppend p data m =
      Ok (p, put_obj p (arr_obj ob (Suc (length xs)) ?es) (put_obj data ?d m))"
    unfolding FeatureArrayAppend_def a(1,2) obind.simps eq if_True not_True_eq_False if_False r
    using ref dup st l by (simp add: add.commute)
  then show ?thesis using es by (intro exI [of _ ?es]) simp
qed

lemma arr_rep_need:
  assumes "objs m p = Some ob" "o_type ob = MEMORY_FEATURE_TYPE (Array et)"
    "objs m q = Some d" "o_type d = MEMORY_FEATURE_TYPE et"
  shows "q \<noteq> p"
proof
  assume "q = p"
  then have "Array et = et" using assms by simp
  then have "size (Array et) = size et" by simp
  then show False by simp
qed

lemma FT_NEED_FREE_REFERENCE: "FT_NEED_FREE t \<Longrightarrow> FT_IS_REFERENCE t"
  by (simp add: FT_NEED_FREE_iff FT_IS_REFERENCE_iff split: ftype.splits)

text \<open>The objects other than those in \<open>S\<close> are untouched.\<close>

definition untouched :: "addr set \<Rightarrow> mem \<Rightarrow> mem \<Rightarrow> bool" where
  "untouched S m m' \<longleftrightarrow> (\<forall>q. q \<notin> S \<longrightarrow> objs m' q = objs m q)"

lemma array_append_ok:
  assumes ok: "counts_ok {} {} R m" and ty: "typed m" and rep: "arr_rep m p et xs" and nf: "FT_NEED_FREE et"
    and d: "objs m data = Some d" "o_type d = MEMORY_FEATURE_TYPE et" and room: "o_ref_count d + 1 \<noteq> 0"
  shows "\<exists>m'. FeatureArrayAppend p data m = Ok (p, m') \<and> arr_rep m' p et (xs @ [data]) \<and>
     counts_ok {} {} R m' \<and> typed m' \<and> untouched {p, data} m m' \<and> brk m' = brk m \<and>
     objs m' data = Some (d\<lparr>o_ref_count := o_ref_count d + 1\<rparr>)"
proof -
  obtain ob a where ob: "objs m p = Some ob" "o_type ob = MEMORY_FEATURE_TYPE (Array et)" "et \<noteq> Prim FT_VOID"
    using arr_repE [OF rep] by metis
  have ne: "data \<noteq> p" by (rule arr_rep_need [OF ob(1,2) d])
  let ?m1 = "put_obj data (d\<lparr>o_ref_count := o_ref_count d + 1\<rparr>) m"
  obtain es where ap: "FeatureArrayAppend p data m = Ok (p, put_obj p (arr_obj ob (Suc (length xs)) es) ?m1)"
    and es: "take (Suc (length xs)) es = map Some (xs @ [data])"
    using Append_rep [OF rep ob(1) d FT_NEED_FREE_REFERENCE [OF nf] ne] by blast
  let ?ob = "arr_obj ob (Suc (length xs)) es"
  have ok1: "counts_ok {} {} (add_mset data R) ?m1" and ty1: "typed ?m1" and d0: "data \<noteq> 0"
    using InstanceDupValue_ok [OF ok ty d(1) room] d counts_okD(1) [of "{}" "{}" "add_mset data R" ?m1 data]
    by (auto simp: FeatureInstanceDupValue_def)
  have ob1: "objs ?m1 p = Some ob" using ob ne by simp
  have rep1: "arr_rep ?m1 p et xs" using rep arr_rep_cong [OF ob1 ob(1)] by simp
  have rep2: "arr_rep (put_obj p ?ob ?m1) p et (xs @ [data])"
    by (rule arr_rep_obj) (use ob es in auto)
  have sl: "\<forall>x\<in>set (xs @ [data]). slot_typed ?m1 (Some x) et"
    using arr_rep_typed [OF ty1 rep1 nf] d by simp
  have "counts_ok {} {} R (put_obj p ?ob ?m1)" "typed (put_obj p ?ob ?m1)"
    using array_update [OF ok1 ty1 ob1 rep1 nf _ _ rep2 _ sl, of R] d0 by simp_all
  then show ?thesis using ap rep2 by (intro exI [of _ "put_obj p ?ob ?m1"]) (simp add: untouched_def ne)
qed

abbreviation str_obj :: "string \<Rightarrow> obj" where
  "str_obj s \<equiv> \<lparr>o_ref_count = 1, o_type = MEMORY_FEATURE_TYPE (Prim FT_STRING), o_data = PStr s\<rparr>"

lemma array_append_raw_ok:
  assumes ok: "counts_ok {} {} R m" and ty: "typed m" and fr: "fresh m"
    and rep: "arr_rep m p (Prim FT_STRING) xs"
  shows "\<exists>q m'. FeatureArrayAppendRaw (Suc n) p s m = Ok (p, m') \<and> arr_rep m' p (Prim FT_STRING) (xs @ [q]) \<and>
     objs m q = None \<and> objs m' q = Some (str_obj s) \<and>
     counts_ok {} {} R m' \<and> typed m' \<and> untouched {p, q} m m' \<and> q = Suc (brk m) \<and> brk m' = q"
proof -
  obtain ob where ob: "objs m p = Some ob" and et: "getElementType p m = Ok (Prim FT_STRING)"
    using arr_repE [OF rep] by metis
  obtain q m1 where m1: "FeatureStrCopy s m = (q, m1)" "q = Suc (brk m)" "fresh m1"
    "counts_ok {} {} (add_mset q R) m1" "typed m1" "objs m1 = (objs m)(q \<mapsto> str_obj s)" "brk m1 = q"
    using FeatureStrCopy_ok [OF ok ty fr, of s] by blast
  have q: "objs m q = None" using fr m1(2) by (simp add: fresh_def)
  then have "q \<noteq> p" using ob by auto
  then have rep1: "arr_rep m1 p (Prim FT_STRING) xs"
    using rep arr_rep_cong [of m1 p ob m ob] ob m1(6) by simp
  have nf: "FT_NEED_FREE (Prim FT_STRING)" by (simp add: FT_NEED_FREE_iff)
  obtain m2 where m2: "FeatureArrayAppend p q m1 = Ok (p, m2)" "arr_rep m2 p (Prim FT_STRING) (xs @ [q])"
    "counts_ok {} {} (add_mset q R) m2" "typed m2" "untouched {p, q} m1 m2"
    "objs m2 q = Some ((str_obj s)\<lparr>o_ref_count := 2\<rparr>)" "brk m2 = brk m1"
    using array_append_ok [OF m1(4,5) rep1 nf, of q "str_obj s"] m1(6) by auto
  let ?m3 = "put_obj q (str_obj s) m2"
  have q0: "q \<noteq> 0" using m1(2) by simp
  have fv: "FeatureFreeValue (Suc n) q m2 = Ok ?m3" using m2(6) q0 by simp
  have c: "counts_ok {} {} R ?m3" using counts_ok_lower [OF m2(3,6)] by simp
  have t: "typed ?m3" using typed_recount [OF m2(4,6), of 1] by simp
  obtain ob2 where ob2: "objs m2 p = Some ob2" using arr_repE [OF m2(2)] by metis
  have r: "arr_rep ?m3 p (Prim FT_STRING) (xs @ [q])"
    using m2(2) arr_rep_cong [of ?m3 p ob2 m2 ob2] ob2 \<open>q \<noteq> p\<close> by simp
  have "FeatureArrayAppendRaw (Suc n) p s m = Ok (p, ?m3)"
    by (simp add: FeatureArrayAppendRaw_def et m1(1) m2(1) fv del: FeatureFreeValue.simps)
  then show ?thesis using c t r q m2(5,7) m1(2,6,7)
    by (intro exI [of _ q] exI [of _ ?m3]) (auto simp: untouched_def)
qed

section \<open>Clearing and removing\<close>

text \<open>
  A live array whose slots are open gives some of its references back: the releases cannot
  reach the array itself, because the caller still holds it.
\<close>

definition closes :: "addr multiset \<Rightarrow> mem \<Rightarrow> addr \<Rightarrow> obj \<Rightarrow> ftype \<Rightarrow> nat list \<Rightarrow> bool" where
  "closes R m p ob et zs \<longleftrightarrow>
     (\<forall>ob'. o_type ob' = o_type ob \<longrightarrow> o_ref_count ob' = o_ref_count ob \<longrightarrow>
        arr_rep (put_obj p ob' m) p et zs \<longrightarrow>
        counts_ok {} {} R (put_obj p ob' m) \<and> typed (put_obj p ob' m))"

lemma slot_typed_rank:
  assumes "slot_typed m (Some q) t" "q \<noteq> 0"
  shows "rank_of m q \<le> Suc (size t)"
proof -
  obtain ob where "objs m q = Some ob" using assms by (auto split: option.splits)
  then show ?thesis using assms by (cases "o_type ob") (simp_all add: rank_of_def)
qed

lemma array_release:
  assumes ok: "counts_ok {} {} R m" and ty: "typed m" and rep: "arr_rep m p et xs" and nf: "FT_NEED_FREE et"
    and held: "p \<in># R" and n: "Suc (size et) < n"
    and part: "mset ys + mset zs = mset xs"
  shows "\<exists>m1 ob1. free_slots n (map Some ys) m = Ok m1 \<and> objs m1 p = Some ob1 \<and> arr_rep m1 p et xs \<and>
     closes R m1 p ob1 et zs \<and> shrinks {} m m1"
proof -
  obtain ob where ob: "objs m p = Some ob" "o_type ob = MEMORY_FEATURE_TYPE (Array et)"
    and ow: "owned_slots ob = Some (map Some xs)"
    using arr_repE [OF rep] arr_owned [OF _ _ nf] by metis
  have mf: "mset (filter (\<lambda>x. x \<noteq> 0) ys) + mset (filter (\<lambda>x. x \<noteq> 0) zs) = mset (filter (\<lambda>x. x \<noteq> 0) xs)"
    using part by (metis filter_union_mset mset_filter)
  have b: "counts_ok {} {p} (mset (ptrs (map Some ys)) + (mset (ptrs (map Some zs)) + R)) m"
    using counts_ok_borrow [OF ok ob(1) _ ow] mf by (simp add: ptrs_map_Some add.assoc [symmetric])
  have sl: "\<forall>x\<in>set xs. slot_typed m (Some x) et" by (rule arr_rep_typed [OF ty rep nf])
  have "set xs = set ys \<union> set zs" using arg_cong [OF part, of set_mset] by simp
  then have sub: "set ys \<subseteq> set xs" "set zs \<subseteq> set xs" by auto
  have slz: "\<forall>x\<in>set zs. slot_typed m (Some x) et" using sl sub(2) by blast
  have rk: "\<forall>q\<in>set (ptrs (map Some ys)). rank_of m q < n"
  proof
    fix q assume "q \<in> set (ptrs (map Some ys))"
    then have "q \<in> set xs" "q \<noteq> 0" using sub by (auto simp: ptrs_map_Some)
    then show "rank_of m q < n" using slot_typed_rank [of m q et] sl n by fastforce
  qed
  have S: "{p} \<subseteq> set_mset (mset (ptrs (map Some zs)) + R)" using held by simp
  have step: "\<And>q R' m'. counts_ok {} {p} (add_mset q R') m' \<Longrightarrow> {p} \<subseteq> set_mset R' \<Longrightarrow>
      ranked (rank_of m) m' \<Longrightarrow> rank_of m q < n \<Longrightarrow>
      \<exists>m2. FeatureFreeValue n q m' = Ok m2 \<and> counts_ok {} {p} R' m2 \<and> shrinks {} m' m2"
    by (rule free_safe)
  have none: "None \<notin> set (map Some ys)" by auto
  obtain m1 where m1: "free_slots n (map Some ys) m = Ok m1"
    "counts_ok {} {p} (mset (ptrs (map Some zs)) + R) m1" "shrinks {} m m1"
    using free_slots_safe [OF step S b none typed_ranked [OF ty] rk] by blast
  obtain ob1 where ob1: "objs m1 p = Some ob1" using counts_okD(3) [OF m1(2), of p] held by auto
  then have same: "o_type ob1 = o_type ob" "o_data ob1 = o_data ob"
    using m1(3) ob(1) unfolding shrinks_def by (metis option.inject)+
  have rep1: "arr_rep m1 p et xs" using rep arr_rep_cong [OF ob1 ob(1) same] by simp
  have "counts_ok {} {} R (put_obj p ob' m1) \<and> typed (put_obj p ob' m1)"
    if ob': "o_type ob' = o_type ob1" "o_ref_count ob' = o_ref_count ob1" "arr_rep (put_obj p ob' m1) p et zs" for ob'
  proof -
    let ?m = "put_obj p ob' m1"
    obtain b a' where "objs ?m p = Some b" "owned_slots b = Some (map Some zs)"
      using arr_repE [OF ob'(3)] arr_owned [OF _ _ nf] by metis
    then have ow': "owned_slots ob' = Some (map Some zs)" by simp
    have c: "counts_ok {} {} R ?m"
      by (rule counts_ok_give_back [OF m1(2) ob1 _ ow']) (use ob' in auto)
    have "typed ?m"
    proof (rule typedI [OF _ _ c])
      show "\<exists>b0. objs m q = Some b0 \<and> o_type b0 = o_type c" if "objs ?m q = Some c" for q c
        using that ob ob' same m1(3) unfolding shrinks_def by (cases "q = p") (auto, metis)
      show "list_all2 (slot_typed m) ss (slot_types (o_type c) (length ss))"
        if c: "objs ?m q = Some c" and ss: "owned_slots c = Some ss" for q c ss
      proof (cases "q = p")
        case True
        then have "c = ob'" "ss = map Some zs" using c ss ow' by auto
        then show ?thesis using ob' same ob(2) slz by (simp add: list_all2_conv_all_nth)
      next
        case False
        then obtain c0 where c0: "objs m q = Some c0" "o_type c = o_type c0" "o_data c = o_data c0"
          using c m1(3) unfolding shrinks_def by auto
        then have "owned_slots c0 = Some ss" using ss owned_slots_cong [OF c0(2,3)] by simp
        then show ?thesis using ty c0 by (simp add: typed_def)
      qed
    qed
    with c show ?thesis by simp
  qed
  then have "closes R m1 p ob1 et zs" by (simp add: closes_def)
  then show ?thesis using m1 ob1 rep1 by blast
qed

lemma map_slot_at:
  assumes "take (length xs) (a_element a) = map Some xs" "j \<le> length xs"
  shows "map (slot_at a) [i..<j] = map Some (drop i (take j xs))"
proof -
  have "length (take (length xs) (a_element a)) = length xs" using assms(1) by simp
  then have l: "length xs \<le> length (a_element a)" by simp
  have s: "slot_at a k = Some (xs ! k)" if "k < length xs" for k
    using that l arg_cong [OF assms(1), of "\<lambda>ys. ys ! k"] by (simp add: slot_at_def)
  show ?thesis using assms(2) s by (intro nth_equalityI) auto
qed

text \<open>What clearing or shortening the array at \<open>p\<close> may do to the rest of the heap.\<close>

definition shrinks_but :: "addr \<Rightarrow> mem \<Rightarrow> mem \<Rightarrow> bool" where
  "shrinks_but p m m' \<longleftrightarrow> brk m' = brk m \<and> (objs m p = None \<longrightarrow> objs m' p = None) \<and>
     (\<forall>q ob'. q \<noteq> p \<longrightarrow> objs m' q = Some ob' \<longrightarrow>
        (\<exists>ob. objs m q = Some ob \<and> o_type ob' = o_type ob \<and> o_data ob' = o_data ob))"

lemma shrinks_but_refl: "shrinks_but p m m"
  by (simp add: shrinks_but_def)

lemma shrinks_but_put:
  "shrinks {} m m1 \<Longrightarrow> free_slots n ss m = Ok m1 \<Longrightarrow> objs m1 p = Some b \<Longrightarrow> shrinks_but p m (put_obj p ob m1)"
  using free_brk(2) [of n ss m m1] by (auto simp: shrinks_but_def shrinks_def)

lemma array_clear_ok:
  assumes ok: "counts_ok {} {} R m" and ty: "typed m" and rep: "arr_rep m p et xs" and nf: "FT_NEED_FREE et"
    and held: "p \<in># R" and n: "Suc (size et) < n"
  shows "\<exists>m'. FeatureArrayClear n p m = Ok (int (length xs), m') \<and> arr_rep m' p et [] \<and>
     counts_ok {} {} R m' \<and> typed m' \<and> shrinks_but p m m'"
proof -
  have part: "mset xs + mset [] = mset xs" by simp
  obtain m1 ob1 where m1: "free_slots n (map Some xs) m = Ok m1" "objs m1 p = Some ob1" "arr_rep m1 p et xs"
    "closes R m1 p ob1 et []" "shrinks {} m m1"
    using array_release [OF ok ty rep nf held n part] by blast
  obtain a where a: "arr_of p m = Ok a" "getElementType p m = Ok et" "a_size a = int (length xs)"
    "take (length xs) (a_element a) = map Some xs" "et \<noteq> Prim FT_VOID"
    using arr_repE [OF rep] by metis
  obtain a1 where a1: "arr_of p m1 = Ok a1" "o_data ob1 = PArray a1" "o_type ob1 = MEMORY_FEATURE_TYPE (Array et)"
    "a_capacity a1 = int (length (a_element a1))"
    using arr_rep_objE [OF m1(3,2)] .
  let ?ob = "ob1\<lparr>o_data := PArray (a1\<lparr>a_size := 0\<rparr>)\<rparr>"
  have sl: "map (slot_at a) [0..<nat (a_size a)] = map Some xs"
    using map_slot_at [OF a(4), of "length xs" 0] a(3) by simp
  have r: "arr_rep (put_obj p ?ob m1) p et []" using a1 a(5) by (simp add: arr_rep_def)
  have pa: "put_arr p (a1\<lparr>a_size := 0\<rparr>) m1 = Ok (put_obj p ?ob m1)"
    using m1(2) by (simp add: put_arr_def)
  have "FeatureArrayClear n p m = Ok (int (length xs), put_obj p ?ob m1)"
    unfolding FeatureArrayClear_def a(1,2) obind.simps sl
    using FT_NEED_FREE_REFERENCE [OF nf] m1(1) a1(1) a(3) pa by simp
  moreover have "counts_ok {} {} R (put_obj p ?ob m1) \<and> typed (put_obj p ?ob m1)"
    using m1(4) r by (simp add: closes_def)
  ultimately show ?thesis using r shrinks_but_put [OF m1(5,1,2)] by blast
qed

text \<open>The word arithmetic of \<open>FeatureArrayRemove\<close> inside the array.\<close>

lemma sint32_id: "- (2 ^ 31) \<le> i \<Longrightarrow> i < 2 ^ 31 \<Longrightarrow> sint (word_of_int i :: 32 word) = i"
  by (simp add: signed_take_bit_int_eq_self sint_sbintrunc')

lemma sint64_id: "- (2 ^ 63) \<le> i \<Longrightarrow> i < 2 ^ 63 \<Longrightarrow> sint (word_of_int i :: 64 word) = i"
  by (simp add: signed_take_bit_int_eq_self sint_sbintrunc')

lemma uint64_id: "0 \<le> i \<Longrightarrow> i < 2 ^ 64 \<Longrightarrow> uint (word_of_int i :: 64 word) = i"
  by (simp add: uint_word_of_int)

lemma ucast32_of_int: "ucast (word_of_int i :: 64 word) = (word_of_int i :: 32 word)"
  by (simp add: unsigned_of_int take_bit_word_eq_self word_of_int_eq_iff take_bit_take_bit)

lemma unat64_id: "n < 2 ^ 64 \<Longrightarrow> unat (word_of_int (int n) :: 64 word) = n"
  by (metis int_eq_iff of_nat_0_le_iff of_nat_less_numeral_power_cancel_iff uint64_id unat_eq_nat_uint)

lemma remove_words:
  assumes "s + d \<le> n" "int n < 2 ^ 31" "0 < d"
  shows "sint (word_of_int (int n - int s) :: 32 word) = int (n - s)"
    "(word_of_int (int d) :: 64 word) \<noteq> 0"
    "unat (word_of_int (int s) :: 64 word) = s"
    "unat (word_of_int (int s) + word_of_int (int d) :: 64 word) = s + d"
    "sint (word_of_int (int s) + word_of_int (int d) :: 64 word) = int (s + d)"
    "uint (word_of_int (int n - int s) - word_of_int (int d) :: 64 word) = int (n - s - d)"
    "sint (ucast (word_of_int (int n) - word_of_int (int d) :: 64 word) :: 32 word) = int (n - d)"
    "sint (ucast (word_of_int (int d) :: 64 word) :: 32 word) = int d"
proof -
  have n: "int s \<le> int n" "int d \<le> int n" "int s + int d \<le> int n" "int d > 0" "int s \<ge> 0" "int n < 2 ^ 31"
    using assms by linarith+
  have i: "int (n - s) = int n - int s" "int (n - s - d) = int n - int s - int d" "int (n - d) = int n - int d"
    using assms(1) by linarith+
  show "sint (word_of_int (int n - int s) :: 32 word) = int (n - s)"
    unfolding i by (rule sint32_id) (use n in linarith)+
  have "unat (word_of_int (int d) :: 64 word) = d" by (rule unat64_id) (use n in simp)
  then show "(word_of_int (int d) :: 64 word) \<noteq> 0" using assms(3) by (metis less_irrefl unat_0)
  show "unat (word_of_int (int s) :: 64 word) = s" by (rule unat64_id) (use n in simp)
  have fd: "word_of_int (int s) + word_of_int (int d) = (word_of_int (int (s + d)) :: 64 word)"
    by (simp add: wi_hom_add)
  show "unat (word_of_int (int s) + word_of_int (int d) :: 64 word) = s + d"
    unfolding fd by (rule unat64_id) (use n in simp)
  show "sint (word_of_int (int s) + word_of_int (int d) :: 64 word) = int (s + d)"
    unfolding fd by (rule sint64_id) (use n in simp_all)
  have l: "word_of_int (int n - int s) - word_of_int (int d) = (word_of_int (int n - int s - int d) :: 64 word)"
    by (simp add: wi_hom_sub)
  show "uint (word_of_int (int n - int s) - word_of_int (int d) :: 64 word) = int (n - s - d)"
    unfolding l i by (rule uint64_id) (use n in linarith, use n in simp)
  have k: "word_of_int (int n) - word_of_int (int d) = (word_of_int (int n - int d) :: 64 word)"
    by (simp add: wi_hom_sub)
  show "sint (ucast (word_of_int (int n) - word_of_int (int d) :: 64 word) :: 32 word) = int (n - d)"
    unfolding k i ucast32_of_int by (rule sint32_id) (use n in linarith)+
  show "sint (ucast (word_of_int (int d) :: 64 word) :: 32 word) = int d"
    unfolding ucast32_of_int by (rule sint32_id) (use n in linarith)+
qed

lemma sint_ucast32: "unat (c :: 64 word) < 2 ^ 31 \<Longrightarrow> sint (ucast c :: 32 word) = int (unat c)"
proof -
  assume c: "unat c < 2 ^ 31"
  then have c': "int (unat c) < 2 ^ 31" by (metis of_nat_less_numeral_power_cancel_iff)
  have "c = word_of_int (int (unat c))" by simp
  then have "(ucast c :: 32 word) = word_of_int (int (unat c))" by (metis ucast32_of_int)
  moreover have "sint (word_of_int (int (unat c)) :: 32 word) = int (unat c)"
    by (rule sint32_id) (use c c' in linarith)+
  ultimately show ?thesis by (simp only:)
qed

text \<open>Moving the tail down over the removed slots.\<close>

lemma move_tail:
  assumes es: "take (length xs) es = map Some xs" "length xs \<le> length es"
    and le: "start + del \<le> length xs" and left: "left = length xs - start - del"
  shows "\<exists>es'. (left \<noteq> 0 \<longrightarrow> move_slots (int start) (int (start + del)) (int left) es = Some es') \<and>
     (left = 0 \<longrightarrow> es' = es) \<and> length es' = length es \<and>
     take (length xs - del) es' = map Some (take start xs @ drop (start + del) xs)"
proof (cases "left = 0")
  case True
  then have "length xs - del = start" "drop (start + del) xs = []" using le left by auto
  moreover have "take start es = map Some (take start xs)"
    using arg_cong [OF es(1), of "take start"] le by (simp add: take_map)
  ultimately show ?thesis using True by (intro exI [of _ es]) simp
next
  case False
  let ?es = "take start es @ take left (drop (start + del) es) @ drop (start + left) es"
  have k: "length xs - del = start + left" using le left by simp
  have 1: "take start es = map Some (take start xs)"
    using arg_cong [OF es(1), of "take start"] le by (simp add: take_map)
  have "take left (drop (start + del) es) = drop (start + del) (take (length xs) es)"
    using le left by (simp add: drop_take)
  then have 2: "take left (drop (start + del) es) = map Some (drop (start + del) xs)"
    using es(1) by (simp add: drop_map)
  have ln: "length (take start es) = start" "length (take left (drop (start + del) es)) = left"
    using es(2) le left by auto
  have "move_slots (int start) (int (start + del)) (int left) es = Some ?es"
  proof -
    have "start + del + left \<le> length es" using es(2) le left by simp
    then show ?thesis using False by (simp add: move_slots_def nat_add_distrib flip: of_nat_add)
  qed
  moreover have "length ?es = length es" using es(2) le left by simp
  moreover have "take (start + left) ?es = map Some (take start xs @ drop (start + del) xs)"
    using ln 1 2 by simp
  ultimately show ?thesis using False k by (intro exI [of _ ?es]) simp
qed

lemma array_remove_ok:
  assumes ok: "counts_ok {} {} R m" and ty: "typed m" and rep: "arr_rep m p et xs" and nf: "FT_NEED_FREE et"
    and held: "p \<in># R" and n: "Suc (size et) < n"
    and len: "int (length xs) < 2 ^ 31" and start: "start < length xs" and cnt: "unat c < 2 ^ 31"
  defines "del \<equiv> min (unat c) (length xs - start)"
  shows "\<exists>m'. FeatureArrayRemove n p (int start) c m = Ok (int del, m') \<and>
     arr_rep m' p et (take start xs @ drop (start + del) xs) \<and> counts_ok {} {} R m' \<and> typed m' \<and>
     shrinks_but p m m'"
proof -
  let ?ys = "drop start (take (start + del) xs)" and ?zs = "take start xs @ drop (start + del) xs"
  have le: "start + del \<le> length xs" using start by (simp add: del_def)
  obtain a where a: "arr_of p m = Ok a" "getElementType p m = Ok et" "a_size a = int (length xs)"
    "take (length xs) (a_element a) = map Some xs" "et \<noteq> Prim FT_VOID" "length xs \<le> length (a_element a)"
    "a_capacity a = int (length (a_element a))"
    using arr_repE [OF rep] by metis
  note r1 = remove_words(1) [of start 1 "length xs"]
  have w1: "sint (word_of_int (int (length xs) - int start) :: 32 word) = int (length xs - start)"
    by (rule r1) (use start len in simp_all)
  note w2 = sint_ucast32 [OF cnt]
  have w: "word_of_int (min (sint (ucast c :: 32 word)) (sint (word_of_int (a_size a - int start) :: 32 word)))
      = (word_of_int (int del) :: 64 word)"
    unfolding a(3) w1 w2 by (simp add: del_def of_nat_min)
  show ?thesis
  proof (cases "del = 0")
    case True
    then show ?thesis using ok ty rep a(1) w
      by (simp add: FeatureArrayRemove_def Let_def shrinks_but_refl del: ucast_eq)
  next
    case False
    let ?f = "word_of_int (int start) :: 64 word" and ?d = "word_of_int (int del) :: 64 word"
    have d0: "0 < del" using False by simp
    note rw = remove_words [OF le len d0]
    have lz: "word_of_int (int (length xs) - int start) - ?d \<noteq> 0 \<longleftrightarrow> length xs - start - del \<noteq> 0"
      using rw(6) by (metis of_nat_eq_0_iff uint_0_iff)
    have sl: "map (slot_at a) [start..<start + del] = map Some ?ys" by (rule map_slot_at [OF a(4) le])
    have "take (start + del) xs = take start xs @ ?ys"
      by (metis append_take_drop_id le_add1 min.absorb1 take_take)
    then have "xs = take start xs @ ?ys @ drop (start + del) xs" by (metis append.assoc append_take_drop_id)
    then have part: "mset ?ys + mset ?zs = mset xs" by (metis add.left_commute mset_append)
    obtain m1 ob1 where m1: "free_slots n (map Some ?ys) m = Ok m1" "objs m1 p = Some ob1" "arr_rep m1 p et xs"
      "closes R m1 p ob1 et ?zs" "shrinks {} m m1"
      using array_release [OF ok ty rep nf held n part] by blast
    obtain ob where ob: "objs m p = Some ob" "o_data ob = PArray a" "o_type ob = MEMORY_FEATURE_TYPE (Array et)"
      using arr_repE [OF rep] a(1) by (metis outcome.inject)
    have ob1: "o_data ob1 = PArray a" "o_type ob1 = MEMORY_FEATURE_TYPE (Array et)"
      using m1(2,5) ob unfolding shrinks_def by (metis option.inject)+
    obtain es where es: "length xs - start - del \<noteq> 0 \<longrightarrow>
        move_slots (int start) (int (start + del)) (int (length xs - start - del)) (a_element a) = Some es"
      "length xs - start - del = 0 \<longrightarrow> es = a_element a" "length es = length (a_element a)"
      "take (length xs - del) es = map Some ?zs"
      using move_tail [OF a(4,6) le refl] by (elim exE conjE) (rule that)
    let ?m2 = "put_obj p (ob1\<lparr>o_data := PArray (a\<lparr>a_element := es\<rparr>)\<rparr>) m1"
    have mv: "(if word_of_int (a_size a - int start) - ?d \<noteq> 0
        then put_slots p (move_slots (int start) (sint (?f + ?d))
          (uint (word_of_int (a_size a - int start) - ?d)) (a_element a)) m1 else Ok m1) = Ok ?m2"
    proof (cases "length xs - start - del = 0")
      case True
      then have "es = a_element a" using es(2) by simp
      then have "ob1\<lparr>o_data := PArray (a\<lparr>a_element := es\<rparr>)\<rparr> = ob1" using ob1(1) by simp
      then show ?thesis using True lz a(3) put_obj_id [OF m1(2)] by simp
    next
      case False
      then show ?thesis using es(1) lz a(3) rw(5,6) m1(2) ob1(1)
        by (simp add: put_slots_def arr_of_def put_arr_def)
    qed
    let ?m3 = "put_obj p (ob1\<lparr>o_data := PArray (a\<lparr>a_element := es, a_size := int (length xs - del)\<rparr>)\<rparr>) m1"
    have "FeatureArrayRemove n p (int start) c m = Ok (int del, ?m3)"
      unfolding FeatureArrayRemove_def a(1) obind.simps Let_def w a(2)
      using rw(2-4,7,8) sl FT_NEED_FREE_REFERENCE [OF nf] m1(1) mv a(3)
      by (simp del: ucast_eq)
    moreover have "arr_rep ?m3 p et ?zs" using ob1 a(5,7) es(3,4) le by (simp add: arr_rep_def)
    moreover have "shrinks_but p m ?m3" by (rule shrinks_but_put [OF m1(5,1,2)])
    ultimately show ?thesis using m1(4) ob1 by (auto simp: closes_def)
  qed
qed

end
