(* ===== verification/HeapClient.thy ===== *)
theory HeapClient
  imports FeatureArrays
begin

text \<open>
  A client of the native heap: it copies strings, creates arrays of references, duplicates and
  releases what it holds, and appends to, clears and shortens the arrays it holds, through the
  entry points of \<open>src/feature_exports.cpp\<close>. \<open>client\<close> is the step relation of such a client on the
  references it holds and the heap; \<open>heap_ok\<close> is its invariant.
\<close>

section \<open>The invariant\<close>

definition arrays_ok :: "mem \<Rightarrow> bool" where
  "arrays_ok m \<longleftrightarrow> (\<forall>p ob et. objs m p = Some ob \<longrightarrow> o_type ob = MEMORY_FEATURE_TYPE (Array et) \<longrightarrow>
     FT_NEED_FREE et \<and> (\<exists>xs. arr_rep m p et xs))"

definition heap_ok :: "addr multiset \<Rightarrow> mem \<Rightarrow> bool" where
  "heap_ok R m \<longleftrightarrow> counts_ok {} {} R m \<and> typed m \<and> fresh m \<and> arrays_ok m"

definition empty_heap :: mem where
  "empty_heap = \<lparr>objs = (\<lambda>p. None), brk = 0\<rparr>"

lemma empty_heap_ok: "heap_ok {#} empty_heap"
  by (simp add: heap_ok_def empty_heap_def counts_ok_def held_def typed_def fresh_def arrays_ok_def)

lemma fresh_shrinks: "fresh m \<Longrightarrow> shrinks {} m m' \<Longrightarrow> brk m' = brk m \<Longrightarrow> fresh m'"
proof -
  assume a: "fresh m" "shrinks {} m m'" "brk m' = brk m"
  have "objs m' p = None" if "brk m < p" for p
  proof (cases "objs m' p")
    case (Some b)
    then obtain b0 where "objs m p = Some b0" using a(2) unfolding shrinks_def by blast
    then show ?thesis using a(1) that by (simp add: fresh_def)
  qed simp
  then show "fresh m'" using a(3) by (simp add: fresh_def)
qed

text \<open>Arrays stay well formed when every object either kept its contents or is a well-formed array.\<close>

lemma arrays_okI:
  assumes ok: "arrays_ok m"
    and step: "\<And>q b et. objs m' q = Some b \<Longrightarrow> o_type b = MEMORY_FEATURE_TYPE (Array et) \<Longrightarrow>
      (\<exists>b0. objs m q = Some b0 \<and> o_type b0 = o_type b \<and> o_data b0 = o_data b) \<or>
      (FT_NEED_FREE et \<and> (\<exists>xs. arr_rep m' q et xs))"
  shows "arrays_ok m'"
  unfolding arrays_ok_def
proof (intro allI impI)
  fix q b et assume b: "objs m' q = Some b" "o_type b = MEMORY_FEATURE_TYPE (Array et)"
  from step [OF b] show "FT_NEED_FREE et \<and> (\<exists>xs. arr_rep m' q et xs)"
  proof
    assume "\<exists>b0. objs m q = Some b0 \<and> o_type b0 = o_type b \<and> o_data b0 = o_data b"
    then obtain b0 where b0: "objs m q = Some b0" "o_type b0 = o_type b" "o_data b0 = o_data b" by blast
    then have "FT_NEED_FREE et" "\<exists>xs. arr_rep m q et xs" using ok b(2) by (simp_all add: arrays_ok_def)
    then obtain xs where "FT_NEED_FREE et" "arr_rep m q et xs" by blast
    then show ?thesis using arr_rep_cong [of m' q b m b0] b b0 by auto
  qed
qed

lemma arrays_ok_shrinks: "arrays_ok m \<Longrightarrow> shrinks {} m m' \<Longrightarrow> arrays_ok m'"
proof (rule arrays_okI)
  fix q b et assume "shrinks {} m m'" "objs m' q = Some b"
  then show "(\<exists>b0. objs m q = Some b0 \<and> o_type b0 = o_type b \<and> o_data b0 = o_data b) \<or>
      (FT_NEED_FREE et \<and> (\<exists>xs. arr_rep m' q et xs))"
    unfolding shrinks_def by metis
qed

lemma heap_ok_array: "heap_ok R m \<Longrightarrow> getElementType p m = Ok et \<Longrightarrow> \<exists>xs. FT_NEED_FREE et \<and> arr_rep m p et xs"
  by (auto simp: heap_ok_def arrays_ok_def getElementType_def split: option.splits mem_type.splits ftype.splits if_splits)

section \<open>Each operation keeps it\<close>

lemma StrCopy_keeps:
  assumes ok: "heap_ok R m" and cp: "FeatureStrCopy s m = (q, m')"
  shows "heap_ok (add_mset q R) m'" "objs m' q = Some (str_obj s)"
proof -
  have h: "counts_ok {} {} R m" "typed m" "fresh m" "arrays_ok m" using ok by (simp_all add: heap_ok_def)
  have r: "fresh m'" "counts_ok {} {} (add_mset q R) m'" "typed m'" "objs m' = (objs m)(q \<mapsto> str_obj s)"
    using FeatureStrCopy_ok [OF h(1-3), of s] cp by auto
  have "arrays_ok m'"
  proof (rule arrays_okI [OF h(4)])
    fix p b et assume "objs m' p = Some b" "o_type b = MEMORY_FEATURE_TYPE (Array et)"
    then show "(\<exists>b0. objs m p = Some b0 \<and> o_type b0 = o_type b \<and> o_data b0 = o_data b) \<or>
      (FT_NEED_FREE et \<and> (\<exists>xs. arr_rep m' p et xs))"
      using r(4) by (cases "p = q") auto
  qed
  then show "heap_ok (add_mset q R) m'" using r by (simp add: heap_ok_def)
  show "objs m' q = Some (str_obj s)" using r(4) by simp
qed

lemma CreateArray_keeps:
  assumes ok: "heap_ok R m" and nf: "FT_NEED_FREE et"
  shows "\<exists>p m'. FeatureCreateArray c et m = Ok (p, m') \<and> heap_ok (add_mset p R) m' \<and> arr_rep m' p et []"
proof -
  let ?d = "PArray \<lparr>a_size = 0, a_capacity = 0, a_element = []\<rparr>" and ?mt = "MEMORY_FEATURE_TYPE (Array et)"
  let ?ob = "\<lparr>o_ref_count = 1, o_type = ?mt, o_data = ?d\<rparr>"
  obtain p m1 where al: "alloc ?mt ?d m = (p, m1)" by fastforce
  have h: "counts_ok {} {} R m" "typed m" "fresh m" "arrays_ok m" using ok by (simp_all add: heap_ok_def)
  have em: "owned_slots ?ob = Some []" using nf by (simp add: owned_slots.simps)
  have m1: "counts_ok {} {} (add_mset p R) m1" "typed m1" "fresh m1" "objs m1 p = Some ?ob"
    "\<forall>q. q \<noteq> p \<longrightarrow> objs m1 q = objs m q"
    using alloc_ok [OF h(1-3) al em] by auto
  have ev: "et \<noteq> Prim FT_VOID" using nf by (auto simp: FT_NEED_FREE_iff)
  have r1: "arr_rep m1 p et []" using m1(4) ev by (simp add: arr_rep_def)
  let ?ob2 = "?ob\<lparr>o_data := PArray \<lparr>a_size = 0, a_capacity = int c, a_element = replicate c (Some 0)\<rparr>\<rparr>"
  let ?m2 = "put_obj p ?ob2 m1"
  have r2: "arr_rep ?m2 p et []" using ev by (simp add: arr_rep_def)
  have u: "counts_ok {} {} (add_mset p R) ?m2" "typed ?m2"
    using array_update [OF m1(1,2,4) r1 nf _ _ r2] by simp_all
  have f: "fresh ?m2" using m1(3,4) by (auto simp: fresh_def)
  have a: "arrays_ok ?m2"
  proof (rule arrays_okI [OF h(4)])
    fix q b et' assume "objs ?m2 q = Some b" "o_type b = MEMORY_FEATURE_TYPE (Array et')"
    then show "(\<exists>b0. objs m q = Some b0 \<and> o_type b0 = o_type b \<and> o_data b0 = o_data b) \<or>
      (FT_NEED_FREE et' \<and> (\<exists>xs. arr_rep ?m2 q et' xs))"
      using m1(5) r2 nf by (cases "q = p") auto
  qed
  have "FeatureCreateArray c et m = Ok (p, ?m2)"
    using al m1(4) by (simp add: FeatureCreateArray_def FeatureInstanceAllocType_def getArrayFeatureType_def put_arr_def)
  then show ?thesis using u f a r2 by (auto simp: heap_ok_def)
qed

lemma Dup_keeps:
  assumes ok: "heap_ok R m" and p: "objs m p = Some ob" and room: "o_ref_count ob + 1 \<noteq> 0"
  shows "\<exists>m'. FeatureDupValue p m = Ok (p, m') \<and> heap_ok (add_mset p R) m'"
proof -
  have h: "counts_ok {} {} R m" "typed m" "fresh m" "arrays_ok m" using ok by (simp_all add: heap_ok_def)
  obtain m' where m': "FeatureInstanceDupValue p m = Ok (p, m')" "FeatureDupValue p m = Ok (p, m')"
    "counts_ok {} {} (add_mset p R) m'" "typed m'" "shrinks {} m m'"
    using InstanceDupValue_ok [OF h(1,2) p room] by blast
  have "brk m' = brk m" using m'(1) p by (auto simp: FeatureInstanceDupValue_def)
  then show ?thesis using m' fresh_shrinks [OF h(3) m'(5)] arrays_ok_shrinks [OF h(4) m'(5)]
    by (simp add: heap_ok_def)
qed

lemma Free_keeps:
  assumes ok: "heap_ok R m" and p: "p \<in># R" and ob: "objs m p = Some ob" and n: "type_size (o_type ob) < n"
  shows "\<exists>m'. FeatureFreeValue n p m = Ok m' \<and> heap_ok (R - {#p#}) m' \<and> shrinks {} m m'"
proof -
  have h: "counts_ok {} {} R m" "typed m" "fresh m" "arrays_ok m" using ok by (simp_all add: heap_ok_def)
  have c: "counts_ok {} {} (add_mset p (R - {#p#})) m" using h(1) p by simp
  obtain m' where m': "FeatureFreeValue n p m = Ok m'" "counts_ok {} {} (R - {#p#}) m'" "typed m'" "shrinks {} m m'"
    using FeatureFreeValue_ok [OF c h(2) ob n] by blast
  then show ?thesis
    using free_brk(1) [OF m'(1)] fresh_shrinks [OF h(3) m'(4)] arrays_ok_shrinks [OF h(4) m'(4)]
    by (simp add: heap_ok_def)
qed

lemma arrays_ok_update:
  assumes "arrays_ok m" "arr_rep m' p et xs" "FT_NEED_FREE et"
    and "\<And>q b. q \<noteq> p \<Longrightarrow> objs m' q = Some b \<Longrightarrow> \<exists>b0. objs m q = Some b0 \<and> o_type b0 = o_type b \<and> o_data b0 = o_data b"
  shows "arrays_ok m'"
proof (rule arrays_okI [OF assms(1)])
  fix q b et' assume b: "objs m' q = Some b" "o_type b = MEMORY_FEATURE_TYPE (Array et')"
  show "(\<exists>b0. objs m q = Some b0 \<and> o_type b0 = o_type b \<and> o_data b0 = o_data b) \<or>
      (FT_NEED_FREE et' \<and> (\<exists>xs. arr_rep m' q et' xs))"
  proof (cases "q = p")
    case True
    obtain ob where "objs m' p = Some ob" "o_type ob = MEMORY_FEATURE_TYPE (Array et)"
      using arr_repE [OF assms(2)] by metis
    then have "et' = et" using b True by simp
    then show ?thesis using True assms(2,3) by blast
  qed (use assms(4) b in blast)
qed

lemma Append_keeps:
  assumes ok: "heap_ok R m" and p: "getElementType p m = Ok et" and q: "objs m q = Some d"
    and room: "o_ref_count d + 1 \<noteq> 0"
  shows "\<exists>r m'. FeatureArrayAppend p q m = Ok (r, m') \<and> heap_ok R m'"
proof (cases "o_type d = MEMORY_FEATURE_TYPE et")
  case False
  then have "isFeatureTypeEqual q et m = Ok False"
    using q by (auto simp: isFeatureTypeEqual_def split: mem_type.splits)
  then show ?thesis using p ok by (simp add: FeatureArrayAppend_def)
next
  case True
  have h: "counts_ok {} {} R m" "typed m" "fresh m" "arrays_ok m" using ok by (simp_all add: heap_ok_def)
  obtain xs where xs: "FT_NEED_FREE et" "arr_rep m p et xs" using heap_ok_array [OF ok p] by blast
  obtain m' where m': "FeatureArrayAppend p q m = Ok (p, m')" "arr_rep m' p et (xs @ [q])" "counts_ok {} {} R m'"
    "typed m'" "untouched {p, q} m m'" "brk m' = brk m" "objs m' q = Some (d\<lparr>o_ref_count := o_ref_count d + 1\<rparr>)"
    using array_append_ok [OF h(1,2) xs(2,1) q True room] by blast
  obtain ob where ob: "objs m p = Some ob" using arr_repE [OF xs(2)] by metis
  have "arrays_ok m'"
  proof (rule arrays_ok_update [OF h(4) m'(2) xs(1)])
    fix x b assume "x \<noteq> p" "objs m' x = Some b"
    then show "\<exists>b0. objs m x = Some b0 \<and> o_type b0 = o_type b \<and> o_data b0 = o_data b"
      using m'(5,7) q by (cases "x = q") (auto simp: untouched_def)
  qed
  moreover have "fresh m'"
    unfolding fresh_def
  proof (intro allI impI)
    fix x assume "brk m' < x"
    then have "objs m x = None" using h(3) m'(6) by (simp add: fresh_def)
    then show "objs m' x = None" using m'(5) q ob by (cases "x = q"; cases "x = p") (auto simp: untouched_def)
  qed
  ultimately show ?thesis using m' by (auto simp: heap_ok_def)
qed

lemma shrinks_but_keeps:
  assumes ok: "heap_ok R m" and rep: "arr_rep m' p et xs" and nf: "FT_NEED_FREE et"
    and m': "counts_ok {} {} R' m'" "typed m'" "shrinks_but p m m'"
  shows "heap_ok R' m'"
proof -
  have h: "fresh m" "arrays_ok m" using ok by (simp_all add: heap_ok_def)
  have "arrays_ok m'"
    by (rule arrays_ok_update [OF h(2) rep nf]) (use m'(3) in \<open>unfold shrinks_but_def, metis\<close>)
  moreover have "fresh m'"
    unfolding fresh_def
  proof (intro allI impI)
    fix x assume "brk m' < x"
    then have "objs m x = None" using h(1) m'(3) by (simp add: fresh_def shrinks_but_def)
    then show "objs m' x = None" using m'(3) by (cases "x = p"; cases "objs m' x") (auto simp: shrinks_but_def)
  qed
  ultimately show ?thesis using m' by (simp add: heap_ok_def)
qed

lemma Clear_keeps:
  assumes ok: "heap_ok R m" and p: "getElementType p m = Ok et" "p \<in># R" and n: "Suc (size et) < n"
  shows "\<exists>k m'. FeatureArrayClear n p m = Ok (k, m') \<and> heap_ok R m' \<and> arr_rep m' p et []"
proof -
  have h: "counts_ok {} {} R m" "typed m" using ok by (simp_all add: heap_ok_def)
  obtain xs where xs: "FT_NEED_FREE et" "arr_rep m p et xs" using heap_ok_array [OF ok p(1)] by blast
  show ?thesis
    using array_clear_ok [OF h xs(2,1) p(2) n] shrinks_but_keeps [OF ok _ xs(1)] by blast
qed

lemma Remove_keeps:
  assumes ok: "heap_ok R m" and p: "arr_rep m p et xs" "p \<in># R" and n: "Suc (size et) < n"
    and i: "start < length xs" "int (length xs) < 2 ^ 31" "unat c < 2 ^ 31"
  shows "\<exists>k m'. FeatureArrayRemove n p (int start) c m = Ok (k, m') \<and> heap_ok R m'"
proof -
  have h: "counts_ok {} {} R m" "typed m" using ok by (simp_all add: heap_ok_def)
  have "getElementType p m = Ok et" using arr_repE [OF p(1)] by metis
  then have nf: "FT_NEED_FREE et" using heap_ok_array [OF ok] by blast
  show ?thesis
    using array_remove_ok [OF h p(1) nf p(2) n i(2,1,3)] shrinks_but_keeps [OF ok _ nf] by blast
qed

lemma AppendRaw_keeps:
  assumes ok: "heap_ok R m" and p: "getElementType p m = Ok (Prim FT_STRING)"
  shows "\<exists>m'. FeatureArrayAppendRaw (Suc n) p s m = Ok (p, m') \<and> heap_ok R m'"
proof -
  have h: "counts_ok {} {} R m" "typed m" "fresh m" "arrays_ok m" using ok by (simp_all add: heap_ok_def)
  obtain xs where xs: "arr_rep m p (Prim FT_STRING) xs" "FT_NEED_FREE (Prim FT_STRING)"
    using heap_ok_array [OF ok p] by blast
  obtain q m' where m': "FeatureArrayAppendRaw (Suc n) p s m = Ok (p, m')" "arr_rep m' p (Prim FT_STRING) (xs @ [q])"
    "objs m q = None" "objs m' q = Some (str_obj s)" "counts_ok {} {} R m'" "typed m'" "untouched {p, q} m m'"
    "q = Suc (brk m)" "brk m' = q"
    using array_append_raw_ok [OF h(1-3) xs(1), of n s] by blast
  obtain ob where ob: "objs m p = Some ob" using arr_repE [OF xs(1)] by metis
  have "arrays_ok m'"
  proof (rule arrays_okI [OF h(4)])
    fix x b et assume b: "objs m' x = Some b" "o_type b = MEMORY_FEATURE_TYPE (Array et)"
    show "(\<exists>b0. objs m x = Some b0 \<and> o_type b0 = o_type b \<and> o_data b0 = o_data b) \<or>
      (FT_NEED_FREE et \<and> (\<exists>xs. arr_rep m' x et xs))"
    proof (cases "x = p")
      case True
      obtain b1 where "objs m' p = Some b1" "o_type b1 = MEMORY_FEATURE_TYPE (Array (Prim FT_STRING))"
        using arr_repE [OF m'(2)] by metis
      then have "et = Prim FT_STRING" using True b by simp
      then show ?thesis using True xs(2) m'(2) by blast
    next
      case False
      then have "x \<noteq> q" using b m'(4) by auto
      then show ?thesis using False b m'(7) by (auto simp: untouched_def)
    qed
  qed
  moreover have "fresh m'"
    unfolding fresh_def
  proof (intro allI impI)
    fix x assume x: "brk m' < x"
    then have "objs m x = None" "x \<noteq> q" using h(3) m'(8,9) by (auto simp: fresh_def)
    then show "objs m' x = None" using m'(7) ob by (cases "x = p") (auto simp: untouched_def)
  qed
  ultimately show ?thesis using m' by (auto simp: heap_ok_def)
qed

section \<open>The client\<close>

text \<open>
  One step of a client that holds the references \<open>R\<close>: every operation is given memory the client
  holds, and gives its results to the client.
\<close>

inductive client :: "addr multiset \<times> mem \<Rightarrow> addr multiset \<times> mem \<Rightarrow> bool" where
  copy_string: "FeatureStrCopy s m = (q, m') \<Longrightarrow> client (R, m) (add_mset q R, m')"
| create: "FT_NEED_FREE et \<Longrightarrow> FeatureCreateArray c et m = Ok (p, m') \<Longrightarrow> client (R, m) (add_mset p R, m')"
| dup: "p \<in># R \<Longrightarrow> objs m p = Some ob \<Longrightarrow> o_ref_count ob + 1 \<noteq> 0 \<Longrightarrow>
    FeatureDupValue p m = Ok (q, m') \<Longrightarrow> client (R, m) (add_mset q R, m')"
| free: "p \<in># R \<Longrightarrow> objs m p = Some ob \<Longrightarrow> type_size (o_type ob) < n \<Longrightarrow>
    FeatureFreeValue n p m = Ok m' \<Longrightarrow> client (R, m) (R - {#p#}, m')"
| append: "p \<in># R \<Longrightarrow> q \<in># R \<Longrightarrow> objs m q = Some d \<Longrightarrow> o_ref_count d + 1 \<noteq> 0 \<Longrightarrow>
    FeatureArrayAppend p q m = Ok (r, m') \<Longrightarrow> client (R, m) (R, m')"
| append_raw: "p \<in># R \<Longrightarrow> FeatureArrayAppendRaw (Suc n) p s m = Ok (r, m') \<Longrightarrow> client (R, m) (R, m')"
| clear: "p \<in># R \<Longrightarrow> arr_rep m p et xs \<Longrightarrow> Suc (size et) < n \<Longrightarrow>
    FeatureArrayClear n p m = Ok (k, m') \<Longrightarrow> client (R, m) (R, m')"
| remove: "p \<in># R \<Longrightarrow> arr_rep m p et xs \<Longrightarrow> Suc (size et) < n \<Longrightarrow> start < length xs \<Longrightarrow>
    int (length xs) < 2 ^ 31 \<Longrightarrow> unat c < 2 ^ 31 \<Longrightarrow>
    FeatureArrayRemove n p (int start) c m = Ok (k, m') \<Longrightarrow> client (R, m) (R, m')"

inductive_cases clientE: "client s s'"

lemma client_keeps:
  assumes "client s s'" "heap_ok (fst s) (snd s)"
  shows "heap_ok (fst s') (snd s')"
  using assms
proof (induction rule: client.induct)
  case (copy_string s m q m' R)
  then show ?case using StrCopy_keeps(1) by simp
next
  case (create et c m p m' R)
  then show ?case using CreateArray_keeps [of R m et c] by auto
next
  case (dup p R m ob q m')
  then show ?case using Dup_keeps [of R m p ob] by auto
next
  case (free p R m ob n m')
  then show ?case using Free_keeps [of R m p ob n] by auto
next
  case (append p R q m d r m')
  obtain et where "getElementType p m = Ok et"
    using append(5) by (auto simp: FeatureArrayAppend_def obind_Ok_iff)
  then show ?case using append Append_keeps [of R m p et q d] by auto
next
  case (append_raw p R n s m r m')
  obtain et where et: "getElementType p m = Ok et"
    using append_raw(2) by (auto simp: FeatureArrayAppendRaw_def obind_Ok_iff)
  show ?case
  proof (cases "et = Prim FT_STRING")
    case True
    then show ?thesis using append_raw AppendRaw_keeps [of R m p n s] et by auto
  next
    case False
    then show ?thesis using append_raw et by (simp add: FeatureArrayAppendRaw_def)
  qed
next
  case (clear p R m et xs n k m')
  have "getElementType p m = Ok et" using arr_repE [OF clear(2)] by metis
  then show ?case using clear Clear_keeps [of R m p et n] by auto
next
  case (remove p R m et xs n start c k m')
  then show ?case using Remove_keeps [of R m p et xs n start c] by auto
qed

lemma client_runs: "client\<^sup>*\<^sup>* s s' \<Longrightarrow> heap_ok (fst s) (snd s) \<Longrightarrow> heap_ok (fst s') (snd s')"
  by (induction rule: rtranclp_induct) (auto intro: client_keeps)

text \<open>Everything a client holds can be released, one reference at a time.\<close>

lemma client_release_all: "heap_ok R m \<Longrightarrow> \<exists>m'. client\<^sup>*\<^sup>* (R, m) ({#}, m')"
proof (induction R arbitrary: m)
  case empty
  then show ?case by blast
next
  case (add p R)
  have h: "counts_ok {} {} (add_mset p R) m" using add(2) by (simp add: heap_ok_def)
  obtain ob where ob: "objs m p = Some ob" using counts_okD(3) [OF h] by auto
  obtain m1 where m1: "FeatureFreeValue (Suc (type_size (o_type ob))) p m = Ok m1" "heap_ok R m1"
    using Free_keeps [OF add(2) _ ob, of "Suc (type_size (o_type ob))"] by auto
  have "client (add_mset p R, m) (add_mset p R - {#p#}, m1)"
    by (rule client.free [OF _ ob _ m1(1)]) simp_all
  then have "client (add_mset p R, m) (R, m1)" by simp
  moreover obtain m' where "client\<^sup>*\<^sup>* (R, m1) ({#}, m')" using add(1) [OF m1(2)] by blast
  ultimately show ?case by (blast intro: converse_rtranclp_into_rtranclp)
qed

lemma heap_ok_empty: "heap_ok {#} m \<Longrightarrow> objs m = Map.empty"
  using no_leak typed_ranked by (auto simp: heap_ok_def)

end
