(* ===== verification/MemProps.thy ===== *)
theory MemProps
  imports HeapClient
begin

text \<open>The properties of the reference-counted native memory and of its arrays.\<close>

section \<open>Removal past the end, insertion\<close>

lemma remove_past_end:
  assumes "arr_of p m = Ok a" "getElementType p m = Ok et" "objs m p = Some ob"
    and "0 \<le> a_size a" "a_size a < start" "start < 2 ^ 31" "0 < unat c" "unat c < 2 ^ 31"
  shows "FeatureArrayRemove n p start c m =
    Ok (a_size a - start, put_obj p (ob\<lparr>o_data := PArray (a\<lparr>a_size := start\<rparr>)\<rparr>) m)"
proof -
  let ?k = "a_size a - start"
  have k: "?k < 0" "- (2 ^ 31) \<le> ?k" "?k < 2 ^ 31" using assms(4-6) by linarith+
  have w1: "sint (word_of_int ?k :: 32 word) = ?k" by (rule sint32_id) (use k in linarith)+
  have w2: "sint (ucast c :: 32 word) = int (unat c)" by (rule sint_ucast32 [OF assms(8)])
  have d: "word_of_int (min (sint (ucast c :: 32 word)) (sint (word_of_int ?k :: 32 word))) = (word_of_int ?k :: 64 word)"
    unfolding w1 w2 by (rule arg_cong [OF min.absorb2]) (use k(1) in linarith)
  have d0: "(word_of_int ?k :: 64 word) \<noteq> 0"
  proof
    assume "(word_of_int ?k :: 64 word) = 0"
    then have "sint (word_of_int ?k :: 64 word) = 0" by simp
    moreover have "sint (word_of_int ?k :: 64 word) = ?k" by (rule sint64_id) (use k in simp_all)
    ultimately show False using k by simp
  qed
  have f: "word_of_int start + word_of_int ?k = (word_of_int (a_size a) :: 64 word)"
    unfolding wi_hom_add by simp
  have u: "unat (word_of_int (a_size a) :: 64 word) \<le> unat (word_of_int start :: 64 word)"
    using assms(4-6) by (simp add: unat_eq_nat_uint uint64_id)
  have e: "word_of_int (a_size a) - word_of_int ?k = (word_of_int start :: 64 word)"
    unfolding wi_hom_sub by simp
  have s: "sint (ucast (word_of_int start :: 64 word) :: 32 word) = start"
    unfolding ucast32_of_int by (rule sint32_id) (use assms in linarith)+
  have k32: "sint (ucast (word_of_int ?k :: 64 word) :: 32 word) = ?k"
    unfolding ucast32_of_int by (rule w1)
  have r: "[unat (word_of_int start :: 64 word)..<unat (word_of_int (a_size a) :: 64 word)] = []"
    using u by (rule upt_conv_Nil)
  show ?thesis
    unfolding FeatureArrayRemove_def assms(1) obind.simps Let_def d assms(2) f e k32 s r
    by (simp only: d0 if_False if_True not_True_eq_False cancel_comm_monoid_add_class.diff_cancel list.map
      free_slots.simps obind.simps assms(1) put_arr_def) (simp add: assms(1,3))
qed

lemma InsertAfter_rep:
  assumes rep: "arr_rep m p et xs" and prim: "\<not> FT_IS_REFERENCE et" and i: "start < length xs"
  shows "\<exists>m'. FeatureArrayInsertAfter p (int start) data m = Ok (int (length data), m') \<and>
     arr_rep m' p et (take (Suc start) xs @ map snd data @ drop (Suc start) xs) \<and> untouched {p} m m'"
proof -
  obtain ob where ob: "objs m p = Some ob" "o_type ob = MEMORY_FEATURE_TYPE (Array et)" using arr_repE [OF rep] by metis
  obtain a where a: "arr_of p m = Ok a" "o_data ob = PArray a" "a_size a = int (length xs)"
    "a_capacity a = int (length (a_element a))"
    using arr_rep_objE [OF rep ob(1)] .
  let ?n = "length data" and ?vs = "map (Some \<circ> snd) data"
  have "\<exists>es. (if a_size a + int ?n > a_capacity a
      then FeatureArrayResize p (ARRAY_NEW_CAPACITY (nat (a_size a) + ?n)) m else Ok m) =
      Ok (put_obj p (arr_obj ob (length xs) es) m) \<and> take (length xs) es = map Some xs \<and> length xs + ?n \<le> length es"
  proof (cases "a_size a + int ?n > a_capacity a")
    case True
    then show ?thesis using Resize_rep [OF rep ob(1), of "ARRAY_NEW_CAPACITY (nat (a_size a) + ?n)"] a(3)
      by (auto simp: ARRAY_NEW_CAPACITY_def)
  next
    case False
    obtain es where es: "m = put_obj p (arr_obj ob (length xs) es) m" "ob = arr_obj ob (length xs) es"
      "take (length xs) es = map Some xs"
      using arr_rep_is_obj [OF rep ob(1)] .
    have "PArray a = PArray \<lparr>a_size = int (length xs), a_capacity = int (length es), a_element = es\<rparr>"
      using a(2) es(2) by (metis obj.select_convs(3) obj.surjective obj.update_convs(3))
    then show ?thesis using False es by (intro exI [of _ es]) auto
  qed
  then obtain es where r: "(if a_size a + int ?n > a_capacity a
      then FeatureArrayResize p (ARRAY_NEW_CAPACITY (nat (a_size a) + ?n)) m else Ok m) =
      Ok (put_obj p (arr_obj ob (length xs) es) m)"
    and es: "take (length xs) es = map Some xs" "length xs + ?n \<le> length es" by blast
  let ?m1 = "put_obj p (arr_obj ob (length xs) es) m"
  have r1: "arr_rep ?m1 p et xs" using rep ob es by (simp add: arr_rep_def)
  have g: "getElementType p ?m1 = Ok et" using arr_repE [OF r1] by metis
  have t1: "take (Suc start) es = map Some (take (Suc start) xs)"
    using arg_cong [OF es(1), of "take (Suc start)"] i by (simp add: take_map)
  have l1: "length (take (Suc start) es) = Suc start" using i es(2) by simp
  let ?es = "take (Suc start) es @ ?vs @ take (length xs - Suc start) (drop (Suc start) es) @ drop (length xs + ?n) es"
  have t2: "take (length xs - Suc start) (drop (Suc start) es) = map Some (drop (Suc start) xs)"
    using arg_cong [OF es(1), of "drop (Suc start)"] by (simp add: drop_take drop_map)
  have le: "length ?es = length es" using i es(2) by simp
  have "FeatureArrayInsertAfter p (int start) data m =
      Ok (int ?n, put_obj p (arr_obj ob (length xs + ?n) ?es) m)"
  proof (cases "Suc start = length xs")
    case True
    then have "take (Suc start) es @ ?vs @ drop (length xs + ?n) es = ?es" by simp
    moreover have "store_slots (int (length xs)) ?vs es = Some (take (Suc start) es @ ?vs @ drop (length xs + ?n) es)"
      using es(2) True by (cases "data = []") (auto simp: store_slots_def)
    moreover have "int start = int (length xs) - 1" using True by linarith
    ultimately show ?thesis
      unfolding FeatureArrayInsertAfter_def a(1) obind.simps Let_def r g
      using i prim le a(3) by (simp add: put_slots_def arr_of_def put_arr_def add.commute)
  next
    case False
    let ?mv = "take (Suc start + ?n) es @ take (length xs - Suc start) (drop (Suc start) es) @ drop (length xs + ?n) es"
    have n: "nat (int start + int ?n + 1) = Suc start + ?n" "nat (int start + 1) = Suc start"
      "nat (int (length xs) - int start - 1) = length xs - Suc start"
      "nat (int start + int ?n + 1 + (int (length xs) - int start - 1)) = length xs + ?n"
      using i by linarith+
    have b: "\<not> (int start + int ?n + 1 < 0 \<or> int start + 1 < 0 \<or> int (length xs) - int start - 1 < 0 \<or>
        int (length es) < int start + int ?n + 1 + (int (length xs) - int start - 1) \<or>
        int (length es) < int start + 1 + (int (length xs) - int start - 1))"
      "int (length xs) - int start - 1 \<noteq> 0"
      using i es(2) False by linarith+
    have mv: "move_slots (int start + int ?n + 1) (int start + 1) (int (length xs) - int start - 1) es = Some ?mv"
      unfolding move_slots_def using b n by simp
    have lm: "length ?mv = length es" using i es(2) by simp
    have st: "store_slots (int start + 1) ?vs ?mv = Some ?es"
    proof (cases "data = []")
      case True
      then show ?thesis by (simp add: store_slots_def)
    next
      case ne: False
      have "take (Suc start) ?mv = take (Suc start) es" using i es(2) by simp
      moreover have "drop (Suc start + ?n) ?mv = take (length xs - Suc start) (drop (Suc start) es) @ drop (length xs + ?n) es"
        using i es(2) by simp
      moreover have "int (length ?mv) \<ge> int start + 1 + int ?n" using lm i es(2) by simp
      ultimately show ?thesis unfolding store_slots_def n using ne by simp
    qed
    have "int start \<noteq> int (length xs) - 1" using False i by linarith
    then show ?thesis
      unfolding FeatureArrayInsertAfter_def a(1) obind.simps Let_def r g
      using i prim mv st le lm a(3) by (simp add: put_slots_def arr_of_def put_arr_def add.commute)
  qed
  moreover have "arr_rep (put_obj p (arr_obj ob (length xs + ?n) ?es) m) p et
      (take (Suc start) xs @ map snd data @ drop (Suc start) xs)"
  proof -
    have "take (length xs + ?n) ?es = map Some (take (Suc start) xs @ map snd data @ drop (Suc start) xs)"
      using t1 t2 i es(2) by simp
    moreover have "et \<noteq> Prim FT_VOID" using rep by (simp add: arr_rep_def)
    ultimately show ?thesis using ob i le by (simp add: arr_rep_def)
  qed
  ultimately show ?thesis by (auto simp: untouched_def)
qed

section \<open>A small heap\<close>

text \<open>A string and an array of strings that has it, as a client builds them.\<close>

definition heap1 :: mem where
  "heap1 = \<lparr>objs = [1 \<mapsto> \<lparr>o_ref_count = 2, o_type = MEMORY_FEATURE_TYPE (Prim FT_STRING), o_data = PStr ''a''\<rparr>,
      2 \<mapsto> \<lparr>o_ref_count = 1, o_type = MEMORY_FEATURE_TYPE (Array (Prim FT_STRING)),
        o_data = PArray \<lparr>a_size = 1, a_capacity = 1, a_element = [Some 1]\<rparr>\<rparr>], brk = 2\<rparr>"

lemma heap1_run: "client\<^sup>*\<^sup>* ({#}, empty_heap) ({#2, 1#}, heap1)"
proof -
  define m1 where "m1 = \<lparr>objs = [1 \<mapsto> str_obj ''a''], brk = 1\<rparr>"
  have 1: "client ({#}, empty_heap) ({#1#}, m1)"
    by (rule client.copy_string [of "''a''"])
      (simp add: FeatureStrCopy_def FeatureInstanceAllocType_def alloc_def empty_heap_def m1_def put_obj_def Let_def)
  define m2 where "m2 = \<lparr>objs = [1 \<mapsto> str_obj ''a'', 2 \<mapsto> \<lparr>o_ref_count = 1,
        o_type = MEMORY_FEATURE_TYPE (Array (Prim FT_STRING)),
        o_data = PArray \<lparr>a_size = 0, a_capacity = 1, a_element = [Some 0]\<rparr>\<rparr>], brk = 2\<rparr>"
  have m2: "FeatureCreateArray 1 (Prim FT_STRING) m1 = Ok (2, m2)"
    "objs m2 = [1 \<mapsto> str_obj ''a'', 2 \<mapsto> \<lparr>o_ref_count = 1, o_type = MEMORY_FEATURE_TYPE (Array (Prim FT_STRING)),
        o_data = PArray \<lparr>a_size = 0, a_capacity = 1, a_element = [Some 0]\<rparr>\<rparr>]" "brk m2 = 2"
    by (simp_all add: FeatureCreateArray_def FeatureInstanceAllocType_def getArrayFeatureType_def alloc_def m1_def
      m2_def put_obj_def put_arr_def Let_def numeral_2_eq_2)
  have 2: "client ({#1#}, m1) ({#2, 1#}, m2)"
    by (rule client.create [OF _ m2(1)]) (simp add: FT_NEED_FREE_iff)
  let ?A = "\<lparr>a_size = 0, a_capacity = 1, a_element = [Some 0]\<rparr>"
  define m3 where "m3 = put_obj 1 ((str_obj ''a'')\<lparr>o_ref_count := 2\<rparr>) m2"
  have o3: "objs m3 2 = objs m2 2" by (simp add: m3_def)
  have a: "getElementType 2 m2 = Ok (Prim FT_STRING)" "arr_of 2 m2 = Ok ?A" "arr_of 2 m3 = Ok ?A"
    "isFeatureTypeEqual 1 (Prim FT_STRING) m2 = Ok True"
    using o3 by (simp_all add: m2_def getElementType_def arr_of_def isFeatureTypeEqual_def)
  have b: "FeatureInstanceDupValue 1 m2 = Ok (1, m3)" by (simp add: FeatureInstanceDupValue_def m2_def m3_def)
  have r: "FT_IS_REFERENCE (Prim FT_STRING)" by (simp add: FT_IS_REFERENCE_iff)
  have c: "put_obj 2 (the (objs m2 2)\<lparr>o_data := PArray \<lparr>a_size = 1, a_capacity = 1, a_element = [Some 1]\<rparr>\<rparr>) m3 = heap1"
    by (simp add: m3_def m2_def heap1_def put_obj_def)
  have o: "objs m3 2 = Some (the (objs m2 2))" using o3 by (simp add: m2_def)
  have st: "store_slots 0 [Some 1] [Some 0] = Some [Some (1 :: nat)]" by (simp add: store_slots_def)
  have "FeatureArrayAppend 2 1 m2 = Ok (2, heap1)"
    unfolding FeatureArrayAppend_def a(1,2,4) c [symmetric]
    using a(4) by (simp add: r b a(3) o st put_slots_def put_arr_def del: One_nat_def)
  then have "client ({#2, 1#}, m2) ({#2, 1#}, heap1)"
    using m2 by (intro client.append [of 2 _ 1 _ "str_obj ''a''"]) simp_all
  then show ?thesis by (rule rtranclp.rtrancl_into_rtrancl [OF converse_rtranclp_into_rtranclp [OF 1 r_into_rtranclp [of client, OF 2]]])
qed

lemma heap1_ok: "heap_ok {#2, 1#} heap1"
  using client_runs [OF heap1_run] empty_heap_ok by simp

lemma heap1_array: "arr_rep heap1 2 (Prim FT_STRING) [1]" "getElementType 2 heap1 = Ok (Prim FT_STRING)"
  by (simp_all add: arr_rep_def heap1_def getElementType_def)

section \<open>The properties\<close>

text \<open>C3: releasing a reference of a well-formed heap returns, with fuel the size of the type, never touches
  freed memory, and leaves a well-formed heap in which no other object has changed its type or contents.\<close>
theorem release_is_safe:
  assumes "heap_ok R m" "p \<in># R" "objs m p = Some ob" "type_size (o_type ob) < n"
  shows "\<exists>m'. FeatureFreeValue n p m = Ok m' \<and> heap_ok (R - {#p#}) m' \<and> shrinks {} m m'"
  using assms by (rule Free_keeps)

lemma release_is_safe_witness:
  "\<exists>m'. FeatureFreeValue 3 2 heap1 = Ok m' \<and> heap_ok ({#2, 1#} - {#2#}) m' \<and> shrinks {} heap1 m'"
  by (rule release_is_safe [OF heap1_ok, of 2 "the (objs heap1 2)"]) (simp_all add: heap1_def)



text \<open>appending to an array appends to the list it holds and takes one reference to the value, whether or
  not the buffer has to grow; a value of another type is refused and nothing changes.\<close>
theorem append_is_list_append:
  assumes "counts_ok {} {} R m" "typed m" "arr_rep m p et xs" "FT_NEED_FREE et"
    and "objs m q = Some d" "o_ref_count d + 1 \<noteq> 0"
  shows "\<exists>r m'. FeatureArrayAppend p q m = Ok (r, m') \<and> counts_ok {} {} R m' \<and> typed m' \<and>
    (o_type d = MEMORY_FEATURE_TYPE et \<and> r = p \<and> arr_rep m' p et (xs @ [q]) \<and> untouched {p, q} m m' \<and>
       objs m' q = Some (d\<lparr>o_ref_count := o_ref_count d + 1\<rparr>) \<or>
     o_type d \<noteq> MEMORY_FEATURE_TYPE et \<and> r = 0 \<and> m' = m)"
proof (cases "o_type d = MEMORY_FEATURE_TYPE et")
  case True
  then show ?thesis using array_append_ok [OF assms(1-5) True assms(6)] by blast
next
  case False
  then have "isFeatureTypeEqual q et m = Ok False"
    using assms(5) by (auto simp: isFeatureTypeEqual_def split: mem_type.splits)
  moreover have "getElementType p m = Ok et" using arr_repE [OF assms(3)] by metis
  ultimately show ?thesis using False assms(1,2) by (simp add: FeatureArrayAppend_def)
qed

lemma append_is_list_append_witness:
  "\<exists>m'. FeatureArrayAppend 2 1 heap1 = Ok (2, m') \<and> arr_rep m' 2 (Prim FT_STRING) ([1] @ [1]) \<and>
    counts_ok {} {} {#2, 1#} m'"
  using append_is_list_append [OF _ _ heap1_array(1), of "{#2, 1#}" 1 "the (objs heap1 1)"] heap1_ok
  by (auto simp: heap_ok_def FT_NEED_FREE_iff heap1_def)

text \<open>inside the array, removal takes out the given range, clamped to the end, gives back one reference
  for every element taken out, and returns how many it took.\<close>
theorem remove_takes_out_range:
  assumes "counts_ok {} {} R m" "typed m" "arr_rep m p et xs" "FT_NEED_FREE et" "p \<in># R" "Suc (size et) < n"
    and "int (length xs) < 2 ^ 31" "start < length xs" "unat c < 2 ^ 31"
  shows "\<exists>m'. FeatureArrayRemove n p (int start) c m = Ok (int (min (unat c) (length xs - start)), m') \<and>
    arr_rep m' p et (take start xs @ drop (start + min (unat c) (length xs - start)) xs) \<and>
    counts_ok {} {} R m' \<and> typed m' \<and> shrinks_but p m m'"
  using assms by (rule array_remove_ok)

lemma remove_takes_out_range_witness:
  "\<exists>m'. FeatureArrayRemove 3 2 (int 0) 5 heap1 = Ok (int (min (unat (5 :: 64 word)) (length [1::nat] - 0)), m') \<and>
    arr_rep m' 2 (Prim FT_STRING) (take 0 [1] @ drop (0 + min (unat (5 :: 64 word)) (length [1::nat] - 0)) [1]) \<and>
    counts_ok {} {} {#2, 1#} m' \<and> typed m' \<and> shrinks_but 2 heap1 m'"
  by (rule remove_takes_out_range [OF _ _ heap1_array(1)])
    (use heap1_ok in \<open>simp_all add: heap_ok_def FT_NEED_FREE_iff\<close>)

text \<open>removal that starts past the end does not fail: the clamped count is negative, passes the guard as a
  huge \<open>size_t\<close>, and the array grows up to the start index, over slots nobody has written, while the
  result is negative.\<close>
theorem remove_past_end_grows:
  assumes "arr_of p m = Ok a" "getElementType p m = Ok et" "objs m p = Some ob"
    and "0 \<le> a_size a" "a_size a < start" "start < 2 ^ 31" "0 < unat c" "unat c < 2 ^ 31"
  shows "\<exists>m'. FeatureArrayRemove n p start c m = Ok (a_size a - start, m') \<and> a_size a - start < 0 \<and>
    FeatureArrayGetLength p m' = Ok start"
  using remove_past_end [OF assms, of n] assms(5) by (simp add: FeatureArrayGetLength_def)

lemma remove_past_end_grows_witness:
  "\<exists>m'. FeatureArrayRemove 3 2 4 1 heap1 = Ok (1 - 4, m') \<and> (1::int) - 4 < 0 \<and> FeatureArrayGetLength 2 m' = Ok 4"
  using remove_past_end_grows [of 2 heap1 "\<lparr>a_size = 1, a_capacity = 1, a_element = [Some 1]\<rparr>" "Prim FT_STRING"
    "the (objs heap1 2)" 4 1 3] heap1_array(2)
  by (simp add: heap1_def arr_of_def)

text \<open>inserting primitive values after an index splices them into the list; for an element type held by
  reference the code takes references to the slots of the caller's buffer instead of to the values, and reads
  memory that is no feature memory.\<close>
theorem insert_after_splices:
  assumes "arr_rep m p et xs" "start < length xs"
  shows "(\<not> FT_IS_REFERENCE et \<longrightarrow> (\<exists>m'. FeatureArrayInsertAfter p (int start) data m = Ok (int (length data), m') \<and>
      arr_rep m' p et (take (Suc start) xs @ map snd data @ drop (Suc start) xs) \<and> untouched {p} m m')) \<and>
    (FT_IS_REFERENCE et \<and> data \<noteq> [] \<and> fst (hd data) \<noteq> 0 \<and> objs m (fst (hd data)) = None \<longrightarrow>
      FeatureArrayInsertAfter p (int start) data m = UB)"
proof (intro conjI impI)
  assume "\<not> FT_IS_REFERENCE et"
  then show "\<exists>m'. FeatureArrayInsertAfter p (int start) data m = Ok (int (length data), m') \<and>
      arr_rep m' p et (take (Suc start) xs @ map snd data @ drop (Suc start) xs) \<and> untouched {p} m m'"
    using InsertAfter_rep [OF assms(1) _ assms(2)] by blast
next
  assume ref: "FT_IS_REFERENCE et \<and> data \<noteq> [] \<and> fst (hd data) \<noteq> 0 \<and> objs m (fst (hd data)) = None"
  obtain ob where ob: "objs m p = Some ob" using arr_repE [OF assms(1)] by metis
  obtain a where a: "arr_of p m = Ok a" "o_data ob = PArray a" "a_size a = int (length xs)"
    using arr_rep_objE [OF assms(1) ob] .
  have ne: "p \<noteq> fst (hd data)" using ref ob by auto
  obtain b where b: "(if a_size a + int (length data) > a_capacity a
      then FeatureArrayResize p (ARRAY_NEW_CAPACITY (nat (a_size a) + length data)) m else Ok m) = Ok (put_obj p b m)"
    "arr_rep (put_obj p b m) p et xs"
  proof (cases "a_size a + int (length data) > a_capacity a")
    case True
    obtain es where "FeatureArrayResize p (ARRAY_NEW_CAPACITY (nat (a_size a) + length data)) m =
        Ok (put_obj p (arr_obj ob (length xs) es) m)" "take (length xs) es = map Some xs"
      using Resize_rep [OF assms(1) ob] by blast
    moreover from this(2) have "arr_rep (put_obj p (arr_obj ob (length xs) es) m) p et xs"
      using assms(1) ob by (simp add: arr_rep_def)
    ultimately show ?thesis using True that by simp
  next
    case False
    then show ?thesis using that [of ob] put_obj_id [OF ob] assms(1) by simp
  qed
  have g: "getElementType p (put_obj p b m) = Ok et" using arr_repE [OF b(2)] by metis
  have "dup_all (map fst data) (put_obj p b m) = UB"
    using ref ne by (cases data) (auto simp: FeatureInstanceDupValue_def)
  then show "FeatureArrayInsertAfter p (int start) data m = UB"
    unfolding FeatureArrayInsertAfter_def a(1) obind.simps Let_def b(1) g using ref assms(2) a(3) by simp
qed

lemma insert_after_splices_witness: "FeatureArrayInsertAfter 2 (int 0) [(900, 1)] heap1 = UB"
  using insert_after_splices [OF heap1_array(1), of 0 "[(900, 1)]"] by (simp add: heap1_def FT_IS_REFERENCE_iff)

end
