(* ===== verification/Lifecycle.thy ===== *)
theory Lifecycle
  imports Prelude "HOL-Library.Monad_Syntax" "HOL-Library.List_Lexorder" "HOL-Library.Char_ord"
begin

text \<open>
  The life of features: the registry (\<open>src/feature_registry.cpp\<close>), the prototypes with their
  slots of instances (\<open>src/feature_prototype.cpp\<close>), the instances with their reference counts
  (\<open>src/feature_object_ref.h\<close>, \<open>src/feature_instance.cpp\<close>), the task queue
  (\<open>src/feature_manager.cpp\<close>), permission requests (\<open>src/permissions_manager.cpp\<close>) and the
  manager that ties them together (\<open>src/backend/qjs/feature_manager_qjs.cpp\<close>). What the native
  side is told is appended to a log. An operation that would abort on a \<open>FEATURE_CHECK\<close> or touch
  an object that is gone has the result \<open>None\<close>. Instances are numbered in the order of their
  creation, which is the order of the manager's list of them.
\<close>

section \<open>State\<close>

record desc =
  d_name :: string
  d_members :: "string list"
  cb_register :: bool
  cb_unregister :: bool
  cb_create :: bool
  cb_destroy :: bool
  cb_required :: bool
  cb_detached :: bool

text \<open>A module prototype has the key \<open>[name]\<close>, an interface of it \<open>[name, interface]\<close>.\<close>

type_synonym pkey = "string list"

record proto =
  pr_desc :: desc
  pr_js :: bool
  pr_slots :: "nat option list"

record linst =
  li_rc :: int
  li_detached :: bool
  li_initialized :: bool
  li_interface :: bool
  li_slot :: int
  li_proto :: pkey
  li_desc :: string

datatype task_mode = FEATURE_TASK_MODE_NORMAL | FEATURE_TASK_MODE_FREE

text \<open>
  A task of the native code is a number and what it posts when it runs; the other tasks are
  the ones the framework posts itself.
\<close>

datatype task = TUser nat "(nat \<times> task) list" | TRequest nat | TGrant nat | TReject nat

datatype reject_reason = FEATURE_PERMS_DENIED | FEATURE_PERMS_ERROR | FEATURE_PERMS_NO_BG

record perm =
  pm_inst :: nat
  pm_reason :: reject_reason

datatype entry =
    NRegister string bool
  | NUnregister string bool
  | NCreate pkey bool
  | NRequired nat pkey bool
  | NDetached nat bool
  | NDeleted nat bool
  | NDestroy pkey bool
  | NTask task_mode nat nat
  | NAsked nat
  | NGranted nat nat
  | NRejected nat nat reject_reason

record mgr =
  m_ctx :: bool
  m_registered :: bool
  m_registry :: "(string, desc) omap"
  m_protos :: "(pkey, proto) omap"
  m_insts :: "(nat, linst) omap"
  m_next :: nat
  m_opaque :: "nat set"
  m_tasks :: "(nat \<times> task) list"
  m_perm_cb :: bool
  m_perms :: "(nat, perm) omap"
  m_pnext :: nat
  m_log :: "entry list"

definition tell :: "entry \<Rightarrow> mgr \<Rightarrow> mgr" where
  "tell x m = m\<lparr>m_log := m_log m @ [x]\<rparr>"

definition the_inst :: "nat \<Rightarrow> mgr \<Rightarrow> linst option" where
  "the_inst i m = map_of (m_insts m) i"

definition put_inst :: "nat \<Rightarrow> linst \<Rightarrow> mgr \<Rightarrow> mgr" where
  "put_inst i li m = m\<lparr>m_insts := omap_put i li (m_insts m)\<rparr>"

definition the_proto :: "pkey \<Rightarrow> mgr \<Rightarrow> proto option" where
  "the_proto k m = map_of (m_protos m) k"

definition put_proto :: "pkey \<Rightarrow> proto \<Rightarrow> mgr \<Rightarrow> mgr" where
  "put_proto k pr m = m\<lparr>m_protos := omap_put k pr (m_protos m)\<rparr>"

fun foldM :: "('a \<Rightarrow> 's \<Rightarrow> 's option) \<Rightarrow> 'a list \<Rightarrow> 's \<Rightarrow> 's option" where
  "foldM f [] s = Some s"
| "foldM f (x # xs) s = Option.bind (f x s) (foldM f xs)"

section \<open>Registry\<close>

definition findFeature :: "string \<Rightarrow> mgr \<Rightarrow> desc option" where
  "findFeature name m = map_of (m_registry m) name"

definition registerFeature :: "desc \<Rightarrow> mgr \<Rightarrow> mgr" where
  "registerFeature d m =
     tell (NRegister (d_name d) (cb_register d)) (m\<lparr>m_registry := omap_put (d_name d) d (m_registry m)\<rparr>)"

fun unregister_all :: "(string \<times> desc) list \<Rightarrow> mgr \<Rightarrow> mgr" where
  "unregister_all [] m = m"
| "unregister_all ((n, d) # ds) m = unregister_all ds (tell (NUnregister (d_name d) (cb_unregister d)) m)"

definition delete_registry :: "mgr \<Rightarrow> mgr option" where
  "delete_registry m =
     (if m_registered m
      then Some ((unregister_all (m_registry m) m)\<lparr>m_registered := False, m_registry := []\<rparr>)
      else None)"

text \<open>\<open>find_last_of\<close>: what precedes and what follows the last dot.\<close>

definition split_last_dot :: "string \<Rightarrow> (string \<times> string) option" where
  "split_last_dot s =
     (let r = rev s; method = takeWhile (\<lambda>c. c \<noteq> CHR ''.'') r; rest = dropWhile (\<lambda>c. c \<noteq> CHR ''.'') r
      in case rest of [] \<Rightarrow> None | _ # f \<Rightarrow> Some (rev f, rev method))"

definition hasFeature :: "string \<Rightarrow> mgr \<Rightarrow> bool" where
  "hasFeature s m =
     (case findFeature s m of
        Some _ \<Rightarrow> True
      | None \<Rightarrow>
          (case split_last_dot s of
             None \<Rightarrow> False
           | Some (f, method) \<Rightarrow>
               (case findFeature f m of None \<Rightarrow> False | Some d \<Rightarrow> method \<in> set (d_members d))))"

section \<open>Instances\<close>

definition addRef :: "nat \<Rightarrow> mgr \<Rightarrow> mgr option" where
  "addRef i m = (case the_inst i m of None \<Rightarrow> None
     | Some li \<Rightarrow> Some (put_inst i (li\<lparr>li_rc := li_rc li + 1\<rparr>) m))"

definition remove_instance_permissions :: "nat \<Rightarrow> mgr \<Rightarrow> mgr" where
  "remove_instance_permissions i m = m\<lparr>m_perms := filter (\<lambda>(p, pm). pm_inst pm \<noteq> i) (m_perms m)\<rparr>"

definition instance_onDetached :: "nat \<Rightarrow> mgr \<Rightarrow> mgr option" where
  "instance_onDetached i m =
     (case the_inst i m of None \<Rightarrow> None
      | Some li \<Rightarrow>
          (if li_detached li then Some m
           else case the_proto (li_proto li) m of None \<Rightarrow> None
           | Some pr \<Rightarrow>
               Some (remove_instance_permissions i
                 (put_inst i (li\<lparr>li_detached := True\<rparr>)
                   (tell (NDetached i (cb_detached (pr_desc pr))) (m\<lparr>m_opaque := m_opaque m - {i}\<rparr>))))))"

definition release :: "nat \<Rightarrow> mgr \<Rightarrow> mgr option" where
  "release i m = (case the_inst i m of None \<Rightarrow> None
     | Some li \<Rightarrow>
         (if li_rc li - 1 = 0
          then do {
            m1 \<leftarrow> instance_onDetached i m;
            Some (tell (NDeleted i (li_interface li)) (m1\<lparr>m_insts := omap_del i (m_insts m1)\<rparr>))
          }
          else Some (put_inst i (li\<lparr>li_rc := li_rc li - 1\<rparr>) m)))"

definition new_instance :: "pkey \<Rightarrow> bool \<Rightarrow> mgr \<Rightarrow> (nat \<times> mgr) option" where
  "new_instance k vtable m =
     (case the_proto k m of None \<Rightarrow> None
      | Some pr \<Rightarrow>
          (let i = m_next m in
           Some (i, put_inst i \<lparr>li_rc = 1, li_detached = False, li_initialized = False, li_interface = vtable,
             li_slot = - 1, li_proto = k, li_desc = d_name (pr_desc pr)\<rparr> (m\<lparr>m_next := Suc i\<rparr>))))"

section \<open>Prototypes\<close>

fun free_slot :: "nat option list \<Rightarrow> nat" where
  "free_slot [] = 0"
| "free_slot (None # ss) = 0"
| "free_slot (Some i # ss) = Suc (free_slot ss)"

definition addInstance :: "nat \<Rightarrow> nat option list \<Rightarrow> nat \<times> nat option list" where
  "addInstance i ss =
     (let pos = free_slot ss in (pos, if pos = length ss then ss @ [Some i] else ss[pos := Some i]))"

text \<open>\<open>addInstance\<close> followed by \<open>setInstanceId\<close>: the reference of the caller moves into the slot.\<close>

definition place :: "nat \<Rightarrow> pkey \<Rightarrow> mgr \<Rightarrow> mgr option" where
  "place i k m =
     (case (the_inst i m, the_proto k m) of
        (Some li, Some pr) \<Rightarrow>
          (let (pos, ss) = addInstance i (pr_slots pr) in
           Some (put_inst i (li\<lparr>li_slot := int pos\<rparr>) (put_proto k (pr\<lparr>pr_slots := ss\<rparr>) m)))
      | _ \<Rightarrow> None)"

definition removeInstance :: "pkey \<Rightarrow> int \<Rightarrow> mgr \<Rightarrow> (bool \<times> mgr) option" where
  "removeInstance k pos m =
     (case the_proto k m of None \<Rightarrow> None
      | Some pr \<Rightarrow>
          (if pos < 0 \<or> int (length (pr_slots pr)) \<le> pos then Some (False, m)
           else case pr_slots pr ! nat pos of None \<Rightarrow> None
           | Some i \<Rightarrow> do {
               m1 \<leftarrow> instance_onDetached i m;
               m2 \<leftarrow> release i (put_proto k (pr\<lparr>pr_slots := (pr_slots pr)[nat pos := None]\<rparr>) m1);
               Some (True, m2)
             }))"

definition clearAllInstances :: "pkey \<Rightarrow> mgr \<Rightarrow> mgr option" where
  "clearAllInstances k m =
     (case the_proto k m of None \<Rightarrow> None
      | Some pr \<Rightarrow> foldM release (map the (filter (\<lambda>s. s \<noteq> None) (pr_slots pr)))
          (put_proto k (pr\<lparr>pr_slots := []\<rparr>) m))"

definition hasInstanceAlive :: "proto \<Rightarrow> bool" where
  "hasInstanceAlive pr \<longleftrightarrow> (\<exists>s\<in>set (pr_slots pr). s \<noteq> None)"

definition ensure_proto :: "pkey \<Rightarrow> desc \<Rightarrow> mgr \<Rightarrow> mgr" where
  "ensure_proto k d m = (if the_proto k m = None then put_proto k \<lparr>pr_desc = d, pr_js = False, pr_slots = []\<rparr> m else m)"

definition getInterfacePrototype :: "pkey \<Rightarrow> desc \<Rightarrow> mgr \<Rightarrow> pkey \<times> mgr" where
  "getInterfacePrototype k d m = (let k' = [hd k, d_name d] in (k', ensure_proto k' d m))"

section \<open>The manager\<close>

definition ensureJsPrototype :: "pkey \<Rightarrow> mgr \<Rightarrow> mgr option" where
  "ensureJsPrototype k m =
     (case the_proto k m of None \<Rightarrow> None
      | Some pr \<Rightarrow>
          (if pr_js pr then Some m
           else Some (put_proto k (pr\<lparr>pr_js := True\<rparr>) (tell (NCreate k (cb_create (pr_desc pr))) m))))"

text \<open>The script object of the instance: its opaque pointer leads to the instance.\<close>

definition createJsInstance :: "pkey \<Rightarrow> nat \<Rightarrow> mgr \<Rightarrow> mgr option" where
  "createJsInstance k i m = do {
     m1 \<leftarrow> ensureJsPrototype k m;
     Some (m1\<lparr>m_opaque := insert i (m_opaque m1)\<rparr>)
   }"

text \<open>The steps \<open>featureRequire\<close> and \<open>createFeature\<close> share.\<close>

definition make_instance :: "pkey \<Rightarrow> desc \<Rightarrow> mgr \<Rightarrow> (nat \<times> mgr) option" where
  "make_instance k d m = do {
     (i, m1) \<leftarrow> new_instance k False m;
     m2 \<leftarrow> place i k m1;
     m3 \<leftarrow> createJsInstance k i m2;
     Some (i, tell (NRequired i k (cb_required d)) m3)
   }"

definition featureRequire :: "string \<Rightarrow> mgr \<Rightarrow> (nat option \<times> mgr) option" where
  "featureRequire name m =
     (if \<not> m_ctx m then None
      else case findFeature name m of None \<Rightarrow> Some (None, m)
      | Some d \<Rightarrow> do {
          (i, m1) \<leftarrow> make_instance [name] d (ensure_proto [name] d m);
          Some (Some i, m1)
        })"

text \<open>\<open>findFeature\<close> of the manager returns the script prototype: the value is its key.\<close>

definition findFeaturePrototype :: "string \<Rightarrow> mgr \<Rightarrow> (pkey option \<times> mgr) option" where
  "findFeaturePrototype name m =
     (if \<not> m_ctx m then None
      else case findFeature name m of None \<Rightarrow> Some (None, m)
      | Some d \<Rightarrow> do {
          m1 \<leftarrow> ensureJsPrototype [d_name d] (ensure_proto [d_name d] d m);
          Some (Some [d_name d], m1)
        })"

definition is_module :: "pkey \<Rightarrow> bool" where
  "is_module k \<longleftrightarrow> length k = 1"

text \<open>The script value \<open>proto\<close> is a prototype of the manager or, for \<open>None\<close>, undefined.\<close>

definition createFeature :: "pkey option \<Rightarrow> mgr \<Rightarrow> (nat option \<times> mgr) option" where
  "createFeature proto m =
     (if \<not> m_ctx m then None
      else case find (\<lambda>(k, pr). is_module k \<and> (if pr_js pr then proto = Some k else proto = None)) (m_protos m) of
        None \<Rightarrow> Some (None, m)
      | Some (k, pr) \<Rightarrow>
          (case findFeature (hd k) m of None \<Rightarrow> None
           | Some d \<Rightarrow> do {
               (i, m1) \<leftarrow> make_instance k d m;
               Some (Some i, m1)
             }))"

definition FeatureCreateInterface :: "nat \<Rightarrow> bool \<Rightarrow> mgr \<Rightarrow> (nat \<times> mgr) option" where
  "FeatureCreateInterface i vtable m =
     (case the_inst i m of None \<Rightarrow> None
      | Some li \<Rightarrow> new_instance [hd (li_proto li)] vtable m)"

text \<open>Handing an interface to a script initialises it once.\<close>

definition toTargetInterface :: "nat \<Rightarrow> desc \<Rightarrow> mgr \<Rightarrow> (bool \<times> mgr) option" where
  "toTargetInterface i d m =
     (case the_inst i m of None \<Rightarrow> None
      | Some li \<Rightarrow>
          (if \<not> li_interface li then Some (False, m)
           else if li_initialized li then Some (True, m)
           else (let (k, m1) = getInterfacePrototype (li_proto li) d m in do {
             m2 \<leftarrow> place i k (put_inst i (li\<lparr>li_proto := k, li_initialized := True\<rparr>) m1);
             m3 \<leftarrow> createJsInstance k i m2;
             Some (True, m3)
           })))"

text \<open>The collector finds the script object of instance \<open>i\<close> dead.\<close>

definition feature_finalizer :: "nat \<Rightarrow> mgr \<Rightarrow> mgr option" where
  "feature_finalizer i m =
     (if i \<notin> m_opaque m then Some m
      else case the_inst i m of None \<Rightarrow> None
      | Some li \<Rightarrow> do {
          (ret, m1) \<leftarrow> removeInstance (li_proto li) (li_slot li) (m\<lparr>m_opaque := m_opaque m - {i}\<rparr>);
          if ret then Some m1 else None
        })"

section \<open>Tasks\<close>

definition addTask :: "nat \<Rightarrow> task \<Rightarrow> mgr \<Rightarrow> mgr option" where
  "addTask i t m = do {
     m1 \<leftarrow> addRef i m;
     Some (m1\<lparr>m_tasks := m_tasks m1 @ [(i, t)]\<rparr>)
   }"

definition FeaturePost :: "nat \<Rightarrow> task \<Rightarrow> mgr \<Rightarrow> (bool \<times> mgr) option" where
  "FeaturePost i t m =
     (case the_inst i m of None \<Rightarrow> None
      | Some li \<Rightarrow>
          (if li_detached li then Some (False, m)
           else do { m1 \<leftarrow> addTask i t m; Some (True, m1) }))"

fun post_all :: "(nat \<times> task) list \<Rightarrow> mgr \<Rightarrow> mgr option" where
  "post_all [] m = Some m"
| "post_all ((i, t) # ps) m = do { (r, m1) \<leftarrow> FeaturePost i t m; post_all ps m1 }"

text \<open>
  The permission tasks look at their request only for a live, attached instance, but then read
  it before they check that it is still there.
\<close>

fun run_task :: "task_mode \<Rightarrow> nat \<Rightarrow> task \<Rightarrow> mgr \<Rightarrow> mgr option" where
  "run_task mode i (TUser x posts) m = post_all posts (tell (NTask mode i x) m)"
| "run_task mode i (TRequest p) m =
     (case the_inst i m of None \<Rightarrow> None
      | Some li \<Rightarrow>
          (if mode = FEATURE_TASK_MODE_NORMAL \<and> \<not> li_detached li \<and> p \<in> okeys (m_perms m) \<and> m_perm_cb m
           then Some (tell (NAsked p) m) else Some m))"
| "run_task mode i (TGrant p) m =
     (case the_inst i m of None \<Rightarrow> None
      | Some li \<Rightarrow>
          (if mode = FEATURE_TASK_MODE_NORMAL \<and> \<not> li_detached li
           then (case map_of (m_perms m) p of None \<Rightarrow> None
             | Some pm \<Rightarrow> Some ((tell (NGranted p (pm_inst pm)) m)\<lparr>m_perms := omap_del p (m_perms m)\<rparr>))
           else Some m))"
| "run_task mode i (TReject p) m =
     (case the_inst i m of None \<Rightarrow> None
      | Some li \<Rightarrow>
          (if mode = FEATURE_TASK_MODE_NORMAL \<and> \<not> li_detached li
           then (case map_of (m_perms m) p of None \<Rightarrow> None
             | Some pm \<Rightarrow> Some ((tell (NRejected p (pm_inst pm) (pm_reason pm)) m)\<lparr>m_perms := omap_del p (m_perms m)\<rparr>))
           else Some m))"

fun run_tasks :: "task_mode \<Rightarrow> (nat \<times> task) list \<Rightarrow> mgr \<Rightarrow> mgr option" where
  "run_tasks mode [] m = Some m"
| "run_tasks mode ((i, t) # ts) m = do {
     m1 \<leftarrow> run_task mode i t m;
     m2 \<leftarrow> release i m1;
     run_tasks mode ts m2
   }"

definition runAllTasks :: "task_mode \<Rightarrow> mgr \<Rightarrow> mgr option" where
  "runAllTasks mode m = run_tasks mode (m_tasks m) (m\<lparr>m_tasks := []\<rparr>)"

section \<open>Permissions\<close>

definition isBlackListed :: "string \<Rightarrow> string \<Rightarrow> bool" where
  "isBlackListed feature api \<longleftrightarrow> feature = ''system.device'' \<and> api = ''getDeviceId''"

definition FeatureRequestPermissions :: "nat \<Rightarrow> string \<Rightarrow> mgr \<Rightarrow> (bool \<times> mgr) option" where
  "FeatureRequestPermissions i api m =
     (case the_inst i m of None \<Rightarrow> None
      | Some li \<Rightarrow>
          (if li_detached li \<or> \<not> m_perm_cb m then Some (False, m)
           else (let p = m_pnext m in do {
             m1 \<leftarrow> addTask i (TRequest p)
               (m\<lparr>m_pnext := Suc p, m_perms := omap_put p \<lparr>pm_inst = i, pm_reason = FEATURE_PERMS_DENIED\<rparr> (m_perms m)\<rparr>);
             Some (\<not> isBlackListed (li_desc li) api, m1)
           })))"

definition FeatureGrantPermissions :: "nat \<Rightarrow> mgr \<Rightarrow> mgr option" where
  "FeatureGrantPermissions p m =
     (case map_of (m_perms m) p of None \<Rightarrow> Some m | Some pm \<Rightarrow> addTask (pm_inst pm) (TGrant p) m)"

definition FeatureRejectPermissions :: "nat \<Rightarrow> reject_reason \<Rightarrow> mgr \<Rightarrow> mgr option" where
  "FeatureRejectPermissions p r m =
     (case map_of (m_perms m) p of None \<Rightarrow> Some m
      | Some pm \<Rightarrow> addTask (pm_inst pm) (TReject p) (m\<lparr>m_perms := omap_put p (pm\<lparr>pm_reason := r\<rparr>) (m_perms m)\<rparr>))"

section \<open>The end\<close>

definition detachFeatureInstances :: "mgr \<Rightarrow> mgr option" where
  "detachFeatureInstances m = foldM instance_onDetached (map fst (m_insts m)) m"

definition delete_proto :: "pkey \<Rightarrow> mgr \<Rightarrow> mgr option" where
  "delete_proto k m = do {
     m1 \<leftarrow> clearAllInstances k m;
     Some (m1\<lparr>m_protos := omap_del k (m_protos m1)\<rparr>)
   }"

definition free_prototype :: "pkey \<Rightarrow> mgr \<Rightarrow> mgr option" where
  "free_prototype k m = (case the_proto k m of None \<Rightarrow> None
     | Some pr \<Rightarrow> Some (put_proto k (pr\<lparr>pr_js := False\<rparr>) m))"

definition children :: "pkey \<Rightarrow> mgr \<Rightarrow> pkey list" where
  "children k m = filter (\<lambda>k'. \<not> is_module k' \<and> hd k' = hd k) (map fst (m_protos m))"

definition destroy_proto :: "pkey \<Rightarrow> mgr \<Rightarrow> mgr option" where
  "destroy_proto k m =
     (case findFeature (hd k) m of None \<Rightarrow> None
      | Some d \<Rightarrow>
          (let cs = children k m in do {
             m1 \<leftarrow> foldM (\<lambda>c m. do { m' \<leftarrow> clearAllInstances c m; free_prototype c m' }) cs m;
             m2 \<leftarrow> clearAllInstances k m1;
             m3 \<leftarrow> free_prototype k (tell (NDestroy k (cb_destroy d)) m2);
             m4 \<leftarrow> delete_proto k m3;
             foldM delete_proto cs m4
           }))"

definition uninit :: "mgr \<Rightarrow> mgr option" where
  "uninit m =
     (if \<not> m_ctx m then delete_registry m
      else do {
        m1 \<leftarrow> detachFeatureInstances m;
        m2 \<leftarrow> foldM destroy_proto (filter is_module (map fst (m_protos m1))) m1;
        m3 \<leftarrow> delete_registry m2;
        Some (m3\<lparr>m_ctx := False\<rparr>)
      })"

definition delete_manager :: "mgr \<Rightarrow> mgr option" where
  "delete_manager m = runAllTasks FEATURE_TASK_MODE_FREE (m\<lparr>m_ctx := False\<rparr>)"

definition new_manager :: "bool \<Rightarrow> mgr" where
  "new_manager cb = \<lparr>m_ctx = True, m_registered = True, m_registry = [], m_protos = [], m_insts = [], m_next = 0,
     m_opaque = {}, m_tasks = [], m_perm_cb = cb, m_perms = [], m_pnext = 0, m_log = []\<rparr>"

end
