(* ===== verification/LifecycleInv.thy ===== *)
theory LifecycleInv
  imports Lifecycle
begin

text \<open>
  The contract of the life cycle: \<open>log_ok\<close> says in which order the native side may be told of
  creations, detachments, tasks and answers, \<open>lc_inv\<close> is the invariant of the manager that
  gives it: every reference count is the number of references there are, slots and instances
  point at each other, a script object leads only to an attached instance in its slot, and the
  log agrees with the state. \<open>H\<close> are the references held outside of the manager.
\<close>

section \<open>The contract\<close>

fun is_detached :: "nat \<Rightarrow> entry \<Rightarrow> bool" where
  "is_detached i (NDetached j b) \<longleftrightarrow> i = j"
| "is_detached i _ \<longleftrightarrow> False"

fun is_deleted :: "nat \<Rightarrow> entry \<Rightarrow> bool" where
  "is_deleted i (NDeleted j b) \<longleftrightarrow> i = j"
| "is_deleted i _ \<longleftrightarrow> False"

fun is_required :: "nat \<Rightarrow> entry \<Rightarrow> bool" where
  "is_required i (NRequired j k b) \<longleftrightarrow> i = j"
| "is_required i _ \<longleftrightarrow> False"

fun is_created :: "pkey \<Rightarrow> entry \<Rightarrow> bool" where
  "is_created k (NCreate k' b) \<longleftrightarrow> k = k'"
| "is_created k _ \<longleftrightarrow> False"

fun is_destroyed :: "pkey \<Rightarrow> entry \<Rightarrow> bool" where
  "is_destroyed k (NDestroy k' b) \<longleftrightarrow> k = k'"
| "is_destroyed k _ \<longleftrightarrow> False"

fun is_answer :: "nat \<Rightarrow> entry \<Rightarrow> bool" where
  "is_answer p (NGranted q i) \<longleftrightarrow> p = q"
| "is_answer p (NRejected q i r) \<longleftrightarrow> p = q"
| "is_answer p _ \<longleftrightarrow> False"

fun required_detached :: "entry list \<Rightarrow> entry \<Rightarrow> bool" where
  "required_detached l (NRequired i k b) \<longleftrightarrow> list_ex (is_detached i) l"
| "required_detached l _ \<longleftrightarrow> True"

fun created_destroyed :: "entry list \<Rightarrow> entry \<Rightarrow> bool" where
  "created_destroyed l (NCreate k b) \<longleftrightarrow> (is_module k \<longrightarrow> list_ex (is_destroyed k) l)"
| "created_destroyed l _ \<longleftrightarrow> True"

fun allowed :: "entry list \<Rightarrow> entry \<Rightarrow> bool" where
  "allowed l (NCreate k b) \<longleftrightarrow> \<not> list_ex (is_created k) l"
| "allowed l (NRequired i k b) \<longleftrightarrow>
     \<not> list_ex (is_required i) l \<and> \<not> list_ex (is_detached i) l \<and> list_ex (is_created k) l"
| "allowed l (NDetached i b) \<longleftrightarrow> \<not> list_ex (is_detached i) l"
| "allowed l (NDeleted i b) \<longleftrightarrow> list_ex (is_detached i) l \<and> \<not> list_ex (is_deleted i) l"
| "allowed l (NDestroy k b) \<longleftrightarrow> \<not> list_ex (is_destroyed k) l \<and> list_all (required_detached l) l"
| "allowed l (NUnregister n b) \<longleftrightarrow> list_all (created_destroyed l) l"
| "allowed l (NTask mode i x) \<longleftrightarrow> \<not> list_ex (is_deleted i) l"
| "allowed l (NGranted p i) \<longleftrightarrow> \<not> list_ex (is_answer p) l \<and> \<not> list_ex (is_detached i) l"
| "allowed l (NRejected p i r) \<longleftrightarrow> \<not> list_ex (is_answer p) l \<and> \<not> list_ex (is_detached i) l"
| "allowed l _ \<longleftrightarrow> True"

fun log_rev_ok :: "entry list \<Rightarrow> bool" where
  "log_rev_ok [] \<longleftrightarrow> True"
| "log_rev_ok (x # l) \<longleftrightarrow> allowed (rev l) x \<and> log_rev_ok l"

definition log_ok :: "entry list \<Rightarrow> bool" where
  "log_ok l \<longleftrightarrow> log_rev_ok (rev l)"

lemma log_ok_simps [simp]: "log_ok []" "log_ok (l @ [x]) \<longleftrightarrow> log_ok l \<and> allowed l x"
  by (auto simp: log_ok_def)

section \<open>The invariant\<close>

definition slot_refs :: "proto \<Rightarrow> nat multiset" where
  "slot_refs pr = mset (map the (filter (\<lambda>s. s \<noteq> None) (pr_slots pr)))"

definition all_refs :: "nat multiset \<Rightarrow> mgr \<Rightarrow> nat multiset" where
  "all_refs H m = mset_over slot_refs (ovals (m_protos m)) + mset (map fst (m_tasks m)) + H"

definition counts_right :: "nat multiset \<Rightarrow> mgr \<Rightarrow> bool" where
  "counts_right H m \<longleftrightarrow> (\<forall>i. case the_inst i m of
     None \<Rightarrow> count (all_refs H m) i = 0
   | Some li \<Rightarrow> li_rc li = int (count (all_refs H m) i) \<and> 0 < li_rc li)"

definition slots_right :: "mgr \<Rightarrow> bool" where
  "slots_right m \<longleftrightarrow> (\<forall>k pr j i. the_proto k m = Some pr \<longrightarrow> j < length (pr_slots pr) \<longrightarrow> pr_slots pr ! j = Some i \<longrightarrow>
     (\<exists>li. the_inst i m = Some li \<and> li_proto li = k \<and> li_slot li = int j \<and> (li_interface li \<longrightarrow> li_initialized li)))"

definition in_slot :: "nat \<Rightarrow> linst \<Rightarrow> mgr \<Rightarrow> bool" where
  "in_slot i li m \<longleftrightarrow> (\<exists>pr j. the_proto (li_proto li) m = Some pr \<and> li_slot li = int j \<and> j < length (pr_slots pr) \<and>
     pr_slots pr ! j = Some i)"

definition shape_right :: "mgr \<Rightarrow> bool" where
  "shape_right m \<longleftrightarrow> omap_ok (m_insts m) \<and> omap_ok (m_protos m) \<and> omap_ok (m_perms m) \<and>
     (\<forall>n d. findFeature n m = Some d \<longrightarrow> d_name d = n) \<and>
     (\<forall>k. the_proto k m \<noteq> None \<longrightarrow> (length k = 1 \<or> length k = 2) \<and> findFeature (hd k) m \<noteq> None) \<and>
     (\<forall>i li. the_inst i m = Some li \<longrightarrow> i < m_next m \<and> li_proto li \<noteq> [] \<and>
        (li_detached li \<or> the_proto (li_proto li) m \<noteq> None))"

definition opaque_right :: "mgr \<Rightarrow> bool" where
  "opaque_right m \<longleftrightarrow> (\<forall>i\<in>m_opaque m. \<exists>li. the_inst i m = Some li \<and> \<not> li_detached li \<and> in_slot i li m)"

definition perms_right :: "mgr \<Rightarrow> bool" where
  "perms_right m \<longleftrightarrow> (\<forall>p pm. map_of (m_perms m) p = Some pm \<longrightarrow>
     p < m_pnext m \<and> \<not> list_ex (is_answer p) (m_log m) \<and>
     (\<exists>li. the_inst (pm_inst pm) m = Some li \<and> \<not> li_detached li)) \<and>
   (\<forall>p. list_ex (is_answer p) (m_log m) \<longrightarrow> p < m_pnext m)"

definition log_right :: "mgr \<Rightarrow> bool" where
  "log_right m \<longleftrightarrow> log_ok (m_log m) \<and>
     (\<forall>i. list_ex (is_detached i) (m_log m) \<longleftrightarrow> i < m_next m \<and> (\<forall>li. the_inst i m = Some li \<longrightarrow> li_detached li)) \<and>
     (\<forall>i. list_ex (is_deleted i) (m_log m) \<longleftrightarrow> i < m_next m \<and> the_inst i m = None) \<and>
     (\<forall>i. list_ex (is_required i) (m_log m) \<longrightarrow> i < m_next m) \<and>
     (\<forall>k pr. the_proto k m = Some pr \<longrightarrow> pr_js pr \<longrightarrow> list_ex (is_created k) (m_log m)) \<and>
     (\<forall>k. is_module k \<longrightarrow> list_ex (is_created k) (m_log m) \<longrightarrow> the_proto k m \<noteq> None \<or> list_ex (is_destroyed k) (m_log m))"

definition lc_inv :: "nat multiset \<Rightarrow> mgr \<Rightarrow> bool" where
  "lc_inv H m \<longleftrightarrow> shape_right m \<and> counts_right H m \<and> slots_right m \<and> opaque_right m \<and> perms_right m \<and> log_right m"

text \<open>Before the manager is torn down nothing it has created is missing.\<close>

definition intact :: "mgr \<Rightarrow> bool" where
  "intact m \<longleftrightarrow> m_registered m \<and>
     (\<forall>k. the_proto k m \<noteq> None \<longrightarrow> the_proto [hd k] m \<noteq> None) \<and>
     (\<forall>i li. the_inst i m = Some li \<longrightarrow> the_proto (li_proto li) m \<noteq> None \<and>
        (li_interface li \<longrightarrow> \<not> li_initialized li \<longrightarrow> \<not> li_detached li)) \<and>
     (\<forall>k. list_ex (is_created k) (m_log m) \<longrightarrow> (\<exists>pr. the_proto k m = Some pr \<and> pr_js pr)) \<and>
     (\<forall>k. \<not> list_ex (is_destroyed k) (m_log m))"

section \<open>The primitives\<close>

lemma the_simps [simp]:
  "the_inst i (put_inst j li m) = (if i = j then Some li else the_inst i m)"
  "the_inst i (put_proto k pr m) = the_inst i m"
  "the_inst i (tell x m) = the_inst i m"
  "the_proto k (put_inst j li m) = the_proto k m"
  "the_proto k (put_proto k' pr m) = (if k = k' then Some pr else the_proto k m)"
  "the_proto k (tell x m) = the_proto k m"
  "findFeature n (put_inst j li m) = findFeature n m"
  "findFeature n (put_proto k pr m) = findFeature n m"
  "findFeature n (tell x m) = findFeature n m"
  by (simp_all add: the_inst_def the_proto_def put_inst_def put_proto_def tell_def findFeature_def)

lemma field_simps [simp]:
  "the_inst i (m\<lparr>m_opaque := X\<rparr>) = the_inst i m" "the_proto k (m\<lparr>m_opaque := X\<rparr>) = the_proto k m"
  "findFeature n (m\<lparr>m_opaque := X\<rparr>) = findFeature n m"
  "the_inst i (m\<lparr>m_tasks := T\<rparr>) = the_inst i m" "the_proto k (m\<lparr>m_tasks := T\<rparr>) = the_proto k m"
  "findFeature n (m\<lparr>m_tasks := T\<rparr>) = findFeature n m"
  "the_inst i (m\<lparr>m_perms := P\<rparr>) = the_inst i m" "the_proto k (m\<lparr>m_perms := P\<rparr>) = the_proto k m"
  "findFeature n (m\<lparr>m_perms := P\<rparr>) = findFeature n m"
  "the_inst i (m\<lparr>m_next := N\<rparr>) = the_inst i m" "the_proto k (m\<lparr>m_next := N\<rparr>) = the_proto k m"
  "findFeature n (m\<lparr>m_next := N\<rparr>) = findFeature n m"
  "the_inst i (m\<lparr>m_pnext := N\<rparr>) = the_inst i m" "the_proto k (m\<lparr>m_pnext := N\<rparr>) = the_proto k m"
  "findFeature n (m\<lparr>m_pnext := N\<rparr>) = findFeature n m"
  "the_inst i (m\<lparr>m_insts := omap_del j (m_insts m)\<rparr>) = (if i = j then None else the_inst i m)"
  "the_proto k (m\<lparr>m_insts := I\<rparr>) = the_proto k m" "findFeature n (m\<lparr>m_insts := I\<rparr>) = findFeature n m"
  "the_inst i (m\<lparr>m_protos := Q\<rparr>) = the_inst i m" "findFeature n (m\<lparr>m_protos := Q\<rparr>) = findFeature n m"
  "the_proto k (m\<lparr>m_protos := omap_del k' (m_protos m)\<rparr>) = (if k = k' then None else the_proto k m)"
  "the_inst i (m\<lparr>m_ctx := c\<rparr>) = the_inst i m" "the_proto k (m\<lparr>m_ctx := c\<rparr>) = the_proto k m"
  "findFeature n (m\<lparr>m_ctx := c\<rparr>) = findFeature n m"
  by (simp_all add: the_inst_def the_proto_def findFeature_def)

lemma put_fields [simp]:
  "m_insts (put_inst i li m) = omap_put i li (m_insts m)" "m_protos (put_inst i li m) = m_protos m"
  "m_tasks (put_inst i li m) = m_tasks m" "m_opaque (put_inst i li m) = m_opaque m" "m_perms (put_inst i li m) = m_perms m"
  "m_next (put_inst i li m) = m_next m" "m_pnext (put_inst i li m) = m_pnext m" "m_log (put_inst i li m) = m_log m"
  "m_ctx (put_inst i li m) = m_ctx m" "m_registered (put_inst i li m) = m_registered m"
  "m_registry (put_inst i li m) = m_registry m" "m_perm_cb (put_inst i li m) = m_perm_cb m"
  "m_insts (put_proto k pr m) = m_insts m" "m_protos (put_proto k pr m) = omap_put k pr (m_protos m)"
  "m_tasks (put_proto k pr m) = m_tasks m" "m_opaque (put_proto k pr m) = m_opaque m" "m_perms (put_proto k pr m) = m_perms m"
  "m_next (put_proto k pr m) = m_next m" "m_pnext (put_proto k pr m) = m_pnext m" "m_log (put_proto k pr m) = m_log m"
  "m_ctx (put_proto k pr m) = m_ctx m" "m_registered (put_proto k pr m) = m_registered m"
  "m_registry (put_proto k pr m) = m_registry m" "m_perm_cb (put_proto k pr m) = m_perm_cb m"
  "m_insts (tell x m) = m_insts m" "m_protos (tell x m) = m_protos m"
  "m_tasks (tell x m) = m_tasks m" "m_opaque (tell x m) = m_opaque m" "m_perms (tell x m) = m_perms m"
  "m_next (tell x m) = m_next m" "m_pnext (tell x m) = m_pnext m" "m_log (tell x m) = m_log m @ [x]"
  "m_ctx (tell x m) = m_ctx m" "m_registered (tell x m) = m_registered m"
  "m_registry (tell x m) = m_registry m" "m_perm_cb (tell x m) = m_perm_cb m"
  by (simp_all add: put_inst_def put_proto_def tell_def)

lemma slot_refs_put:
  assumes "omap_ok (m_protos m)" "the_proto k m = Some pr"
  shows "slot_refs pr + mset_over slot_refs (ovals (omap_put k pr' (m_protos m))) =
    slot_refs pr' + mset_over slot_refs (ovals (m_protos m))"
  using mset_over_put_old [OF assms(1), of k pr] assms(2) by (simp add: the_proto_def)

lemma all_refs_put_inst [simp]: "all_refs H (put_inst i li m) = all_refs H m"
  and all_refs_tell [simp]: "all_refs H (tell x m) = all_refs H m"
  and all_refs_opaque [simp]: "all_refs H (m\<lparr>m_opaque := X\<rparr>) = all_refs H m"
  and all_refs_perms [simp]: "all_refs H (m\<lparr>m_perms := P\<rparr>) = all_refs H m"
  and all_refs_insts [simp]: "all_refs H (m\<lparr>m_insts := I\<rparr>) = all_refs H m"
  by (simp_all add: all_refs_def)

lemma counts_cong:
  "(\<And>i. the_inst i m' = the_inst i m) \<Longrightarrow> all_refs H' m' = all_refs H m \<Longrightarrow> counts_right H' m' = counts_right H m"
  by (simp only: counts_right_def)

lemma live_count:
  assumes "counts_right H m" "0 < count (all_refs H m) i"
  shows "\<exists>li. the_inst i m = Some li"
proof (cases "the_inst i m")
  case None
  then have "count (all_refs H m) i = 0" using assms(1) by (auto simp: counts_right_def dest: spec [of _ i])
  then show ?thesis using assms(2) by simp
qed simp

lemma held_live: "counts_right H m \<Longrightarrow> i \<in># H \<Longrightarrow> \<exists>li. the_inst i m = Some li"
  by (rule live_count) (auto simp: all_refs_def count_eq_zero_iff)

lemma lc_invD:
  assumes "lc_inv H m"
  shows "shape_right m" "counts_right H m" "slots_right m" "opaque_right m" "perms_right m" "log_right m"
  using assms by (simp_all add: lc_inv_def)

section \<open>References\<close>

lemma addRef_ok:
  assumes "lc_inv H m" "the_inst i m = Some li"
  shows "addRef i m = Some (put_inst i (li\<lparr>li_rc := li_rc li + 1\<rparr>) m)"
    "lc_inv (add_mset i H) (put_inst i (li\<lparr>li_rc := li_rc li + 1\<rparr>) m)"
proof -
  let ?m = "put_inst i (li\<lparr>li_rc := li_rc li + 1\<rparr>) m"
  note h = lc_invD [OF assms(1)]
  show "addRef i m = Some ?m" using assms(2) by (simp add: addRef_def)
  have "counts_right (add_mset i H) ?m"
    unfolding counts_right_def
  proof
    fix j
    show "case the_inst j ?m of None \<Rightarrow> count (all_refs (add_mset i H) ?m) j = 0
      | Some lj \<Rightarrow> li_rc lj = int (count (all_refs (add_mset i H) ?m) j) \<and> 0 < li_rc lj"
      using h(2) [unfolded counts_right_def, rule_format, of j] assms(2)
      by (cases "j = i") (auto simp: all_refs_def split: option.splits)
  qed
  moreover have "shape_right ?m" using h(1) assms(2) by (auto simp: shape_right_def)
  moreover have "slots_right ?m" using h(3) assms(2) unfolding slots_right_def by fastforce
  moreover have "opaque_right ?m" using h(4) assms(2) unfolding opaque_right_def in_slot_def by fastforce
  moreover have "perms_right ?m" using h(5) assms(2) unfolding perms_right_def by fastforce
  moreover have "log_right ?m" using h(6) assms(2) unfolding log_right_def by auto
  ultimately show "lc_inv (add_mset i H) ?m" by (simp add: lc_inv_def)
qed

text \<open>What an operation on one instance leaves alone.\<close>

definition quiet :: "mgr \<Rightarrow> mgr \<Rightarrow> bool" where
  "quiet m m' \<longleftrightarrow> m_tasks m' = m_tasks m \<and> m_next m' = m_next m \<and> m_pnext m' = m_pnext m \<and> m_ctx m' = m_ctx m \<and>
     m_registered m' = m_registered m \<and> m_registry m' = m_registry m \<and> m_perm_cb m' = m_perm_cb m \<and>
     m_opaque m' \<subseteq> m_opaque m \<and>
     (\<forall>k. list_ex (is_created k) (m_log m') = list_ex (is_created k) (m_log m)) \<and>
     (\<forall>k. list_ex (is_destroyed k) (m_log m') = list_ex (is_destroyed k) (m_log m))"

lemma quiet_refl: "quiet m m"
  by (simp add: quiet_def)

lemma quiet_trans: "quiet m m' \<Longrightarrow> quiet m' m'' \<Longrightarrow> quiet m m''"
  by (auto simp: quiet_def)

lemma map_of_filter_perm:
  "omap_ok ps \<Longrightarrow> map_of (filter (\<lambda>(p, pm). P pm) ps) p =
    (case map_of ps p of Some pm \<Rightarrow> if P pm then Some pm else None | None \<Rightarrow> None)"
proof (induction ps)
  case (Cons x ps)
  obtain q pm where x: "x = (q, pm)" by (cases x)
  have "map_of ps q = None" using Cons.prems x by (auto simp: omap_ok_Cons map_of_None_okeys)
  then show ?case using Cons x by (auto simp: omap_ok_Cons split: option.splits)
qed simp

lemma omap_ok_filter: "omap_ok ps \<Longrightarrow> omap_ok (filter P ps)"
  by (induction ps) (auto simp: omap_ok_Cons okeys_def)

lemma rc_live:
  assumes "counts_right H m" "the_inst i m = Some li"
  shows "li_rc li = int (count (all_refs H m) i) \<and> 0 < li_rc li"
proof -
  have "case the_inst i m of None \<Rightarrow> count (all_refs H m) i = 0
    | Some li \<Rightarrow> li_rc li = int (count (all_refs H m) i) \<and> 0 < li_rc li"
    using assms(1) unfolding counts_right_def by (rule spec)
  then show ?thesis unfolding assms(2) option.case .
qed

lemma shape_live:
  "shape_right m \<Longrightarrow> the_inst i m = Some li \<Longrightarrow>
   i < m_next m \<and> li_proto li \<noteq> [] \<and> (li_detached li \<or> (\<exists>pr. the_proto (li_proto li) m = Some pr))"
  unfolding shape_right_def by blast

lemma perm_live:
  "perms_right m \<Longrightarrow> map_of (m_perms m) p = Some pm \<Longrightarrow>
   p < m_pnext m \<and> \<not> list_ex (is_answer p) (m_log m) \<and> (\<exists>li. the_inst (pm_inst pm) m = Some li \<and> \<not> li_detached li)"
  unfolding perms_right_def by blast

lemma detach_ok:
  assumes inv: "lc_inv H m" and i: "the_inst i m = Some li"
  shows "\<exists>m'. instance_onDetached i m = Some m' \<and> lc_inv H m' \<and> quiet m m' \<and> m_protos m' = m_protos m \<and>
    i \<notin> m_opaque m' \<and> the_inst i m' = Some (li\<lparr>li_detached := True\<rparr>) \<and> (\<forall>j. j \<noteq> i \<longrightarrow> the_inst j m' = the_inst j m)"
proof (cases "li_detached li")
  case True
  have "i \<notin> m_opaque m" using lc_invD(4) [OF inv] i True by (auto simp: opaque_right_def)
  moreover have "li\<lparr>li_detached := True\<rparr> = li" using True by (cases li) simp
  ultimately show ?thesis using inv i True by (simp add: instance_onDetached_def quiet_refl)
next
  case False
  note h = lc_invD [OF inv]
  obtain pr where pr: "the_proto (li_proto li) m = Some pr" using shape_live [OF h(1) i] False by blast
  let ?x = "NDetached i (cb_detached (pr_desc pr))"
  let ?m = "remove_instance_permissions i
    (put_inst i (li\<lparr>li_detached := True\<rparr>) (tell ?x (m\<lparr>m_opaque := m_opaque m - {i}\<rparr>)))"
  have e: "instance_onDetached i m = Some ?m" using i False pr by (simp add: instance_onDetached_def)
  have t: "the_inst j ?m = (if j = i then Some (li\<lparr>li_detached := True\<rparr>) else the_inst j m)"
    "the_proto k ?m = the_proto k m" "findFeature n ?m = findFeature n m" "m_log ?m = m_log m @ [?x]"
    "m_opaque ?m = m_opaque m - {i}" "m_next ?m = m_next m" "m_pnext ?m = m_pnext m" "all_refs H ?m = all_refs H m"
    "m_insts ?m = omap_put i (li\<lparr>li_detached := True\<rparr>) (m_insts m)" "m_protos ?m = m_protos m"
    "m_perms ?m = filter (\<lambda>(p, pm). pm_inst pm \<noteq> i) (m_perms m)" for j k n
    by (simp_all add: remove_instance_permissions_def)
  have pm: "map_of (m_perms ?m) p = Some q \<longleftrightarrow> map_of (m_perms m) p = Some q \<and> pm_inst q \<noteq> i" for p q
    using h(1) unfolding t(11) shape_right_def by (auto simp: map_of_filter_perm split: option.splits if_splits)
  have nd: "\<not> list_ex (is_detached i) (m_log m)" using h(6) i False by (auto simp: log_right_def)
  have ln: "i < m_next m" using h(1) i by (auto simp: shape_right_def)
  have "shape_right ?m" using h(1) i unfolding shape_right_def t by (auto simp: omap_ok_filter)
  moreover have "counts_right H ?m" using h(2) i unfolding counts_right_def t
    by (auto split: option.splits if_splits)
  moreover have "slots_right ?m" using h(3) i unfolding slots_right_def t by fastforce
  moreover have "opaque_right ?m" using h(4) unfolding opaque_right_def in_slot_def t by auto
  moreover have "perms_right ?m"
    using h(5) i unfolding perms_right_def pm t(1,4,7) by (auto simp: list_ex_append)
  moreover have "log_right ?m"
    using h(6) i nd ln unfolding log_right_def t by (auto simp: list_ex_append)
  ultimately have "lc_inv H ?m" by (simp add: lc_inv_def)
  moreover have "quiet m ?m" by (auto simp: quiet_def remove_instance_permissions_def list_ex_append)
  ultimately show ?thesis using e t by auto
qed

lemma slot_in_refs:
  assumes "the_proto k m = Some pr" "j < length (pr_slots pr)" "pr_slots pr ! j = Some i"
  shows "0 < count (all_refs H m) i"
proof -
  have "Some i \<in> set (filter (\<lambda>s. s \<noteq> None) (pr_slots pr))" using assms(2,3) by (auto simp: in_set_conv_nth)
  then have "i \<in># slot_refs pr" by (force simp: slot_refs_def)
  moreover have "pr \<in> set (ovals (m_protos m))"
    using assms(1) by (force simp: the_proto_def ovals_def dest: map_of_SomeD)
  ultimately have "i \<in># mset_over slot_refs (ovals (m_protos m))" by (auto simp: mset_over_def)
  then show ?thesis by (simp add: all_refs_def)
qed

lemma release_ok:
  assumes inv: "lc_inv (add_mset i H) m"
  shows "\<exists>m'. release i m = Some m' \<and> lc_inv H m' \<and> quiet m m' \<and> m_protos m' = m_protos m \<and>
    (\<forall>j. j \<noteq> i \<longrightarrow> the_inst j m' = the_inst j m) \<and>
    (the_inst i m' = None \<or>
     (\<exists>li. the_inst i m = Some li \<and> the_inst i m' = Some (li\<lparr>li_rc := li_rc li - 1\<rparr>)))"
proof -
  note h = lc_invD [OF inv]
  obtain li where i: "the_inst i m = Some li" using held_live [OF h(2)] by auto
  have c: "li_rc li = int (count (all_refs (add_mset i H) m) i)"
    using rc_live [OF h(2) i] by blast
  have cs: "count (all_refs (add_mset i H) m) j = count (all_refs H m) j + (if j = i then 1 else 0)" for j
    by (simp add: all_refs_def)
  show ?thesis
  proof (cases "li_rc li - 1 = 0")
    case True
    obtain m1 where m1: "instance_onDetached i m = Some m1" "lc_inv (add_mset i H) m1" "quiet m m1"
      "m_protos m1 = m_protos m" "i \<notin> m_opaque m1" "the_inst i m1 = Some (li\<lparr>li_detached := True\<rparr>)"
      "\<forall>j. j \<noteq> i \<longrightarrow> the_inst j m1 = the_inst j m"
      using detach_ok [OF inv i] by blast
    note g = lc_invD [OF m1(2)]
    let ?x = "NDeleted i (li_interface li)"
    let ?m = "tell ?x (m1\<lparr>m_insts := omap_del i (m_insts m1)\<rparr>)"
    have e: "release i m = Some ?m" using i True m1(1) by (simp add: release_def)
    have t: "the_inst j ?m = (if j = i then None else the_inst j m1)"
      "the_proto k ?m = the_proto k m1" "findFeature n ?m = findFeature n m1" "m_log ?m = m_log m1 @ [?x]"
      "m_opaque ?m = m_opaque m1" "m_next ?m = m_next m1" "m_pnext ?m = m_pnext m1" "all_refs H ?m = all_refs H m1"
      "m_insts ?m = omap_del i (m_insts m1)" "m_protos ?m = m_protos m1" "m_perms ?m = m_perms m1" for j k n
      by simp_all
    have "all_refs H m1 = all_refs H m" using m1(3,4) by (simp add: all_refs_def quiet_def)
    then have z: "count (all_refs H m1) i = 0" using c cs [of i] True by simp
    have sl: "pr_slots pr ! j \<noteq> Some i" if "the_proto k m1 = Some pr" "j < length (pr_slots pr)" for k pr j
      using slot_in_refs [OF that, of i H] z by auto
    have ad: "list_ex (is_detached i) (m_log m1)" "\<not> list_ex (is_deleted i) (m_log m1)" "i < m_next m1"
      using g(6,1) m1(6) by (auto simp: log_right_def shape_right_def)
    have "shape_right ?m" using g(1) unfolding shape_right_def t by auto
    moreover have "counts_right H ?m" unfolding counts_right_def t
    proof
      fix j
      show "case if j = i then None else the_inst j m1 of None \<Rightarrow> count (all_refs H m1) j = 0
        | Some li \<Rightarrow> li_rc li = int (count (all_refs H m1) j) \<and> 0 < li_rc li"
        using g(2) [unfolded counts_right_def, rule_format, of j] z
        by (cases "j = i") (auto simp: all_refs_def split: option.splits)
    qed
    moreover have "slots_right ?m" using g(3) sl unfolding slots_right_def t by (metis (lifting))
    moreover have "opaque_right ?m" using g(4) m1(5) unfolding opaque_right_def in_slot_def t by auto
    moreover have "perms_right ?m"
    proof -
      have "pm_inst pm \<noteq> i" if "map_of (m_perms m1) p = Some pm" for p pm
        using perm_live [OF g(5) that] m1(6) by auto
      then show ?thesis using g(5) unfolding perms_right_def t by (auto simp: list_ex_append)
    qed
    moreover have "log_right ?m" using g(6) m1(6) ad unfolding log_right_def t by (auto simp: list_ex_append)
    ultimately have "lc_inv H ?m" by (simp add: lc_inv_def)
    moreover have "quiet m ?m" using m1(3) by (auto simp: quiet_def list_ex_append)
    ultimately show ?thesis using e m1(4,7) by auto
  next
    case False
    let ?m = "put_inst i (li\<lparr>li_rc := li_rc li - 1\<rparr>) m"
    have e: "release i m = Some ?m" using i False by (simp add: release_def)
    have "0 < li_rc li" using rc_live [OF h(2) i] by blast
    then have pos: "0 < li_rc li - 1" using False by simp
    have "counts_right H ?m" unfolding counts_right_def
    proof
      fix j
      show "case the_inst j ?m of None \<Rightarrow> count (all_refs H ?m) j = 0
        | Some lj \<Rightarrow> li_rc lj = int (count (all_refs H ?m) j) \<and> 0 < li_rc lj"
        using h(2) [unfolded counts_right_def, rule_format, of j] cs [of j] c pos i
        by (cases "j = i") (auto split: option.splits)
    qed
    moreover have "shape_right ?m" using h(1) i by (auto simp: shape_right_def)
    moreover have "slots_right ?m" using h(3) i unfolding slots_right_def by fastforce
    moreover have "opaque_right ?m" using h(4) i unfolding opaque_right_def in_slot_def by fastforce
    moreover have "perms_right ?m" using h(5) i unfolding perms_right_def by fastforce
    moreover have "log_right ?m" using h(6) i unfolding log_right_def by auto
    ultimately have "lc_inv H ?m" by (simp add: lc_inv_def)
    moreover have "quiet m ?m" by (simp add: quiet_def)
    ultimately show ?thesis using e i by auto
  qed
qed

section \<open>Creating\<close>

lemma fresh_inst: "shape_right m \<Longrightarrow> the_inst (m_next m) m = None"
  using shape_live [of m "m_next m"] by (cases "the_inst (m_next m) m") auto

lemma no_slot: "slots_right m \<Longrightarrow> the_inst i m = None \<Longrightarrow> the_proto k m = Some pr \<Longrightarrow> j < length (pr_slots pr) \<Longrightarrow>
  pr_slots pr ! j \<noteq> Some i"
  unfolding slots_right_def by fastforce

lemma new_instance_ok:
  fixes v :: bool
  assumes inv: "lc_inv H m" and k: "the_proto k m = Some pr" "k \<noteq> []"
  defines "i \<equiv> m_next m"
  defines "li \<equiv> \<lparr>li_rc = 1, li_detached = False, li_initialized = False, li_interface = v,
             li_slot = - 1, li_proto = k, li_desc = d_name (pr_desc pr)\<rparr>"
  defines "m' \<equiv> put_inst i li (m\<lparr>m_next := Suc i\<rparr>)"
  shows "new_instance k v m = Some (i, m')" "lc_inv (add_mset i H) m'"
proof -
  note h = lc_invD [OF inv]
  show "new_instance k v m = Some (i, m')" using k by (simp add: new_instance_def m'_def li_def i_def Let_def)
  have n: "the_inst i m = None" unfolding i_def by (rule fresh_inst [OF h(1)])
  have z: "count (all_refs H m) i = 0" using h(2) n by (auto simp: counts_right_def dest: spec [of _ i])
  have r: "all_refs (add_mset i H) m' = add_mset i (all_refs H m)" by (simp add: all_refs_def m'_def)
  have t: "the_inst j m' = (if j = i then Some li else the_inst j m)" for j by (simp add: m'_def)
  have u: "the_proto k' m' = the_proto k' m" "findFeature nm m' = findFeature nm m" "m_log m' = m_log m"
    "m_opaque m' = m_opaque m" "m_next m' = Suc i" "m_pnext m' = m_pnext m" "m_perms m' = m_perms m"
    "m_insts m' = omap_put i li (m_insts m)" "m_protos m' = m_protos m" for k' nm
    by (simp_all add: m'_def)
  have "shape_right m'"
    using h(1) k unfolding shape_right_def t u by (auto simp: li_def i_def less_Suc_eq)
  moreover have "counts_right (add_mset i H) m'"
    unfolding counts_right_def t r
  proof
    fix j
    show "case if j = i then Some li else the_inst j m of None \<Rightarrow> count (add_mset i (all_refs H m)) j = 0
      | Some li \<Rightarrow> li_rc li = int (count (add_mset i (all_refs H m)) j) \<and> 0 < li_rc li"
      using h(2) [unfolded counts_right_def, rule_format, of j] z by (auto simp: li_def split: option.splits)
  qed
  moreover have "slots_right m'" using h(3) n unfolding slots_right_def t u by fastforce
  moreover have "opaque_right m'" using h(4) n unfolding opaque_right_def in_slot_def t u by fastforce
  moreover have "perms_right m'" using h(5) n unfolding perms_right_def t u by fastforce
  moreover have "log_right m'"
    using h(6) n unfolding log_right_def t u by (auto simp: i_def li_def less_Suc_eq)
  ultimately show "lc_inv (add_mset i H) m'" by (simp add: lc_inv_def)
qed

lemma free_slot_spec:
  "free_slot ss \<le> length ss" "free_slot ss < length ss \<Longrightarrow> ss ! free_slot ss = None"
  "j < free_slot ss \<Longrightarrow> ss ! j \<noteq> None"
proof -
  show "free_slot ss \<le> length ss" by (induction ss rule: free_slot.induct) auto
  show "free_slot ss < length ss \<Longrightarrow> ss ! free_slot ss = None" by (induction ss rule: free_slot.induct) auto
  show "j < free_slot ss \<Longrightarrow> ss ! j \<noteq> None"
    by (induction ss arbitrary: j rule: free_slot.induct) (auto simp: less_Suc_eq_0_disj)
qed

lemma filter_update_None:
  "j < length ss \<Longrightarrow> ss ! j = None \<Longrightarrow>
   mset (map the (filter (\<lambda>s. s \<noteq> None) (ss[j := Some i]))) = add_mset i (mset (map the (filter (\<lambda>s. s \<noteq> None) ss)))"
  by (induction ss arbitrary: j) (auto simp: less_Suc_eq_0_disj split: nat.splits)

lemma filter_update_Some:
  "j < length ss \<Longrightarrow> ss ! j = Some i \<Longrightarrow>
   add_mset i (mset (map the (filter (\<lambda>s. s \<noteq> None) (ss[j := None])))) = mset (map the (filter (\<lambda>s. s \<noteq> None) ss))"
  by (induction ss arbitrary: j) (auto simp: less_Suc_eq_0_disj split: nat.splits)

lemma addInstance_spec:
  assumes "addInstance i ss = (pos, ss')"
  shows "pos < length ss'" "ss' ! pos = Some i" "\<And>j. j < length ss' \<Longrightarrow> j \<noteq> pos \<Longrightarrow> j < length ss \<and> ss' ! j = ss ! j"
    "\<And>j. j < length ss \<Longrightarrow> ss ! j \<noteq> None \<Longrightarrow> j < length ss' \<and> ss' ! j = ss ! j"
    "mset (map the (filter (\<lambda>s. s \<noteq> None) ss')) = add_mset i (mset (map the (filter (\<lambda>s. s \<noteq> None) ss)))"
proof -
  note f = free_slot_spec(1,2) [of ss]
  have e: "pos = free_slot ss" "ss' = (if pos = length ss then ss @ [Some i] else ss[pos := Some i])"
    using assms by (auto simp: addInstance_def Let_def)
  show "pos < length ss'" "ss' ! pos = Some i" using e f by auto
  show "\<And>j. j < length ss' \<Longrightarrow> j \<noteq> pos \<Longrightarrow> j < length ss \<and> ss' ! j = ss ! j"
    using e f by (auto simp: nth_append split: if_splits)
  show "\<And>j. j < length ss \<Longrightarrow> ss ! j \<noteq> None \<Longrightarrow> j < length ss' \<and> ss' ! j = ss ! j"
    using e f by (auto simp: nth_append nth_list_update split: if_splits)
  show "mset (map the (filter (\<lambda>s. s \<noteq> None) ss')) = add_mset i (mset (map the (filter (\<lambda>s. s \<noteq> None) ss)))"
  proof (cases "pos = length ss")
    case False
    then have l: "free_slot ss < length ss" using e f by linarith
    then show ?thesis using e False filter_update_None [OF l f(2)] by (simp only: if_False)
  qed (use e in simp)
qed

definition proto_info :: "pkey \<Rightarrow> mgr \<Rightarrow> (desc \<times> bool) option" where
  "proto_info k m = map_option (\<lambda>pr. (pr_desc pr, pr_js pr)) (the_proto k m)"

definition unslotted :: "nat \<Rightarrow> mgr \<Rightarrow> bool" where
  "unslotted i m \<longleftrightarrow> (\<forall>k pr j. the_proto k m = Some pr \<longrightarrow> j < length (pr_slots pr) \<longrightarrow> pr_slots pr ! j \<noteq> Some i)"

lemma place_ok:
  assumes inv: "lc_inv (add_mset i H) m" and i: "the_inst i m = Some li" "\<not> li_detached li" "li_proto li = k"
    "li_interface li \<longrightarrow> li_initialized li"
    and pr: "the_proto k m = Some pr"
    and out0: "unslotted i m"
  shows "\<exists>m' pos. place i k m = Some m' \<and> lc_inv H m' \<and> quiet m m' \<and> m_log m' = m_log m \<and>
    the_inst i m' = Some (li\<lparr>li_slot := int pos\<rparr>) \<and> in_slot i (li\<lparr>li_slot := int pos\<rparr>) m' \<and>
    (\<forall>j. j \<noteq> i \<longrightarrow> the_inst j m' = the_inst j m) \<and> (\<forall>k'. proto_info k' m' = proto_info k' m) \<and>
    m_opaque m' = m_opaque m"
proof -
  note h = lc_invD [OF inv]
  note out = out0 [unfolded unslotted_def, rule_format]
  obtain pos ss where a: "addInstance i (pr_slots pr) = (pos, ss)" by fastforce
  note ai = addInstance_spec [OF a]
  let ?li = "li\<lparr>li_slot := int pos\<rparr>" and ?pr = "pr\<lparr>pr_slots := ss\<rparr>"
  let ?m = "put_inst i ?li (put_proto k ?pr m)"
  have e: "place i k m = Some ?m" using i pr a by (simp add: place_def)
  have t: "the_inst j ?m = (if j = i then Some ?li else the_inst j m)"
    "the_proto k' ?m = (if k' = k then Some ?pr else the_proto k' m)" for j k' by simp_all
  have "slot_refs ?pr = add_mset i (slot_refs pr)" using ai(5) by (simp add: slot_refs_def)
  then have "mset_over slot_refs (ovals (omap_put k ?pr (m_protos m))) = add_mset i (mset_over slot_refs (ovals (m_protos m)))"
    using slot_refs_put [OF _ pr, of ?pr] h(1) by (simp add: shape_right_def)
  then have r: "all_refs H ?m = all_refs (add_mset i H) m" by (simp add: all_refs_def)
  have op: "i \<notin> m_opaque m" using h(4) i(1) out unfolding opaque_right_def in_slot_def by fastforce
  have "shape_right ?m"
    using h(1) i pr unfolding shape_right_def t by (auto split: if_splits)
  moreover have "counts_right H ?m" unfolding counts_right_def t r
  proof
    fix j
    show "case if j = i then Some ?li else the_inst j m of None \<Rightarrow> count (all_refs (add_mset i H) m) j = 0
      | Some li \<Rightarrow> li_rc li = int (count (all_refs (add_mset i H) m) j) \<and> 0 < li_rc li"
      using h(2) [unfolded counts_right_def, rule_format, of j] i by (auto split: option.splits)
  qed
  moreover have "slots_right ?m" unfolding slots_right_def
  proof (intro allI impI)
    fix k' pr' j x assume x: "the_proto k' ?m = Some pr'" "j < length (pr_slots pr')" "pr_slots pr' ! j = Some x"
    show "\<exists>lx. the_inst x ?m = Some lx \<and> li_proto lx = k' \<and> li_slot lx = int j \<and> (li_interface lx \<longrightarrow> li_initialized lx)"
    proof (cases "k' = k \<and> j = pos")
      case True
      then have "pr' = ?pr" using x(1) unfolding t by simp
      then have "x = i" using x(3) ai(2) True by simp
      then show ?thesis using True i by simp
    next
      case False
      have old: "\<exists>pr0. the_proto k' m = Some pr0 \<and> j < length (pr_slots pr0) \<and> pr_slots pr0 ! j = Some x"
        using x False ai(3) [of j] pr unfolding t by (cases "k' = k") auto
      then have "x \<noteq> i" using out by auto
      then show ?thesis using old h(3) unfolding slots_right_def t by (metis (lifting))
    qed
  qed
  moreover have "opaque_right ?m" unfolding opaque_right_def
  proof
    fix x assume "x \<in> m_opaque ?m"
    then have x: "x \<in> m_opaque m" "x \<noteq> i" using op by auto
    then obtain lx pr0 j where l: "the_inst x m = Some lx" "\<not> li_detached lx" "the_proto (li_proto lx) m = Some pr0"
      "li_slot lx = int j" "j < length (pr_slots pr0)" "pr_slots pr0 ! j = Some x"
      using h(4) unfolding opaque_right_def in_slot_def by blast
    have "in_slot x lx ?m" using l ai(4) [of j] pr unfolding in_slot_def t by (cases "li_proto lx = k") auto
    then show "\<exists>li. the_inst x ?m = Some li \<and> \<not> li_detached li \<and> in_slot x li ?m" using l x t by auto
  qed
  moreover have "perms_right ?m" using h(5) i unfolding perms_right_def t by fastforce
  moreover have "log_right ?m" using h(6) i pr unfolding log_right_def t by auto
  ultimately have "lc_inv H ?m" by (simp add: lc_inv_def)
  moreover have "quiet m ?m" by (simp add: quiet_def)
  moreover have "in_slot i ?li ?m" using ai i pr by (simp add: in_slot_def)
  moreover have "proto_info k' ?m = proto_info k' m" for k' using pr by (simp add: proto_info_def)
  ultimately show ?thesis using e t by (intro exI [of _ ?m] exI [of _ pos]) simp
qed

lemma ensure_proto_ok:
  assumes inv: "lc_inv H m" and k: "length k = 1 \<or> length k = 2" "findFeature (hd k) m \<noteq> None"
  shows "lc_inv H (ensure_proto k d m)" "the_proto k (ensure_proto k d m) \<noteq> None"
    "intact m \<Longrightarrow> length k = 1 \<or> the_proto [hd k] m \<noteq> None \<Longrightarrow> intact (ensure_proto k d m)"
proof -
  note h = lc_invD [OF inv]
  let ?pr = "\<lparr>pr_desc = d, pr_js = False, pr_slots = []\<rparr>"
  let ?m = "put_proto k ?pr m"
  show "the_proto k (ensure_proto k d m) \<noteq> None" by (simp add: ensure_proto_def)
  have "lc_inv H ?m" if n: "the_proto k m = None"
  proof -
    have "k \<notin> okeys (m_protos m)" using n by (simp add: the_proto_def map_of_None_okeys)
    then have "mset_over slot_refs (ovals (omap_put k ?pr (m_protos m))) = mset_over slot_refs (ovals (m_protos m))"
      by (simp add: mset_over_put_new slot_refs_def)
    then have r: "all_refs H ?m = all_refs H m" by (simp add: all_refs_def)
    have "shape_right ?m" using h(1) k n unfolding shape_right_def by (auto split: if_splits)
    moreover have "counts_right H ?m" using h(2) counts_cong [OF _ r] by simp
    moreover have "slots_right ?m" using h(3) unfolding slots_right_def by (auto split: if_splits)
    moreover have "opaque_right ?m" using h(4) n unfolding opaque_right_def in_slot_def by fastforce
    moreover have "perms_right ?m" using h(5) by (simp add: perms_right_def)
    moreover have "log_right ?m" using h(6) n unfolding log_right_def by (auto split: if_splits)
    ultimately show ?thesis by (simp add: lc_inv_def)
  qed
  then show "lc_inv H (ensure_proto k d m)" using inv by (simp add: ensure_proto_def)
  assume it: "intact m" and c: "length k = 1 \<or> the_proto [hd k] m \<noteq> None"
  have "k = [hd k]" if "length k = 1" using that by (cases k) auto
  then have c': "k = [hd k] \<or> the_proto [hd k] m \<noteq> None" using c by blast
  show "intact (ensure_proto k d m)"
    using it c' unfolding intact_def ensure_proto_def by (auto split: if_splits)
qed

lemma ensure_proto_rest [simp]:
  "the_inst i (ensure_proto k d m) = the_inst i m" "m_log (ensure_proto k d m) = m_log m"
  "m_next (ensure_proto k d m) = m_next m" "m_ctx (ensure_proto k d m) = m_ctx m" "m_tasks (ensure_proto k d m) = m_tasks m"
  "m_opaque (ensure_proto k d m) = m_opaque m" "findFeature n (ensure_proto k d m) = findFeature n m"
  "m_registered (ensure_proto k d m) = m_registered m" "m_perms (ensure_proto k d m) = m_perms m"
  "m_pnext (ensure_proto k d m) = m_pnext m"
  by (simp_all add: ensure_proto_def)

lemma intactD:
  assumes "intact m"
  shows "m_registered m" "the_proto k m \<noteq> None \<Longrightarrow> the_proto [hd k] m \<noteq> None"
    "the_inst i m = Some li \<Longrightarrow> the_proto (li_proto li) m \<noteq> None"
    "the_inst i m = Some li \<Longrightarrow> li_interface li \<Longrightarrow> \<not> li_initialized li \<Longrightarrow> \<not> li_detached li"
    "list_ex (is_created k) (m_log m) \<Longrightarrow> \<exists>pr. the_proto k m = Some pr \<and> pr_js pr"
    "\<not> list_ex (is_destroyed k) (m_log m)"
  using assms unfolding intact_def by blast+

lemma ensureJs_ok:
  assumes inv: "lc_inv H m" and it: "intact m" and pr: "the_proto k m = Some pr"
  shows "\<exists>m'. ensureJsPrototype k m = Some m' \<and> lc_inv H m' \<and> intact m' \<and>
    the_proto k m' = Some (pr\<lparr>pr_js := True\<rparr>) \<and> (\<forall>k'. k' \<noteq> k \<longrightarrow> the_proto k' m' = the_proto k' m) \<and>
    (\<forall>i. the_inst i m' = the_inst i m) \<and> m_tasks m' = m_tasks m \<and> m_ctx m' = m_ctx m \<and> m_next m' = m_next m \<and>
    m_opaque m' = m_opaque m \<and> list_ex (is_created k) (m_log m') \<and>
    (\<forall>i. list_ex (is_required i) (m_log m') = list_ex (is_required i) (m_log m))"
proof (cases "pr_js pr")
  case True
  moreover have "pr\<lparr>pr_js := True\<rparr> = pr" using True by (cases pr) simp
  moreover have "list_ex (is_created k) (m_log m)" using lc_invD(6) [OF inv] pr True by (auto simp: log_right_def)
  ultimately show ?thesis using inv it pr by (simp add: ensureJsPrototype_def)
next
  case False
  note h = lc_invD [OF inv]
  let ?pr = "pr\<lparr>pr_js := True\<rparr>" and ?x = "NCreate k (cb_create (pr_desc pr))"
  let ?m = "put_proto k ?pr (tell ?x m)"
  have e: "ensureJsPrototype k m = Some ?m" using pr False by (simp add: ensureJsPrototype_def)
  have nc: "\<not> list_ex (is_created k) (m_log m)" using intactD(5) [OF it, of k] pr False by auto
  have "slot_refs ?pr = slot_refs pr" by (simp add: slot_refs_def)
  then have r: "all_refs H ?m = all_refs H m"
    using slot_refs_put [OF _ pr, of ?pr] h(1) by (simp add: all_refs_def shape_right_def)
  have "shape_right ?m" using h(1) pr unfolding shape_right_def by (auto split: if_splits)
  moreover have "counts_right H ?m" using h(2) counts_cong [OF _ r] by simp
  moreover have "slots_right ?m" using h(3) pr unfolding slots_right_def by (auto split: if_splits)
  moreover have "opaque_right ?m" using h(4) pr unfolding opaque_right_def in_slot_def by fastforce
  moreover have "perms_right ?m" using h(5) by (simp add: perms_right_def list_ex_append)
  moreover have "log_right ?m" using h(6) pr nc unfolding log_right_def by (auto simp: list_ex_append split: if_splits)
  ultimately have "lc_inv H ?m" by (simp add: lc_inv_def)
  moreover have "intact ?m" using it pr unfolding intact_def by (auto simp: list_ex_append split: if_splits)
  ultimately show ?thesis using e by (simp add: list_ex_append)
qed

lemma createJs_ok:
  assumes inv: "lc_inv H m" and it: "intact m" and pr: "the_proto k m = Some pr"
    and i: "the_inst i m = Some li" "\<not> li_detached li" "in_slot i li m" "li_proto li = k"
  shows "\<exists>m'. createJsInstance k i m = Some m' \<and> lc_inv H m' \<and> intact m' \<and>
    the_proto k m' = Some (pr\<lparr>pr_js := True\<rparr>) \<and> (\<forall>k'. k' \<noteq> k \<longrightarrow> the_proto k' m' = the_proto k' m) \<and>
    (\<forall>i. the_inst i m' = the_inst i m) \<and> m_tasks m' = m_tasks m \<and> m_ctx m' = m_ctx m \<and> m_next m' = m_next m \<and>
    m_opaque m' = insert i (m_opaque m) \<and> list_ex (is_created k) (m_log m') \<and>
    (\<forall>i. list_ex (is_required i) (m_log m') = list_ex (is_required i) (m_log m))"
proof -
  obtain m1 where m1: "ensureJsPrototype k m = Some m1" "lc_inv H m1" "intact m1"
    "the_proto k m1 = Some (pr\<lparr>pr_js := True\<rparr>)" "\<forall>k'. k' \<noteq> k \<longrightarrow> the_proto k' m1 = the_proto k' m"
    "\<forall>i. the_inst i m1 = the_inst i m" "m_tasks m1 = m_tasks m" "m_ctx m1 = m_ctx m" "m_next m1 = m_next m"
    "m_opaque m1 = m_opaque m" "list_ex (is_created k) (m_log m1)"
    "\<forall>i. list_ex (is_required i) (m_log m1) = list_ex (is_required i) (m_log m)"
    using ensureJs_ok [OF inv it pr] by blast
  let ?m = "m1\<lparr>m_opaque := insert i (m_opaque m1)\<rparr>"
  note g = lc_invD [OF m1(2)]
  have s: "in_slot i li m1" using i pr m1(4) by (auto simp: in_slot_def)
  have "opaque_right ?m" using g(4) i(1,2) s m1(6) unfolding opaque_right_def in_slot_def by auto
  moreover have "shape_right ?m" using g(1) by (simp add: shape_right_def)
  moreover have "counts_right H ?m" using g(2) counts_cong [of ?m m1 H H] by simp
  moreover have "slots_right ?m" using g(3) by (simp add: slots_right_def)
  moreover have "perms_right ?m" using g(5) by (simp add: perms_right_def)
  moreover have "log_right ?m" using g(6) by (simp add: log_right_def)
  ultimately have "lc_inv H ?m" by (simp add: lc_inv_def)
  moreover have "intact ?m" using m1(3) by (simp add: intact_def)
  ultimately show ?thesis using m1 by (simp add: createJsInstance_def)
qed

lemma quiet_intact:
  assumes "intact m" "quiet m m'" "\<And>k. proto_info k m' = proto_info k m"
    and "\<And>i li. the_inst i m' = Some li \<Longrightarrow> the_proto (li_proto li) m \<noteq> None \<and>
        (li_interface li \<longrightarrow> \<not> li_initialized li \<longrightarrow> \<not> li_detached li)"
  shows "intact m'"
proof -
  have i: "(the_proto k m' = None) = (the_proto k m = None)" for k
    using assms(3) [of k] by (auto simp: proto_info_def)
  have j: "(\<exists>pr. the_proto k m' = Some pr \<and> pr_js pr) = (\<exists>pr. the_proto k m = Some pr \<and> pr_js pr)" for k
    using assms(3) [of k] by (cases "the_proto k m"; cases "the_proto k m'") (auto simp: proto_info_def)
  show ?thesis
    using assms(1,2) assms(4) unfolding intact_def j quiet_def i by auto
qed

lemma make_instance_ok:
  assumes inv: "lc_inv H m" and it: "intact m" and k: "the_proto k m \<noteq> None"
  shows "\<exists>m'. make_instance k d m = Some (m_next m, m') \<and> lc_inv H m' \<and> intact m' \<and> m_ctx m' = m_ctx m \<and>
    m_next m' = Suc (m_next m) \<and> the_inst (m_next m) m' \<noteq> None \<and> m_next m \<in> m_opaque m'"
proof -
  let ?i = "m_next m"
  note h = lc_invD [OF inv]
  obtain pr where pr: "the_proto k m = Some pr" using k by auto
  have ne: "k \<noteq> []" using h(1) pr unfolding shape_right_def by (cases k) fastforce+
  let ?li = "\<lparr>li_rc = 1, li_detached = False, li_initialized = False, li_interface = False,
             li_slot = - 1, li_proto = k, li_desc = d_name (pr_desc pr)\<rparr>"
  let ?m1 = "put_inst ?i ?li (m\<lparr>m_next := Suc ?i\<rparr>)"
  note n = new_instance_ok [OF inv pr ne, of False]
  have none: "the_inst ?i m = None" by (rule fresh_inst [OF h(1)])
  have i1: "the_inst ?i ?m1 = Some ?li" "the_proto k ?m1 = Some pr" using pr by simp_all
  have out: "unslotted ?i ?m1" using no_slot [OF h(3) none] by (simp add: unslotted_def)
  have a: "\<not> li_detached ?li" "li_proto ?li = k" "li_interface ?li \<longrightarrow> li_initialized ?li" by simp_all
  obtain m2 pos where m2: "place ?i k ?m1 = Some m2" "lc_inv H m2" "quiet ?m1 m2" "m_log m2 = m_log ?m1"
    "the_inst ?i m2 = Some (?li\<lparr>li_slot := int pos\<rparr>)" "in_slot ?i (?li\<lparr>li_slot := int pos\<rparr>) m2"
    "\<forall>j. j \<noteq> ?i \<longrightarrow> the_inst j m2 = the_inst j ?m1" "\<forall>k'. proto_info k' m2 = proto_info k' ?m1"
    using place_ok [OF n(2) i1(1) a i1(2) out] by (elim exE conjE) (rule that)
  have it1: "intact ?m1" using it pr unfolding intact_def by auto
  have it2: "intact m2"
  proof (rule quiet_intact [OF it1 m2(3)])
    show "proto_info k' m2 = proto_info k' ?m1" for k' using m2(8) by blast
    show "the_proto (li_proto lx) ?m1 \<noteq> None \<and> (li_interface lx \<longrightarrow> \<not> li_initialized lx \<longrightarrow> \<not> li_detached lx)"
      if "the_inst x m2 = Some lx" for x lx
      using that m2(5,7) intactD(3,4) [OF it] pr by (cases "x = ?i") auto
  qed
  have "proto_info k m2 = Some (pr_desc pr, pr_js pr)" using m2(8) pr by (simp add: proto_info_def)
  then obtain pr2 where pr2: "the_proto k m2 = Some pr2" by (auto simp: proto_info_def)
  obtain m3 where m3: "createJsInstance k ?i m2 = Some m3" "lc_inv H m3" "intact m3"
    "the_proto k m3 = Some (pr2\<lparr>pr_js := True\<rparr>)" "\<forall>k'. k' \<noteq> k \<longrightarrow> the_proto k' m3 = the_proto k' m2"
    "\<forall>i. the_inst i m3 = the_inst i m2" "m_ctx m3 = m_ctx m2" "m_next m3 = m_next m2"
    "m_opaque m3 = insert ?i (m_opaque m2)" "list_ex (is_created k) (m_log m3)"
    "\<forall>i. list_ex (is_required i) (m_log m3) = list_ex (is_required i) (m_log m2)"
    using createJs_ok [OF m2(2) it2 pr2 m2(5) _ m2(6)] by auto
  let ?x = "NRequired ?i k (cb_required d)"
  let ?m = "tell ?x m3"
  note g = lc_invD [OF m3(2)]
  have nx: "m_next m3 = Suc ?i" using m2(3) m3(8) by (simp add: quiet_def)
  have nr: "\<not> list_ex (is_required ?i) (m_log m3)" using h(6) m2(4) m3(11) by (auto simp: log_right_def)
  have nd: "\<not> list_ex (is_detached ?i) (m_log m3)" using g(6) m3(6) m2(5) nx by (auto simp: log_right_def)
  have "log_right ?m" using g(6) nr nd m3(10) nx unfolding log_right_def by (auto simp: list_ex_append)
  moreover have "shape_right ?m" using g(1) by (simp add: shape_right_def)
  moreover have "counts_right H ?m" using g(2) counts_cong [of ?m m3 H H] by simp
  moreover have "slots_right ?m" using g(3) by (simp add: slots_right_def)
  moreover have "opaque_right ?m" using g(4) by (simp add: opaque_right_def in_slot_def)
  moreover have "perms_right ?m" using g(5) by (simp add: perms_right_def list_ex_append)
  ultimately have "lc_inv H ?m" by (simp add: lc_inv_def)
  moreover have "intact ?m" using m3(3) by (simp add: intact_def list_ex_append)
  moreover have "make_instance k d m = Some (?i, ?m)"
    using n(1) m2(1) m3(1) by (simp add: make_instance_def)
  moreover have "m_ctx m3 = m_ctx m" using m2(3) m3(7) by (simp add: quiet_def)
  ultimately show ?thesis using nx m2(5) m3(6,9) by simp
qed

end
