(* ===== verification/LifecycleOps.thy ===== *)
theory LifecycleOps
  imports LifecycleInv
begin

text \<open>Every operation of the manager keeps the invariant and does not fail; then whole runs.\<close>

section \<open>Detaching in general\<close>

definition calm :: "mgr \<Rightarrow> mgr \<Rightarrow> bool" where
  "calm m m' \<longleftrightarrow>
     (\<forall>i li. the_inst i m' = Some li \<longrightarrow> \<not> li_detached li \<longrightarrow> (\<exists>l0. the_inst i m = Some l0 \<and> \<not> li_detached l0)) \<and>
     (\<forall>p pm li. map_of (m_perms m) p = Some pm \<longrightarrow> the_inst (pm_inst pm) m' = Some li \<longrightarrow> \<not> li_detached li \<longrightarrow>
        map_of (m_perms m') p = Some pm)"

lemma calm_refl: "calm m m"
  by (auto simp: calm_def)

lemma calm_trans: "calm m m' \<Longrightarrow> calm m' m'' \<Longrightarrow> calm m m''"
  unfolding calm_def by (metis (lifting))

lemma detach_calm:
  assumes "instance_onDetached i m = Some m'" "omap_ok (m_perms m)"
  shows "calm m m'"
  using assms by (auto simp: instance_onDetached_def calm_def remove_instance_permissions_def map_of_filter_perm
    split: option.splits if_splits)

lemma release_calm:
  assumes "release i m = Some m'" "omap_ok (m_perms m)"
  shows "calm m m'"
proof -
  obtain li where i: "the_inst i m = Some li" using assms(1) by (auto simp: release_def split: option.splits)
  show ?thesis
  proof (cases "li_rc li - 1 = 0")
    case True
    then obtain m1 where m1: "instance_onDetached i m = Some m1"
      "m' = tell (NDeleted i (li_interface li)) (m1\<lparr>m_insts := omap_del i (m_insts m1)\<rparr>)"
      using assms(1) i by (auto simp: release_def bind_eq_Some_conv)
    have "calm m1 m'" using m1(2) by (auto simp: calm_def)
    then show ?thesis using detach_calm [OF m1(1) assms(2)] calm_trans by blast
  next
    case False
    then show ?thesis using assms(1) i by (auto simp: release_def calm_def split: if_splits)
  qed
qed

lemma lc_perms: "lc_inv H m \<Longrightarrow> omap_ok (m_perms m)"
  by (simp add: lc_inv_def shape_right_def)

definition all_detached :: "mgr \<Rightarrow> bool" where
  "all_detached m \<longleftrightarrow> (\<forall>i li. the_inst i m = Some li \<longrightarrow> li_detached li)"

lemma calm_detached: "calm m m' \<Longrightarrow> all_detached m \<Longrightarrow> all_detached m'"
  unfolding calm_def all_detached_def by (metis (lifting))

text \<open>Releasing a batch of references.\<close>

lemma release_all_ok:
  "lc_inv (mset xs + H) m \<Longrightarrow>
   \<exists>m'. foldM release xs m = Some m' \<and> lc_inv H m' \<and> quiet m m' \<and> m_protos m' = m_protos m \<and> calm m m' \<and>
     (\<forall>i li. the_inst i m' = Some li \<longrightarrow> (\<exists>l0 c. the_inst i m = Some l0 \<and> li = l0\<lparr>li_rc := c\<rparr>))"
proof (induction xs arbitrary: m)
  case Nil
  have "\<exists>c. li = li\<lparr>li_rc := c\<rparr>" for li by (rule exI [of _ "li_rc li"]) simp
  then show ?case using Nil by (auto simp: quiet_refl calm_refl)
next
  case (Cons x xs)
  have h: "lc_inv (add_mset x (mset xs + H)) m" using Cons.prems by simp
  obtain m1 where m1: "release x m = Some m1" "lc_inv (mset xs + H) m1" "quiet m m1" "m_protos m1 = m_protos m"
    "\<forall>j. j \<noteq> x \<longrightarrow> the_inst j m1 = the_inst j m"
    "the_inst x m1 = None \<or> (\<exists>li. the_inst x m = Some li \<and> the_inst x m1 = Some (li\<lparr>li_rc := li_rc li - 1\<rparr>))"
    using release_ok [OF h] by blast
  obtain m2 where m2: "foldM release xs m1 = Some m2" "lc_inv H m2" "quiet m1 m2" "m_protos m2 = m_protos m1" "calm m1 m2"
    "\<forall>i li. the_inst i m2 = Some li \<longrightarrow> (\<exists>l0 c. the_inst i m1 = Some l0 \<and> li = l0\<lparr>li_rc := c\<rparr>)"
    using Cons.IH [OF m1(2)] by blast
  have "\<exists>l0 c. the_inst i m = Some l0 \<and> li = l0\<lparr>li_rc := c\<rparr>" if z: "the_inst i m2 = Some li" for i li
  proof -
    obtain l1 c where l1: "the_inst i m1 = Some l1" "li = l1\<lparr>li_rc := c\<rparr>" using m2(6) z by blast
    have "\<exists>l0 d. the_inst i m = Some l0 \<and> l1 = l0\<lparr>li_rc := d\<rparr>"
    proof (cases "i = x")
      case False
      then show ?thesis using m1(5) l1(1) by (intro exI [of _ l1] exI [of _ "li_rc l1"]) simp
    qed (use m1(6) l1 in auto)
    then show ?thesis using l1(2) by auto
  qed
  moreover have "calm m m2" using calm_trans [OF release_calm [OF m1(1) lc_perms [OF h]] m2(5)] .
  ultimately show ?case using m1 m2 quiet_trans by (auto simp: bind_eq_Some_conv)
qed

section \<open>Slots are emptied\<close>

lemma slot_clear_ok:
  assumes inv: "lc_inv H m" and pr: "the_proto k m = Some pr" "j < length (pr_slots pr)" "pr_slots pr ! j = Some i"
    and op: "i \<notin> m_opaque m"
  shows "lc_inv (add_mset i H) (put_proto k (pr\<lparr>pr_slots := (pr_slots pr)[j := None]\<rparr>) m)"
proof -
  note h = lc_invD [OF inv]
  let ?pr = "pr\<lparr>pr_slots := (pr_slots pr)[j := None]\<rparr>"
  let ?m = "put_proto k ?pr m"
  have "add_mset i (slot_refs ?pr) = slot_refs pr" using filter_update_Some [OF pr(2,3)] by (simp add: slot_refs_def)
  then have "add_mset i (mset_over slot_refs (ovals (omap_put k ?pr (m_protos m)))) = mset_over slot_refs (ovals (m_protos m))"
    using slot_refs_put [OF _ pr(1), of ?pr] h(1)
    by (metis (no_types, lifting) add_left_cancel shape_right_def union_mset_add_mset_left union_mset_add_mset_right)
  then have r: "all_refs (add_mset i H) ?m = all_refs H m" by (simp add: all_refs_def flip: add_mset_add_single)
  have "shape_right ?m" using h(1) pr unfolding shape_right_def by (auto split: if_splits)
  moreover have "counts_right (add_mset i H) ?m" using h(2) counts_cong [OF _ r] by simp
  moreover have "slots_right ?m" unfolding slots_right_def
  proof (intro allI impI)
    fix k' pr' j' x assume x: "the_proto k' ?m = Some pr'" "j' < length (pr_slots pr')" "pr_slots pr' ! j' = Some x"
    have "\<exists>pr0. the_proto k' m = Some pr0 \<and> j' < length (pr_slots pr0) \<and> pr_slots pr0 ! j' = Some x"
    proof (cases "k' = k")
      case True
      then have "pr' = ?pr" using x(1) by simp
      then show ?thesis using True x(2,3) pr by (cases "j' = j") auto
    qed (use x in simp)
    then show "\<exists>li. the_inst x ?m = Some li \<and> li_proto li = k' \<and> li_slot li = int j' \<and> (li_interface li \<longrightarrow> li_initialized li)"
      using h(3) unfolding slots_right_def by auto
  qed
  moreover have "opaque_right ?m" unfolding opaque_right_def
  proof
    fix x assume "x \<in> m_opaque ?m"
    then have x: "x \<in> m_opaque m" "x \<noteq> i" using op by auto
    then obtain lx pr0 j0 where l: "the_inst x m = Some lx" "\<not> li_detached lx" "the_proto (li_proto lx) m = Some pr0"
      "li_slot lx = int j0" "j0 < length (pr_slots pr0)" "pr_slots pr0 ! j0 = Some x"
      using h(4) unfolding opaque_right_def in_slot_def by blast
    have "in_slot x lx ?m"
    proof (cases "li_proto lx = k")
      case True
      then have "j0 \<noteq> j" using l(3,6) pr x(2) by auto
      then show ?thesis using l True pr by (auto simp: in_slot_def)
    qed (use l in \<open>auto simp: in_slot_def\<close>)
    then show "\<exists>li. the_inst x ?m = Some li \<and> \<not> li_detached li \<and> in_slot x li ?m" using l by auto
  qed
  moreover have "perms_right ?m" using h(5) by (simp add: perms_right_def)
  moreover have "log_right ?m" using h(6) pr unfolding log_right_def by (auto split: if_splits)
  ultimately show ?thesis by (simp add: lc_inv_def)
qed

lemma opaque_less_ok:
  assumes "lc_inv H m" "X \<subseteq> m_opaque m"
  shows "lc_inv H (m\<lparr>m_opaque := X\<rparr>)"
proof -
  note h = lc_invD [OF assms(1)]
  have "counts_right H (m\<lparr>m_opaque := X\<rparr>)" using h(2) counts_cong [of "m\<lparr>m_opaque := X\<rparr>" m H H] by simp
  then show ?thesis using h assms(2)
    by (auto simp: lc_inv_def shape_right_def slots_right_def opaque_right_def in_slot_def perms_right_def log_right_def)
qed

lemma finalizer_ok:
  assumes inv: "lc_inv H m"
  shows "\<exists>m'. feature_finalizer i m = Some m' \<and> lc_inv H m' \<and> quiet m m' \<and> calm m m' \<and>
    (\<forall>k. proto_info k m' = proto_info k m) \<and> i \<notin> m_opaque m' \<and>
    (\<forall>j. j \<noteq> i \<longrightarrow> the_inst j m' = the_inst j m) \<and>
    (\<forall>li'. the_inst i m' = Some li' \<longrightarrow> (\<exists>li. the_inst i m = Some li \<and> li_proto li' = li_proto li \<and>
       (li_interface li' \<longrightarrow> li_initialized li' \<or> li' = li)))"
proof (cases "i \<in> m_opaque m")
  case False
  then show ?thesis using inv by (auto simp: feature_finalizer_def quiet_refl calm_refl)
next
  case True
  note h = lc_invD [OF inv]
  obtain li pr j where l: "the_inst i m = Some li" "\<not> li_detached li" "the_proto (li_proto li) m = Some pr"
    "li_slot li = int j" "j < length (pr_slots pr)" "pr_slots pr ! j = Some i"
    using h(4) True unfolding opaque_right_def in_slot_def by blast
  have init: "li_interface li \<longrightarrow> li_initialized li" using h(3) l unfolding slots_right_def by fastforce
  let ?m0 = "m\<lparr>m_opaque := m_opaque m - {i}\<rparr>"
  have i0: "lc_inv H ?m0" by (rule opaque_less_ok [OF inv]) auto
  have t0: "the_inst i ?m0 = Some li" "the_proto (li_proto li) ?m0 = Some pr" using l by simp_all
  obtain m1 where m1: "instance_onDetached i ?m0 = Some m1" "lc_inv H m1" "quiet ?m0 m1" "m_protos m1 = m_protos ?m0"
    "i \<notin> m_opaque m1" "the_inst i m1 = Some (li\<lparr>li_detached := True\<rparr>)" "\<forall>x. x \<noteq> i \<longrightarrow> the_inst x m1 = the_inst x ?m0"
    using detach_ok [OF i0 t0(1)] by blast
  have p1: "the_proto k m1 = the_proto k m" for k using m1(4) by (simp add: the_proto_def)
  let ?pr = "pr\<lparr>pr_slots := (pr_slots pr)[j := None]\<rparr>"
  let ?m2 = "put_proto (li_proto li) ?pr m1"
  have i2: "lc_inv (add_mset i H) ?m2"
    by (rule slot_clear_ok [OF m1(2) _ l(5,6) m1(5)]) (use p1 l in simp)
  obtain m3 where m3: "release i ?m2 = Some m3" "lc_inv H m3" "quiet ?m2 m3" "m_protos m3 = m_protos ?m2"
    "\<forall>x. x \<noteq> i \<longrightarrow> the_inst x m3 = the_inst x ?m2"
    "the_inst i m3 = None \<or> (\<exists>li. the_inst i ?m2 = Some li \<and> the_inst i m3 = Some (li\<lparr>li_rc := li_rc li - 1\<rparr>))"
    using release_ok [OF i2] by blast
  have "removeInstance (li_proto li) (li_slot li) ?m0 = Some (True, m3)"
    using l t0 m1(1) m3(1) by (simp add: removeInstance_def)
  then have "feature_finalizer i m = Some m3" using True l(1) by (simp add: feature_finalizer_def)
  moreover have "quiet m m3" using m1(3) m3(3) unfolding quiet_def by auto
  moreover have "calm m m3"
  proof -
    have "calm m ?m0" by (auto simp: calm_def)
    moreover have "calm ?m0 m1" by (rule detach_calm [OF m1(1)]) (use lc_perms [OF i0] in simp)
    moreover have "calm m1 ?m2" by (auto simp: calm_def)
    moreover have "calm ?m2 m3" by (rule release_calm [OF m3(1) lc_perms [OF i2]])
    ultimately show ?thesis using calm_trans by blast
  qed
  moreover have "proto_info k m3 = proto_info k m" for k
  proof -
    have "the_proto k m3 = the_proto k ?m2" using m3(4) by (simp add: the_proto_def)
    then show ?thesis using p1 l by (simp add: proto_info_def)
  qed
  moreover have "i \<notin> m_opaque m3" using m3(3) m1(5) by (auto simp: quiet_def)
  moreover have "\<forall>x. x \<noteq> i \<longrightarrow> the_inst x m3 = the_inst x m" using m3(5) m1(7) by simp
  moreover have "\<exists>l0. the_inst i m = Some l0 \<and> li_proto li' = li_proto l0 \<and> (li_interface li' \<longrightarrow> li_initialized li' \<or> li' = l0)"
    if "the_inst i m3 = Some li'" for li'
    using that m3(6) m1(6) l(1) init by auto
  ultimately show ?thesis using m3(2) by blast
qed

section \<open>Tearing down\<close>

definition down :: "mgr \<Rightarrow> bool" where
  "down m \<longleftrightarrow> all_detached m \<and> m_opaque m = {}"

lemma quiet_calm_down: "down m \<Longrightarrow> quiet m m' \<Longrightarrow> calm m m' \<Longrightarrow> down m'"
  using calm_detached unfolding down_def quiet_def by blast

lemma slots_gone_ok:
  assumes inv: "lc_inv H m" and pr: "the_proto k m = Some pr" and d: "m_opaque m = {}"
  shows "lc_inv (slot_refs pr + H) (put_proto k (pr\<lparr>pr_slots := []\<rparr>) m)"
proof -
  note h = lc_invD [OF inv]
  let ?pr = "pr\<lparr>pr_slots := []\<rparr>"
  let ?m = "put_proto k ?pr m"
  have "slot_refs ?pr = {#}" by (simp add: slot_refs_def)
  then have "slot_refs pr + mset_over slot_refs (ovals (omap_put k ?pr (m_protos m))) = mset_over slot_refs (ovals (m_protos m))"
    using slot_refs_put [OF _ pr, of ?pr] h(1) by (simp add: shape_right_def)
  then have r: "all_refs (slot_refs pr + H) ?m = all_refs H m" by (simp add: all_refs_def ac_simps)
  have "shape_right ?m" using h(1) pr unfolding shape_right_def by (auto split: if_splits)
  moreover have "counts_right (slot_refs pr + H) ?m" using h(2) counts_cong [OF _ r] by simp
  moreover have "slots_right ?m" using h(3) unfolding slots_right_def by (auto split: if_splits)
  moreover have "opaque_right ?m" using d by (simp add: opaque_right_def)
  moreover have "perms_right ?m" using h(5) by (simp add: perms_right_def)
  moreover have "log_right ?m" using h(6) pr unfolding log_right_def by (auto split: if_splits)
  ultimately show ?thesis by (simp add: lc_inv_def)
qed

lemma clearAll_ok:
  assumes inv: "lc_inv H m" and pr: "the_proto k m = Some pr" and d: "down m"
  shows "\<exists>m'. clearAllInstances k m = Some m' \<and> lc_inv H m' \<and> down m' \<and> quiet m m' \<and>
    the_proto k m' = Some (pr\<lparr>pr_slots := []\<rparr>) \<and> (\<forall>k'. k' \<noteq> k \<longrightarrow> the_proto k' m' = the_proto k' m)"
proof -
  let ?m0 = "put_proto k (pr\<lparr>pr_slots := []\<rparr>) m"
  let ?xs = "map the (filter (\<lambda>s. s \<noteq> None) (pr_slots pr))"
  have i0: "lc_inv (mset ?xs + H) ?m0"
    using slots_gone_ok [OF inv pr] d by (simp only: slot_refs_def down_def)
  have d0: "down ?m0" using d by (simp add: down_def all_detached_def)
  obtain m' where m': "foldM release ?xs ?m0 = Some m'" "lc_inv H m'" "quiet ?m0 m'" "m_protos m' = m_protos ?m0" "calm ?m0 m'"
    using release_all_ok [OF i0] by blast
  have "clearAllInstances k m = Some m'" using pr m'(1) by (simp add: clearAllInstances_def)
  moreover have "down m'" by (rule quiet_calm_down [OF d0 m'(3,5)])
  moreover have "quiet m m'" using m'(3) by (simp add: quiet_def)
  moreover have "the_proto k' m' = the_proto k' ?m0" for k' using m'(4) by (simp add: the_proto_def)
  ultimately show ?thesis using m'(2) by simp
qed

lemma free_prototype_ok:
  assumes inv: "lc_inv H m" and pr: "the_proto k m = Some pr" and d: "down m"
  shows "free_prototype k m = Some (put_proto k (pr\<lparr>pr_js := False\<rparr>) m)"
    "lc_inv H (put_proto k (pr\<lparr>pr_js := False\<rparr>) m)" "down (put_proto k (pr\<lparr>pr_js := False\<rparr>) m)"
proof -
  note h = lc_invD [OF inv]
  let ?pr = "pr\<lparr>pr_js := False\<rparr>"
  let ?m = "put_proto k ?pr m"
  show "free_prototype k m = Some ?m" using pr by (simp add: free_prototype_def)
  show "down ?m" using d by (simp add: down_def all_detached_def)
  have "slot_refs ?pr = slot_refs pr" by (simp add: slot_refs_def)
  then have r: "all_refs H ?m = all_refs H m"
    using slot_refs_put [OF _ pr, of ?pr] h(1) by (simp add: all_refs_def shape_right_def)
  have "shape_right ?m" using h(1) pr unfolding shape_right_def by (auto split: if_splits)
  moreover have "counts_right H ?m" using h(2) counts_cong [OF _ r] by simp
  moreover have "slots_right ?m" using h(3) pr unfolding slots_right_def by (auto split: if_splits)
  moreover have "opaque_right ?m" using d by (simp add: opaque_right_def down_def)
  moreover have "perms_right ?m" using h(5) by (simp add: perms_right_def)
  moreover have "log_right ?m" using h(6) pr unfolding log_right_def by (auto split: if_splits)
  ultimately show "lc_inv H ?m" by (simp add: lc_inv_def)
qed

lemma delete_proto_ok:
  assumes inv: "lc_inv H m" and pr: "the_proto k m = Some pr" and d: "down m"
    and dead: "is_module k \<longrightarrow> list_ex (is_destroyed k) (m_log m)"
  shows "\<exists>m'. delete_proto k m = Some m' \<and> lc_inv H m' \<and> down m' \<and> quiet m m' \<and>
    (\<forall>k'. the_proto k' m' = (if k' = k then None else the_proto k' m))"
proof -
  obtain m1 where m1: "clearAllInstances k m = Some m1" "lc_inv H m1" "down m1" "quiet m m1"
    "the_proto k m1 = Some (pr\<lparr>pr_slots := []\<rparr>)" "\<forall>k'. k' \<noteq> k \<longrightarrow> the_proto k' m1 = the_proto k' m"
    using clearAll_ok [OF inv pr d] by blast
  note h = lc_invD [OF m1(2)]
  let ?m = "m1\<lparr>m_protos := omap_del k (m_protos m1)\<rparr>"
  have e: "delete_proto k m = Some ?m" using m1(1) by (simp add: delete_proto_def)
  have "mset_over slot_refs (ovals (m_protos m1)) = mset_over slot_refs (ovals (omap_del k (m_protos m1)))"
    using mset_over_del [of "m_protos m1" k "pr\<lparr>pr_slots := []\<rparr>" slot_refs] h(1) m1(5)
    by (simp add: slot_refs_def the_proto_def shape_right_def)
  then have r: "all_refs H ?m = all_refs H m1" by (simp add: all_refs_def)
  have dt: "li_detached li" if "the_inst i m1 = Some li" for i li
    using m1(3) that by (auto simp: down_def all_detached_def)
  have "shape_right ?m" using h(1) dt unfolding shape_right_def by (auto split: if_splits)
  moreover have "counts_right H ?m" using h(2) counts_cong [OF _ r] by simp
  moreover have "slots_right ?m" using h(3) unfolding slots_right_def by (auto split: if_splits)
  moreover have "opaque_right ?m" using m1(3) by (simp add: opaque_right_def down_def)
  moreover have "perms_right ?m" using h(5) by (simp add: perms_right_def)
  moreover have "log_right ?m" using h(6) dead m1(4) unfolding log_right_def quiet_def by (auto split: if_splits)
  ultimately have "lc_inv H ?m" by (simp add: lc_inv_def)
  moreover have "down ?m" using m1(3) by (simp add: down_def all_detached_def)
  moreover have "quiet m ?m" using m1(4) by (simp add: quiet_def)
  ultimately show ?thesis using e m1(6) by simp
qed

lemma clear_children_ok:
  "lc_inv H m \<Longrightarrow> down m \<Longrightarrow> (\<And>c. c \<in> set cs \<Longrightarrow> the_proto c m \<noteq> None) \<Longrightarrow>
   \<exists>m'. foldM (\<lambda>c m. do { m' \<leftarrow> clearAllInstances c m; free_prototype c m' }) cs m = Some m' \<and>
     lc_inv H m' \<and> down m' \<and> quiet m m' \<and> (\<forall>k. (the_proto k m' = None) = (the_proto k m = None))"
proof (induction cs arbitrary: m)
  case Nil
  then show ?case by (simp add: quiet_refl)
next
  case (Cons c cs)
  obtain pr where pr: "the_proto c m = Some pr" using Cons.prems(3) [of c] by auto
  obtain m1 where m1: "clearAllInstances c m = Some m1" "lc_inv H m1" "down m1" "quiet m m1"
    "the_proto c m1 = Some (pr\<lparr>pr_slots := []\<rparr>)" "\<forall>k'. k' \<noteq> c \<longrightarrow> the_proto k' m1 = the_proto k' m"
    using clearAll_ok [OF Cons.prems(1) pr Cons.prems(2)] by blast
  let ?m2 = "put_proto c (pr\<lparr>pr_slots := [], pr_js := False\<rparr>) m1"
  have f: "free_prototype c m1 = Some ?m2" "lc_inv H ?m2" "down ?m2"
    using free_prototype_ok [OF m1(2,5,3)] by simp_all
  have n: "(the_proto k ?m2 = None) = (the_proto k m = None)" for k using m1(6) pr by simp
  have q: "quiet m ?m2" using m1(4) by (simp add: quiet_def)
  have "the_proto c' ?m2 \<noteq> None" if "c' \<in> set cs" for c' using Cons.prems(3) [of c'] n that by (simp del: the_simps)
  then obtain m' where "foldM (\<lambda>c m. do { m' \<leftarrow> clearAllInstances c m; free_prototype c m' }) cs ?m2 = Some m'"
    "lc_inv H m'" "down m'" "quiet ?m2 m'" "\<forall>k. (the_proto k m' = None) = (the_proto k ?m2 = None)"
    using Cons.IH [OF f(2,3)] by blast
  then show ?case using m1(1) f(1) n quiet_trans [OF q] by auto
qed

lemma delete_children_ok:
  "lc_inv H m \<Longrightarrow> down m \<Longrightarrow> distinct cs \<Longrightarrow> (\<And>c. c \<in> set cs \<Longrightarrow> the_proto c m \<noteq> None \<and> \<not> is_module c) \<Longrightarrow>
   \<exists>m'. foldM delete_proto cs m = Some m' \<and> lc_inv H m' \<and> down m' \<and> quiet m m' \<and>
     (\<forall>k. the_proto k m' = (if k \<in> set cs then None else the_proto k m))"
proof (induction cs arbitrary: m)
  case Nil
  then show ?case by (simp add: quiet_refl)
next
  case (Cons c cs)
  obtain pr where pr: "the_proto c m = Some pr" "\<not> is_module c" using Cons.prems(4) [of c] by auto
  obtain m1 where m1: "delete_proto c m = Some m1" "lc_inv H m1" "down m1" "quiet m m1"
    "\<forall>k'. the_proto k' m1 = (if k' = c then None else the_proto k' m)"
    using delete_proto_ok [OF Cons.prems(1) pr(1) Cons.prems(2)] pr(2) by blast
  have "\<And>c'. c' \<in> set cs \<Longrightarrow> the_proto c' m1 \<noteq> None \<and> \<not> is_module c'"
    using Cons.prems(3,4) m1(5) by auto
  then obtain m' where "foldM delete_proto cs m1 = Some m'" "lc_inv H m'" "down m'" "quiet m1 m'"
    "\<forall>k. the_proto k m' = (if k \<in> set cs then None else the_proto k m1)"
    using Cons.IH [OF m1(2,3)] Cons.prems(3) by auto
  then show ?case using m1 quiet_trans [OF m1(4)] by auto
qed

lemma the_proto_set: "omap_ok (m_protos m) \<Longrightarrow> the_proto k m \<noteq> None \<longleftrightarrow> k \<in> set (map fst (m_protos m))"
  by (auto simp: the_proto_def map_of_eq_None_iff)

lemma children_spec:
  assumes "shape_right m"
  shows "distinct (children k m)"
    "c \<in> set (children k m) \<longleftrightarrow> the_proto c m \<noteq> None \<and> \<not> is_module c \<and> hd c = hd k"
  using assms the_proto_set [of m c] by (auto simp: children_def shape_right_def omap_ok_distinct)

lemma required_detached_all:
  assumes "lc_inv H m" "all_detached m"
  shows "list_all (required_detached (m_log m)) (m_log m)"
  unfolding list_all_iff
proof
  fix x assume x: "x \<in> set (m_log m)"
  show "required_detached (m_log m) x"
  proof (cases x)
    case (NRequired i k b)
    then have "list_ex (is_required i) (m_log m)" using x unfolding list_ex_iff by (intro bexI [of _ x]) simp_all
    then show ?thesis using lc_invD(6) [OF assms(1)] assms(2) NRequired
      by (auto simp: log_right_def all_detached_def)
  qed simp_all
qed

lemma destroy_ok:
  assumes inv: "lc_inv H m" and d: "down m" and k: "is_module k" "the_proto k m \<noteq> None"
    and nd: "\<not> list_ex (is_destroyed k) (m_log m)"
  shows "\<exists>m'. destroy_proto k m = Some m' \<and> lc_inv H m' \<and> down m' \<and>
    (\<forall>k'. the_proto k' m' = None \<longleftrightarrow> the_proto k' m = None \<or> hd k' = hd k) \<and>
    (\<forall>k'. list_ex (is_destroyed k') (m_log m') = (k' = k \<or> list_ex (is_destroyed k') (m_log m))) \<and>
    m_tasks m' = m_tasks m \<and> m_registry m' = m_registry m \<and> m_registered m' = m_registered m"
proof -
  let ?cs = "children k m"
  note h = lc_invD [OF inv]
  note ch = children_spec [OF h(1), where k = k]
  obtain f where f: "findFeature (hd k) m = Some f" using h(1) k(2) unfolding shape_right_def by blast
  obtain m1 where m1: "foldM (\<lambda>c m. do { m' \<leftarrow> clearAllInstances c m; free_prototype c m' }) ?cs m = Some m1"
    "lc_inv H m1" "down m1" "quiet m m1" "\<forall>k. (the_proto k m1 = None) = (the_proto k m = None)"
    using clear_children_ok [OF inv d, of ?cs] ch(2) by blast
  obtain pr where pr: "the_proto k m1 = Some pr" using m1(5) k(2) by fastforce
  obtain m2 where m2: "clearAllInstances k m1 = Some m2" "lc_inv H m2" "down m2" "quiet m1 m2"
    "the_proto k m2 = Some (pr\<lparr>pr_slots := []\<rparr>)" "\<forall>k'. k' \<noteq> k \<longrightarrow> the_proto k' m2 = the_proto k' m1"
    using clearAll_ok [OF m1(2) pr m1(3)] by blast
  have q2: "quiet m m2" by (rule quiet_trans [OF m1(4) m2(4)])
  let ?x = "NDestroy k (cb_destroy f)"
  let ?t = "tell ?x m2"
  note g = lc_invD [OF m2(2)]
  have "log_right ?t"
    using g(6) nd q2 required_detached_all [OF m2(2)] m2(3)
    unfolding log_right_def by (auto simp: list_ex_append quiet_def down_def)
  moreover have "shape_right ?t" using g(1) by (simp add: shape_right_def)
  moreover have "counts_right H ?t" using g(2) counts_cong [of ?t m2 H H] by simp
  moreover have "slots_right ?t" using g(3) by (simp add: slots_right_def)
  moreover have "opaque_right ?t" using g(4) by (simp add: opaque_right_def in_slot_def)
  moreover have "perms_right ?t" using g(5) by (simp add: perms_right_def list_ex_append)
  ultimately have it: "lc_inv H ?t" by (simp add: lc_inv_def)
  have dt: "down ?t" using m2(3) by (simp add: down_def all_detached_def)
  have pt: "the_proto k ?t = Some (pr\<lparr>pr_slots := []\<rparr>)" using m2(5) by simp
  let ?m3 = "put_proto k (pr\<lparr>pr_slots := [], pr_js := False\<rparr>) ?t"
  have f3: "free_prototype k ?t = Some ?m3" "lc_inv H ?m3" "down ?m3"
    using free_prototype_ok [OF it pt dt] by simp_all
  have p3: "the_proto k ?m3 = Some (pr\<lparr>pr_slots := [], pr_js := False\<rparr>)" by simp
  obtain m4 where m4: "delete_proto k ?m3 = Some m4" "lc_inv H m4" "down m4" "quiet ?m3 m4"
    "\<forall>k'. the_proto k' m4 = (if k' = k then None else the_proto k' ?m3)"
    using delete_proto_ok [OF f3(2) p3 f3(3)] by (auto simp: list_ex_append)
  have "the_proto c m4 \<noteq> None \<and> \<not> is_module c" if "c \<in> set ?cs" for c
    using that ch(2) m4(5) m2(6) m1(5) k(1) by (cases "c = k") auto
  then obtain m5 where m5: "foldM delete_proto ?cs m4 = Some m5" "lc_inv H m5" "down m5" "quiet m4 m5"
    "\<forall>k'. the_proto k' m5 = (if k' \<in> set ?cs then None else the_proto k' m4)"
    using delete_children_ok [OF m4(2,3) ch(1)] by blast
  have "destroy_proto k m = Some m5"
    using f m1(1) m2(1) f3(1) m4(1) m5(1) by (simp add: destroy_proto_def Let_def)
  moreover have "the_proto k' m5 = None \<longleftrightarrow> the_proto k' m = None \<or> hd k' = hd k" for k'
  proof -
    have "k' = k \<longleftrightarrow> hd k' = hd k \<and> is_module k'" if "the_proto k' m \<noteq> None"
      using k(1) that by (cases k; cases k') (auto simp: is_module_def)
    then show ?thesis using m5(5) m4(5) m2(6) m1(5) ch(2) [of k'] by auto
  qed
  moreover have "list_ex (is_destroyed k') (m_log m5) = (k' = k \<or> list_ex (is_destroyed k') (m_log m))" for k'
    using m5(4) m4(4) q2 by (auto simp: quiet_def list_ex_append)
  ultimately show ?thesis using m5 m4(4) q2 by (auto simp: quiet_def)
qed

lemma detach_all_ok:
  "lc_inv H m \<Longrightarrow> (\<And>i. i \<in> set xs \<Longrightarrow> the_inst i m \<noteq> None) \<Longrightarrow>
   \<exists>m'. foldM instance_onDetached xs m = Some m' \<and> lc_inv H m' \<and> quiet m m' \<and> m_protos m' = m_protos m \<and>
     (\<forall>i. the_inst i m' = map_option (\<lambda>li. if i \<in> set xs then li\<lparr>li_detached := True\<rparr> else li) (the_inst i m))"
proof (induction xs arbitrary: m)
  case Nil
  then show ?case by (simp add: quiet_refl option.map_ident)
next
  case (Cons x xs)
  obtain li where li: "the_inst x m = Some li" using Cons.prems(2) [of x] by auto
  obtain m1 where m1: "instance_onDetached x m = Some m1" "lc_inv H m1" "quiet m m1" "m_protos m1 = m_protos m"
    "the_inst x m1 = Some (li\<lparr>li_detached := True\<rparr>)" "\<forall>j. j \<noteq> x \<longrightarrow> the_inst j m1 = the_inst j m"
    using detach_ok [OF Cons.prems(1) li] by blast
  have "the_inst i m1 \<noteq> None" if "i \<in> set xs" for i using Cons.prems(2) [of i] that m1(5,6) by (cases "i = x") auto
  then obtain m' where m': "foldM instance_onDetached xs m1 = Some m'" "lc_inv H m'" "quiet m1 m'" "m_protos m' = m_protos m1"
    "\<forall>i. the_inst i m' = map_option (\<lambda>li. if i \<in> set xs then li\<lparr>li_detached := True\<rparr> else li) (the_inst i m1)"
    using Cons.IH [OF m1(2)] by blast
  have "the_inst i m' = map_option (\<lambda>li. if i \<in> set (x # xs) then li\<lparr>li_detached := True\<rparr> else li) (the_inst i m)" for i
    using m'(5) m1(5,6) li by (cases "i = x"; cases "the_inst i m") auto
  then show ?case using m1 m' quiet_trans by auto
qed

lemma detachFeatureInstances_ok:
  assumes inv: "lc_inv H m"
  shows "\<exists>m'. detachFeatureInstances m = Some m' \<and> lc_inv H m' \<and> quiet m m' \<and> m_protos m' = m_protos m \<and> down m'"
proof -
  have "the_inst i m \<noteq> None" if "i \<in> set (map fst (m_insts m))" for i
    using that by (auto simp: the_inst_def map_of_eq_None_iff)
  then obtain m' where m': "detachFeatureInstances m = Some m'" "lc_inv H m'" "quiet m m'" "m_protos m' = m_protos m"
    "\<forall>i. the_inst i m' = map_option (\<lambda>li. if i \<in> set (map fst (m_insts m)) then li\<lparr>li_detached := True\<rparr> else li) (the_inst i m)"
    using detach_all_ok [OF inv, of "map fst (m_insts m)"] unfolding detachFeatureInstances_def by blast
  have "i \<in> set (map fst (m_insts m))" if "the_inst i m = Some li" for i li
    using that by (force simp: the_inst_def dest: map_of_SomeD)
  then have d: "all_detached m'" using m'(5) unfolding all_detached_def by fastforce
  have "m_opaque m' = {}" using lc_invD(4) [OF m'(2)] d by (force simp: opaque_right_def all_detached_def)
  then show ?thesis using m' d by (simp add: down_def)
qed

lemma destroy_all_ok:
  "lc_inv H m \<Longrightarrow> down m \<Longrightarrow> distinct ks \<Longrightarrow>
   (\<And>k. k \<in> set ks \<Longrightarrow> is_module k \<and> the_proto k m \<noteq> None \<and> \<not> list_ex (is_destroyed k) (m_log m)) \<Longrightarrow>
   \<exists>m'. foldM destroy_proto ks m = Some m' \<and> lc_inv H m' \<and> down m' \<and>
     (\<forall>k'. the_proto k' m' = None \<longleftrightarrow> the_proto k' m = None \<or> (\<exists>k\<in>set ks. hd k' = hd k)) \<and>
     m_tasks m' = m_tasks m \<and> m_registered m' = m_registered m"
proof (induction ks arbitrary: m)
  case Nil
  then show ?case by simp
next
  case (Cons k ks)
  have k: "is_module k" "the_proto k m \<noteq> None" "\<not> list_ex (is_destroyed k) (m_log m)" using Cons.prems(4) [of k] by auto
  obtain m1 where m1: "destroy_proto k m = Some m1" "lc_inv H m1" "down m1"
    "\<forall>k'. the_proto k' m1 = None \<longleftrightarrow> the_proto k' m = None \<or> hd k' = hd k"
    "\<forall>k'. list_ex (is_destroyed k') (m_log m1) = (k' = k \<or> list_ex (is_destroyed k') (m_log m))"
    "m_tasks m1 = m_tasks m" "m_registered m1 = m_registered m"
    using destroy_ok [OF Cons.prems(1,2) k] by blast
  have "is_module k' \<and> the_proto k' m1 \<noteq> None \<and> \<not> list_ex (is_destroyed k') (m_log m1)" if k': "k' \<in> set ks" for k'
  proof -
    have p: "is_module k'" "the_proto k' m \<noteq> None" "\<not> list_ex (is_destroyed k') (m_log m)" using Cons.prems(4) [of k'] k' by auto
    have ne: "k' \<noteq> k" using Cons.prems(3) k' by auto
    then have "hd k' \<noteq> hd k" using p(1) k(1) by (cases k; cases k') (auto simp: is_module_def)
    then show ?thesis using p ne m1(4,5) by simp
  qed
  then obtain m' where "foldM destroy_proto ks m1 = Some m'" "lc_inv H m'" "down m'"
    "\<forall>k'. the_proto k' m' = None \<longleftrightarrow> the_proto k' m1 = None \<or> (\<exists>k\<in>set ks. hd k' = hd k)"
    "m_tasks m' = m_tasks m1" "m_registered m' = m_registered m1"
    using Cons.IH [OF m1(2,3)] Cons.prems(3) by auto
  then show ?case using m1 by auto
qed

lemma unregister_all_ok:
  "lc_inv H m \<Longrightarrow> m_protos m = [] \<Longrightarrow>
   lc_inv H (unregister_all ds m) \<and> m_protos (unregister_all ds m) = [] \<and>
   m_opaque (unregister_all ds m) = m_opaque m \<and> m_tasks (unregister_all ds m) = m_tasks m \<and>
   (\<forall>i. the_inst i (unregister_all ds m) = the_inst i m) \<and> m_ctx (unregister_all ds m) = m_ctx m \<and>
   m_registered (unregister_all ds m) = m_registered m \<and> m_perms (unregister_all ds m) = m_perms m \<and>
   m_next (unregister_all ds m) = m_next m"
proof (induction ds m rule: unregister_all.induct)
  case (1 m)
  then show ?case by simp
next
  case (2 n d ds m)
  let ?x = "NUnregister (d_name d) (cb_unregister d)"
  let ?t = "tell ?x m"
  note h = lc_invD [OF 2(2)]
  have np: "the_proto k m = None" for k using 2(3) by (simp add: the_proto_def)
  have "created_destroyed (m_log m) e" if e: "e \<in> set (m_log m)" for e
  proof (cases e)
    case (NCreate k b)
    then have "list_ex (is_created k) (m_log m)" using e unfolding list_ex_iff by (intro bexI [of _ e]) simp_all
    then show ?thesis using h(6) np NCreate by (auto simp: log_right_def)
  qed simp_all
  then have a: "list_all (created_destroyed (m_log m)) (m_log m)" by (simp add: list_all_iff)
  have "log_right ?t" using h(6) a unfolding log_right_def by (auto simp: list_ex_append)
  moreover have "shape_right ?t" using h(1) by (simp add: shape_right_def)
  moreover have "counts_right H ?t" using h(2) counts_cong [of ?t m H H] by simp
  moreover have "slots_right ?t" using h(3) by (simp add: slots_right_def)
  moreover have "opaque_right ?t" using h(4) by (simp add: opaque_right_def in_slot_def)
  moreover have "perms_right ?t" using h(5) by (simp add: perms_right_def list_ex_append)
  ultimately have "lc_inv H ?t" by (simp add: lc_inv_def)
  then show ?case using 2(1) 2(3) by simp
qed

lemma uninit_ok:
  assumes inv: "lc_inv H m" and it: "intact m" and c: "m_ctx m"
  shows "\<exists>m'. uninit m = Some m' \<and> lc_inv H m' \<and> down m' \<and> m_protos m' = [] \<and> \<not> m_ctx m' \<and> \<not> m_registered m' \<and>
    m_tasks m' = m_tasks m \<and> m_perms m' = []"
proof -
  obtain m1 where m1: "detachFeatureInstances m = Some m1" "lc_inv H m1" "quiet m m1" "m_protos m1 = m_protos m" "down m1"
    using detachFeatureInstances_ok [OF inv] by blast
  let ?ks = "filter is_module (map fst (m_protos m1))"
  have s: "omap_ok (m_protos m1)" using lc_invD(1) [OF m1(2)] by (simp add: shape_right_def)
  have p1: "the_proto k m1 = the_proto k m" for k using m1(4) by (simp add: the_proto_def)
  have ks: "k \<in> set ?ks \<longleftrightarrow> is_module k \<and> the_proto k m1 \<noteq> None" for k
    by (simp only: set_filter mem_Collect_eq the_proto_set [OF s] conj_commute)
  have nd: "\<not> list_ex (is_destroyed k) (m_log m1)" for k
    using intactD(6) [OF it, of k] m1(3) by (simp add: quiet_def)
  have dk: "distinct ?ks" by (rule distinct_filter [OF omap_ok_distinct [OF s]])
  obtain m2 where m2: "foldM destroy_proto ?ks m1 = Some m2" "lc_inv H m2" "down m2"
    "\<forall>k'. the_proto k' m2 = None \<longleftrightarrow> the_proto k' m1 = None \<or> (\<exists>k\<in>set ?ks. hd k' = hd k)"
    "m_tasks m2 = m_tasks m1" "m_registered m2 = m_registered m1"
    using destroy_all_ok [OF m1(2,5) dk] ks nd by blast
  have np: "the_proto k m2 = None" for k
  proof (cases "the_proto k m1 = None")
    case False
    then have "the_proto [hd k] m1 \<noteq> None" using intactD(2) [OF it, of k] p1 by simp
    then have "[hd k] \<in> set ?ks" unfolding ks by (simp add: is_module_def)
    then have "\<exists>k'\<in>set ?ks. hd k = hd k'" by (rule bexI [rotated]) simp
    then show ?thesis using m2(4) by blast
  qed (use m2(4) in blast)
  have e2: "m_protos m2 = []"
  proof (cases "m_protos m2")
    case (Cons x xs)
    then show ?thesis using np [of "fst x"] by (cases x) (simp add: the_proto_def)
  qed simp
  let ?m3 = "unregister_all (m_registry m2) m2"
  have u: "lc_inv H ?m3" "m_protos ?m3 = []" "m_opaque ?m3 = m_opaque m2" "m_tasks ?m3 = m_tasks m2"
    "\<forall>i. the_inst i ?m3 = the_inst i m2" "m_perms ?m3 = m_perms m2" "m_registered ?m3 = m_registered m2"
    using unregister_all_ok [OF m2(2) e2, of "m_registry m2"] by simp_all
  let ?m4 = "?m3\<lparr>m_registered := False, m_registry := [], m_ctx := False\<rparr>"
  have rg: "m_registered m2" using m2(6) m1(3) intactD(1) [OF it] by (simp add: quiet_def)
  have e: "uninit m = Some ?m4" using c m1(1) m2(1) rg by (simp add: uninit_def delete_registry_def)
  note h = lc_invD [OF u(1)]
  have ip: "the_inst i ?m4 = the_inst i ?m3" "the_proto k ?m4 = the_proto k ?m3" for i k
    by (simp_all add: the_inst_def the_proto_def)
  have pn: "the_proto k ?m3 = None" for k using u(2) by (simp add: the_proto_def)
  have ar: "all_refs H ?m4 = all_refs H ?m3" by (simp add: all_refs_def)
  have "lc_inv H ?m4"
    unfolding lc_inv_def
  proof (intro conjI)
    show "shape_right ?m4" using h(1) pn unfolding shape_right_def ip by (simp add: findFeature_def)
    show "counts_right H ?m4" using h(2) counts_cong [OF ip(1) ar] by simp
    show "slots_right ?m4" using h(3) unfolding slots_right_def ip .
    show "opaque_right ?m4" using h(4) unfolding opaque_right_def in_slot_def ip by simp
    show "perms_right ?m4" using h(5) unfolding perms_right_def ip by simp
    show "log_right ?m4" using h(6) unfolding log_right_def ip by simp
  qed
  moreover have dn: "down ?m4" using m2(3) u(3,5) ip unfolding down_def all_detached_def by simp
  moreover have "m_perms ?m4 = []"
  proof (cases "m_perms ?m3")
    case (Cons x xs)
    obtain p pm where x: "x = (p, pm)" by (cases x)
    then have "map_of (m_perms ?m3) p = Some pm" using Cons by simp
    then have "\<exists>li. the_inst (pm_inst pm) ?m3 = Some li \<and> \<not> li_detached li" using perm_live [OF h(5)] by blast
    then show ?thesis using dn ip by (auto simp: down_def all_detached_def)
  qed simp
  ultimately show ?thesis using e u(2,4) m2(5) m1(3) by (simp add: quiet_def)
qed

end
