(* ===== verification/LifecycleRun.thy ===== *)
theory LifecycleRun
  imports LifecycleOps
begin

text \<open>
  The task queue: running the queued tasks keeps the invariant of the manager and cannot fail, as
  long as every permission request is answered at most once.
\<close>

section \<open>The shape is kept\<close>

definition li_kept :: "linst \<Rightarrow> linst \<Rightarrow> bool" where
  "li_kept li li' \<longleftrightarrow> li_proto li' = li_proto li \<and> (li_interface li' \<longrightarrow> \<not> li_initialized li' \<longrightarrow>
     li_interface li \<and> \<not> li_initialized li \<and> (\<not> li_detached li \<longrightarrow> \<not> li_detached li'))"

lemma li_kept_simps [simp]: "li_kept li li" "li_kept li (li\<lparr>li_rc := c\<rparr>)"
  by (simp_all add: li_kept_def)

lemma li_kept_trans: "li_kept li li' \<Longrightarrow> li_kept li' li'' \<Longrightarrow> li_kept li li''"
  unfolding li_kept_def by auto

definition same_shape :: "mgr \<Rightarrow> mgr \<Rightarrow> bool" where
  "same_shape m m' \<longleftrightarrow> m_registered m' = m_registered m \<and> m_ctx m' = m_ctx m \<and> m_next m' = m_next m \<and>
     (\<forall>k. list_ex (is_created k) (m_log m') = list_ex (is_created k) (m_log m)) \<and>
     (\<forall>k. list_ex (is_destroyed k) (m_log m') = list_ex (is_destroyed k) (m_log m)) \<and>
     (\<forall>k. proto_info k m' = proto_info k m) \<and> m_opaque m' \<subseteq> m_opaque m \<and>
     (\<forall>i li'. the_inst i m' = Some li' \<longrightarrow> (\<exists>li. the_inst i m = Some li \<and> li_kept li li'))"

lemma same_shape_refl: "same_shape m m"
  by (auto simp: same_shape_def)

lemma same_shape_inst: "same_shape m m' \<Longrightarrow> the_inst i m' = Some li' \<Longrightarrow> \<exists>li. the_inst i m = Some li \<and> li_kept li li'"
  unfolding same_shape_def by blast

lemma same_shape_trans:
  assumes "same_shape m m'" "same_shape m' m''"
  shows "same_shape m m''"
proof -
  have "\<exists>li. the_inst i m = Some li \<and> li_kept li li''" if i: "the_inst i m'' = Some li''" for i li''
  proof -
    obtain li' where l1: "the_inst i m' = Some li'" "li_kept li' li''" using same_shape_inst [OF assms(2) i] by blast
    obtain li where "the_inst i m = Some li" "li_kept li li'" using same_shape_inst [OF assms(1) l1(1)] by blast
    then show ?thesis using li_kept_trans l1(2) by blast
  qed
  then show ?thesis using assms by (auto simp: same_shape_def)
qed

lemma same_shape_intact:
  assumes "same_shape m m'" "intact m"
  shows "intact m'"
proof -
  have pi: "proto_info k m' = proto_info k m" for k using assms(1) by (simp add: same_shape_def)
  have i: "(the_proto k m' = None) = (the_proto k m = None)" for k
    using pi [of k] by (cases "the_proto k m"; cases "the_proto k m'") (auto simp: proto_info_def)
  have j: "(\<exists>pr. the_proto k m' = Some pr \<and> pr_js pr) = (\<exists>pr. the_proto k m = Some pr \<and> pr_js pr)" for k
    using pi [of k] by (cases "the_proto k m"; cases "the_proto k m'") (auto simp: proto_info_def)
  have "the_proto (li_proto li') m \<noteq> None \<and> (li_interface li' \<longrightarrow> \<not> li_initialized li' \<longrightarrow> \<not> li_detached li')"
    if z: "the_inst x m' = Some li'" for x li'
  proof -
    obtain li where "the_inst x m = Some li" "li_kept li li'" using same_shape_inst [OF assms(1) z] by blast
    then have li: "the_inst x m = Some li" "li_proto li' = li_proto li"
      "li_interface li' \<longrightarrow> \<not> li_initialized li' \<longrightarrow>
         li_interface li \<and> \<not> li_initialized li \<and> (\<not> li_detached li \<longrightarrow> \<not> li_detached li')"
      by (simp_all add: li_kept_def)
    show ?thesis using li intactD(3,4) [OF assms(2) li(1)] by auto
  qed
  then show ?thesis using assms unfolding intact_def i j same_shape_def by auto
qed

lemma release_shape:
  assumes "lc_inv (add_mset i H) m" "release i m = Some m'"
  shows "same_shape m m'"
proof -
  obtain m1 where m1: "release i m = Some m1" "quiet m m1" "m_protos m1 = m_protos m"
    "\<forall>j. j \<noteq> i \<longrightarrow> the_inst j m1 = the_inst j m"
    "the_inst i m1 = None \<or> (\<exists>li. the_inst i m = Some li \<and> the_inst i m1 = Some (li\<lparr>li_rc := li_rc li - 1\<rparr>))"
    using release_ok [OF assms(1)] by blast
  have e: "m1 = m'" using m1(1) assms(2) by simp
  have "\<exists>li. the_inst x m = Some li \<and> li_kept li li'" if "the_inst x m1 = Some li'" for x li'
    using that m1(4,5) by (cases "x = i") auto
  then show ?thesis using m1(2,3) e by (auto simp: same_shape_def quiet_def proto_info_def the_proto_def)
qed

section \<open>Tasks\<close>

fun user_task :: "nat \<Rightarrow> task \<Rightarrow> bool" where
  "user_task i (TUser x ps) \<longleftrightarrow> list_all (\<lambda>q. fst q = i \<and> user_task i (snd q)) ps"
| "user_task i _ \<longleftrightarrow> False"

fun answers :: "task \<Rightarrow> nat list" where
  "answers (TGrant p) = [p]"
| "answers (TReject p) = [p]"
| "answers _ = []"

definition task_ok :: "nat \<Rightarrow> task \<Rightarrow> bool" where
  "task_ok i t \<longleftrightarrow> (case t of TUser x ps \<Rightarrow> user_task i t | _ \<Rightarrow> True)"

definition pending :: "(nat \<times> task) list \<Rightarrow> nat list" where
  "pending ts = concat (map (answers \<circ> snd) ts)"

lemma pending_simps [simp]:
  "pending [] = []" "pending (x # ts) = answers (snd x) @ pending ts" "pending (ts @ us) = pending ts @ pending us"
  by (simp_all add: pending_def)

text \<open>The tasks \<open>Q\<close> in a queue: an answer waits for a request that is still there.\<close>

definition queue_ok :: "(nat \<times> task) list \<Rightarrow> mgr \<Rightarrow> bool" where
  "queue_ok Q m \<longleftrightarrow> (\<forall>(i, t)\<in>set Q. task_ok i t) \<and> distinct (pending Q) \<and>
     (\<forall>i t p li. (i, t) \<in> set Q \<longrightarrow> p \<in> set (answers t) \<longrightarrow> the_inst i m = Some li \<longrightarrow> \<not> li_detached li \<longrightarrow>
        (\<exists>pm. map_of (m_perms m) p = Some pm \<and> pm_inst pm = i))"

lemma queue_calm:
  assumes "queue_ok Q m" "calm m m'"
  shows "queue_ok Q m'"
proof -
  have "\<exists>pm. map_of (m_perms m') p = Some pm \<and> pm_inst pm = i"
    if t: "(i, t) \<in> set Q" "p \<in> set (answers t)" "the_inst i m' = Some li" "\<not> li_detached li" for i t p li
  proof -
    obtain l0 where "the_inst i m = Some l0" "\<not> li_detached l0" using assms(2) t(3,4) unfolding calm_def by blast
    then obtain pm where pm: "map_of (m_perms m) p = Some pm" "pm_inst pm = i"
      using assms(1) t(1,2) unfolding queue_ok_def by blast
    then show ?thesis using assms(2) t(3,4) unfolding calm_def by blast
  qed
  then show ?thesis using assms(1) unfolding queue_ok_def by blast
qed

lemma queue_sub: "queue_ok (x # Q) m \<Longrightarrow> queue_ok Q m"
  unfolding queue_ok_def by auto

lemma queue_add:
  assumes "queue_ok Q m" "task_ok i t" "answers t = []"
  shows "queue_ok (Q @ [(i, t)]) m"
  using assms unfolding queue_ok_def by auto

lemma addTask_ok:
  assumes inv: "lc_inv H m" and i: "the_inst i m = Some li"
  shows "\<exists>m'. addTask i t m = Some m' \<and> lc_inv H m' \<and> same_shape m m' \<and> calm m m' \<and> m_tasks m' = m_tasks m @ [(i, t)] \<and>
    m_perms m' = m_perms m \<and> m_pnext m' = m_pnext m \<and> m_log m' = m_log m \<and> m_perm_cb m' = m_perm_cb m \<and>
    (\<forall>j. the_inst j m' = (if j = i then Some (li\<lparr>li_rc := li_rc li + 1\<rparr>) else the_inst j m)) \<and> m_protos m' = m_protos m"
proof -
  let ?m1 = "put_inst i (li\<lparr>li_rc := li_rc li + 1\<rparr>) m"
  let ?m = "?m1\<lparr>m_tasks := m_tasks ?m1 @ [(i, t)]\<rparr>"
  note a = addRef_ok [OF inv i]
  note h = lc_invD [OF a(2)]
  have r: "all_refs H ?m = all_refs (add_mset i H) ?m1" by (simp add: all_refs_def)
  have "lc_inv H ?m"
    unfolding lc_inv_def
  proof (intro conjI)
    show "shape_right ?m" using h(1) by (simp add: shape_right_def)
    show "counts_right H ?m" using h(2) counts_cong [OF _ r] by simp
    show "slots_right ?m" using h(3) by (simp add: slots_right_def)
    show "opaque_right ?m" using h(4) by (simp add: opaque_right_def in_slot_def)
    show "perms_right ?m" using h(5) by (simp add: perms_right_def)
    show "log_right ?m" using h(6) by (simp add: log_right_def)
  qed
  moreover have "addTask i t m = Some ?m" using a(1) by (simp add: addTask_def)
  moreover have "same_shape m ?m" using i by (auto simp: same_shape_def proto_info_def)
  moreover have "calm m ?m" using i by (auto simp: calm_def split: if_splits)
  ultimately show ?thesis by simp
qed

lemma FeaturePost_ok:
  assumes inv: "lc_inv H m" and i: "the_inst i m = Some li" and q: "queue_ok (Q @ m_tasks m) m" and t: "user_task i t"
  shows "\<exists>b m'. FeaturePost i t m = Some (b, m') \<and> lc_inv H m' \<and> same_shape m m' \<and> calm m m' \<and>
    queue_ok (Q @ m_tasks m') m' \<and> (\<exists>li'. the_inst i m' = Some li') \<and>
    b = (\<not> li_detached li) \<and> m_tasks m' = m_tasks m @ (if li_detached li then [] else [(i, t)]) \<and> m_log m' = m_log m"
proof (cases "li_detached li")
  case True
  then show ?thesis using assms
    by (intro exI [of _ False] exI [of _ m]) (simp add: FeaturePost_def same_shape_refl calm_refl)
next
  case False
  obtain m' where m': "addTask i t m = Some m'" "lc_inv H m'" "same_shape m m'" "calm m m'"
    "m_tasks m' = m_tasks m @ [(i, t)]" "m_log m' = m_log m"
    "\<forall>j. the_inst j m' = (if j = i then Some (li\<lparr>li_rc := li_rc li + 1\<rparr>) else the_inst j m)"
    using addTask_ok [OF inv i] by blast
  have a: "answers t = []" "task_ok i t" using t by (cases t; simp add: task_ok_def)+
  have "queue_ok (Q @ m_tasks m') m'"
    using queue_add [OF queue_calm [OF q m'(4)] a(2,1)] m'(5) by simp
  then show ?thesis using False i m' by (intro exI [of _ True] exI [of _ m']) (simp add: FeaturePost_def)
qed

lemma post_all_ok:
  "lc_inv H m \<Longrightarrow> the_inst i m = Some li \<Longrightarrow> queue_ok (Q @ m_tasks m) m \<Longrightarrow>
   list_all (\<lambda>q. fst q = i \<and> user_task i (snd q)) ps \<Longrightarrow>
   \<exists>m'. post_all ps m = Some m' \<and> lc_inv H m' \<and> same_shape m m' \<and> calm m m' \<and> queue_ok (Q @ m_tasks m') m' \<and>
     m_log m' = m_log m \<and> m_tasks m' = m_tasks m @ (if li_detached li then [] else ps)"
proof (induction ps arbitrary: m li)
  case Nil
  then show ?case by (simp add: same_shape_refl calm_refl)
next
  case (Cons p ps)
  have p: "p = (i, snd p)" "user_task i (snd p)" "list_all (\<lambda>q. fst q = i \<and> user_task i (snd q)) ps"
    using Cons.prems(4) by (cases p; simp)+
  obtain b m1 li' where m1: "FeaturePost i (snd p) m = Some (b, m1)" "lc_inv H m1" "same_shape m m1" "calm m m1"
    "queue_ok (Q @ m_tasks m1) m1" "the_inst i m1 = Some li'"
    "m_tasks m1 = m_tasks m @ (if li_detached li then [] else [(i, snd p)])" "m_log m1 = m_log m"
    using FeaturePost_ok [OF Cons.prems(1-3) p(2)] by blast
  have d: "li_detached li' = li_detached li"
  proof (cases "li_detached li")
    case True
    then show ?thesis using m1(1,6) Cons.prems(2) by (simp add: FeaturePost_def)
  next
    case False
    then show ?thesis using m1(1,6) Cons.prems(2)
      by (auto simp: FeaturePost_def addTask_def addRef_def bind_eq_Some_conv)
  qed
  obtain m2 where "post_all ps m1 = Some m2" "lc_inv H m2" "same_shape m1 m2" "calm m1 m2" "queue_ok (Q @ m_tasks m2) m2"
    "m_log m2 = m_log m1" "m_tasks m2 = m_tasks m1 @ (if li_detached li' then [] else ps)"
    using Cons.IH [OF m1(2,6,5) p(3)] by blast
  moreover have "post_all (p # ps) m = post_all ps m1" using m1(1) by (subst p(1)) simp
  moreover have "m_tasks m @ (if li_detached li then [] else [(i, snd p)]) @ (if li_detached li' then [] else ps) =
      m_tasks m @ (if li_detached li then [] else p # ps)"
    using p(1) d by simp
  ultimately show ?case
    using same_shape_trans [OF m1(3)] calm_trans [OF m1(4)] m1(7,8) by (metis append.assoc)
qed

fun plain :: "entry \<Rightarrow> bool" where
  "plain (NRegister n b) \<longleftrightarrow> True"
| "plain (NTask mode i x) \<longleftrightarrow> True"
| "plain (NAsked p) \<longleftrightarrow> True"
| "plain _ \<longleftrightarrow> False"

lemma plainD [simp]:
  "plain x \<Longrightarrow> \<not> is_detached i x" "plain x \<Longrightarrow> \<not> is_deleted i x" "plain x \<Longrightarrow> \<not> is_required i x"
  "plain x \<Longrightarrow> \<not> is_created k x" "plain x \<Longrightarrow> \<not> is_destroyed k x" "plain x \<Longrightarrow> \<not> is_answer p x"
  by (cases x; simp)+

lemma tell_ok:
  assumes inv: "lc_inv H m" and x: "plain x" "allowed (m_log m) x"
  shows "lc_inv H (tell x m)" "same_shape m (tell x m)" "calm m (tell x m)"
proof -
  note h = lc_invD [OF inv]
  let ?t = "tell x m"
  have "log_right ?t" using h(6) x unfolding log_right_def by (auto simp: list_ex_append)
  moreover have "shape_right ?t" using h(1) by (simp add: shape_right_def)
  moreover have "counts_right H ?t" using h(2) counts_cong [of ?t m H H] by simp
  moreover have "slots_right ?t" using h(3) by (simp add: slots_right_def)
  moreover have "opaque_right ?t" using h(4) by (simp add: opaque_right_def in_slot_def)
  moreover have "perms_right ?t" using h(5) x by (simp add: perms_right_def list_ex_append)
  ultimately show "lc_inv H ?t" by (simp add: lc_inv_def)
  show "same_shape m ?t" using x by (auto simp: same_shape_def list_ex_append proto_info_def)
  show "calm m ?t" by (auto simp: calm_def)
qed

lemma answer_ok:
  assumes inv: "lc_inv H m" and pm: "map_of (m_perms m) p = Some pm"
    and i: "the_inst (pm_inst pm) m = Some li" "\<not> li_detached li"
    and x: "x = NGranted p (pm_inst pm) \<or> x = NRejected p (pm_inst pm) r"
    and q: "queue_ok Q m" "p \<notin> set (pending Q)"
  defines "m' \<equiv> (tell x m)\<lparr>m_perms := omap_del p (m_perms m)\<rparr>"
  shows "lc_inv H m'" "same_shape m m'" "queue_ok Q m'"
proof -
  note h = lc_invD [OF inv]
  have t: "the_inst j m' = the_inst j m" "the_proto k m' = the_proto k m" "findFeature n m' = findFeature n m"
    "m_log m' = m_log m @ [x]" "m_opaque m' = m_opaque m" "m_next m' = m_next m" "m_pnext m' = m_pnext m"
    "all_refs H m' = all_refs H m" "m_insts m' = m_insts m" "m_protos m' = m_protos m"
    "m_perms m' = omap_del p (m_perms m)" "m_ctx m' = m_ctx m" "m_registered m' = m_registered m" for j k n
    by (simp_all add: m'_def)
  have l: "p < m_pnext m" "\<not> list_ex (is_answer p) (m_log m)" using perm_live [OF h(5) pm] by simp_all
  have nd: "\<not> list_ex (is_detached (pm_inst pm)) (m_log m)" using h(6) i by (auto simp: log_right_def)
  have al: "allowed (m_log m) x" using x l(2) nd by auto
  have no: "\<not> is_detached j x" "\<not> is_deleted j x" "\<not> is_required j x" "\<not> is_created k x" "\<not> is_destroyed k x"
    "is_answer q' x \<longleftrightarrow> q' = p" for j k q'
    using x by auto
  have "log_right m'" using h(6) al no unfolding log_right_def t by (auto simp: list_ex_append)
  moreover have "shape_right m'" using h(1) unfolding shape_right_def t by simp
  moreover have "counts_right H m'" using h(2) counts_cong [OF t(1) t(8)] by simp
  moreover have "slots_right m'" using h(3) unfolding slots_right_def t .
  moreover have "opaque_right m'" using h(4) unfolding opaque_right_def in_slot_def t .
  moreover have "perms_right m'" using h(5) no l unfolding perms_right_def t by (auto simp: list_ex_append split: if_splits)
  ultimately show "lc_inv H m'" by (simp add: lc_inv_def)
  show "same_shape m m'" using no unfolding same_shape_def proto_info_def t by (auto simp: list_ex_append)
  show "queue_ok Q m'"
  proof -
    have "a \<noteq> p" if "(j, u) \<in> set Q" "a \<in> set (answers u)" for a j u
      using q(2) that by (force simp: pending_def)
    then show ?thesis using q(1) unfolding queue_ok_def t by auto
  qed
qed

lemma run_task_ok:
  assumes inv: "lc_inv H m" and i: "the_inst i m = Some li" and q: "queue_ok ((i, t) # Q @ m_tasks m) m"
  shows "\<exists>m'. run_task mode i t m = Some m' \<and> lc_inv H m' \<and> same_shape m m' \<and> queue_ok (Q @ m_tasks m') m'"
proof (cases t)
  case (TUser x ps)
  let ?m1 = "tell (NTask mode i x) m"
  have "\<not> list_ex (is_deleted i) (m_log m)" using lc_invD(6) [OF inv] i by (simp add: log_right_def)
  then have t1: "lc_inv H ?m1" "same_shape m ?m1" "calm m ?m1" using tell_ok [OF inv, of "NTask mode i x"] by simp_all
  have q1: "queue_ok (Q @ m_tasks ?m1) ?m1" using queue_calm [OF queue_sub [OF q] t1(3)] by simp
  have u: "list_all (\<lambda>q. fst q = i \<and> user_task i (snd q)) ps" using q TUser by (auto simp: queue_ok_def task_ok_def)
  have i1: "the_inst i ?m1 = Some li" using i by simp
  obtain m' where "post_all ps ?m1 = Some m'" "lc_inv H m'" "same_shape ?m1 m'" "queue_ok (Q @ m_tasks m') m'"
    using post_all_ok [OF t1(1) i1 q1 u] by (elim exE conjE) (rule that)
  then show ?thesis using TUser same_shape_trans [OF t1(2)] by auto
next
  case (TRequest p)
  have t1: "lc_inv H (tell (NAsked p) m)" "same_shape m (tell (NAsked p) m)" "calm m (tell (NAsked p) m)"
    using tell_ok [OF inv, of "NAsked p"] by simp_all
  have "queue_ok (Q @ m_tasks m) (tell (NAsked p) m)" by (rule queue_calm [OF queue_sub [OF q] t1(3)])
  then show ?thesis using TRequest i t1 inv queue_sub [OF q] same_shape_refl by auto
next
  case (TGrant p)
  show ?thesis
  proof (cases "mode = FEATURE_TASK_MODE_NORMAL \<and> \<not> li_detached li")
    case True
    obtain pm where pm: "map_of (m_perms m) p = Some pm" "pm_inst pm = i"
      using q i True TGrant unfolding queue_ok_def by (metis answers.simps(1) list.set_intros(1))
    have np: "p \<notin> set (pending (Q @ m_tasks m))" using q TGrant by (auto simp: queue_ok_def)
    have "the_inst (pm_inst pm) m = Some li" "\<not> li_detached li" using i pm True by simp_all
    note a = answer_ok [OF inv pm(1) this _ queue_sub [OF q] np, of "NGranted p (pm_inst pm)"]
    show ?thesis using a TGrant i True pm by auto
  qed (use TGrant i inv queue_sub [OF q] same_shape_refl in auto)
next
  case (TReject p)
  show ?thesis
  proof (cases "mode = FEATURE_TASK_MODE_NORMAL \<and> \<not> li_detached li")
    case True
    obtain pm where pm: "map_of (m_perms m) p = Some pm" "pm_inst pm = i"
      using q i True TReject unfolding queue_ok_def by (metis answers.simps(2) list.set_intros(1))
    have np: "p \<notin> set (pending (Q @ m_tasks m))" using q TReject by (auto simp: queue_ok_def)
    have "the_inst (pm_inst pm) m = Some li" "\<not> li_detached li" using i pm True by simp_all
    note a = answer_ok [OF inv pm(1) this _ queue_sub [OF q] np, of "NRejected p (pm_inst pm) (pm_reason pm)" "pm_reason pm"]
    show ?thesis using a TReject i True pm by auto
  qed (use TReject i inv queue_sub [OF q] same_shape_refl in auto)
qed

lemma release_tasks: "release i m = Some m' \<Longrightarrow> m_tasks m' = m_tasks m"
  by (auto simp: release_def instance_onDetached_def remove_instance_permissions_def bind_eq_Some_conv
    split: option.splits if_splits)

lemma run_tasks_ok:
  "lc_inv (mset (map fst ts) + H) m \<Longrightarrow> queue_ok (ts @ m_tasks m) m \<Longrightarrow>
   \<exists>m'. run_tasks mode ts m = Some m' \<and> lc_inv H m' \<and> same_shape m m' \<and> queue_ok (m_tasks m') m'"
proof (induction ts arbitrary: m)
  case Nil
  then show ?case by (simp add: same_shape_refl)
next
  case (Cons x ts)
  obtain i t where x: "x = (i, t)" by (cases x)
  have inv: "lc_inv (add_mset i (mset (map fst ts) + H)) m" using Cons.prems(1) x by simp
  obtain li where i: "the_inst i m = Some li" using held_live [OF lc_invD(2) [OF inv]] by auto
  have q: "queue_ok ((i, t) # ts @ m_tasks m) m" using Cons.prems(2) x by simp
  obtain m1 where m1: "run_task mode i t m = Some m1" "lc_inv (add_mset i (mset (map fst ts) + H)) m1" "same_shape m m1"
    "queue_ok (ts @ m_tasks m1) m1"
    using run_task_ok [OF inv i q] by blast
  obtain m2 where m2: "release i m1 = Some m2" "lc_inv (mset (map fst ts) + H) m2"
    using release_ok [OF m1(2)] by blast
  have q2: "queue_ok (ts @ m_tasks m2) m2"
    using queue_calm [OF m1(4) release_calm [OF m2(1) lc_perms [OF m1(2)]]] release_tasks [OF m2(1)] by simp
  have s2: "same_shape m m2" by (rule same_shape_trans [OF m1(3) release_shape [OF m1(2) m2(1)]])
  obtain m3 where "run_tasks mode ts m2 = Some m3" "lc_inv H m3" "same_shape m2 m3" "queue_ok (m_tasks m3) m3"
    using Cons.IH [OF m2(2) q2] by blast
  then show ?case using x m1(1) m2(1) same_shape_trans [OF s2] by auto
qed

lemma take_tasks_ok:
  assumes "lc_inv H m"
  shows "lc_inv (mset (map fst (m_tasks m)) + H) (m\<lparr>m_tasks := []\<rparr>)"
proof -
  let ?m = "m\<lparr>m_tasks := []\<rparr>"
  note h = lc_invD [OF assms]
  have r: "all_refs (mset (map fst (m_tasks m)) + H) ?m = all_refs H m" by (simp add: all_refs_def)
  show ?thesis
    unfolding lc_inv_def
  proof (intro conjI)
    show "shape_right ?m" using h(1) by (simp add: shape_right_def)
    show "counts_right (mset (map fst (m_tasks m)) + H) ?m" using h(2) counts_cong [OF _ r] by simp
    show "slots_right ?m" using h(3) by (simp add: slots_right_def)
    show "opaque_right ?m" using h(4) by (simp add: opaque_right_def in_slot_def)
    show "perms_right ?m" using h(5) by (simp add: perms_right_def)
    show "log_right ?m" using h(6) by (simp add: log_right_def)
  qed
qed

lemma runAllTasks_ok:
  assumes inv: "lc_inv H m" and q: "queue_ok (m_tasks m) m"
  shows "\<exists>m'. runAllTasks mode m = Some m' \<and> lc_inv H m' \<and> same_shape m m' \<and> queue_ok (m_tasks m') m'"
proof -
  let ?m = "m\<lparr>m_tasks := []\<rparr>"
  note take_tasks_ok [OF inv]
  moreover have "queue_ok (m_tasks m @ m_tasks ?m) ?m" using q by (simp add: queue_ok_def)
  moreover have "same_shape m ?m" by (auto simp: same_shape_def proto_info_def)
  ultimately show ?thesis using run_tasks_ok [of "m_tasks m" H ?m mode] same_shape_trans
    unfolding runAllTasks_def by blast
qed

end
