(* ===== verification/LifecycleClient.thy ===== *)
theory LifecycleClient
  imports LifecycleRun
begin

text \<open>
  Registration, creation, interfaces and permission requests, and then whole runs of the manager
  under a client that keeps the rules: it uses handles of live instances, frees the references it
  has taken, and answers a permission request at most once.
\<close>

section \<open>Registering and creating\<close>

definition whole :: "mgr \<Rightarrow> bool" where
  "whole m \<longleftrightarrow> (if m_ctx m then intact m else \<not> m_registered m \<and> (\<forall>k. the_proto k m = None))"

lemma same_shape_whole:
  assumes "same_shape m m'" "whole m"
  shows "whole m'"
proof -
  have "proto_info k m' = proto_info k m" for k using assms(1) unfolding same_shape_def by blast
  then have "the_proto k m' = None \<longleftrightarrow> the_proto k m = None" for k
    unfolding proto_info_def by (metis (no_types) option.map_disc_iff)
  moreover have "m_ctx m' = m_ctx m" "m_registered m' = m_registered m" using assms(1) by (simp_all add: same_shape_def)
  ultimately show ?thesis using assms same_shape_intact [OF assms(1)] by (auto simp: whole_def split: if_splits)
qed

lemma register_ok:
  assumes inv: "lc_inv H m" and it: "intact m" and q: "queue_ok Q m"
  shows "lc_inv H (registerFeature d m)" "intact (registerFeature d m)" "queue_ok Q (registerFeature d m)"
    "m_ctx (registerFeature d m) = m_ctx m" "m_tasks (registerFeature d m) = m_tasks m"
proof -
  let ?m0 = "m\<lparr>m_registry := omap_put (d_name d) d (m_registry m)\<rparr>"
  note h = lc_invD [OF inv]
  have t: "the_inst i ?m0 = the_inst i m" "the_proto k ?m0 = the_proto k m"
    "findFeature n ?m0 = (if n = d_name d then Some d else findFeature n m)" for i k n
    by (simp_all add: the_inst_def the_proto_def findFeature_def)
  have ar: "all_refs H ?m0 = all_refs H m" by (simp add: all_refs_def)
  have "shape_right ?m0" using h(1) unfolding shape_right_def t by auto
  moreover have "counts_right H ?m0" using h(2) counts_cong [OF t(1) ar] by simp
  moreover have "slots_right ?m0" using h(3) unfolding slots_right_def t .
  moreover have "opaque_right ?m0" using h(4) unfolding opaque_right_def in_slot_def t by simp
  moreover have "perms_right ?m0" using h(5) unfolding perms_right_def t by simp
  moreover have "log_right ?m0" using h(6) unfolding log_right_def t by simp
  ultimately have i0: "lc_inv H ?m0" by (simp add: lc_inv_def)
  have e: "registerFeature d m = tell (NRegister (d_name d) (cb_register d)) ?m0" by (simp add: registerFeature_def)
  have s: "same_shape m ?m0" "calm m ?m0" by (auto simp: same_shape_def proto_info_def t calm_def)
  note r = tell_ok [OF i0, of "NRegister (d_name d) (cb_register d)", simplified]
  show "lc_inv H (registerFeature d m)" unfolding e by (rule r(1))
  show "intact (registerFeature d m)" unfolding e
    by (rule same_shape_intact [OF same_shape_trans [OF s(1) r(2)] it])
  show "queue_ok Q (registerFeature d m)" unfolding e by (rule queue_calm [OF q calm_trans [OF s(2) r(3)]])
  show "m_ctx (registerFeature d m) = m_ctx m" "m_tasks (registerFeature d m) = m_tasks m"
    by (simp_all add: registerFeature_def)
qed

text \<open>Nothing a queued task may rely on goes away when instances and prototypes are added.\<close>

definition grown :: "mgr \<Rightarrow> mgr \<Rightarrow> bool" where
  "grown m m' \<longleftrightarrow> m_tasks m' = m_tasks m \<and> m_perms m' = m_perms m \<and> m_ctx m' = m_ctx m \<and> m_next m \<le> m_next m' \<and>
     (\<forall>i li'. i < m_next m \<longrightarrow> the_inst i m' = Some li' \<longrightarrow> (\<exists>li. the_inst i m = Some li \<and> li_detached li' = li_detached li))"

lemma grown_refl: "grown m m"
  by (auto simp: grown_def)

lemma grown_trans:
  assumes "grown m m'" "grown m' m''"
  shows "grown m m''"
proof -
  have "\<exists>li. the_inst i m = Some li \<and> li_detached li'' = li_detached li"
    if i: "i < m_next m" "the_inst i m'' = Some li''" for i li''
  proof -
    have "i < m_next m'" using assms(1) i(1) unfolding grown_def by linarith
    then obtain l1 where "the_inst i m' = Some l1" "li_detached li'' = li_detached l1"
      using assms(2) i(2) unfolding grown_def by blast
    then show ?thesis using assms(1) i(1) unfolding grown_def by metis
  qed
  then show ?thesis using assms unfolding grown_def by auto
qed

definition queue_live :: "(nat \<times> task) list \<Rightarrow> mgr \<Rightarrow> bool" where
  "queue_live Q m \<longleftrightarrow> (\<forall>(i, t)\<in>set Q. i < m_next m)"

lemma queue_grown:
  assumes "queue_ok Q m" "queue_live Q m" "grown m m'"
  shows "queue_ok Q m'"
proof -
  have "\<exists>pm. map_of (m_perms m') p = Some pm \<and> pm_inst pm = i"
    if t: "(i, t) \<in> set Q" "p \<in> set (answers t)" "the_inst i m' = Some li" "\<not> li_detached li" for i t p li
  proof -
    have "i < m_next m" using assms(2) t(1) by (auto simp: queue_live_def)
    then obtain l0 where "the_inst i m = Some l0" "\<not> li_detached l0" using assms(3) t(3,4) unfolding grown_def by blast
    then show ?thesis using assms(1,3) t(1,2) unfolding queue_ok_def grown_def by metis
  qed
  then show ?thesis using assms(1) unfolding queue_ok_def by blast
qed

lemma tasks_live:
  assumes "lc_inv H m"
  shows "queue_live (m_tasks m) m"
  unfolding queue_live_def
proof safe
  fix i t assume "(i, t) \<in> set (m_tasks m)"
  then have "0 < count (all_refs H m) i" by (force simp: all_refs_def)
  then obtain li where "the_inst i m = Some li" using live_count [OF lc_invD(2) [OF assms]] by blast
  then show "i < m_next m" using shape_live [OF lc_invD(1) [OF assms]] by blast
qed


lemma grown_steps:
  "new_instance k v m = Some (i, m') \<Longrightarrow> grown m m'"
  "place i k m = Some m' \<Longrightarrow> grown m m'"
  "createJsInstance k i m = Some m' \<Longrightarrow> grown m m'"
  "grown m (ensure_proto k d m)"
  "grown m (tell x m)"
proof -
  show "new_instance k v m = Some (i, m') \<Longrightarrow> grown m m'"
    by (auto simp: new_instance_def grown_def Let_def split: option.splits)
  show "place i k m = Some m' \<Longrightarrow> grown m m'"
    by (auto simp: place_def grown_def split: option.splits prod.splits if_splits)
  show "createJsInstance k i m = Some m' \<Longrightarrow> grown m m'"
    by (auto simp: createJsInstance_def ensureJsPrototype_def grown_def bind_eq_Some_conv split: option.splits if_splits)
  show "grown m (ensure_proto k d m)" by (auto simp: grown_def)
  show "grown m (tell x m)" by (auto simp: grown_def)
qed

lemma make_instance_grown:
  assumes "make_instance k d m = Some (i, m')"
  shows "grown m m'"
proof -
  obtain m1 m2 m3 where s: "new_instance k False m = Some (i, m1)" "place i k m1 = Some m2"
    "createJsInstance k i m2 = Some m3" "m' = tell (NRequired i k (cb_required d)) m3"
    using assms by (auto simp: make_instance_def bind_eq_Some_conv)
  show ?thesis unfolding s(4)
    using grown_trans [OF grown_trans [OF grown_trans [OF grown_steps(1) [OF s(1)] grown_steps(2) [OF s(2)]]
      grown_steps(3) [OF s(3)]] grown_steps(5)] .
qed

lemma queue_create:
  "lc_inv H m \<Longrightarrow> queue_ok (m_tasks m) m \<Longrightarrow> grown m m' \<Longrightarrow> queue_ok (m_tasks m') m'"
  using queue_grown [OF _ tasks_live] by (metis grown_def)

definition good :: "nat multiset \<Rightarrow> mgr \<Rightarrow> bool" where
  "good H m \<longleftrightarrow> lc_inv H m \<and> queue_ok (m_tasks m) m \<and> whole m"

lemma goodD: "good H m \<Longrightarrow> lc_inv H m" "good H m \<Longrightarrow> queue_ok (m_tasks m) m" "good H m \<Longrightarrow> whole m"
  "good H m \<Longrightarrow> m_ctx m \<Longrightarrow> intact m"
  by (simp_all add: good_def whole_def)

lemma good_grown:
  assumes "good H m" "m_ctx m" "lc_inv H' m'" "intact m'" "grown m m'"
  shows "good H' m'"
proof -
  have "m_ctx m'" using assms(2,5) by (simp add: grown_def)
  then show ?thesis using assms queue_create [OF goodD(1,2) [OF assms(1)] assms(5)] by (simp add: good_def whole_def)
qed

lemma new_good:
  assumes g: "good H m" "m_ctx m" and k: "findFeature (hd k) m \<noteq> None" "is_module k"
  shows "\<exists>m'. make_instance k d (ensure_proto k d' m) = Some (m_next m, m') \<and> good H m' \<and> m_ctx m'"
proof -
  have l: "length k = 1" using k(2) by (simp add: is_module_def)
  note e = ensure_proto_ok [OF goodD(1) [OF g(1)] _ k(1), of d']
  have e': "lc_inv H (ensure_proto k d' m)" "the_proto k (ensure_proto k d' m) \<noteq> None" "intact (ensure_proto k d' m)"
    using e goodD(4) [OF g] l by simp_all
  obtain m' where m': "make_instance k d (ensure_proto k d' m) = Some (m_next m, m')" "lc_inv H m'" "intact m'" "m_ctx m' = m_ctx m"
    using make_instance_ok [OF e'(1,3,2), of d] by auto
  have "grown m m'" by (rule grown_trans [OF grown_steps(4) make_instance_grown [OF m'(1)]])
  then show ?thesis using good_grown [OF g m'(2,3)] m'(1,4) g(2) by auto
qed

lemma require_ok:
  assumes g: "good H m" "m_ctx m"
  shows "\<exists>r m'. featureRequire name m = Some (r, m') \<and> good H m' \<and> m_ctx m'"
proof (cases "findFeature name m")
  case (Some d)
  have "\<exists>m'. make_instance [name] d (ensure_proto [name] d m) = Some (m_next m, m') \<and> good H m' \<and> m_ctx m'"
    by (rule new_good [OF g]) (simp_all add: Some is_module_def)
  then show ?thesis using Some g(2) by (auto simp: featureRequire_def)
qed (use g in \<open>simp add: featureRequire_def\<close>)

lemma find_ok:
  assumes g: "good H m" "m_ctx m"
  shows "\<exists>r m'. findFeaturePrototype name m = Some (r, m') \<and> good H m' \<and> m_ctx m'"
proof (cases "findFeature name m")
  case (Some d)
  have n: "d_name d = name" using lc_invD(1) [OF goodD(1) [OF g(1)]] Some by (auto simp: shape_right_def)
  let ?k = "[d_name d]"
  note e = ensure_proto_ok [OF goodD(1) [OF g(1)], of ?k d]
  have e': "lc_inv H (ensure_proto ?k d m)" "the_proto ?k (ensure_proto ?k d m) \<noteq> None" "intact (ensure_proto ?k d m)"
    using e goodD(4) [OF g] n Some by simp_all
  obtain pr where pr: "the_proto ?k (ensure_proto ?k d m) = Some pr" using e'(2) by auto
  obtain m' where m': "ensureJsPrototype ?k (ensure_proto ?k d m) = Some m'" "lc_inv H m'" "intact m'" "m_ctx m' = m_ctx m"
    using ensureJs_ok [OF e'(1,3) pr] by auto
  have "grown (ensure_proto ?k d m) m'" using m'(1)
    by (auto simp: ensureJsPrototype_def grown_def split: option.splits if_splits)
  then have "grown m m'" by (rule grown_trans [OF grown_steps(4)])
  then show ?thesis using good_grown [OF g m'(2,3)] m'(1,4) g(2) Some by (auto simp: findFeaturePrototype_def)
qed (use g in \<open>simp add: findFeaturePrototype_def\<close>)

lemma create_ok:
  assumes g: "good H m" "m_ctx m"
  shows "\<exists>r m'. createFeature p m = Some (r, m') \<and> good H m' \<and> m_ctx m'"
proof (cases "find (\<lambda>(k, pr). is_module k \<and> (if pr_js pr then p = Some k else p = None)) (m_protos m)")
  case (Some x)
  obtain k pr where x: "x = (k, pr)" by (cases x)
  have k: "is_module k" "(k, pr) \<in> set (m_protos m)" using Some x by (auto simp: find_Some_iff in_set_conv_nth)
  note sh = lc_invD(1) [OF goodD(1) [OF g(1)]]
  have "map_of (m_protos m) k = Some pr" using k(2) sh by (simp add: shape_right_def omap_ok_distinct map_of_is_SomeI)
  then have t: "the_proto k m \<noteq> None" by (simp add: the_proto_def)
  then obtain d where d: "findFeature (hd k) m = Some d" using sh by (fastforce simp: shape_right_def)
  have "\<exists>m'. make_instance k d (ensure_proto k d m) = Some (m_next m, m') \<and> good H m' \<and> m_ctx m'"
    by (rule new_good [OF g _ k(1)]) (simp add: d)
  then show ?thesis using Some x g(2) d t by (auto simp: createFeature_def ensure_proto_def)
qed (use g in \<open>simp add: createFeature_def\<close>)

section \<open>Interfaces\<close>

lemma interface_ok:
  assumes g: "good H m" "m_ctx m" and i: "the_inst i m = Some li"
  shows "\<exists>m'. FeatureCreateInterface i v m = Some (m_next m, m') \<and> good (add_mset (m_next m) H) m' \<and> m_ctx m'"
proof -
  note it = goodD(4) [OF g]
  let ?k = "[hd (li_proto li)]"
  obtain pr where pr: "the_proto ?k m = Some pr" using intactD(2) [OF it intactD(3) [OF it i]] by auto
  obtain m' where n: "new_instance ?k v m = Some (m_next m, m')" "lc_inv (add_mset (m_next m) H) m'"
    using new_instance_ok [OF goodD(1) [OF g(1)] pr, of v] by simp
  have "intact m'" using n(1) it pr
    unfolding intact_def by (auto simp: new_instance_def Let_def split: option.splits if_splits)
  then show ?thesis using good_grown [OF g n(2) _ grown_steps(1) [OF n(1)]] n(1) i grown_steps(1) [OF n(1)] g(2)
    by (simp add: FeatureCreateInterface_def grown_def)
qed

lemma reinit_ok:
  assumes inv: "lc_inv H m" and i: "the_inst i m = Some li" and k: "the_proto k m \<noteq> None" and u: "unslotted i m"
  shows "lc_inv H (put_inst i (li\<lparr>li_proto := k, li_initialized := True\<rparr>) m)"
proof -
  note h = lc_invD [OF inv]
  let ?m = "put_inst i (li\<lparr>li_proto := k, li_initialized := True\<rparr>) m"
  have "k \<noteq> []" using h(1) k unfolding shape_right_def by fastforce
  then have "shape_right ?m" using h(1) i k unfolding shape_right_def by auto
  moreover have "counts_right H ?m"
    unfolding counts_right_def
  proof
    fix j
    show "case the_inst j ?m of None \<Rightarrow> count (all_refs H ?m) j = 0
      | Some lj \<Rightarrow> li_rc lj = int (count (all_refs H ?m) j) \<and> 0 < li_rc lj"
      using h(2) [unfolded counts_right_def, rule_format, of j] i by (cases "j = i") (auto split: option.splits)
  qed
  moreover have "slots_right ?m" using h(3) i u unfolding slots_right_def unslotted_def by fastforce
  moreover have "opaque_right ?m" using h(4) i u unfolding opaque_right_def in_slot_def unslotted_def by fastforce
  moreover have "perms_right ?m" using h(5) i unfolding perms_right_def by fastforce
  moreover have "log_right ?m" using h(6) i unfolding log_right_def by auto
  ultimately show ?thesis by (simp add: lc_inv_def)
qed

lemma toTarget_ok:
  assumes g: "good (add_mset i H) m" "m_ctx m" and i: "the_inst i m = Some li" "li_interface li" "\<not> li_initialized li"
  shows "\<exists>m'. toTargetInterface i d m = Some (True, m') \<and> good H m' \<and> m_ctx m'"
proof -
  note it = goodD(4) [OF g] and inv = goodD(1) [OF g(1)]
  let ?k = "[hd (li_proto li), d_name d]"
  let ?m1 = "ensure_proto ?k d m" and ?li = "li\<lparr>li_proto := [hd (li_proto li), d_name d], li_initialized := True\<rparr>"
  have hp: "the_proto [hd (li_proto li)] m \<noteq> None" by (rule intactD(2) [OF it intactD(3) [OF it i(1)]])
  then have "findFeature (hd [hd (li_proto li)]) m \<noteq> None" using lc_invD(1) [OF inv] unfolding shape_right_def by blast
  then have f: "findFeature (hd ?k) m \<noteq> None" by simp
  have e: "lc_inv (add_mset i H) ?m1" "the_proto ?k ?m1 \<noteq> None" "intact ?m1"
    using ensure_proto_ok [OF inv _ f, of d] it hp by simp_all
  have i1: "the_inst i ?m1 = Some li" using i(1) by simp
  have nd: "\<not> li_detached li" using intactD(4) [OF it i(1-3)] .
  have u: "unslotted i ?m1" using lc_invD(3) [OF e(1)] i1 i(2,3) unfolding slots_right_def unslotted_def by fastforce
  let ?m2 = "put_inst i ?li ?m1"
  have e2: "lc_inv (add_mset i H) ?m2" by (rule reinit_ok [OF e(1) i1 e(2) u])
  obtain pr where pr: "the_proto ?k ?m2 = Some pr" using e(2) by auto
  have it2: "intact ?m2" using e(2,3) unfolding intact_def by auto
  have u2: "unslotted i ?m2" using u by (simp add: unslotted_def)
  have i2: "the_inst i ?m2 = Some ?li" "\<not> li_detached ?li" "li_proto ?li = ?k" "li_interface ?li \<longrightarrow> li_initialized ?li"
    using nd by simp_all
  obtain m3 pos where m3: "place i ?k ?m2 = Some m3" "lc_inv H m3" "quiet ?m2 m3"
    "the_inst i m3 = Some (?li\<lparr>li_slot := int pos\<rparr>)" "in_slot i (?li\<lparr>li_slot := int pos\<rparr>) m3"
    "\<forall>j. j \<noteq> i \<longrightarrow> the_inst j m3 = the_inst j ?m2" "\<forall>k'. proto_info k' m3 = proto_info k' ?m2"
    using place_ok [OF e2 i2 pr u2] by (elim exE conjE) (rule that)
  have it3: "intact m3"
  proof (rule quiet_intact [OF it2 m3(3)])
    show "proto_info k' m3 = proto_info k' ?m2" for k' using m3(7) by blast
    show "the_proto (li_proto lx) ?m2 \<noteq> None \<and> (li_interface lx \<longrightarrow> \<not> li_initialized lx \<longrightarrow> \<not> li_detached lx)"
      if x: "the_inst x m3 = Some lx" for x lx
    proof (cases "x = i")
      case True
      then have "lx = ?li\<lparr>li_slot := int pos\<rparr>" using x m3(4) by simp
      then show ?thesis using e(2) by simp
    next
      case False
      then have "the_inst x ?m2 = Some lx" using x m3(6) by simp
      then show ?thesis using intactD(3,4) [OF it2] by blast
    qed
  qed
  have "proto_info ?k m3 \<noteq> None" using m3(7) pr by (simp add: proto_info_def)
  then obtain pr3 where pr3: "the_proto ?k m3 = Some pr3" by (auto simp: proto_info_def)
  obtain m4 where m4: "createJsInstance ?k i m3 = Some m4" "lc_inv H m4" "intact m4" "m_ctx m4 = m_ctx m3"
    using createJs_ok [OF m3(2) it3 pr3 m3(4) _ m3(5)] nd by auto
  have e': "toTargetInterface i d m = Some (True, m4)"
    using i m3(1) m4(1) by (simp add: toTargetInterface_def getInterfacePrototype_def Let_def)
  have "grown ?m1 ?m2" using i1 by (auto simp: grown_def)
  then have gr: "grown m m4"
    using grown_trans [OF grown_trans [OF grown_trans [OF grown_steps(4)] grown_steps(2) [OF m3(1)]] grown_steps(3) [OF m4(1)]]
    by blast
  then have c: "m_ctx m4" using g(2) by (simp add: grown_def)
  then show ?thesis using e' good_grown [OF g m4(2,3) gr] by simp
qed

section \<open>Permissions\<close>

lemma put_perm_ok:
  assumes inv: "lc_inv H m" and i: "the_inst (pm_inst pm) m = Some li" "\<not> li_detached li"
    and p: "p < N" "m_pnext m \<le> N" "\<not> list_ex (is_answer p) (m_log m)"
  shows "lc_inv H (m\<lparr>m_pnext := N, m_perms := omap_put p pm (m_perms m)\<rparr>)"
proof -
  let ?m = "m\<lparr>m_pnext := N, m_perms := omap_put p pm (m_perms m)\<rparr>"
  note h = lc_invD [OF inv]
  have "shape_right ?m" using h(1) by (simp add: shape_right_def)
  moreover have "counts_right H ?m" using h(2) counts_cong [of ?m m H H] by (simp add: all_refs_def)
  moreover have "slots_right ?m" using h(3) by (simp add: slots_right_def)
  moreover have "opaque_right ?m" using h(4) by (simp add: opaque_right_def in_slot_def)
  moreover have "perms_right ?m" using h(5) i p unfolding perms_right_def by (auto split: if_splits intro: order_less_le_trans)
  moreover have "log_right ?m" using h(6) by (simp add: log_right_def)
  ultimately show ?thesis by (simp add: lc_inv_def)
qed

lemma queue_put_perm:
  assumes "queue_ok Q m" "pm_inst pm = i" "\<And>pm'. map_of (m_perms m) p = Some pm' \<Longrightarrow> pm_inst pm' = i"
    "m_insts m' = m_insts m" "m_perms m' = omap_put p pm (m_perms m)"
  shows "queue_ok Q m'"
  using assms unfolding queue_ok_def the_inst_def by (auto split: if_splits) (metis (no_types, lifting))+

lemma same_shape_perm: "same_shape m (m\<lparr>m_pnext := N, m_perms := P\<rparr>)"
  by (auto simp: same_shape_def proto_info_def)

text \<open>A task of the framework is queued.\<close>

lemma add_good:
  assumes inv: "lc_inv H m" "queue_ok (m_tasks m) m" "whole m" and i: "the_inst i m = Some li"
    and t: "task_ok i t" "\<And>p. p \<in> set (answers t) \<Longrightarrow> p \<notin> set (pending (m_tasks m)) \<and>
      (\<exists>pm. map_of (m_perms m) p = Some pm \<and> pm_inst pm = i)"
    "distinct (answers t)"
  shows "\<exists>m'. addTask i t m = Some m' \<and> good H m' \<and> m_ctx m' = m_ctx m"
proof -
  obtain m' where m': "addTask i t m = Some m'" "lc_inv H m'" "same_shape m m'" "calm m m'" "m_tasks m' = m_tasks m @ [(i, t)]"
    "m_perms m' = m_perms m"
    using addTask_ok [OF inv(1) i] by blast
  have "queue_ok (m_tasks m) m'" by (rule queue_calm [OF inv(2) m'(4)])
  then have "queue_ok (m_tasks m') m'" using t m'(5,6) unfolding queue_ok_def by auto
  moreover have "m_ctx m' = m_ctx m" using m'(3) by (simp add: same_shape_def)
  ultimately show ?thesis using m' same_shape_whole [OF m'(3) inv(3)] by (simp add: good_def)
qed

lemma request_ok:
  assumes g: "good H m" and i: "the_inst i m = Some li"
  shows "\<exists>b m'. FeatureRequestPermissions i api m = Some (b, m') \<and> good H m' \<and> m_ctx m' = m_ctx m"
proof (cases "li_detached li \<or> \<not> m_perm_cb m")
  case False
  let ?p = "m_pnext m" and ?pm = "\<lparr>pm_inst = i, pm_reason = FEATURE_PERMS_DENIED\<rparr>"
  let ?m0 = "m\<lparr>m_pnext := Suc ?p, m_perms := omap_put ?p ?pm (m_perms m)\<rparr>"
  note inv = goodD(1) [OF g]
  have np: "\<not> list_ex (is_answer ?p) (m_log m)" "map_of (m_perms m) ?p = None"
    using lc_invD(5) [OF inv] unfolding perms_right_def by (auto intro: option.exhaust [of "map_of (m_perms m) ?p"])
  have i0: "lc_inv H ?m0" using put_perm_ok [OF inv, of ?pm li ?p "Suc ?p"] i False np by simp
  have q0: "queue_ok (m_tasks ?m0) ?m0"
    using queue_put_perm [OF goodD(2) [OF g], of ?pm i ?p ?m0] np by simp
  have w0: "whole ?m0" by (rule same_shape_whole [OF same_shape_perm goodD(3) [OF g]])
  have it0: "the_inst i ?m0 = Some li" using i by simp
  obtain m' where "addTask i (TRequest ?p) ?m0 = Some m'" "good H m'" "m_ctx m' = m_ctx ?m0"
    using add_good [OF i0 q0 w0 it0, of "TRequest ?p"] by (auto simp: task_ok_def)
  then show ?thesis using i False by (simp add: FeatureRequestPermissions_def Let_def)
qed (use g i in \<open>auto simp: FeatureRequestPermissions_def\<close>)

lemma grant_ok:
  assumes g: "good H m" and p: "p \<notin> set (pending (m_tasks m))"
  shows "\<exists>m'. FeatureGrantPermissions p m = Some m' \<and> good H m' \<and> m_ctx m' = m_ctx m"
proof (cases "map_of (m_perms m) p")
  case (Some pm)
  obtain li where i: "the_inst (pm_inst pm) m = Some li" using perm_live [OF lc_invD(5) [OF goodD(1) [OF g]] Some] by blast
  show ?thesis using add_good [OF goodD(1) [OF g] goodD(2) [OF g] goodD(3) [OF g] i, of "TGrant p"] Some p
    by (simp add: FeatureGrantPermissions_def task_ok_def)
qed (use g in \<open>simp add: FeatureGrantPermissions_def\<close>)

lemma reject_ok:
  assumes g: "good H m" and p: "p \<notin> set (pending (m_tasks m))"
  shows "\<exists>m'. FeatureRejectPermissions p r m = Some m' \<and> good H m' \<and> m_ctx m' = m_ctx m"
proof (cases "map_of (m_perms m) p")
  case (Some pm)
  note inv = goodD(1) [OF g]
  obtain li where i: "the_inst (pm_inst pm) m = Some li" "\<not> li_detached li" "p < m_pnext m" "\<not> list_ex (is_answer p) (m_log m)"
    using perm_live [OF lc_invD(5) [OF inv] Some] by blast
  let ?m0 = "m\<lparr>m_perms := omap_put p (pm\<lparr>pm_reason := r\<rparr>) (m_perms m)\<rparr>"
  have e: "?m0 = m\<lparr>m_pnext := m_pnext m, m_perms := omap_put p (pm\<lparr>pm_reason := r\<rparr>) (m_perms m)\<rparr>"
    by (cases m) simp
  have i0: "lc_inv H ?m0" unfolding e
    by (rule put_perm_ok [OF inv _ i(2,3) order.refl i(4)]) (use i(1) in simp)
  have q0: "queue_ok (m_tasks ?m0) ?m0"
  proof -
    have "queue_ok (m_tasks m) ?m0"
    proof (rule queue_put_perm [OF goodD(2) [OF g]])
      show "pm_inst (pm\<lparr>pm_reason := r\<rparr>) = pm_inst pm" by simp
      show "pm_inst pm' = pm_inst pm" if "map_of (m_perms m) p = Some pm'" for pm' using that Some by simp
    qed simp_all
    then show ?thesis by simp
  qed
  have w0: "whole ?m0" unfolding e by (rule same_shape_whole [OF same_shape_perm goodD(3) [OF g]])
  have it0: "the_inst (pm_inst pm) ?m0 = Some li" using i by simp
  have "\<exists>m'. addTask (pm_inst pm) (TReject p) ?m0 = Some m' \<and> good H m' \<and> m_ctx m' = m_ctx ?m0"
    by (rule add_good [OF i0 q0 w0 it0]) (use p in \<open>simp_all add: task_ok_def\<close>)
  then show ?thesis using Some by (simp add: FeatureRejectPermissions_def)
qed (use g in \<open>simp add: FeatureRejectPermissions_def\<close>)

section \<open>The client\<close>

text \<open>
  What scripts, the collector, the event loop and the native code may ask of the manager.
\<close>

datatype mop =
    ORegister desc
  | ORequire string
  | OFind string
  | OCreate "pkey option"
  | OGC nat
  | OPost nat task
  | ODup nat
  | OFree nat
  | OInterface nat bool
  | OToTarget nat desc
  | ORequest nat string
  | OGrant nat
  | OReject nat reject_reason
  | ORun
  | OUninit

text \<open>The client: the references it holds, with the manager.\<close>

type_synonym client = "nat list \<times> mgr"

definition fresh_interface :: "nat \<Rightarrow> mgr \<Rightarrow> bool" where
  "fresh_interface i m = (case the_inst i m of None \<Rightarrow> False | Some li \<Rightarrow> li_interface li \<and> \<not> li_initialized li)"

fun menabled :: "mop \<Rightarrow> client \<Rightarrow> bool" where
  "menabled (ORegister d) (H, m) \<longleftrightarrow> m_ctx m"
| "menabled (ORequire n) (H, m) \<longleftrightarrow> m_ctx m"
| "menabled (OFind n) (H, m) \<longleftrightarrow> m_ctx m"
| "menabled (OCreate p) (H, m) \<longleftrightarrow> m_ctx m"
| "menabled (OGC i) (H, m) \<longleftrightarrow> True"
| "menabled (OPost i t) (H, m) \<longleftrightarrow> the_inst i m \<noteq> None \<and> user_task i t"
| "menabled (ODup i) (H, m) \<longleftrightarrow> the_inst i m \<noteq> None"
| "menabled (OFree i) (H, m) \<longleftrightarrow> i \<in> set H"
| "menabled (OInterface i v) (H, m) \<longleftrightarrow> the_inst i m \<noteq> None \<and> m_ctx m"
| "menabled (OToTarget i d) (H, m) \<longleftrightarrow> the_inst i m \<noteq> None \<and> (fresh_interface i m \<longrightarrow> m_ctx m \<and> i \<in> set H)"
| "menabled (ORequest i api) (H, m) \<longleftrightarrow> the_inst i m \<noteq> None"
| "menabled (OGrant p) (H, m) \<longleftrightarrow> p \<notin> set (pending (m_tasks m))"
| "menabled (OReject p r) (H, m) \<longleftrightarrow> p \<notin> set (pending (m_tasks m))"
| "menabled ORun (H, m) \<longleftrightarrow> True"
| "menabled OUninit (H, m) \<longleftrightarrow> m_ctx m"

fun mexec :: "mop \<Rightarrow> client \<Rightarrow> client option" where
  "mexec (ORegister d) (H, m) = Some (H, registerFeature d m)"
| "mexec (ORequire n) (H, m) = map_option (\<lambda>(r, m'). (H, m')) (featureRequire n m)"
| "mexec (OFind n) (H, m) = map_option (\<lambda>(r, m'). (H, m')) (findFeaturePrototype n m)"
| "mexec (OCreate p) (H, m) = map_option (\<lambda>(r, m'). (H, m')) (createFeature p m)"
| "mexec (OGC i) (H, m) = map_option (\<lambda>m'. (H, m')) (feature_finalizer i m)"
| "mexec (OPost i t) (H, m) = map_option (\<lambda>(r, m'). (H, m')) (FeaturePost i t m)"
| "mexec (ODup i) (H, m) = map_option (\<lambda>m'. (i # H, m')) (addRef i m)"
| "mexec (OFree i) (H, m) = map_option (\<lambda>m'. (remove1 i H, m')) (release i m)"
| "mexec (OInterface i v) (H, m) = map_option (\<lambda>(j, m'). (j # H, m')) (FeatureCreateInterface i v m)"
| "mexec (OToTarget i d) (H, m) =
     map_option (\<lambda>(r, m'). (if fresh_interface i m then remove1 i H else H, m')) (toTargetInterface i d m)"
| "mexec (ORequest i api) (H, m) = map_option (\<lambda>(r, m'). (H, m')) (FeatureRequestPermissions i api m)"
| "mexec (OGrant p) (H, m) = map_option (\<lambda>m'. (H, m')) (FeatureGrantPermissions p m)"
| "mexec (OReject p r) (H, m) = map_option (\<lambda>m'. (H, m')) (FeatureRejectPermissions p r m)"
| "mexec ORun (H, m) = map_option (\<lambda>m'. (H, m')) (runAllTasks FEATURE_TASK_MODE_NORMAL m)"
| "mexec OUninit (H, m) = map_option (\<lambda>m'. (H, m')) (uninit m)"

fun mlegal :: "mop list \<Rightarrow> client \<Rightarrow> bool" where
  "mlegal [] c \<longleftrightarrow> True"
| "mlegal (x # xs) c \<longleftrightarrow> menabled x c \<and> (case mexec x c of None \<Rightarrow> True | Some c' \<Rightarrow> mlegal xs c')"

definition mrun :: "mop list \<Rightarrow> client \<Rightarrow> client option" where
  "mrun = foldM mexec"

definition cgood :: "client \<Rightarrow> bool" where
  "cgood c \<longleftrightarrow> good (mset (fst c)) (snd c)"

lemma good_shape:
  "good H m \<Longrightarrow> lc_inv H' m' \<Longrightarrow> queue_ok (m_tasks m') m' \<Longrightarrow> same_shape m m' \<Longrightarrow> good H' m'"
  by (simp add: good_def same_shape_whole)

lemma gc_good:
  assumes g: "good H m"
  shows "\<exists>m'. feature_finalizer i m = Some m' \<and> good H m'"
proof -
  obtain m' where m': "feature_finalizer i m = Some m'" "lc_inv H m'" "quiet m m'" "calm m m'"
    "\<forall>k. proto_info k m' = proto_info k m" "\<forall>j. j \<noteq> i \<longrightarrow> the_inst j m' = the_inst j m"
    "\<forall>li'. the_inst i m' = Some li' \<longrightarrow> (\<exists>li. the_inst i m = Some li \<and> li_proto li' = li_proto li \<and>
       (li_interface li' \<longrightarrow> li_initialized li' \<or> li' = li))"
    using finalizer_ok [OF goodD(1) [OF g], of i] by (elim exE conjE) (rule that)
  have "\<exists>li. the_inst x m = Some li \<and> li_kept li li'" if x: "the_inst x m' = Some li'" for x li'
  proof (cases "x = i")
    case True
    then show ?thesis using m'(7) x by (fastforce simp: li_kept_def)
  qed (use x m'(6) in simp)
  then have "same_shape m m'" using m'(3,5) by (simp add: same_shape_def quiet_def)
  moreover have "queue_ok (m_tasks m') m'" using queue_calm [OF goodD(2) [OF g] m'(4)] m'(3) by (simp add: quiet_def)
  ultimately show ?thesis using m'(1,2) good_shape [OF g] by blast
qed

lemma free_good:
  assumes g: "good (add_mset i H) m"
  shows "\<exists>m'. release i m = Some m' \<and> good H m'"
proof -
  note inv = goodD(1) [OF g]
  obtain m' where m': "release i m = Some m'" "lc_inv H m'" "quiet m m'" using release_ok [OF inv] by blast
  have "queue_ok (m_tasks m') m'"
    using queue_calm [OF goodD(2) [OF g] release_calm [OF m'(1) lc_perms [OF inv]]] m'(3) by (simp add: quiet_def)
  then show ?thesis using m'(1,2) good_shape [OF g m'(2) _ release_shape [OF inv m'(1)]] by blast
qed

lemma dup_good:
  assumes g: "good H m" and i: "the_inst i m = Some li"
  shows "\<exists>m'. addRef i m = Some m' \<and> good (add_mset i H) m'"
proof -
  note r = addRef_ok [OF goodD(1) [OF g] i]
  let ?m = "put_inst i (li\<lparr>li_rc := li_rc li + 1\<rparr>) m"
  have "same_shape m ?m" "calm m ?m" using i by (auto simp: same_shape_def proto_info_def calm_def split: if_splits)
  then show ?thesis using r queue_calm [OF goodD(2) [OF g]] good_shape [OF g r(2)] by auto
qed

lemma uninit_good:
  assumes g: "good H m" "m_ctx m"
  shows "\<exists>m'. uninit m = Some m' \<and> good H m'"
proof -
  obtain m' where m': "uninit m = Some m'" "lc_inv H m'" "down m'" "m_protos m' = []" "\<not> m_ctx m'" "m_tasks m' = m_tasks m"
    "\<not> m_registered m'"
    using uninit_ok [OF goodD(1) [OF g(1)] goodD(4) [OF g] g(2)] by blast
  have "li_detached li" if "the_inst i m' = Some li" for i li using m'(3) that by (auto simp: down_def all_detached_def)
  then have "queue_ok (m_tasks m') m'" using goodD(2) [OF g(1)] unfolding queue_ok_def m'(6) by blast
  then show ?thesis using m' by (simp add: good_def whole_def the_proto_def)
qed

lemma client_step:
  assumes c: "cgood c" and e: "menabled x c"
  shows "\<exists>c'. mexec x c = Some c' \<and> cgood c'"
proof -
  obtain H m where hm: "c = (H, m)" by (cases c)
  have g: "good (mset H) m" using c hm by (simp add: cgood_def)
  note gd = goodD [OF g]
  show ?thesis
  proof (cases x)
    case (ORegister d)
    then have "m_ctx m" using e hm by simp
    then show ?thesis using register_ok [OF gd(1) gd(4) gd(2), of d] ORegister hm by (simp add: cgood_def good_def whole_def)
  next
    case (ORequire n)
    then show ?thesis using require_ok [OF g, of n] e hm by (auto simp: cgood_def)
  next
    case (OFind n)
    then show ?thesis using find_ok [OF g, of n] e hm by (auto simp: cgood_def)
  next
    case (OCreate p)
    then show ?thesis using create_ok [OF g, of p] e hm by (auto simp: cgood_def)
  next
    case (OGC i)
    then show ?thesis using gc_good [OF g, of i] hm by (auto simp: cgood_def)
  next
    case (OPost i t)
    then obtain li where i: "the_inst i m = Some li" "user_task i t" using e hm by auto
    have q: "queue_ok ([] @ m_tasks m) m" using gd(2) by simp
    obtain b m' where "FeaturePost i t m = Some (b, m')" "lc_inv (mset H) m'" "same_shape m m'" "queue_ok ([] @ m_tasks m') m'"
      using FeaturePost_ok [OF gd(1) i(1) q i(2)] by blast
    then show ?thesis using good_shape [OF g] OPost hm by (auto simp: cgood_def)
  next
    case (ODup i)
    then obtain li where "the_inst i m = Some li" using e hm by auto
    then show ?thesis using dup_good [OF g] ODup hm by (auto simp: cgood_def)
  next
    case (OFree i)
    then have "mset H = add_mset i (mset (remove1 i H))" using e hm by simp
    then show ?thesis using free_good [of i "mset (remove1 i H)" m] g OFree hm by (auto simp: cgood_def)
  next
    case (OInterface i v)
    then obtain li where "the_inst i m = Some li" "m_ctx m" using e hm by auto
    then show ?thesis using interface_ok [OF g, of i li v] OInterface hm by (auto simp: cgood_def)
  next
    case (OToTarget i d)
    then obtain li where i: "the_inst i m = Some li" using e hm by auto
    show ?thesis
    proof (cases "fresh_interface i m")
      case True
      then have f: "li_interface li" "\<not> li_initialized li" "m_ctx m" "i \<in> set H"
        using e hm OToTarget i by (simp_all add: fresh_interface_def)
      have "mset H = add_mset i (mset (remove1 i H))" using f(4) by simp
      then have "good (add_mset i (mset (remove1 i H))) m" using g by simp
      then show ?thesis using toTarget_ok [OF _ f(3) i f(1,2), of "mset (remove1 i H)" d] OToTarget True hm
        by (auto simp: cgood_def)
    next
      case False
      then show ?thesis using g i OToTarget hm by (auto simp: cgood_def fresh_interface_def toTargetInterface_def)
    qed
  next
    case (ORequest i api)
    then obtain li where "the_inst i m = Some li" using e hm by auto
    then show ?thesis using request_ok [OF g, of i li api] ORequest hm by (auto simp: cgood_def)
  next
    case (OGrant p)
    then show ?thesis using grant_ok [OF g, of p] e hm by (auto simp: cgood_def)
  next
    case (OReject p r)
    then show ?thesis using reject_ok [OF g, of p r] e hm by (auto simp: cgood_def)
  next
    case ORun
    then show ?thesis using runAllTasks_ok [OF gd(1,2), of FEATURE_TASK_MODE_NORMAL] good_shape [OF g] hm
      by (auto simp: cgood_def)
  next
    case OUninit
    then show ?thesis using uninit_good [OF g] e hm by (auto simp: cgood_def)
  qed
qed

lemma new_good_manager: "cgood ([], new_manager cb)"
proof -
  let ?m = "new_manager cb"
  have t: "the_inst i ?m = None" "the_proto k ?m = None" "findFeature n ?m = None" for i k n
    by (simp_all add: new_manager_def the_inst_def the_proto_def findFeature_def)
  have "lc_inv {#} ?m"
    unfolding lc_inv_def shape_right_def counts_right_def slots_right_def opaque_right_def perms_right_def log_right_def
      all_refs_def t
    by (simp add: new_manager_def omap_ok_def ovals_def mset_over_def)
  moreover have "intact ?m" unfolding intact_def t by (simp add: new_manager_def)
  moreover have "queue_ok (m_tasks ?m) ?m" unfolding queue_ok_def by (simp add: new_manager_def)
  ultimately show ?thesis by (simp add: cgood_def good_def whole_def new_manager_def)
qed

lemma client_run: "cgood c \<Longrightarrow> mlegal xs c \<Longrightarrow> \<exists>c'. mrun xs c = Some c' \<and> cgood c'"
proof (induction xs arbitrary: c)
  case Nil
  then show ?case by (simp add: mrun_def)
next
  case (Cons x xs)
  obtain c1 where c1: "mexec x c = Some c1" "cgood c1" using client_step [OF Cons.prems(1), of x] Cons.prems(2) by (auto simp del: mexec.simps menabled.simps)
  then show ?case using Cons.IH [OF c1(2)] Cons.prems(2) by (simp add: mrun_def)
qed

end
