(* ===== verification/LifecycleFacts.thy ===== *)
theory LifecycleFacts
  imports LifecycleClient
begin

text \<open>
  What follows from the contract of the log, what a round of the task queue does, and what is left
  when the manager is gone.
\<close>

section \<open>At most once\<close>

lemma log_rev_once:
  assumes step: "\<And>l x. allowed l x \<Longrightarrow> P x \<Longrightarrow> \<not> list_ex P l"
  shows "log_rev_ok l \<Longrightarrow> length (filter P l) \<le> 1"
proof (induction l)
  case (Cons x l)
  show ?case
  proof (cases "P x")
    case True
    then have "\<not> list_ex P (rev l)" using step [of "rev l" x] Cons.prems by simp
    then have "filter P l = []" by (auto simp: list_ex_iff filter_empty_conv)
    then show ?thesis using True by simp
  qed (use Cons in simp)
qed simp

lemma log_once:
  assumes "\<And>l x. allowed l x \<Longrightarrow> P x \<Longrightarrow> \<not> list_ex P l" "log_ok l"
  shows "length (filter P l) \<le> 1"
  using log_rev_once [of P "rev l", OF assms(1)] assms(2)
  by (simp add: log_ok_def flip: rev_filter)

lemma detached_once: "log_ok l \<Longrightarrow> length (filter (is_detached i) l) \<le> 1"
  and deleted_once: "log_ok l \<Longrightarrow> length (filter (is_deleted i) l) \<le> 1"
  and created_once: "log_ok l \<Longrightarrow> length (filter (is_created k) l) \<le> 1"
  and destroyed_once: "log_ok l \<Longrightarrow> length (filter (is_destroyed k) l) \<le> 1"
  and answered_once: "log_ok l \<Longrightarrow> length (filter (is_answer p) l) \<le> 1"
proof -
  have s: "allowed l x \<Longrightarrow> is_detached i x \<Longrightarrow> \<not> list_ex (is_detached i) l"
    "allowed l x \<Longrightarrow> is_deleted i x \<Longrightarrow> \<not> list_ex (is_deleted i) l"
    "allowed l x \<Longrightarrow> is_created k x \<Longrightarrow> \<not> list_ex (is_created k) l"
    "allowed l x \<Longrightarrow> is_destroyed k x \<Longrightarrow> \<not> list_ex (is_destroyed k) l"
    "allowed l x \<Longrightarrow> is_answer p x \<Longrightarrow> \<not> list_ex (is_answer p) l" for l x
    by (cases x; simp)+
  show "log_ok l \<Longrightarrow> length (filter (is_detached i) l) \<le> 1" by (rule log_once [OF s(1)])
  show "log_ok l \<Longrightarrow> length (filter (is_deleted i) l) \<le> 1" by (rule log_once [OF s(2)])
  show "log_ok l \<Longrightarrow> length (filter (is_created k) l) \<le> 1" by (rule log_once [OF s(3)])
  show "log_ok l \<Longrightarrow> length (filter (is_destroyed k) l) \<le> 1" by (rule log_once [OF s(4)])
  show "log_ok l \<Longrightarrow> length (filter (is_answer p) l) \<le> 1" by (rule log_once [OF s(5)])
qed

lemma exactly_once: "list_ex P l \<Longrightarrow> length (filter P l) \<le> 1 \<Longrightarrow> length (filter P l) = 1"
  by (cases "filter P l") (auto simp: list_ex_iff filter_empty_conv)

section \<open>A round of the task queue\<close>

fun is_task :: "entry \<Rightarrow> bool" where
  "is_task (NTask mode i x) \<longleftrightarrow> True"
| "is_task _ \<longleftrightarrow> False"

fun task_entries :: "task_mode \<Rightarrow> (nat \<times> task) list \<Rightarrow> entry list" where
  "task_entries mode [] = []"
| "task_entries mode ((i, t) # ts) = (case t of TUser x ps \<Rightarrow> [NTask mode i x] | _ \<Rightarrow> []) @ task_entries mode ts"

definition attached :: "nat \<Rightarrow> mgr \<Rightarrow> bool" where
  "attached i m = (case the_inst i m of None \<Rightarrow> False | Some li \<Rightarrow> \<not> li_detached li)"

text \<open>What the tasks of a round post for the next one.\<close>

fun next_round :: "mgr \<Rightarrow> (nat \<times> task) list \<Rightarrow> (nat \<times> task) list" where
  "next_round m [] = []"
| "next_round m ((i, t) # ts) =
     (case t of TUser x ps \<Rightarrow> if attached i m then ps else [] | _ \<Rightarrow> []) @ next_round m ts"

text \<open>No instance is detached or attached while it stays.\<close>

definition steady :: "mgr \<Rightarrow> mgr \<Rightarrow> bool" where
  "steady m m' \<longleftrightarrow> (\<forall>i li'. the_inst i m' = Some li' \<longrightarrow> (\<exists>li. the_inst i m = Some li \<and> li_detached li = li_detached li'))"

lemma steady_refl: "steady m m"
  by (simp add: steady_def)

lemma steady_trans: "steady m m' \<Longrightarrow> steady m' m'' \<Longrightarrow> steady m m''"
  unfolding steady_def by metis

lemma steady_attached: "steady m m' \<Longrightarrow> the_inst i m' \<noteq> None \<Longrightarrow> attached i m' = attached i m"
  unfolding steady_def attached_def by fastforce

lemma next_round_cong:
  "(\<And>i. i \<in> set (map fst ts) \<Longrightarrow> attached i m' = attached i m) \<Longrightarrow> next_round m' ts = next_round m ts"
  by (induction ts) (auto split: task.splits)

lemma next_round_detached: "(\<And>i. \<not> attached i m) \<Longrightarrow> next_round m ts = []"
  by (induction ts) (auto split: task.splits)

lemma addTask_steady:
  "addTask i t m = Some m' \<Longrightarrow> steady m m' \<and> m_tasks m' = m_tasks m @ [(i, t)] \<and> m_log m' = m_log m \<and>
     m_perms m' = m_perms m \<and> (\<exists>li. the_inst i m = Some li) \<and> (the_inst j m \<noteq> None \<longrightarrow> the_inst j m' \<noteq> None)"
  by (auto simp: addTask_def addRef_def steady_def bind_eq_Some_conv split: option.splits if_splits)

lemma post_all_steady:
  "post_all ps m = Some m' \<Longrightarrow> list_all (\<lambda>q. fst q = i) ps \<Longrightarrow>
   steady m m' \<and> m_tasks m' = m_tasks m @ (if attached i m then ps else []) \<and> m_log m' = m_log m \<and> m_perms m' = m_perms m"
proof (induction ps arbitrary: m)
  case Nil
  then show ?case by (simp add: steady_refl)
next
  case (Cons p ps)
  obtain u where p: "p = (i, u)" using Cons.prems(2) by (cases p) auto
  obtain b m1 where m1: "FeaturePost i u m = Some (b, m1)" "post_all ps m1 = Some m'"
    using Cons.prems(1) p by (auto simp: bind_eq_Some_conv)
  have r: "steady m1 m'" "m_tasks m' = m_tasks m1 @ (if attached i m1 then ps else [])" "m_log m' = m_log m1" "m_perms m' = m_perms m1"
    using Cons.IH [OF m1(2)] Cons.prems(2) by simp_all
  obtain li where li: "the_inst i m = Some li" using m1(1) by (auto simp: FeaturePost_def split: option.splits)
  show ?case
  proof (cases "li_detached li")
    case True
    then show ?thesis using m1(1) r li by (auto simp: FeaturePost_def attached_def)
  next
    case False
    then have a: "addTask i u m = Some m1" using m1(1) li by (auto simp: FeaturePost_def bind_eq_Some_conv)
    note s = addTask_steady [OF a, of i]
    have "attached i m1 = attached i m" using steady_attached [of m m1 i] s li by simp
    moreover have "attached i m" using False li by (simp add: attached_def)
    ultimately show ?thesis using s r p steady_trans by auto
  qed
qed

lemma release_steady:
  assumes "lc_inv (add_mset i H) m" "release i m = Some m'"
  shows "steady m m'" "filter is_task (m_log m') = filter is_task (m_log m)" "m_next m' = m_next m"
    "okeys (m_perms m') \<subseteq> okeys (m_perms m)"
proof -
  obtain m1 where m1: "release i m = Some m1" "quiet m m1" "\<forall>j. j \<noteq> i \<longrightarrow> the_inst j m1 = the_inst j m"
    "the_inst i m1 = None \<or> (\<exists>li. the_inst i m = Some li \<and> the_inst i m1 = Some (li\<lparr>li_rc := li_rc li - 1\<rparr>))"
    using release_ok [OF assms(1)] by blast
  have e: "m1 = m'" using m1(1) assms(2) by simp
  have "\<exists>l. the_inst x m = Some l \<and> li_detached l = li_detached li'" if "the_inst x m1 = Some li'" for x li'
    using that m1(3,4) by (cases "x = i") auto
  then show "steady m m'" using e by (simp add: steady_def)
  show "m_next m' = m_next m" using m1(2) e by (simp add: quiet_def)
  show "filter is_task (m_log m') = filter is_task (m_log m)"
    using assms(2) by (auto simp: release_def instance_onDetached_def remove_instance_permissions_def bind_eq_Some_conv
      split: option.splits if_splits)
  show "okeys (m_perms m') \<subseteq> okeys (m_perms m)"
    using assms(2) by (auto simp: release_def instance_onDetached_def remove_instance_permissions_def bind_eq_Some_conv
      okeys_def split: option.splits if_splits)
qed


lemma run_task_steady:
  assumes "run_task mode i t m = Some m'" "task_ok i t"
  shows "steady m m'"
    "m_tasks m' = m_tasks m @ next_round m [(i, t)]"
    "filter is_task (m_log m') = filter is_task (m_log m) @ task_entries mode [(i, t)]"
    "okeys (m_perms m') \<subseteq> okeys (m_perms m)"
    "t = TGrant p \<Longrightarrow> mode = FEATURE_TASK_MODE_NORMAL \<Longrightarrow> attached i m \<Longrightarrow> omap_ok (m_perms m) \<Longrightarrow> p \<notin> okeys (m_perms m')"
proof -
  have "steady m m' \<and> m_tasks m' = m_tasks m @ next_round m [(i, t)] \<and>
    filter is_task (m_log m') = filter is_task (m_log m) @ task_entries mode [(i, t)] \<and> okeys (m_perms m') \<subseteq> okeys (m_perms m)"
  proof (cases t)
    case (TUser x ps)
    let ?m1 = "tell (NTask mode i x) m"
    have s1: "steady m ?m1" by (simp add: steady_def)
    have at: "attached i ?m1 = attached i m" by (simp add: attached_def)
    have ps: "list_all (\<lambda>q. fst q = i) ps" using assms(2) TUser by (auto simp: task_ok_def list_all_iff)
    have "post_all ps ?m1 = Some m'" using assms(1) TUser by simp
    note post_all_steady [OF this ps]
    then show ?thesis using steady_trans [OF s1] TUser at by simp
  qed (use assms in \<open>auto simp: steady_def split: option.splits if_splits\<close>)
  then show "steady m m'"
    "m_tasks m' = m_tasks m @ next_round m [(i, t)]"
    "filter is_task (m_log m') = filter is_task (m_log m) @ task_entries mode [(i, t)]"
    "okeys (m_perms m') \<subseteq> okeys (m_perms m)" by blast+
  show "p \<notin> okeys (m_perms m')"
    if t: "t = TGrant p" "mode = FEATURE_TASK_MODE_NORMAL" "attached i m" "omap_ok (m_perms m)"
    using assms(1) t by (auto simp: attached_def split: option.splits if_splits)
qed

lemma run_tasks_steady:
  "lc_inv (mset (map fst ts) + H) m \<Longrightarrow> queue_ok (ts @ m_tasks m) m \<Longrightarrow> run_tasks mode ts m = Some m' \<Longrightarrow>
   steady m m' \<and> m_tasks m' = m_tasks m @ next_round m ts \<and>
   filter is_task (m_log m') = filter is_task (m_log m) @ task_entries mode ts \<and> okeys (m_perms m') \<subseteq> okeys (m_perms m)"
proof (induction ts arbitrary: m)
  case Nil
  then show ?case by (simp add: steady_refl)
next
  case (Cons x ts)
  obtain i t where x: "x = (i, t)" by (cases x)
  have inv: "lc_inv (add_mset i (mset (map fst ts) + H)) m" using Cons.prems(1) x by simp
  obtain li where i: "the_inst i m = Some li" using held_live [OF lc_invD(2) [OF inv]] by auto
  have q: "queue_ok ((i, t) # ts @ m_tasks m) m" using Cons.prems(2) x by simp
  have ok: "task_ok i t" using q by (auto simp: queue_ok_def)
  obtain m1 where m1: "run_task mode i t m = Some m1" "lc_inv (add_mset i (mset (map fst ts) + H)) m1" "same_shape m m1"
    "queue_ok (ts @ m_tasks m1) m1"
    using run_task_ok [OF inv i q] by blast
  obtain m2 where m2: "release i m1 = Some m2" "lc_inv (mset (map fst ts) + H) m2"
    using release_ok [OF m1(2)] by blast
  have q2: "queue_ok (ts @ m_tasks m2) m2"
    using queue_calm [OF m1(4) release_calm [OF m2(1) lc_perms [OF m1(2)]]] release_tasks [OF m2(1)] by simp
  have r2: "run_tasks mode ts m2 = Some m'" using Cons.prems(3) x m1(1) m2(1) by simp
  note IH = Cons.IH [OF m2(2) q2 r2]
  note s1 = run_task_steady [OF m1(1) ok] and s2 = release_steady [OF m1(2) m2(1)]
  have st: "steady m m2" by (rule steady_trans [OF s1(1) s2(1)])
  have "attached j m2 = attached j m" if j: "j \<in> set (map fst ts)" for j
  proof -
    have "the_inst j m2 \<noteq> None"
      using held_live [OF lc_invD(2) [OF m2(2)], of j] j by auto
    then show ?thesis by (rule steady_attached [OF st])
  qed
  then have nr: "next_round m2 ts = next_round m ts" by (rule next_round_cong)
  show ?case using IH s1(2-4) s2(2,4) nr steady_trans [OF st] release_tasks [OF m2(1)] x by (auto split: task.splits)
qed

lemma good_round:
  assumes g: "good H m" and r: "runAllTasks mode m = Some m'"
  shows "steady m m'" "m_tasks m' = next_round m (m_tasks m)"
    "filter is_task (m_log m') = filter is_task (m_log m) @ task_entries mode (m_tasks m)"
proof -
  let ?m = "m\<lparr>m_tasks := []\<rparr>"
  have i: "lc_inv (mset (map fst (m_tasks m)) + H) ?m" by (rule take_tasks_ok [OF goodD(1) [OF g]])
  have q: "queue_ok (m_tasks m @ m_tasks ?m) ?m" using goodD(2) [OF g] by (simp add: queue_ok_def)
  have n: "next_round ?m ts = next_round m ts" for ts by (rule next_round_cong) (simp add: attached_def)
  have s: "steady m ?m" by (simp add: steady_def)
  note a = run_tasks_steady [OF i q r [unfolded runAllTasks_def]]
  show "steady m m'" using a steady_trans [OF s] by blast
  show "m_tasks m' = next_round m (m_tasks m)"
    "filter is_task (m_log m') = filter is_task (m_log m) @ task_entries mode (m_tasks m)" using a n by simp_all
qed

section \<open>The end\<close>

definition empty_manager :: "mgr \<Rightarrow> bool" where
  "empty_manager m \<longleftrightarrow> m_insts m = [] \<and> m_protos m = [] \<and> m_tasks m = [] \<and> m_perms m = [] \<and> log_ok (m_log m) \<and>
     (\<forall>i<m_next m. list_ex (is_detached i) (m_log m) \<and> list_ex (is_deleted i) (m_log m)) \<and>
     (\<forall>k. is_module k \<longrightarrow> list_ex (is_created k) (m_log m) \<longrightarrow> list_ex (is_destroyed k) (m_log m))"

lemma empty_once:
  assumes "empty_manager m"
  shows "i < m_next m \<Longrightarrow> length (filter (is_detached i) (m_log m)) = 1 \<and> length (filter (is_deleted i) (m_log m)) = 1"
    "is_module k \<Longrightarrow> list_ex (is_created k) (m_log m) \<Longrightarrow>
     length (filter (is_created k) (m_log m)) = 1 \<and> length (filter (is_destroyed k) (m_log m)) = 1"
proof -
  have l: "log_ok (m_log m)" using assms by (simp add: empty_manager_def)
  show "length (filter (is_detached i) (m_log m)) = 1 \<and> length (filter (is_deleted i) (m_log m)) = 1" if "i < m_next m"
    using assms that exactly_once [OF _ detached_once [OF l]] exactly_once [OF _ deleted_once [OF l]]
    by (simp add: empty_manager_def)
  show "length (filter (is_created k) (m_log m)) = 1 \<and> length (filter (is_destroyed k) (m_log m)) = 1"
    if "is_module k" "list_ex (is_created k) (m_log m)"
    using assms that exactly_once [OF _ created_once [OF l]] exactly_once [OF _ destroyed_once [OF l]]
    by (simp add: empty_manager_def)
qed

lemma map_of_empty: "(\<And>k. map_of xs k = None) \<Longrightarrow> xs = []"
  by (cases xs) (metis fst_conv list.set_intros(1) map_of_eq_None_iff image_eqI surj_pair)+

lemma delete_manager_ok:
  assumes g: "good {#} m" and c: "\<not> m_ctx m"
  shows "\<exists>m'. delete_manager m = Some m' \<and> empty_manager m' \<and> m_next m' = m_next m"
proof -
  have mc: "m\<lparr>m_ctx := False\<rparr> = m" using c by (cases m) simp
  obtain m' where m': "runAllTasks FEATURE_TASK_MODE_FREE m = Some m'" "lc_inv {#} m'" "same_shape m m'"
    using runAllTasks_ok [OF goodD(1) [OF g] goodD(2) [OF g]] by blast
  note h = lc_invD [OF m'(2)]
  have np: "the_proto k m = None" for k using goodD(3) [OF g] c by (simp add: whole_def)
  have "\<not> attached i m" for i
    using shape_live [OF lc_invD(1) [OF goodD(1) [OF g]], of i] np by (auto simp: attached_def split: option.splits)
  then have t: "m_tasks m' = []" using good_round(2) [OF g m'(1)] next_round_detached by simp
  have w: "whole m'" by (rule same_shape_whole [OF m'(3) goodD(3) [OF g]])
  have c': "\<not> m_ctx m'" using m'(3) c by (simp add: same_shape_def)
  have p: "the_proto k m' = None" for k using w c' by (simp add: whole_def)
  have pe: "m_protos m' = []" by (rule map_of_empty) (use p in \<open>simp add: the_proto_def\<close>)
  have i: "the_inst i m' = None" for i
  proof (cases "the_inst i m'")
    case (Some li)
    then show ?thesis using rc_live [OF h(2) Some] t pe by (auto simp: all_refs_def ovals_def mset_over_def)
  qed
  have "m_insts m' = []" by (rule map_of_empty) (use i in \<open>simp add: the_inst_def\<close>)
  moreover have "m_perms m' = []"
  proof (rule map_of_empty)
    show "map_of (m_perms m') q = None" for q using perm_live [OF h(5), of q] i by (cases "map_of (m_perms m') q") auto
  qed
  moreover have "\<forall>i<m_next m'. list_ex (is_detached i) (m_log m') \<and> list_ex (is_deleted i) (m_log m')" "log_ok (m_log m')"
    using h(6) i by (simp_all add: log_right_def)
  moreover have "\<forall>k. is_module k \<longrightarrow> list_ex (is_created k) (m_log m') \<longrightarrow> list_ex (is_destroyed k) (m_log m')"
    using h(6) p by (simp add: log_right_def)
  ultimately have "empty_manager m'" using pe t by (simp add: empty_manager_def)
  moreover have "m_next m' = m_next m" using m'(3) by (simp add: same_shape_def)
  moreover have "delete_manager m = Some m'" using m'(1) mc by (simp add: delete_manager_def)
  ultimately show ?thesis by blast
qed

section \<open>Two answers\<close>

lemma grant_twice:
  assumes g: "good H m" and t: "m_tasks m = []" and p: "map_of (m_perms m) p = Some pm"
  shows "\<exists>m1 m2. FeatureGrantPermissions p m = Some m1 \<and> FeatureGrantPermissions p m1 = Some m2 \<and>
    runAllTasks FEATURE_TASK_MODE_NORMAL m2 = None"
proof -
  let ?i = "pm_inst pm"
  obtain li where i: "the_inst ?i m = Some li" "\<not> li_detached li" using perm_live [OF lc_invD(5) [OF goodD(1) [OF g]] p] by blast
  have rc: "0 < li_rc li" using rc_live [OF lc_invD(2) [OF goodD(1) [OF g]] i(1)] by blast
  let ?li = "li\<lparr>li_rc := li_rc li + 2\<rparr>"
  obtain m1 where m1: "FeatureGrantPermissions p m = Some m1" "m_tasks m1 = [(?i, TGrant p)]"
    "the_inst ?i m1 = Some (li\<lparr>li_rc := li_rc li + 1\<rparr>)" "m_perms m1 = m_perms m"
    using i(1) p t by (simp add: FeatureGrantPermissions_def addTask_def addRef_def)
  obtain m2 where m2: "FeatureGrantPermissions p m1 = Some m2" "m_tasks m2 = [(?i, TGrant p), (?i, TGrant p)]"
    "the_inst ?i m2 = Some ?li" "m_perms m2 = m_perms m"
    using m1 p by (simp add: FeatureGrantPermissions_def addTask_def addRef_def)
  let ?m3 = "(tell (NGranted p ?i) (m2\<lparr>m_tasks := []\<rparr>))\<lparr>m_perms := omap_del p (m_perms m2)\<rparr>"
  let ?m4 = "put_inst ?i (li\<lparr>li_rc := 1 + li_rc li\<rparr>) ?m3"
  have "run_task FEATURE_TASK_MODE_NORMAL ?i (TGrant p) (m2\<lparr>m_tasks := []\<rparr>) = Some ?m3" using m2 i p by simp
  moreover have "release ?i ?m3 = Some ?m4" using m2(3) rc by (simp add: release_def)
  moreover have "omap_ok (m_perms m)" using lc_perms [OF goodD(1) [OF g]] .
  then have "run_task FEATURE_TASK_MODE_NORMAL ?i (TGrant p) ?m4 = None" using m2(4) i by simp
  ultimately have "runAllTasks FEATURE_TASK_MODE_NORMAL m2 = None"
    unfolding runAllTasks_def m2(2) by (simp del: run_task.simps)
  then show ?thesis using m1(1) m2(1) by blast
qed

section \<open>Names\<close>

lemma split_last_dot_spec:
  "split_last_dot s = Some (f, x) \<longleftrightarrow> s = f @ CHR ''.'' # x \<and> CHR ''.'' \<notin> set x"
proof -
  let ?P = "\<lambda>c. c \<noteq> CHR ''.''"
  have app: "takeWhile ?P (rev s) @ dropWhile ?P (rev s) = rev s" by simp
  show ?thesis
  proof
    assume a: "split_last_dot s = Some (f, x)"
    then obtain c r where d: "dropWhile ?P (rev s) = c # r" "f = rev r" "x = rev (takeWhile ?P (rev s))"
      by (auto simp: split_last_dot_def Let_def split: list.splits)
    have "c = CHR ''.''" using hd_dropWhile [of ?P "rev s"] d(1) by auto
    then have "rev s = rev x @ CHR ''.'' # rev f" using app d by simp
    then have "s = f @ CHR ''.'' # x" by (metis append_assoc append_Cons append_Nil rev.simps(2) rev_append rev_rev_ident)
    moreover have "CHR ''.'' \<notin> set x" using d(3) by (auto dest: set_takeWhileD)
    ultimately show "s = f @ CHR ''.'' # x \<and> CHR ''.'' \<notin> set x" by blast
  next
    assume a: "s = f @ CHR ''.'' # x \<and> CHR ''.'' \<notin> set x"
    then have "takeWhile ?P (rev s) = rev x" "dropWhile ?P (rev s) = CHR ''.'' # rev f"
      by (auto simp: takeWhile_append dropWhile_append)
    then show "split_last_dot s = Some (f, x)" by (simp add: split_last_dot_def Let_def)
  qed
qed

end
