(* ===== verification/LifeProps.thy ===== *)
theory LifeProps
  imports LifecycleFacts
begin

text \<open>The properties of the life cycle of features, with their witnesses.\<close>

section \<open>A run to evaluate\<close>

definition demo_desc :: desc where
  "demo_desc = \<lparr>d_name = ''a'', d_members = [''go''], cb_register = True, cb_unregister = True, cb_create = True,
     cb_destroy = True, cb_required = True, cb_detached = True\<rparr>"

definition demo_interface :: desc where
  "demo_interface = demo_desc\<lparr>d_name := ''i'', d_members := []\<rparr>"

text \<open>
  A module is registered and required twice, its instances post tasks, ask for a permission and
  hand an interface to the script; one of them is collected.
\<close>

definition demo_ops :: "mop list" where
  "demo_ops = [ORegister demo_desc, ORequire ''a'', OCreate (Some [''a'']), ODup 0, OPost 0 (TUser 7 [(0, TUser 8 [])]),
     ORequest 0 ''x'', ORun, OGrant 0, OInterface 0 True, OToTarget 2 demo_interface, OGC 1]"

definition demo_mgr :: mgr where
  "demo_mgr = snd (the (mrun demo_ops ([], new_manager True)))"

lemma cgoodD: "cgood (H, m) \<Longrightarrow> good (mset H) m"
  by (simp add: cgood_def)

lemma run_good:
  assumes "mlegal xs ([], new_manager cb)" "mrun xs ([], new_manager cb) = Some (H, m)"
  shows "good (mset H) m"
  using client_run [OF new_good_manager assms(1)] assms(2) cgoodD by auto

lemma lifecycle_run: "mlegal xs c \<Longrightarrow> cgood c \<Longrightarrow> \<exists>H m. mrun xs c = Some (H, m)"
  using client_run [of c xs] by auto

section \<open>Properties\<close>

text \<open>C1: However scripts, the collector, the event loop and a client that frees only references it
  holds and answers each permission request once interleave, no operation of the manager fails, and
  the native side is told things in order: a module is created once, before the required callback of
  its instances, an instance is required, detached and deleted at most once and in this order, a module is
  destroyed after its instances are detached and before the registry unregisters it, tasks run only for instances
  that exist, and a permission request is answered at most once and never after the detachment.\<close>

theorem lifecycle_contract:
  assumes "mlegal xs ([], new_manager cb)"
  shows "\<exists>H m. mrun xs ([], new_manager cb) = Some (H, m) \<and> log_ok (m_log m)"
proof -
  obtain c where c: "mrun xs ([], new_manager cb) = Some c" "cgood c" using client_run [OF new_good_manager assms] by blast
  obtain H m where "c = (H, m)" by (cases c)
  then show ?thesis using c lc_invD(6) [OF goodD(1) [OF cgoodD]] by (auto simp: log_right_def)
qed

lemma demo_legal: "mlegal demo_ops ([], new_manager True)"
  by code_simp

theorem lifecycle_contract_witness:
  "\<exists>H m. mrun demo_ops ([], new_manager True) = Some (H, m) \<and> log_ok (m_log m)"
  by (rule lifecycle_contract [OF demo_legal])

lemma demo_run: "mrun demo_ops ([], new_manager True) = Some ([0], demo_mgr)"
proof -
  obtain H m where r: "mrun demo_ops ([], new_manager True) = Some (H, m)"
    using lifecycle_run [OF demo_legal new_good_manager] by blast
  have "map_option fst (mrun demo_ops ([], new_manager True)) = Some [0]" by code_simp
  then show ?thesis using r by (simp add: demo_mgr_def)
qed

text \<open>C23: At every moment the reference count of a feature instance is the number of references there are to it,
  from the slots of prototypes, from queued tasks and from the client, and it is positive.\<close>

theorem reference_counts_exact:
  assumes "mlegal xs ([], new_manager cb)" "mrun xs ([], new_manager cb) = Some (H, m)" "the_inst i m = Some li"
  shows "li_rc li = int (count (all_refs (mset H) m) i) \<and> 0 < li_rc li"
  by (rule rc_live [OF lc_invD(2) [OF goodD(1) [OF run_good [OF assms(1,2)]]] assms(3)])

theorem reference_counts_exact_witness:
  "\<exists>li. the_inst 0 demo_mgr = Some li \<and> li_rc li = 4 \<and> li_rc li = int (count (all_refs (mset [0]) demo_mgr) 0)"
proof -
  have "map_option li_rc (the_inst 0 demo_mgr) = Some 4" by code_simp
  then obtain li where li: "the_inst 0 demo_mgr = Some li" "li_rc li = 4" by auto
  show ?thesis using reference_counts_exact [OF demo_legal demo_run li(1)] li by simp
qed

text \<open>C16: Once the runtime is uninitialised and the client has given its references back, deleting the manager
  leaves nothing: no instance, prototype, task or permission request, and every instance there ever was has been
  detached and deleted exactly once, every module that was created has been destroyed exactly once.\<close>

theorem teardown_is_complete:
  assumes "mlegal xs ([], new_manager cb)" "mrun xs ([], new_manager cb) = Some ([], m)" "\<not> m_ctx m"
  shows "\<exists>m'. delete_manager m = Some m' \<and> m_insts m' = [] \<and> m_protos m' = [] \<and> m_tasks m' = [] \<and> m_perms m' = [] \<and>
    (\<forall>i. i < m_next m \<longrightarrow> length (filter (is_detached i) (m_log m')) = 1 \<and> length (filter (is_deleted i) (m_log m')) = 1) \<and>
    (\<forall>k. is_module k \<longrightarrow> list_ex (is_created k) (m_log m') \<longrightarrow>
       length (filter (is_created k) (m_log m')) = 1 \<and> length (filter (is_destroyed k) (m_log m')) = 1)"
proof -
  have g: "good {#} m" using run_good [OF assms(1,2)] by simp
  obtain m' where d: "delete_manager m = Some m'" and e: "empty_manager m'" "m_next m' = m_next m"
    using delete_manager_ok [OF g assms(3)] by blast
  note em = e(1) [unfolded empty_manager_def] and once = empty_once [OF e(1)]
  show ?thesis using d em once [unfolded e(2)] by blast
qed

definition demo_end :: "mop list" where
  "demo_end = demo_ops @ [OFree 0, OUninit]"

definition demo_down :: mgr where
  "demo_down = snd (the (mrun demo_end ([], new_manager True)))"

lemma demo_end_legal: "mlegal demo_end ([], new_manager True)"
  by code_simp

lemma demo_end_run: "mrun demo_end ([], new_manager True) = Some ([], demo_down)"
proof -
  obtain H m where r: "mrun demo_end ([], new_manager True) = Some (H, m)"
    using lifecycle_run [OF demo_end_legal new_good_manager] by blast
  have "map_option fst (mrun demo_end ([], new_manager True)) = Some []" by code_simp
  then show ?thesis using r by (simp add: demo_down_def)
qed

lemma demo_down_facts: "\<not> m_ctx demo_down" "m_next demo_down = 3" "m_tasks demo_down = [(0, TUser 8 []), (0, TGrant 0)]"
  by code_simp+

theorem teardown_is_complete_witness:
  "\<exists>m'. delete_manager demo_down = Some m' \<and> m_insts m' = [] \<and> length (filter (is_detached 2) (m_log m')) = 1"
  using teardown_is_complete [OF demo_end_legal demo_end_run demo_down_facts(1)] demo_down_facts(2) by auto

text \<open>A round of the task queue runs exactly the tasks that were queued, in the order of their posting; what
  they post for instances still attached waits for the next round, in order too.\<close>

theorem tasks_run_in_order:
  assumes "mlegal xs ([], new_manager cb)" "mrun xs ([], new_manager cb) = Some (H, m)"
  shows "\<exists>m'. runAllTasks mode m = Some m' \<and>
    filter is_task (m_log m') = filter is_task (m_log m) @ task_entries mode (m_tasks m) \<and>
    m_tasks m' = next_round m (m_tasks m)"
proof -
  note g = run_good [OF assms]
  obtain m' where r: "runAllTasks mode m = Some m'" using runAllTasks_ok [OF goodD(1) [OF g] goodD(2) [OF g]] by blast
  show ?thesis using r good_round [OF g r] by blast
qed

definition demo_queue :: "mop list" where
  "demo_queue = [ORegister demo_desc, ORequire ''a'', OPost 0 (TUser 7 [(0, TUser 8 [])]), OPost 0 (TUser 9 [])]"

lemma demo_queue_legal: "mlegal demo_queue ([], new_manager True)"
  by code_simp

definition queue_mgr :: mgr where
  "queue_mgr = snd (the (mrun demo_queue ([], new_manager True)))"

lemma demo_queue_run: "mrun demo_queue ([], new_manager True) = Some ([], queue_mgr)"
proof -
  obtain H m where r: "mrun demo_queue ([], new_manager True) = Some (H, m)"
    using lifecycle_run [OF demo_queue_legal new_good_manager] by blast
  have "map_option fst (mrun demo_queue ([], new_manager True)) = Some []" by code_simp
  then show ?thesis using r by (simp add: queue_mgr_def)
qed

theorem tasks_run_in_order_witness:
  "\<exists>m'. runAllTasks FEATURE_TASK_MODE_NORMAL queue_mgr = Some m' \<and> m_tasks m' = [(0, TUser 8 [])] \<and>
     filter is_task (m_log m') = [NTask FEATURE_TASK_MODE_NORMAL 0 7, NTask FEATURE_TASK_MODE_NORMAL 0 9]"
proof -
  have f: "next_round queue_mgr (m_tasks queue_mgr) = [(0, TUser 8 [])]"
    "filter is_task (m_log queue_mgr) @ task_entries FEATURE_TASK_MODE_NORMAL (m_tasks queue_mgr) =
      [NTask FEATURE_TASK_MODE_NORMAL 0 7, NTask FEATURE_TASK_MODE_NORMAL 0 9]"
    by code_simp+
  show ?thesis using tasks_run_in_order [OF demo_queue_legal demo_queue_run, of FEATURE_TASK_MODE_NORMAL]
    by (simp only: f) blast
qed

text \<open>Granting a permission request twice before the queue runs, for an instance that is attached,
  ends in the use of the deleted request.\<close>

theorem second_grant_is_fatal:
  assumes "mlegal xs ([], new_manager cb)" "mrun xs ([], new_manager cb) = Some (H, m)"
    "m_tasks m = []" "p \<in> okeys (m_perms m)"
  shows "\<exists>m1 m2. FeatureGrantPermissions p m = Some m1 \<and> FeatureGrantPermissions p m1 = Some m2 \<and>
    runAllTasks FEATURE_TASK_MODE_NORMAL m2 = None"
proof -
  obtain pm where "map_of (m_perms m) p = Some pm" using assms(4) by (metis map_of_None_okeys not_None_eq)
  then show ?thesis using grant_twice [OF run_good [OF assms(1,2)] assms(3)] by blast
qed

definition demo_asked :: "mop list" where
  "demo_asked = [ORegister demo_desc, ORequire ''a'', ORequest 0 ''x'', ORun]"

definition asked_mgr :: mgr where
  "asked_mgr = snd (the (mrun demo_asked ([], new_manager True)))"

lemma demo_asked_legal: "mlegal demo_asked ([], new_manager True)"
  by code_simp

lemma demo_asked_run: "mrun demo_asked ([], new_manager True) = Some ([], asked_mgr)"
proof -
  obtain H m where r: "mrun demo_asked ([], new_manager True) = Some (H, m)"
    using lifecycle_run [OF demo_asked_legal new_good_manager] by blast
  have "map_option fst (mrun demo_asked ([], new_manager True)) = Some []" by code_simp
  then show ?thesis using r by (simp add: asked_mgr_def)
qed

theorem second_grant_is_fatal_witness:
  "\<exists>m1 m2. FeatureGrantPermissions 0 asked_mgr = Some m1 \<and> FeatureGrantPermissions 0 m1 = Some m2 \<and>
     runAllTasks FEATURE_TASK_MODE_NORMAL m2 = None"
proof -
  have f: "m_tasks asked_mgr = []" "0 \<in> okeys (m_perms asked_mgr)" by code_simp+
  show ?thesis by (rule second_grant_is_fatal [OF demo_asked_legal demo_asked_run f])
qed

text \<open>A second uninitialisation deletes the registry a second time.\<close>

theorem second_uninit_aborts:
  assumes "mlegal xs ([], new_manager cb)" "mrun xs ([], new_manager cb) = Some (H, m)" "m_ctx m"
  shows "\<exists>m'. uninit m = Some m' \<and> uninit m' = None"
proof -
  obtain m' where m': "uninit m = Some m'" "good (mset H) m'"
    using uninit_good [OF run_good [OF assms(1,2)] assms(3)] by blast
  have "\<not> m_ctx m'" using m'(1) assms(3) by (auto simp: uninit_def bind_eq_Some_conv)
  then have "\<not> m_registered m'" using goodD(3) [OF m'(2)] by (simp add: whole_def)
  then show ?thesis using m'(1) \<open>\<not> m_ctx m'\<close> by (simp add: uninit_def delete_registry_def)
qed

theorem second_uninit_aborts_witness: "\<exists>m'. uninit demo_mgr = Some m' \<and> uninit m' = None"
proof -
  have "m_ctx demo_mgr" by code_simp
  then show ?thesis by (rule second_uninit_aborts [OF demo_legal demo_run])
qed

text \<open>A name is known as a feature if it is registered, or if it is a registered feature, a dot and
  a member of that feature that has no dot itself.\<close>

theorem hasFeature_spec:
  "hasFeature s m \<longleftrightarrow> (\<exists>d. findFeature s m = Some d) \<or>
     (\<exists>f x d. s = f @ CHR ''.'' # x \<and> CHR ''.'' \<notin> set x \<and> findFeature f m = Some d \<and> x \<in> set (d_members d))"
proof -
  have "hasFeature s m \<longleftrightarrow> (\<exists>d. findFeature s m = Some d) \<or>
      (\<exists>f x d. split_last_dot s = Some (f, x) \<and> findFeature f m = Some d \<and> x \<in> set (d_members d))"
    by (auto simp: hasFeature_def split: option.splits)
  then show ?thesis by (simp only: split_last_dot_spec conj_assoc)
qed

text \<open>A permission request of a live, attached instance is recorded and a task that asks for it is queued,
  whether or not the function is on the black list: for it the caller is told false, but the request is made all the same.\<close>

theorem blacklisted_request_is_posted:
  assumes "the_inst i m = Some li" "\<not> li_detached li" "m_perm_cb m"
  shows "\<exists>m'. FeatureRequestPermissions i api m = Some (\<not> (li_desc li = ''system.device'' \<and> api = ''getDeviceId''), m') \<and>
    m_tasks m' = m_tasks m @ [(i, TRequest (m_pnext m))] \<and> map_of (m_perms m') (m_pnext m) = Some \<lparr>pm_inst = i, pm_reason = FEATURE_PERMS_DENIED\<rparr>"
  using assms by (simp add: FeatureRequestPermissions_def addTask_def addRef_def isBlackListed_def Let_def)

definition device_mgr :: mgr where
  "device_mgr = snd (the (mrun [ORegister (demo_desc\<lparr>d_name := ''system.device''\<rparr>), ORequire ''system.device''] ([], new_manager True)))"

theorem blacklisted_request_is_posted_witness:
  "\<exists>m'. FeatureRequestPermissions 0 ''getDeviceId'' device_mgr = Some (False, m') \<and> m_tasks m' = [(0, TRequest 0)]"
proof -
  have f: "map_option (\<lambda>li. (li_detached li, li_desc li)) (the_inst 0 device_mgr) = Some (False, ''system.device'')"
    "m_perm_cb device_mgr" "m_tasks device_mgr = []" "m_pnext device_mgr = 0"
    by code_simp+
  then obtain li where li: "the_inst 0 device_mgr = Some li" "\<not> li_detached li" "li_desc li = ''system.device''" by auto
  show ?thesis using blacklisted_request_is_posted [OF li(1,2) f(2), of "''getDeviceId''"] li(3) f(3,4) by auto
qed

end
