(* ===== verification/ProtoReflect.thy ===== *)
theory ProtoReflect
  imports ToTarget "HOL-Library.List_Lexorder" "HOL-Library.Char_ord"
begin

text \<open>
  Reflective conversion between protobuf messages and script objects
  (\<open>src/protobuf/proto_reflection.cpp\<close>, \<open>src/protobuf/proto_utils.cpp\<close>). The
  message descriptors are data, as protobuf-c generates them: the fields in the order of their
  declaration and the index of the fields sorted by name. A message is its descriptor, the
  content of its memory by offset, and the selectors of its oneof groups by the offset of the selector. The
  functions of QuickJS and protobuf-c that are called are the fields of a record. A result \<open>None\<close>
  is a crash.
\<close>

section \<open>Descriptors and messages\<close>

datatype ptype =
    PROTOBUF_C_TYPE_INT32 | PROTOBUF_C_TYPE_SINT32 | PROTOBUF_C_TYPE_SFIXED32
  | PROTOBUF_C_TYPE_INT64 | PROTOBUF_C_TYPE_SINT64 | PROTOBUF_C_TYPE_SFIXED64
  | PROTOBUF_C_TYPE_UINT32 | PROTOBUF_C_TYPE_FIXED32
  | PROTOBUF_C_TYPE_UINT64 | PROTOBUF_C_TYPE_FIXED64
  | PROTOBUF_C_TYPE_FLOAT | PROTOBUF_C_TYPE_DOUBLE | PROTOBUF_C_TYPE_BOOL | PROTOBUF_C_TYPE_ENUM
  | PROTOBUF_C_TYPE_STRING | PROTOBUF_C_TYPE_BYTES | PROTOBUF_C_TYPE_MESSAGE

datatype plabel =
  PROTOBUF_C_LABEL_REQUIRED | PROTOBUF_C_LABEL_OPTIONAL | PROTOBUF_C_LABEL_REPEATED | PROTOBUF_C_LABEL_NONE

datatype pfield = PField (pf_name: string) (pf_id: "32 word") (pf_label: plabel) (pf_type: ptype)
    (pf_oneof: bool) (pf_quant: nat) (pf_off: nat) (pf_sub: "pdesc option")
  and pdesc = PDesc (pd_fields: "pfield list") (pd_sorted: "nat list")

datatype pval =
    PInt32 "32 word"
  | PInt64 "64 word"
  | PFloat "32 word"
  | PDouble "64 word"
  | PBool bool
  | PEnum "32 word"
  | PStr "string option"
  | PBytes "8 word list"
  | PMessage "pmsg option"
  | PRep "pval list"
  and pmsg = PMsg (pm_desc: pdesc) (pm_slots: "(nat \<times> pval) list") (pm_cases: "(nat \<times> 32 word) list")

record pengine =
  pe_js :: engine
  pe_NewArrayBuffer :: "8 word list \<Rightarrow> jsval"
  pe_ToInt32 :: "jsval \<Rightarrow> 32 word"
  pe_ToInt64 :: "jsval \<Rightarrow> 64 word"
  pe_ToFloat64 :: "jsval \<Rightarrow> 64 word"
  pe_ToBool :: "jsval \<Rightarrow> bool"
  pe_ToCString :: "jsval \<Rightarrow> string option"
  pe_GetArrayBuffer :: "jsval \<Rightarrow> 8 word list"
  pe_OwnProperties :: "jsval \<Rightarrow> (string \<times> jsval) list option"
  pe_message_check :: "pmsg \<Rightarrow> bool"
  pe_message_init :: "pdesc \<Rightarrow> pmsg"

definition getProtoTypeSize :: "ptype \<Rightarrow> nat \<times> bool" where
  "getProtoTypeSize t =
     (case t of
        PROTOBUF_C_TYPE_INT32 \<Rightarrow> (4, False) | PROTOBUF_C_TYPE_SINT32 \<Rightarrow> (4, False) | PROTOBUF_C_TYPE_SFIXED32 \<Rightarrow> (4, False)
      | PROTOBUF_C_TYPE_INT64 \<Rightarrow> (8, False) | PROTOBUF_C_TYPE_SINT64 \<Rightarrow> (8, False) | PROTOBUF_C_TYPE_SFIXED64 \<Rightarrow> (8, False)
      | PROTOBUF_C_TYPE_UINT32 \<Rightarrow> (4, False) | PROTOBUF_C_TYPE_FIXED32 \<Rightarrow> (4, False)
      | PROTOBUF_C_TYPE_UINT64 \<Rightarrow> (8, False) | PROTOBUF_C_TYPE_FIXED64 \<Rightarrow> (8, False)
      | PROTOBUF_C_TYPE_FLOAT \<Rightarrow> (4, False) | PROTOBUF_C_TYPE_DOUBLE \<Rightarrow> (8, False)
      | PROTOBUF_C_TYPE_BOOL \<Rightarrow> (1, False) | PROTOBUF_C_TYPE_ENUM \<Rightarrow> (4, False)
      | PROTOBUF_C_TYPE_STRING \<Rightarrow> (sizeof_ptr, True) | PROTOBUF_C_TYPE_BYTES \<Rightarrow> (2 * sizeof_ptr, True)
      | PROTOBUF_C_TYPE_MESSAGE \<Rightarrow> (sizeof_ptr, True))"

definition isOneOfSkipped :: "pfield \<Rightarrow> (nat \<times> 32 word) list \<Rightarrow> bool" where
  "isOneOfSkipped f cs \<longleftrightarrow> pf_oneof f \<and> map_of cs (pf_quant f) \<noteq> Some (pf_id f)"

section \<open>Messages to scripts\<close>

definition from_scalar :: "pengine \<Rightarrow> ptype \<Rightarrow> pval \<Rightarrow> jsval option" where
  "from_scalar pe t v =
     (case v of
        PInt32 i \<Rightarrow>
          (if t \<in> {PROTOBUF_C_TYPE_INT32, PROTOBUF_C_TYPE_SINT32, PROTOBUF_C_TYPE_SFIXED32, PROTOBUF_C_TYPE_UINT32,
              PROTOBUF_C_TYPE_FIXED32} then Some (JInt i) else None)
      | PInt64 i \<Rightarrow>
          (if t \<in> {PROTOBUF_C_TYPE_INT64, PROTOBUF_C_TYPE_SINT64, PROTOBUF_C_TYPE_SFIXED64, PROTOBUF_C_TYPE_UINT64,
              PROTOBUF_C_TYPE_FIXED64} then Some (e_NewInt64 (pe_js pe) i) else None)
      | PFloat x \<Rightarrow>
          (if t = PROTOBUF_C_TYPE_FLOAT then Some (e_NewFloat64 (pe_js pe) (e_f64_of_f32 (pe_js pe) x)) else None)
      | PDouble x \<Rightarrow> (if t = PROTOBUF_C_TYPE_DOUBLE then Some (e_NewFloat64 (pe_js pe) x) else None)
      | PBool b \<Rightarrow> (if t = PROTOBUF_C_TYPE_BOOL then Some (JBool b) else None)
      | PEnum i \<Rightarrow> (if t = PROTOBUF_C_TYPE_ENUM then Some (JInt i) else None)
      | PStr so \<Rightarrow> (if t = PROTOBUF_C_TYPE_STRING then map_option (\<lambda>s. JStr (cstr s)) so else None)
      | PBytes bs \<Rightarrow> (if t = PROTOBUF_C_TYPE_BYTES then Some (pe_NewArrayBuffer pe bs) else None)
      | _ \<Rightarrow> None)"

lemma map_of_size [termination_simp]:
  "map_of ss k = Some v \<Longrightarrow> size v < size_list (size_prod (\<lambda>_. 0) size) ss"
  by (induction ss) (auto split: if_splits)

function (sequential)
  fromProtoField :: "pengine \<Rightarrow> pfield \<Rightarrow> pval \<Rightarrow> plabel \<Rightarrow> world \<Rightarrow> (bool \<times> jsval \<times> world) option"
  and from_elems :: "pengine \<Rightarrow> pfield \<Rightarrow> pval list \<Rightarrow> jsval \<Rightarrow> world \<Rightarrow> (bool \<times> jsval \<times> world) option"
  and fromNative :: "pengine \<Rightarrow> pmsg \<Rightarrow> jsval \<Rightarrow> world \<Rightarrow> (bool \<times> jsval \<times> world) option"
  and from_fields :: "pengine \<Rightarrow> pfield list \<Rightarrow> (nat \<times> pval) list \<Rightarrow> (nat \<times> 32 word) list \<Rightarrow> jsval \<Rightarrow> world \<Rightarrow>
        (bool \<times> jsval \<times> world) option"
where
  "fromProtoField pe f v PROTOBUF_C_LABEL_REPEATED w =
     (case v of
        PRep vs \<Rightarrow> (if vs = [] then Some (True, JUndef, w) else from_elems pe f vs (JArr []) (js_new (JArr []) w))
      | _ \<Rightarrow> None)"
| "fromProtoField pe f v lab w =
     (if pf_type f = PROTOBUF_C_TYPE_MESSAGE then
        (if pf_sub f = None then None
         else case v of
           PMessage (Some m) \<Rightarrow> fromNative pe m (JObject []) (js_new (JObject []) w)
         | PMessage None \<Rightarrow> Some (False, JObject [], js_new (JObject []) w)
         | _ \<Rightarrow> None)
      else case from_scalar pe (pf_type f) v of None \<Rightarrow> None | Some j \<Rightarrow> Some (True, j, js_new j w))"
| "from_elems pe f [] t w = Some (True, t, w)"
| "from_elems pe f (v # vs) t w =
     (case fromProtoField pe f v PROTOBUF_C_LABEL_NONE w of
        None \<Rightarrow> None
      | Some (ok, item, w1) \<Rightarrow>
          (if \<not> ok then Some (False, t, feature_free_value item w1)
           else (let (t', w2) = js_push t item w1 in from_elems pe f vs t' w2)))"
| "fromNative pe (PMsg d ss cs) t w =
     (if \<not> pe_message_check pe (PMsg d ss cs) then Some (False, t, w) else from_fields pe (pd_fields d) ss cs t w)"
| "from_fields pe [] ss cs t w = Some (True, t, w)"
| "from_fields pe (f # fs) ss cs t w =
     (if isOneOfSkipped f cs then from_fields pe fs ss cs t w
      else case map_of ss (pf_off f) of
        None \<Rightarrow> None
      | Some v \<Rightarrow>
          (case fromProtoField pe f v (pf_label f) w of
             None \<Rightarrow> None
           | Some (ok, j, w1) \<Rightarrow>
               (if \<not> ok then Some (False, t, w1)
                else (let (t', w2) = js_set_prop t (pf_name f) j w1 in from_fields pe fs ss cs t' w2))))"
  by pat_completeness auto

termination
proof (relation "measures [\<lambda>x. case x of
      Inl (Inl (pe, f, v, lab, w)) \<Rightarrow> size v
    | Inl (Inr (pe, f, vs, t, w)) \<Rightarrow> size_list size vs
    | Inr (Inl (pe, m, t, w)) \<Rightarrow> size m
    | Inr (Inr (pe, fs, ss, cs, t, w)) \<Rightarrow> size_list (size_prod (\<lambda>_. 0) size) ss,
    \<lambda>x. case x of Inr (Inr (pe, fs, ss, cs, t, w)) \<Rightarrow> length fs | _ \<Rightarrow> 0]")
qed (auto simp: map_of_size)

section \<open>Scripts to messages\<close>

datatype 'a pres = POk 'a | PFail | PCrash

text \<open>\<open>strcmp\<close> compares bytes without sign, as the order of strings here does.\<close>

function bsearch :: "string \<Rightarrow> pfield list \<Rightarrow> nat list \<Rightarrow> int \<Rightarrow> int \<Rightarrow> pfield option" where
  "bsearch name fs ix low high =
     (if low \<le> high \<and> nat ((low + high) div 2) < length ix \<and> ix ! nat ((low + high) div 2) < length fs then
        (let mid = (low + high) div 2; f = fs ! (ix ! nat mid)
         in if pf_name f = name then Some f
            else if pf_name f < name then bsearch name fs ix (mid + 1) high
            else bsearch name fs ix low (mid - 1))
      else None)"
  by pat_completeness auto

termination
  by (relation "measure (\<lambda>(name, fs, ix, low, high). nat (high - low + 1))") auto

declare bsearch.simps [simp del]

definition binarySearchField :: "string \<Rightarrow> pdesc \<Rightarrow> pfield option" where
  "binarySearchField name d =
     (if pd_fields d = [] then None
      else bsearch name (pd_fields d) (pd_sorted d) 0 (int (length (pd_fields d)) - 1))"

lemma bsearch_mem: "bsearch name fs ix low high = Some f \<Longrightarrow> f \<in> set fs \<and> pf_name f = name"
proof (induction name fs ix low high rule: bsearch.induct)
  case (1 name fs ix low high)
  show ?case using 1(3) 1(1,2) by (subst (asm) bsearch.simps) (auto simp: Let_def split: if_splits)
qed

lemma binarySearchField_mem: "binarySearchField name d = Some f \<Longrightarrow> f \<in> set (pd_fields d) \<and> pf_name f = name"
  by (auto simp: binarySearchField_def dest: bsearch_mem split: if_splits)

lemma field_size [termination_simp]: "binarySearchField name d = Some f \<Longrightarrow> size f < size d"
  using binarySearchField_mem [of name d f] by (cases d) (auto dest: size_list_estimation' [where f = size, OF _ order.refl])

lemma sub_size [termination_simp]: "pf_sub f = Some d \<Longrightarrow> size d < size f"
  by (cases f) auto

definition own_properties :: "pengine \<Rightarrow> jsval \<Rightarrow> (string \<times> jsval) list option" where
  "own_properties pe v = (case v of JObject ps \<Rightarrow> Some ps | _ \<Rightarrow> pe_OwnProperties pe v)"

text \<open>The content of fresh memory for a repeated item.\<close>

definition zero_pval :: "ptype \<Rightarrow> pval" where
  "zero_pval t = (if t = PROTOBUF_C_TYPE_BYTES then PBytes [] else if t = PROTOBUF_C_TYPE_MESSAGE then PMessage None
     else if t = PROTOBUF_C_TYPE_STRING then PStr None else PInt64 0)"

text \<open>
  An empty buffer leaves the old content of the slot; a oneof slot that holds no bytes yet is fresh memory,
  which reads as no bytes.
\<close>

definition to_scalar :: "pengine \<Rightarrow> ptype \<Rightarrow> pval \<Rightarrow> jsval \<Rightarrow> pval pres" where
  "to_scalar pe t old v =
     (if t \<in> {PROTOBUF_C_TYPE_INT32, PROTOBUF_C_TYPE_SINT32, PROTOBUF_C_TYPE_SFIXED32, PROTOBUF_C_TYPE_UINT32,
              PROTOBUF_C_TYPE_FIXED32} then POk (PInt32 (pe_ToInt32 pe v))
      else if t \<in> {PROTOBUF_C_TYPE_INT64, PROTOBUF_C_TYPE_SINT64, PROTOBUF_C_TYPE_SFIXED64, PROTOBUF_C_TYPE_UINT64,
              PROTOBUF_C_TYPE_FIXED64} then POk (PInt64 (pe_ToInt64 pe v))
      else if t = PROTOBUF_C_TYPE_FLOAT then POk (PFloat (e_f32_of_f64 (pe_js pe) (pe_ToFloat64 pe v)))
      else if t = PROTOBUF_C_TYPE_DOUBLE then POk (PDouble (pe_ToFloat64 pe v))
      else if t = PROTOBUF_C_TYPE_BOOL then POk (PBool (pe_ToBool pe v))
      else if t = PROTOBUF_C_TYPE_ENUM then POk (PEnum (pe_ToInt32 pe v))
      else if t = PROTOBUF_C_TYPE_STRING then
        (case pe_ToCString pe v of None \<Rightarrow> PCrash | Some s \<Rightarrow> POk (PStr (Some (cstr s))))
      else
        (case v of
           JStr s \<Rightarrow> POk (PBytes (map of_char s))
         | _ \<Rightarrow> (let bs = pe_GetArrayBuffer pe v
                  in POk (PBytes (if bs = [] then (case old of PBytes b \<Rightarrow> b | _ \<Rightarrow> []) else bs)))))"

function (sequential)
  toProtoField :: "pengine \<Rightarrow> pfield \<Rightarrow> pval \<Rightarrow> jsval \<Rightarrow> plabel \<Rightarrow> pval pres"
  and to_items :: "pengine \<Rightarrow> pfield \<Rightarrow> jsval list \<Rightarrow> pval list \<Rightarrow> pval pres"
  and toNative :: "pengine \<Rightarrow> pdesc \<Rightarrow> jsval \<Rightarrow> pmsg pres"
  and to_props :: "pengine \<Rightarrow> pdesc \<Rightarrow> (string \<times> jsval) list \<Rightarrow> pmsg \<Rightarrow> pmsg pres"
where
  "toProtoField pe f old v PROTOBUF_C_LABEL_REPEATED =
     (case v of JArr vs \<Rightarrow> to_items pe f vs [] | _ \<Rightarrow> PFail)"
| "toProtoField pe f old v lab =
     (if lab = PROTOBUF_C_LABEL_REQUIRED \<and> v = JException then PFail
      else if pf_type f = PROTOBUF_C_TYPE_MESSAGE then
        (case pf_sub f of
           None \<Rightarrow> PCrash
         | Some d \<Rightarrow> (case toNative pe d v of POk m \<Rightarrow> POk (PMessage (Some m)) | PFail \<Rightarrow> PFail | PCrash \<Rightarrow> PCrash))
      else to_scalar pe (pf_type f) old v)"
| "to_items pe f [] acc = POk (PRep acc)"
| "to_items pe f (v # vs) acc =
     (case toProtoField pe f (zero_pval (pf_type f)) v PROTOBUF_C_LABEL_NONE of
        POk x \<Rightarrow> to_items pe f vs (acc @ [x]) | PFail \<Rightarrow> PFail | PCrash \<Rightarrow> PCrash)"
| "toNative pe d v =
     (case own_properties pe v of None \<Rightarrow> POk (pe_message_init pe d) | Some ps \<Rightarrow> to_props pe d ps (pe_message_init pe d))"
| "to_props pe d [] m = POk m"
| "to_props pe d ((name, v) # ps) m =
     (case binarySearchField name d of
        None \<Rightarrow> PFail
      | Some f \<Rightarrow>
          (if pf_oneof f \<and> map_of (pm_cases m) (pf_quant f) \<noteq> Some 0 then PFail
           else
             (let cs = (if pf_oneof f then omap_put (pf_quant f) (pf_id f) (pm_cases m) else pm_cases m) in
              case map_of (pm_slots m) (pf_off f) of
                None \<Rightarrow> PCrash
              | Some old \<Rightarrow>
                  (case toProtoField pe f old v (pf_label f) of
                     POk x \<Rightarrow> to_props pe d ps (PMsg (pm_desc m) (omap_put (pf_off f) x (pm_slots m)) cs)
                   | PFail \<Rightarrow> PFail | PCrash \<Rightarrow> PCrash))))"
  by pat_completeness auto

termination
proof (relation "measures [\<lambda>x. case x of
      Inl (Inl (pe, f, old, v, lab)) \<Rightarrow> 2 * size f
    | Inl (Inr (pe, f, vs, acc)) \<Rightarrow> 2 * size f
    | Inr (Inl (pe, d, v)) \<Rightarrow> 2 * size d + 1
    | Inr (Inr (pe, d, ps, m)) \<Rightarrow> 2 * size d,
    \<lambda>x. case x of Inl (Inl (pe, f, old, v, lab)) \<Rightarrow> (if lab = PROTOBUF_C_LABEL_REPEATED then 1 else 0)
     | Inl (Inr (pe, f, vs, acc)) \<Rightarrow> 1 | Inr (Inr (pe, d, ps, m)) \<Rightarrow> length ps | _ \<Rightarrow> 0,
    \<lambda>x. case x of Inl (Inr (pe, f, vs, acc)) \<Rightarrow> length vs | _ \<Rightarrow> Suc (case x of Inl (Inl (pe, f, old, v, lab)) \<Rightarrow> (case v of JArr vs \<Rightarrow> length vs | _ \<Rightarrow> 0) | _ \<Rightarrow> 0)]")
qed (auto dest: field_size sub_size)

end
