(* ===== verification/ProtoFacts.thy ===== *)
theory ProtoFacts
  imports ProtoReflect
begin

text \<open>
  The lemmas about reflection: the binary search finds what a linear search finds, messages that
  can be told apart from their script object come back unchanged, and what scripts produce
  is well typed.
\<close>

section \<open>Binary search\<close>

definition sorted_index :: "pdesc \<Rightarrow> bool" where
  "sorted_index d \<longleftrightarrow> length (pd_sorted d) = length (pd_fields d) \<and> set (pd_sorted d) = {..<length (pd_fields d)} \<and>
     sorted_wrt (<) (map (\<lambda>i. pf_name (pd_fields d ! i)) (pd_sorted d))"

lemma sorted_index_nth:
  assumes "sorted_index d" "j < length (pd_fields d)"
  shows "pd_sorted d ! j < length (pd_fields d)"
  using assms nth_mem [of j "pd_sorted d"] by (auto simp: sorted_index_def)

lemma sorted_index_less:
  assumes "sorted_index d" "i < j" "j < length (pd_fields d)"
  shows "pf_name (pd_fields d ! (pd_sorted d ! i)) < pf_name (pd_fields d ! (pd_sorted d ! j))"
  using assms sorted_wrt_nth_less [of "(<)" "map (\<lambda>i. pf_name (pd_fields d ! i)) (pd_sorted d)" i j]
  by (simp add: sorted_index_def)

lemma bsearch_hit:
  assumes "sorted_index d" "j < length (pd_fields d)"
  shows "pf_name (pd_fields d ! (pd_sorted d ! j)) = name \<Longrightarrow> 0 \<le> low \<Longrightarrow> low \<le> int j \<Longrightarrow> int j \<le> high \<Longrightarrow> high < int (length (pd_fields d)) \<Longrightarrow>
    bsearch name (pd_fields d) (pd_sorted d) low high = Some (pd_fields d ! (pd_sorted d ! j))"
proof (induction name "pd_fields d" "pd_sorted d" low high rule: bsearch.induct)
  case (1 name low high)
  let ?mid = "(low + high) div 2"
  let ?k = "nat ?mid"
  let ?f = "pd_fields d ! (pd_sorted d ! ?k)"
  have k: "?k < length (pd_fields d)" "0 \<le> ?mid" "low \<le> ?mid" "?mid \<le> high" using 1(4-7) by auto
  have ix: "?k < length (pd_sorted d)" "pd_sorted d ! ?k < length (pd_fields d)"
    using k(1) assms(1) sorted_index_nth by (auto simp: sorted_index_def)
  have c: "low \<le> high \<and> ?k < length (pd_sorted d) \<and> pd_sorted d ! ?k < length (pd_fields d)" using ix 1(5,6) by linarith
  show ?case
  proof (cases "?k = j")
    case True
    have "pf_name ?f = name" using True 1(3) by simp
    then have "bsearch name (pd_fields d) (pd_sorted d) low high = Some ?f"
      by (rule_tac trans [OF bsearch.simps]) (simp add: c Let_def)
    then show ?thesis using True by simp
  next
    case False
    show ?thesis
    proof (cases "?k < j")
      case True
      then have l: "pf_name ?f < name" using sorted_index_less [OF assms(1) True assms(2)] 1(3) by simp
      have "?mid + 1 \<le> int j" using True k(2) by linarith
      then have "bsearch name (pd_fields d) (pd_sorted d) (?mid + 1) high = Some (pd_fields d ! (pd_sorted d ! j))"
        using 1(1) [OF c refl refl _ l] l k(2) 1(3,6,7) by auto
      then show ?thesis using c l by (subst bsearch.simps) (auto simp: Let_def)
    next
      case ge: False
      then have lt: "j < ?k" using False by linarith
      then have l: "name < pf_name ?f" using sorted_index_less [OF assms(1) lt k(1)] 1(3) by simp
      then have nl: "\<not> pf_name ?f < name" "pf_name ?f \<noteq> name" by auto
      have "int j \<le> ?mid - 1" using lt by linarith
      then have "bsearch name (pd_fields d) (pd_sorted d) low (?mid - 1) = Some (pd_fields d ! (pd_sorted d ! j))"
        using 1(2) [OF c refl refl nl(2,1)] k 1(3,4,5,7) by auto
      then show ?thesis using c nl by (subst bsearch.simps) (auto simp: Let_def)
    qed
  qed
qed

lemma sorted_index_names:
  assumes "sorted_index d"
  shows "distinct (map pf_name (pd_fields d))"
proof -
  have ix: "length (pd_sorted d) = length (pd_fields d)" "set (pd_sorted d) = {..<length (pd_fields d)}"
    "distinct (map (\<lambda>i. pf_name (pd_fields d ! i)) (pd_sorted d))"
    using assms by (auto simp: sorted_index_def strict_sorted_iff)
  have "pf_name (pd_fields d ! i) \<noteq> pf_name (pd_fields d ! j)"
    if "i < length (pd_fields d)" "j < length (pd_fields d)" "i \<noteq> j" for i j
  proof -
    have "inj_on (\<lambda>i. pf_name (pd_fields d ! i)) (set (pd_sorted d))" using ix(3) by (simp add: distinct_map)
    then show ?thesis using that ix(2) unfolding inj_on_def by auto
  qed
  then show ?thesis by (auto simp: distinct_conv_nth)
qed

lemma find_name: "distinct (map pf_name fs) \<Longrightarrow> f \<in> set fs \<Longrightarrow> find (\<lambda>g. pf_name g = pf_name f) fs = Some f"
  by (induction fs) (auto simp: image_iff)

lemma binarySearchField_hit:
  assumes "sorted_index d" "f \<in> set (pd_fields d)"
  shows "binarySearchField (pf_name f) d = Some f"
proof -
  obtain i where i: "i < length (pd_fields d)" "pd_fields d ! i = f" using assms(2) by (auto simp: in_set_conv_nth)
  then have "i \<in> set (pd_sorted d)" using assms(1) by (simp add: sorted_index_def)
  then obtain j where j: "j < length (pd_fields d)" "pd_sorted d ! j = i"
    using assms(1) by (auto simp: in_set_conv_nth sorted_index_def)
  have "bsearch (pf_name f) (pd_fields d) (pd_sorted d) 0 (int (length (pd_fields d)) - 1) = Some f"
    using bsearch_hit [OF assms(1) j(1), of "pf_name f" 0 "int (length (pd_fields d)) - 1"] i j by auto
  then show ?thesis using i(1) by (auto simp: binarySearchField_def)
qed

lemma binarySearchField_find:
  assumes "sorted_index d"
  shows "binarySearchField name d = find (\<lambda>f. pf_name f = name) (pd_fields d)"
proof (cases "find (\<lambda>f. pf_name f = name) (pd_fields d)")
  case None
  then have "\<nexists>f. f \<in> set (pd_fields d) \<and> pf_name f = name" by (auto simp: find_None_iff)
  then have "binarySearchField name d = None"
    using binarySearchField_mem [of name d] by (cases "binarySearchField name d") blast+
  then show ?thesis using None by simp
next
  case (Some f)
  then have "f \<in> set (pd_fields d)" "pf_name f = name" by (auto simp: find_Some_iff)
  then show ?thesis using binarySearchField_hit [OF assms] Some by metis
qed

section \<open>What the engine promises\<close>

text \<open>
  The laws of QuickJS and of the generated \<open>init\<close> functions that the round trip relies on: reading a
  script value back gives what it was made from (64-bit integers within the exact range of
  doubles), and a fresh message has a slot for every field and all its oneof selectors zero.
\<close>

definition exact64 :: "64 word \<Rightarrow> bool" where
  "exact64 i \<longleftrightarrow> - 9007199254740992 \<le> sint i \<and> sint i \<le> 9007199254740992"

definition init_ok :: "pdesc \<Rightarrow> pmsg \<Rightarrow> bool" where
  "init_ok d m \<longleftrightarrow> pm_desc m = d \<and> omap_ok (pm_slots m) \<and> omap_ok (pm_cases m) \<and>
     okeys (pm_slots m) = pf_off ` set (pd_fields d) \<and>
     okeys (pm_cases m) = pf_quant ` set (filter pf_oneof (pd_fields d)) \<and>
     (\<forall>p \<in> set (pm_cases m). snd p = 0)"

definition pengine_ok :: "pengine \<Rightarrow> bool" where
  "pengine_ok pe \<longleftrightarrow> engine_ok (pe_js pe) \<and>
     (\<forall>i. pe_ToInt32 pe (JInt i) = i) \<and>
     (\<forall>i. exact64 i \<longrightarrow> pe_ToInt64 pe (e_NewInt64 (pe_js pe) i) = i) \<and>
     (\<forall>x. pe_ToFloat64 pe (e_NewFloat64 (pe_js pe) x) = x) \<and>
     (\<forall>b. pe_ToBool pe (JBool b) = b) \<and>
     (\<forall>s. pe_ToCString pe (JStr s) = Some s) \<and>
     (\<forall>bs. pe_GetArrayBuffer pe (pe_NewArrayBuffer pe bs) = bs \<and> pe_NewArrayBuffer pe bs \<noteq> JException \<and>
        \<not> JS_IsString (pe_NewArrayBuffer pe bs)) \<and>
     (\<forall>d. init_ok d (pe_message_init pe d))"

section \<open>Messages that scripts see in full\<close>

text \<open>
  \<open>rt_msg pe m\<close>: \<open>m\<close> passes the checks of protobuf-c, every field that is shown to scripts has a
  value of its type (a repeated field at least one, since an empty one is shown as undefined; strings without NUL;
  bytes not empty), and everything that is not shown is as in a fresh message.
\<close>

definition rt_scalar :: "ptype \<Rightarrow> pval \<Rightarrow> bool" where
  "rt_scalar t v =
     (case v of
        PInt32 i \<Rightarrow> t \<in> {PROTOBUF_C_TYPE_INT32, PROTOBUF_C_TYPE_SINT32, PROTOBUF_C_TYPE_SFIXED32, PROTOBUF_C_TYPE_UINT32,
              PROTOBUF_C_TYPE_FIXED32}
      | PInt64 i \<Rightarrow> t \<in> {PROTOBUF_C_TYPE_INT64, PROTOBUF_C_TYPE_SINT64, PROTOBUF_C_TYPE_SFIXED64, PROTOBUF_C_TYPE_UINT64,
              PROTOBUF_C_TYPE_FIXED64} \<and> exact64 i
      | PFloat x \<Rightarrow> t = PROTOBUF_C_TYPE_FLOAT
      | PDouble x \<Rightarrow> t = PROTOBUF_C_TYPE_DOUBLE
      | PBool b \<Rightarrow> t = PROTOBUF_C_TYPE_BOOL
      | PEnum i \<Rightarrow> t = PROTOBUF_C_TYPE_ENUM
      | PStr so \<Rightarrow> t = PROTOBUF_C_TYPE_STRING \<and> (case so of None \<Rightarrow> False | Some s \<Rightarrow> CHR 0x00 \<notin> set s)
      | PBytes bs \<Rightarrow> t = PROTOBUF_C_TYPE_BYTES \<and> bs \<noteq> []
      | _ \<Rightarrow> False)"

definition emitted :: "pmsg \<Rightarrow> pfield list" where
  "emitted m = filter (\<lambda>f. \<not> isOneOfSkipped f (pm_cases m)) (pd_fields (pm_desc m))"

definition rt_frame :: "pengine \<Rightarrow> pmsg \<Rightarrow> bool" where
  "rt_frame pe m \<longleftrightarrow> pe_message_check pe m \<and> sorted_index (pm_desc m) \<and> omap_ok (pm_slots m) \<and> omap_ok (pm_cases m) \<and>
     distinct (map pf_off (emitted m)) \<and> distinct (map pf_quant (filter pf_oneof (emitted m))) \<and>
     okeys (pm_slots m) = pf_off ` set (pd_fields (pm_desc m)) \<and>
     okeys (pm_cases m) = pf_quant ` set (filter pf_oneof (pd_fields (pm_desc m))) \<and>
     (\<forall>p \<in> set (pm_slots m). fst p \<in> pf_off ` set (emitted m) \<or>
        map_of (pm_slots (pe_message_init pe (pm_desc m))) (fst p) = Some (snd p)) \<and>
     (\<forall>p \<in> set (pm_cases m). fst p \<in> pf_quant ` set (filter pf_oneof (emitted m)) \<or> snd p = 0)"

lemma map_of_size_slots [termination_simp]:
  "map_of (pm_slots m) k = Some v \<Longrightarrow> size v < size m"
  by (cases m) (auto dest: map_of_size)

function (sequential) rt_field :: "pengine \<Rightarrow> pfield \<Rightarrow> pval \<Rightarrow> plabel \<Rightarrow> bool"
  and rt_msg :: "pengine \<Rightarrow> pmsg \<Rightarrow> bool" where
  "rt_field pe f v PROTOBUF_C_LABEL_REPEATED =
     (case v of PRep vs \<Rightarrow> vs \<noteq> [] \<and> list_all (\<lambda>x. rt_field pe f x PROTOBUF_C_LABEL_NONE) vs | _ \<Rightarrow> False)"
| "rt_field pe f v lab =
     (if pf_type f = PROTOBUF_C_TYPE_MESSAGE then
        (case v of PMessage (Some m) \<Rightarrow> pf_sub f = Some (pm_desc m) \<and> rt_msg pe m | _ \<Rightarrow> False)
      else rt_scalar (pf_type f) v)"
| "rt_msg pe m \<longleftrightarrow> rt_frame pe m \<and>
     list_all (\<lambda>f. case map_of (pm_slots m) (pf_off f) of None \<Rightarrow> False | Some v \<Rightarrow> rt_field pe f v (pf_label f)) (emitted m)"
  by pat_completeness auto

termination
  by (relation "measure (\<lambda>x. case x of Inl (pe, f, v, lab) \<Rightarrow> size v | Inr (pe, m) \<Rightarrow> size m)")
    (auto simp: map_of_size_slots dest: size_list_estimation' [where f = size, OF _ order.refl])

section \<open>The round trip\<close>

lemma JS_IsNumber_noexc: "JS_IsNumber v \<Longrightarrow> v \<noteq> JException"
  by (cases v) auto

lemma pengineD:
  assumes "pengine_ok pe"
  shows "JS_IsNumber (e_NewInt64 (pe_js pe) i)" "JS_IsNumber (e_NewFloat64 (pe_js pe) x)"
    "e_f32_of_f64 (pe_js pe) (e_f64_of_f32 (pe_js pe) g) = g"
    "pe_ToInt32 pe (JInt k) = k" "exact64 i \<Longrightarrow> pe_ToInt64 pe (e_NewInt64 (pe_js pe) i) = i"
    "pe_ToFloat64 pe (e_NewFloat64 (pe_js pe) x) = x" "pe_ToBool pe (JBool b) = b" "pe_ToCString pe (JStr s) = Some s"
    "pe_GetArrayBuffer pe (pe_NewArrayBuffer pe bs) = bs" "pe_NewArrayBuffer pe bs \<noteq> JException"
    "\<not> JS_IsString (pe_NewArrayBuffer pe bs)" "init_ok d (pe_message_init pe d)"
  using assms by (simp_all add: pengine_ok_def engine_ok_def)

lemma proto_scalar_roundtrip:
  assumes "pengine_ok pe" "rt_scalar t v"
  shows "\<exists>j. from_scalar pe t v = Some j \<and> j \<noteq> JException \<and> (\<forall>old. to_scalar pe t old j = POk v)"
proof -
  have num: "e_NewInt64 (pe_js pe) i \<noteq> JException" "e_NewFloat64 (pe_js pe) x \<noteq> JException" for i x
    using pengineD(1,2) [OF assms(1)] by (simp_all add: JS_IsNumber_noexc)
  show ?thesis
  proof (cases v)
    case (PStr so)
    then obtain s where "so = Some s" "CHR 0x00 \<notin> set s" using assms(2) by (auto simp: rt_scalar_def split: option.splits)
    then show ?thesis using PStr assms pengineD [OF assms(1)]
      by (auto simp: rt_scalar_def from_scalar_def to_scalar_def cstr_id)
  next
    case (PBytes bs)
    then have v: "t = PROTOBUF_C_TYPE_BYTES" "bs \<noteq> []" using assms(2) by (auto simp: rt_scalar_def)
    have "to_scalar pe t old (pe_NewArrayBuffer pe bs) = POk v" for old
      using v PBytes pengineD(9,11) [OF assms(1), of bs]
      by (cases "pe_NewArrayBuffer pe bs") (simp_all add: to_scalar_def Let_def)
    then show ?thesis using v PBytes pengineD(10) [OF assms(1)] by (simp add: from_scalar_def)
  qed (use assms(2) num pengineD(3-7) [OF assms(1)] in \<open>simp_all add: rt_scalar_def from_scalar_def to_scalar_def\<close>, auto)
qed

definition emits :: "pengine \<Rightarrow> pfield \<Rightarrow> pval \<Rightarrow> plabel \<Rightarrow> jsval \<Rightarrow> bool" where
  "emits pe f v lab j \<longleftrightarrow> j \<noteq> JException \<and> (\<forall>w. \<exists>w'. fromProtoField pe f v lab w = Some (True, j, w')) \<and>
     (\<forall>old. toProtoField pe f old j lab = POk v)"

lemma from_elems_emits:
  "list_all2 (\<lambda>x j. emits pe f x PROTOBUF_C_LABEL_NONE j) vs js \<Longrightarrow>
   \<exists>w'. from_elems pe f vs (JArr acc) w = Some (True, JArr (acc @ js), w')"
proof (induction vs js arbitrary: acc w rule: list_all2_induct)
  case (Cons x xs j js)
  obtain w1 where 1: "fromProtoField pe f x PROTOBUF_C_LABEL_NONE w = Some (True, j, w1)"
    using Cons(1) unfolding emits_def by blast
  show ?case using Cons.IH [of "acc @ [j]"] 1 by (simp add: Let_def)
qed simp

lemma to_items_emits:
  "list_all2 (\<lambda>x j. emits pe f x PROTOBUF_C_LABEL_NONE j) vs js \<Longrightarrow> to_items pe f js acc = POk (PRep (acc @ vs))"
  by (induction vs js arbitrary: acc rule: list_all2_induct) (auto simp: emits_def)

lemma prop_put_new: "k \<notin> fst ` set ps \<Longrightarrow> prop_put k v ps = ps @ [(k, v)]"
  by (induction ps) auto

lemma from_fields_emits:
  assumes "\<forall>f \<in> set fs. \<not> isOneOfSkipped f cs \<longrightarrow> (\<exists>v. map_of ss (pf_off f) = Some v \<and> emits pe f v (pf_label f) (J f))"
    "distinct (map pf_name fs)" "pf_name ` set fs \<inter> fst ` set ps = {}"
  shows "\<exists>w'. from_fields pe fs ss cs (JObject ps) w =
    Some (True, JObject (ps @ map (\<lambda>f. (pf_name f, J f)) (filter (\<lambda>f. \<not> isOneOfSkipped f cs) fs)), w')"
  using assms
proof (induction fs arbitrary: ps w)
  case (Cons f fs)
  show ?case
  proof (cases "isOneOfSkipped f cs")
    case False
    obtain v where v: "map_of ss (pf_off f) = Some v" "emits pe f v (pf_label f) (J f)" using Cons.prems(1) False by auto
    obtain w1 where 1: "fromProtoField pe f v (pf_label f) w = Some (True, J f, w1)" using v(2) unfolding emits_def by blast
    have n: "prop_put (pf_name f) (J f) ps = ps @ [(pf_name f, J f)]" using Cons.prems(3) by (auto intro: prop_put_new)
    have d: "pf_name ` set fs \<inter> fst ` set (ps @ [(pf_name f, J f)]) = {}" using Cons.prems(2,3) by auto
    show ?thesis using Cons.IH [OF _ _ d] Cons.prems(1,2) False v 1 n by (simp add: Let_def)
  qed (use Cons in auto)
qed simp

lemma to_props_emits:
  assumes "\<forall>f \<in> set es. binarySearchField (pf_name f) d = Some f \<and> pf_off f \<in> okeys (pm_slots m) \<and>
      emits pe f (V f) (pf_label f) (J f) \<and> (pf_oneof f \<longrightarrow> map_of (pm_cases m) (pf_quant f) = Some 0)"
    "distinct (map pf_quant (filter pf_oneof es))"
  shows "to_props pe d (map (\<lambda>f. (pf_name f, J f)) es) m =
    POk (PMsg (pm_desc m) (fold (\<lambda>f. omap_put (pf_off f) (V f)) es (pm_slots m))
      (fold (\<lambda>f. if pf_oneof f then omap_put (pf_quant f) (pf_id f) else id) es (pm_cases m)))"
  using assms
proof (induction es arbitrary: m)
  case Nil
  then show ?case by (cases m) simp
next
  case (Cons f es)
  let ?m = "PMsg (pm_desc m) (omap_put (pf_off f) (V f) (pm_slots m))
      (if pf_oneof f then omap_put (pf_quant f) (pf_id f) (pm_cases m) else pm_cases m)"
  have "to_props pe d ((pf_name f, J f) # map (\<lambda>f. (pf_name f, J f)) es) m = to_props pe d (map (\<lambda>f. (pf_name f, J f)) es) ?m"
    using Cons.prems(1) by (auto simp: emits_def Let_def okeys_iff)
  moreover have "\<forall>g \<in> set es. pf_oneof g \<longrightarrow> map_of (pm_cases ?m) (pf_quant g) = Some 0"
    using Cons.prems by (auto simp: image_iff) metis
  ultimately show ?case using Cons.IH [of ?m] Cons.prems by auto
qed

lemma omap_ext:
  assumes "omap_ok a" "omap_ok b" "map_of a = map_of b"
  shows "a = b"
proof -
  have d: "distinct (map fst a)" "distinct (map fst b)" using assms(1,2) by (auto dest: omap_ok_distinct)
  have "p \<in> set a \<longleftrightarrow> p \<in> set b" for p
    using map_of_eq_Some_iff [OF d(1), of "fst p" "snd p"] map_of_eq_Some_iff [OF d(2), of "fst p" "snd p"] assms(3) by simp
  then have "set a = set b" by blast
  moreover have "sorted (map fst a)" "sorted (map fst b)" using assms(1,2) by (auto simp: omap_ok_def strict_sorted_iff)
  moreover have "inj_on fst (set a \<union> set b)" using d calculation(1) by (simp add: distinct_map)
  ultimately show ?thesis using d by (intro map_sorted_distinct_set_unique [of fst]) auto
qed

lemma omap_ok_fold: "omap_ok s \<Longrightarrow> omap_ok (fold (\<lambda>f. if P f then omap_put (k f) (v f) else id) es s)"
  by (induction es arbitrary: s) auto

lemma map_of_fold_other:
  "x \<notin> k ` set (filter P es) \<Longrightarrow> map_of (fold (\<lambda>f. if P f then omap_put (k f) (v f) else id) es s) x = map_of s x"
  by (induction es arbitrary: s) auto

lemma map_of_fold_put:
  "f \<in> set es \<Longrightarrow> P f \<Longrightarrow> distinct (map k (filter P es)) \<Longrightarrow>
   map_of (fold (\<lambda>f. if P f then omap_put (k f) (v f) else id) es s) (k f) = Some (v f)"
proof (induction es arbitrary: s)
  case (Cons g es)
  show ?case
  proof (cases "f \<in> set es")
    case True
    then show ?thesis using Cons by (cases "P g") auto
  next
    case False
    then have "f = g" using Cons.prems by auto
    then show ?thesis using Cons.prems map_of_fold_other [of "k g" k P es v] by auto
  qed
qed simp

lemma rebuild_map:
  assumes "omap_ok s" "omap_ok t" "distinct (map k (filter P es))" "okeys s = okeys t"
    "\<And>f. f \<in> set es \<Longrightarrow> P f \<Longrightarrow> map_of s (k f) = Some (v f)"
    "\<And>x. x \<in> okeys s \<Longrightarrow> x \<notin> k ` set (filter P es) \<Longrightarrow> map_of s x = map_of t x"
  shows "fold (\<lambda>f. if P f then omap_put (k f) (v f) else id) es t = s"
proof (rule omap_ext)
  show "map_of (fold (\<lambda>f. if P f then omap_put (k f) (v f) else id) es t) = map_of s"
  proof
    fix x
    show "map_of (fold (\<lambda>f. if P f then omap_put (k f) (v f) else id) es t) x = map_of s x"
    proof (cases "x \<in> k ` set (filter P es)")
      case True
      then show ?thesis using map_of_fold_put [of _ es P k v t] assms(3,5) by auto
    next
      case False
      then have e: "map_of t x = map_of s x"
        using assms(4,6) map_of_None_okeys [of s x] map_of_None_okeys [of t x] by (cases "x \<in> okeys s") auto
      show ?thesis by (rule trans [OF map_of_fold_other [OF False] e])
    qed
  qed
qed (use assms omap_ok_fold in auto)

lemma from_field_not_repeated:
  "lab \<noteq> PROTOBUF_C_LABEL_REPEATED \<Longrightarrow> fromProtoField pe f v lab w =
     (if pf_type f = PROTOBUF_C_TYPE_MESSAGE then
        (if pf_sub f = None then None
         else case v of
           PMessage (Some m) \<Rightarrow> fromNative pe m (JObject []) (js_new (JObject []) w)
         | PMessage None \<Rightarrow> Some (False, JObject [], js_new (JObject []) w)
         | _ \<Rightarrow> None)
      else case from_scalar pe (pf_type f) v of None \<Rightarrow> None | Some j \<Rightarrow> Some (True, j, js_new j w))"
  by (cases lab) simp_all

lemma to_field_not_repeated:
  "lab \<noteq> PROTOBUF_C_LABEL_REPEATED \<Longrightarrow> toProtoField pe f old v lab =
     (if lab = PROTOBUF_C_LABEL_REQUIRED \<and> v = JException then PFail
      else if pf_type f = PROTOBUF_C_TYPE_MESSAGE then
        (case pf_sub f of
           None \<Rightarrow> PCrash
         | Some d \<Rightarrow> (case toNative pe d v of POk m \<Rightarrow> POk (PMessage (Some m)) | PFail \<Rightarrow> PFail | PCrash \<Rightarrow> PCrash))
      else to_scalar pe (pf_type f) old v)"
  by (cases lab) simp_all

definition msg_emits :: "pengine \<Rightarrow> pmsg \<Rightarrow> jsval \<Rightarrow> bool" where
  "msg_emits pe m j \<longleftrightarrow> j \<noteq> JException \<and> (\<forall>w. \<exists>w'. fromNative pe m (JObject []) w = Some (True, j, w')) \<and>
     toNative pe (pm_desc m) j = POk m"

lemma field_emits:
  assumes "pengine_ok pe" "lab \<noteq> PROTOBUF_C_LABEL_REPEATED" "rt_field pe f v lab"
    "\<And>m. pf_type f = PROTOBUF_C_TYPE_MESSAGE \<Longrightarrow> v = PMessage (Some m) \<Longrightarrow> rt_msg pe m \<Longrightarrow> \<exists>j. msg_emits pe m j"
  shows "\<exists>j. emits pe f v lab j"
proof (cases "pf_type f = PROTOBUF_C_TYPE_MESSAGE")
  case True
  then obtain m where m: "v = PMessage (Some m)" "pf_sub f = Some (pm_desc m)" "rt_msg pe m"
    using assms(2,3) by (cases lab) (auto split: pval.splits option.splits)
  obtain j where j: "msg_emits pe m j" using assms(4) [OF True m(1,3)] by blast
  then have "emits pe f v lab j"
    using m(1,2) True assms(2) by (auto simp: emits_def msg_emits_def from_field_not_repeated to_field_not_repeated)
  then show ?thesis by blast
next
  case False
  then have "rt_scalar (pf_type f) v" using assms(2,3) by (cases lab) auto
  then obtain j where "from_scalar pe (pf_type f) v = Some j" "j \<noteq> JException" "\<forall>old. to_scalar pe (pf_type f) old j = POk v"
    using proto_scalar_roundtrip [OF assms(1)] by blast
  then have "emits pe f v lab j"
    using False assms(2) by (auto simp: emits_def from_field_not_repeated to_field_not_repeated)
  then show ?thesis by blast
qed

lemma repeated_emits:
  assumes "vs \<noteq> []" "\<And>x. x \<in> set vs \<Longrightarrow> \<exists>j. emits pe f x PROTOBUF_C_LABEL_NONE j"
  shows "\<exists>j. emits pe f (PRep vs) PROTOBUF_C_LABEL_REPEATED j"
proof -
  obtain J where J: "\<And>x. x \<in> set vs \<Longrightarrow> emits pe f x PROTOBUF_C_LABEL_NONE (J x)" using assms(2) by metis
  have l: "list_all2 (\<lambda>x j. emits pe f x PROTOBUF_C_LABEL_NONE j) vs (map J vs)"
    using J by (auto simp: list_all2_conv_all_nth)
  have "emits pe f (PRep vs) PROTOBUF_C_LABEL_REPEATED (JArr (map J vs))"
    using assms(1) from_elems_emits [OF l, of "[]"] to_items_emits [OF l, of "[]"] by (auto simp: emits_def)
  then show ?thesis by blast
qed

lemma message_emits:
  assumes "pengine_ok pe" "rt_frame pe m"
    "\<And>f. f \<in> set (emitted m) \<Longrightarrow> \<exists>v j. map_of (pm_slots m) (pf_off f) = Some v \<and> emits pe f v (pf_label f) j"
  shows "\<exists>j. msg_emits pe m j"
proof -
  obtain d ss cs where m: "m = PMsg d ss cs" by (cases m)
  obtain V J where VJ: "\<And>f. f \<in> set (emitted m) \<Longrightarrow> map_of ss (pf_off f) = Some (V f) \<and> emits pe f (V f) (pf_label f) (J f)"
    using assms(3) unfolding m pmsg.sel by metis
  let ?es = "emitted m"
  let ?ps = "map (\<lambda>f. (pf_name f, J f)) ?es"
  have es: "?es = filter (\<lambda>f. \<not> isOneOfSkipped f cs) (pd_fields d)" by (simp add: emitted_def m)
  note fr = assms(2) [unfolded rt_frame_def m pmsg.sel, folded m]
  have idx: "sorted_index d" using fr by blast
  have emit: "\<forall>f\<in>set (pd_fields d). \<not> isOneOfSkipped f cs \<longrightarrow>
      (\<exists>v. map_of ss (pf_off f) = Some v \<and> emits pe f v (pf_label f) (J f))"
    using VJ by (auto simp: es)
  have from_ok: "\<exists>w'. fromNative pe m (JObject []) w = Some (True, JObject ?ps, w')" for w
    using from_fields_emits [OF emit sorted_index_names [OF idx], of "[]" w] fr es by (simp add: m)
  let ?i = "pe_message_init pe d"
  have init: "init_ok d ?i" by (rule pengineD(12) [OF assms(1)])
  have sub: "set ?es \<subseteq> set (pd_fields d)" by (auto simp: es)
  have zero: "map_of (pm_cases ?i) (pf_quant f) = Some 0" if "f \<in> set ?es" "pf_oneof f" for f
  proof -
    have "pf_quant f \<in> okeys (pm_cases ?i)" using init that sub by (auto simp: init_ok_def)
    then obtain x where x: "map_of (pm_cases ?i) (pf_quant f) = Some x" by (auto simp: okeys_iff)
    then have "x = 0" using init by (fastforce simp: init_ok_def dest: map_of_SomeD)
    then show ?thesis using x by simp
  qed
  have "to_props pe d ?ps ?i = POk (PMsg (pm_desc ?i) (fold (\<lambda>f. omap_put (pf_off f) (V f)) ?es (pm_slots ?i))
      (fold (\<lambda>f. if pf_oneof f then omap_put (pf_quant f) (pf_id f) else id) ?es (pm_cases ?i)))"
  proof (rule to_props_emits)
    show "distinct (map pf_quant (filter pf_oneof ?es))" using fr by blast
    show "\<forall>f\<in>set ?es. binarySearchField (pf_name f) d = Some f \<and> pf_off f \<in> okeys (pm_slots ?i) \<and>
        emits pe f (V f) (pf_label f) (J f) \<and> (pf_oneof f \<longrightarrow> map_of (pm_cases ?i) (pf_quant f) = Some 0)"
      using sub init VJ zero binarySearchField_hit [OF idx] by (auto simp: init_ok_def)
  qed
  moreover have "fold (\<lambda>f. omap_put (pf_off f) (V f)) ?es (pm_slots ?i) = ss"
  proof -
    have "fold (\<lambda>f. if True then omap_put (pf_off f) (V f) else id) ?es (pm_slots ?i) = ss"
    proof (rule rebuild_map)
      fix x assume x: "x \<in> okeys ss" "x \<notin> pf_off ` set (filter (\<lambda>_. True) ?es)"
      then obtain v where v: "map_of ss x = Some v" by (auto simp: okeys_iff)
      then have "(x, v) \<in> set ss" by (rule map_of_SomeD)
      then show "map_of ss x = map_of (pm_slots ?i) x" using x fr v by auto
    qed (use fr init VJ in \<open>auto simp: init_ok_def\<close>)
    then show ?thesis by simp
  qed
  moreover have "fold (\<lambda>f. if pf_oneof f then omap_put (pf_quant f) (pf_id f) else id) ?es (pm_cases ?i) = cs"
  proof (rule rebuild_map)
    fix x assume x: "x \<in> okeys cs" "x \<notin> pf_quant ` set (filter pf_oneof ?es)"
    then obtain v where v: "map_of cs x = Some v" by (auto simp: okeys_iff)
    then have "v = 0" using x fr by (auto dest!: map_of_SomeD)
    have "x \<in> okeys (pm_cases ?i)" using x fr init by (auto simp: init_ok_def)
    then obtain u where u: "map_of (pm_cases ?i) x = Some u" by (auto simp: okeys_iff)
    then have "u = 0" using init by (fastforce simp: init_ok_def dest: map_of_SomeD)
    then show "map_of cs x = map_of (pm_cases ?i) x" using u v \<open>v = 0\<close> by simp
  qed (use fr init es in \<open>auto simp: init_ok_def isOneOfSkipped_def\<close>)
  ultimately have "toNative pe d (JObject ?ps) = POk m" using init by (simp add: own_properties_def init_ok_def m)
  then have "msg_emits pe m (JObject ?ps)" using from_ok by (simp add: msg_emits_def m)
  then show ?thesis by blast
qed

lemma rt_emits:
  assumes "pengine_ok pe"
  shows "rt_field pe f v lab \<Longrightarrow> \<exists>j. emits pe f v lab j"
    and "rt_msg pe m \<Longrightarrow> \<exists>j. msg_emits pe m j"
  using assms
proof (induction pe f v lab and pe m rule: rt_field_rt_msg.induct
    [case_names 1 c2a c2b c2c 3 4 5 6 7 8])
  case (1 pe f v)
  then obtain vs where v: "v = PRep vs" "vs \<noteq> []" "\<And>x. x \<in> set vs \<Longrightarrow> rt_field pe f x PROTOBUF_C_LABEL_NONE"
    by (cases v) (auto simp: list_all_iff)
  show ?case unfolding v(1) by (rule repeated_emits [OF v(2) 1(1) [OF v(1) _ v(3) 1(3)]])
next
  case (3 pe m)
  have r: "rt_frame pe m" and l: "list_all (\<lambda>f. case map_of (pm_slots m) (pf_off f) of None \<Rightarrow> False
      | Some v \<Rightarrow> rt_field pe f v (pf_label f)) (emitted m)"
    using 3(2) by (simp_all only: rt_msg.simps)
  have "\<exists>v j. map_of (pm_slots m) (pf_off f) = Some v \<and> emits pe f v (pf_label f) j" if f: "f \<in> set (emitted m)" for f
  proof -
    have "case map_of (pm_slots m) (pf_off f) of None \<Rightarrow> False | Some v \<Rightarrow> rt_field pe f v (pf_label f)"
      using l f by (simp only: list_all_iff)
    then obtain v where "map_of (pm_slots m) (pf_off f) = Some v" "rt_field pe f v (pf_label f)"
      by (cases "map_of (pm_slots m) (pf_off f)") auto
    then show ?thesis using 3(1,3) f by blast
  qed
  then show ?case by (rule message_emits [OF 3(3) r])
next
  case (c2a pe f v)
  then show ?case by (intro field_emits) (auto simp del: rt_msg.simps)
next
  case (c2b pe f v)
  then show ?case by (intro field_emits) (auto simp del: rt_msg.simps)
next
  case (c2c pe f v)
  then show ?case by (intro field_emits) (auto simp del: rt_msg.simps)
qed

section \<open>What scripts produce is well typed\<close>

definition pt_scalar :: "ptype \<Rightarrow> pval \<Rightarrow> bool" where
  "pt_scalar t v =
     (case v of
        PInt32 i \<Rightarrow> t \<in> {PROTOBUF_C_TYPE_INT32, PROTOBUF_C_TYPE_SINT32, PROTOBUF_C_TYPE_SFIXED32, PROTOBUF_C_TYPE_UINT32,
              PROTOBUF_C_TYPE_FIXED32}
      | PInt64 i \<Rightarrow> t \<in> {PROTOBUF_C_TYPE_INT64, PROTOBUF_C_TYPE_SINT64, PROTOBUF_C_TYPE_SFIXED64, PROTOBUF_C_TYPE_UINT64,
              PROTOBUF_C_TYPE_FIXED64}
      | PFloat x \<Rightarrow> t = PROTOBUF_C_TYPE_FLOAT
      | PDouble x \<Rightarrow> t = PROTOBUF_C_TYPE_DOUBLE
      | PBool b \<Rightarrow> t = PROTOBUF_C_TYPE_BOOL
      | PEnum i \<Rightarrow> t = PROTOBUF_C_TYPE_ENUM
      | PStr so \<Rightarrow> t = PROTOBUF_C_TYPE_STRING
      | PBytes bs \<Rightarrow> t = PROTOBUF_C_TYPE_BYTES
      | _ \<Rightarrow> False)"

definition pt_frame :: "pmsg \<Rightarrow> bool" where
  "pt_frame m \<longleftrightarrow> okeys (pm_slots m) = pf_off ` set (pd_fields (pm_desc m)) \<and>
     (\<forall>p \<in> set (pm_cases m). snd p = 0 \<or>
        (fst p, snd p) \<in> (\<lambda>f. (pf_quant f, pf_id f)) ` set (filter pf_oneof (pd_fields (pm_desc m))))"

function (sequential) pt_field :: "pfield \<Rightarrow> pval \<Rightarrow> plabel \<Rightarrow> bool"
  and pt_msg :: "pmsg \<Rightarrow> bool" where
  "pt_field f v PROTOBUF_C_LABEL_REPEATED =
     (case v of PRep vs \<Rightarrow> list_all (\<lambda>x. pt_field f x PROTOBUF_C_LABEL_NONE) vs | _ \<Rightarrow> False)"
| "pt_field f v lab =
     (if pf_type f = PROTOBUF_C_TYPE_MESSAGE then
        (case v of PMessage None \<Rightarrow> True | PMessage (Some m) \<Rightarrow> pf_sub f = Some (pm_desc m) \<and> pt_msg m | _ \<Rightarrow> False)
      else pt_scalar (pf_type f) v)"
| "pt_msg m \<longleftrightarrow> pt_frame m \<and>
     list_all (\<lambda>f. case map_of (pm_slots m) (pf_off f) of None \<Rightarrow> False | Some v \<Rightarrow> pt_field f v (pf_label f)) (emitted m)"
  by pat_completeness auto

termination
  by (relation "measure (\<lambda>x. case x of Inl (f, v, lab) \<Rightarrow> size v | Inr m \<Rightarrow> size m)")
    (auto simp: map_of_size_slots dest: size_list_estimation' [where f = size, OF _ order.refl])

lemma pt_field_not_repeated:
  "lab \<noteq> PROTOBUF_C_LABEL_REPEATED \<Longrightarrow> pt_field f v lab =
     (if pf_type f = PROTOBUF_C_TYPE_MESSAGE then
        (case v of PMessage None \<Rightarrow> True | PMessage (Some m) \<Rightarrow> pf_sub f = Some (pm_desc m) \<and> pt_msg m | _ \<Rightarrow> False)
      else pt_scalar (pf_type f) v)"
  by (cases lab) simp_all

text \<open>
  The layout protobuf-c generates: two fields share memory only as members of one oneof group,
  whose members have different, non-zero numbers.
\<close>

definition layout_frame :: "pfield list \<Rightarrow> bool" where
  "layout_frame fs \<longleftrightarrow> list_all (\<lambda>f. pf_oneof f \<longrightarrow> pf_id f \<noteq> 0) fs \<and>
     list_all (\<lambda>f. list_all (\<lambda>g. f = g \<or>
        ((pf_off f = pf_off g \<longrightarrow> pf_oneof f \<and> pf_oneof g \<and> pf_quant f = pf_quant g) \<and>
         (pf_oneof f \<and> pf_oneof g \<and> pf_quant f = pf_quant g \<longrightarrow> pf_id f \<noteq> pf_id g))) fs) fs"

lemma sub_desc_size [termination_simp]: "f \<in> set fs \<Longrightarrow> pf_sub f = Some d \<Longrightarrow> size d < Suc (size_list size fs)"
  using sub_size [of f d] size_list_estimation' [of f fs "size f" size] by simp

fun layout_ok :: "pdesc \<Rightarrow> bool" where
  "layout_ok (PDesc fs ix) \<longleftrightarrow> layout_frame fs \<and> list_all (\<lambda>f. case pf_sub f of None \<Rightarrow> True | Some d \<Rightarrow> layout_ok d) fs"

lemma layout_sub: "layout_ok d \<Longrightarrow> f \<in> set (pd_fields d) \<Longrightarrow> pf_sub f = Some d' \<Longrightarrow> layout_ok d'"
  by (cases d) (auto simp: list_all_iff dest!: bspec)

definition init_typed :: "pengine \<Rightarrow> bool" where
  "init_typed pe \<longleftrightarrow> (\<forall>d. layout_ok d \<longrightarrow> pm_desc (pe_message_init pe d) = d \<and> pt_msg (pe_message_init pe d))"

lemma to_scalar_typed: "to_scalar pe t old v = POk x \<Longrightarrow> t \<noteq> PROTOBUF_C_TYPE_MESSAGE \<Longrightarrow> pt_scalar t x"
  by (cases t) (auto simp: to_scalar_def pt_scalar_def Let_def split: option.splits jsval.splits)

lemma put_field_typed:
  assumes "layout_ok d" "f \<in> set (pd_fields d)" "pt_msg m" "pm_desc m = d" "pt_field f x (pf_label f)"
  shows "pt_msg (PMsg d (omap_put (pf_off f) x (pm_slots m))
    (if pf_oneof f then omap_put (pf_quant f) (pf_id f) (pm_cases m) else pm_cases m))" (is "pt_msg ?m")
proof -
  obtain fs ix where d: "d = PDesc fs ix" by (cases d)
  have fr: "pt_frame m" and l: "list_all (\<lambda>f. case map_of (pm_slots m) (pf_off f) of None \<Rightarrow> False | Some v \<Rightarrow> pt_field f v (pf_label f)) (emitted m)"
    using assms(3) by (simp_all only: pt_msg.simps)
  have al: "\<And>g v. g \<in> set (emitted m) \<Longrightarrow> map_of (pm_slots m) (pf_off g) = Some v \<Longrightarrow> pt_field g v (pf_label g)"
    using l by (force simp only: list_all_iff option.case dest!: bspec)
  have fr': "pt_frame ?m"
  proof -
    let ?ids = "(\<lambda>f. (pf_quant f, pf_id f)) ` set (filter pf_oneof (pd_fields d))"
    have cs: "\<forall>p \<in> set (pm_cases m). snd p = 0 \<or> (fst p, snd p) \<in> ?ids" using fr assms(4) by (simp add: pt_frame_def)
    have "\<forall>p \<in> set (pm_cases ?m). snd p = 0 \<or> (fst p, snd p) \<in> ?ids"
    proof (cases "pf_oneof f")
      case True
      then have "(pf_quant f, pf_id f) \<in> ?ids" using assms(2) by auto
      then show ?thesis using True cs set_omap_put [of "pf_quant f" "pf_id f" "pm_cases m"] by auto
    qed (use cs in simp)
    moreover have "okeys (pm_slots ?m) = pf_off ` set (pd_fields d)"
      using fr assms(2,4) by (auto simp: pt_frame_def)
    ultimately show ?thesis by (simp add: pt_frame_def)
  qed
  have "\<exists>v. map_of (pm_slots ?m) (pf_off g) = Some v \<and> pt_field g v (pf_label g)" if g: "g \<in> set (emitted ?m)" for g
  proof (cases "g = f")
    case True
    then show ?thesis using assms(5) by simp
  next
    case False
    have gin: "g \<in> set (pd_fields d)" using g by (simp add: emitted_def)
    then have "g \<in> set fs" "f \<in> set fs" using assms(2) d by auto
    then have lay: "pf_off f = pf_off g \<Longrightarrow> pf_oneof f \<and> pf_oneof g \<and> pf_quant f = pf_quant g"
      "pf_oneof f \<and> pf_oneof g \<and> pf_quant f = pf_quant g \<Longrightarrow> pf_id f \<noteq> pf_id g"
      using assms(1) False unfolding d by (auto simp: layout_frame_def list_all_iff)
    have old: "g \<in> set (emitted m)" and off: "pf_off g \<noteq> pf_off f"
      using g gin lay assms(4) by (auto simp: emitted_def isOneOfSkipped_def split: if_splits)
    obtain v where v: "map_of (pm_slots m) (pf_off g) = Some v"
      using fr gin assms(4) okeys_iff [of "pf_off g" "pm_slots m"] by (auto simp: pt_frame_def)
    then show ?thesis using al [OF old v] off by simp
  qed
  then have "list_all (\<lambda>g. case map_of (pm_slots ?m) (pf_off g) of None \<Rightarrow> False | Some v \<Rightarrow> pt_field g v (pf_label g)) (emitted ?m)"
    by (force simp only: list_all_iff option.case)
  then show ?thesis using fr' by (simp only: pt_msg.simps)
qed

lemma to_props_ConsE:
  assumes "to_props pe d ((name, v) # ps) m = POk m'"
  obtains f old x where "binarySearchField name d = Some f"
    "\<not> (pf_oneof f \<and> map_of (pm_cases m) (pf_quant f) \<noteq> Some 0)" "map_of (pm_slots m) (pf_off f) = Some old"
    "toProtoField pe f old v (pf_label f) = POk x"
    "to_props pe d ps (PMsg (pm_desc m) (omap_put (pf_off f) x (pm_slots m))
      (if pf_oneof f then omap_put (pf_quant f) (pf_id f) (pm_cases m) else pm_cases m)) = POk m'"
  using assms by (simp add: Let_def split: option.splits if_splits pres.splits)

lemma toNative_typed_aux:
  assumes "init_typed pe"
  shows "toProtoField pe f old v lab = POk x \<Longrightarrow> (\<And>d'. pf_sub f = Some d' \<Longrightarrow> layout_ok d') \<Longrightarrow> pt_field f x lab"
    and "to_items pe f vs acc = POk x \<Longrightarrow> (\<And>d'. pf_sub f = Some d' \<Longrightarrow> layout_ok d') \<Longrightarrow>
       \<forall>a \<in> set acc. pt_field f a PROTOBUF_C_LABEL_NONE \<Longrightarrow> pt_field f x PROTOBUF_C_LABEL_REPEATED"
    and "toNative pe d v = POk m \<Longrightarrow> layout_ok d \<Longrightarrow> pm_desc m = d \<and> pt_msg m"
    and "to_props pe d ps m0 = POk m \<Longrightarrow> layout_ok d \<Longrightarrow> pm_desc m0 = d \<Longrightarrow> pt_msg m0 \<Longrightarrow> pm_desc m = d \<and> pt_msg m"
  using assms
proof (induction pe f old v lab and pe f vs acc and pe d v and pe d ps m0
    arbitrary: x and x and m and m rule: toProtoField_to_items_toNative_to_props.induct
    [case_names 1 c2a c2b c2c 3 4 5 6 7 8])
  case (1 pe f old v)
  then show ?case by (auto split: jsval.splits simp del: pt_field.simps)
next
  case (3 pe f acc)
  then show ?case by (auto simp: list_all_iff)
next
  case (4 pe f v vs acc)
  then show ?case by (auto split: pres.splits simp del: pt_field.simps)
next
  case (5 pe d v)
  then show ?case by (auto split: option.splits simp: init_typed_def simp del: pt_msg.simps)
next
  case (6 pe d m)
  then show ?case by simp
next
  case (7 pe d name v ps m0)
  obtain f old x where f: "binarySearchField name d = Some f"
    "\<not> (pf_oneof f \<and> map_of (pm_cases m0) (pf_quant f) \<noteq> Some 0)" "map_of (pm_slots m0) (pf_off f) = Some old"
    "toProtoField pe f old v (pf_label f) = POk x"
    "to_props pe d ps (PMsg (pm_desc m0) (omap_put (pf_off f) x (pm_slots m0))
      (if pf_oneof f then omap_put (pf_quant f) (pf_id f) (pm_cases m0) else pm_cases m0)) = POk m"
    by (rule to_props_ConsE [OF 7(3)])
  have fin: "f \<in> set (pd_fields d)" using binarySearchField_mem [OF f(1)] by simp
  have sub: "\<And>d'. pf_sub f = Some d' \<Longrightarrow> layout_ok d'" using layout_sub [OF 7(4) fin] by simp
  have x: "pt_field f x (pf_label f)" by (rule 7(1) [OF f(1,2) refl f(3,4) sub 7(7)])
  have t: "pt_msg (PMsg (pm_desc m0) (omap_put (pf_off f) x (pm_slots m0))
      (if pf_oneof f then omap_put (pf_quant f) (pf_id f) (pm_cases m0) else pm_cases m0))"
    unfolding 7(5) by (rule put_field_typed [OF 7(4) fin 7(6,5) x])
  show ?case by (rule 7(2) [OF f(1,2) refl f(3-5) 7(4) _ t 7(7)]) (simp only: pmsg.sel 7(5))
next
  case (c2a pe f old v)
  then show ?case by (auto simp: pt_field_not_repeated split: if_splits option.splits pres.splits dest: to_scalar_typed simp del: pt_msg.simps)
next
  case (c2b pe f old v)
  then show ?case by (auto simp: pt_field_not_repeated split: if_splits option.splits pres.splits dest: to_scalar_typed simp del: pt_msg.simps)
next
  case (c2c pe f old v)
  then show ?case by (auto simp: pt_field_not_repeated split: if_splits option.splits pres.splits dest: to_scalar_typed simp del: pt_msg.simps)
qed

section \<open>Who owns the script values\<close>

text \<open>
  Besides the reference to its result, a conversion owns nothing when it succeeds; when it fails, the field it was
  working on stays referenced (\<open>fromNative\<close> returns without releasing it).
\<close>

lemma field_owned:
  assumes "lab \<noteq> PROTOBUF_C_LABEL_REPEATED" "fromProtoField pe f v lab w = Some (ok, j, w')" "balanced b M w"
    "\<And>m. pf_type f = PROTOBUF_C_TYPE_MESSAGE \<Longrightarrow> pf_sub f \<noteq> None \<Longrightarrow> v = PMessage (Some m) \<Longrightarrow>
       fromNative pe m (JObject []) (js_new (JObject []) w) = Some (ok, j, w') \<Longrightarrow>
       \<exists>L. balanced b (add_mset j (M + L)) w' \<and> (ok \<longrightarrow> L = {#})"
  shows "\<exists>L. balanced b (add_mset j (M + L)) w' \<and> (ok \<longrightarrow> L = {#})"
proof -
  have new: "\<exists>L. balanced b (add_mset x (M + L)) (js_new x w) \<and> (ok \<longrightarrow> L = {#})" for x
    using balanced_dup [OF assms(3)] by (intro exI [of _ "{#}"]) simp
  consider m where "pf_type f = PROTOBUF_C_TYPE_MESSAGE" "pf_sub f \<noteq> None" "v = PMessage (Some m)"
      "fromNative pe m (JObject []) (js_new (JObject []) w) = Some (ok, j, w')"
    | "j = JObject []" "w' = js_new j w" | "w' = js_new j w"
    using assms(2) unfolding from_field_not_repeated [OF assms(1)]
    by (auto split: if_splits pval.splits option.splits)
  then show ?thesis using assms(4) new by cases auto
qed

lemma from_owned:
  shows "fromProtoField pe f v lab w = Some (ok, j, w') \<Longrightarrow> balanced b M w \<Longrightarrow>
      \<exists>L. balanced b (add_mset j (M + L)) w' \<and> (ok \<longrightarrow> L = {#})"
    and "from_elems pe f vs t w = Some (ok, j, w') \<Longrightarrow> t = JArr xs \<Longrightarrow> balanced b (add_mset t M) w \<Longrightarrow>
      \<exists>L. balanced b (add_mset j (M + L)) w' \<and> (ok \<longrightarrow> L = {#})"
    and "fromNative pe m t w = Some (ok, j, w') \<Longrightarrow> t = JObject ps \<Longrightarrow> balanced b (add_mset t M) w \<Longrightarrow>
      \<exists>L. balanced b (add_mset j (M + L)) w' \<and> (ok \<longrightarrow> L = {#})"
    and "from_fields pe fs ss cs t w = Some (ok, j, w') \<Longrightarrow> t = JObject ps \<Longrightarrow> balanced b (add_mset t M) w \<Longrightarrow>
      \<exists>L. balanced b (add_mset j (M + L)) w' \<and> (ok \<longrightarrow> L = {#})"
proof (induction pe f v lab w and pe f vs t w and pe m t w and pe fs ss cs t w
    arbitrary: ok j w' M and ok j w' M xs and ok j w' M ps and ok j w' M ps
    rule: fromProtoField_from_elems_fromNative_from_fields.induct
    [case_names 1 c2a c2b c2c 3 4 5 6 7 8])
  case (1 pe f v w)
  then obtain vs where v: "v = PRep vs" by (auto split: pval.splits)
  show ?case
  proof (cases "vs = []")
    case True
    then show ?thesis using 1(2,3) v by (auto intro: exI [of _ "{#}"])
  next
    case False
    have "from_elems pe f vs (JArr []) (js_new (JArr []) w) = Some (ok, j, w')" using 1(2) v False by simp
    then show ?thesis using 1(1) [OF v False _ refl balanced_dup [OF 1(3)]] by blast
  qed
next
  case (4 pe f v vs t w)
  obtain ok1 item w1 where 1: "fromProtoField pe f v PROTOBUF_C_LABEL_NONE w = Some (ok1, item, w1)"
    using 4(3) by (auto split: option.splits)
  obtain L where L: "balanced b (add_mset item (add_mset t M + L)) w1" "ok1 \<longrightarrow> L = {#}"
    using 4(1) [OF 1 4(5)] by blast
  show ?case
  proof (cases ok1)
    case True
    have b: "balanced b (add_mset item (add_mset (JArr xs) M)) w1" using L True 4(4) by simp
    obtain t' w2 where p: "js_push t item w1 = (t', w2)" by (cases "js_push t item w1")
    have t': "t' = JArr (xs @ [item])" using p 4(4) by (simp add: Let_def)
    have "balanced b (add_mset t' M) w2" by (rule balanced_push [OF b]) (use p 4(4) in simp)
    moreover have "from_elems pe f vs t' w2 = Some (ok, j, w')" using 4(3) 1 True p by simp
    ultimately show ?thesis using 4(2) [OF 1 refl refl _ p [symmetric] refl _ t'] True by auto
  next
    case False
    then have "ok = False" "j = t" "w' = feature_free_value item w1" using 4(3) 1 by auto
    moreover have "balanced b (add_mset t (M + L)) (feature_free_value item w1)"
      using balanced_free [of b item _ w1] L(1) by (simp add: add_mset_commute)
    ultimately show ?thesis by blast
  qed
next
  case (7 pe f fs ss cs t w)
  show ?case
  proof (cases "isOneOfSkipped f cs")
    case True
    then show ?thesis using 7(1) [OF True _ 7(5,6)] 7(4) by simp
  next
    case False
    obtain v where v: "map_of ss (pf_off f) = Some v" using 7(4) False by (auto split: option.splits)
    obtain ok1 x w1 where 1: "fromProtoField pe f v (pf_label f) w = Some (ok1, x, w1)"
      using 7(4) False v by (auto split: option.splits)
    obtain L where L: "balanced b (add_mset x (add_mset t M + L)) w1" "ok1 \<longrightarrow> L = {#}"
      using 7(2) [OF False v 1 7(6)] by blast
    show ?thesis
    proof (cases ok1)
      case True
      have b: "balanced b (add_mset x (add_mset (JObject ps) M)) w1" using L True 7(5) by simp
      obtain t' w2 where p: "js_set_prop t (pf_name f) x w1 = (t', w2)" by (cases "js_set_prop t (pf_name f) x w1")
      have t': "t' = JObject (prop_put (pf_name f) x ps)" using p 7(5) by (simp add: Let_def)
      have "balanced b (add_mset t' M) w2" by (rule balanced_set_prop [OF b]) (use p 7(5) in simp)
      moreover have "from_fields pe fs ss cs t' w2 = Some (ok, j, w')" using 7(4) False v 1 True p by simp
      ultimately show ?thesis using 7(3) [OF False v 1 refl refl _ p [symmetric] refl _ t'] True by auto
    next
      case nok: False
      then have "ok = False" "j = t" "w' = w1" using 7(4) False v 1 by auto
      moreover have "balanced b (add_mset t (M + add_mset x L)) w1" using L(1) by (simp add: add_mset_commute)
      ultimately show ?thesis by blast
    qed
  qed
next
  case (5 pe d ss cs t w)
  show ?case
  proof (cases "pe_message_check pe (PMsg d ss cs)")
    case True
    then show ?thesis using 5(1) [OF _ _ 5(3,4)] 5(2) by simp
  next
    case False
    then show ?thesis using 5(2,4) by (auto intro: exI [of _ "{#}"])
  qed
next
  case (c2a pe f v w)
  show ?case
  proof (rule field_owned [OF _ c2a(2,3)])
    fix m assume m: "pf_type f = PROTOBUF_C_TYPE_MESSAGE" "pf_sub f \<noteq> None" "v = PMessage (Some m)"
      "fromNative pe m (JObject []) (js_new (JObject []) w) = Some (ok, j, w')"
    show "\<exists>L. balanced b (add_mset j (M + L)) w' \<and> (ok \<longrightarrow> L = {#})"
      by (rule c2a(1) [OF m(1,2,3) refl m(4) refl balanced_dup [OF c2a(3)]])
  qed simp
next
  case (c2b pe f v w)
  show ?case
  proof (rule field_owned [OF _ c2b(2,3)])
    fix m assume m: "pf_type f = PROTOBUF_C_TYPE_MESSAGE" "pf_sub f \<noteq> None" "v = PMessage (Some m)"
      "fromNative pe m (JObject []) (js_new (JObject []) w) = Some (ok, j, w')"
    show "\<exists>L. balanced b (add_mset j (M + L)) w' \<and> (ok \<longrightarrow> L = {#})"
      by (rule c2b(1) [OF m(1,2,3) refl m(4) refl balanced_dup [OF c2b(3)]])
  qed simp
next
  case (c2c pe f v w)
  show ?case
  proof (rule field_owned [OF _ c2c(2,3)])
    fix m assume m: "pf_type f = PROTOBUF_C_TYPE_MESSAGE" "pf_sub f \<noteq> None" "v = PMessage (Some m)"
      "fromNative pe m (JObject []) (js_new (JObject []) w) = Some (ok, j, w')"
    show "\<exists>L. balanced b (add_mset j (M + L)) w' \<and> (ok \<longrightarrow> L = {#})"
      by (rule c2c(1) [OF m(1,2,3) refl m(4) refl balanced_dup [OF c2c(3)]])
  qed simp
qed (auto intro!: exI [of _ "{#}"])

end
