(* ===== verification/ProtoProps.thy ===== *)
theory ProtoProps
  imports ProtoFacts
begin

text \<open>
  The properties of protobuf reflection, with witnesses on a message with a string, a oneof group, a repeated field
  and a submessage.
\<close>

section \<open>A concrete engine\<close>

definition init_slot :: "pfield \<Rightarrow> pval" where
  "init_slot f =
     (if pf_label f = PROTOBUF_C_LABEL_REPEATED then PRep []
      else case pf_type f of
        PROTOBUF_C_TYPE_MESSAGE \<Rightarrow> PMessage None
      | PROTOBUF_C_TYPE_STRING \<Rightarrow> PStr None
      | PROTOBUF_C_TYPE_BYTES \<Rightarrow> PBytes []
      | PROTOBUF_C_TYPE_FLOAT \<Rightarrow> PFloat 0
      | PROTOBUF_C_TYPE_DOUBLE \<Rightarrow> PDouble 0
      | PROTOBUF_C_TYPE_BOOL \<Rightarrow> PBool False
      | PROTOBUF_C_TYPE_ENUM \<Rightarrow> PEnum 0
      | t \<Rightarrow> if fst (getProtoTypeSize t) = 4 then PInt32 0 else PInt64 0)"

definition init0 :: "pdesc \<Rightarrow> pmsg" where
  "init0 d = PMsg d (fold (\<lambda>f. omap_put (pf_off f) (init_slot f)) (pd_fields d) [])
     (fold (\<lambda>f. omap_put (pf_quant f) 0) (filter pf_oneof (pd_fields d)) [])"

definition pengine0 :: pengine where
  "pengine0 = \<lparr>
     pe_js = \<lparr>
       e_NewUint32 = (\<lambda>u. JFloat64 (ucast u)), e_NewInt64 = (\<lambda>u. JFloat64 u),
       e_NewBigUint64 = (\<lambda>u. JBigInt (uint u)), e_NewFloat64 = JFloat64,
       e_ToUint32 = (\<lambda>v. case v of JInt i \<Rightarrow> Some i | JFloat64 d \<Rightarrow> Some (ucast d) | _ \<Rightarrow> None),
       e_ToInt64 = (\<lambda>v. case v of JInt i \<Rightarrow> Some (scast i) | JFloat64 d \<Rightarrow> Some d | _ \<Rightarrow> None),
       e_ToIndex = (\<lambda>v. None),
       e_ToFloat64 = (\<lambda>v. case v of JFloat64 d \<Rightarrow> Some d | _ \<Rightarrow> None),
       e_f32_of_f64 = ucast, e_f64_of_f32 = ucast,
       e_ParseJSON = (\<lambda>s. None), e_Stringify = (\<lambda>v. ''{}''),
       e_protoToTarget = (\<lambda>n. JObject []), e_protoToNative = (\<lambda>v. 0)\<rparr>,
     pe_NewArrayBuffer = (\<lambda>bs. JArr (map (\<lambda>b. JInt (ucast b)) bs)),
     pe_ToInt32 = (\<lambda>v. case v of JInt i \<Rightarrow> i | _ \<Rightarrow> 0),
     pe_ToInt64 = (\<lambda>v. case v of JInt i \<Rightarrow> scast i | JFloat64 d \<Rightarrow> d | _ \<Rightarrow> 0),
     pe_ToFloat64 = (\<lambda>v. case v of JFloat64 d \<Rightarrow> d | _ \<Rightarrow> 0),
     pe_ToBool = (\<lambda>v. v = JBool True),
     pe_ToCString = (\<lambda>v. case v of JStr s \<Rightarrow> Some s | _ \<Rightarrow> None),
     pe_GetArrayBuffer = (\<lambda>v. case v of JArr vs \<Rightarrow> map (\<lambda>x. case x of JInt i \<Rightarrow> ucast i | _ \<Rightarrow> 0) vs | _ \<Rightarrow> []),
     pe_OwnProperties = (\<lambda>v. None),
     pe_message_check = (\<lambda>m. True),
     pe_message_init = init0\<rparr>"

lemma omap_ok_fold_put: "omap_ok s \<Longrightarrow> omap_ok (fold (\<lambda>f. omap_put (k f) (v f)) es s)"
  by (induction es arbitrary: s) auto

lemma okeys_fold_put: "okeys (fold (\<lambda>f. omap_put (k f) (v f)) es s) = k ` set es \<union> okeys s"
  by (induction es arbitrary: s) auto

lemma set_fold_put:
  "p \<in> set (fold (\<lambda>f. omap_put (k f) (v f)) es s) \<Longrightarrow> p \<in> set s \<or> p \<in> (\<lambda>f. (k f, v f)) ` set es"
proof (induction es arbitrary: s)
  case (Cons f es)
  then show ?case using set_omap_put [of "k f" "v f" s] by fastforce
qed simp

lemma init0_ok: "init_ok d (init0 d)"
  by (auto simp: init_ok_def init0_def omap_ok_fold_put okeys_fold_put dest!: set_fold_put)

lemma pengine0_ok: "pengine_ok pengine0"
proof -
  have "map (\<lambda>x. case x of JInt i \<Rightarrow> ucast i | _ \<Rightarrow> 0) (map (\<lambda>b. JInt (ucast b)) bs) = (bs :: 8 word list)" for bs
    by (simp add: comp_def is_up is_down ucast_up_ucast_id)
  then show ?thesis
    by (simp add: pengine_ok_def pengine0_def engine_ok_def init0_ok is_up is_down ucast_up_ucast_id)
qed

lemma map_of_fold_slot:
  "k \<in> pf_off ` set fs \<or> map_of s k = Some v \<Longrightarrow>
   \<exists>g. map_of (fold (\<lambda>f. omap_put (pf_off f) (init_slot f)) fs s) k = Some g"
  using okeys_iff [of k "fold (\<lambda>f. omap_put (pf_off f) (init_slot f)) fs s"]
  by (auto simp: okeys_fold_put okeys_iff)

lemma init_slot_typed: "pt_field f (init_slot f) (pf_label f)"
  by (cases "pf_label f"; cases "pf_type f") (simp_all add: init_slot_def pt_scalar_def getProtoTypeSize_def)

lemma init0_typed: "init_typed pengine0"
  unfolding init_typed_def
proof (intro allI impI conjI)
  fix d assume lay: "layout_ok d"
  obtain fs ix where d: "d = PDesc fs ix" by (cases d)
  have m: "pe_message_init pengine0 d = init0 d" by (simp add: pengine0_def)
  show "pm_desc (pe_message_init pengine0 d) = d" by (simp add: m init0_def)
  let ?cs = "fold (\<lambda>f. omap_put (pf_quant f) 0) (filter pf_oneof fs) [] :: (nat \<times> 32 word) list"
  let ?ss = "fold (\<lambda>f. omap_put (pf_off f) (init_slot f)) fs []"
  have fr: "pt_frame (init0 d)" by (auto simp: pt_frame_def init0_def okeys_fold_put dest!: set_fold_put)
  have "\<exists>v. map_of ?ss (pf_off f) = Some v \<and> pt_field f v (pf_label f)" if f: "f \<in> set (emitted (init0 d))" for f
  proof -
    have fin: "f \<in> set fs" and "\<not> isOneOfSkipped f ?cs" using f d by (auto simp: emitted_def init0_def)
    have z: "x = 0" if "(q, x) \<in> set ?cs" for q x using set_fold_put [OF that] by auto
    have no: "\<not> pf_oneof f"
    proof
      assume o: "pf_oneof f"
      then have "map_of ?cs (pf_quant f) = Some (pf_id f)" using \<open>\<not> isOneOfSkipped f ?cs\<close> by (simp add: isOneOfSkipped_def)
      then have "pf_id f = 0" by (rule z [OF map_of_SomeD])
      then show False using lay d fin o by (auto simp: layout_frame_def list_all_iff)
    qed
    have same: "g = f" if "g \<in> set fs" "pf_off g = pf_off f" for g
      using lay d that no fin by (auto simp: layout_frame_def list_all_iff)
    have "(pf_off f, v) \<in> set ?ss \<Longrightarrow> v = init_slot f" for v using set_fold_put [of "(pf_off f, v)"] same by fastforce
    moreover obtain v where "map_of ?ss (pf_off f) = Some v" using map_of_fold_slot [of "pf_off f" fs] fin by blast
    ultimately show ?thesis using init_slot_typed [of f] by (auto dest: map_of_SomeD)
  qed
  then have "list_all (\<lambda>g. case map_of (pm_slots (init0 d)) (pf_off g) of None \<Rightarrow> False | Some v \<Rightarrow> pt_field g v (pf_label g)) (emitted (init0 d))"
    by (force simp: list_all_iff init0_def d)
  then show "pt_msg (pe_message_init pengine0 d)" using fr by (simp only: m pt_msg.simps)
qed

section \<open>A concrete message\<close>

definition point_desc :: pdesc where
  "point_desc = PDesc [PField ''y'' 1 PROTOBUF_C_LABEL_REQUIRED PROTOBUF_C_TYPE_INT64 False 0 24 None,
     PField ''x'' 2 PROTOBUF_C_LABEL_OPTIONAL PROTOBUF_C_TYPE_BOOL False 0 32 None] [1, 0]"

definition msg_desc :: pdesc where
  "msg_desc = PDesc [
     PField ''name'' 1 PROTOBUF_C_LABEL_OPTIONAL PROTOBUF_C_TYPE_STRING False 0 24 None,
     PField ''num'' 2 PROTOBUF_C_LABEL_NONE PROTOBUF_C_TYPE_SINT32 True 64 72 None,
     PField ''data'' 3 PROTOBUF_C_LABEL_NONE PROTOBUF_C_TYPE_BYTES True 64 72 None,
     PField ''list'' 4 PROTOBUF_C_LABEL_REPEATED PROTOBUF_C_TYPE_INT32 False 40 48 None,
     PField ''at'' 5 PROTOBUF_C_LABEL_OPTIONAL PROTOBUF_C_TYPE_MESSAGE False 0 56 (Some point_desc)] [4, 2, 3, 0, 1]"

definition msg0 :: pmsg where
  "msg0 = PMsg msg_desc [(24, PStr (Some ''vela'')), (48, PRep [PInt32 1, PInt32 2]),
     (56, PMessage (Some (PMsg point_desc [(24, PInt64 5), (32, PBool True)] []))), (72, PBytes [7, 8])] [(64, 3)]"

lemma sorted_index_demo: "sorted_index point_desc" "sorted_index msg_desc"
  by (auto simp: sorted_index_def point_desc_def msg_desc_def less_list_code less_char_def)

lemma msg0_rt: "rt_msg pengine0 msg0"
  by (simp add: rt_frame_def emitted_def isOneOfSkipped_def rt_scalar_def exact64_def msg_desc_def point_desc_def
      sorted_index_demo [unfolded msg_desc_def point_desc_def] init_slot_def msg0_def pengine0_def init0_def omap_ok_def okeys_def insert_commute del: One_nat_def)

definition world_p :: world where
  "world_p = \<lparr>rc = (\<lambda>v. if v = JObject [] then 1 else 0), calls = [], ifaces = (\<lambda>i. None)\<rparr>"

lemma no_iface: "iface_own (\<lambda>i. None) v = 0"
  by (cases v) simp_all

lemma world_p_balanced: "balanced (\<lambda>_. 0) {#JObject []#} world_p"
  by (simp add: balanced_def world_p_def no_iface)


section \<open>The properties\<close>



text \<open>C37: Whatever value a script passes, a message \<open>toNative\<close> builds has the requested descriptor and is well typed: every
  slot that is in use holds a value of its field's type, nested messages have the descriptor of their
  field, and every oneof selector is zero or the number of a member of its group.\<close>

theorem toNative_well_typed:
  assumes "init_typed pe" "layout_ok d" "toNative pe d v = POk m"
  shows "pm_desc m = d \<and> pt_msg m"
  by (rule toNative_typed_aux(3) [OF assms(1,3,2)])

theorem toNative_well_typed_witness:
  "\<exists>m. toNative pengine0 msg_desc (JObject [(''name'', JStr ''a''), (''data'', JStr ''b''), (''list'', JArr [JInt 1])]) = POk m \<and>
     pm_desc m = msg_desc \<and> pt_msg m"
proof -
  have lay: "layout_ok msg_desc" by (simp add: msg_desc_def point_desc_def layout_frame_def)
  have "\<exists>m. toNative pengine0 msg_desc (JObject [(''name'', JStr ''a''), (''data'', JStr ''b''), (''list'', JArr [JInt 1])]) = POk m"
    by (simp add: own_properties_def binarySearchField_def bsearch.simps less_list_code less_char_def msg_desc_def point_desc_def pengine0_def init0_def init_slot_def to_scalar_def)
  then show ?thesis using toNative_well_typed [OF init0_typed lay] by blast
qed

text \<open>The binary search for a property name agrees with looking through the fields one by one, for every descriptor
  whose index lists its fields in the strict order of their names.\<close>

theorem search_is_lookup:
  assumes "sorted_index d"
  shows "binarySearchField name d = find (\<lambda>f. pf_name f = name) (pd_fields d)"
  by (rule binarySearchField_find [OF assms])

theorem search_is_lookup_witness:
  "map_option pf_id (binarySearchField ''list'' msg_desc) = Some 4 \<and> binarySearchField ''lost'' msg_desc = None"
  using search_is_lookup [OF sorted_index_demo(2)] by (simp add: msg_desc_def)

text \<open>An optional submessage that is not set makes the conversion of the whole message fail: \<open>fromNative\<close> is called on the
  null pointer, returns false, and the object made for the submessage stays referenced.\<close>

theorem unset_submessage_fails:
  assumes "pe_message_check pe m" "pd_fields (pm_desc m) = f # fs" "pf_type f = PROTOBUF_C_TYPE_MESSAGE"
    "pf_label f = PROTOBUF_C_LABEL_OPTIONAL" "\<not> pf_oneof f" "pf_sub f = Some d'"
    "map_of (pm_slots m) (pf_off f) = Some (PMessage None)"
  shows "fromNative pe m t w = Some (False, t, js_new (JObject []) w)"
  using assms by (cases m) (simp add: isOneOfSkipped_def)

theorem unset_submessage_fails_witness:
  "fromNative pengine0 (PMsg (PDesc [PField ''at'' 5 PROTOBUF_C_LABEL_OPTIONAL PROTOBUF_C_TYPE_MESSAGE False 0 24 (Some point_desc)] [0])
     [(24, PMessage None)] []) (JObject []) world_p = Some (False, JObject [], js_new (JObject []) world_p)"
  by (rule unset_submessage_fails [where d' = point_desc and fs = "[]" and
      f = "PField ''at'' 5 PROTOBUF_C_LABEL_OPTIONAL PROTOBUF_C_TYPE_MESSAGE False 0 24 (Some point_desc)"]) (simp_all add: pengine0_def)

end
