(* ===== verification/Messaging.thy ===== *)
theory Messaging
  imports Instance "HOL-Library.List_Lexorder" "HOL-Library.Char_ord"
begin

text \<open>
  The message channel of the modules: \<open>MessageChannel\<close> (\<open>modules/message_channel_impl.cpp\<close>) with its
  client connection, its board of pending requests and its server
  (\<open>modules/message_transport.cpp\<close>). A channel belongs to a feature instance
  (\<open>mc_h = Some s\<close>: callbacks and promises go through the handle API of that instance) or to a C client
  (\<open>mc_h = None\<close>: function pointers). The reply objects that peers hold are kept in lists, in the
  order they are made; a peer's call names the object by its index. What goes out to the
  service manager, the activity manager, peers and C functions, and every answer, is logged in \<open>mc_out\<close>.
  The binder services and the addresses of objects are the fields of \<open>menv\<close>. A result \<open>None\<close> is a crash.
\<close>

section \<open>State\<close>

text \<open>
  \<open>me_id\<close> is the conversion of a pointer to \<open>int32_t\<close>; \<open>me_status\<close> the outcome of a binder transaction.
\<close>

record menv =
  me_engine :: engine
  me_getService :: "string \<Rightarrow> nat option"
  me_alive :: "nat \<Rightarrow> bool"
  me_status :: "nat \<Rightarrow> string \<Rightarrow> bool"
  me_id :: "nat \<Rightarrow> int"

datatype mout =
    ORegister string nat
  | OUnregister nat
  | OBroadcast string string
  | OSend nat string nat
  | OSendSession nat string nat
  | OAddService string
  | OReplyTo nat string
  | OCloseTo nat
  | OResolve int string
  | OReject int string
  | OSession int int
  | OInvoke int "nval list" bool
  | OCallRequest nat string nat
  | OCallService nat int string nat
  | OCallSubscriber nat string string nat

text \<open>A \<open>MsgTask\<close> together with the \<open>MessageReply\<close> it holds, and a \<open>SessionMessageReply\<close>.\<close>

record msg_task =
  tk_pid :: int
  tk_id :: int
  tk_done :: bool
  tk_timer :: bool
  tk_chan :: bool
  tk_conn :: bool

record session_reply =
  sr_id :: int
  sr_chan :: bool
  sr_conn :: bool

record tserver =
  reply_map :: "(int, nat) omap"
  ts_msg_cb :: bool
  ts_session_cb :: bool

record mchan =
  mc_h :: "inst option"
  mc_w :: world
  mc_out :: "mout list"
  mc_dead :: bool
  mc_loop :: bool
  message_server_recv_cb :: int
  session_server_recv_cb :: int
  action_cb_map :: "(string, int list) omap"
  session_ondata_cb_map :: "(int, int) omap"
  session_onclose_cb_map :: "(int, int) omap"
  request_map :: "(int, nat \<times> nat) omap"
  service_msg_map :: "nat \<times> nat"
  subscribe_map :: "(int, nat \<times> nat) omap"
  session_client_map :: "(int, nat) omap"
  session_reply_map :: "(int, nat) omap"
  broadcast_reply :: "(string, nat) omap"
  task_list :: "nat list"
  mc_tasks :: "msg_task list"
  mc_replies :: "session_reply list"
  mc_receivers :: "bool list"
  transport_server :: "tserver option"
  mc_server_set :: bool

definition log :: "mout \<Rightarrow> mchan \<Rightarrow> mchan" where
  "log x m = m\<lparr>mc_out := mc_out m @ [x]\<rparr>"

definition new_channel :: "inst option \<Rightarrow> world \<Rightarrow> bool \<Rightarrow> mchan" where
  "new_channel h w loop = \<lparr>mc_h = h, mc_w = w, mc_out = [], mc_dead = False, mc_loop = loop,
     message_server_recv_cb = - 1, session_server_recv_cb = - 1,
     action_cb_map = [], session_ondata_cb_map = [], session_onclose_cb_map = [],
     request_map = [], service_msg_map = (0, 0), subscribe_map = [],
     session_client_map = [], session_reply_map = [], broadcast_reply = [], task_list = [],
     mc_tasks = [], mc_replies = [], mc_receivers = [], transport_server = None, mc_server_set = False\<rparr>"

section \<open>Through the handle API\<close>

definition mc_invoke :: "menv \<Rightarrow> int \<Rightarrow> nval list \<Rightarrow> mchan \<Rightarrow> bool \<times> mchan" where
  "mc_invoke E cid ap m =
     (let (ok, w') = FeatureInvokeCallback (me_engine E) (mc_h m) cid ap (mc_w m)
      in (ok, log (OInvoke cid ap ok) (m\<lparr>mc_w := w'\<rparr>)))"

definition mc_remove :: "int \<Rightarrow> mchan \<Rightarrow> mchan" where
  "mc_remove cid m =
     (let (r, h', w') = FeatureRemoveCallback (mc_h m) cid (mc_w m) in m\<lparr>mc_h := h', mc_w := w'\<rparr>)"

definition mc_resolve :: "menv \<Rightarrow> int \<Rightarrow> nval \<Rightarrow> mchan \<Rightarrow> mchan" where
  "mc_resolve E pid v m =
     (let (r, h', w') = FeaturePromiseResolve (me_engine E) (mc_h m) pid [v] (mc_w m) in m\<lparr>mc_h := h', mc_w := w'\<rparr>)"

definition mc_reject :: "int \<Rightarrow> string \<Rightarrow> mchan \<Rightarrow> mchan" where
  "mc_reject pid text m =
     (let (r, h', w') = FeaturePromiseReject (mc_h m) pid 202 (Some text) (mc_w m)
      in log (OReject pid text) (m\<lparr>mc_h := h', mc_w := w'\<rparr>))"

definition nint :: "int \<Rightarrow> nval" where
  "nint i = NBits (word_of_int i)"

section \<open>What the channel is told\<close>

definition serverOnMessage :: "menv \<Rightarrow> int \<Rightarrow> string \<Rightarrow> mchan \<Rightarrow> mchan" where
  "serverOnMessage E rid message m =
     (if message_server_recv_cb m = - 1 then m
      else if mc_h m \<noteq> None then snd (mc_invoke E (message_server_recv_cb m) [nint rid, NStr message] m)
      else log (OCallService (fst (service_msg_map m)) rid message (snd (service_msg_map m))) m)"

definition sessionOnMessage :: "menv \<Rightarrow> int \<Rightarrow> string \<Rightarrow> mchan \<Rightarrow> mchan" where
  "sessionOnMessage E sid message m =
     (if session_server_recv_cb m = - 1 then m
      else snd (mc_invoke E (session_server_recv_cb m) [nint sid, NStr message] m))"

definition clientOnSessionMessage :: "menv \<Rightarrow> int \<Rightarrow> string \<Rightarrow> mchan \<Rightarrow> mchan" where
  "clientOnSessionMessage E sid message m =
     (case map_of (session_ondata_cb_map m) sid of
        None \<Rightarrow> m
      | Some cb \<Rightarrow> snd (mc_invoke E cb [NStr message] m))"

definition clientOnSessionCloseByself :: "menv \<Rightarrow> int \<Rightarrow> int \<Rightarrow> mchan \<Rightarrow> mchan" where
  "clientOnSessionCloseByself E sid flag m =
     (case map_of (session_onclose_cb_map m) sid of
        None \<Rightarrow> m
      | Some cb \<Rightarrow>
          (let (ok, m1) = mc_invoke E cb [nint flag] m
           in if \<not> ok then m1
              else (let m2 = mc_remove cb m1
                    in m2\<lparr>session_onclose_cb_map := omap_del sid (session_onclose_cb_map m2)\<rparr>)))"

definition clientOnSessionCloseBypeer :: "menv \<Rightarrow> int \<Rightarrow> int \<Rightarrow> mchan \<Rightarrow> mchan" where
  "clientOnSessionCloseBypeer E sid flag m =
     (let (ok, m2) =
        (case map_of (session_onclose_cb_map m) sid of
           None \<Rightarrow> (True, m)
         | Some cb \<Rightarrow>
             (let (ok, m1) = mc_invoke E cb [nint flag] m
              in if \<not> ok then (False, m1)
                 else (let m2 = mc_remove cb m1
                       in (True, m2\<lparr>session_onclose_cb_map := omap_del sid (session_onclose_cb_map m2)\<rparr>))))
      in if \<not> ok then m2
         else case map_of (session_ondata_cb_map m2) sid of
           None \<Rightarrow> m2
         | Some cb \<Rightarrow>
             (let m3 = mc_remove cb m2
              in m3\<lparr>session_ondata_cb_map := omap_del sid (session_ondata_cb_map m3)\<rparr>))"

text \<open>\<open>request_map[id]\<close> on a missing key is a null function pointer, which is then called.\<close>

definition call_request :: "int \<Rightarrow> string \<Rightarrow> mchan \<Rightarrow> mchan option" where
  "call_request pid text m =
     (case map_of (request_map m) pid of
        None \<Rightarrow> None
      | Some (cb, user) \<Rightarrow>
          Some (log (OCallRequest cb text user) (m\<lparr>request_map := omap_del pid (request_map m)\<rparr>)))"

definition clientOnMessage :: "menv \<Rightarrow> int \<Rightarrow> string \<Rightarrow> mchan \<Rightarrow> mchan option" where
  "clientOnMessage E pid message m =
     (if mc_h m \<noteq> None then Some (log (OResolve pid message) (mc_resolve E pid (NStr message) m)) else call_request pid message m)"

definition clientOnTimeOut :: "int \<Rightarrow> mchan \<Rightarrow> mchan option" where
  "clientOnTimeOut pid m =
     (if mc_h m \<noteq> None then Some (mc_reject pid ''reply timeout'' m) else call_request pid ''reply timeout'' m)"

fun invoke_all :: "menv \<Rightarrow> string \<Rightarrow> string \<Rightarrow> int list \<Rightarrow> mchan \<Rightarrow> mchan" where
  "invoke_all E action text [] m = m"
| "invoke_all E action text (cb # cbs) m =
     (let (ok, m1) = mc_invoke E cb [NStr action, NStr text] m
      in if ok then invoke_all E action text cbs m1 else m1)"

fun call_subscribers :: "string \<Rightarrow> string \<Rightarrow> int list \<Rightarrow> mchan \<Rightarrow> mchan option" where
  "call_subscribers action text [] m = Some m"
| "call_subscribers action text (i # ids) m =
     (case map_of (subscribe_map m) i of
        None \<Rightarrow> None
      | Some (cb, user) \<Rightarrow> call_subscribers action text ids (log (OCallSubscriber cb action text user) m))"

definition onReceive :: "menv \<Rightarrow> string \<Rightarrow> string \<Rightarrow> mchan \<Rightarrow> mchan option" where
  "onReceive E action text m =
     (case map_of (action_cb_map m) action of
        None \<Rightarrow> Some m
      | Some ids \<Rightarrow>
          (if mc_h m \<noteq> None then Some (invoke_all E action text ids m) else call_subscribers action text ids m))"

section \<open>The client connection\<close>

definition conn_createSession :: "menv \<Rightarrow> string \<Rightarrow> mchan \<Rightarrow> int \<times> mchan" where
  "conn_createSession E target m =
     (case me_getService E target of
        None \<Rightarrow> (- 1, m)
      | Some service \<Rightarrow>
          (let sid = me_id E service
           in (sid, if map_of (session_client_map m) sid = None
                    then m\<lparr>session_client_map := omap_put sid service (session_client_map m)\<rparr> else m)))"

definition new_session_reply :: "int \<Rightarrow> mchan \<Rightarrow> mchan" where
  "new_session_reply sid m =
     m\<lparr>mc_replies := mc_replies m @ [\<lparr>sr_id = sid, sr_chan = True, sr_conn = True\<rparr>],
       session_reply_map := omap_put sid (length (mc_replies m)) (session_reply_map m)\<rparr>"

definition conn_sessionSend :: "menv \<Rightarrow> int \<Rightarrow> string \<Rightarrow> mchan \<Rightarrow> mchan" where
  "conn_sessionSend E sid msg m =
     (case map_of (session_client_map m) sid of
        None \<Rightarrow> m
      | Some service \<Rightarrow>
          (if \<not> me_alive E service then m
           else
             (let m1 = (if map_of (session_reply_map m) sid = None then new_session_reply sid m else m)
              in log (OSendSession service msg (the (map_of (session_reply_map m1) sid))) m1)))"

definition conn_sessionClose :: "menv \<Rightarrow> int \<Rightarrow> mchan \<Rightarrow> mchan" where
  "conn_sessionClose E sid m =
     (if map_of (session_client_map m) sid = None then m
      else clientOnSessionCloseByself E sid 0 (m\<lparr>session_client_map := omap_del sid (session_client_map m)\<rparr>))"

definition conn_haveSessionId :: "int \<Rightarrow> mchan \<Rightarrow> bool" where
  "conn_haveSessionId sid m \<longleftrightarrow> map_of (session_client_map m) sid \<noteq> None"

text \<open>\<open>a\<close> is the address of the new reply object. Starting the timer uses the loop of the board.\<close>

definition commitTask :: "int \<Rightarrow> int \<Rightarrow> mchan \<Rightarrow> mchan option" where
  "commitTask pid rid m =
     (if \<not> mc_loop m then None
      else Some (m\<lparr>mc_tasks := mc_tasks m @
             [\<lparr>tk_pid = pid, tk_id = rid, tk_done = False, tk_timer = True, tk_chan = True, tk_conn = True\<rparr>],
           task_list := task_list m @ [length (mc_tasks m)]\<rparr>))"

definition conn_sendMessage :: "menv \<Rightarrow> nat \<Rightarrow> string \<Rightarrow> string \<Rightarrow> int \<Rightarrow> mchan \<Rightarrow> (int \<times> mchan) option" where
  "conn_sendMessage E a target msg pid m =
     (case me_getService E target of
        None \<Rightarrow> Some (- 1, m)
      | Some service \<Rightarrow>
          (case commitTask pid (me_id E a) m of
             None \<Rightarrow> None
           | Some m1 \<Rightarrow>
               Some (if me_status E service msg then 0 else - 1, log (OSend service msg (length (mc_tasks m))) m1)))"

definition conn_registerReceiver :: "string \<Rightarrow> mchan \<Rightarrow> mchan" where
  "conn_registerReceiver action m =
     (let r = length (mc_receivers m);
          m1 = log (ORegister action r) (m\<lparr>mc_receivers := mc_receivers m @ [True]\<rparr>)
      in if map_of (broadcast_reply m1) action = None
         then m1\<lparr>broadcast_reply := omap_put action r (broadcast_reply m1)\<rparr> else m1)"

definition conn_unregisterReceiver :: "string \<Rightarrow> mchan \<Rightarrow> mchan" where
  "conn_unregisterReceiver action m =
     (case map_of (broadcast_reply m) action of
        None \<Rightarrow> m
      | Some r \<Rightarrow>
          (let m1 = log (OUnregister r) (m\<lparr>mc_receivers := (mc_receivers m)[r := False]\<rparr>)
           in m1\<lparr>broadcast_reply := omap_del action (broadcast_reply m1)\<rparr>))"

definition eraseSessionReply :: "int \<Rightarrow> mchan \<Rightarrow> mchan" where
  "eraseSessionReply sid m = m\<lparr>session_reply_map := omap_del sid (session_reply_map m)\<rparr>"

definition eraseSessionClient :: "int \<Rightarrow> mchan \<Rightarrow> mchan" where
  "eraseSessionClient sid m = m\<lparr>session_client_map := omap_del sid (session_client_map m)\<rparr>"

section \<open>The board of pending requests\<close>

definition stopTimer :: "nat \<Rightarrow> mchan \<Rightarrow> mchan" where
  "stopTimer i m = m\<lparr>mc_tasks := (mc_tasks m)[i := (mc_tasks m ! i)\<lparr>tk_timer := False\<rparr>]\<rparr>"

definition doing :: "menv \<Rightarrow> nat \<Rightarrow> string \<Rightarrow> mchan \<Rightarrow> mchan option" where
  "doing E i message m =
     (let t = mc_tasks m ! i; m1 = m\<lparr>mc_tasks := (mc_tasks m)[i := t\<lparr>tk_done := True\<rparr>]\<rparr>
      in if tk_chan t then clientOnMessage E (tk_pid t) message m1 else Some m1)"

text \<open>
  \<open>executeTask\<close> works on a list of tasks and returns the rest of it. \<open>onReply\<close> copies the board
  (\<open>auto task_board = getTaskBoard()\<close>) and works on the copy, so the list of the connection stays as it is; the tasks
  themselves are shared.
\<close>

fun executeTask :: "menv \<Rightarrow> int \<Rightarrow> string \<Rightarrow> nat list \<Rightarrow> mchan \<Rightarrow> (nat list \<times> mchan) option" where
  "executeTask E rid message [] m = Some ([], m)"
| "executeTask E rid message (i # is) m =
     (if tk_done (mc_tasks m ! i) then executeTask E rid message is (stopTimer i m)
      else if tk_id (mc_tasks m ! i) = rid then
        (case doing E i message m of
           None \<Rightarrow> None
         | Some m1 \<Rightarrow> executeTask E rid message is (stopTimer i m1))
      else map_option (\<lambda>(rest, m1). (i # rest, m1)) (executeTask E rid message is m))"

definition onReply :: "menv \<Rightarrow> nat \<Rightarrow> string \<Rightarrow> mchan \<Rightarrow> mchan option" where
  "onReply E i message m =
     (if \<not> tk_conn (mc_tasks m ! i) then Some m
      else if mc_dead m then None
      else map_option snd (executeTask E (tk_id (mc_tasks m ! i)) message (task_list m) m))"

definition timerFires :: "nat \<Rightarrow> mchan \<Rightarrow> mchan option" where
  "timerFires i m =
     (let t = mc_tasks m ! i in
      if tk_done t then Some m
      else
        (let m1 = m\<lparr>mc_tasks := (mc_tasks m)[i := t\<lparr>tk_done := True\<rparr>]\<rparr>
         in if \<not> tk_chan t then Some m1 else if mc_dead m then None else clientOnTimeOut (tk_pid t) m1))"

fun clear_tasks :: "nat list \<Rightarrow> msg_task list \<Rightarrow> msg_task list" where
  "clear_tasks [] ts = ts"
| "clear_tasks (i # is) ts =
     clear_tasks is (ts[i := (ts ! i)\<lparr>tk_timer := False, tk_conn := False, tk_chan := False\<rparr>])"

definition clearTimer :: "mchan \<Rightarrow> mchan" where
  "clearTimer m = m\<lparr>mc_tasks := clear_tasks (task_list m) (mc_tasks m), task_list := []\<rparr>"

section \<open>Sessions and broadcasts as peers see them\<close>

definition session_onReply :: "menv \<Rightarrow> nat \<Rightarrow> string \<Rightarrow> mchan \<Rightarrow> mchan option" where
  "session_onReply E i text m =
     (let r = mc_replies m ! i
      in if \<not> sr_chan r then Some m else if mc_dead m then None
         else Some (clientOnSessionMessage E (sr_id r) text m))"

definition onSessionClose :: "menv \<Rightarrow> nat \<Rightarrow> mchan \<Rightarrow> mchan option" where
  "onSessionClose E i m =
     (let r = mc_replies m ! i
      in if (sr_chan r \<or> sr_conn r) \<and> mc_dead m then None
         else
           (let m1 = (if sr_chan r then clientOnSessionCloseBypeer E (sr_id r) 1 m else m)
            in Some (if sr_conn r then eraseSessionClient (sr_id r) (eraseSessionReply (sr_id r) m1) else m1)))"

definition receiver_onReceive :: "menv \<Rightarrow> nat \<Rightarrow> string \<Rightarrow> string \<Rightarrow> mchan \<Rightarrow> mchan option" where
  "receiver_onReceive E r action text m =
     (if \<not> mc_receivers m ! r then Some m else if mc_dead m then None else onReceive E action text m)"

section \<open>The server\<close>

definition server_put :: "int \<Rightarrow> nat \<Rightarrow> tserver \<Rightarrow> tserver" where
  "server_put rid peer s =
     (if map_of (reply_map s) rid = None then s\<lparr>reply_map := omap_put rid peer (reply_map s)\<rparr> else s)"

definition server_sendMessage :: "menv \<Rightarrow> nat \<Rightarrow> string \<Rightarrow> mchan \<Rightarrow> mchan" where
  "server_sendMessage E peer message m =
     (case transport_server m of
        None \<Rightarrow> m
      | Some s \<Rightarrow>
          (let m1 = m\<lparr>transport_server := Some (server_put (me_id E peer) peer s)\<rparr>
           in if ts_msg_cb s then serverOnMessage E (me_id E peer) message m1 else m1))"

definition server_sendSessionMessage :: "menv \<Rightarrow> nat \<Rightarrow> string \<Rightarrow> mchan \<Rightarrow> mchan" where
  "server_sendSessionMessage E peer message m =
     (case transport_server m of
        None \<Rightarrow> m
      | Some s \<Rightarrow>
          (let m1 = m\<lparr>transport_server := Some (server_put (me_id E peer) peer s)\<rparr>
           in if ts_session_cb s then sessionOnMessage E (me_id E peer) message m1 else m1))"

definition serverReply :: "int \<Rightarrow> string \<Rightarrow> mchan \<Rightarrow> mchan" where
  "serverReply rid message m =
     (case transport_server m of
        None \<Rightarrow> m
      | Some s \<Rightarrow>
          (case map_of (reply_map s) rid of
             None \<Rightarrow> m
           | Some peer \<Rightarrow>
               log (OReplyTo peer message) (m\<lparr>transport_server := Some (s\<lparr>reply_map := omap_del rid (reply_map s)\<rparr>)\<rparr>)))"

definition server_sessionSend :: "int \<Rightarrow> string \<Rightarrow> mchan \<Rightarrow> mchan" where
  "server_sessionSend sid message m =
     (case transport_server m of
        None \<Rightarrow> m
      | Some s \<Rightarrow> (case map_of (reply_map s) sid of None \<Rightarrow> m | Some peer \<Rightarrow> log (OReplyTo peer message) m))"

definition server_sessionClose :: "int \<Rightarrow> mchan \<Rightarrow> mchan" where
  "server_sessionClose sid m =
     (case transport_server m of
        None \<Rightarrow> m
      | Some s \<Rightarrow>
          (case map_of (reply_map s) sid of
             None \<Rightarrow> m
           | Some peer \<Rightarrow>
               (log (OCloseTo peer) m)\<lparr>transport_server := Some (s\<lparr>reply_map := omap_del sid (reply_map s)\<rparr>)\<rparr>))"

definition server_haveSessionId :: "int \<Rightarrow> mchan \<Rightarrow> bool" where
  "server_haveSessionId sid m \<longleftrightarrow>
     (case transport_server m of None \<Rightarrow> False | Some s \<Rightarrow> map_of (reply_map s) sid \<noteq> None)"

definition helper_registerServer :: "string \<Rightarrow> mchan \<Rightarrow> mchan" where
  "helper_registerServer name m =
     (if transport_server m = None
      then (log (OAddService name) m)\<lparr>transport_server := Some \<lparr>reply_map = [], ts_msg_cb = False, ts_session_cb = False\<rparr>\<rparr>
      else m)"

section \<open>Operations of the channel\<close>

definition sendBroadcast :: "string \<Rightarrow> string \<Rightarrow> mchan \<Rightarrow> mchan" where
  "sendBroadcast action body m = log (OBroadcast action body) m"

definition registerReceiver :: "string \<Rightarrow> int \<Rightarrow> mchan \<Rightarrow> mchan" where
  "registerReceiver action cb m =
     (let m1 = (if map_of (action_cb_map m) action = None then conn_registerReceiver action m else m);
          ids = (case map_of (action_cb_map m1) action of None \<Rightarrow> [] | Some v \<Rightarrow> v)
      in m1\<lparr>action_cb_map := omap_put action (ids @ [cb]) (action_cb_map m1)\<rparr>)"

definition unregisterReceiver :: "string \<Rightarrow> mchan \<Rightarrow> mchan" where
  "unregisterReceiver action m =
     (case map_of (action_cb_map m) action of
        None \<Rightarrow> m
      | Some ids \<Rightarrow>
          (let m1 = fold mc_remove ids m
           in conn_unregisterReceiver action (m1\<lparr>action_cb_map := omap_del action (action_cb_map m1)\<rparr>)))"

definition unregisterReceiverCb :: "string \<Rightarrow> int \<Rightarrow> mchan \<Rightarrow> mchan" where
  "unregisterReceiverCb action cb m =
     (case map_of (action_cb_map m) action of
        None \<Rightarrow> m
      | Some ids \<Rightarrow>
          (let m1 = (if cb \<in> set ids then mc_remove cb m else m);
               ids' = remove1 cb ids
           in if ids' = [] then conn_unregisterReceiver action (m1\<lparr>action_cb_map := omap_del action (action_cb_map m1)\<rparr>)
              else m1\<lparr>action_cb_map := omap_put action ids' (action_cb_map m1)\<rparr>))"

definition sessionClose :: "menv \<Rightarrow> int \<Rightarrow> mchan \<Rightarrow> mchan" where
  "sessionClose E sid m =
     (if conn_haveSessionId sid m then conn_sessionClose E sid m
      else if mc_server_set m \<and> server_haveSessionId sid m then server_sessionClose sid m else m)"

definition sessionSend :: "menv \<Rightarrow> int \<Rightarrow> string \<Rightarrow> mchan \<Rightarrow> mchan" where
  "sessionSend E sid msg m =
     (if conn_haveSessionId sid m then conn_sessionSend E sid msg m
      else if mc_server_set m \<and> server_haveSessionId sid m then server_sessionSend sid msg m else m)"

definition sessionOnData :: "int \<Rightarrow> int \<Rightarrow> mchan \<Rightarrow> mchan" where
  "sessionOnData sid cb m = m\<lparr>session_ondata_cb_map := omap_put sid cb (session_ondata_cb_map m)\<rparr>"

definition sessionOnClose :: "int \<Rightarrow> int \<Rightarrow> mchan \<Rightarrow> mchan" where
  "sessionOnClose sid cb m = m\<lparr>session_onclose_cb_map := omap_put sid cb (session_onclose_cb_map m)\<rparr>"

definition reply :: "int \<Rightarrow> string \<Rightarrow> mchan \<Rightarrow> mchan" where
  "reply rid msg m = (if mc_server_set m then serverReply rid msg m else m)"

definition registerServer :: "string \<Rightarrow> mchan \<Rightarrow> mchan" where
  "registerServer name m =
     (let m1 = helper_registerServer name m
      in m1\<lparr>mc_server_set := True,
            transport_server := map_option (\<lambda>s. s\<lparr>ts_msg_cb := True, ts_session_cb := True\<rparr>) (transport_server m1)\<rparr>)"

section \<open>For C clients\<close>

definition sendMessageForC :: "menv \<Rightarrow> nat \<Rightarrow> string \<Rightarrow> string \<Rightarrow> nat \<Rightarrow> nat \<Rightarrow> mchan \<Rightarrow> (int \<times> mchan) option" where
  "sendMessageForC E a target msg cb user m =
     (let i = me_id E cb
      in conn_sendMessage E a target msg i
           (if map_of (request_map m) i = None then m\<lparr>request_map := omap_put i (cb, user) (request_map m)\<rparr> else m))"

definition setReceiveRequestCallbackForC :: "menv \<Rightarrow> nat \<Rightarrow> nat \<Rightarrow> mchan \<Rightarrow> mchan" where
  "setReceiveRequestCallbackForC E cb user m =
     m\<lparr>service_msg_map := (cb, user), message_server_recv_cb := me_id E cb\<rparr>"

definition registerReceiverForC :: "menv \<Rightarrow> string \<Rightarrow> nat \<Rightarrow> nat \<Rightarrow> mchan \<Rightarrow> mchan" where
  "registerReceiverForC E action cb user m =
     (let i = me_id E cb
      in registerReceiver action i
           (if map_of (subscribe_map m) i = None then m\<lparr>subscribe_map := omap_put i (cb, user) (subscribe_map m)\<rparr> else m))"

text \<open>\<open>action_cb_map[action]\<close> after the entry has been erased makes a new, empty one.\<close>

definition unregisterReceiverForC :: "string \<Rightarrow> mchan \<Rightarrow> mchan" where
  "unregisterReceiverForC action m =
     (let m1 = unregisterReceiver action m
      in case map_of (action_cb_map m1) action of
           None \<Rightarrow> m1\<lparr>action_cb_map := omap_put action [] (action_cb_map m1)\<rparr>
         | Some ids \<Rightarrow> m1\<lparr>subscribe_map := fold omap_del ids (subscribe_map m1)\<rparr>)"

section \<open>The script interface\<close>

definition wrap_sendMessage :: "menv \<Rightarrow> nat \<Rightarrow> int \<Rightarrow> string \<Rightarrow> string \<Rightarrow> mchan \<Rightarrow> mchan option" where
  "wrap_sendMessage E a pid target body m =
     (case conn_sendMessage E a target body pid m of
        None \<Rightarrow> None
      | Some (res, m1) \<Rightarrow> Some (if res = - 1 then mc_reject pid ''native sendMessage Failed'' m1 else m1))"

definition wrap_createSession :: "menv \<Rightarrow> int \<Rightarrow> string \<Rightarrow> mchan \<Rightarrow> mchan" where
  "wrap_createSession E pid target m =
     (let (res, m1) = conn_createSession E target m
      in if res \<noteq> - 1 then log (OSession pid res) (mc_resolve E pid (nint res) m1) else mc_reject pid ''native createSession Failed'' m1)"

definition wrap_setReceiveRequestCallback :: "string \<Rightarrow> int \<Rightarrow> mchan \<Rightarrow> mchan" where
  "wrap_setReceiveRequestCallback name cb m = registerServer name (m\<lparr>message_server_recv_cb := cb\<rparr>)"

definition wrap_sessionOnReceive :: "string \<Rightarrow> int \<Rightarrow> mchan \<Rightarrow> mchan" where
  "wrap_sessionOnReceive name cb m = registerServer name (m\<lparr>session_server_recv_cb := cb\<rparr>)"

section \<open>The end of a channel\<close>

fun drop_receivers :: "(string \<times> int list) list \<Rightarrow> mchan \<Rightarrow> mchan" where
  "drop_receivers [] m = m"
| "drop_receivers ((action, ids) # rest) m = drop_receivers rest (fold mc_remove ids (conn_unregisterReceiver action m))"

definition delete_connection :: "mchan \<Rightarrow> mchan" where
  "delete_connection m =
     m\<lparr>mc_replies := fold (\<lambda>i rs. rs[i := (rs ! i)\<lparr>sr_chan := False, sr_conn := False\<rparr>]) (ovals (session_reply_map m)) (mc_replies m),
       mc_receivers := fold (\<lambda>i rs. rs[i := False]) (ovals (broadcast_reply m)) (mc_receivers m)\<rparr>"

definition delete_channel :: "mchan \<Rightarrow> mchan" where
  "delete_channel m =
     (let m1 = delete_connection (clearTimer (drop_receivers (action_cb_map m) m));
          m2 = (if mc_server_set m1
                then m1\<lparr>transport_server := map_option (\<lambda>s. s\<lparr>ts_msg_cb := False, ts_session_cb := False\<rparr>) (transport_server m1)\<rparr>
                else m1);
          m3 = (if message_server_recv_cb m2 \<noteq> - 1 then mc_remove (message_server_recv_cb m2) m2 else m2);
          m4 = (if session_server_recv_cb m3 \<noteq> - 1 then mc_remove (session_server_recv_cb m3) m3 else m3);
          m5 = fold mc_remove (ovals (session_ondata_cb_map m4)) m4
      in (fold mc_remove (ovals (session_onclose_cb_map m5)) m5)\<lparr>mc_dead := True\<rparr>)"

end
