(* ===== verification/MessagingFacts.thy ===== *)
theory MessagingFacts
  imports Messaging
begin

text \<open>
  The message channel as a transition system: calls from the script, replies, timers, broadcasts and messages of peers
  in any order, and the end of the channel. \<open>minv\<close> is its invariant: every request is on the
  board and answered as often as its task is done, every reply object a peer may still use
  is cut off when the channel ends, and the receivers registered with the activity manager are those of the topics
  with callbacks.
\<close>

section \<open>Steps\<close>

datatype mop =
    MSend nat int string string
  | MReply nat string
  | MTimer nat
  | MCreateSession int string
  | MSessionSend int string
  | MSessionClose int
  | MSessionOnData int int
  | MSessionOnClose int int
  | MPeerSessionReply nat string
  | MPeerSessionClose nat
  | MRegister string int
  | MUnregister string
  | MUnregisterCb string int
  | MBroadcast string string
  | MReceive nat string string
  | MSetRequestCallback string int
  | MSetSessionCallback string int
  | MServerMessage nat string
  | MServerSessionMessage nat string
  | MAnswer int string
  | MDestroy

fun mstep :: "menv \<Rightarrow> mop \<Rightarrow> mchan \<Rightarrow> mchan option" where
  "mstep E (MSend a pid target body) m = wrap_sendMessage E a pid target body m"
| "mstep E (MReply i text) m = onReply E i text m"
| "mstep E (MTimer i) m = timerFires i m"
| "mstep E (MCreateSession pid target) m = Some (wrap_createSession E pid target m)"
| "mstep E (MSessionSend sid msg) m = Some (sessionSend E sid msg m)"
| "mstep E (MSessionClose sid) m = Some (sessionClose E sid m)"
| "mstep E (MSessionOnData sid cb) m = Some (sessionOnData sid cb m)"
| "mstep E (MSessionOnClose sid cb) m = Some (sessionOnClose sid cb m)"
| "mstep E (MPeerSessionReply i text) m = session_onReply E i text m"
| "mstep E (MPeerSessionClose i) m = onSessionClose E i m"
| "mstep E (MRegister action cb) m = Some (registerReceiver action cb m)"
| "mstep E (MUnregister action) m = Some (unregisterReceiver action m)"
| "mstep E (MUnregisterCb action cb) m = Some (unregisterReceiverCb action cb m)"
| "mstep E (MBroadcast action body) m = Some (sendBroadcast action body m)"
| "mstep E (MReceive r action text) m = receiver_onReceive E r action text m"
| "mstep E (MSetRequestCallback name cb) m = Some (wrap_setReceiveRequestCallback name cb m)"
| "mstep E (MSetSessionCallback name cb) m = Some (wrap_sessionOnReceive name cb m)"
| "mstep E (MServerMessage peer text) m = Some (server_sendMessage E peer text m)"
| "mstep E (MServerSessionMessage peer text) m = Some (server_sendSessionMessage E peer text m)"
| "mstep E (MAnswer rid text) m = Some (reply rid text m)"
| "mstep E MDestroy m = Some (delete_channel m)"

text \<open>
  What the outside may do: scripts call a living channel; peers, timers and the activity manager act on objects that exist,
  timers only while they run, and a peer does not use a session's reply object after it has closed the session
  (\<open>C\<close>: the closed ones).
\<close>

fun menabled :: "nat set \<Rightarrow> mop \<Rightarrow> mchan \<Rightarrow> bool" where
  "menabled C (MReply i text) m = (i < length (mc_tasks m))"
| "menabled C (MTimer i) m = (i < length (mc_tasks m) \<and> tk_timer (mc_tasks m ! i))"
| "menabled C (MPeerSessionReply i text) m = (i < length (mc_replies m) \<and> i \<notin> C)"
| "menabled C (MPeerSessionClose i) m = (i < length (mc_replies m) \<and> i \<notin> C)"
| "menabled C (MReceive r action text) m = (r < length (mc_receivers m))"
| "menabled C (MServerMessage peer text) m = True"
| "menabled C (MServerSessionMessage peer text) m = True"
| "menabled C _ m = (\<not> mc_dead m)"

fun mclosed :: "mop \<Rightarrow> nat set \<Rightarrow> nat set" where
  "mclosed (MPeerSessionClose i) C = insert i C"
| "mclosed _ C = C"

fun mrun :: "menv \<Rightarrow> mop list \<Rightarrow> nat set \<Rightarrow> mchan \<Rightarrow> mchan option" where
  "mrun E [] C m = Some m"
| "mrun E (p # ps) C m = (case mstep E p m of None \<Rightarrow> None | Some m' \<Rightarrow> mrun E ps (mclosed p C) m')"

fun mrun_enabled :: "menv \<Rightarrow> mop list \<Rightarrow> nat set \<Rightarrow> mchan \<Rightarrow> bool" where
  "mrun_enabled E [] C m = True"
| "mrun_enabled E (p # ps) C m =
     (menabled C p m \<and> (case mstep E p m of None \<Rightarrow> True | Some m' \<Rightarrow> mrun_enabled E ps (mclosed p C) m'))"

section \<open>The invariant\<close>

fun answer_of :: "mout \<Rightarrow> int option" where
  "answer_of (OResolve pid text) = Some pid"
| "answer_of (OReject pid text) = (if text = ''reply timeout'' then Some pid else None)"
| "answer_of _ = None"

definition answers :: "int \<Rightarrow> mchan \<Rightarrow> nat" where
  "answers pid m = length (filter (\<lambda>x. answer_of x = Some pid) (mc_out m))"

definition settled :: "int \<Rightarrow> mchan \<Rightarrow> nat" where
  "settled pid m = length (filter (\<lambda>t. tk_done t \<and> tk_pid t = pid) (mc_tasks m))"

definition tasks_inv :: "mchan \<Rightarrow> bool" where
  "tasks_inv m \<longleftrightarrow> mc_h m \<noteq> None \<and> mc_loop m \<and> (\<forall>pid. answers pid m = settled pid m) \<and>
     (if mc_dead m then \<forall>t \<in> set (mc_tasks m). \<not> tk_chan t \<and> \<not> tk_conn t \<and> \<not> tk_timer t
      else task_list m = [0..<length (mc_tasks m)] \<and>
        (\<forall>t \<in> set (mc_tasks m). tk_chan t \<and> tk_conn t \<and> (tk_done t \<or> tk_timer t)))"

definition replies_inv :: "nat set \<Rightarrow> mchan \<Rightarrow> bool" where
  "replies_inv C m \<longleftrightarrow> (\<forall>i \<in> C. i < length (mc_replies m)) \<and>
     (if mc_dead m then \<forall>i < length (mc_replies m). i \<notin> C \<longrightarrow> \<not> sr_chan (mc_replies m ! i) \<and> \<not> sr_conn (mc_replies m ! i)
      else omap_ok (session_reply_map m) \<and> (\<forall>r \<in> set (mc_replies m). sr_chan r \<and> sr_conn r) \<and>
        (\<forall>i < length (mc_replies m). i \<notin> C \<longrightarrow> map_of (session_reply_map m) (sr_id (mc_replies m ! i)) = Some i) \<and>
        (\<forall>k i. map_of (session_reply_map m) k = Some i \<longrightarrow>
           i < length (mc_replies m) \<and> i \<notin> C \<and> sr_id (mc_replies m ! i) = k))"

definition receivers_inv :: "mchan \<Rightarrow> bool" where
  "receivers_inv m \<longleftrightarrow>
     (if mc_dead m then True \<notin> set (mc_receivers m)
      else omap_ok (broadcast_reply m) \<and> omap_ok (action_cb_map m) \<and> okeys (broadcast_reply m) = okeys (action_cb_map m) \<and>
        (\<forall>r < length (mc_receivers m). mc_receivers m ! r \<longrightarrow> (\<exists>k. map_of (broadcast_reply m) k = Some r)))"

definition minv :: "nat set \<Rightarrow> mchan \<Rightarrow> bool" where
  "minv C m \<longleftrightarrow> tasks_inv m \<and> replies_inv C m \<and> receivers_inv m"

text \<open>The part of the state the invariant speaks of.\<close>

definition core where
  "core m = (mc_tasks m, task_list m, mc_replies m, session_reply_map m, broadcast_reply m, action_cb_map m,
     mc_receivers m, mc_dead m, mc_loop m, mc_h m = None, filter (\<lambda>x. answer_of x \<noteq> None) (mc_out m))"

lemma answers_core: "answers pid m = length (filter (\<lambda>x. answer_of x = Some pid) (filter (\<lambda>x. answer_of x \<noteq> None) (mc_out m)))"
  by (auto simp: answers_def intro!: arg_cong [of _ _ length] filter_cong)

lemma minv_core: "core m' = core m \<Longrightarrow> minv C m' = minv C m"
  unfolding minv_def tasks_inv_def replies_inv_def receivers_inv_def answers_core settled_def core_def prod.inject
  by auto

lemma minv_coreI: "minv C m \<Longrightarrow> core m' = core m \<Longrightarrow> minv C m'"
  using minv_core by blast

section \<open>Operations that leave the core alone\<close>

lemma core_log [simp]: "answer_of x = None \<Longrightarrow> core (log x m) = core m"
  by (simp add: core_def log_def)

lemma core_invoke [simp]: "core (snd (mc_invoke E cid ap m)) = core m"
  by (auto simp: mc_invoke_def core_def log_def split: prod.splits)

lemma core_remove [simp]: "core (mc_remove cid m) = core m"
  by (auto simp: mc_remove_def core_def FeatureRemoveCallback_def Let_def usable_def split: prod.splits option.splits)

lemma core_resolve [simp]: "core (mc_resolve E pid v m) = core m"
  by (auto simp: mc_resolve_def core_def FeaturePromiseResolve_def Let_def usable_def split: prod.splits option.splits)

lemma core_reject: "text \<noteq> ''reply timeout'' \<Longrightarrow> core (mc_reject pid text m) = core m"
  by (auto simp: mc_reject_def core_def log_def FeaturePromiseReject_def Let_def usable_def split: prod.splits option.splits)

lemma core_fold_remove [simp]: "core (fold mc_remove ids m) = core m"
  by (induction ids arbitrary: m) simp_all

lemma core_upd [simp]:
  "core (m\<lparr>session_ondata_cb_map := a\<rparr>) = core m"
  "core (m\<lparr>session_onclose_cb_map := a\<rparr>) = core m"
  "core (m\<lparr>session_client_map := b\<rparr>) = core m"
  "core (m\<lparr>transport_server := c\<rparr>) = core m"
  "core (m\<lparr>message_server_recv_cb := d\<rparr>) = core m"
  "core (m\<lparr>session_server_recv_cb := d\<rparr>) = core m"
  "core (m\<lparr>mc_server_set := f\<rparr>) = core m"
  by (simp_all add: core_def)

lemma core_invoke_pair: "mc_invoke E cid ap m = (ok, m') \<Longrightarrow> core m' = core m"
  using core_invoke [of E cid ap m] by simp

lemma core_handlers [simp]:
  "core (serverOnMessage E rid text m) = core m"
  "core (sessionOnMessage E sid text m) = core m"
  "core (clientOnSessionMessage E sid text m) = core m"
  "core (clientOnSessionCloseByself E sid flag m) = core m"
  by (auto simp: serverOnMessage_def sessionOnMessage_def clientOnSessionMessage_def clientOnSessionCloseByself_def Let_def
      dest: core_invoke_pair split: option.splits prod.splits)

lemma core_close_bypeer [simp]: "core (clientOnSessionCloseBypeer E sid flag m) = core m"
proof -
  let ?p = "case map_of (session_onclose_cb_map m) sid of None \<Rightarrow> (True, m)
    | Some cb \<Rightarrow> (let (ok, m1) = mc_invoke E cb [nint flag] m
        in if \<not> ok then (False, m1)
           else (let m2 = mc_remove cb m1 in (True, m2\<lparr>session_onclose_cb_map := omap_del sid (session_onclose_cb_map m2)\<rparr>)))"
  have "core (snd ?p) = core m"
    by (auto simp: Let_def dest: core_invoke_pair split: option.splits prod.splits)
  then show ?thesis
    unfolding clientOnSessionCloseBypeer_def
    by (cases ?p) (auto simp: Let_def split: option.splits)
qed

lemma core_invoke_all [simp]: "core (invoke_all E action text cbs m) = core m"
  by (induction cbs arbitrary: m) (auto simp: Let_def dest: core_invoke_pair split: prod.splits)

lemma core_server_ops [simp]:
  "core (server_sendMessage E peer text m) = core m"
  "core (server_sendSessionMessage E peer text m) = core m"
  "core (serverReply rid text m) = core m"
  "core (server_sessionSend sid text m) = core m"
  "core (server_sessionClose sid m) = core m"
  "core (helper_registerServer name m) = core m"
  by (auto simp: server_sendMessage_def server_sendSessionMessage_def serverReply_def server_sessionSend_def
      server_sessionClose_def helper_registerServer_def Let_def split: option.splits)

lemma core_channel_ops [simp]:
  "core (registerServer name m) = core m"
  "core (reply rid text m) = core m"
  "core (sendBroadcast action body m) = core m"
  "core (sessionOnData sid cb m) = core m"
  "core (sessionOnClose sid cb m) = core m"
  "core (conn_sessionClose E sid m) = core m"
  "core (sessionClose E sid m) = core m"
  "core (snd (conn_createSession E target m)) = core m"
  "core (eraseSessionClient sid m) = core m"
  by (auto simp: registerServer_def reply_def sendBroadcast_def sessionOnData_def sessionOnClose_def conn_sessionClose_def
      sessionClose_def conn_createSession_def eraseSessionClient_def Let_def split: option.splits)

lemma core_wraps [simp]:
  "core (wrap_createSession E pid target m) = core m"
  "core (wrap_setReceiveRequestCallback name cb m) = core m"
  "core (wrap_sessionOnReceive name cb m) = core m"
proof -
  obtain r m1 where c: "conn_createSession E target m = (r, m1)" by (cases "conn_createSession E target m")
  then have "core m1 = core m" using core_channel_ops(8) [of E target m] by simp
  then show "core (wrap_createSession E pid target m) = core m"
    by (simp add: wrap_createSession_def c core_reject)
qed (simp_all add: wrap_setReceiveRequestCallback_def wrap_sessionOnReceive_def)

section \<open>The board\<close>

lemma length_filter_update:
  "i < length xs \<Longrightarrow> length (filter P (xs[i := y])) + (if P (xs ! i) then 1 else 0) =
     length (filter P xs) + (if P y then 1 else 0)"
proof (induction xs arbitrary: i)
  case (Cons x xs)
  then show ?case by (cases i) (auto simp: add_ac)
qed simp

text \<open>\<open>frame m m'\<close>: the same channel but for its tasks, the instance, the world and the log.\<close>

definition frame :: "mchan \<Rightarrow> mchan \<Rightarrow> bool" where
  "frame m m' \<longleftrightarrow> task_list m' = task_list m \<and> mc_replies m' = mc_replies m \<and> session_reply_map m' = session_reply_map m \<and>
     broadcast_reply m' = broadcast_reply m \<and> action_cb_map m' = action_cb_map m \<and> mc_receivers m' = mc_receivers m \<and>
     mc_dead m' = mc_dead m \<and> mc_loop m' = mc_loop m \<and> (mc_h m' = None \<longleftrightarrow> mc_h m = None) \<and>
     map (\<lambda>t. (tk_pid t, tk_id t, tk_chan t, tk_conn t)) (mc_tasks m') = map (\<lambda>t. (tk_pid t, tk_id t, tk_chan t, tk_conn t)) (mc_tasks m)"

lemma frame_refl [simp]: "frame m m"
  by (simp add: frame_def)

lemma frame_trans: "frame m m' \<Longrightarrow> frame m' m'' \<Longrightarrow> frame m m''"
  by (auto simp: frame_def)

lemma frame_length: "frame m m' \<Longrightarrow> length (mc_tasks m') = length (mc_tasks m)"
  by (metis (no_types, lifting) frame_def length_map)

lemma frame_task:
  assumes "frame m m'" "i < length (mc_tasks m)"
  shows "tk_pid (mc_tasks m' ! i) = tk_pid (mc_tasks m ! i)" "tk_id (mc_tasks m' ! i) = tk_id (mc_tasks m ! i)"
    "tk_chan (mc_tasks m' ! i) = tk_chan (mc_tasks m ! i)" "tk_conn (mc_tasks m' ! i) = tk_conn (mc_tasks m ! i)"
proof -
  have "map (\<lambda>t. (tk_pid t, tk_id t, tk_chan t, tk_conn t)) (mc_tasks m') ! i =
      map (\<lambda>t. (tk_pid t, tk_id t, tk_chan t, tk_conn t)) (mc_tasks m) ! i"
    using assms(1) by (simp add: frame_def)
  then show "tk_pid (mc_tasks m' ! i) = tk_pid (mc_tasks m ! i)" "tk_id (mc_tasks m' ! i) = tk_id (mc_tasks m ! i)"
    "tk_chan (mc_tasks m' ! i) = tk_chan (mc_tasks m ! i)" "tk_conn (mc_tasks m' ! i) = tk_conn (mc_tasks m ! i)"
    using assms(2) frame_length [OF assms(1)] by auto
qed

definition board :: "mchan \<Rightarrow> bool" where
  "board m \<longleftrightarrow> mc_h m \<noteq> None \<and> (\<forall>pid. answers pid m = settled pid m) \<and>
     (\<forall>t \<in> set (mc_tasks m). tk_chan t \<and> tk_conn t \<and> (tk_done t \<or> tk_timer t))"

lemma frame_upd_task:
  assumes "tk_pid t' = tk_pid (mc_tasks m ! i)" "tk_id t' = tk_id (mc_tasks m ! i)" "tk_chan t' = tk_chan (mc_tasks m ! i)"
    "tk_conn t' = tk_conn (mc_tasks m ! i)"
  shows "frame m (m\<lparr>mc_tasks := (mc_tasks m)[i := t']\<rparr>)"
proof -
  let ?f = "\<lambda>t. (tk_pid t, tk_id t, tk_chan t, tk_conn t)"
  have "map ?f ((mc_tasks m)[i := t']) = map ?f (mc_tasks m)"
  proof (cases "i < length (mc_tasks m)")
    case True
    then have "map ?f ((mc_tasks m)[i := t']) = (map ?f (mc_tasks m))[i := map ?f (mc_tasks m) ! i]"
      using assms by (simp add: map_update)
    then show ?thesis by simp
  qed (simp add: list_update_beyond)
  then show ?thesis by (simp add: frame_def)
qed

lemma stopTimer_done:
  assumes "board m" "i < length (mc_tasks m)" "tk_done (mc_tasks m ! i)"
  shows "board (stopTimer i m)" "frame m (stopTimer i m)" "mc_out (stopTimer i m) = mc_out m"
    "\<And>j. tk_done (mc_tasks (stopTimer i m) ! j) = tk_done (mc_tasks m ! j)"
proof -
  let ?t = "mc_tasks m ! i"
  have s: "settled pid (stopTimer i m) = settled pid m" for pid
    using length_filter_update [OF assms(2), of "\<lambda>t. tk_done t \<and> tk_pid t = pid" "?t\<lparr>tk_timer := False\<rparr>"]
    by (simp add: settled_def stopTimer_def split: if_splits)
  have t: "?t \<in> set (mc_tasks m)" using assms(2) by simp
  show "board (stopTimer i m)"
    using assms(1,3) t s set_update_subset_insert [of "mc_tasks m" i "?t\<lparr>tk_timer := False\<rparr>"]
    by (auto simp: board_def stopTimer_def answers_def)
  show "frame m (stopTimer i m)" unfolding stopTimer_def by (rule frame_upd_task) simp_all
  show "mc_out (stopTimer i m) = mc_out m" by (simp add: stopTimer_def)
  show "tk_done (mc_tasks (stopTimer i m) ! j) = tk_done (mc_tasks m ! j)" for j
    using assms(2) by (cases "i = j") (simp_all add: stopTimer_def)
qed

lemma core_frame: "core m' = core m \<Longrightarrow> frame m m'"
  by (simp add: core_def frame_def)

lemma core_board: "core m' = core m \<Longrightarrow> board m' = board m"
  by (simp add: core_def board_def answers_core settled_def)

lemma core_tasks: "core m' = core m \<Longrightarrow> mc_tasks m' = mc_tasks m"
  by (simp add: core_def)

text \<open>Marking a waiting task done together with its answer.\<close>

lemma settle:
  assumes "board m" "i < length (mc_tasks m)" "\<not> tk_done (mc_tasks m ! i)" "answer_of x = Some (tk_pid (mc_tasks m ! i))"
    "core m1 = core (m\<lparr>mc_tasks := (mc_tasks m)[i := (mc_tasks m ! i)\<lparr>tk_done := True\<rparr>]\<rparr>)"
  shows "board (log x m1)" "frame m (log x m1)" "tk_done (mc_tasks (log x m1) ! i)"
    "\<And>j. j \<noteq> i \<Longrightarrow> tk_done (mc_tasks (log x m1) ! j) = tk_done (mc_tasks m ! j)"
proof -
  let ?t = "mc_tasks m ! i"
  let ?m = "m\<lparr>mc_tasks := (mc_tasks m)[i := ?t\<lparr>tk_done := True\<rparr>]\<rparr>"
  have h: "mc_h (log x m1) \<noteq> None" using assms(1,5) by (auto simp: core_def board_def log_def)
  have ts: "mc_tasks (log x m1) = (mc_tasks m)[i := ?t\<lparr>tk_done := True\<rparr>]" using core_tasks [OF assms(5)] by (simp add: log_def)
  have a: "answers pid (log x m1) = answers pid m + (if tk_pid ?t = pid then 1 else 0)" for pid
    using assms(4,5) by (simp add: answers_core log_def core_def)
  have s: "settled pid (log x m1) = settled pid m + (if tk_pid ?t = pid then 1 else 0)" for pid
    using length_filter_update [OF assms(2), of "\<lambda>t. tk_done t \<and> tk_pid t = pid" "?t\<lparr>tk_done := True\<rparr>"] assms(3)
    by (simp add: settled_def ts split: if_splits)
  have t: "?t \<in> set (mc_tasks m)" using assms(2) by simp
  show "board (log x m1)"
    using assms(1) h a s t set_update_subset_insert [of "mc_tasks m" i "?t\<lparr>tk_done := True\<rparr>"]
    by (auto simp: board_def ts)
  have "frame m ?m" by (rule frame_upd_task) simp_all
  moreover have "frame ?m m1" using assms(5) by (rule core_frame)
  moreover have "frame m1 (log x m1)" by (simp add: frame_def log_def)
  ultimately show "frame m (log x m1)" by (blast intro: frame_trans)
  show "tk_done (mc_tasks (log x m1) ! i)" using assms(2) by (simp add: ts)
  show "tk_done (mc_tasks (log x m1) ! j) = tk_done (mc_tasks m ! j)" if "j \<noteq> i" for j using that by (simp add: ts)
qed

lemma board_task: "board m \<Longrightarrow> i < length (mc_tasks m) \<Longrightarrow> tk_chan (mc_tasks m ! i) \<and> tk_conn (mc_tasks m ! i) \<and> (tk_done (mc_tasks m ! i) \<or> tk_timer (mc_tasks m ! i))"
  by (simp add: board_def)

lemma doing_settles:
  assumes "board m" "i < length (mc_tasks m)" "\<not> tk_done (mc_tasks m ! i)"
  shows "\<exists>m1. doing E i text m = Some m1 \<and> board m1 \<and> frame m m1 \<and> tk_done (mc_tasks m1 ! i) \<and>
    (\<forall>j. j \<noteq> i \<longrightarrow> tk_done (mc_tasks m1 ! j) = tk_done (mc_tasks m ! j)) \<and>
    mc_out m1 = mc_out m @ [OResolve (tk_pid (mc_tasks m ! i)) text]"
proof -
  let ?m = "m\<lparr>mc_tasks := (mc_tasks m)[i := (mc_tasks m ! i)\<lparr>tk_done := True\<rparr>]\<rparr>"
  let ?m1 = "mc_resolve E (tk_pid (mc_tasks m ! i)) (NStr text) ?m"
  let ?x = "OResolve (tk_pid (mc_tasks m ! i)) text"
  have "mc_h ?m \<noteq> None" using assms(1) by (simp add: board_def)
  then have "doing E i text m = Some (log ?x ?m1)"
    using board_task [OF assms(1,2)] by (simp add: doing_def clientOnMessage_def Let_def)
  moreover have "mc_out ?m1 = mc_out m" by (simp add: mc_resolve_def Let_def split: prod.splits)
  ultimately show ?thesis
    using settle [OF assms, of ?x ?m1] by (simp add: log_def)
qed

text \<open>Running the board on a reply answers every waiting task with the id, and only those.\<close>

definition due :: "mchan \<Rightarrow> int \<Rightarrow> string \<Rightarrow> nat list \<Rightarrow> mout list" where
  "due m rid text is = map (\<lambda>j. OResolve (tk_pid (mc_tasks m ! j)) text)
     (filter (\<lambda>j. \<not> tk_done (mc_tasks m ! j) \<and> tk_id (mc_tasks m ! j) = rid) is)"

lemma due_frame:
  assumes "frame m m'" "\<forall>j \<in> set is. j < length (mc_tasks m) \<and> tk_done (mc_tasks m' ! j) = tk_done (mc_tasks m ! j)"
  shows "due m' rid text is = due m rid text is"
proof -
  have ids: "tk_id (mc_tasks m' ! j) = tk_id (mc_tasks m ! j)" "tk_pid (mc_tasks m' ! j) = tk_pid (mc_tasks m ! j)"
    if "j \<in> set is" for j using frame_task [OF assms(1)] assms(2) that by simp_all
  have "filter (\<lambda>j. \<not> tk_done (mc_tasks m' ! j) \<and> tk_id (mc_tasks m' ! j) = rid) is =
      filter (\<lambda>j. \<not> tk_done (mc_tasks m ! j) \<and> tk_id (mc_tasks m ! j) = rid) is"
    using assms(2) ids by (intro filter_cong) auto
  then show ?thesis unfolding due_def using ids by (auto intro!: map_cong)
qed

definition answered :: "mchan \<Rightarrow> int \<Rightarrow> nat list \<Rightarrow> mchan \<Rightarrow> bool" where
  "answered m rid is m1 \<longleftrightarrow> board m1 \<and> frame m m1 \<and>
     (\<forall>j < length (mc_tasks m). tk_done (mc_tasks m1 ! j) \<longleftrightarrow> tk_done (mc_tasks m ! j) \<or> j \<in> set is \<and> tk_id (mc_tasks m ! j) = rid)"

text \<open>The rest of the board runs on a state \<open>m0\<close> in which the head of the list is dealt with.\<close>

lemma answered_step:
  assumes "frame m m0" "answered m0 rid is m1" "i \<notin> set is"
    "\<And>j. j \<noteq> i \<Longrightarrow> tk_done (mc_tasks m0 ! j) = tk_done (mc_tasks m ! j)"
    "tk_done (mc_tasks m0 ! i) \<longleftrightarrow> tk_done (mc_tasks m ! i) \<or> tk_id (mc_tasks m ! i) = rid"
  shows "answered m rid (i # is) m1"
  unfolding answered_def
proof (intro conjI allI impI)
  show "board m1" "frame m m1" using assms(1,2) by (auto simp: answered_def intro: frame_trans)
  fix j assume j: "j < length (mc_tasks m)"
  then have "tk_done (mc_tasks m1 ! j) \<longleftrightarrow> tk_done (mc_tasks m0 ! j) \<or> j \<in> set is \<and> tk_id (mc_tasks m ! j) = rid"
    using assms(2) frame_length [OF assms(1)] frame_task(2) [OF assms(1) j] by (simp add: answered_def)
  then show "tk_done (mc_tasks m1 ! j) \<longleftrightarrow> tk_done (mc_tasks m ! j) \<or> j \<in> set (i # is) \<and> tk_id (mc_tasks m ! j) = rid"
    using assms(3-5) by (cases "j = i") auto
qed

lemma executeTask_spec:
  assumes "board m" "distinct is" "set is \<subseteq> {..<length (mc_tasks m)}"
  shows "\<exists>rest m1. executeTask E rid text is m = Some (rest, m1) \<and> answered m rid is m1 \<and>
    mc_out m1 = mc_out m @ due m rid text is"
  using assms
proof (induction "is" arbitrary: m)
  case Nil
  then show ?case by (simp add: answered_def due_def)
next
  case (Cons i "is")
  have i: "i < length (mc_tasks m)" "i \<notin> set is" using Cons.prems(2,3) by simp_all
  have go: "\<exists>rest m1. executeTask E rid text is m0 = Some (rest, m1) \<and> answered m rid (i # is) m1 \<and>
      mc_out m1 = mc_out m0 @ due m rid text is"
    if m0: "board m0" "frame m m0" "\<And>j. j \<noteq> i \<Longrightarrow> tk_done (mc_tasks m0 ! j) = tk_done (mc_tasks m ! j)"
      "tk_done (mc_tasks m0 ! i) \<longleftrightarrow> tk_done (mc_tasks m ! i) \<or> tk_id (mc_tasks m ! i) = rid" for m0
  proof -
    have "j \<noteq> i" if "j \<in> set is" for j using that i(2) by blast
    then have "due m0 rid text is = due m rid text is"
      using Cons.prems(3) m0(3) by (intro due_frame [OF m0(2)]) auto
    then show ?thesis
      using Cons.IH [OF m0(1)] Cons.prems(2,3) frame_length [OF m0(2)] answered_step [OF m0(2) _ i(2) m0(3,4)] by fastforce
  qed
  show ?case
  proof (cases "tk_done (mc_tasks m ! i)")
    case True
    note st = stopTimer_done [OF Cons.prems(1) i(1) True]
    show ?thesis using go [OF st(1,2)] st(3,4) True by (auto simp: due_def)
  next
    case False
    show ?thesis
    proof (cases "tk_id (mc_tasks m ! i) = rid")
      case eq: True
      obtain m0 where m0: "doing E i text m = Some m0" "board m0" "frame m m0" "tk_done (mc_tasks m0 ! i)"
        "\<forall>j. j \<noteq> i \<longrightarrow> tk_done (mc_tasks m0 ! j) = tk_done (mc_tasks m ! j)"
        "mc_out m0 = mc_out m @ [OResolve (tk_pid (mc_tasks m ! i)) text]"
        using doing_settles [OF Cons.prems(1) i(1) False] by blast
      have i0: "i < length (mc_tasks m0)" using i frame_length [OF m0(3)] by simp
      note st = stopTimer_done [OF m0(2) i0 m0(4)]
      show ?thesis using go [OF st(1) frame_trans [OF m0(3) st(2)]] st(3,4) m0 False eq by (auto simp: due_def)
    next
      case neq: False
      then show ?thesis using go [OF Cons.prems(1) frame_refl] False by (auto simp: due_def)
    qed
  qed
qed

section \<open>Every step keeps the invariant\<close>

lemma minv_board: "minv C m \<Longrightarrow> \<not> mc_dead m \<Longrightarrow> board m"
  by (auto simp: minv_def tasks_inv_def board_def)

lemma minv_frame:
  assumes "minv C m" "\<not> mc_dead m" "frame m m'" "board m'"
  shows "minv C m'"
proof -
  have "tasks_inv m'"
    using assms frame_length [OF assms(3)] by (auto simp: minv_def tasks_inv_def board_def frame_def)
  moreover have "replies_inv C m'" "receivers_inv m'"
    using assms(1,3) by (auto simp: minv_def replies_inv_def receivers_inv_def frame_def)
  ultimately show ?thesis by (simp add: minv_def)
qed

lemma onReply_ok:
  assumes "minv C m" "i < length (mc_tasks m)"
  shows "\<exists>m'. onReply E i text m = Some m' \<and> minv C m'"
proof (cases "mc_dead m")
  case True
  then have "\<not> tk_conn (mc_tasks m ! i)" using assms by (simp add: minv_def tasks_inv_def)
  then show ?thesis using assms(1) by (simp add: onReply_def)
next
  case False
  have b: "board m" by (rule minv_board [OF assms(1) False])
  have l: "task_list m = [0..<length (mc_tasks m)]" using assms(1) False by (simp add: minv_def tasks_inv_def)
  then have "distinct (task_list m)" "set (task_list m) \<subseteq> {..<length (mc_tasks m)}" by auto
  then obtain rest m1 where r: "executeTask E (tk_id (mc_tasks m ! i)) text (task_list m) m = Some (rest, m1)"
    "answered m (tk_id (mc_tasks m ! i)) (task_list m) m1"
    using executeTask_spec [OF b] by blast
  then have "minv C m1" using minv_frame [OF assms(1) False] by (simp add: answered_def)
  then show ?thesis using r(1) False board_task [OF b assms(2)] by (simp add: onReply_def)
qed

lemma mc_reject_core:
  "mc_reject pid ''reply timeout'' m = log (OReject pid ''reply timeout'') (let (r, h', w') = FeaturePromiseReject (mc_h m) pid 202 (Some ''reply timeout'') (mc_w m) in m\<lparr>mc_h := h', mc_w := w'\<rparr>)"
  by (simp add: mc_reject_def split: prod.splits)

lemma core_reject_inner:
  "core (let (r, h', w') = FeaturePromiseReject (mc_h m) pid 202 (Some text) (mc_w m) in m\<lparr>mc_h := h', mc_w := w'\<rparr>) = core m"
  by (auto simp: core_def FeaturePromiseReject_def Let_def usable_def split: prod.splits option.splits)

lemma timer_settles:
  assumes "board m" "i < length (mc_tasks m)" "\<not> tk_done (mc_tasks m ! i)" "\<not> mc_dead m"
  shows "\<exists>m'. timerFires i m = Some m' \<and> board m' \<and> frame m m' \<and> tk_done (mc_tasks m' ! i) \<and>
    (\<forall>j. j \<noteq> i \<longrightarrow> tk_done (mc_tasks m' ! j) = tk_done (mc_tasks m ! j)) \<and>
    mc_out m' = mc_out m @ [OReject (tk_pid (mc_tasks m ! i)) ''reply timeout'']"
proof -
  let ?pid = "tk_pid (mc_tasks m ! i)" and ?x = "OReject (tk_pid (mc_tasks m ! i)) ''reply timeout''"
  let ?m = "m\<lparr>mc_tasks := (mc_tasks m)[i := (mc_tasks m ! i)\<lparr>tk_done := True\<rparr>]\<rparr>"
  let ?m1 = "let (r, h', w') = FeaturePromiseReject (mc_h ?m) ?pid 202 (Some ''reply timeout'') (mc_w ?m) in ?m\<lparr>mc_h := h', mc_w := w'\<rparr>"
  have "mc_h ?m \<noteq> None" using assms(1) by (simp add: board_def)
  then have "timerFires i m = Some (log ?x ?m1)"
    using assms(3,4) board_task [OF assms(1,2)] mc_reject_core [of ?pid ?m] by (simp add: timerFires_def clientOnTimeOut_def Let_def)
  moreover have "mc_out ?m1 = mc_out m" by (simp split: prod.splits)
  ultimately show ?thesis
    using settle [OF assms(1-3), of ?x ?m1] core_reject_inner [of ?m] by (simp add: log_def)
qed

lemma timerFires_ok:
  assumes "minv C m" "i < length (mc_tasks m)" "tk_timer (mc_tasks m ! i)"
  shows "\<exists>m'. timerFires i m = Some m' \<and> minv C m'"
proof (cases "tk_done (mc_tasks m ! i)")
  case True
  then show ?thesis using assms(1) by (simp add: timerFires_def Let_def)
next
  case False
  have nd: "\<not> mc_dead m" using assms by (auto simp: minv_def tasks_inv_def)
  show ?thesis using timer_settles [OF minv_board [OF assms(1) nd] assms(2) False nd] minv_frame [OF assms(1) nd] by blast
qed

lemma commitTask_ok:
  assumes "minv C m" "\<not> mc_dead m" "commitTask pid rid m = Some m1"
  shows "minv C m1"
  using assms by (auto simp: minv_def tasks_inv_def replies_inv_def receivers_inv_def commitTask_def answers_def settled_def split: if_splits)

lemma wrap_sendMessage_ok:
  assumes "minv C m" "\<not> mc_dead m"
  shows "\<exists>m'. wrap_sendMessage E a pid target body m = Some m' \<and> minv C m'"
proof (cases "me_getService E target")
  case None
  have "core (mc_reject pid ''native sendMessage Failed'' m) = core m" by (rule core_reject) simp
  then show ?thesis using None minv_coreI [OF assms(1)] by (simp add: wrap_sendMessage_def conn_sendMessage_def)
next
  case (Some service)
  have "mc_loop m" using assms(1) by (simp add: minv_def tasks_inv_def)
  then obtain m1 where m1: "commitTask pid (me_id E a) m = Some m1" by (simp add: commitTask_def)
  let ?m2 = "log (OSend service body (length (mc_tasks m))) m1"
  have m2: "minv C ?m2" by (rule minv_coreI [OF commitTask_ok [OF assms m1]]) simp
  have "core (mc_reject pid ''native sendMessage Failed'' ?m2) = core ?m2" by (rule core_reject) simp
  then show ?thesis using Some m1 m2 minv_coreI [OF m2] by (simp add: wrap_sendMessage_def conn_sendMessage_def)
qed

lemma sessionSend_ok:
  assumes "minv C m" "\<not> mc_dead m"
  shows "minv C (sessionSend E sid msg m)"
proof -
  have inC: "\<forall>i \<in> C. i < length (mc_replies m)" using assms(1) by (simp add: minv_def replies_inv_def)
  have new: "minv C (new_session_reply sid m)" if "map_of (session_reply_map m) sid = None"
  proof -
    let ?n = "length (mc_replies m)" and ?m' = "new_session_reply sid m"
    have rm: "mc_replies ?m' = mc_replies m @ [\<lparr>sr_id = sid, sr_chan = True, sr_conn = True\<rparr>]"
      "session_reply_map ?m' = omap_put sid ?n (session_reply_map m)" "mc_dead ?m' = mc_dead m"
      by (simp_all add: new_session_reply_def)
    have nC: "?n \<notin> C" using inC by blast
    have old: "omap_ok (session_reply_map m) \<and> (\<forall>r \<in> set (mc_replies m). sr_chan r \<and> sr_conn r)"
      "\<And>i. i < ?n \<Longrightarrow> i \<notin> C \<Longrightarrow> map_of (session_reply_map m) (sr_id (mc_replies m ! i)) = Some i"
      "\<And>k i. map_of (session_reply_map m) k = Some i \<Longrightarrow> i < ?n \<and> i \<notin> C \<and> sr_id (mc_replies m ! i) = k"
      using assms(1,2) by (auto simp: minv_def replies_inv_def)
    have look: "map_of (session_reply_map ?m') = (map_of (session_reply_map m))(sid \<mapsto> ?n)" by (simp add: rm)
    have "map_of (session_reply_map ?m') (sr_id (mc_replies ?m' ! i)) = Some i" if "i < length (mc_replies ?m')" "i \<notin> C" for i
      using that old(2) [of i] \<open>map_of (session_reply_map m) sid = None\<close> unfolding look by (cases "i = ?n") (auto simp: rm nth_append)
    moreover have "i < length (mc_replies ?m') \<and> i \<notin> C \<and> sr_id (mc_replies ?m' ! i) = k"
      if "map_of (session_reply_map ?m') k = Some i" for k i
      using that nC old(3) [of k i] unfolding look by (auto simp: rm nth_append split: if_splits)
    moreover have "omap_ok (session_reply_map ?m')" "\<forall>r \<in> set (mc_replies ?m'). sr_chan r \<and> sr_conn r" using old(1) by (simp_all add: rm)
    ultimately have "replies_inv C ?m'" using assms(2) rm(3) inC unfolding replies_inv_def by (simp add: rm(1) less_SucI)
    moreover have "tasks_inv (new_session_reply sid m)" "receivers_inv (new_session_reply sid m)"
      using assms(1) by (auto simp: minv_def tasks_inv_def receivers_inv_def new_session_reply_def answers_def settled_def)
    ultimately show ?thesis by (simp add: minv_def)
  qed
  have "minv C (conn_sessionSend E sid msg m)"
    using assms(1) new by (auto simp: conn_sessionSend_def Let_def minv_core [OF core_log] split: option.splits)
  moreover have "minv C (server_sessionSend sid msg m)" by (rule minv_coreI [OF assms(1)]) simp
  ultimately show ?thesis using assms(1) by (simp add: sessionSend_def)
qed

lemma minv_alive_replies:
  "replies_inv C m \<Longrightarrow> \<not> mc_dead m \<Longrightarrow> replies_inv (insert i C) (eraseSessionReply (sr_id (mc_replies m ! i)) m)"
  if "i < length (mc_replies m)" "i \<notin> C" for i
proof -
  assume r: "replies_inv C m" and nd: "\<not> mc_dead m"
  let ?k = "sr_id (mc_replies m ! i)"
  have mi: "map_of (session_reply_map m) ?k = Some i" using r nd that by (simp add: replies_inv_def)
  have uniq: "sr_id (mc_replies m ! j) \<noteq> ?k" if "j < length (mc_replies m)" "j \<notin> C" "j \<noteq> i" for j
    using r nd that mi unfolding replies_inv_def by (metis option.inject)
  show ?thesis
    using r nd that uniq unfolding replies_inv_def eraseSessionReply_def by auto
qed

lemma onSessionClose_ok:
  assumes "minv C m" "i < length (mc_replies m)" "i \<notin> C"
  shows "\<exists>m'. onSessionClose E i m = Some m' \<and> minv (insert i C) m'"
proof (cases "mc_dead m")
  case True
  then show ?thesis using assms by (auto simp: onSessionClose_def Let_def minv_def replies_inv_def receivers_inv_def tasks_inv_def)
next
  case False
  let ?r = "mc_replies m ! i"
  let ?m1 = "clientOnSessionCloseBypeer E (sr_id ?r) 1 m"
  let ?m2 = "eraseSessionReply (sr_id ?r) ?m1"
  have "mc_replies m ! i \<in> set (mc_replies m)" using assms(2) by simp
  then have st: "onSessionClose E i m = Some (eraseSessionClient (sr_id ?r) ?m2)"
    using assms(1) False by (simp add: onSessionClose_def Let_def minv_def replies_inv_def)
  have m1: "minv C ?m1" by (rule minv_coreI [OF assms(1)]) simp
  have same: "mc_replies ?m1 = mc_replies m" "mc_dead ?m1 = mc_dead m"
    using core_close_bypeer [of E "sr_id ?r" 1 m] by (simp_all add: core_def)
  have "replies_inv (insert i C) (eraseSessionReply (sr_id (mc_replies ?m1 ! i)) ?m1)"
    using m1 False assms(2,3) same by (intro minv_alive_replies) (simp_all add: minv_def)
  moreover have "tasks_inv ?m2" "receivers_inv ?m2"
    using m1 by (simp_all add: minv_def tasks_inv_def receivers_inv_def eraseSessionReply_def answers_def settled_def)
  ultimately have "minv (insert i C) ?m2" by (simp add: minv_def same)
  then have "minv (insert i C) (eraseSessionClient (sr_id ?r) ?m2)" by (rule minv_coreI) simp
  then show ?thesis using st by blast
qed

lemma session_onReply_ok:
  assumes "minv C m" "i < length (mc_replies m)" "i \<notin> C"
  shows "\<exists>m'. session_onReply E i text m = Some m' \<and> minv C m'"
  using assms minv_coreI [OF assms(1), of "clientOnSessionMessage E (sr_id (mc_replies m ! i)) text m"]
  by (auto simp: session_onReply_def Let_def minv_def replies_inv_def)

section \<open>Receivers\<close>

lemma receivers_frame:
  assumes "minv C m" "\<not> mc_dead m" "receivers_inv m'"
    "mc_tasks m' = mc_tasks m" "task_list m' = task_list m" "mc_replies m' = mc_replies m" "session_reply_map m' = session_reply_map m"
    "mc_dead m' = mc_dead m" "mc_loop m' = mc_loop m" "(mc_h m' = None) = (mc_h m = None)" "\<And>pid. answers pid m' = answers pid m"
  shows "minv C m'"
  using assms by (auto simp: minv_def tasks_inv_def replies_inv_def settled_def)

lemma conn_register_fields:
  "mc_tasks (conn_registerReceiver a m) = mc_tasks m" "task_list (conn_registerReceiver a m) = task_list m"
  "mc_replies (conn_registerReceiver a m) = mc_replies m" "session_reply_map (conn_registerReceiver a m) = session_reply_map m"
  "mc_dead (conn_registerReceiver a m) = mc_dead m" "mc_loop (conn_registerReceiver a m) = mc_loop m"
  "mc_h (conn_registerReceiver a m) = mc_h m" "answers pid (conn_registerReceiver a m) = answers pid m"
  "action_cb_map (conn_registerReceiver a m) = action_cb_map m" "mc_receivers (conn_registerReceiver a m) = mc_receivers m @ [True]"
  "map_of (broadcast_reply m) a = None \<Longrightarrow>
     broadcast_reply (conn_registerReceiver a m) = omap_put a (length (mc_receivers m)) (broadcast_reply m)"
  by (simp_all add: conn_registerReceiver_def Let_def log_def answers_def)

lemma conn_unregister_fields:
  "mc_tasks (conn_unregisterReceiver a m) = mc_tasks m" "task_list (conn_unregisterReceiver a m) = task_list m"
  "mc_replies (conn_unregisterReceiver a m) = mc_replies m" "session_reply_map (conn_unregisterReceiver a m) = session_reply_map m"
  "mc_dead (conn_unregisterReceiver a m) = mc_dead m" "mc_loop (conn_unregisterReceiver a m) = mc_loop m"
  "mc_h (conn_unregisterReceiver a m) = mc_h m" "answers pid (conn_unregisterReceiver a m) = answers pid m"
  "action_cb_map (conn_unregisterReceiver a m) = action_cb_map m"
  "broadcast_reply (conn_unregisterReceiver a m) = omap_del a (broadcast_reply m)"
  "mc_receivers (conn_unregisterReceiver a m) =
     (case map_of (broadcast_reply m) a of None \<Rightarrow> mc_receivers m | Some r \<Rightarrow> (mc_receivers m)[r := False])"
  by (simp_all add: conn_unregisterReceiver_def Let_def log_def answers_def omap_del_absent map_of_None_okeys [symmetric] split: option.split)

lemma answers_upd [simp]: "answers pid (m\<lparr>action_cb_map := x\<rparr>) = answers pid m"
  by (simp add: answers_def)

lemma registerReceiver_ok:
  assumes "minv C m" "\<not> mc_dead m"
  shows "minv C (registerReceiver action cb m)"
proof -
  have r: "receivers_inv m" using assms(1) by (simp add: minv_def)
  show ?thesis
  proof (cases "map_of (action_cb_map m) action")
    case None
    then have nb: "map_of (broadcast_reply m) action = None"
      using r assms(2) by (auto simp: receivers_inv_def map_of_None_okeys)
    let ?m' = "registerReceiver action cb m"
    have f: "mc_receivers ?m' = mc_receivers m @ [True]" "mc_dead ?m' = mc_dead m"
      "broadcast_reply ?m' = omap_put action (length (mc_receivers m)) (broadcast_reply m)"
      "action_cb_map ?m' = omap_put action [cb] (action_cb_map m)"
      using None nb by (simp_all add: registerReceiver_def Let_def conn_register_fields)
    have "\<exists>k. map_of (broadcast_reply ?m') k = Some q" if q: "q < length (mc_receivers ?m')" "mc_receivers ?m' ! q" for q
    proof (cases "q = length (mc_receivers m)")
      case True
      then show ?thesis by (auto simp: f)
    next
      case False
      then obtain k where "map_of (broadcast_reply m) k = Some q"
        using q r assms(2) by (auto simp: receivers_inv_def f nth_append less_Suc_eq)
      then show ?thesis using nb by (intro exI [of _ k]) (auto simp: f)
    qed
    then have "receivers_inv ?m'" using r assms(2) by (simp add: receivers_inv_def f)
    then show ?thesis
      by (rule receivers_frame [OF assms]) (simp_all add: registerReceiver_def Let_def None conn_register_fields)
  next
    case (Some ids)
    have "receivers_inv (registerReceiver action cb m)"
      using r assms(2) Some by (auto simp: receivers_inv_def registerReceiver_def Let_def okeys_iff insert_absorb)
    then show ?thesis
      by (rule receivers_frame [OF assms]) (simp_all add: registerReceiver_def Let_def Some)
  qed
qed

lemma drop_flag: "xs[r := False] ! q \<Longrightarrow> q < length xs \<Longrightarrow> xs ! q \<and> q \<noteq> r"
  by (cases "q = r") simp_all

lemma unregister_covers:
  assumes "\<forall>r < length (mc_receivers m). mc_receivers m ! r \<longrightarrow> (\<exists>k. map_of (broadcast_reply m) k = Some r)"
    "q < length (mc_receivers (conn_unregisterReceiver action m))" "mc_receivers (conn_unregisterReceiver action m) ! q"
  shows "\<exists>k. map_of (broadcast_reply (conn_unregisterReceiver action m)) k = Some q"
proof -
  have q': "q < length (mc_receivers m)" "mc_receivers m ! q" "map_of (broadcast_reply m) action \<noteq> Some q"
    using assms(2,3) by (auto simp: conn_unregister_fields split: option.splits dest: drop_flag)
  then obtain k where k: "map_of (broadcast_reply m) k = Some q" using assms(1) by auto
  then show ?thesis using q'(3) by (intro exI [of _ k]) (auto simp: conn_unregister_fields)
qed

lemma conn_unregister_ok:
  assumes "minv C m" "\<not> mc_dead m"
  shows "minv C (conn_unregisterReceiver action (m\<lparr>action_cb_map := omap_del action (action_cb_map m)\<rparr>))" (is "minv C ?m'")
proof -
  let ?m1 = "m\<lparr>action_cb_map := omap_del action (action_cb_map m)\<rparr>"
  have r: "receivers_inv m" using assms(1) by (simp add: minv_def)
  have "\<exists>k. map_of (broadcast_reply ?m') k = Some q" if q: "q < length (mc_receivers ?m')" "mc_receivers ?m' ! q" for q
    using unregister_covers [OF _ q] r assms(2) by (simp add: receivers_inv_def)
  then have "receivers_inv ?m'" using r assms(2) by (simp add: receivers_inv_def conn_unregister_fields)
  then show ?thesis by (rule receivers_frame [OF assms]) (simp_all add: conn_unregister_fields)
qed

lemma unregisterReceiver_ok:
  assumes "minv C m" "\<not> mc_dead m"
  shows "minv C (unregisterReceiver action m)"
proof (cases "map_of (action_cb_map m) action")
  case (Some ids)
  have "minv C (fold mc_remove ids m)" by (rule minv_coreI [OF assms(1)]) simp
  moreover have "\<not> mc_dead (fold mc_remove ids m)" using assms(2) core_fold_remove [of ids m] by (simp add: core_def)
  ultimately show ?thesis using Some conn_unregister_ok by (simp add: unregisterReceiver_def Let_def)
qed (use assms in \<open>simp add: unregisterReceiver_def\<close>)

lemma put_ids_ok:
  assumes "minv C m" "\<not> mc_dead m" "map_of (action_cb_map m) action = Some ids"
  shows "minv C (m\<lparr>action_cb_map := omap_put action ids' (action_cb_map m)\<rparr>)"
proof -
  have "action \<in> okeys (action_cb_map m)" using assms(3) by (auto simp: okeys_iff)
  then have "receivers_inv (m\<lparr>action_cb_map := omap_put action ids' (action_cb_map m)\<rparr>)"
    using assms(1,2) by (simp add: minv_def receivers_inv_def insert_absorb)
  then show ?thesis by (rule receivers_frame [OF assms(1,2)]) simp_all
qed

lemma unregisterReceiverCb_ok:
  assumes "minv C m" "\<not> mc_dead m"
  shows "minv C (unregisterReceiverCb action cb m)"
proof (cases "map_of (action_cb_map m) action")
  case (Some ids)
  let ?m1 = "if cb \<in> set ids then mc_remove cb m else m"
  have c: "core ?m1 = core m" by simp
  have m1: "minv C ?m1" by (rule minv_coreI [OF assms(1) c])
  have "\<not> mc_dead ?m1" "map_of (action_cb_map ?m1) action = Some ids" using c assms(2) Some by (simp_all add: core_def)
  then show ?thesis
    using conn_unregister_ok [OF m1] put_ids_ok [OF m1] Some by (simp add: unregisterReceiverCb_def Let_def)
qed (use assms in \<open>simp add: unregisterReceiverCb_def\<close>)

lemma onReceive_core:
  assumes "mc_h m \<noteq> None"
  shows "\<exists>m'. onReceive E action text m = Some m' \<and> core m' = core m"
  using assms by (auto simp: onReceive_def split: option.split)

lemma receiver_onReceive_ok:
  assumes "minv C m" "r < length (mc_receivers m)"
  shows "\<exists>m'. receiver_onReceive E r action text m = Some m' \<and> minv C m'"
proof (cases "mc_receivers m ! r")
  case True
  then have "\<not> mc_dead m" using assms nth_mem [of r "mc_receivers m"] by (auto simp: minv_def receivers_inv_def)
  moreover have "mc_h m \<noteq> None" using assms(1) by (simp add: minv_def tasks_inv_def)
  ultimately show ?thesis
    using True onReceive_core [of m E action "text"] minv_coreI [OF assms(1)] by (auto simp: receiver_onReceive_def)
qed (use assms in \<open>simp add: receiver_onReceive_def\<close>)

section \<open>The end of the channel\<close>

lemma fold_False: "fold (\<lambda>i rs. rs[i := False]) is rs ! j \<Longrightarrow> j < length rs \<Longrightarrow> rs ! j \<and> j \<notin> set is"
proof (induction "is" arbitrary: rs)
  case (Cons i "is")
  then show ?case using drop_flag [of rs i j] by auto
qed simp

lemma length_fold_cut [simp]: "length (fold (\<lambda>i rs. rs[i := (rs ! i)\<lparr>sr_chan := False, sr_conn := False\<rparr>]) is rs) = length rs"
  by (induction "is" arbitrary: rs) simp_all

lemma length_fold_False [simp]: "length (fold (\<lambda>i rs. rs[i := x]) is rs) = length rs"
  by (induction "is" arbitrary: rs) simp_all

lemma fold_cut:
  "j < length rs \<Longrightarrow> j \<in> set is \<or> \<not> sr_chan (rs ! j) \<and> \<not> sr_conn (rs ! j) \<Longrightarrow>
   \<not> sr_chan (fold (\<lambda>i rs. rs[i := (rs ! i)\<lparr>sr_chan := False, sr_conn := False\<rparr>]) is rs ! j) \<and>
   \<not> sr_conn (fold (\<lambda>i rs. rs[i := (rs ! i)\<lparr>sr_chan := False, sr_conn := False\<rparr>]) is rs ! j)"
proof (induction "is" arbitrary: rs)
  case (Cons i "is")
  let ?rs = "rs[i := (rs ! i)\<lparr>sr_chan := False, sr_conn := False\<rparr>]"
  have "j \<in> set is \<or> \<not> sr_chan (?rs ! j) \<and> \<not> sr_conn (?rs ! j)" using Cons.prems by (cases "i = j") auto
  then show ?case using Cons.IH [of ?rs] Cons.prems(1) by simp
qed simp

lemma clear_tasks_length [simp]: "length (clear_tasks is ts) = length ts"
  by (induction "is" arbitrary: ts) simp_all

lemma clear_tasks_keeps: "map (\<lambda>t. (tk_done t, tk_pid t)) (clear_tasks is ts) = map (\<lambda>t. (tk_done t, tk_pid t)) ts"
proof (induction "is" arbitrary: ts)
  case (Cons i "is")
  let ?ts = "ts[i := (ts ! i)\<lparr>tk_timer := False, tk_conn := False, tk_chan := False\<rparr>]"
  have "map (\<lambda>t. (tk_done t, tk_pid t)) ?ts = map (\<lambda>t. (tk_done t, tk_pid t)) ts"
    using list_update_id [of "map (\<lambda>t. (tk_done t, tk_pid t)) ts" i]
    by (cases "i < length ts") (simp_all add: map_update list_update_beyond)
  then show ?case using Cons.IH [of ?ts] by simp
qed simp

lemma clear_tasks_cut:
  "j < length ts \<Longrightarrow> j \<in> set is \<or> \<not> tk_chan (ts ! j) \<and> \<not> tk_conn (ts ! j) \<and> \<not> tk_timer (ts ! j) \<Longrightarrow>
   \<not> tk_chan (clear_tasks is ts ! j) \<and> \<not> tk_conn (clear_tasks is ts ! j) \<and> \<not> tk_timer (clear_tasks is ts ! j)"
proof (induction "is" arbitrary: ts)
  case (Cons i "is")
  let ?ts = "ts[i := (ts ! i)\<lparr>tk_timer := False, tk_conn := False, tk_chan := False\<rparr>]"
  have "j \<in> set is \<or> \<not> tk_chan (?ts ! j) \<and> \<not> tk_conn (?ts ! j) \<and> \<not> tk_timer (?ts ! j)"
    using Cons.prems by (cases "i = j") auto
  then show ?case using Cons.IH [of ?ts] Cons.prems(1) by simp
qed simp

lemma core_answers: "core m' = core m \<Longrightarrow> answers pid m' = answers pid m"
  by (simp add: answers_core core_def)

lemma settled_map: "settled pid m = length (filter (\<lambda>p. fst p \<and> snd p = pid) (map (\<lambda>t. (tk_done t, tk_pid t)) (mc_tasks m)))"
  by (simp add: settled_def filter_map comp_def)

lemma drop_receivers_fields:
  "mc_tasks (drop_receivers rs m) = mc_tasks m \<and> task_list (drop_receivers rs m) = task_list m \<and>
   mc_replies (drop_receivers rs m) = mc_replies m \<and> session_reply_map (drop_receivers rs m) = session_reply_map m \<and>
   mc_loop (drop_receivers rs m) = mc_loop m \<and> (mc_h (drop_receivers rs m) = None) = (mc_h m = None) \<and>
   (\<forall>pid. answers pid (drop_receivers rs m) = answers pid m)"
proof (induction rs m rule: drop_receivers.induct)
  case (2 action ids rest m)
  let ?m1 = "conn_unregisterReceiver action m"
  have "core (fold mc_remove ids ?m1) = core ?m1" by simp
  then have "answers pid (fold mc_remove ids ?m1) = answers pid m" for pid
    using core_answers [of "fold mc_remove ids ?m1" ?m1 pid] by (simp add: conn_unregister_fields)
  then show ?case using 2 \<open>core (fold mc_remove ids ?m1) = core ?m1\<close> by (simp add: core_def conn_unregister_fields)
qed simp

lemma drop_receivers_covers:
  "\<forall>r < length (mc_receivers m). mc_receivers m ! r \<longrightarrow> (\<exists>k. map_of (broadcast_reply m) k = Some r) \<Longrightarrow>
   \<forall>r < length (mc_receivers (drop_receivers rs m)). mc_receivers (drop_receivers rs m) ! r \<longrightarrow>
     (\<exists>k. map_of (broadcast_reply (drop_receivers rs m)) k = Some r)"
proof (induction rs m rule: drop_receivers.induct)
  case (2 action ids rest m)
  let ?m1 = "conn_unregisterReceiver action m"
  have "mc_receivers (fold mc_remove ids ?m1) = mc_receivers ?m1" "broadcast_reply (fold mc_remove ids ?m1) = broadcast_reply ?m1"
    using core_fold_remove [of ids ?m1] by (simp_all add: core_def)
  then show ?case using 2 unregister_covers [OF 2(2)] by simp
qed simp

lemma delete_channel_ok:
  assumes "minv C m" "\<not> mc_dead m"
  shows "minv C (delete_channel m)" "mc_dead (delete_channel m)"
proof -
  let ?d = "drop_receivers (action_cb_map m) m"
  let ?m1 = "delete_connection (clearTimer ?d)"
  define m2 where "m2 = (if mc_server_set ?m1
      then ?m1\<lparr>transport_server := map_option (\<lambda>s. s\<lparr>ts_msg_cb := False, ts_session_cb := False\<rparr>) (transport_server ?m1)\<rparr> else ?m1)"
  define m3 where "m3 = (if message_server_recv_cb m2 \<noteq> - 1 then mc_remove (message_server_recv_cb m2) m2 else m2)"
  define m4 where "m4 = (if session_server_recv_cb m3 \<noteq> - 1 then mc_remove (session_server_recv_cb m3) m3 else m3)"
  define m5 where "m5 = fold mc_remove (ovals (session_ondata_cb_map m4)) m4"
  define m6 where "m6 = fold mc_remove (ovals (session_onclose_cb_map m5)) m5"
  have del: "delete_channel m = m6\<lparr>mc_dead := True\<rparr>"
    by (simp add: delete_channel_def Let_def m2_def m3_def m4_def m5_def m6_def)
  have c: "core m6 = core ?m1" by (simp add: m2_def m3_def m4_def m5_def m6_def)
  have "core (m6\<lparr>mc_dead := True\<rparr>) = core (?m1\<lparr>mc_dead := True\<rparr>)" using c by (simp add: core_def)
  moreover have "minv C (?m1\<lparr>mc_dead := True\<rparr>)"
    unfolding minv_def
  proof (intro conjI)
    note d = drop_receivers_fields [of "action_cb_map m" m]
    have ti: "tasks_inv m" "replies_inv C m" "receivers_inv m" using assms(1) by (simp_all add: minv_def)
    have tl: "task_list m = [0..<length (mc_tasks m)]" using ti(1) assms(2) by (simp add: tasks_inv_def)
    have ts: "mc_tasks (?m1\<lparr>mc_dead := True\<rparr>) = clear_tasks (task_list m) (mc_tasks m)" using d by (simp add: delete_connection_def clearTimer_def)
    have "settled pid (?m1\<lparr>mc_dead := True\<rparr>) = settled pid m" for pid by (simp add: settled_map ts clear_tasks_keeps)
    moreover have "answers pid (?m1\<lparr>mc_dead := True\<rparr>) = answers pid m" for pid
      using d by (simp add: answers_def delete_connection_def clearTimer_def)
    moreover have "\<not> tk_chan t \<and> \<not> tk_conn t \<and> \<not> tk_timer t" if "t \<in> set (clear_tasks (task_list m) (mc_tasks m))" for t
      using that clear_tasks_cut [of _ "mc_tasks m" "task_list m"] tl by (auto simp: in_set_conv_nth)
    ultimately show "tasks_inv (?m1\<lparr>mc_dead := True\<rparr>)"
      using ti(1) d unfolding tasks_inv_def ts by (auto simp: delete_connection_def clearTimer_def)
    have rs: "mc_replies (?m1\<lparr>mc_dead := True\<rparr>) =
        fold (\<lambda>i rs. rs[i := (rs ! i)\<lparr>sr_chan := False, sr_conn := False\<rparr>]) (ovals (session_reply_map m)) (mc_replies m)"
      using d by (simp add: delete_connection_def clearTimer_def)
    have "i \<in> set (ovals (session_reply_map m))" if "i < length (mc_replies m)" "i \<notin> C" for i
      using ti(2) assms(2) that by (auto simp: replies_inv_def ovals_def image_iff dest!: map_of_SomeD intro!: bexI)
    then show "replies_inv C (?m1\<lparr>mc_dead := True\<rparr>)"
      using ti(2) fold_cut unfolding replies_inv_def rs by auto
    have "\<not> mc_receivers ?m1 ! r" if "r < length (mc_receivers ?m1)" for r
    proof
      assume x: "mc_receivers ?m1 ! r"
      have len: "r < length (mc_receivers ?d)" using that by (simp add: delete_connection_def clearTimer_def)
      then have "mc_receivers ?d ! r" "r \<notin> set (ovals (broadcast_reply ?d))"
        using x fold_False [of "ovals (broadcast_reply ?d)" "mc_receivers ?d" r] by (simp_all add: delete_connection_def clearTimer_def)
      moreover obtain k where "map_of (broadcast_reply ?d) k = Some r"
        using drop_receivers_covers [of m "action_cb_map m"] ti(3) assms(2) len calculation(1) by (auto simp: receivers_inv_def)
      then have "r \<in> set (ovals (broadcast_reply ?d))" by (force simp: ovals_def dest!: map_of_SomeD)
      ultimately show False by blast
    qed
    then show "receivers_inv (?m1\<lparr>mc_dead := True\<rparr>)" by (auto simp: receivers_inv_def in_set_conv_nth)
  qed
  ultimately show "minv C (delete_channel m)" unfolding del by (rule minv_coreI [rotated])
  show "mc_dead (delete_channel m)" by (simp add: del)
qed

section \<open>Runs\<close>

lemma mstep_ok:
  assumes "minv C m" "menabled C p m"
  shows "\<exists>m'. mstep E p m = Some m' \<and> minv (mclosed p C) m'"
  using assms onReply_ok timerFires_ok wrap_sendMessage_ok onSessionClose_ok session_onReply_ok receiver_onReceive_ok
    registerReceiver_ok unregisterReceiver_ok unregisterReceiverCb_ok sessionSend_ok delete_channel_ok
  by (cases p) (simp_all add: minv_coreI)

lemma mrun_ok: "minv C m \<Longrightarrow> mrun_enabled E ps C m \<Longrightarrow> \<exists>m' C'. mrun E ps C m = Some m' \<and> minv C' m'"
proof (induction ps arbitrary: C m)
  case (Cons p ps)
  obtain m' where m': "mstep E p m = Some m'" "minv (mclosed p C) m'"
    using mstep_ok [OF Cons.prems(1), of p E] Cons.prems(2) by auto
  then show ?case using Cons.IH [OF m'(2)] Cons.prems(2) by simp
qed auto

lemma minv_new: "minv {} (new_channel (Some s) w True)"
  by (simp add: minv_def tasks_inv_def replies_inv_def receivers_inv_def new_channel_def answers_def settled_def)

section \<open>With the instance: broadcasts reach the callbacks, unsubscribing returns them\<close>

text \<open>A registered callback that takes two strings.\<close>

definition live_subscriber :: "inst \<Rightarrow> int \<Rightarrow> bool" where
  "live_subscriber s cid \<longleftrightarrow>
     (case getCallbackData (inst_cbs s) cid of
        None \<Rightarrow> False
      | Some d \<Rightarrow> \<not> rest_ended (cd_params d) \<and> param_types (cd_params d) = [Prim FT_STRING, Prim FT_STRING])"

definition subscriber :: "inst \<Rightarrow> int \<Rightarrow> jsval" where
  "subscriber s cid = (case getCallbackData (inst_cbs s) cid of None \<Rightarrow> JUndef | Some d \<Rightarrow> cd_cb d)"

lemma two_strings:
  "args_ok e I [Prim FT_STRING, Prim FT_STRING] [NStr a, NStr b]"
  "args_values e [Prim FT_STRING, Prim FT_STRING] [NStr a, NStr b] = [JStr (cstr a), JStr (cstr b)]"
  by (simp_all add: arg_ok_def arg_value_def extractVariadicParam_def FT_IS_REFERENCE_iff)

lemma mc_invoke_live:
  assumes "inst_ok s" "\<not> inst_detached s" "mc_h m = Some s" "live_subscriber s cid"
  shows "\<exists>m1. mc_invoke E cid [NStr a, NStr b] m = (True, m1) \<and> mc_h m1 = Some s \<and>
    mc_out m1 = mc_out m @ [OInvoke cid [NStr a, NStr b] True] \<and>
    calls (mc_w m1) = calls (mc_w m) @ [(subscriber s cid, [JStr (cstr a), JStr (cstr b)])] \<and>
    (balanced c M (mc_w m) \<longrightarrow> balanced c M (mc_w m1))"
proof -
  obtain d where d: "getCallbackData (inst_cbs s) cid = Some d" "\<not> rest_ended (cd_params d)"
    "param_types (cd_params d) = [Prim FT_STRING, Prim FT_STRING]"
    using assms(4) by (auto simp: live_subscriber_def split: option.splits)
  obtain w' where "FeatureInvokeCallback (me_engine E) (Some s) cid [NStr a, NStr b] (mc_w m) = (True, w')"
    "calls w' = calls (mc_w m) @ [(cd_cb d, [JStr (cstr a), JStr (cstr b)])]" "balanced c M (mc_w m) \<longrightarrow> balanced c M w'"
    using FeatureInvokeCallback_live [OF assms(1,2) d(1,2), of "me_engine E" "mc_w m" "[NStr a, NStr b]" c M] d(3) two_strings by auto
  then show ?thesis using assms(3) d(1) by (simp add: mc_invoke_def log_def subscriber_def)
qed

lemma invoke_all_live:
  assumes "inst_ok s" "\<not> inst_detached s"
  shows "mc_h m = Some s \<Longrightarrow> list_all (live_subscriber s) ids \<Longrightarrow>
    mc_h (invoke_all E a b ids m) = Some s \<and>
    mc_out (invoke_all E a b ids m) = mc_out m @ map (\<lambda>cid. OInvoke cid [NStr a, NStr b] True) ids \<and>
    calls (mc_w (invoke_all E a b ids m)) = calls (mc_w m) @ map (\<lambda>cid. (subscriber s cid, [JStr (cstr a), JStr (cstr b)])) ids \<and>
    (balanced c M (mc_w m) \<longrightarrow> balanced c M (mc_w (invoke_all E a b ids m)))"
proof (induction ids arbitrary: m)
  case (Cons cid ids)
  obtain m1 where m1: "mc_invoke E cid [NStr a, NStr b] m = (True, m1)" "mc_h m1 = Some s"
    "mc_out m1 = mc_out m @ [OInvoke cid [NStr a, NStr b] True]"
    "calls (mc_w m1) = calls (mc_w m) @ [(subscriber s cid, [JStr (cstr a), JStr (cstr b)])]"
    "balanced c M (mc_w m) \<longrightarrow> balanced c M (mc_w m1)"
    using mc_invoke_live [OF assms Cons.prems(1), of cid E a b c M] Cons.prems(2) by auto
  then show ?case using Cons.IH [OF m1(2)] Cons.prems(2) by simp
qed simp

lemma mc_remove_spec:
  assumes "mc_h m = Some s" "inst_ok s" "\<not> inst_detached s"
  shows "\<exists>s'. mc_h (mc_remove cid m) = Some s' \<and> inst_ok s' \<and> \<not> inst_detached s' \<and> inst_pm s' = inst_pm s \<and> inst_em s' = inst_em s \<and>
    map_of (callbacks (inst_cbs s')) = (map_of (callbacks (inst_cbs s)))(cid := None) \<and>
    (\<forall>M. balanced b (cbm_refs (inst_cbs s) + M) (mc_w m) \<longrightarrow> balanced b (cbm_refs (inst_cbs s') + M) (mc_w (mc_remove cid m)))"
proof -
  obtain r cm w' where e: "eraseCallback cid (inst_cbs s) (mc_w m) = (r, cm, w')" by (cases "eraseCallback cid (inst_cbs s) (mc_w m)")
  have ok: "cbm_ok (inst_cbs s)" using assms(2) by (simp add: inst_ok_def)
  note sp = eraseCallback_spec [OF ok e]
  have sub: "set (callbacks cm) \<subseteq> set (callbacks (inst_cbs s))"
    using e set_omap_del [of cid "callbacks (inst_cbs s)"] by (auto simp: eraseCallback_def split: if_splits option.splits)
  have "set (ovals (callbacks cm)) \<subseteq> set (ovals (callbacks (inst_cbs s)))" using sub by (auto simp: ovals_def)
  then have "JUndef \<notin># cbm_refs cm" using assms(2) by (auto simp: inst_ok_def cbm_refs_def mset_over_def)
  then have "inst_ok (s\<lparr>inst_cbs := cm\<rparr>)" using assms(2) sp(1) by (simp add: inst_ok_def)
  then show ?thesis
    using assms e sp(3) sp(5) by (simp add: mc_remove_def FeatureRemoveCallback_def usable_def)
qed

lemma remove_all_spec:
  "mc_h m = Some s \<Longrightarrow> inst_ok s \<Longrightarrow> \<not> inst_detached s \<Longrightarrow>
   \<exists>s'. mc_h (fold mc_remove ids m) = Some s' \<and> inst_ok s' \<and> \<not> inst_detached s' \<and> inst_pm s' = inst_pm s \<and> inst_em s' = inst_em s \<and>
    map_of (callbacks (inst_cbs s')) = (\<lambda>cid. if cid \<in> set ids then None else map_of (callbacks (inst_cbs s)) cid) \<and>
    (\<forall>M. balanced b (cbm_refs (inst_cbs s) + M) (mc_w m) \<longrightarrow> balanced b (cbm_refs (inst_cbs s') + M) (mc_w (fold mc_remove ids m)))"
proof (induction ids arbitrary: m s)
  case (Cons cid ids)
  obtain s1 where s1: "mc_h (mc_remove cid m) = Some s1" "inst_ok s1" "\<not> inst_detached s1" "inst_pm s1 = inst_pm s" "inst_em s1 = inst_em s"
    "map_of (callbacks (inst_cbs s1)) = (map_of (callbacks (inst_cbs s)))(cid := None)"
    "\<forall>M. balanced b (cbm_refs (inst_cbs s) + M) (mc_w m) \<longrightarrow> balanced b (cbm_refs (inst_cbs s1) + M) (mc_w (mc_remove cid m))"
    using mc_remove_spec [OF Cons.prems, of cid b] by blast
  show ?case using Cons.IH [OF s1(1-3)] s1(4-7) by (fastforce simp: fun_eq_iff)
qed simp

end
