(* ===== verification/MessagingProps.thy ===== *)
theory MessagingProps
  imports MessagingFacts ConcreteEngine
begin

text \<open>
  The properties of the message channel, with witnesses on concrete runs.
\<close>

section \<open>A concrete environment\<close>

text \<open>A service \<open>echo\<close> at address 5; function and object addresses convert to themselves.\<close>

definition menv0 :: menv where
  "menv0 = \<lparr>me_engine = engine0, me_getService = (\<lambda>name. if name = ''echo'' then Some 5 else None),
     me_alive = (\<lambda>s. True), me_status = (\<lambda>s msg. msg \<noteq> ''lost''), me_id = int\<rparr>"

definition chan0 :: mchan where
  "chan0 = new_channel (Some inst0) world0 True"

definition chan_c :: mchan where
  "chan_c = new_channel None world0 True"

lemma filter_upt_one: "i < n \<Longrightarrow> filter (\<lambda>j. j = i) [0..<n] = [i]"
proof (induction n)
  case (Suc n)
  show ?case
  proof (cases "i = n")
    case True
    have "filter (\<lambda>j. j = n) [0..<n] = []" by (simp add: filter_empty_conv)
    then show ?thesis using True by simp
  qed (use Suc in auto)
qed simp

lemma due_one:
  assumes "i < n" "\<not> tk_done (mc_tasks m ! i)" "\<forall>j < n. j \<noteq> i \<and> \<not> tk_done (mc_tasks m ! j) \<longrightarrow> tk_id (mc_tasks m ! j) \<noteq> tk_id (mc_tasks m ! i)"
  shows "due m (tk_id (mc_tasks m ! i)) text [0..<n] = [OResolve (tk_pid (mc_tasks m ! i)) text]"
proof -
  have "filter (\<lambda>j. \<not> tk_done (mc_tasks m ! j) \<and> tk_id (mc_tasks m ! j) = tk_id (mc_tasks m ! i)) [0..<n] = filter (\<lambda>j. j = i) [0..<n]"
    using assms by (intro filter_cong) auto
  then show ?thesis using assms(1) by (simp add: due_def filter_upt_one)
qed

section \<open>The properties\<close>


definition run0 :: "mop list" where
  "run0 = [MSend 7 3 ''echo'' ''hi'', MSend 8 4 ''echo'' ''ho'', MRegister ''topic'' 1, MTimer 1, MReply 0 ''yes'', MReply 0 ''again'',
     MReply 1 ''late'', MCreateSession 5 ''echo'', MSessionSend 5 ''open'', MDestroy, MReply 1 ''later'', MPeerSessionReply 0 ''x'',
     MReceive 0 ''topic'' ''data'']"


text \<open>C35: A pending request of a living channel is answered: its timer is running, and if the timer fires first the promise is rejected with
  \<open>reply timeout\<close>; if the peer's reply comes first, it is resolved with the reply, given that no other
  pending request has the same 32-bit id. The task stays on the board in either case
  (\<open>onReply\<close> works on a copy of it), so a second reply changes nothing but the board never shrinks.\<close>

theorem pending_request_is_answered:
  assumes "mrun_enabled E ps {} (new_channel (Some s) w True)" "mrun E ps {} (new_channel (Some s) w True) = Some m"
    "\<not> mc_dead m" "i < length (mc_tasks m)" "\<not> tk_done (mc_tasks m ! i)"
    "\<forall>j < length (mc_tasks m). j \<noteq> i \<and> \<not> tk_done (mc_tasks m ! j) \<longrightarrow> tk_id (mc_tasks m ! j) \<noteq> tk_id (mc_tasks m ! i)"
  shows "tk_timer (mc_tasks m ! i) \<and>
    (\<exists>m'. timerFires i m = Some m' \<and> tk_done (mc_tasks m' ! i) \<and>
      mc_out m' = mc_out m @ [OReject (tk_pid (mc_tasks m ! i)) ''reply timeout'']) \<and>
    (\<exists>m'. onReply E i text m = Some m' \<and> tk_done (mc_tasks m' ! i) \<and>
      mc_out m' = mc_out m @ [OResolve (tk_pid (mc_tasks m ! i)) text] \<and> task_list m' = task_list m \<and>
      (\<exists>m''. onReply E i again m' = Some m'' \<and> mc_out m'' = mc_out m'))"
proof (intro conjI)
  obtain C where inv: "minv C m" using mrun_ok [OF minv_new assms(1)] assms(2) by auto
  have b: "board m" by (rule minv_board [OF inv assms(3)])
  have l: "task_list m = [0..<length (mc_tasks m)]" using inv assms(3) by (simp add: minv_def tasks_inv_def)
  show "tk_timer (mc_tasks m ! i)" using board_task [OF b assms(4)] assms(5) by simp
  show "\<exists>m'. timerFires i m = Some m' \<and> tk_done (mc_tasks m' ! i) \<and>
      mc_out m' = mc_out m @ [OReject (tk_pid (mc_tasks m ! i)) ''reply timeout'']"
    using timer_settles [OF b assms(4,5,3)] by blast
  have d: "distinct [0..<length (mc_tasks m)]" "set [0..<length (mc_tasks m)] \<subseteq> {..<length (mc_tasks m)}" by auto
  obtain rest m1 where r: "executeTask E (tk_id (mc_tasks m ! i)) text (task_list m) m = Some (rest, m1)"
    "answered m (tk_id (mc_tasks m ! i)) [0..<length (mc_tasks m)] m1"
    "mc_out m1 = mc_out m @ [OResolve (tk_pid (mc_tasks m ! i)) text]"
    using executeTask_spec [OF b d, of E "tk_id (mc_tasks m ! i)" "text"] due_one [OF assms(4-6), of "text"] l by auto
  have fr: "frame m m1" and b1: "board m1" using r(2) by (simp_all add: answered_def)
  have f1: "task_list m1 = task_list m" "mc_dead m1 = mc_dead m" "length (mc_tasks m1) = length (mc_tasks m)"
    "tk_id (mc_tasks m1 ! i) = tk_id (mc_tasks m ! i)"
    using fr frame_length [OF fr] frame_task [OF fr assms(4)] by (simp_all add: frame_def)
  have d1: "set [0..<length (mc_tasks m)] \<subseteq> {..<length (mc_tasks m1)}" using f1(3) by auto
  have dn: "\<forall>j < length (mc_tasks m). tk_id (mc_tasks m ! j) = tk_id (mc_tasks m ! i) \<longrightarrow> tk_done (mc_tasks m1 ! j)"
    using r(2) by (simp add: answered_def)
  have none: "due m1 (tk_id (mc_tasks m ! i)) again [0..<length (mc_tasks m)] = []"
    using dn frame_task(2) [OF fr] by (auto simp: due_def filter_empty_conv)
  obtain rest2 m2 where r2: "executeTask E (tk_id (mc_tasks m1 ! i)) again (task_list m1) m1 = Some (rest2, m2)" "mc_out m2 = mc_out m1"
    using executeTask_spec [OF b1 d(1) d1, of E "tk_id (mc_tasks m ! i)" again] none f1 l by auto
  have c: "tk_conn (mc_tasks m ! i)" "tk_conn (mc_tasks m1 ! i)"
    using board_task [OF b assms(4)] frame_task(4) [OF fr assms(4)] by simp_all
  show "\<exists>m'. onReply E i text m = Some m' \<and> tk_done (mc_tasks m' ! i) \<and>
      mc_out m' = mc_out m @ [OResolve (tk_pid (mc_tasks m ! i)) text] \<and> task_list m' = task_list m \<and>
      (\<exists>m''. onReply E i again m' = Some m'' \<and> mc_out m'' = mc_out m')"
    using r(1,3) r2 c f1 dn assms(3,4) by (simp add: onReply_def)
qed

theorem pending_request_is_answered_witness:
  "\<exists>m m'. mrun menv0 [MSend 7 3 ''echo'' ''hi''] {} chan0 = Some m \<and> onReply menv0 0 ''yes'' m = Some m' \<and>
     tk_done (mc_tasks m' ! 0) \<and> answers 3 m' = 1"
proof -
  have en: "mrun_enabled menv0 [MSend 7 3 ''echo'' ''hi''] {} (new_channel (Some inst0) world0 True)" by code_simp
  let ?m = "the (mrun menv0 [MSend 7 3 ''echo'' ''hi''] {} chan0)"
  have run: "mrun menv0 [MSend 7 3 ''echo'' ''hi''] {} (new_channel (Some inst0) world0 True) = Some ?m"
    and m: "\<not> mc_dead ?m" "length (mc_tasks ?m) = 1" "mc_tasks ?m ! 0 = \<lparr>tk_pid = 3, tk_id = 7, tk_done = False, tk_timer = True, tk_chan = True, tk_conn = True\<rparr>"
    "mc_out ?m = [OSend 5 ''hi'' 0]"
    by (simp_all add: chan0_def new_channel_def wrap_sendMessage_def conn_sendMessage_def commitTask_def menv0_def log_def)
  have p: "0 < length (mc_tasks ?m)" "\<not> tk_done (mc_tasks ?m ! 0)"
    "\<forall>j < length (mc_tasks ?m). j \<noteq> 0 \<and> \<not> tk_done (mc_tasks ?m ! j) \<longrightarrow> tk_id (mc_tasks ?m ! j) \<noteq> tk_id (mc_tasks ?m ! 0)"
    unfolding m(2,3) by simp_all
  obtain m' where "onReply menv0 0 ''yes'' ?m = Some m'" "tk_done (mc_tasks m' ! 0)"
    "mc_out m' = mc_out ?m @ [OResolve (tk_pid (mc_tasks ?m ! 0)) ''yes'']"
    using pending_request_is_answered [OF en run m(1) p, of "''yes''"] by blast
  moreover from this(3) have "answers 3 m' = 1" unfolding m(3,4) by (simp add: answers_def)
  ultimately show ?thesis using run unfolding chan0_def by blast
qed

text \<open>A broadcast reaches every callback registered for its action: for live callbacks that take two strings, each script
  function is called once, in the order of registration, with the action and the data up to their
  first NUL, and the reference counts are as before.\<close>

theorem broadcast_reaches_subscribers:
  assumes "mc_h m = Some s" "inst_ok s" "\<not> inst_detached s" "map_of (action_cb_map m) action = Some ids"
    "list_all (live_subscriber s) ids"
  shows "\<exists>m'. onReceive E action text m = Some m' \<and> mc_h m' = Some s \<and>
    calls (mc_w m') = calls (mc_w m) @ map (\<lambda>cid. (subscriber s cid, [JStr (cstr action), JStr (cstr text)])) ids \<and>
    mc_out m' = mc_out m @ map (\<lambda>cid. OInvoke cid [NStr action, NStr text] True) ids \<and>
    (balanced b M (mc_w m) \<longrightarrow> balanced b M (mc_w m'))"
  using invoke_all_live [OF assms(2,3,1,5), of E action "text" b M] assms(1,4) by (simp add: onReceive_def)

definition inst_s :: inst where
  "inst_s = (new_inst (JFun 0))\<lparr>inst_cbs := \<lparr>callbacks =
     [(1, \<lparr>cd_cb = JFun 1, cd_params = [PType (Prim FT_STRING), PType (Prim FT_STRING), PEnd]\<rparr>),
      (2, \<lparr>cd_cb = JFun 6, cd_params = [PType (Prim FT_STRING), PType (Prim FT_STRING), PEnd]\<rparr>)], curr_cid = 2\<rparr>\<rparr>"

lemma inst_s_ok: "inst_ok inst_s" "\<not> inst_detached inst_s"
  by (simp_all add: inst_s_def inst_ok_def new_inst_def cbm_ok_def pm_ok_def em_ok_def
      omap_ok_def cbm_refs_def em_refs_def entry_ok_def init_pm_def init_em_def)

lemma inst_s_live: "live_subscriber inst_s 1" "live_subscriber inst_s 2" "subscriber inst_s 1 = JFun 1" "subscriber inst_s 2 = JFun 6"
  by (simp_all add: live_subscriber_def subscriber_def inst_s_def getCallbackData_def)

definition chan_s :: mchan where
  "chan_s = registerReceiver ''topic'' 2 (registerReceiver ''topic'' 1 (new_channel (Some inst_s) world0 True))"

lemma chan_s_state: "mc_h chan_s = Some inst_s" "map_of (action_cb_map chan_s) ''topic'' = Some [1, 2]" "calls (mc_w chan_s) = []"
  by (simp_all add: chan_s_def registerReceiver_def conn_registerReceiver_def new_channel_def log_def)

theorem broadcast_reaches_subscribers_witness:
  "\<exists>m'. onReceive menv0 ''topic'' ''on'' chan_s = Some m' \<and>
     calls (mc_w m') = [(JFun 1, [JStr ''topic'', JStr ''on'']), (JFun 6, [JStr ''topic'', JStr ''on''])]"
  using broadcast_reaches_subscribers [OF chan_s_state(1) inst_s_ok chan_s_state(2), of menv0 "''on''"]
  by (auto simp: inst_s_live chan_s_state cstr_def)

text \<open>Unsubscribing an action gives back exactly its callbacks: none of them is registered with the instance any more, every other callback,
  promise and event is untouched, the references move accordingly, and the action has neither callbacks nor a
  receiver at the activity manager.\<close>

theorem unsubscribing_returns_callbacks:
  assumes "mc_h m = Some s" "inst_ok s" "\<not> inst_detached s" "map_of (action_cb_map m) action = Some ids"
    "balanced b (cbm_refs (inst_cbs s) + M) (mc_w m)"
  shows "\<exists>s'. mc_h (unregisterReceiver action m) = Some s' \<and> inst_ok s' \<and>
    map_of (callbacks (inst_cbs s')) = (\<lambda>cid. if cid \<in> set ids then None else map_of (callbacks (inst_cbs s)) cid) \<and>
    inst_pm s' = inst_pm s \<and> inst_em s' = inst_em s \<and>
    balanced b (cbm_refs (inst_cbs s') + M) (mc_w (unregisterReceiver action m)) \<and>
    map_of (action_cb_map (unregisterReceiver action m)) action = None \<and>
    map_of (broadcast_reply (unregisterReceiver action m)) action = None"
proof -
  let ?m1 = "fold mc_remove ids m"
  obtain s' where s': "mc_h ?m1 = Some s'" "inst_ok s'" "inst_pm s' = inst_pm s" "inst_em s' = inst_em s"
    "map_of (callbacks (inst_cbs s')) = (\<lambda>cid. if cid \<in> set ids then None else map_of (callbacks (inst_cbs s)) cid)"
    "\<forall>M. balanced b (cbm_refs (inst_cbs s) + M) (mc_w m) \<longrightarrow> balanced b (cbm_refs (inst_cbs s') + M) (mc_w ?m1)"
    using remove_all_spec [OF assms(1-3)] by blast
  have "mc_w (conn_unregisterReceiver a n) = mc_w n" for a n by (simp add: conn_unregisterReceiver_def Let_def log_def split: option.split)
  then show ?thesis using s' assms(4,5) by (simp add: unregisterReceiver_def Let_def conn_unregister_fields)
qed

theorem unsubscribing_returns_callbacks_witness:
  "\<exists>s'. mc_h (unregisterReceiver ''topic'' chan_s) = Some s' \<and> map_of (callbacks (inst_cbs s')) 1 = None \<and>
     map_of (broadcast_reply (unregisterReceiver ''topic'' chan_s)) ''topic'' = None"
proof -
  have "balanced (\<lambda>v. (if v = JFun 0 then 1 else 0) - int (count (cbm_refs (inst_cbs inst_s)) v)) (cbm_refs (inst_cbs inst_s) + {#}) (mc_w chan_s)"
    by (simp add: balanced_def chan_s_def registerReceiver_def conn_registerReceiver_def new_channel_def log_def world0_def)
  from unsubscribing_returns_callbacks [OF chan_s_state(1) inst_s_ok chan_s_state(2) this] show ?thesis by auto
qed

text \<open>A C client that unsubscribes from a topic and subscribes again is deaf: \<open>unregisterReceiverForC\<close> makes a new, empty entry for the
  action after the receiver has been unregistered, so the next subscription finds the action known and does not register
  a receiver with the activity manager.\<close>

theorem resubscription_is_deaf:
  assumes "map_of (action_cb_map m) action = Some ids"
  shows "map_of (broadcast_reply (registerReceiverForC E action cb user (unregisterReceiverForC action m))) action = None \<and>
    mc_out (registerReceiverForC E action cb user (unregisterReceiverForC action m)) = mc_out (unregisterReceiverForC action m) \<and>
    mc_receivers (registerReceiverForC E action cb user (unregisterReceiverForC action m)) = mc_receivers (unregisterReceiverForC action m)"
  using assms by (simp add: registerReceiverForC_def unregisterReceiverForC_def unregisterReceiver_def registerReceiver_def Let_def
      conn_unregister_fields)

theorem resubscription_is_deaf_witness:
  "map_of (broadcast_reply (registerReceiverForC menv0 ''t'' 9 0 (unregisterReceiverForC ''t'' (registerReceiverForC menv0 ''t'' 9 0 chan_c)))) ''t'' = None \<and>
   mc_receivers (registerReceiverForC menv0 ''t'' 9 0 (unregisterReceiverForC ''t'' (registerReceiverForC menv0 ''t'' 9 0 chan_c))) = [False]"
proof -
  have "map_of (action_cb_map (registerReceiverForC menv0 ''t'' 9 0 chan_c)) ''t'' = Some [9]"
    "mc_receivers (unregisterReceiverForC ''t'' (registerReceiverForC menv0 ''t'' 9 0 chan_c)) = [False]"
    by (simp_all add: registerReceiverForC_def registerReceiver_def conn_registerReceiver_def chan_c_def new_channel_def menv0_def log_def
        unregisterReceiverForC_def unregisterReceiver_def conn_unregisterReceiver_def Let_def mc_remove_def FeatureRemoveCallback_def usable_def)
  then show ?thesis using resubscription_is_deaf [of "registerReceiverForC menv0 ''t'' 9 0 chan_c" "''t''" "[9]" menv0 9 0] by simp
qed

text \<open>A C client with two outstanding requests that use the same function crashes on the second answer: requests are kept by the
  function's address, the first answer removes the entry, and the second calls the null pointer that
  \<open>request_map_[id]\<close> makes.\<close>

theorem second_answer_crashes:
  assumes "mc_h m = None" "map_of (request_map m) (me_id E cb) = None"
    "sendMessageForC E a target msg cb user m = Some (r, m1)" "sendMessageForC E a' target' msg' cb user' m1 = Some (r', m2)"
  shows "\<exists>m3. clientOnMessage E (me_id E cb) text m2 = Some m3 \<and> clientOnMessage E (me_id E cb) text' m3 = None"
proof -
  have keep: "request_map n' = request_map n \<and> mc_h n' = mc_h n" if "conn_sendMessage E x t b i n = Some (q, n')" for x t b i n q n'
    using that by (auto simp: conn_sendMessage_def commitTask_def log_def split: option.splits if_splits)
  have "request_map m1 = omap_put (me_id E cb) (cb, user) (request_map m)" "mc_h m1 = None"
    using assms(1,2) keep [OF assms(3) [unfolded sendMessageForC_def Let_def]] by simp_all
  moreover have "request_map m2 = request_map m1" "mc_h m2 = mc_h m1"
    using calculation keep [OF assms(4) [unfolded sendMessageForC_def Let_def]] by simp_all
  ultimately show ?thesis by (simp add: clientOnMessage_def call_request_def log_def)
qed

theorem second_answer_crashes_witness:
  "\<exists>m1 m2 m3. sendMessageForC menv0 20 ''echo'' ''a'' 9 1 chan_c = Some (0, m1) \<and> sendMessageForC menv0 21 ''echo'' ''b'' 9 2 m1 = Some (0, m2) \<and>
     clientOnMessage menv0 9 ''x'' m2 = Some m3 \<and> clientOnMessage menv0 9 ''y'' m3 = None"
proof -
  obtain m1 m2 where m: "sendMessageForC menv0 20 ''echo'' ''a'' 9 1 chan_c = Some (0, m1)" "sendMessageForC menv0 21 ''echo'' ''b'' 9 2 m1 = Some (0, m2)"
    by (simp add: sendMessageForC_def conn_sendMessage_def commitTask_def chan_c_def new_channel_def menv0_def log_def)
  have "mc_h chan_c = None" "map_of (request_map chan_c) (me_id menv0 9) = None" by (simp_all add: chan_c_def new_channel_def)
  from second_answer_crashes [OF this m, of "''x''" "''y''"] show ?thesis using m by (auto simp: menv0_def)
qed

end
