(* ===== verification/TextUtils.thy ===== *)
theory TextUtils
  imports JsWorld "HOL-Library.Sublist"
begin

unbundle bit_operations_syntax

text \<open>
  The text utilities of the modules: the escapes of URLs and the parser of response headers
  (\<open>modules/net_utils.cpp\<close>), the conversions of application paths (\<open>modules/app_path.cpp\<close>), the
  directories made for a path (\<open>modules/app_path.cpp\<close>, \<open>modules/storage_impl.cpp\<close>) and the splitting
  of strings (\<open>modules/crypto_utils.cpp\<close>). A C string is the list of its characters without the NUL;
  \<open>strtok_r\<close> works on a buffer that has the NULs in it. A write past the end of a
  buffer makes the result \<open>None\<close>.
\<close>

section \<open>Buffers of a fixed capacity\<close>

definition put_char :: "nat \<Rightarrow> 'a \<Rightarrow> 'a list \<Rightarrow> 'a list option" where
  "put_char cap c buf = (if length buf < cap then Some (buf @ [c]) else None)"

fun put_chars :: "nat \<Rightarrow> 'a list \<Rightarrow> 'a list \<Rightarrow> 'a list option" where
  "put_chars cap [] buf = Some buf"
| "put_chars cap (c # cs) buf = Option.bind (put_char cap c buf) (put_chars cap cs)"

lemma put_chars_eq:
  "put_chars cap cs buf = (if cs = [] \<or> length buf + length cs \<le> cap then Some (buf @ cs) else None)"
  by (induction cs arbitrary: buf) (auto simp: put_char_def)

section \<open>Escapes in URLs\<close>

type_synonym byte = "8 word"

definition isdigit :: "byte \<Rightarrow> bool" where
  "isdigit c = (48 \<le> c \<and> c \<le> 57)"

definition isupper :: "byte \<Rightarrow> bool" where
  "isupper c = (65 \<le> c \<and> c \<le> 90)"

definition islower :: "byte \<Rightarrow> bool" where
  "islower c = (97 \<le> c \<and> c \<le> 122)"

definition isalnum :: "byte \<Rightarrow> bool" where
  "isalnum c = (isdigit c \<or> isupper c \<or> islower c)"

definition toupper :: "byte \<Rightarrow> byte" where
  "toupper c = (if islower c then c - 32 else c)"

definition from_hex :: "byte \<Rightarrow> byte" where
  "from_hex ch = (if isdigit ch then ch - 48 else toupper ch - 65 + 10)"

definition reserved_char :: "byte list" where
  "reserved_char = map of_char '';,/?:@&=+$-_.!~*'' @ [39] @ map of_char ''()#''"

definition is_reserved_char :: "byte \<Rightarrow> bool" where
  "is_reserved_char c = (c \<in> set reserved_char)"

definition hex :: "byte \<Rightarrow> byte" where
  "hex n = map of_char ''0123456789ABCDEF'' ! unat n"

fun url_encode_loop :: "nat \<Rightarrow> byte list \<Rightarrow> byte list \<Rightarrow> byte list option" where
  "url_encode_loop cap [] buf = put_char cap 0 buf"
| "url_encode_loop cap (c # s) buf =
     (if isalnum c \<or> is_reserved_char c then Option.bind (put_char cap c buf) (url_encode_loop cap s)
      else Option.bind (put_chars cap [37, hex (drop_bit 4 c AND 15), hex (c AND 15)] buf) (url_encode_loop cap s))"

definition url_encode :: "byte list \<Rightarrow> byte list option" where
  "url_encode str = url_encode_loop (length str * 3 + 1) str []"

fun url_decode_loop :: "nat \<Rightarrow> byte list \<Rightarrow> byte list \<Rightarrow> byte list option" where
  "url_decode_loop cap [] buf = put_char cap 0 buf"
| "url_decode_loop cap (c # s) buf =
     (if c = 37 then
        (case s of
           a # b # s' \<Rightarrow> Option.bind (put_char cap (push_bit 4 (from_hex a) OR from_hex b) buf) (url_decode_loop cap s')
         | _ \<Rightarrow> url_decode_loop cap s buf)
      else Option.bind (put_char cap c buf) (url_decode_loop cap s))"

definition url_decode :: "byte list \<Rightarrow> byte list option" where
  "url_decode str = url_decode_loop (length str + 1) str []"

text \<open>What the caller reads of a buffer: the bytes up to the first NUL.\<close>

definition c_bytes :: "byte list \<Rightarrow> byte list" where
  "c_bytes buf = takeWhile (\<lambda>c. c \<noteq> 0) buf"

section \<open>\<open>strtok_r\<close>\<close>

abbreviation NUL :: char where "NUL \<equiv> CHR 0x00"

definition cstr_at :: "string \<Rightarrow> nat \<Rightarrow> string" where
  "cstr_at buf i = takeWhile (\<lambda>c. c \<noteq> NUL) (drop i buf)"

definition strtok_r :: "string \<Rightarrow> string \<Rightarrow> nat \<Rightarrow> nat option \<times> string \<times> nat" where
  "strtok_r delim buf pos =
     (let start = pos + length (takeWhile (\<lambda>c. c \<in> set delim) (drop pos buf))
      in if cstr_at buf start = [] then (None, buf, start)
         else let e = start + length (takeWhile (\<lambda>c. c \<notin> set delim) (cstr_at buf start))
              in if cstr_at buf e = [] then (Some start, buf, e) else (Some start, buf[e := NUL], Suc e))"

lemma strtok_r_progress:
  assumes "strtok_r delim buf pos = (Some t, buf', pos')"
  shows "pos \<le> t" "t < pos'" "pos < length buf" "length buf' = length buf"
proof -
  let ?start = "pos + length (takeWhile (\<lambda>c. c \<in> set delim) (drop pos buf))"
  let ?e = "?start + length (takeWhile (\<lambda>c. c \<notin> set delim) (cstr_at buf ?start))"
  have ne: "cstr_at buf ?start \<noteq> []" and t: "t = ?start"
    and p: "pos' = ?e \<or> pos' = Suc ?e" and l: "length buf' = length buf"
    using assms by (auto simp: strtok_r_def Let_def split: if_splits)
  have d: "drop ?start buf \<noteq> []" using ne by (auto simp: cstr_at_def)
  then obtain c cs where c: "drop ?start buf = c # cs" by (cases "drop ?start buf") auto
  have "drop ?start buf = dropWhile (\<lambda>c. c \<in> set delim) (drop pos buf)"
    by (metis drop_drop add.commute dropWhile_eq_drop)
  then have "c \<notin> set delim" using c by (metis dropWhile_eq_Cons_conv)
  moreover have "c \<noteq> NUL" using ne c by (auto simp: cstr_at_def split: if_splits)
  ultimately have "takeWhile (\<lambda>c. c \<notin> set delim) (cstr_at buf ?start) \<noteq> []"
    using c by (simp add: cstr_at_def)
  then show "pos \<le> t" "t < pos'" "length buf' = length buf" using t p l by auto
  show "pos < length buf" using d by auto
qed

lemma strtok_r_less:
  assumes "(Some t, buf', pos') = strtok_r delim buf pos"
  shows "length buf' - pos' < length buf - pos"
  using strtok_r_progress [OF assms [symmetric]] by simp

text \<open>The tokens that a loop over \<open>strtok_r\<close> meets.\<close>

function strtok_all :: "string \<Rightarrow> string \<Rightarrow> nat \<Rightarrow> string list" where
  "strtok_all delim buf pos =
     (case strtok_r delim buf pos of
        (None, _, _) \<Rightarrow> []
      | (Some t, buf', pos') \<Rightarrow> cstr_at buf' t # strtok_all delim buf' pos')"
  by pat_completeness auto
termination
  by (relation "measure (\<lambda>(delim, buf, pos). length buf - pos)")
     (auto dest: strtok_r_less)

declare strtok_all.simps [simp del]

section \<open>Splitting a string\<close>

text \<open>\<open>result[index] = strdup(token)\<close>, with \<open>result\<close> an array of \<open>count\<close> pointers.\<close>

fun store_tokens :: "string list \<Rightarrow> nat \<Rightarrow> string option list \<Rightarrow> string option list option" where
  "store_tokens [] index result = Some result"
| "store_tokens (t # ts) index result =
     (if index < length result then store_tokens ts (Suc index) (result[index := Some t]) else None)"

definition split_str :: "string \<Rightarrow> string \<Rightarrow> (string option list \<times> nat) option" where
  "split_str input delimiter =
     (let count = 1 + length (filter (\<lambda>c. c = (delimiter @ [NUL]) ! 0) input)
      in map_option (\<lambda>r. (r, count))
           (store_tokens (strtok_all delimiter (input @ [NUL]) 0) 0 (replicate count None)))"

fun has_type :: "string list \<Rightarrow> string \<Rightarrow> bool" where
  "has_type [] t = False"
| "has_type (a # as) t = (if t = a then True else has_type as t)"

definition strcasecmp :: "string \<Rightarrow> string \<Rightarrow> bool" where
  "strcasecmp a b = (map (toupper \<circ> of_char) a = map (toupper \<circ> of_char) b)"

text \<open>The loop of \<open>type_contain\<close> starts at the second entry; the first one is the default.\<close>

fun type_contain_loop :: "int \<Rightarrow> string list \<Rightarrow> string \<Rightarrow> bool \<Rightarrow> 8 word" where
  "type_contain_loop i [] t ignore_case = 0"
| "type_contain_loop i (a # as) t ignore_case =
     (if ignore_case \<and> strcasecmp t a then of_int i
      else if t = a then of_int i
      else type_contain_loop (i + 1) as t ignore_case)"

definition type_contain :: "string list \<Rightarrow> string \<Rightarrow> bool \<Rightarrow> 8 word" where
  "type_contain type_array t ignore_case = type_contain_loop 1 (drop 1 type_array) t ignore_case"

section \<open>Response headers\<close>

text \<open>
  One line of \<open>ft_form_headers\<close>. After an empty value the code reads the character before it, which
  is a NUL by then.
\<close>

definition header_line :: "string \<Rightarrow> (string \<times> string) option" where
  "header_line line =
     (let i = length (takeWhile (\<lambda>c. c \<noteq> CHR '':'') line)
      in if i = length line then None
         else let value = (if length line > i + 1 then drop (i + 2) line else []);
                  value = (if value \<noteq> [] \<and> last value = CHR 0x0D then butlast value else value)
              in Some (take i line, value))"

definition ft_form_headers :: "string \<Rightarrow> (string \<times> jsval) list" where
  "ft_form_headers headers =
     fold (\<lambda>line obj. case header_line line of None \<Rightarrow> obj | Some (k, v) \<Rightarrow> prop_put k (JStr v) obj)
       (strtok_all [CHR 0x0A] (headers @ [NUL]) 0) []"

section \<open>Application paths\<close>

fun strstr :: "string \<Rightarrow> string \<Rightarrow> nat option" where
  "strstr [] needle = (if needle = [] then Some 0 else None)"
| "strstr (c # s) needle = (if prefix needle (c # s) then Some 0 else map_option Suc (strstr s needle))"

definition ABS_PATH_PREFIX :: string where "ABS_PATH_PREFIX = ''/data/quickapp''"
definition APP_PATH_PREFIX :: string where "APP_PATH_PREFIX = ''internal://''"
definition type_list :: "string list" where "type_list = [''cache'', ''file'', ''mass'', ''tmp'']"

text \<open>
  \<open>snprintf\<close> behind what the buffer holds (\<open>cap\<close> characters with the NUL) truncates; \<open>strcat\<close> does not.
\<close>

definition snprintf :: "nat \<Rightarrow> string \<Rightarrow> string \<Rightarrow> string" where
  "snprintf cap buf s = buf @ take (cap - length buf - 1) s"

definition strcat :: "nat \<Rightarrow> string \<Rightarrow> string \<Rightarrow> string option" where
  "strcat cap buf s = (if length buf + length s < cap then Some (buf @ s) else None)"

text \<open>
  The record of the platform: \<open>CONFIG_PATH_MAX\<close> and what \<open>getcwd\<close> leaves in the buffer (nothing on NuttX).
  The results are pointers: \<open>Some None\<close> is a null pointer.
\<close>

record path_env =
  PATH_MAX_LENGTH :: nat
  pe_cwd :: string

definition app_relative_to_absolute_path ::
  "path_env \<Rightarrow> string option \<Rightarrow> string option \<Rightarrow> string option option" where
  "app_relative_to_absolute_path pe pkg relative_path =
     (case (relative_path, pkg) of
        (Some rel_path, Some pkg) \<Rightarrow>
          if strstr rel_path APP_PATH_PREFIX = None then Some None
          else let offset = drop (length APP_PATH_PREFIX) rel_path;
                   typ = takeWhile (\<lambda>c. c \<noteq> CHR ''/'') offset;
                   filename = (if CHR ''/'' \<in> set offset then Some (drop (length typ + 1) offset) else None)
               in if \<not> list_ex (\<lambda>t. prefix t typ) type_list then Some None
                  else let path = snprintf (PATH_MAX_LENGTH pe) (pe_cwd pe)
                             (if typ = type_list ! 3 then ABS_PATH_PREFIX @ ''/'' @ typ
                              else ABS_PATH_PREFIX @ ''/'' @ typ @ ''/'' @ pkg)
                       in map_option Some (case filename of
                            None \<Rightarrow> Some path
                          | Some f \<Rightarrow> Option.bind (strcat (PATH_MAX_LENGTH pe) path ''/'')
                                        (\<lambda>p. strcat (PATH_MAX_LENGTH pe) p f))
      | _ \<Rightarrow> Some None)"

text \<open>
  In \<open>app_absolute_to_relative_path\<close> the character before the package name is overwritten by a NUL; when the
  package name comes first that is the NUL that ended the prefix.
\<close>

definition app_absolute_to_relative_path ::
  "path_env \<Rightarrow> string \<Rightarrow> string option \<Rightarrow> string option" where
  "app_absolute_to_relative_path pe pkg absolute_path =
     (case absolute_path of
        None \<Rightarrow> None
      | Some abs_path \<Rightarrow>
          (case strstr abs_path ABS_PATH_PREFIX of
             None \<Rightarrow> None
           | Some i \<Rightarrow>
               let rest = drop (i + length ABS_PATH_PREFIX) abs_path;
                   typ = drop 1 (dropWhile (\<lambda>c. c \<noteq> CHR ''/'') rest)
               in if CHR ''/'' \<notin> set rest then None
                  else (case strstr typ pkg of
                          None \<Rightarrow> None
                        | Some j \<Rightarrow>
                            let filename = drop (j + length pkg + 1) typ;
                                typ = (if j = 0 then typ else take (j - 1) typ)
                            in Some (snprintf (PATH_MAX_LENGTH pe) [] (APP_PATH_PREFIX @ typ @ ''/'' @ filename)))))"

definition app_relative_path_generator :: "path_env \<Rightarrow> string \<Rightarrow> string \<Rightarrow> string \<Rightarrow> string" where
  "app_relative_path_generator pe pkg type filename =
     snprintf (PATH_MAX_LENGTH pe) [] (APP_PATH_PREFIX @ type @ ''/'' @ pkg @ ''/'' @ filename)"

text \<open>\<open>dot\<close> is the prefix of a relative directory: empty on NuttX, a dot elsewhere.\<close>

definition app_absolute_path_generator :: "path_env \<Rightarrow> string \<Rightarrow> string \<Rightarrow> string \<Rightarrow> string \<Rightarrow> string" where
  "app_absolute_path_generator pe dot pkg type filename =
     snprintf (PATH_MAX_LENGTH pe) (snprintf (PATH_MAX_LENGTH pe) [] dot)
       (ABS_PATH_PREFIX @ ''/'' @ type @ ''/'' @ pkg @ ''/'' @ filename)"

definition is_path_in_tmp :: "string option \<Rightarrow> bool" where
  "is_path_in_tmp path =
     (case path of
        None \<Rightarrow> False
      | Some p \<Rightarrow> strstr p APP_PATH_PREFIX \<noteq> None \<and> prefix (type_list ! 3) (drop (length APP_PATH_PREFIX) p))"

section \<open>The directories of a path\<close>

text \<open>
  \<open>dirs\<close> are the paths that exist; \<open>mkdir dirs d\<close> is the result of the system call, 0 when the
  directory has been made.
\<close>

function mkdirs :: "(string list \<Rightarrow> string \<Rightarrow> int) \<Rightarrow> nat option \<Rightarrow> string \<Rightarrow> nat \<Rightarrow> int \<Rightarrow> string list
    \<Rightarrow> int \<times> string list" where
  "mkdirs mkdir None data pos res dirs = (res, dirs)"
| "mkdirs mkdir (Some token) data pos res dirs =
     (let (token, data, pos) = strtok_r ''/'' data pos;
          data = (case token of None \<Rightarrow> data | Some t \<Rightarrow> data[t - 1 := CHR ''/'']);
          d = cstr_at data 0
      in if d \<in> set dirs then mkdirs mkdir token data pos 0 dirs
         else let res = mkdir dirs d
              in mkdirs mkdir token data pos res (if res = 0 then d # dirs else dirs))"
  by pat_completeness auto
termination
proof (relation "measure (\<lambda>(mkdir, token, data, pos, res, dirs). if token = None then 0 else Suc (length data - pos))")
qed (auto dest: strtok_r_less split: option.splits)

declare mkdirs.simps(2) [simp del]

text \<open>The last slash ends the directory; a path without one has none.\<close>

definition app_check_path :: "nat \<Rightarrow> (string list \<Rightarrow> string \<Rightarrow> int) \<Rightarrow> string \<Rightarrow> string list \<Rightarrow> (int \<times> string list) option" where
  "app_check_path PATH_MAX mkdir path dirs =
     (if path \<in> set dirs then Some (0, dirs)
      else if PATH_MAX \<le> length path then None
      else if CHR ''/'' \<notin> set path then Some (0, dirs)
      else let data = rev (drop 1 (dropWhile (\<lambda>c. c \<noteq> CHR ''/'') (rev path))) @ [NUL];
               (token, data, pos) = strtok_r ''/'' data 0
           in Some (mkdirs mkdir token data pos (-1) dirs))"

end
