(* ===== verification/TextProps.thy ===== *)
theory TextProps
  imports TextUtils
begin

unbundle bit_operations_syntax

text \<open>
  The properties of the text utilities: the round trips of URLs, headers and paths with the bounds of
  their buffers, and what a split returns.
\<close>

section \<open>Escapes\<close>

lemma hex_digits:
  assumes "n < (16 :: byte)"
  shows "from_hex (hex n) = n" "hex n \<noteq> 0"
    "hex n \<in> set (map of_char ''0123456789ABCDEF'')"
proof -
  have "unat n < 16" using assms by (simp add: word_less_nat_alt)
  then have "unat n \<in> set [0..<16]" by simp
  moreover have "n = of_nat (unat n)" by simp
  ultimately have "n \<in> set (map of_nat [0..<16])" by (metis image_eqI list.set_map)
  then have "n \<in> set [0, 1, 2, 3, 4, 5, 6, 7, 8, 9, 10, 11, 12, 13, 14, 15]"
    by (simp add: upt_rec)
  then show "from_hex (hex n) = n" "hex n \<noteq> 0" "hex n \<in> set (map of_char ''0123456789ABCDEF'')"
    by (auto simp: hex_def from_hex_def isdigit_def toupper_def islower_def of_char_def)
qed

lemma low_nibble: "(c AND 15 :: byte) = take_bit 4 c"
  by (simp add: take_bit_eq_mask mask_eq_exp_minus_1)

lemma nibbles: "push_bit 4 (drop_bit 4 c AND 15) OR (c AND 15) = (c :: byte)"
  unfolding low_nibble by (rule bit_word_eqI) (auto simp: bit_simps)

lemma nibble_less: "(c AND 15 :: byte) < 16"
proof -
  have "unat (take_bit 4 c) = take_bit 4 (unat c)" by (simp add: unsigned_take_bit_eq)
  also have "\<dots> < 2 ^ 4" by (rule take_bit_nat_less_exp)
  finally show ?thesis by (simp add: word_less_nat_alt low_nibble)
qed

definition esc :: "byte \<Rightarrow> byte list" where
  "esc c = (if isalnum c \<or> is_reserved_char c then [c] else [37, hex (drop_bit 4 c AND 15), hex (c AND 15)])"

lemma url_encode_eq: "url_encode s = Some (concat (map esc s) @ [0])"
proof -
  have "url_encode_loop cap s buf = Some (buf @ concat (map esc s) @ [0])"
    if "length buf + 3 * length s < cap" for cap buf
    using that
  proof (induction s arbitrary: buf)
    case (Cons c s)
    then show ?case by (simp add: put_char_def esc_def)
  qed (simp add: put_char_def)
  then show ?thesis by (simp add: url_encode_def)
qed

lemma esc_nonzero:
  assumes "c \<noteq> 0"
  shows "0 \<notin> set (esc c)"
  using assms hex_digits(2) [OF nibble_less] by (auto simp: esc_def)

lemma plain_not_percent: "isalnum c \<or> is_reserved_char c \<Longrightarrow> c \<noteq> 37"
  by (auto simp: isalnum_def isdigit_def isupper_def islower_def is_reserved_char_def reserved_char_def of_char_def)

lemma url_decode_esc:
  assumes "length buf + length s < cap"
  shows "url_decode_loop cap (concat (map esc s)) buf = Some (buf @ s @ [0])"
  using assms
proof (induction s arbitrary: buf)
  case (Cons c s)
  show ?case
  proof (cases "isalnum c \<or> is_reserved_char c")
    case True
    then show ?thesis using Cons plain_not_percent [OF True] by (simp add: esc_def put_char_def)
  next
    case False
    then show ?thesis using Cons nibbles [of c] hex_digits(1) [OF nibble_less]
      by (simp add: esc_def put_char_def)
  qed
qed (simp add: put_char_def)

definition url_safe :: "byte \<Rightarrow> bool" where
  "url_safe c = (isalnum c \<or> is_reserved_char c \<or> c = 37)"

lemma esc_safe: "set (esc c) \<subseteq> Collect url_safe"
proof -
  have "list_all isalnum (map of_char ''0123456789ABCDEF'')"
    by (simp add: isalnum_def isdigit_def isupper_def islower_def of_char_def)
  then have "n < 16 \<Longrightarrow> isalnum (hex n)" for n
    using hex_digits(3) [of n] by (simp only: list_all_iff)
  then show ?thesis using nibble_less by (auto simp: esc_def url_safe_def)
qed

lemma esc_length: "length (concat (map esc s)) \<le> 3 * length s" "length s \<le> length (concat (map esc s))"
  by (induction s) (auto simp: esc_def)

text \<open>C32: Encoding a string without NULs never leaves the buffer of three times its length, yields
  characters of a URL only, and decoding gives the string back, again within its buffer.\<close>

theorem url_escapes_roundtrip:
  assumes "0 \<notin> set s"
  shows "\<exists>e. url_encode s = Some e \<and> list_all url_safe (c_bytes e) \<and> length e \<le> 3 * length s + 1
    \<and> map_option c_bytes (url_decode (c_bytes e)) = Some s"
proof -
  have nz: "\<forall>c\<in>set (concat (map esc s)). c \<noteq> 0" using assms esc_nonzero by (induction s) auto
  have e: "c_bytes (concat (map esc s) @ [0]) = concat (map esc s)"
    unfolding c_bytes_def using nz by (subst takeWhile_append2) auto
  have "url_decode (concat (map esc s)) = Some (s @ [0])"
    using url_decode_esc [of "[]" s] esc_length(2) [of s] by (simp add: url_decode_def)
  moreover have "c_bytes (s @ [0]) = s"
    unfolding c_bytes_def using assms by (subst takeWhile_append2) auto
  moreover have "list_all url_safe (concat (map esc s))" using esc_safe by (fastforce simp: list_all_iff)
  ultimately show ?thesis unfolding url_encode_eq using e esc_length(1) [of s] by simp
qed

theorem url_escapes_roundtrip_witness:
  "\<exists>e. url_encode [97, 32, 37, 200] = Some e \<and> list_all url_safe (c_bytes e) \<and> length e \<le> 3 * length [97, 32, 37, 200 :: byte] + 1
    \<and> map_option c_bytes (url_decode (c_bytes e)) = Some [97, 32, 37, 200]"
  by (rule url_escapes_roundtrip) simp

section \<open>Tokens\<close>

fun split_on :: "('a \<Rightarrow> bool) \<Rightarrow> 'a list \<Rightarrow> 'a list list" where
  "split_on P [] = [[]]"
| "split_on P (c # s) = (if P c then [] # split_on P s else (c # hd (split_on P s)) # tl (split_on P s))"

definition pieces :: "('a \<Rightarrow> bool) \<Rightarrow> 'a list \<Rightarrow> 'a list list" where
  "pieces P s = filter (\<lambda>t. t \<noteq> []) (split_on P s)"

lemma split_on_ne [simp]: "split_on P s \<noteq> []"
  by (induction s) auto

lemma split_on_token:
  assumes "\<forall>c\<in>set t. \<not> P c"
  shows "split_on P t = [t]" "P c \<Longrightarrow> split_on P (t @ c # r) = t # split_on P r"
  using assms by (induction t) auto

lemma split_on_length: "length (split_on P s) = Suc (length (filter P s))"
  by (induction s) auto

lemma pieces_simps [simp]:
  "pieces P [] = []"
  "P c \<Longrightarrow> pieces P (c # s) = pieces P s"
  by (auto simp: pieces_def)

lemma pieces_skip: "\<forall>c\<in>set ds. P c \<Longrightarrow> pieces P (ds @ s) = pieces P s"
  by (induction ds) auto

lemma pieces_token:
  assumes "\<forall>c\<in>set t. \<not> P c" "t \<noteq> []"
  shows "pieces P t = [t]" "P c \<Longrightarrow> pieces P (t @ c # r) = t # pieces P r"
  using assms split_on_token [OF assms(1)] by (auto simp: pieces_def)

lemma pieces_bound: "length (pieces P s) \<le> Suc (length (filter P s))"
  unfolding pieces_def split_on_length [symmetric] by (rule length_filter_le)

lemma takeWhile_stop: "\<not> P x \<Longrightarrow> takeWhile P (s @ x # r) = takeWhile P s"
  by (induction s) auto

lemma cstr_at_mid:
  assumes "NUL \<notin> set s" "i = length pre"
  shows "cstr_at (pre @ s @ NUL # post) i = s"
  using assms unfolding cstr_at_def by (simp add: takeWhile_stop) (metis takeWhile_eq_all_conv)

lemma strtok_r_at:
  fixes pre :: string
  assumes ds: "\<forall>c\<in>set ds. c \<in> set delim" and rest: "rest \<noteq> [] \<Longrightarrow> hd rest \<notin> set delim"
    and nul: "NUL \<notin> set ds" "NUL \<notin> set rest" "NUL \<notin> set delim"
  defines "start \<equiv> length pre + length ds"
  defines "t \<equiv> takeWhile (\<lambda>c. c \<notin> set delim) rest"
  shows "strtok_r delim (pre @ ds @ rest @ [NUL]) (length pre) =
    (if rest = [] then (None, pre @ ds @ rest @ [NUL], start)
     else if t = rest then (Some start, pre @ ds @ rest @ [NUL], start + length t)
     else (Some start, (pre @ ds @ rest @ [NUL])[start + length t := NUL], Suc (start + length t)))"
proof -
  have "takeWhile (\<lambda>c. c \<in> set delim) (rest @ [NUL]) = []"
    using rest nul(3) by (cases rest) auto
  then have tw: "takeWhile (\<lambda>c. c \<in> set delim) (drop (length pre) (pre @ ds @ rest @ [NUL])) = ds"
    using ds by (simp add: takeWhile_append2)
  have c1: "cstr_at (pre @ ds @ rest @ [NUL]) start = rest"
    using cstr_at_mid [of rest start "pre @ ds" "[]"] nul(2) by (simp add: start_def)
  obtain u where u: "rest = t @ u" unfolding t_def by (metis takeWhile_dropWhile_id)
  have c2: "cstr_at (pre @ ds @ rest @ [NUL]) (start + length t) = u"
    using cstr_at_mid [of u "start + length t" "pre @ ds @ t" "[]"] nul(2) by (simp add: start_def u)
  have "u = [] \<longleftrightarrow> t = rest" using u by auto
  then show ?thesis
    unfolding strtok_r_def tw by (simp add: c1 c2 Let_def start_def [symmetric] t_def [symmetric])
qed

lemma strtok_all_pieces:
  assumes "NUL \<notin> set s" "NUL \<notin> set delim"
  shows "strtok_all delim (pre @ s @ [NUL]) (length pre) = pieces (\<lambda>c. c \<in> set delim) s"
  using assms(1)
proof (induction "length s" arbitrary: s pre rule: less_induct)
  case less
  define ds rest where "ds = takeWhile (\<lambda>c. c \<in> set delim) s" and "rest = dropWhile (\<lambda>c. c \<in> set delim) s"
  define t where "t = takeWhile (\<lambda>c. c \<notin> set delim) rest"
  have s: "s = ds @ rest" by (simp add: ds_def rest_def)
  have ds: "\<forall>c\<in>set ds. c \<in> set delim" unfolding ds_def by (meson set_takeWhileD)
  have rest: "rest \<noteq> [] \<Longrightarrow> hd rest \<notin> set delim" unfolding rest_def by (rule hd_dropWhile)
  have nul: "NUL \<notin> set ds" "NUL \<notin> set rest" using less.prems s by auto
  have step: "strtok_r delim (pre @ s @ [NUL]) (length pre) =
    (if rest = [] then (None, pre @ s @ [NUL], length pre + length ds)
     else if t = rest then (Some (length pre + length ds), pre @ s @ [NUL], length pre + length ds + length t)
     else (Some (length pre + length ds), (pre @ s @ [NUL])[length pre + length ds + length t := NUL],
           Suc (length pre + length ds + length t)))"
    using strtok_r_at [OF ds rest nul assms(2), of pre] by (simp add: s t_def)
  have tD: "\<forall>c\<in>set t. c \<notin> set delim" unfolding t_def by (auto dest: set_takeWhileD)
  consider (none) "rest = []" | (last) "rest \<noteq> []" "t = rest" | (more) "rest \<noteq> []" "t \<noteq> rest" by blast
  then show ?case
  proof cases
    case none
    then show ?thesis using step pieces_skip [OF ds, of "[]"] by (simp add: strtok_all.simps s)
  next
    case last
    have "strtok_r delim (pre @ s @ [NUL]) (length (pre @ s)) = (None, pre @ s @ [NUL], length (pre @ s))"
      using strtok_r_at [of "[]" delim "[]" "pre @ s"] assms(2) by simp
    then have "strtok_all delim (pre @ s @ [NUL]) (length pre + length ds + length t) = []"
      using last by (subst strtok_all.simps) (simp add: s add.assoc)
    moreover have "cstr_at (pre @ s @ [NUL]) (length pre + length ds) = rest"
      using cstr_at_mid [of rest "length pre + length ds" "pre @ ds" "[]"] nul(2) by (simp add: s)
    ultimately have "strtok_all delim (pre @ s @ [NUL]) (length pre) = [rest]"
      using step last by (subst strtok_all.simps) simp
    then show ?thesis using pieces_skip [OF ds, of rest] pieces_token(1) [OF tD] last by (simp add: s)
  next
    case more
    have "rest = t @ dropWhile (\<lambda>c. c \<notin> set delim) rest" by (simp add: t_def)
    then obtain c r where r: "rest = t @ c # r"
      using more(2) by (cases "dropWhile (\<lambda>c. c \<notin> set delim) rest") auto
    have c: "c \<in> set delim" using r unfolding t_def by (metis dropWhile_eq_Cons_conv takeWhile_dropWhile_id same_append_eq)
    have "t \<noteq> []" using more(1) rest r c by (cases t) auto
    let ?pre = "pre @ ds @ t @ [NUL]"
    have buf: "(pre @ s @ [NUL])[length pre + length ds + length t := NUL] = ?pre @ r @ [NUL]"
      by (simp add: s r list_update_append)
    have "cstr_at (?pre @ r @ [NUL]) (length pre + length ds) = t"
      using cstr_at_mid [of t "length pre + length ds" "pre @ ds" "r @ [NUL]"] nul(2) r by simp
    moreover have "strtok_all delim (?pre @ r @ [NUL]) (length ?pre) = pieces (\<lambda>c. c \<in> set delim) r"
      by (rule less.hyps) (use s r nul(2) in auto)
    ultimately have "strtok_all delim (pre @ s @ [NUL]) (length pre) = t # pieces (\<lambda>c. c \<in> set delim) r"
      using step more buf by (subst strtok_all.simps) (simp add: add.assoc)
    then show ?thesis
      using pieces_skip [OF ds, of rest] pieces_token(2) [of t "\<lambda>c. c \<in> set delim" c r] tD \<open>t \<noteq> []\<close> c by (simp add: s r)
  qed
qed

lemma store_tokens_eq:
  assumes "k + length ts \<le> length r"
  shows "store_tokens ts k r = Some (take k r @ map Some ts @ drop (k + length ts) r)"
  using assms
proof (induction ts arbitrary: k r)
  case (Cons t ts)
  then have "take (Suc k) (r[k := Some t]) = take k r @ [Some t]"
    by (simp add: take_Suc_conv_app_nth)
  then show ?case using Cons by simp
qed simp

text \<open>C34: For a single delimiter, \<open>split_str\<close> returns exactly the non-empty pieces between the delimiters, in
  their order and within the array it has allocated; \<open>count\<close> is the number of delimiters plus one, so the
  entries that empty pieces leave over are null pointers.\<close>

theorem split_str_pieces:
  assumes "NUL \<notin> set s" "d \<noteq> NUL"
  shows "let ps = pieces (\<lambda>c. c = d) s; n = Suc (length (filter (\<lambda>c. c = d) s))
    in split_str s [d] = Some (map Some ps @ replicate (n - length ps) None, n) \<and> length ps \<le> n"
proof -
  have "length (pieces (\<lambda>c. c = d) s) \<le> Suc (length (filter (\<lambda>c. c = d) s))" by (rule pieces_bound)
  moreover have "strtok_all [d] (s @ [NUL]) 0 = pieces (\<lambda>c. c = d) s"
    using strtok_all_pieces [of s "[d]" "[]"] assms by simp
  ultimately show ?thesis
    by (simp add: split_str_def store_tokens_eq drop_replicate Let_def del: replicate_Suc)
qed

theorem split_str_pieces_witness:
  "split_str ''AES--CBC'' ''-'' = Some ([Some ''AES'', Some ''CBC'', None], 3)"
  using split_str_pieces [of "''AES--CBC''" "CHR ''-''"] by (simp add: pieces_def)

section \<open>Response headers\<close>

lemma header_line_eq:
  assumes "CHR '':'' \<notin> set k"
  shows "header_line (k @ CHR '':'' # c # v @ [CHR 0x0D]) = Some (k, v)"
    "header_line (k @ CHR '':'' # [CHR 0x0D]) = Some (k, [])"
    "header_line k = None"
proof -
  have k: "takeWhile (\<lambda>c. c \<noteq> CHR '':'') k = k" using assms by (auto simp: takeWhile_eq_all_conv)
  show "header_line (k @ CHR '':'' # c # v @ [CHR 0x0D]) = Some (k, v)"
    "header_line (k @ CHR '':'' # [CHR 0x0D]) = Some (k, [])" "header_line k = None"
    by (simp_all add: header_line_def takeWhile_stop k)
qed

lemma pieces_lines:
  assumes "\<forall>l\<in>set ls. l \<noteq> [] \<and> \<not> list_ex P l" "P c"
  shows "pieces P (concat (map (\<lambda>l. l @ [c]) ls)) = ls"
  using assms(1)
proof (induction ls)
  case (Cons l ls)
  then show ?case using pieces_token(2) [of l P c "concat (map (\<lambda>l. l @ [c]) ls)"] assms(2)
    by (simp add: list_ex_iff)
qed simp

lemma fold_prop_put_new:
  assumes "distinct (map fst obj @ map fst hs)"
  shows "fold (\<lambda>(k, v) obj. prop_put k (f v) obj) hs obj = obj @ map (\<lambda>(k, v). (k, f v)) hs"
  using assms
proof (induction hs arbitrary: obj)
  case (Cons h hs)
  have "prop_put k x obj = obj @ [(k, x)]" if "k \<notin> fst ` set obj" for k x
    using that by (induction obj) auto
  then show ?case using Cons by (cases h) auto
qed simp

lemma fold_lines:
  assumes "\<forall>h\<in>set hs. header_line (g h) = Some (fst h, snd (snd h))"
  shows "fold (\<lambda>line obj. case header_line line of None \<Rightarrow> obj | Some (k, v) \<Rightarrow> prop_put k (JStr v) obj) (map g hs) obj
    = fold (\<lambda>(k, v) obj. prop_put k (JStr v) obj) (map (\<lambda>h. (fst h, snd (snd h))) hs) obj"
  using assms by (induction hs arbitrary: obj) auto

definition header_block :: "(string \<times> char \<times> string) list \<Rightarrow> string" where
  "header_block hs = concat (map (\<lambda>(k, c, v). k @ CHR '':'' # c # v @ [CHR 0x0D, CHR 0x0A]) hs)"

definition header_ok :: "string \<times> char \<times> string \<Rightarrow> bool" where
  "header_ok h = (case h of (k, c, v) \<Rightarrow> CHR '':'' \<notin> set k \<and> list_all (\<lambda>x. x \<noteq> NUL \<and> x \<noteq> CHR 0x0A) (k @ c # v))"

text \<open>From a block of header lines with distinct names the parser makes an object with exactly those names
  and values. The one character after the colon is dropped whatever it is: a space in the usual form, the first
  character of the value when a header has none.\<close>

theorem headers_are_parsed:
  assumes "list_all header_ok hs" "distinct (map fst hs)"
  shows "ft_form_headers (header_block hs) = map (\<lambda>(k, c, v). (k, JStr v)) hs"
proof -
  define ls where "ls = map (\<lambda>(k, c, v). k @ CHR '':'' # c # v @ [CHR 0x0D]) hs"
  have b: "header_block hs = concat (map (\<lambda>l. l @ [CHR 0x0A]) ls)"
    unfolding header_block_def ls_def by (induction hs) auto
  have ls: "\<forall>l\<in>set ls. l \<noteq> [] \<and> NUL \<notin> set l \<and> CHR 0x0A \<notin> set l"
  proof
    fix l assume "l \<in> set ls"
    then obtain k c v where "(k, c, v) \<in> set hs" and l: "l = k @ CHR '':'' # c # v @ [CHR 0x0D]"
      by (auto simp: ls_def)
    then have "header_ok (k, c, v)" using assms(1) by (simp add: list_all_iff)
    then show "l \<noteq> [] \<and> NUL \<notin> set l \<and> CHR 0x0A \<notin> set l"
      by (auto simp: l header_ok_def list_all_iff)
  qed
  then have "NUL \<notin> set (header_block hs)" by (auto simp: b)
  then have "strtok_all [CHR 0x0A] (header_block hs @ [NUL]) 0 = pieces (\<lambda>c. c = CHR 0x0A) (header_block hs)"
    using strtok_all_pieces [of _ "[CHR 0x0A]" "[]"] by simp
  also have "\<dots> = ls" unfolding b by (rule pieces_lines) (use ls in \<open>auto simp: list_ex_iff\<close>)
  finally have t: "strtok_all [CHR 0x0A] (header_block hs @ [NUL]) 0 = ls" .
  have h: "\<forall>h\<in>set hs. header_line ((\<lambda>(k, c, v). k @ CHR '':'' # c # v @ [CHR 0x0D]) h) = Some (fst h, snd (snd h))"
  proof
    fix h assume "h \<in> set hs"
    then have "header_ok h" using assms(1) by (simp add: list_all_iff)
    moreover obtain k c v where "h = (k, c, v)" by (cases h)
    ultimately show "header_line ((\<lambda>(k, c, v). k @ CHR '':'' # c # v @ [CHR 0x0D]) h) = Some (fst h, snd (snd h))"
      using header_line_eq(1) [of k c v] by (simp add: header_ok_def)
  qed
  have "ft_form_headers (header_block hs) = fold (\<lambda>(k, v) obj. prop_put k (JStr v) obj) (map (\<lambda>h. (fst h, snd (snd h))) hs) []"
    unfolding ft_form_headers_def t ls_def using fold_lines [OF h] .
  also have "\<dots> = map (\<lambda>(k, c, v). (k, JStr v)) hs"
    using fold_prop_put_new [of "[]" "map (\<lambda>h. (fst h, snd (snd h))) hs" JStr] assms(2)
    by (simp add: comp_def case_prod_beta)
  finally show ?thesis .
qed

theorem headers_are_parsed_witness:
  "ft_form_headers (header_block [(''Server'', CHR '' '', ''nginx''), (''Content-Type'', CHR ''t'', ''ext/html'')])
    = [(''Server'', JStr ''nginx''), (''Content-Type'', JStr ''ext/html'')]"
  by (rule trans [OF headers_are_parsed]) (simp_all add: header_ok_def)

section \<open>Application paths\<close>

lemma prefix_before:
  assumes "c \<notin> set n" "prefix n (u @ c # v)"
  shows "prefix n u"
proof (rule ccontr)
  assume "\<not> prefix n u"
  then obtain t where "n = u @ t" "t \<noteq> []" "prefix t (c # v)"
    using assms(2) by (auto simp: prefix_append)
  then have "c \<in> set n" by (cases t) auto
  then show False using assms(1) by contradiction
qed

lemma strstr_0: "prefix n s \<Longrightarrow> strstr s n = Some 0"
  by (cases s) auto

lemma strstr_package:
  assumes "CHR ''/'' \<notin> set pkg" "pkg \<noteq> []" "\<not> sublist pkg typ"
  shows "strstr (typ @ CHR ''/'' # pkg @ r) pkg = Some (Suc (length typ))"
  using assms(3)
proof (induction "typ")
  case Nil
  have "\<not> prefix pkg (CHR ''/'' # pkg @ r)" using assms(1,2) by (cases pkg) auto
  then show ?case by (simp add: strstr_0)
next
  case (Cons c ty)
  then have "\<not> prefix pkg ((c # ty) @ CHR ''/'' # pkg @ r)"
    using prefix_before [OF assms(1), of "c # ty"] by (auto simp: sublist_Cons_right)
  then show ?case using Cons by (simp add: sublist_Cons_right)
qed

definition package_types :: "string list" where
  "package_types = [''cache'', ''file'', ''mass'']"

definition absolute_of :: "path_env \<Rightarrow> string \<Rightarrow> string \<Rightarrow> string" where
  "absolute_of pe pkg typ = pe_cwd pe @ ABS_PATH_PREFIX @ ''/'' @ typ @ ''/'' @ pkg"

lemma package_type_facts:
  assumes "typ \<in> set package_types"
  shows "takeWhile (\<lambda>c. c \<noteq> CHR ''/'') typ = typ" "list_ex (\<lambda>t. prefix t typ) type_list" "typ \<noteq> type_list ! 3"
    "length typ \<le> 5"
  using assms by (auto simp: package_types_def type_list_def)

lemma package_path:
  assumes "typ \<in> set package_types" "length (absolute_of pe pkg typ) < PATH_MAX_LENGTH pe"
  shows "app_relative_to_absolute_path pe (Some pkg) (Some (APP_PATH_PREFIX @ typ @ ''/'' @ f)) =
    (if length (absolute_of pe pkg typ) + 1 + length f < PATH_MAX_LENGTH pe
     then Some (Some (absolute_of pe pkg typ @ ''/'' @ f)) else None)"
proof -
  have "takeWhile (\<lambda>c. c \<noteq> CHR ''/'') (typ @ CHR ''/'' # f) = typ"
    using package_type_facts(1) [OF assms(1)] by (simp add: takeWhile_stop)
  moreover have "strstr (APP_PATH_PREFIX @ r) APP_PATH_PREFIX = Some 0" for r by (rule strstr_0) simp
  moreover have "snprintf (PATH_MAX_LENGTH pe) (pe_cwd pe) (ABS_PATH_PREFIX @ ''/'' @ typ @ ''/'' @ pkg) = absolute_of pe pkg typ"
    using assms(2) by (simp add: snprintf_def absolute_of_def)
  ultimately show ?thesis
    using package_type_facts(2,3) [OF assms(1)] assms(2)
    by (simp add: app_relative_to_absolute_path_def Let_def strcat_def)
qed

text \<open>C38: A path \<open>internal://TYPE/FILE\<close> of one of the three types that belong to a package becomes the path of FILE in
  the directory of the type and the package; but only the directory is cut to the buffer: a file name that does
  not fit is written past its end.\<close>

theorem internal_path_resolves:
  assumes "typ \<in> set package_types" "length (absolute_of pe pkg typ) < PATH_MAX_LENGTH pe"
  shows "app_relative_to_absolute_path pe (Some pkg) (Some (APP_PATH_PREFIX @ typ @ ''/'' @ f)) =
    (if length (absolute_of pe pkg typ) + 1 + length f < PATH_MAX_LENGTH pe
     then Some (Some (absolute_of pe pkg typ @ ''/'' @ f)) else None)"
  by (rule package_path [OF assms])

theorem internal_path_resolves_witness:
  "app_relative_to_absolute_path (|PATH_MAX_LENGTH = 64, pe_cwd = []|) (Some ''com.app'') (Some (APP_PATH_PREFIX @ ''file'' @ ''/'' @ ''../../../etc'')) =
     Some (Some ''/data/quickapp/file/com.app/../../../etc'')
   \<and> app_relative_to_absolute_path (|PATH_MAX_LENGTH = 32, pe_cwd = []|) (Some ''com.app'') (Some (APP_PATH_PREFIX @ ''file'' @ ''/'' @ ''data'')) = None"
  using internal_path_resolves [of "''file''" "(|PATH_MAX_LENGTH = 64, pe_cwd = []|)" "''com.app''" "''../../../etc''"]
    internal_path_resolves [of "''file''" "(|PATH_MAX_LENGTH = 32, pe_cwd = []|)" "''com.app''" "''data''"]
  by (simp_all add: absolute_of_def package_types_def ABS_PATH_PREFIX_def)

text \<open>On a platform without working directory, the absolute path of a file of a package turns back into
  the internal path it came from, when the name of the package has no slash and does not occur in the type.\<close>

theorem path_roundtrip:
  assumes "typ \<in> set package_types" "pe_cwd pe = []"
    and pkg: "pkg \<noteq> []" "CHR ''/'' \<notin> set pkg" "\<not> sublist pkg typ"
    and fits: "length (absolute_of pe pkg typ @ ''/'' @ f) < PATH_MAX_LENGTH pe"
  shows "Option.bind (app_relative_to_absolute_path pe (Some pkg) (Some (APP_PATH_PREFIX @ typ @ ''/'' @ f)))
      (app_absolute_to_relative_path pe pkg) = Some (APP_PATH_PREFIX @ typ @ ''/'' @ f)"
proof -
  have p: "app_relative_to_absolute_path pe (Some pkg) (Some (APP_PATH_PREFIX @ typ @ ''/'' @ f)) =
      Some (Some (absolute_of pe pkg typ @ ''/'' @ f))"
    using package_path [OF assms(1), of pe pkg f] fits by simp
  have a: "absolute_of pe pkg typ @ ''/'' @ f = ABS_PATH_PREFIX @ ''/'' @ typ @ ''/'' @ pkg @ ''/'' @ f"
    by (simp add: absolute_of_def assms(2))
  have "strstr (ABS_PATH_PREFIX @ r) ABS_PATH_PREFIX = Some 0" for r by (rule strstr_0) simp
  moreover have "strstr (typ @ CHR ''/'' # pkg @ CHR ''/'' # f) pkg = Some (Suc (length typ))"
    by (rule strstr_package [OF pkg(2,1,3)])
  moreover have "length (APP_PATH_PREFIX @ typ @ ''/'' @ f) < PATH_MAX_LENGTH pe"
    using fits by (simp add: absolute_of_def ABS_PATH_PREFIX_def APP_PATH_PREFIX_def)
  ultimately have "app_absolute_to_relative_path pe pkg (Some (absolute_of pe pkg typ @ ''/'' @ f)) =
      Some (APP_PATH_PREFIX @ typ @ ''/'' @ f)"
    unfolding a by (simp add: app_absolute_to_relative_path_def Let_def snprintf_def)
  then show ?thesis by (simp add: p [simplified])
qed

theorem path_roundtrip_witness:
  "Option.bind (app_relative_to_absolute_path (|PATH_MAX_LENGTH = 256, pe_cwd = []|) (Some ''com.app'') (Some (APP_PATH_PREFIX @ ''file'' @ ''/'' @ ''a/b.txt'')))
      (app_absolute_to_relative_path (|PATH_MAX_LENGTH = 256, pe_cwd = []|) ''com.app'') = Some (APP_PATH_PREFIX @ ''file'' @ ''/'' @ ''a/b.txt'')"
  by (rule path_roundtrip) (simp_all add: package_types_def absolute_of_def ABS_PATH_PREFIX_def sublist_Cons_right)

section \<open>The directories of a path\<close>

text \<open>One round of the loop: look for the directory and make it when it is not there.\<close>

definition visit :: "(string list \<Rightarrow> string \<Rightarrow> int) \<Rightarrow> string \<Rightarrow> int \<times> string list \<Rightarrow> int \<times> string list" where
  "visit mkdir d s = (if d \<in> set (snd s) then (0, snd s)
     else (mkdir (snd s) d, if mkdir (snd s) d = 0 then d # snd s else snd s))"

definition names :: "string list \<Rightarrow> string" where
  "names ds = concat (map (\<lambda>d. CHR ''/'' # d) ds)"

definition name_ok :: "string \<Rightarrow> bool" where
  "name_ok d = (d \<noteq> [] \<and> CHR ''/'' \<notin> set d \<and> NUL \<notin> set d)"

fun dirs_after :: "string \<Rightarrow> string list \<Rightarrow> string list" where
  "dirs_after P [] = [P]"
| "dirs_after P (d # ds) = (P @ CHR ''/'' # d) # dirs_after (P @ CHR ''/'' # d) ds"

lemma names_simps [simp]: "names [] = []" "names (d # ds) = CHR ''/'' # d @ names ds"
  by (simp_all add: names_def)

lemma names_nul: "list_all name_ok ds \<Longrightarrow> NUL \<notin> set (names ds)"
  by (induction ds) (auto simp: name_ok_def)

lemma strtok_name:
  assumes "name_ok d" "list_all name_ok ds" "\<forall>c\<in>set sl. c = CHR ''/''"
  shows "strtok_r ''/'' (pre @ sl @ d @ names ds @ [NUL]) (length pre) =
    (Some (length pre + length sl), pre @ sl @ d @ (if ds = [] then [NUL] else NUL # tl (names ds) @ [NUL]),
     length pre + length sl + length d + (if ds = [] then 0 else 1))"
proof -
  have d: "d \<noteq> []" "NUL \<notin> set d" "hd d \<noteq> CHR ''/''" "takeWhile (\<lambda>c. c \<notin> set ''/'') d = d"
    using assms(1) by (auto simp: name_ok_def takeWhile_eq_all_conv neq_Nil_conv)
  have t: "takeWhile (\<lambda>c. c \<notin> set ''/'') (d @ names ds) = d"
    using d(4) by (cases ds) (simp_all add: takeWhile_stop)
  have nul: "NUL \<notin> set sl" "NUL \<notin> set (d @ names ds)" "NUL \<notin> set ''/''"
    using assms(3) d(2) names_nul [OF assms(2)] by auto
  have sl: "\<forall>c\<in>set sl. c \<in> set ''/''" using assms(3) by simp
  have "hd (d @ names ds) \<notin> set ''/''" using d(1,3) by simp
  note strtok_r_at [OF sl this nul, of pre, unfolded t]
  moreover have "d = d @ names ds \<longleftrightarrow> ds = []" by (cases ds) auto
  moreover have "(pre @ sl @ (d @ names ds) @ [NUL])[length pre + length sl + length d := NUL]
      = pre @ sl @ d @ NUL # tl (names ds) @ [NUL]" if "ds \<noteq> []"
    using that by (cases ds) (auto simp: list_update_append)
  ultimately show ?thesis using d(1) by (cases "ds = []") simp_all
qed

lemma mkdirs_step:
  assumes "strtok_r ''/'' data pos = (token, data', pos')"
    "(case token of None \<Rightarrow> data' | Some t \<Rightarrow> data'[t - 1 := CHR ''/'']) = data''"
    "cstr_at data'' 0 = d"
  shows "mkdirs mkdir (Some t) data pos res dirs =
    (case visit mkdir d (res, dirs) of (r, x) \<Rightarrow> mkdirs mkdir token data'' pos' r x)"
  by (simp add: mkdirs.simps(2) assms visit_def Let_def)

lemma mkdirs_visits:
  assumes "NUL \<notin> set P" "list_all name_ok ds"
  shows "mkdirs mkdir (Some t) (P @ (if ds = [] then [NUL] else NUL # tl (names ds) @ [NUL]))
      (length P + (if ds = [] then 0 else 1)) res dirs =
    fold (visit mkdir) (dirs_after P ds) (res, dirs)"
  using assms
proof (induction ds arbitrary: P t res dirs)
  case Nil
  have "strtok_r ''/'' (P @ [NUL]) (length P) = (None, P @ [NUL], length P)"
    using strtok_r_at [of "[]" "''/''" "[]" P] by simp
  moreover have "cstr_at (P @ [NUL]) 0 = P" using cstr_at_mid [of P 0 "[]" "[]"] Nil by simp
  ultimately show ?case by (simp add: mkdirs.simps(2) visit_def Let_def)
next
  case (Cons d ds)
  let ?P = "P @ CHR ''/'' # d"
  let ?rest = "if ds = [] then [NUL] else NUL # tl (names ds) @ [NUL]"
  have s: "strtok_r ''/'' (P @ NUL # d @ names ds @ [NUL]) (Suc (length P)) =
      (Some (Suc (length P)), P @ NUL # d @ ?rest, Suc (length P) + length d + (if ds = [] then 0 else 1))"
    using strtok_name [of d ds "[]" "P @ [NUL]"] Cons.prems by simp
  have u: "(P @ NUL # d @ ?rest)[length P := CHR ''/''] = ?P @ ?rest" by (simp add: list_update_append)
  have nul: "NUL \<notin> set ?P" using Cons.prems by (simp add: name_ok_def)
  have c: "cstr_at (?P @ ?rest) 0 = ?P"
    using cstr_at_mid [OF nul, of 0 "[]" "tl ?rest"] by (cases "ds = []") simp_all
  have IH: "mkdirs mkdir (Some t') (?P @ ?rest) (length ?P + (if ds = [] then 0 else 1)) r x =
      fold (visit mkdir) (dirs_after ?P ds) (r, x)" for t' r x
    using Cons.IH [of ?P t' r x] nul Cons.prems(2) by simp
  have step: "mkdirs mkdir (Some t) (P @ NUL # d @ names ds @ [NUL]) (Suc (length P)) res dirs =
      (case visit mkdir ?P (res, dirs) of (r, x) \<Rightarrow>
         mkdirs mkdir (Some (Suc (length P))) (?P @ ?rest) (length ?P + (if ds = [] then 0 else 1)) r x)"
    by (rule mkdirs_step [OF s _ c, THEN trans]) (use u in \<open>auto split: prod.splits\<close>)
  obtain r x where v: "visit mkdir ?P (res, dirs) = (r, x)" by (cases "visit mkdir ?P (res, dirs)")
  have "mkdirs mkdir (Some t) (P @ NUL # d @ names ds @ [NUL]) (Suc (length P)) res dirs =
      fold (visit mkdir) (dirs_after ?P ds) (r, x)"
    unfolding step v using IH by (simp only: prod.case)
  then show ?case by (simp add: v)
qed

lemma last_slash:
  assumes "CHR ''/'' \<notin> set f"
  shows "rev (drop 1 (dropWhile (\<lambda>c. c \<noteq> CHR ''/'') (rev (P @ CHR ''/'' # f)))) = P"
proof -
  have "dropWhile (\<lambda>c. c \<noteq> CHR ''/'') (g @ CHR ''/'' # r) = CHR ''/'' # r" if "CHR ''/'' \<notin> set g" for g r
    using that by (induction g) auto
  then show ?thesis using assms by (simp only: rev_append rev.simps append_assoc append.simps set_rev) simp
qed

text \<open>The directories of a path are looked for, and made, from the second one on, each once, the last one twice;
  when there is only one, it alone.\<close>

lemma app_check_path_visits:
  assumes "name_ok d" "list_all name_ok ds" "CHR ''/'' \<notin> set f"
    "names (d # ds) @ CHR ''/'' # f \<notin> set dirs" "length (names (d # ds) @ CHR ''/'' # f) < n"
  shows "app_check_path n mkdir (names (d # ds) @ CHR ''/'' # f) dirs =
    Some (fold (visit mkdir) (dirs_after (CHR ''/'' # d) ds) (-1, dirs))"
proof -
  have "NUL \<notin> set (CHR ''/'' # d)" using assms(1) by (simp add: name_ok_def)
  then have "mkdirs mkdir (Some 1) ((CHR ''/'' # d) @ (if ds = [] then [NUL] else NUL # tl (names ds) @ [NUL]))
      (length (CHR ''/'' # d) + (if ds = [] then 0 else 1)) (-1) dirs =
    fold (visit mkdir) (dirs_after (CHR ''/'' # d) ds) (-1, dirs)"
    by (rule mkdirs_visits [OF _ assms(2)])
  then show ?thesis
    using assms(4,5) strtok_name [OF assms(1,2), of "''/''" "[]"] last_slash [OF assms(3), of "names (d # ds)"]
    by (simp add: app_check_path_def Let_def)
qed

text \<open>The documented behaviour of the system call: a directory is made in a directory that exists.\<close>

definition parent :: "string \<Rightarrow> string" where
  "parent d = rev (drop 1 (dropWhile (\<lambda>c. c \<noteq> CHR ''/'') (rev d)))"

definition mkdir_ok :: "(string list \<Rightarrow> string \<Rightarrow> int) \<Rightarrow> bool" where
  "mkdir_ok mkdir = (\<forall>dirs d. d \<notin> set dirs \<longrightarrow> parent d \<in> set dirs \<longrightarrow> mkdir dirs d = 0)"

definition posix_mkdir :: "string list \<Rightarrow> string \<Rightarrow> int" where
  "posix_mkdir dirs d = (if d \<notin> set dirs \<and> parent d \<in> set dirs then 0 else - 1)"

lemma visits_make:
  assumes "mkdir_ok mkdir" "P \<in> set dirs" "list_all name_ok ds"
  shows "\<exists>dirs'. fold (visit mkdir) (dirs_after P ds) (res, dirs) = (0, dirs') \<and>
    set dirs' = set dirs \<union> set (dirs_after P ds)"
  using assms(2,3)
proof (induction ds arbitrary: P res dirs)
  case (Cons d ds)
  let ?P = "P @ CHR ''/'' # d"
  have "parent ?P = P" unfolding parent_def by (rule last_slash) (use Cons.prems in \<open>simp add: name_ok_def\<close>)
  then have "\<exists>x. visit mkdir ?P (res, dirs) = (0, x) \<and> set x = insert ?P (set dirs)"
    using assms(1) Cons.prems(1) by (auto simp: visit_def mkdir_ok_def)
  then obtain x where x: "visit mkdir ?P (res, dirs) = (0, x)" "set x = insert ?P (set dirs)" by blast
  have "\<exists>dirs'. fold (visit mkdir) (dirs_after ?P ds) (0, x) = (0, dirs') \<and> set dirs' = set x \<union> set (dirs_after ?P ds)"
    by (rule Cons.IH) (use Cons.prems x in auto)
  then show ?case using x by auto
qed (auto simp: visit_def)

text \<open>When the first directory of a path exists, preparing the path succeeds and afterwards the directories that exist
  are those of before and every directory of the path; nothing else is made, and the buffer is never
  overrun when the path is shorter than it.\<close>

theorem directories_are_made:
  assumes "mkdir_ok mkdir" "name_ok d" "list_all name_ok ds" "CHR ''/'' \<notin> set f"
    "CHR ''/'' # d \<in> set dirs" "names (d # ds) @ CHR ''/'' # f \<notin> set dirs"
    "length (names (d # ds) @ CHR ''/'' # f) < n"
  shows "\<exists>dirs'. app_check_path n mkdir (names (d # ds) @ CHR ''/'' # f) dirs = Some (0, dirs') \<and>
    set dirs' = set dirs \<union> set (dirs_after (CHR ''/'' # d) ds)"
  using visits_make [OF assms(1,5,3)] by (simp only: app_check_path_visits [OF assms(2-4,6,7)]) blast

theorem directories_are_made_witness:
  "\<exists>dirs'. app_check_path 64 posix_mkdir ''/data/app/files/x.txt'' [''/data''] = Some (0, dirs') \<and>
    set dirs' = {''/data'', ''/data/app'', ''/data/app/files''}"
proof -
  have "mkdir_ok posix_mkdir" by (simp add: mkdir_ok_def posix_mkdir_def)
  then show ?thesis
    using directories_are_made [of posix_mkdir "''data''" "[''app'', ''files'']" "''x.txt''" "[''/data'']" 64]
    by (simp add: name_ok_def insert_commute)
qed

end
