(* ===== verification/Storage.thy ===== *)
theory Storage
  imports Instance "HOL-Library.List_Lexorder" "HOL-Library.Char_ord"
begin

text \<open>
  The storage module (\<open>modules/storage_impl.cpp\<close>): every asynchronous operation makes a
  \<open>StorageHandle\<close>, hands it to the key-value store and finishes in \<open>storage_cb\<close>; callbacks go through the handle
  API of the instance. The store (\<open>uv_db_*\<close>) is not part of the repository: \<open>db_exec\<close> is what an
  operation does to the contents and answers, \<open>db_accept\<close> the status its submission returns. The handles
  are a list, \<open>None\<close> once freed; \<open>sg_log\<close> records which handle is finished with which status. A use of a
  freed handle makes the result \<open>None\<close>.
\<close>

section \<open>State\<close>

datatype dbop = DbGet string | DbSet string string | DbDelete string | DbKey int

type_synonym db = "(string, string) omap"

record db_env =
  db_engine :: engine
  db_accept :: "dbop \<Rightarrow> int"
  db_exec :: "dbop \<Rightarrow> db \<Rightarrow> int \<times> string option \<times> string option \<times> db"
  db_close :: int
  db_unlink :: int
  db_init :: int
  uv_strerror :: "int \<Rightarrow> string"

definition UNQLITE_NOTFOUND :: int where "UNQLITE_NOTFOUND = - 6"

datatype storage_op =
    STORAGE_OP_GET
  | STORAGE_OP_SET
  | STORAGE_OP_CLEAR
  | STORAGE_OP_DELETE
  | STORAGE_OP_KEY
  | STORAGE_OP_SET_TO_DELETE
  | STORAGE_OP_NONE

record storage_handle =
  sh_op :: storage_op
  sh_success :: int
  sh_fail :: int
  sh_complete :: int
  sh_buf :: "string option"

text \<open>The argument objects: \<open>si_value\<close> is the default of a get and the value of a set.\<close>

record storage_info =
  si_key :: "string option"
  si_value :: "string option"
  si_success :: int
  si_fail :: int
  si_complete :: int

record storage =
  sg_inst :: "inst option"
  sg_world :: world
  sg_th :: bool
  sg_db :: db
  sg_handles :: "storage_handle option list"
  sg_pending :: "(dbop \<times> nat) list"
  sg_refs :: nat
  sg_log :: "(nat \<times> int) list"

section \<open>Handles and callbacks\<close>

definition storage_malloc :: "storage \<Rightarrow> nat \<times> storage" where
  "storage_malloc s =
     (length (sg_handles s),
      s\<lparr>sg_refs := Suc (sg_refs s), sg_handles := sg_handles s @
          [Some \<lparr>sh_op = STORAGE_OP_NONE, sh_success = - 1, sh_fail = - 1, sh_complete = - 1, sh_buf = None\<rparr>]\<rparr>)"

definition storage_free :: "nat \<Rightarrow> storage \<Rightarrow> storage option" where
  "storage_free h s =
     (case sg_handles s ! h of
        None \<Rightarrow> None
      | Some _ \<Rightarrow> Some (s\<lparr>sg_refs := sg_refs s - 1, sg_handles := (sg_handles s)[h := None]\<rparr>))"

definition sg_invoke :: "db_env \<Rightarrow> int \<Rightarrow> nval list \<Rightarrow> storage \<Rightarrow> storage" where
  "sg_invoke E cid ap s =
     s\<lparr>sg_world := snd (FeatureInvokeCallback (db_engine E) (sg_inst s) cid ap (sg_world s))\<rparr>"

definition sg_remove :: "int \<Rightarrow> storage \<Rightarrow> storage" where
  "sg_remove cid s =
     (let (r, h', w') = FeatureRemoveCallback (sg_inst s) cid (sg_world s) in s\<lparr>sg_inst := h', sg_world := w'\<rparr>)"

definition REMOVE_ALL_CBS :: "int \<Rightarrow> int \<Rightarrow> int \<Rightarrow> storage \<Rightarrow> storage" where
  "REMOVE_ALL_CBS success fail complete s = sg_remove complete (sg_remove fail (sg_remove success s))"

definition nstr :: "string option \<Rightarrow> nval" where
  "nstr m = (case m of None \<Rightarrow> NNull | Some t \<Rightarrow> NStr t)"

definition ncode :: "int \<Rightarrow> nval" where
  "ncode i = NBits (word_of_int i)"

definition finish_callback ::
  "db_env \<Rightarrow> int \<Rightarrow> int \<Rightarrow> int \<Rightarrow> int \<Rightarrow> string option \<Rightarrow> nat \<Rightarrow> storage \<Rightarrow> storage option" where
  "finish_callback E status success fail complete msg h s =
     (let s0 = s\<lparr>sg_log := sg_log s @ [(h, status)]\<rparr>;
          s1 = (if FeatureInstanceIsDetached (sg_inst s0) then s0
                else
                  (let s1 = (if status = 0
                             then sg_invoke E success [NStr (case msg of None \<Rightarrow> ''success'' | Some m \<Rightarrow> m)] s0
                             else sg_invoke E fail [nstr msg, ncode status] s0);
                       s2 = sg_invoke E complete [NStr (if status \<ge> 0 then ''success'' else ''fail'')] s1
                   in REMOVE_ALL_CBS success fail complete s2))
      in storage_free h s1)"

text \<open>\<open>key\<close> and \<open>value\<close> come from the store; reading the handle comes first.\<close>

definition storage_cb :: "db_env \<Rightarrow> int \<Rightarrow> string option \<Rightarrow> string option \<Rightarrow> nat \<Rightarrow> storage \<Rightarrow> storage option" where
  "storage_cb E status key value h s =
     (case sg_handles s ! h of
        None \<Rightarrow> None
      | Some handle \<Rightarrow>
          (let finish = (\<lambda>st msg. finish_callback E st (sh_success handle) (sh_fail handle) (sh_complete handle) msg h s)
           in if status = UNQLITE_NOTFOUND \<and> sh_op handle = STORAGE_OP_GET then finish 0 (sh_buf handle)
              else if status = UNQLITE_NOTFOUND \<and> sh_op handle = STORAGE_OP_SET_TO_DELETE then finish 0 (Some ''0'')
              else if status = 0 then
                finish 0 (if sh_op handle = STORAGE_OP_GET then value
                          else if sh_op handle = STORAGE_OP_KEY then key else Some ''0'')
              else
                (let status = (if status = UNQLITE_NOTFOUND \<and> sh_op handle = STORAGE_OP_DELETE then 200 else status)
                 in finish status (Some (uv_strerror E status)))))"

section \<open>The operations of the module\<close>

text \<open>The handle of an accepted operation takes the callbacks; submission puts it into the queue of the store.\<close>

definition sg_prepare :: "nat \<Rightarrow> storage_op \<Rightarrow> storage_info \<Rightarrow> string option \<Rightarrow> storage \<Rightarrow> storage" where
  "sg_prepare h op info buf s =
     s\<lparr>sg_handles := (sg_handles s)[h := Some \<lparr>sh_op = op, sh_success = si_success info, sh_fail = si_fail info,
        sh_complete = si_complete info, sh_buf = buf\<rparr>]\<rparr>"

definition finish_info :: "db_env \<Rightarrow> int \<Rightarrow> storage_info \<Rightarrow> string option \<Rightarrow> nat \<Rightarrow> storage \<Rightarrow> storage option" where
  "finish_info E status info msg h s =
     finish_callback E status (si_success info) (si_fail info) (si_complete info) msg h s"

definition sg_submit :: "db_env \<Rightarrow> dbop \<Rightarrow> bool \<Rightarrow> storage_info \<Rightarrow> string \<Rightarrow> nat \<Rightarrow> storage \<Rightarrow> storage option" where
  "sg_submit E q ok info msg h s =
     (if ok then Some (s\<lparr>sg_pending := sg_pending s @ [(q, h)]\<rparr>)
      else finish_info E (db_accept E q) info (Some msg) h s)"

definition key_empty :: "string option \<Rightarrow> bool" where
  "key_empty k \<longleftrightarrow> k = None \<or> k = Some []"

definition system_storage_wrap_get_sync :: "db_env \<Rightarrow> storage_info \<Rightarrow> storage \<Rightarrow> storage" where
  "system_storage_wrap_get_sync E info s =
     (let live = \<not> FeatureInstanceIsDetached (sg_inst s);
          finish = (\<lambda>first last s. REMOVE_ALL_CBS (si_success info) (si_fail info) (si_complete info)
                                  (sg_invoke E (si_complete info) [NStr last] (first s)))
      in if \<not> sg_th s then
           (if live then finish (sg_invoke E (si_fail info) [NStr ''FeatureGetObjectData fail'', ncode (- 1)]) ''fail'' s else s)
         else if key_empty (si_key info) then
           (if live then finish (sg_invoke E (si_fail info) [NStr ''key is empty'', ncode 202]) ''fail'' s else s)
         else
           (let (status, k, value, db) = db_exec E (DbGet (the (si_key info))) (sg_db s);
                s = s\<lparr>sg_db := db\<rparr>
            in if \<not> live then s
               else if status = 0 then finish (sg_invoke E (si_success info) [nstr value]) ''success'' s
               else if status = UNQLITE_NOTFOUND then
                 finish (sg_invoke E (si_success info) [NStr (case si_value info of None \<Rightarrow> [] | Some d \<Rightarrow> d)]) ''success'' s
               else finish (sg_invoke E (si_fail info) [NStr (uv_strerror E status), ncode status]) ''fail'' s))"

definition system_storage_wrap_get :: "db_env \<Rightarrow> storage_info \<Rightarrow> storage \<Rightarrow> storage option" where
  "system_storage_wrap_get E info s =
     (let (h, s) = storage_malloc s
      in if \<not> sg_th s then finish_info E (- 1) info (Some ''FeatureGetObjectData fail'') h s
         else if key_empty (si_key info) then finish_info E (- 1) info (si_value info) h s
         else (let s = sg_prepare h STORAGE_OP_GET info (si_value info) s; q = DbGet (the (si_key info))
               in sg_submit E q (db_accept E q = 0) info ''uv_db_get fail'' h s))"

definition system_storage_wrap_set :: "db_env \<Rightarrow> storage_info \<Rightarrow> storage \<Rightarrow> storage option" where
  "system_storage_wrap_set E info s =
     (let (h, s) = storage_malloc s
      in if \<not> sg_th s then finish_info E 202 info (Some ''FeatureGetObjectData fail'') h s
         else if key_empty (si_key info) then finish_info E 202 info (Some ''fail'') h s
         else case si_value info of
           None \<Rightarrow> finish_info E 202 info (Some ''fail'') h s
         | Some v \<Rightarrow>
             (if v = [] then
                (let s = sg_prepare h STORAGE_OP_SET_TO_DELETE info (Some v) s; q = DbDelete (the (si_key info))
                 in sg_submit E q (db_accept E q = 0) info ''uv_db_set fail'' h s)
              else
                (let s = sg_prepare h STORAGE_OP_SET info (Some v) s; q = DbSet (the (si_key info)) v
                 in sg_submit E q (db_accept E q = 0) info ''uv_db_set fail'' h s)))"

text \<open>\<open>STORAGE_CHECK_IF\<close> finishes the request but does not return.\<close>

definition STORAGE_CHECK_IF :: "db_env \<Rightarrow> int \<Rightarrow> storage_info \<Rightarrow> string \<Rightarrow> nat \<Rightarrow> storage \<Rightarrow> storage option" where
  "STORAGE_CHECK_IF E ret info msg h s = (if ret \<noteq> 0 then finish_info E ret info (Some msg) h s else Some s)"

definition system_storage_wrap_clear :: "db_env \<Rightarrow> storage_info \<Rightarrow> storage \<Rightarrow> storage option" where
  "system_storage_wrap_clear E info s =
     (let (h, s) = storage_malloc s
      in if \<not> sg_th s then finish_info E (- 1) info (Some ''FeatureGetObjectData fail'') h s
         else Option.bind (STORAGE_CHECK_IF E (db_close E) info ''uv_db_close fail'' h s) (\<lambda>s.
              let s = (if db_unlink E = 0 then s\<lparr>sg_db := []\<rparr> else s)
              in Option.bind (STORAGE_CHECK_IF E (db_init E) info ''uv_db_init fail'' h s) (\<lambda>s.
                 finish_info E (db_init E) info (Some ''succcess'') h s)))"

definition system_storage_wrap_delete :: "db_env \<Rightarrow> storage_info \<Rightarrow> storage \<Rightarrow> storage option" where
  "system_storage_wrap_delete E info s =
     (let (h, s) = storage_malloc s
      in if \<not> sg_th s then finish_info E 202 info (Some ''FeatureGetObjectData fail'') h s
         else if key_empty (si_key info) then finish_info E 202 info (Some ''fail'') h s
         else (let s = sg_prepare h STORAGE_OP_DELETE info None s; q = DbDelete (the (si_key info))
               in sg_submit E q (db_accept E q = 0) info ''uv_db_delete fail'' h s))"

definition system_storage_wrap_key :: "db_env \<Rightarrow> int \<Rightarrow> storage_info \<Rightarrow> storage \<Rightarrow> storage option" where
  "system_storage_wrap_key E index info s =
     (let (h, s) = storage_malloc s
      in if \<not> sg_th s then finish_info E (- 1) info (Some ''FeatureGetObjectData fail'') h s
         else if index < 0 then finish_info E (- 1) info (Some ''fail'') h s
         else (let s = sg_prepare h STORAGE_OP_KEY info None s; q = DbKey index
               in sg_submit E q (db_accept E q \<ge> 0) info ''uv_db_key fail'' h s))"

section \<open>Runs\<close>

text \<open>
  The script issues operations; the store completes the pending ones in any order (\<open>SDone i\<close> is the \<open>i\<close>-th); the
  instance may be detached in between.
\<close>

datatype sop =
    SGet storage_info
  | SGetSync storage_info
  | SSet storage_info
  | SClear storage_info
  | SDelete storage_info
  | SKey int storage_info
  | SDone nat
  | SDetach

definition complete_op :: "db_env \<Rightarrow> nat \<Rightarrow> storage \<Rightarrow> storage option" where
  "complete_op E i s =
     (if i < length (sg_pending s) then
        (let (q, h) = sg_pending s ! i;
             (status, key, value, db) = db_exec E q (sg_db s)
         in storage_cb E status key value h
              (s\<lparr>sg_db := db, sg_pending := take i (sg_pending s) @ drop (Suc i) (sg_pending s)\<rparr>))
      else Some s)"

fun sstep :: "db_env \<Rightarrow> sop \<Rightarrow> storage \<Rightarrow> storage option" where
  "sstep E (SGet info) s = system_storage_wrap_get E info s"
| "sstep E (SGetSync info) s = Some (system_storage_wrap_get_sync E info s)"
| "sstep E (SSet info) s = system_storage_wrap_set E info s"
| "sstep E (SClear info) s = system_storage_wrap_clear E info s"
| "sstep E (SDelete info) s = system_storage_wrap_delete E info s"
| "sstep E (SKey i info) s = system_storage_wrap_key E i info s"
| "sstep E (SDone i) s = complete_op E i s"
| "sstep E SDetach s =
     (case sg_inst s of
        None \<Rightarrow> Some s
      | Some t \<Rightarrow> (let (t', w') = onDetached (db_engine E) [] (t, sg_world s)
                  in Some (s\<lparr>sg_inst := Some t', sg_world := w'\<rparr>)))"

fun srun :: "db_env \<Rightarrow> sop list \<Rightarrow> storage \<Rightarrow> storage option" where
  "srun E [] s = Some s"
| "srun E (p # ps) s = Option.bind (sstep E p s) (srun E ps)"

definition new_storage :: "inst \<Rightarrow> world \<Rightarrow> db \<Rightarrow> storage" where
  "new_storage t w db = \<lparr>sg_inst = Some t, sg_world = w, sg_th = True, sg_db = db, sg_handles = [], sg_pending = [],
     sg_refs = 0, sg_log = []\<rparr>"

end
