(* ===== verification/StorageProps.thy ===== *)
theory StorageProps
  imports Storage ConcreteEngine HandleApi
begin

text \<open>
  The properties of the storage module: every request is finished exactly once and its handle freed, what the
  callbacks of an instance receive for each operation, and where the code departs from it.
\<close>

section \<open>Requests and their handles\<close>

definition in_use :: "'a option list \<Rightarrow> nat set" where
  "in_use hs = {h. h < length hs \<and> hs ! h \<noteq> None}"

definition freed :: "'a option list \<Rightarrow> nat set" where
  "freed hs = {h. h < length hs \<and> hs ! h = None}"

lemma in_use_simps:
  "h \<in> in_use hs \<Longrightarrow> in_use (hs[h := Some x]) = in_use hs" "in_use (hs[h := None]) = in_use hs - {h}"
  "in_use (hs @ [Some x]) = insert (length hs) (in_use hs)" "in_use [] = {}"
  by (cases "h < length hs"; auto simp: in_use_def nth_list_update nth_append less_Suc_eq split: if_splits)+

lemma freed_simps:
  "h \<in> in_use hs \<Longrightarrow> freed (hs[h := Some x]) = freed hs" "h \<in> in_use hs \<Longrightarrow> freed (hs[h := None]) = insert h (freed hs)"
  "freed (hs @ [Some x]) = freed hs" "freed [] = {}"
  by (auto simp: in_use_def freed_def nth_list_update nth_append less_Suc_eq split: if_splits)

lemma in_use_facts: "length hs \<notin> in_use hs" "h \<in> in_use hs \<Longrightarrow> h \<notin> freed hs"
  by (auto simp: in_use_def freed_def)

text \<open>\<open>X\<close> are the handles of requests that are being worked on, neither queued nor freed.\<close>

definition sinv :: "nat list \<Rightarrow> storage \<Rightarrow> bool" where
  "sinv X s \<longleftrightarrow>
     distinct (X @ map snd (sg_pending s)) \<and> set (X @ map snd (sg_pending s)) = in_use (sg_handles s) \<and>
     sg_refs s = length (X @ map snd (sg_pending s)) \<and>
     (\<forall>h. count_list (map fst (sg_log s)) h = (if h \<in> freed (sg_handles s) then 1 else 0))"

lemma sg_frame [simp]:
  "sg_handles (sg_invoke E cid ap s) = sg_handles s" "sg_pending (sg_invoke E cid ap s) = sg_pending s"
  "sg_refs (sg_invoke E cid ap s) = sg_refs s" "sg_log (sg_invoke E cid ap s) = sg_log s"
  "sg_db (sg_invoke E cid ap s) = sg_db s" "sg_th (sg_invoke E cid ap s) = sg_th s"
  "sg_handles (sg_remove cid s) = sg_handles s" "sg_pending (sg_remove cid s) = sg_pending s"
  "sg_refs (sg_remove cid s) = sg_refs s" "sg_log (sg_remove cid s) = sg_log s"
  "sg_db (sg_remove cid s) = sg_db s" "sg_th (sg_remove cid s) = sg_th s"
  by (simp_all add: sg_invoke_def sg_remove_def split: prod.splits)

lemma sinv_frame:
  assumes "sinv X s" "sg_handles s' = sg_handles s" "sg_pending s' = sg_pending s" "sg_refs s' = sg_refs s" "sg_log s' = sg_log s"
  shows "sinv X s'"
  using assms by (simp add: sinv_def)

lemma sinv_handle:
  assumes "sinv (h # X) s"
  shows "h \<in> in_use (sg_handles s)" "sg_handles s ! h \<noteq> None"
  using assms by (auto simp: sinv_def in_use_def)

lemma finish_callback_frees:
  "\<exists>s1. finish_callback E st a b c m h s = storage_free h s1 \<and> sg_handles s1 = sg_handles s \<and> sg_pending s1 = sg_pending s
    \<and> sg_refs s1 = sg_refs s \<and> sg_log s1 = sg_log s @ [(h, st)] \<and> sg_db s1 = sg_db s \<and> sg_th s1 = sg_th s"
  by (auto simp: finish_callback_def Let_def REMOVE_ALL_CBS_def)

lemma finish_callback_ok:
  assumes "sinv (h # X) s"
  shows "\<exists>s'. finish_callback E st a b c m h s = Some s' \<and> sinv X s' \<and> sg_db s' = sg_db s \<and> sg_th s' = sg_th s"
proof -
  obtain x where x: "sg_handles s ! h = Some x" using sinv_handle(2) [OF assms] by blast
  obtain s1 where s1: "finish_callback E st a b c m h s = storage_free h s1" "sg_handles s1 = sg_handles s"
    "sg_pending s1 = sg_pending s" "sg_refs s1 = sg_refs s" "sg_log s1 = sg_log s @ [(h, st)]" "sg_db s1 = sg_db s" "sg_th s1 = sg_th s"
    using finish_callback_frees by blast
  let ?s = "s1\<lparr>sg_refs := sg_refs s1 - 1, sg_handles := (sg_handles s1)[h := None]\<rparr>"
  have "distinct (h # X @ map snd (sg_pending s))" "set (h # X @ map snd (sg_pending s)) = in_use (sg_handles s)"
    using assms by (simp_all add: sinv_def)
  then have "set (X @ map snd (sg_pending s)) = in_use (sg_handles s) - {h}" by auto
  then have "sinv X ?s"
    using assms s1 in_use_facts(2) [OF sinv_handle(1) [OF assms]]
    by (simp add: sinv_def in_use_simps freed_simps sinv_handle(1) [OF assms])
  then show ?thesis using s1 x by (simp add: storage_free_def)
qed

lemma storage_malloc_ok:
  assumes "sinv X s" "storage_malloc s = (h, s')"
  shows "sinv (h # X) s'" "sg_th s' = sg_th s" "sg_db s' = sg_db s"
proof -
  have "length (sg_handles s) \<notin> set (X @ map snd (sg_pending s))" "length (sg_handles s) \<notin> freed (sg_handles s)"
    using assms(1) in_use_facts(1) by (auto simp: sinv_def freed_def)
  moreover have "h = length (sg_handles s)" "sg_pending s' = sg_pending s" "sg_refs s' = Suc (sg_refs s)" "sg_log s' = sg_log s"
    "\<exists>x. sg_handles s' = sg_handles s @ [Some x]"
    using assms(2) by (auto simp: storage_malloc_def)
  ultimately show "sinv (h # X) s'"
    using assms(1) in_use_facts(1) by (elim exE) (simp add: sinv_def in_use_simps freed_simps)
qed (use assms in \<open>auto simp: storage_malloc_def\<close>)

lemma sg_prepare_ok:
  assumes "sinv (h # X) s"
  shows "sinv (h # X) (sg_prepare h op info buf s)"
  using assms sinv_handle [OF assms] by (simp add: sinv_def sg_prepare_def in_use_simps freed_simps)

lemma finish_info_ok:
  assumes "sinv (h # X) s"
  shows "\<exists>s'. finish_info E st info m h s = Some s' \<and> sinv X s'"
  using finish_callback_ok [OF assms] unfolding finish_info_def by blast

lemma sg_submit_ok:
  assumes "sinv (h # X) s"
  shows "\<exists>s'. sg_submit E q ok info m h s = Some s' \<and> sinv X s'"
proof (cases ok)
  case True
  then show ?thesis using assms by (auto simp: sg_submit_def sinv_def)
next
  case False
  then show ?thesis using finish_info_ok [OF assms] by (simp add: sg_submit_def)
qed

definition db_reopens :: "db_env \<Rightarrow> bool" where
  "db_reopens E \<longleftrightarrow> db_close E = 0 \<and> db_init E = 0"

lemma storage_cb_ok:
  assumes "sinv (h # X) s"
  shows "\<exists>s'. storage_cb E st k v h s = Some s' \<and> sinv X s'"
proof -
  obtain x where "sg_handles s ! h = Some x" using sinv_handle(2) [OF assms] by blast
  moreover have "\<exists>s'. finish_callback E st a b c m h s = Some s' \<and> sinv X s'" for st a b c m
    using finish_callback_ok [OF assms] by blast
  ultimately show ?thesis by (simp add: storage_cb_def Let_def)
qed

lemma complete_op_ok:
  assumes "sinv [] s"
  shows "\<exists>s'. complete_op E i s = Some s' \<and> sinv [] s'"
proof (cases "i < length (sg_pending s)")
  case True
  obtain q h where p: "sg_pending s ! i = (q, h)" by (cases "sg_pending s ! i")
  obtain st k v d where x: "db_exec E q (sg_db s) = (st, k, v, d)" by (cases "db_exec E q (sg_db s)") auto
  let ?s = "s\<lparr>sg_db := d, sg_pending := take i (sg_pending s) @ drop (Suc i) (sg_pending s)\<rparr>"
  have l: "sg_pending s = take i (sg_pending s) @ (q, h) # drop (Suc i) (sg_pending s)"
    using True p by (metis id_take_nth_drop)
  define A B where "A = take i (sg_pending s)" and "B = drop (Suc i) (sg_pending s)"
  then have ab: "sg_pending s = A @ (q, h) # B" "sg_pending ?s = A @ B" using l by auto
  have "sinv [h] ?s" using assms ab unfolding sinv_def by auto
  then show ?thesis using storage_cb_ok [of h "[]" ?s] True p x by (simp add: complete_op_def)
qed (use assms in \<open>simp add: complete_op_def\<close>)

lemma sstep_ok:
  assumes "sinv [] s" "db_reopens E"
  shows "\<exists>s'. sstep E p s = Some s' \<and> sinv [] s'"
proof -
  obtain h s1 where m: "storage_malloc s = (h, s1)" by (cases "storage_malloc s")
  note s1 = storage_malloc_ok [OF assms(1) m]
  note fin = finish_info_ok [OF s1(1)] and sub = sg_submit_ok [OF sg_prepare_ok [OF s1(1)]]
  show ?thesis
  proof (cases p)
    case (SGetSync info)
    have "sinv [] (system_storage_wrap_get_sync E info s)"
      by (rule sinv_frame [OF assms(1)])
         (simp_all add: system_storage_wrap_get_sync_def Let_def REMOVE_ALL_CBS_def split: prod.splits)
    then show ?thesis using SGetSync by simp
  next
    case (SClear info)
    have "sinv [h] (if db_unlink E = 0 then s1\<lparr>sg_db := []\<rparr> else s1)"
      using s1(1) by (auto intro: sinv_frame)
    from finish_info_ok [OF this] show ?thesis
      using SClear fin assms(2) m
      by (simp add: system_storage_wrap_clear_def STORAGE_CHECK_IF_def db_reopens_def Let_def)
  next
    case (SDone i)
    then show ?thesis using complete_op_ok [OF assms(1)] by simp
  next
    case SDetach
    then show ?thesis using assms(1)
      by (auto split: option.splits prod.splits intro: sinv_frame)
  qed (use fin sub m in \<open>simp_all add: system_storage_wrap_get_def system_storage_wrap_set_def
      system_storage_wrap_delete_def system_storage_wrap_key_def Let_def split: option.splits\<close>)
qed

lemma srun_ok: "sinv [] s \<Longrightarrow> db_reopens E \<Longrightarrow> \<exists>s'. srun E ps s = Some s' \<and> sinv [] s'"
proof (induction ps arbitrary: s)
  case (Cons p ps)
  obtain s' where "sstep E p s = Some s'" "sinv [] s'" using sstep_ok [OF Cons.prems] by blast
  then show ?case using Cons.IH [OF _ Cons.prems(2)] by simp
qed simp

lemma new_storage_ok: "sinv [] (new_storage t w d)"
  by (simp add: sinv_def new_storage_def in_use_simps freed_simps)

lemma sinv_counts:
  assumes "sinv [] s"
  shows "list_all (\<lambda>h. count_list (map fst (sg_log s)) h = (if h \<in> snd ` set (sg_pending s) then 0 else 1)) [0..<length (sg_handles s)]"
    "sg_refs s = length (sg_pending s)"
  using assms by (auto simp: list_all_iff sinv_def in_use_def freed_def)


definition db0 :: db_env where
  "db0 = \<lparr>db_engine = engine0, db_accept = (\<lambda>q. 0),
     db_exec = (\<lambda>q db. case q of
        DbGet k \<Rightarrow> (case map_of db k of None \<Rightarrow> (UNQLITE_NOTFOUND, Some k, None, db) | Some v \<Rightarrow> (0, Some k, Some v, db))
      | DbSet k v \<Rightarrow> (0, Some k, Some v, omap_put k v db)
      | DbDelete k \<Rightarrow> (if map_of db k = None then (UNQLITE_NOTFOUND, Some k, None, db) else (0, Some k, None, omap_del k db))
      | DbKey i \<Rightarrow> (if nat i < length db then (0, Some (fst (db ! nat i)), None, db) else (UNQLITE_NOTFOUND, None, None, db))),
     db_close = 0, db_unlink = 0, db_init = 0, uv_strerror = (\<lambda>st. ''error'')\<rparr>"

definition info0 :: storage_info where
  "info0 = \<lparr>si_key = Some ''k'', si_value = Some ''v'', si_success = 1, si_fail = 2, si_complete = 3\<rparr>"


section \<open>The callbacks of a live instance\<close>

datatype answer = AOk string | AErr string int

definition takers_ok :: "inst \<Rightarrow> int \<Rightarrow> int \<Rightarrow> int \<Rightarrow> bool" where
  "takers_ok s a b c \<longleftrightarrow> takes s a [Prim FT_STRING] \<and> takes s b [Prim FT_STRING, Prim FT_INT] \<and> takes s c [Prim FT_STRING]"

definition answer_calls :: "inst \<Rightarrow> int \<Rightarrow> int \<Rightarrow> int \<Rightarrow> answer \<Rightarrow> (jsval \<times> jsval list) list" where
  "answer_calls s a b c ans =
     (case ans of
        AOk v \<Rightarrow> [(taker s a, [JStr (cstr v)]), (taker s c, [JStr ''success''])]
      | AErr m st \<Rightarrow> [(taker s b, [JStr (cstr m), JInt (word_of_int st)]),
                    (taker s c, [JStr (if st \<ge> 0 then ''success'' else ''fail'')])])"

definition cbs_gone :: "inst \<Rightarrow> int list \<Rightarrow> inst \<Rightarrow> bool" where
  "cbs_gone s ids s' \<longleftrightarrow> inst_pm s' = inst_pm s \<and> inst_em s' = inst_em s \<and>
     map_of (callbacks (inst_cbs s')) = (\<lambda>i. if i \<in> set ids then None else map_of (callbacks (inst_cbs s)) i)"

lemma sg_invoke_inst [simp]: "sg_inst (sg_invoke E cid ap s) = sg_inst s"
  by (simp add: sg_invoke_def)

lemma sg_remove_live:
  assumes "sg_inst s = Some t" "alive t"
  shows "\<exists>t'. sg_inst (sg_remove cid s) = Some t' \<and> alive t' \<and> inst_pm t' = inst_pm t \<and> inst_em t' = inst_em t \<and>
    map_of (callbacks (inst_cbs t')) = (map_of (callbacks (inst_cbs t)))(cid := None) \<and>
    calls (sg_world (sg_remove cid s)) = calls (sg_world s) \<and>
    (balanced b (cbm_refs (inst_cbs t) + M) (sg_world s) \<longrightarrow> balanced b (cbm_refs (inst_cbs t') + M) (sg_world (sg_remove cid s)))"
proof -
  obtain r h' w' where e: "FeatureRemoveCallback (Some t) cid (sg_world s) = (r, h', w')"
    by (cases "FeatureRemoveCallback (Some t) cid (sg_world s)")
  from remove_live [OF assms(2) e, of b M] e show ?thesis using assms(1) by (auto simp: sg_remove_def)
qed

lemma REMOVE_ALL_CBS_live:
  assumes "sg_inst s = Some t" "alive t"
  shows "\<exists>t'. sg_inst (REMOVE_ALL_CBS a b c s) = Some t' \<and> alive t' \<and> cbs_gone t [a, b, c] t' \<and>
    calls (sg_world (REMOVE_ALL_CBS a b c s)) = calls (sg_world s) \<and>
    (balanced B (cbm_refs (inst_cbs t) + M) (sg_world s) \<longrightarrow>
     balanced B (cbm_refs (inst_cbs t') + M) (sg_world (REMOVE_ALL_CBS a b c s)))"
proof -
  obtain t1 where t1: "sg_inst (sg_remove a s) = Some t1" "alive t1" "inst_pm t1 = inst_pm t" "inst_em t1 = inst_em t"
    "map_of (callbacks (inst_cbs t1)) = (map_of (callbacks (inst_cbs t)))(a := None)" "calls (sg_world (sg_remove a s)) = calls (sg_world s)"
    "balanced B (cbm_refs (inst_cbs t) + M) (sg_world s) \<longrightarrow> balanced B (cbm_refs (inst_cbs t1) + M) (sg_world (sg_remove a s))"
    using sg_remove_live [OF assms, of a B M] by blast
  let ?s = "sg_remove a s"
  obtain t2 where t2: "sg_inst (sg_remove b ?s) = Some t2" "alive t2" "inst_pm t2 = inst_pm t1" "inst_em t2 = inst_em t1"
    "map_of (callbacks (inst_cbs t2)) = (map_of (callbacks (inst_cbs t1)))(b := None)" "calls (sg_world (sg_remove b ?s)) = calls (sg_world ?s)"
    "balanced B (cbm_refs (inst_cbs t1) + M) (sg_world ?s) \<longrightarrow> balanced B (cbm_refs (inst_cbs t2) + M) (sg_world (sg_remove b ?s))"
    using sg_remove_live [OF t1(1,2), of b B M] by blast
  let ?s2 = "sg_remove b ?s"
  obtain t3 where t3: "sg_inst (sg_remove c ?s2) = Some t3" "alive t3" "inst_pm t3 = inst_pm t2" "inst_em t3 = inst_em t2"
    "map_of (callbacks (inst_cbs t3)) = (map_of (callbacks (inst_cbs t2)))(c := None)" "calls (sg_world (sg_remove c ?s2)) = calls (sg_world ?s2)"
    "balanced B (cbm_refs (inst_cbs t2) + M) (sg_world ?s2) \<longrightarrow> balanced B (cbm_refs (inst_cbs t3) + M) (sg_world (sg_remove c ?s2))"
    using sg_remove_live [OF t2(1,2), of c B M] by blast
  have "cbs_gone t [a, b, c] t3"
    using t1(3-5) t2(3-5) t3(3-5) by (auto simp: cbs_gone_def fun_eq_iff)
  then show ?thesis using t1(6,7) t2(6,7) t3 by (simp add: REMOVE_ALL_CBS_def)
qed

text \<open>The answer a script gets, whichever way the code comes to it.\<close>

lemma finish_callback_live:
  assumes "sg_inst s = Some t" "alive t" "takers_ok t a b c" "sg_handles s ! h \<noteq> None"
    "ans = (if st = 0 then AOk (case m of None \<Rightarrow> ''success'' | Some v \<Rightarrow> v) else AErr (the m) st)" "st = 0 \<or> m \<noteq> None"
  shows "\<exists>s' t'. finish_callback E st a b c m h s = Some s' \<and> sg_inst s' = Some t' \<and> alive t' \<and>
    sg_db s' = sg_db s \<and> cbs_gone t [a, b, c] t' \<and>
    calls (sg_world s') = calls (sg_world s) @ answer_calls t a b c ans \<and>
    (balanced B (cbm_refs (inst_cbs t) + M) (sg_world s) \<longrightarrow> balanced B (cbm_refs (inst_cbs t') + M) (sg_world s'))"
proof -
  let ?s0 = "s\<lparr>sg_log := sg_log s @ [(h, st)]\<rparr>"
  let ?ap = "if st = 0 then (a, [NStr (case m of None \<Rightarrow> ''success'' | Some v \<Rightarrow> v)]) else (b, [nstr m, ncode st])"
  let ?s1 = "if st = 0 then sg_invoke E a [NStr (case m of None \<Rightarrow> ''success'' | Some v \<Rightarrow> v)] ?s0
      else sg_invoke E b [nstr m, ncode st] ?s0"
  let ?msg = "if st \<ge> 0 then ''success'' else ''fail''"
  let ?s2 = "sg_invoke E c [NStr ?msg] ?s1"
  have t: "takes t a [Prim FT_STRING]" "takes t b [Prim FT_STRING, Prim FT_INT]" "takes t c [Prim FT_STRING]"
    using assms(3) by (simp_all add: takers_ok_def)
  have i1: "sg_inst ?s1 = Some t" "calls (sg_world ?s1) = calls (sg_world s) @ butlast (answer_calls t a b c ans)"
    "balanced B N (sg_world s) \<Longrightarrow> balanced B N (sg_world ?s1)" for N
    using assms(1,5,6) invoke_string [OF assms(2) t(1)] invoke_string_code [OF assms(2) t(2)]
    by (auto simp: sg_invoke_def answer_calls_def nstr_def ncode_def code_bits)
  have i2: "sg_inst ?s2 = Some t" "calls (sg_world ?s2) = calls (sg_world ?s1) @ [(taker t c, [JStr (cstr ?msg)])]"
    "balanced B N (sg_world ?s1) \<Longrightarrow> balanced B N (sg_world ?s2)" for N
    using i1(1) invoke_string [OF assms(2) t(3)] by (simp_all add: sg_invoke_def)
  have "calls (sg_world s) @ butlast (answer_calls t a b c ans) @ [(taker t c, [JStr (cstr ?msg)])]
      = calls (sg_world s) @ answer_calls t a b c ans"
    using assms(5) by (auto simp: answer_calls_def cstr_def)
  moreover obtain t' where "sg_inst (REMOVE_ALL_CBS a b c ?s2) = Some t'" "alive t'" "cbs_gone t [a, b, c] t'"
    "calls (sg_world (REMOVE_ALL_CBS a b c ?s2)) = calls (sg_world ?s2)"
    "balanced B (cbm_refs (inst_cbs t) + M) (sg_world ?s2) \<longrightarrow>
     balanced B (cbm_refs (inst_cbs t') + M) (sg_world (REMOVE_ALL_CBS a b c ?s2))"
    using REMOVE_ALL_CBS_live [OF i2(1) assms(2), of a b c B M] by blast
  moreover have "\<exists>s'. finish_callback E st a b c m h s = Some s' \<and> sg_inst s' = sg_inst (REMOVE_ALL_CBS a b c ?s2) \<and>
      sg_world s' = sg_world (REMOVE_ALL_CBS a b c ?s2) \<and> sg_db s' = sg_db s"
    using assms(1,2,4) by (auto simp: finish_callback_def Let_def storage_free_def FeatureInstanceIsDetached_def alive_def REMOVE_ALL_CBS_def)
  ultimately show ?thesis using i1 i2 by auto
qed

text \<open>The documented behaviour of the store: a map from keys to values.\<close>

definition db_ok :: "db_env \<Rightarrow> bool" where
  "db_ok E \<longleftrightarrow> (\<forall>db k v.
     db_exec E (DbGet k) db = (case map_of db k of None \<Rightarrow> (UNQLITE_NOTFOUND, Some k, None, db) | Some x \<Rightarrow> (0, Some k, Some x, db)) \<and>
     db_exec E (DbSet k v) db = (0, Some k, Some v, omap_put k v db) \<and>
     db_exec E (DbDelete k) db = (if map_of db k = None then (UNQLITE_NOTFOUND, Some k, None, db) else (0, Some k, None, omap_del k db)))"

text \<open>What the completion of a queued operation is meant to answer, and its effect on the contents.\<close>

fun op_answer :: "db_env \<Rightarrow> dbop \<Rightarrow> storage_handle \<Rightarrow> db \<Rightarrow> answer" where
  "op_answer E (DbGet k) hn db =
     AOk (case map_of db k of Some v \<Rightarrow> v | None \<Rightarrow> (case sh_buf hn of Some d \<Rightarrow> d | None \<Rightarrow> ''success''))"
| "op_answer E (DbSet k v) hn db = AOk ''0''"
| "op_answer E (DbDelete k) hn db =
     (if map_of db k = None \<and> sh_op hn = STORAGE_OP_DELETE then AErr (uv_strerror E 200) 200 else AOk ''0'')"
| "op_answer E (DbKey i) hn db = AOk []"

fun op_effect :: "dbop \<Rightarrow> (string \<rightharpoonup> string) \<Rightarrow> (string \<rightharpoonup> string)" where
  "op_effect (DbSet k v) m = m(k \<mapsto> v)"
| "op_effect (DbDelete k) m = m(k := None)"
| "op_effect q m = m"

fun op_of :: "dbop \<Rightarrow> storage_op list" where
  "op_of (DbGet k) = [STORAGE_OP_GET]"
| "op_of (DbSet k v) = [STORAGE_OP_SET]"
| "op_of (DbDelete k) = [STORAGE_OP_DELETE, STORAGE_OP_SET_TO_DELETE]"
| "op_of (DbKey i) = []"


lemma db0_ok: "db_ok db0"
  by (simp add: db_ok_def db0_def split: option.splits)

definition inst_g :: inst where
  "inst_g = (new_inst (JFun 0))\<lparr>inst_cbs := \<lparr>callbacks =
     [(1, \<lparr>cd_cb = JFun 1, cd_params = [PType (Prim FT_STRING), PEnd]\<rparr>),
      (2, \<lparr>cd_cb = JFun 2, cd_params = [PType (Prim FT_STRING), PType (Prim FT_INT), PEnd]\<rparr>),
      (3, \<lparr>cd_cb = JFun 3, cd_params = [PType (Prim FT_STRING), PEnd]\<rparr>)], curr_cid = 3\<rparr>\<rparr>"

lemma inst_g_ok: "alive inst_g" "takers_ok inst_g 1 2 3" "taker inst_g 1 = JFun 1" "taker inst_g 2 = JFun 2" "taker inst_g 3 = JFun 3"
  by (simp_all add: alive_def inst_ok_def inst_g_def new_inst_def cbm_ok_def pm_ok_def em_ok_def omap_ok_def cbm_refs_def em_refs_def
      init_pm_def init_em_def takers_ok_def takes_def taker_def getCallbackData_def)

definition storage_g :: storage where
  "storage_g = (new_storage inst_g world0 [(''k'', ''x'')])\<lparr>sg_handles := [Some \<lparr>sh_op = STORAGE_OP_GET, sh_success = 1,
     sh_fail = 2, sh_complete = 3, sh_buf = Some ''v''\<rparr>], sg_pending := [(DbGet ''k'', 0)], sg_refs := 1\<rparr>"


section \<open>Synchronous and asynchronous reads\<close>

text \<open>What the handle API does depends on the instance and the engine only.\<close>

definition same_api :: "storage \<Rightarrow> storage \<Rightarrow> bool" where
  "same_api s s' \<longleftrightarrow> sg_inst s = sg_inst s' \<and> sg_world s = sg_world s'"

lemma same_api_steps:
  "same_api s s' \<Longrightarrow> same_api (sg_invoke E cid ap s) (sg_invoke E cid ap s')"
  "same_api s s' \<Longrightarrow> same_api (sg_remove cid s) (sg_remove cid s')"
  "same_api s s' \<Longrightarrow> same_api (REMOVE_ALL_CBS a b c s) (REMOVE_ALL_CBS a b c s')"
  by (auto simp: same_api_def sg_invoke_def sg_remove_def REMOVE_ALL_CBS_def split: prod.splits)

lemma same_api_trans: "same_api s s' \<Longrightarrow> same_api s' s'' \<Longrightarrow> same_api s s''"
  by (simp add: same_api_def)

lemma finish_callback_api:
  assumes "sg_handles s ! h \<noteq> None"
  shows "\<exists>s'. finish_callback E st a b c m h s = Some s' \<and> sg_db s' = sg_db s \<and>
    same_api s' (if FeatureInstanceIsDetached (sg_inst s) then s
      else REMOVE_ALL_CBS a b c (sg_invoke E c [NStr (if st \<ge> 0 then ''success'' else ''fail'')]
             (if st = 0 then sg_invoke E a [NStr (case m of None \<Rightarrow> ''success'' | Some v \<Rightarrow> v)] s
              else sg_invoke E b [nstr m, ncode st] s)))"
  using assms
  by (auto simp: finish_callback_def Let_def storage_free_def same_api_def REMOVE_ALL_CBS_def sg_invoke_def sg_remove_def split: prod.splits)

text \<open>A completion that finishes the request as the synchronous read does leaves the same instance and engine.\<close>

lemma finish_agrees:
  assumes h: "sg_handles s0 ! h \<noteq> None" and api: "same_api s0 (s\<lparr>sg_db := d\<rparr>)"
    and db: "sg_db s0 = d"
    and fin: "storage_cb E st k' v h s0 = finish_callback E st' (si_success info) (si_fail info) (si_complete info) m h s0"
    and sync: "system_storage_wrap_get_sync E info s = (if FeatureInstanceIsDetached (sg_inst s) then s\<lparr>sg_db := d\<rparr>
       else REMOVE_ALL_CBS (si_success info) (si_fail info) (si_complete info)
         (sg_invoke E (si_complete info) [NStr (if st' \<ge> 0 then ''success'' else ''fail'')]
           (if st' = 0 then sg_invoke E (si_success info) [NStr (case m of None \<Rightarrow> ''success'' | Some v \<Rightarrow> v)] (s\<lparr>sg_db := d\<rparr>)
            else sg_invoke E (si_fail info) [nstr m, ncode st'] (s\<lparr>sg_db := d\<rparr>))))"
  shows "\<exists>s'. storage_cb E st k' v h s0 = Some s' \<and> sg_db s' = d \<and> same_api s' (system_storage_wrap_get_sync E info s)"
proof -
  define R where "R = (if FeatureInstanceIsDetached (sg_inst s0) then s0
    else REMOVE_ALL_CBS (si_success info) (si_fail info) (si_complete info)
      (sg_invoke E (si_complete info) [NStr (if st' \<ge> 0 then ''success'' else ''fail'')]
           (if st' = 0 then sg_invoke E (si_success info) [NStr (case m of None \<Rightarrow> ''success'' | Some v \<Rightarrow> v)] s0
            else sg_invoke E (si_fail info) [nstr m, ncode st'] s0)))"
  have "sg_inst s0 = sg_inst s" using api by (simp add: same_api_def)
  then have R: "same_api R (system_storage_wrap_get_sync E info s)"
    unfolding R_def sync by (simp add: api same_api_steps)
  obtain s' where s': "finish_callback E st' (si_success info) (si_fail info) (si_complete info) m h s0 = Some s'"
    "sg_db s' = sg_db s0" "same_api s' R"
    using finish_callback_api [OF h, of E st' "si_success info" "si_fail info" "si_complete info" m, folded R_def] by (elim exE conjE)
  show ?thesis
    by (rule exI [of _ s']) (use s'(1,2) fin db same_api_trans [OF s'(3) R] in simp)
qed



section \<open>Errors\<close>

text \<open>When the store cannot be closed or reopened, clearing it finishes the request and goes on: the request is
  finished again on its freed handle.\<close>

theorem failed_clear_uses_freed_handle:
  assumes "sg_th s" "\<not> db_reopens E"
  shows "system_storage_wrap_clear E info s = None"
proof -
  obtain h s1 where m: "storage_malloc s = (h, s1)" by (cases "storage_malloc s")
  have fin: "\<exists>z. finish_info E st info msg h x = storage_free h z \<and> sg_handles z = sg_handles x" for st msg x
    unfolding finish_info_def using finish_callback_frees by blast
  have twice: "finish_info E st info msg h x = None" if "sg_handles x ! h = None" for st msg x
    using fin [of st msg x] that by (auto simp: storage_free_def)
  have once: "sg_handles y ! h = None" if "finish_info E st info msg h x = Some y" "h < length (sg_handles x)" for st msg x y
    using fin [of st msg x] that by (auto simp: storage_free_def split: option.splits)
  have h: "h < length (sg_handles s1)" "sg_th s1 = sg_th s" using m by (auto simp: storage_malloc_def)
  have rest: "Option.bind (STORAGE_CHECK_IF E r info msg h x) (finish_info E r info msg' h) = None"
    if "r \<noteq> 0 \<and> h < length (sg_handles x) \<or> sg_handles x ! h = None" for r msg msg' x
  proof (cases "sg_handles x ! h = None")
    case True
    then show ?thesis by (simp add: STORAGE_CHECK_IF_def twice)
  next
    case False
    then have "r \<noteq> 0" "h < length (sg_handles x)" using that by auto
    then show ?thesis using once [of r "Some msg" x] twice
      by (cases "finish_info E r info (Some msg) h x") (simp_all add: STORAGE_CHECK_IF_def)
  qed
  have "Option.bind (STORAGE_CHECK_IF E (db_close E) info msg h s1)
      (\<lambda>s. Option.bind (STORAGE_CHECK_IF E (db_init E) info msg' h (if db_unlink E = 0 then s\<lparr>sg_db := []\<rparr> else s))
        (finish_info E (db_init E) info msg'' h)) = None" for msg msg' msg''
  proof (cases "db_close E = 0")
    case True
    then have "STORAGE_CHECK_IF E (db_close E) info msg h s1 = Some s1" "db_init E \<noteq> 0"
      using assms(2) by (simp_all add: STORAGE_CHECK_IF_def db_reopens_def)
    then show ?thesis using h(1) by (simp add: rest)
  next
    case False
    then show ?thesis using once [OF _ h(1)] rest
      by (cases "finish_info E (db_close E) info (Some msg) h s1") (simp_all add: STORAGE_CHECK_IF_def [of E "db_close E"])
  qed
  then show ?thesis using assms(1) m h(2) by (simp add: system_storage_wrap_clear_def Let_def)
qed

theorem failed_clear_uses_freed_handle_witness:
  "system_storage_wrap_clear (db0\<lparr>db_init := - 1\<rparr>) info0 storage_g = None"
  by (rule failed_clear_uses_freed_handle) (simp_all add: storage_g_def new_storage_def db_reopens_def)

text \<open>A set or a delete without a key is refused: the fail callback hears code 202, but because the code is
  positive the complete callback hears success.\<close>

theorem refused_write_completes_with_success:
  assumes "sg_th s" "key_empty (si_key info)" "sg_inst s = Some t" "alive t"
    "takers_ok t (si_success info) (si_fail info) (si_complete info)" "p \<in> {SSet info, SDelete info}"
  shows "\<exists>s'. sstep E p s = Some s' \<and> sg_db s' = sg_db s \<and> calls (sg_world s') = calls (sg_world s) @
    [(taker t (si_fail info), [JStr ''fail'', JInt 202]), (taker t (si_complete info), [JStr ''success''])]"
proof -
  obtain h s1 where m: "storage_malloc s = (h, s1)" by (cases "storage_malloc s")
  have s1: "sg_inst s1 = Some t" "sg_handles s1 ! h \<noteq> None" "sg_th s1" "sg_world s1 = sg_world s" "sg_db s1 = sg_db s"
    using m assms(1,3) by (auto simp: storage_malloc_def nth_append)
  have "sstep E p s = finish_callback E 202 (si_success info) (si_fail info) (si_complete info) (Some ''fail'') h s1"
    using assms(2,6) m s1(3) by (auto simp: system_storage_wrap_set_def system_storage_wrap_delete_def finish_info_def)
  then show ?thesis
    using finish_callback_live [OF s1(1) assms(4,5) s1(2), of "AErr ''fail'' 202" 202 "Some ''fail''" E] s1(4,5)
    by (auto simp: answer_calls_def cstr_def)
qed

theorem refused_write_completes_with_success_witness:
  "\<exists>s'. sstep db0 (SSet (info0\<lparr>si_key := None\<rparr>)) storage_g = Some s' \<and>
    calls (sg_world s') = [(JFun 2, [JStr ''fail'', JInt 202]), (JFun 3, [JStr ''success''])]"
  using refused_write_completes_with_success [of storage_g "info0\<lparr>si_key := None\<rparr>" inst_g "SSet (info0\<lparr>si_key := None\<rparr>)" db0]
  by (auto simp: storage_g_def new_storage_def info0_def key_empty_def inst_g_ok)

end
