(* ===== verification/FtContext.thy ===== *)
theory FtContext
  imports ToNative
begin

text \<open>
  The functions on script values that services use (\<open>src/feature_context.cpp\<close>,
  \<open>src/feature_value_translator.h\<close>) over QuickJS (\<open>src/backend/qjs/feature_context_qjs.cpp\<close>,
  \<open>src/backend/qjs/value_translator_qjs.cpp\<close>). What the engine computes is a field of \<open>engine\<close>;
  \<open>ts\<close> is \<open>JS_ToString\<close> of a value that is neither a string nor an object.
\<close>

definition FT_TYPE_NULL :: int where "FT_TYPE_NULL = - 2"
definition FT_TYPE_UNDEF :: int where "FT_TYPE_UNDEF = - 1"
definition FT_TYPE_NONE :: int where "FT_TYPE_NONE = 0"
definition FT_TYPE_NUMBER :: int where "FT_TYPE_NUMBER = 1"
definition FT_TYPE_BOOL :: int where "FT_TYPE_BOOL = 2"
definition FT_TYPE_STRING :: int where "FT_TYPE_STRING = 3"
definition FT_TYPE_ARRAY :: int where "FT_TYPE_ARRAY = 4"
definition FT_TYPE_BUFFER :: int where "FT_TYPE_BUFFER = 5"
definition FT_TYPE_TYPED_BUFFER :: int where "FT_TYPE_TYPED_BUFFER = 6"
definition FT_TYPE_OBJECT :: int where "FT_TYPE_OBJECT = 7"

lemmas ft_type_defs = FT_TYPE_NULL_def FT_TYPE_UNDEF_def FT_TYPE_NONE_def FT_TYPE_NUMBER_def FT_TYPE_BOOL_def
  FT_TYPE_STRING_def FT_TYPE_ARRAY_def FT_TYPE_BUFFER_def FT_TYPE_TYPED_BUFFER_def FT_TYPE_OBJECT_def

definition JS_IsBool :: "jsval \<Rightarrow> bool" where
  "JS_IsBool v = (case v of JBool _ \<Rightarrow> True | _ \<Rightarrow> False)"

definition ft_get_type :: "jsval \<Rightarrow> int" where
  "ft_get_type v =
     (if v = JUndef then FT_TYPE_UNDEF
      else if v = JNull then FT_TYPE_NULL
      else if JS_IsArray v then FT_TYPE_ARRAY
      else if JS_IsNumber v then FT_TYPE_NUMBER
      else if JS_IsBool v then FT_TYPE_BOOL
      else if JS_IsString v then FT_TYPE_STRING
      else if JS_IsObject v then
        (case v of JArrayBuf _ \<Rightarrow> FT_TYPE_BUFFER | JTypedBuf _ \<Rightarrow> FT_TYPE_TYPED_BUFFER | _ \<Rightarrow> FT_TYPE_OBJECT)
      else FT_TYPE_NONE)"

definition ft_parse_json :: "engine \<Rightarrow> string \<Rightarrow> jsval" where
  "ft_parse_json e buf = (case e_ParseJSON e buf of Some v \<Rightarrow> v | None \<Rightarrow> JUndef)"

definition ft_to_string :: "engine \<Rightarrow> (jsval \<Rightarrow> string option) \<Rightarrow> jsval \<Rightarrow> string option" where
  "ft_to_string e ts v =
     (case v of
        JStr s \<Rightarrow> Some (cstr s)
      | _ \<Rightarrow> if JS_IsObject v then Some (cstr (e_Stringify e v)) else ts v)"

text \<open>Reading a property of undefined or null raises an exception in the engine. The result is owned.\<close>

definition ft_obj_get_property :: "jsval \<Rightarrow> string \<Rightarrow> jsval" where
  "ft_obj_get_property obj name = (if obj = JUndef \<or> obj = JNull then JException else JS_GetProperty obj name)"

lemma ft_get_type_bounds: "- 2 \<le> ft_get_type v" "ft_get_type v \<le> 7"
  by (cases v; simp add: ft_get_type_def ft_type_defs JS_IsBool_def)+

lemma ft_get_type_undef: "ft_get_type v = FT_TYPE_UNDEF \<longleftrightarrow> v = JUndef"
  by (cases v) (simp_all add: ft_get_type_def ft_type_defs JS_IsBool_def)

end
