(* ===== verification/SysEvents.thy ===== *)
theory SysEvents
  imports HandleApi TextUtils FtContext "HOL-Library.Product_Lexorder" "HOL-Library.List_Lexorder" "HOL-Library.Char_ord"
begin

text \<open>
  The event module: subscriptions of script functions to system events and to events that apps publish
  (\<open>modules/event_impl.cpp\<close>, \<open>modules/event/event_context.cpp\<close>, \<open>modules/event/topic.cpp\<close>,
  \<open>modules/event/topics\<close>). The nested maps of an \<open>EventManager\<close> (topic, instance, event) are one ordered map
  whose keys are the triples; an \<open>EventContext\<close> is the list of its subscription ids, the callbacks of the ids
  are in \<open>subs_map\<close>. A subscription record that is read after it was freed makes the result \<open>None\<close>, and so does a write past
  the end of a buffer. The uORB bus and the script engine are fields of \<open>sys_env\<close>.
\<close>

section \<open>Data\<close>

record user_event_meta =
  um_eventName :: string
  um_pkg :: string
  um_params :: string
  um_permissions :: string

datatype topic_data = UserData user_event_meta | BatteryData int int

definition user_topic :: nat where "user_topic = 0"
definition battery_topic :: nat where "battery_topic = 1"

record sys_env =
  sy_engine :: engine
  sy_level :: "int \<Rightarrow> 64 word"
  sy_to_string :: "jsval \<Rightarrow> string option"
  sy_subscribe :: "nat \<Rightarrow> int"
  sy_publish :: "user_event_meta \<Rightarrow> int"
  sy_path_max :: nat

type_synonym event_key = "nat \<times> nat \<times> string"

record sysev =
  se_inst :: "nat \<Rightarrow> inst option"
  se_pkg :: "nat \<Rightarrow> string"
  se_world :: world
  subs_map :: "(int, int) omap"
  event_subs_info :: "(string, int) omap"
  eventSubsId :: int
  topics_map :: "(nat, topic_data option) omap"
  subs_man :: "(nat \<times> nat) list"
  contexts :: "(event_key, int list) omap"
  se_published :: "user_event_meta list"

section \<open>Subscription records\<close>

definition add_subs_info_global :: "int \<Rightarrow> int \<Rightarrow> sysev \<Rightarrow> bool \<times> sysev" where
  "add_subs_info_global i cb s =
     (if map_of (subs_map s) i \<noteq> None then (False, s)
      else (True, s\<lparr>subs_map := omap_put i cb (subs_map s)\<rparr>))"

definition instanceMatchId :: "nat \<Rightarrow> int \<Rightarrow> sysev \<Rightarrow> bool" where
  "instanceMatchId h i s =
     (case map_of (subs_map s) i of
        None \<Rightarrow> False
      | Some cb \<Rightarrow> FeatureCheckCallbackId (se_inst s h) cb)"

definition addEventSubsInfoGlobal :: "string \<Rightarrow> sysev \<Rightarrow> sysev" where
  "addEventSubsInfoGlobal name s =
     s\<lparr>event_subs_info := (case map_of (event_subs_info s) name of
          None \<Rightarrow> omap_put name 1 (event_subs_info s)
        | Some n \<Rightarrow> omap_put name (inc32 n) (event_subs_info s))\<rparr>"

definition removeEventSubsInfoGlobal :: "string \<Rightarrow> sysev \<Rightarrow> sysev" where
  "removeEventSubsInfoGlobal name s =
     (case map_of (event_subs_info s) name of
        None \<Rightarrow> s
      | Some n \<Rightarrow>
          s\<lparr>event_subs_info := (if n - 1 = 0 then omap_del name (event_subs_info s)
              else omap_put name (n - 1) (event_subs_info s))\<rparr>)"

definition isEventSubscribed :: "string \<Rightarrow> sysev \<Rightarrow> bool" where
  "isEventSubscribed name s \<longleftrightarrow>
     (case map_of (event_subs_info s) name of None \<Rightarrow> False | Some n \<Rightarrow> n \<noteq> 0)"

text \<open>\<open>weakref_list_delete\<close> takes the record out of the list it is in.\<close>

definition unlink :: "int \<Rightarrow> sysev \<Rightarrow> sysev" where
  "unlink i s = s\<lparr>contexts := map (\<lambda>(k, ids). (k, filter (\<lambda>j. j \<noteq> i) ids)) (contexts s)\<rparr>"

definition subs_uinit :: "nat option \<Rightarrow> int \<Rightarrow> int \<Rightarrow> sysev \<Rightarrow> sysev" where
  "subs_uinit handle i cb s =
     (let s1 = unlink i s in
      case handle of
        None \<Rightarrow> s1
      | Some h \<Rightarrow>
          (let (r, t, w) = FeatureRemoveCallback (se_inst s1 h) cb (se_world s1)
           in s1\<lparr>se_inst := (se_inst s1)(h := t), se_world := w\<rparr>))"

definition removeSubscribe :: "nat option \<Rightarrow> int \<Rightarrow> sysev \<Rightarrow> sysev" where
  "removeSubscribe handle i s =
     (case map_of (subs_map s) i of
        None \<Rightarrow> s
      | Some cb \<Rightarrow>
          (let s1 = subs_uinit handle i cb s in s1\<lparr>subs_map := omap_del i (subs_map s1)\<rparr>))"

definition SYSTEM_EVENT_PREFIX :: string where "SYSTEM_EVENT_PREFIX = ''usual.event.''"

definition isSystemEvent :: "string \<Rightarrow> bool" where
  "isSystemEvent name \<longleftrightarrow> prefix SYSTEM_EVENT_PREFIX name"

section \<open>What a topic means for an event\<close>

definition deal_user_event :: "sys_env \<Rightarrow> string \<Rightarrow> user_event_meta \<Rightarrow> jsval option" where
  "deal_user_event E pkg data =
     (if um_pkg data = pkg \<or> strstr (um_permissions data) pkg \<noteq> None then
        (if um_params data \<noteq> [] then
           Some (ft_parse_json (sy_engine E) (um_params data))
         else Some JUndef)
      else None)"

definition deal_battary_change :: "sys_env \<Rightarrow> topic_data option \<Rightarrow> int \<Rightarrow> jsval option" where
  "deal_battary_change E pre cur_level =
     (if (case pre of Some (BatteryData l c) \<Rightarrow> l \<noteq> cur_level | _ \<Rightarrow> True)
      then Some (e_NewFloat64 (sy_engine E) (sy_level E cur_level)) else None)"

definition deal_charging :: "topic_data option \<Rightarrow> int \<Rightarrow> jsval option" where
  "deal_charging pre cur_state =
     (case pre of Some (BatteryData l c) \<Rightarrow> if c = 0 \<and> cur_state = 1 then Some JUndef else None | _ \<Rightarrow> None)"

definition deal_discharging :: "topic_data option \<Rightarrow> int \<Rightarrow> jsval option" where
  "deal_discharging pre cur_state =
     (case pre of Some (BatteryData l c) \<Rightarrow> if c = 1 \<and> cur_state = 0 then Some JUndef else None | _ \<Rightarrow> None)"

definition battery_events :: "string list" where
  "battery_events = [''usual.event.BATTERY_CHANGED'', ''usual.event.CHARGING'', ''usual.event.DISCHARGING'']"

definition topic_events :: "nat \<Rightarrow> string list" where
  "topic_events t = (if t = user_topic then [''USER_EVENT''] else battery_events)"

fun GetTopicInfoGlobal :: "nat list \<Rightarrow> string \<Rightarrow> nat option" where
  "GetTopicInfoGlobal [] event = None"
| "GetTopicInfoGlobal (t # ts) event =
     (if event \<in> set (topic_events t) then Some t else GetTopicInfoGlobal ts event)"

definition feature_topics :: "nat list" where "feature_topics = [user_topic, battery_topic]"

text \<open>The function of an event; a topic hands its own data only.\<close>

definition deal :: "sys_env \<Rightarrow> string \<Rightarrow> string \<Rightarrow> topic_data option \<Rightarrow> topic_data \<Rightarrow> jsval option" where
  "deal E name pkg pre cur =
     (case cur of
        UserData m \<Rightarrow> deal_user_event E pkg m
      | BatteryData level state \<Rightarrow>
          (if name = battery_events ! 0 then deal_battary_change E pre level
           else if name = battery_events ! 1 then deal_charging pre state
           else deal_discharging pre state))"

section \<open>Delivery\<close>

fun invoke_subs :: "sys_env \<Rightarrow> nat \<Rightarrow> nval \<Rightarrow> int list \<Rightarrow> sysev \<Rightarrow> sysev option" where
  "invoke_subs E h arg [] s = Some s"
| "invoke_subs E h arg (i # ids) s =
     (case map_of (subs_map s) i of
        None \<Rightarrow> None
      | Some cb \<Rightarrow>
          invoke_subs E h arg ids
            (s\<lparr>se_world := snd (FeatureInvokeCallback (sy_engine E) (se_inst s h) cb [arg] (se_world s))\<rparr>))"

definition event_arg :: "jsval \<Rightarrow> string \<Rightarrow> nval" where
  "event_arg res pkg = NStruct [(0, NAny res), (8, NStr pkg)]"

definition event_package :: "string \<Rightarrow> topic_data \<Rightarrow> string" where
  "event_package name cur =
     (if isSystemEvent name then ''system'' else case cur of UserData m \<Rightarrow> um_pkg m | _ \<Rightarrow> [])"

definition name_matches :: "string \<Rightarrow> topic_data \<Rightarrow> bool" where
  "name_matches name cur \<longleftrightarrow> isSystemEvent name \<or> (case cur of UserData m \<Rightarrow> um_eventName m = name | _ \<Rightarrow> False)"

definition handleEvent :: "sys_env \<Rightarrow> nat \<Rightarrow> string \<Rightarrow> int list \<Rightarrow> topic_data option \<Rightarrow> topic_data \<Rightarrow> sysev \<Rightarrow> sysev option" where
  "handleEvent E h name ids pre cur s =
     (if \<not> name_matches name cur then Some s
      else if FeatureInstanceIsDetached (se_inst s h) then Some s
      else case deal E name (se_pkg s h) pre cur of
        None \<Rightarrow> Some s
      | Some res \<Rightarrow>
          (case invoke_subs E h (event_arg res (event_package name cur)) ids (s\<lparr>se_world := js_new res (se_world s)\<rparr>) of
             None \<Rightarrow> None
           | Some s1 \<Rightarrow> Some (s1\<lparr>se_world := feature_free_value res (se_world s1)\<rparr>)))"

fun handle_contexts :: "sys_env \<Rightarrow> nat \<Rightarrow> topic_data option \<Rightarrow> topic_data \<Rightarrow> (event_key \<times> int list) list \<Rightarrow>
    sysev \<Rightarrow> sysev option" where
  "handle_contexts E t pre cur [] s = Some s"
| "handle_contexts E t pre cur (((t', h, name), ids) # cs) s =
     (if t' = t then Option.bind (handleEvent E h name ids pre cur s) (handle_contexts E t pre cur cs)
      else handle_contexts E t pre cur cs s)"

definition handleTopicData :: "sys_env \<Rightarrow> nat \<Rightarrow> topic_data \<Rightarrow> sysev \<Rightarrow> sysev option" where
  "handleTopicData E t cur s =
     (case map_of (topics_map s) t of
        None \<Rightarrow> Some s
      | Some pre \<Rightarrow>
          map_option (\<lambda>s. s\<lparr>topics_map := omap_put t (Some cur) (topics_map s)\<rparr>)
            (handle_contexts E t pre cur (contexts s) s))"

section \<open>Subscribing\<close>

definition addEventSubsInfo :: "event_key \<Rightarrow> int \<Rightarrow> sysev \<Rightarrow> int \<times> sysev" where
  "addEventSubsInfo k cb s =
     (let i = eventSubsId s;
          s1 = s\<lparr>eventSubsId := inc32 i\<rparr>;
          (ok, s2) = add_subs_info_global i cb s1
      in if ok then
           (let s3 = addEventSubsInfoGlobal (snd (snd k)) s2
            in (i, s3\<lparr>contexts := omap_put k ((case map_of (contexts s3) k of None \<Rightarrow> [] | Some ids \<Rightarrow> ids) @ [i]) (contexts s3)\<rparr>))
         else (- 1, s2))"

definition addEvent :: "nat \<Rightarrow> nat \<Rightarrow> string \<Rightarrow> int \<Rightarrow> sysev \<Rightarrow> int \<times> sysev" where
  "addEvent t h name cb s =
     (if map_of (contexts s) (t, h, name) = None \<and> GetTopicInfoGlobal feature_topics name = None \<and> isSystemEvent name then (- 1, s)
      else
        (let s1 = (if map_of (contexts s) (t, h, name) = None then s\<lparr>contexts := omap_put (t, h, name) [] (contexts s)\<rparr> else s)
         in addEventSubsInfo (t, h, name) cb s1))"

definition listener_subscribeEvent :: "nat \<Rightarrow> nat \<Rightarrow> string \<Rightarrow> int \<Rightarrow> sysev \<Rightarrow> int \<times> sysev" where
  "listener_subscribeEvent t h name cb s =
     addEvent t h name cb (if (t, h) \<in> set (subs_man s) then s else s\<lparr>subs_man := (t, h) # subs_man s\<rparr>)"

definition createTopicListener :: "sys_env \<Rightarrow> nat \<Rightarrow> sysev \<Rightarrow> int \<times> sysev" where
  "createTopicListener E t s =
     (if sy_subscribe E t < 0 then (sy_subscribe E t, s)
      else (0, s\<lparr>topics_map := omap_put t None (topics_map s)\<rparr>))"

definition subscribeEvent :: "sys_env \<Rightarrow> nat \<Rightarrow> string \<Rightarrow> int \<Rightarrow> sysev \<Rightarrow> int \<times> sysev" where
  "subscribeEvent E h name cb s =
     (case (if isSystemEvent name then GetTopicInfoGlobal feature_topics name else Some user_topic) of
        None \<Rightarrow> (- 1, s)
      | Some t \<Rightarrow>
          (let (res, s1) = (if map_of (topics_map s) t = None then createTopicListener E t s else (0, s))
           in if res < 0 then (res, s1) else listener_subscribeEvent t h name cb s1))"

text \<open>A negative result is undefined for the script.\<close>

definition system_event_wrap_subscribe :: "sys_env \<Rightarrow> nat \<Rightarrow> string option \<Rightarrow> int \<Rightarrow> sysev \<Rightarrow> jsval \<times> sysev" where
  "system_event_wrap_subscribe E h eventName cb s =
     (case eventName of
        None \<Rightarrow> (JUndef, s)
      | Some name \<Rightarrow>
          (if name = [] \<or> \<not> FeatureCheckCallbackId (se_inst s h) cb then (JUndef, s)
           else (let (res, s1) = subscribeEvent E h name cb s
                 in (if res < 0 then JUndef else JInt (word_of_int res), s1))))"

definition system_event_wrap_unsubscribe :: "nat \<Rightarrow> int \<Rightarrow> sysev \<Rightarrow> sysev" where
  "system_event_wrap_unsubscribe h i s = (if instanceMatchId h i s then removeSubscribe (Some h) i s else s)"

section \<open>The end of an instance and of the module\<close>

text \<open>\<open>~EventContext\<close> frees the records of its list.\<close>

fun destroy_context :: "string \<Rightarrow> int list \<Rightarrow> sysev \<Rightarrow> sysev option" where
  "destroy_context name [] s = Some s"
| "destroy_context name (i # ids) s =
     (if map_of (subs_map s) i = None then None
      else destroy_context name ids (removeEventSubsInfoGlobal name (removeSubscribe None i s)))"

fun destroy_contexts :: "(event_key \<times> int list) list \<Rightarrow> sysev \<Rightarrow> sysev option" where
  "destroy_contexts [] s = Some s"
| "destroy_contexts ((k, ids) # cs) s =
     Option.bind (destroy_context (snd (snd k)) ids s) (\<lambda>s.
       destroy_contexts cs (s\<lparr>contexts := omap_del k (contexts s)\<rparr>))"

definition detachHandleResource :: "nat \<Rightarrow> sysev \<Rightarrow> sysev option" where
  "detachHandleResource h s =
     map_option (\<lambda>s. s\<lparr>subs_man := filter (\<lambda>(t, h'). h' \<noteq> h) (subs_man s)\<rparr>)
       (destroy_contexts (filter (\<lambda>(k, ids). fst (snd k) = h) (contexts s)) s)"

definition delete_event_manager :: "sysev \<Rightarrow> sysev option" where
  "delete_event_manager s =
     map_option (\<lambda>s. s\<lparr>topics_map := [], subs_man := []\<rparr>) (destroy_contexts (contexts s) s)"

section \<open>Publishing\<close>

record publish_options =
  po_params :: "jsval option"
  po_permissions :: "string option list option"

text \<open>The list of permissions is written into a buffer of \<open>PATH_MAX\<close> characters without a check.\<close>

fun join_permissions :: "nat \<Rightarrow> bool \<Rightarrow> string option list \<Rightarrow> string \<Rightarrow> string option" where
  "join_permissions cap first [] buf = Some buf"
| "join_permissions cap first (p # ps) buf =
     Option.bind (if first then Some buf else strcat cap buf '','') (\<lambda>buf.
     Option.bind (case p of None \<Rightarrow> Some buf | Some t \<Rightarrow> strcat cap buf t) (join_permissions cap False ps))"

definition publish_params :: "sys_env \<Rightarrow> jsval option \<Rightarrow> string option" where
  "publish_params E params =
     (case params of
        None \<Rightarrow> Some []
      | Some v \<Rightarrow>
          (if ft_get_type v \<le> 0 then Some []
           else if ft_get_type v = FT_TYPE_OBJECT then
             (case ft_to_string (sy_engine E) (sy_to_string E) v of
                None \<Rightarrow> Some []
              | Some t \<Rightarrow> if t = [] then Some [] else if length t < 128 then Some t else None)
           else None))"

text \<open>The result is \<open>None\<close> after a write past the buffer; \<open>Some s\<close> unchanged when publishing is refused.\<close>

definition system_event_wrap_publish :: "sys_env \<Rightarrow> nat \<Rightarrow> string option \<Rightarrow> publish_options option \<Rightarrow> sysev \<Rightarrow> sysev option" where
  "system_event_wrap_publish E h eventName options s =
     (case eventName of
        None \<Rightarrow> Some s
      | Some name \<Rightarrow>
          (if name = [] \<or> isSystemEvent name \<or> \<not> isEventSubscribed name s then Some s
           else if \<not> length name < 32 \<or> \<not> length (se_pkg s h) < 32 then Some s
           else
             (case (case options of None \<Rightarrow> Some [] | Some opt \<Rightarrow> publish_params E (po_params opt)) of
                None \<Rightarrow> Some s
              | Some params \<Rightarrow>
                  (case (case options of
                           None \<Rightarrow> Some []
                         | Some opt \<Rightarrow>
                             (case po_permissions opt of
                                None \<Rightarrow> Some []
                              | Some ps \<Rightarrow> join_permissions (sy_path_max E) True ps [])) of
                     None \<Rightarrow> None
                   | Some perms \<Rightarrow>
                       (if \<not> length perms < 64 then Some s
                        else
                          (let data = \<lparr>um_eventName = name, um_pkg = se_pkg s h, um_params = params, um_permissions = perms\<rparr>
                           in Some (if sy_publish E data < 0 then s
                                    else s\<lparr>se_published := se_published s @ [data]\<rparr>)))))))"

section \<open>Runs\<close>

datatype evop =
    EvSubscribe nat "string option" int
  | EvUnsubscribe nat int
  | EvPublish nat "string option" "publish_options option"
  | EvTopic nat topic_data
  | EvDetach nat
  | EvDelete

fun evstep :: "sys_env \<Rightarrow> evop \<Rightarrow> sysev \<Rightarrow> sysev option" where
  "evstep E (EvSubscribe h name cb) s = Some (snd (system_event_wrap_subscribe E h name cb s))"
| "evstep E (EvUnsubscribe h i) s = Some (system_event_wrap_unsubscribe h i s)"
| "evstep E (EvPublish h name opt) s = system_event_wrap_publish E h name opt s"
| "evstep E (EvTopic t cur) s = handleTopicData E t cur s"
| "evstep E (EvDetach h) s = detachHandleResource h s"
| "evstep E EvDelete s = delete_event_manager s"

fun evrun :: "sys_env \<Rightarrow> evop list \<Rightarrow> sysev \<Rightarrow> sysev option" where
  "evrun E [] s = Some s"
| "evrun E (p # ps) s = Option.bind (evstep E p s) (evrun E ps)"

definition new_sysev :: "(nat \<Rightarrow> inst option) \<Rightarrow> (nat \<Rightarrow> string) \<Rightarrow> world \<Rightarrow> sysev" where
  "new_sysev I P w = \<lparr>se_inst = I, se_pkg = P, se_world = w, subs_map = [], event_subs_info = [], eventSubsId = 0,
     topics_map = [], subs_man = [], contexts = [], se_published = []\<rparr>"

end
