(* ===== verification/SysEventFacts.thy ===== *)
theory SysEventFacts
  imports SysEvents
begin

text \<open>
  The invariant of the event module: every subscription record is in exactly one list, the lists hold no freed
  record, and an event with subscribers counts as subscribed.
\<close>

definition ctx :: "sysev \<Rightarrow> event_key \<Rightarrow> int list" where
  "ctx s k = (case map_of (contexts s) k of None \<Rightarrow> [] | Some ids \<Rightarrow> ids)"

definition ids_named :: "string \<Rightarrow> sysev \<Rightarrow> int set" where
  "ids_named name s = {i. \<exists>t h. i \<in> set (ctx s (t, h, name))}"

definition subs_count :: "sysev \<Rightarrow> string \<Rightarrow> int" where
  "subs_count s name = (case map_of (event_subs_info s) name of None \<Rightarrow> 0 | Some n \<Rightarrow> n)"

definition evinv :: "int \<Rightarrow> sysev \<Rightarrow> bool" where
  "evinv B s \<longleftrightarrow>
     (\<forall>k. distinct (ctx s k)) \<and>
     (\<forall>i k k'. i \<in> set (ctx s k) \<longrightarrow> i \<in> set (ctx s k') \<longrightarrow> k = k') \<and>
     (\<forall>i. (\<exists>k. i \<in> set (ctx s k)) \<longleftrightarrow> i \<in> okeys (subs_map s)) \<and>
     (\<forall>name n. map_of (event_subs_info s) name = Some n \<longrightarrow> 0 < n) \<and>
     (\<forall>name. int (card (ids_named name s)) \<le> subs_count s name \<and> subs_count s name \<le> B) \<and>
     omap_ok (contexts s)"

lemma evinvD:
  assumes "evinv B s"
  shows "distinct (ctx s k)" "i \<in> set (ctx s k) \<Longrightarrow> i \<in> set (ctx s k') \<Longrightarrow> k = k'"
    "(\<exists>k. i \<in> set (ctx s k)) \<longleftrightarrow> i \<in> okeys (subs_map s)"
    "map_of (event_subs_info s) name = Some n \<Longrightarrow> 0 < n"
    "int (card (ids_named name s)) \<le> subs_count s name" "subs_count s name \<le> B" "omap_ok (contexts s)"
    "finite (ids_named name s)"
proof -
  have "ids_named name s \<subseteq> okeys (subs_map s)" using assms by (auto simp: evinv_def ids_named_def)
  then show "finite (ids_named name s)" by (rule finite_subset) simp
qed (use assms [unfolded evinv_def] in \<open>blast+\<close>)

lemma evinvI:
  assumes "\<And>k. distinct (ctx s k)" "\<And>i k k'. i \<in> set (ctx s k) \<Longrightarrow> i \<in> set (ctx s k') \<Longrightarrow> k = k'"
    "\<And>i. (\<exists>k. i \<in> set (ctx s k)) \<longleftrightarrow> i \<in> okeys (subs_map s)"
    "\<And>name n. map_of (event_subs_info s) name = Some n \<Longrightarrow> 0 < n"
    "\<And>name. int (card (ids_named name s)) \<le> subs_count s name \<and> subs_count s name \<le> B" "omap_ok (contexts s)"
  shows "evinv B s"
  unfolding evinv_def using assms by blast

lemma evinv_mono: "evinv B s \<Longrightarrow> B \<le> B' \<Longrightarrow> evinv B' s"
  unfolding evinv_def by (elim conjE, intro conjI) (assumption | meson order_trans)+

lemma evinv_cong:
  assumes "evinv B s" "contexts s' = contexts s" "subs_map s' = subs_map s" "event_subs_info s' = event_subs_info s"
  shows "evinv B s'"
  using assms by (simp add: evinv_def ctx_def ids_named_def subs_count_def)

section \<open>Taking a record out\<close>

lemma evinv_filter:
  assumes "evinv B s" "\<And>k. ctx s' k = filter P (ctx s k)" "okeys (subs_map s') = {i \<in> okeys (subs_map s). P i}"
    "\<And>name n. map_of (event_subs_info s') name = Some n \<Longrightarrow> 0 < n"
    "\<And>name. int (card (ids_named name s')) \<le> subs_count s' name \<and> subs_count s' name \<le> B" "omap_ok (contexts s')"
  shows "evinv B s'"
proof (rule evinvI)
  show "distinct (ctx s' k)" for k using evinvD(1) [OF assms(1)] by (simp add: assms(2))
  show "k = k'" if "i \<in> set (ctx s' k)" "i \<in> set (ctx s' k')" for i k k'
    by (rule evinvD(2) [OF assms(1), of i]) (use that in \<open>simp_all add: assms(2)\<close>)
  show "(\<exists>k. i \<in> set (ctx s' k)) \<longleftrightarrow> i \<in> okeys (subs_map s')" for i
    unfolding assms(2,3) using evinvD(3) [OF assms(1), of i] by (auto simp del: split_paired_Ex)
qed (use assms(4-6) in blast)+

lemma removeSubscribe_fields:
  assumes "map_of (subs_map s) i = Some cb"
  shows "ctx (removeSubscribe h i s) k = filter (\<lambda>j. j \<noteq> i) (ctx s k)"
    "subs_map (removeSubscribe h i s) = omap_del i (subs_map s)"
    "event_subs_info (removeSubscribe h i s) = event_subs_info s"
    "map fst (contexts (removeSubscribe h i s)) = map fst (contexts s)"
    "eventSubsId (removeSubscribe h i s) = eventSubsId s"
proof -
  have u: "contexts (removeSubscribe h i s) = map (\<lambda>(k, ids). (k, filter (\<lambda>j. j \<noteq> i) ids)) (contexts s)"
    by (simp add: removeSubscribe_def assms subs_uinit_def unlink_def Let_def split: option.splits prod.splits)
  have "map_of (map (\<lambda>(k, ids). (k, filter (\<lambda>j. j \<noteq> i) ids)) cs) k = map_option (filter (\<lambda>j. j \<noteq> i)) (map_of cs k)"
    for cs :: "(event_key \<times> int list) list"
    by (induction cs) auto
  then show "ctx (removeSubscribe h i s) k = filter (\<lambda>j. j \<noteq> i) (ctx s k)"
    by (simp add: ctx_def u split: option.splits)
  show "map fst (contexts (removeSubscribe h i s)) = map fst (contexts s)" by (simp add: u comp_def case_prod_beta)
  show "subs_map (removeSubscribe h i s) = omap_del i (subs_map s)" "event_subs_info (removeSubscribe h i s) = event_subs_info s"
    "eventSubsId (removeSubscribe h i s) = eventSubsId s"
    by (simp_all add: removeSubscribe_def assms subs_uinit_def unlink_def Let_def split: option.splits prod.splits)
qed

lemma ids_named_remove:
  assumes "map_of (subs_map s) i = Some cb"
  shows "ids_named name (removeSubscribe h i s) = ids_named name s - {i}"
  by (auto simp: ids_named_def removeSubscribe_fields(1) [OF assms])

lemma removeSubscribe_inv:
  assumes "evinv B s"
  shows "evinv B (removeSubscribe h i s)"
proof (cases "map_of (subs_map s) i")
  case None
  then show ?thesis using assms by (simp add: removeSubscribe_def)
next
  case (Some cb)
  note r = removeSubscribe_fields [OF Some]
  have "int (card (ids_named name (removeSubscribe h i s))) \<le> subs_count s name" for name
    using evinvD(5,8) [OF assms, of name] card_Diff1_le [of "ids_named name s" i]
    by (simp add: ids_named_remove [OF Some])
  moreover have "omap_ok (contexts (removeSubscribe h i s))" using evinvD(7) [OF assms] r(4) by (simp add: omap_ok_def)
  moreover have "subs_count (removeSubscribe h i s) name = subs_count s name" for name by (simp add: subs_count_def r(3))
  moreover have "okeys (subs_map (removeSubscribe h i s)) = {j \<in> okeys (subs_map s). j \<noteq> i}" by (auto simp: r(2))
  ultimately show ?thesis
    by (intro evinv_filter [OF assms r(1)]) (use evinvD(4,6) [OF assms] in \<open>simp_all add: r(3)\<close>)
qed

lemma removeEvent_count:
  assumes "evinv B s" "0 < subs_count s name"
  shows "subs_count (removeEventSubsInfoGlobal name s) name' = (if name' = name then subs_count s name - 1 else subs_count s name')"
    "\<forall>name' n. map_of (event_subs_info (removeEventSubsInfoGlobal name s)) name' = Some n \<longrightarrow> 0 < n"
    "contexts (removeEventSubsInfoGlobal name s) = contexts s" "subs_map (removeEventSubsInfoGlobal name s) = subs_map s"
proof -
  obtain n where n: "map_of (event_subs_info s) name = Some n" "subs_count s name = n"
    using assms(2) by (auto simp: subs_count_def split: option.splits)
  then show "subs_count (removeEventSubsInfoGlobal name s) name' = (if name' = name then subs_count s name - 1 else subs_count s name')"
    "contexts (removeEventSubsInfoGlobal name s) = contexts s" "subs_map (removeEventSubsInfoGlobal name s) = subs_map s"
    by (simp_all add: removeEventSubsInfoGlobal_def subs_count_def)
  show "\<forall>name' n. map_of (event_subs_info (removeEventSubsInfoGlobal name s)) name' = Some n \<longrightarrow> 0 < n"
    using evinvD(4) [OF assms(1)] n assms(2) by (fastforce simp: removeEventSubsInfoGlobal_def split: if_splits)
qed

text \<open>Freeing a record together with its event keeps the number of subscribers below the count.\<close>

lemma destroy_one:
  assumes "evinv B s" "i \<in> set (ctx s (t, h, name))"
  defines "s' \<equiv> removeEventSubsInfoGlobal name (removeSubscribe None i s)"
  shows "evinv B s'" "ctx s' k = filter (\<lambda>j. j \<noteq> i) (ctx s k)" "map fst (contexts s') = map fst (contexts s)"
    "map_of (subs_map s) i \<noteq> None"
proof -
  have "i \<in> okeys (subs_map s)" using evinvD(3) [OF assms(1)] assms(2) by blast
  then obtain cb where cb: "map_of (subs_map s) i = Some cb" by (auto simp: okeys_iff)
  then show "map_of (subs_map s) i \<noteq> None" by simp
  let ?r = "removeSubscribe None i s"
  have r: "evinv B ?r" by (rule removeSubscribe_inv [OF assms(1)])
  have i: "i \<in> ids_named name s" using assms(2) by (auto simp: ids_named_def)
  have "Suc (card (ids_named name ?r)) = card (ids_named name s)"
    using card_Suc_Diff1 [OF evinvD(8) [OF assms(1)] i] by (simp add: ids_named_remove [OF cb])
  then have c: "int (card (ids_named name ?r)) = int (card (ids_named name s)) - 1" "0 < card (ids_named name s)" by linarith+
  then have pos: "0 < subs_count ?r name" using c(2) evinvD(5) [OF assms(1), of name]
    by (simp add: subs_count_def removeSubscribe_fields(3) [OF cb])
  note e = removeEvent_count [OF r pos]
  show k: "ctx s' k = filter (\<lambda>j. j \<noteq> i) (ctx s k)" for k
    using removeSubscribe_fields(1) [OF cb, of None k] by (simp add: s'_def ctx_def e(3))
  show "map fst (contexts s') = map fst (contexts s)" by (simp add: s'_def e(3) removeSubscribe_fields(4) [OF cb])
  have n: "ids_named m s' = ids_named m ?r" for m by (simp add: ids_named_def s'_def ctx_def e(3))
  have "int (card (ids_named m s')) \<le> subs_count s' m \<and> subs_count s' m \<le> B" for m
    using evinvD(5,6) [OF r, of m] evinvD(5) [OF assms(1), of name] c n e(1)
    by (auto simp: s'_def subs_count_def removeSubscribe_fields(3) [OF cb])
  moreover have "okeys (subs_map s') = {j \<in> okeys (subs_map s). j \<noteq> i}"
    by (auto simp: s'_def e(4) removeSubscribe_fields(2) [OF cb])
  moreover have "omap_ok (contexts s')" using evinvD(7) [OF r] by (simp add: s'_def e(3))
  ultimately show "evinv B s'"
    by (intro evinv_filter [OF assms(1) k]) (use e(2) in \<open>simp_all add: s'_def\<close>)
qed

lemma destroy_context_ok:
  assumes "evinv B s" "distinct ids" "set ids \<subseteq> set (ctx s (t, h, name))"
  shows "\<exists>s'. destroy_context name ids s = Some s' \<and> evinv B s' \<and> map fst (contexts s') = map fst (contexts s) \<and>
    (\<forall>k. ctx s' k = filter (\<lambda>j. j \<notin> set ids) (ctx s k))"
  using assms
proof (induction ids arbitrary: s)
  case Nil
  then show ?case by simp
next
  case (Cons i ids)
  let ?s = "removeEventSubsInfoGlobal name (removeSubscribe None i s)"
  have "i \<in> set (ctx s (t, h, name))" using Cons.prems(3) by simp
  note d = destroy_one [OF Cons.prems(1) this]
  have "set ids \<subseteq> set (ctx ?s (t, h, name))" using Cons.prems(2,3) d(2) by auto
  from Cons.IH [OF d(1) _ this] Cons.prems(2) obtain s' where
    s': "destroy_context name ids ?s = Some s'" "evinv B s'" "map fst (contexts s') = map fst (contexts ?s)"
    "\<forall>k. ctx s' k = filter (\<lambda>j. j \<notin> set ids) (ctx ?s k)" by auto
  have "destroy_context name (i # ids) s = destroy_context name ids ?s"
    using d(4) by (simp only: destroy_context.simps if_False)
  then show ?case using s' d(2,3) by (auto simp: conj_commute intro!: filter_cong)
qed

lemma map_of_ctx: "k \<in> set (map fst (contexts s)) \<Longrightarrow> map_of (contexts s) k = Some (ctx s k)"
  by (cases "map_of (contexts s) k") (auto simp: ctx_def map_of_eq_None_iff simp del: split_paired_Ex)

lemma disjoint_ctx:
  assumes "evinv B s" "k' \<noteq> k"
  shows "filter (\<lambda>j. j \<notin> set (ctx s k)) (ctx s k') = ctx s k'"
  using evinvD(2) [OF assms(1), of _ k' k] assms(2) by (auto simp: filter_id_conv)

lemma drop_context:
  assumes "evinv B s" "ctx s k = []"
  defines "s' \<equiv> s\<lparr>contexts := omap_del k (contexts s)\<rparr>"
  shows "evinv B s'" "ctx s' = ctx s" "map fst (contexts s') = filter (\<lambda>x. x \<noteq> k) (map fst (contexts s))"
proof -
  show c: "ctx s' = ctx s" using assms(2) by (auto simp: fun_eq_iff ctx_def s'_def)
  show "map fst (contexts s') = filter (\<lambda>x. x \<noteq> k) (map fst (contexts s))"
    by (simp add: s'_def omap_del_def filter_map comp_def)
  have "ids_named m s' = ids_named m s" "subs_count s' m = subs_count s m" for m
    by (simp add: ids_named_def c) (simp add: subs_count_def s'_def)
  then show "evinv B s'"
    using evinvD(4-7) [OF assms(1)] by (intro evinv_filter [OF assms(1), of _ "\<lambda>i. True"]) (simp_all add: c, simp_all add: s'_def)
qed

lemma destroy_contexts_ok:
  assumes "evinv B s" "distinct (map fst cs)" "list_all (\<lambda>(k, ids). map_of (contexts s) k = Some ids) cs"
  shows "\<exists>s'. destroy_contexts cs s = Some s' \<and> evinv B s' \<and>
    map fst (contexts s') = filter (\<lambda>k. k \<notin> set (map fst cs)) (map fst (contexts s)) \<and>
    (\<forall>k. ctx s' k = (if k \<in> set (map fst cs) then [] else ctx s k))"
  using assms
proof (induction cs arbitrary: s)
  case Nil
  then show ?case by simp
next
  case (Cons c cs)
  obtain k ids where c: "c = (k, ids)" by (cases c)
  have k: "map_of (contexts s) k = Some ids" "ctx s k = ids" using Cons.prems(3) by (simp_all add: c ctx_def)
  obtain t h name where kk: "k = (t, h, name)" by (cases k)
  obtain s1 where s1: "destroy_context (snd (snd k)) ids s = Some s1" "evinv B s1" "map fst (contexts s1) = map fst (contexts s)"
    "\<And>k'. ctx s1 k' = filter (\<lambda>j. j \<notin> set ids) (ctx s k')"
    using destroy_context_ok [OF Cons.prems(1), of ids t h name] evinvD(1) [OF Cons.prems(1), of k] k by (auto simp: kk)
  have e: "ctx s1 k = []" using s1(4) k by simp
  note s2 = drop_context [OF s1(2) e]
  let ?s = "s1\<lparr>contexts := omap_del k (contexts s1)\<rparr>"
  have other: "ctx ?s k' = ctx s k'" if "k' \<noteq> k" for k'
    using disjoint_ctx [OF Cons.prems(1) that] s2(2) s1(4) k(2) by simp
  have "map_of (contexts ?s) k' = Some ids'" if "(k', ids') \<in> set cs" for k' ids'
  proof -
    have n: "k' \<noteq> k" using Cons.prems(2) that by (force simp: c)
    have m: "map_of (contexts s) k' = Some ids'" using Cons.prems(3) that by (auto simp: list_all_iff)
    then have "k' \<in> set (map fst (contexts s))" by (force dest: map_of_SomeD)
    then have "k' \<in> set (map fst (contexts ?s))" using s2(3) s1(3) n by auto
    then have "map_of (contexts ?s) k' = Some (ctx ?s k')" by (rule map_of_ctx)
    then show ?thesis using other [OF n] m by (simp add: ctx_def)
  qed
  then have "list_all (\<lambda>(k, ids). map_of (contexts ?s) k = Some ids) cs" by (auto simp: list_all_iff)
  from Cons.IH [OF s2(1) _ this] Cons.prems(2) obtain s' where s': "destroy_contexts cs ?s = Some s'" "evinv B s'"
    "map fst (contexts s') = filter (\<lambda>k. k \<notin> set (map fst cs)) (map fst (contexts ?s))"
    "\<And>k. ctx s' k = (if k \<in> set (map fst cs) then [] else ctx ?s k)" by auto
  have "ctx s' k' = (if k' \<in> set (map fst (c # cs)) then [] else ctx s k')" for k'
    using s'(4) [of k'] other [of k'] e s2(2) by (cases "k' = k") (simp_all add: c)
  moreover have "destroy_contexts (c # cs) s = Some s'" using s1(1) s'(1) by (simp add: c)
  moreover have "map fst (contexts s') = filter (\<lambda>k. k \<notin> set (map fst (c # cs))) (map fst (contexts s))"
    using s'(3) s2(3) s1(3) by (simp add: c conj_commute)
  ultimately show ?case using s'(2) by blast
qed

lemma omap_entries:
  assumes "omap_ok cs" "set ds \<subseteq> set cs"
  shows "list_all (\<lambda>(k, ids). map_of cs k = Some ids) ds"
  using assms omap_ok_distinct [OF assms(1)] by (auto simp: list_all_iff)

lemma distinct_filter_keys: "distinct (map fst cs) \<Longrightarrow> distinct (map fst (filter P cs))"
  by (induction cs) auto

lemma detachHandleResource_ok:
  assumes "evinv B s"
  shows "\<exists>s'. detachHandleResource h s = Some s' \<and> evinv B s' \<and>
    (\<forall>t h' name. ctx s' (t, h', name) = (if h' = h then [] else ctx s (t, h', name))) \<and>
    list_all (\<lambda>(t, h', name). h' \<noteq> h) (map fst (contexts s')) \<and> list_all (\<lambda>(t, h'). h' \<noteq> h) (subs_man s')"
proof -
  let ?cs = "filter (\<lambda>(k, ids). fst (snd k) = h) (contexts s)"
  have ok: "omap_ok (contexts s)" by (rule evinvD(7) [OF assms])
  obtain s' where s': "destroy_contexts ?cs s = Some s'" "evinv B s'"
    "map fst (contexts s') = filter (\<lambda>k. k \<notin> set (map fst ?cs)) (map fst (contexts s))"
    "\<And>k. ctx s' k = (if k \<in> set (map fst ?cs) then [] else ctx s k)"
    using destroy_contexts_ok [OF assms distinct_filter_keys [OF omap_ok_distinct [OF ok]] omap_entries [OF ok], of "\<lambda>(k, ids). fst (snd k) = h"]
    by auto
  have keys: "(t, h', name) \<in> set (map fst ?cs) \<longleftrightarrow> h' = h \<and> (t, h', name) \<in> set (map fst (contexts s))" for t h' name
    by force
  have empty: "ctx s k = []" if "k \<notin> set (map fst (contexts s))" for k
    using that by (auto simp: ctx_def map_of_eq_None_iff split: option.splits dest: map_of_SomeD) (metis fst_conv image_eqI map_of_SomeD)
  let ?s = "s'\<lparr>subs_man := filter (\<lambda>(t, h'). h' \<noteq> h) (subs_man s')\<rparr>"
  have "evinv B ?s" by (rule evinv_cong [OF s'(2)]) simp_all
  moreover have "ctx ?s (t, h', name) = (if h' = h then [] else ctx s (t, h', name))" for t h' name
    using s'(4) [of "(t, h', name)"] keys [of t h' name] empty [of "(t, h', name)"] by (auto simp: ctx_def)
  moreover have "list_all (\<lambda>(t, h', name). h' \<noteq> h) (map fst (contexts ?s))"
    using s'(3) keys by (auto simp: list_all_iff)
  ultimately show ?thesis using s'(1) by (auto simp: detachHandleResource_def list_all_iff)
qed

lemma delete_event_manager_ok:
  assumes "evinv B s"
  shows "\<exists>s'. delete_event_manager s = Some s' \<and> evinv B s' \<and> contexts s' = [] \<and> subs_map s' = []"
proof -
  have ok: "omap_ok (contexts s)" by (rule evinvD(7) [OF assms])
  obtain s' where s': "destroy_contexts (contexts s) s = Some s'" "evinv B s'"
    "map fst (contexts s') = filter (\<lambda>k. k \<notin> set (map fst (contexts s))) (map fst (contexts s))"
    using destroy_contexts_ok [OF assms omap_ok_distinct [OF ok] omap_entries [OF ok order_refl]] by auto
  have "contexts s' = []" using s'(3) by (simp add: filter_empty_conv)
  moreover from this have "okeys (subs_map s') = {}" using evinvD(3) [OF s'(2)] by (auto simp: ctx_def)
  then have "subs_map s' = []" by (auto simp: okeys_def)
  moreover have "evinv B (s'\<lparr>topics_map := [], subs_man := []\<rparr>)" by (rule evinv_cong [OF s'(2)]) simp_all
  ultimately show ?thesis using s'(1) by (simp add: delete_event_manager_def)
qed

section \<open>Subscribing\<close>

definition with_record :: "event_key \<Rightarrow> int \<Rightarrow> int \<Rightarrow> sysev \<Rightarrow> sysev" where
  "with_record k i cb s =
     (let s3 = addEventSubsInfoGlobal (snd (snd k)) (s\<lparr>subs_map := omap_put i cb (subs_map s)\<rparr>)
      in s3\<lparr>contexts := omap_put k (ctx s k @ [i]) (contexts s)\<rparr>)"

lemma with_record_ok:
  assumes "evinv B s" "i \<notin> okeys (subs_map s)" "B < INT32_MAX"
  shows "evinv (B + 1) (with_record (t, h, name) i cb s)" (is "evinv _ ?s")
proof -
  let ?k = "(t, h, name)"
  have c: "ctx ?s k' = (if k' = ?k then ctx s ?k @ [i] else ctx s k')" for k'
    by (simp add: ctx_def with_record_def Let_def)
  have new: "i \<notin> set (ctx s k')" for k' using evinvD(3) [OF assms(1), of i] assms(2) by blast
  have m: "subs_map ?s = omap_put i cb (subs_map s)" "omap_ok (contexts ?s)"
    using evinvD(7) [OF assms(1)] by (simp_all add: with_record_def Let_def addEventSubsInfoGlobal_def)
  have info: "event_subs_info ?s = event_subs_info (addEventSubsInfoGlobal name s)"
    by (simp add: with_record_def Let_def addEventSubsInfoGlobal_def split: option.split)
  have n: "map_of (event_subs_info ?s) name' =
      (if name' = name then Some (subs_count s name + 1) else map_of (event_subs_info s) name')" for name'
  proof (cases "map_of (event_subs_info s) name")
    case None
    then show ?thesis unfolding info by (simp add: addEventSubsInfoGlobal_def subs_count_def)
  next
    case (Some x)
    then have "0 < x" "x \<le> B" using evinvD(4,6) [OF assms(1), of name] by (auto simp: subs_count_def)
    then have "inc32 x = x + 1" using assms(3) by simp
    then show ?thesis unfolding info using Some by (simp add: addEventSubsInfoGlobal_def subs_count_def)
  qed
  have named: "ids_named name' ?s = (if name' = name then insert i (ids_named name s) else ids_named name' s)" for name'
  proof -
    have "set (ctx s k) \<subseteq> set (ctx ?s k)" "i \<in> set (ctx ?s ?k)" "set (ctx ?s k) \<subseteq> insert i (set (ctx s k))" for k
      by (auto simp: c)
    moreover have "ctx ?s (t', h', name') = ctx s (t', h', name')" if "name' \<noteq> name" for t' h' using that by (simp add: c)
    ultimately show ?thesis unfolding ids_named_def by (cases "name' = name") (simp, blast, simp)
  qed
  have count: "subs_count ?s name' = (if name' = name then subs_count s name + 1 else subs_count s name')" for name'
    by (simp add: subs_count_def n)
  show ?thesis
  proof (rule evinvI)
    show "distinct (ctx ?s k)" for k using evinvD(1) [OF assms(1)] new by (simp add: c)
    show "k = k'" if "j \<in> set (ctx ?s k)" "j \<in> set (ctx ?s k')" for j k k'
      using that evinvD(2) [OF assms(1), of j k k'] evinvD(2) [OF assms(1), of j ?k k'] evinvD(2) [OF assms(1), of j k ?k] new [of k] new [of k']
      by (auto simp: c split: if_splits)
    show "(\<exists>k. j \<in> set (ctx ?s k)) \<longleftrightarrow> j \<in> okeys (subs_map ?s)" for j
    proof (cases "j = i")
      case True
      have "i \<in> set (ctx ?s ?k)" by (simp add: c)
      then show ?thesis using True m(1) by (auto simp del: split_paired_Ex)
    next
      case False
      then have "j \<in> set (ctx ?s k) \<longleftrightarrow> j \<in> set (ctx s k)" for k by (simp add: c)
      then show ?thesis using False m(1) evinvD(3) [OF assms(1), of j] by simp
    qed
    show "0 < x" if "map_of (event_subs_info ?s) name' = Some x" for name' x
      using that evinvD(4) [OF assms(1)] evinvD(5) [OF assms(1), of name] by (auto simp: n split: if_splits)
    show "int (card (ids_named name' ?s)) \<le> subs_count ?s name' \<and> subs_count ?s name' \<le> B + 1" for name'
      using evinvD(5,6) [OF assms(1), of name'] card_insert_le_m1 card_insert_if [OF evinvD(8) [OF assms(1), of name], of i]
      by (auto simp: named count)
  qed (rule m(2))
qed

lemma addEventSubsInfo_eq:
  assumes "addEventSubsInfo k cb s = (r, s')"
  shows "if map_of (subs_map s) (eventSubsId s) = None
    then r = eventSubsId s \<and> s' = with_record k r cb (s\<lparr>eventSubsId := inc32 (eventSubsId s)\<rparr>)
    else r = - 1 \<and> s' = s\<lparr>eventSubsId := inc32 (eventSubsId s)\<rparr>"
  using assms
  by (auto simp: addEventSubsInfo_def add_subs_info_global_def with_record_def ctx_def addEventSubsInfoGlobal_def Let_def split: option.splits)

lemma addEvent_ok:
  assumes "evinv B s" "B < INT32_MAX" "addEvent t h name cb s = (r, s')"
  shows "evinv (B + 1) s'"
proof -
  let ?s1 = "if map_of (contexts s) (t, h, name) = None then s\<lparr>contexts := omap_put (t, h, name) [] (contexts s)\<rparr> else s"
  have "ctx ?s1 k = ctx s k" for k by (auto simp: ctx_def)
  then have c: "ctx ?s1 = ctx s" by blast
  have f: "subs_map ?s1 = subs_map s" "event_subs_info ?s1 = event_subs_info s" by simp_all
  have s1: "evinv B ?s1"
    by (intro evinv_filter [OF assms(1), of _ "\<lambda>i. True"])
       (use evinvD(4-7) [OF assms(1)] in \<open>simp_all add: c f ids_named_def subs_count_def\<close>)
  show ?thesis
  proof (cases "map_of (contexts s) (t, h, name) = None \<and> GetTopicInfoGlobal feature_topics name = None \<and> isSystemEvent name")
    case True
    then show ?thesis using assms evinv_mono [OF assms(1), of "B + 1"] by (simp add: addEvent_def)
  next
    case False
    then have e: "addEventSubsInfo (t, h, name) cb ?s1 = (r, s')" using assms(3) by (simp only: addEvent_def if_not_P [OF False] if_False Let_def)
    let ?s2 = "?s1\<lparr>eventSubsId := inc32 (eventSubsId ?s1)\<rparr>"
    have s2: "evinv B ?s2" by (rule evinv_cong [OF s1]) simp_all
    show ?thesis
    proof (cases "map_of (subs_map ?s1) (eventSubsId ?s1)")
      case None
      then have "eventSubsId ?s1 \<notin> okeys (subs_map ?s2)" by (simp add: map_of_None_okeys)
      then show ?thesis using with_record_ok [OF s2 _ assms(2)] addEventSubsInfo_eq [OF e] None by metis
    next
      case (Some x)
      then show ?thesis using evinv_mono [OF s2, of "B + 1"] addEventSubsInfo_eq [OF e] by simp
    qed
  qed
qed

lemma subscribeEvent_ok:
  assumes "evinv B s" "B < INT32_MAX" "subscribeEvent E h name cb s = (r, s')"
  shows "evinv (B + 1) s'"
proof -
  have listen: "evinv (B + 1) s2" if "evinv B s1" "listener_subscribeEvent t h name cb s1 = (r2, s2)" for s1 s2 t r2
    using that addEvent_ok [OF evinv_cong [OF that(1)] assms(2), of "s1\<lparr>subs_man := (t, h) # subs_man s1\<rparr>" t h name cb]
      addEvent_ok [OF that(1) assms(2), of t h name cb]
    by (auto simp: listener_subscribeEvent_def split: if_splits)
  have same: "evinv (B + 1) s" by (rule evinv_mono [OF assms(1)]) simp
  have put: "evinv B (s\<lparr>topics_map := m\<rparr>)" for m by (rule evinv_cong [OF assms(1)]) simp_all
  show ?thesis
    using assms(3) listen [OF assms(1)] listen [OF put] same
    by (auto simp: subscribeEvent_def createTopicListener_def Let_def split: option.splits if_splits prod.splits)
qed

section \<open>Delivery\<close>

lemma invoke_subs_ok:
  assumes "set ids \<subseteq> okeys (subs_map s)"
  shows "\<exists>w. invoke_subs E h arg ids s = Some (s\<lparr>se_world := w\<rparr>)"
  using assms
proof (induction ids arbitrary: s)
  case Nil
  show ?case by (rule exI [of _ "se_world s"]) simp
next
  case (Cons i ids)
  then obtain cb where "map_of (subs_map s) i = Some cb" by (auto simp: okeys_iff)
  moreover have "\<exists>w. invoke_subs E h arg ids (s\<lparr>se_world := w'\<rparr>) = Some (s\<lparr>se_world := w\<rparr>)" for w'
    using Cons.IH [of "s\<lparr>se_world := w'\<rparr>"] Cons.prems by auto
  ultimately show ?case by simp
qed

lemma handleEvent_ok:
  assumes "set ids \<subseteq> okeys (subs_map s)"
  shows "\<exists>w. handleEvent E h name ids pre cur s = Some (s\<lparr>se_world := w\<rparr>)"
proof -
  have "s = s\<lparr>se_world := se_world s\<rparr>" by simp
  then have same: "\<exists>w. Some s = Some (s\<lparr>se_world := w\<rparr>)" by metis
  have "\<exists>w'. (case invoke_subs E h a ids (s\<lparr>se_world := w\<rparr>) of None \<Rightarrow> None
      | Some s1 \<Rightarrow> Some (s1\<lparr>se_world := feature_free_value res (se_world s1)\<rparr>)) = Some (s\<lparr>se_world := w'\<rparr>)" for a w res
  proof -
    obtain w' where "invoke_subs E h a ids (s\<lparr>se_world := w\<rparr>) = Some (s\<lparr>se_world := w'\<rparr>)"
      using invoke_subs_ok [of ids "s\<lparr>se_world := w\<rparr>" E h a] assms by auto
    then show ?thesis by (intro exI [of _ "feature_free_value res w'"]) simp
  qed
  then show ?thesis using same by (auto simp: handleEvent_def split: option.splits)
qed

lemma handle_contexts_ok:
  assumes "list_all (\<lambda>(k, ids). set ids \<subseteq> okeys (subs_map s)) cs"
  shows "\<exists>w. handle_contexts E t pre cur cs s = Some (s\<lparr>se_world := w\<rparr>)"
  using assms
proof (induction cs arbitrary: s)
  case Nil
  show ?case by (rule exI [of _ "se_world s"]) simp
next
  case (Cons c cs)
  obtain t' h name ids where c: "c = ((t', h, name), ids)" by (cases c) auto
  obtain w where w: "handleEvent E h name ids pre cur s = Some (s\<lparr>se_world := w\<rparr>)"
    using handleEvent_ok [of ids s E h name pre cur] Cons.prems by (auto simp: c)
  show ?case using Cons.IH [of s] Cons.IH [of "s\<lparr>se_world := w\<rparr>"] Cons.prems w by (simp add: c)
qed

lemma contexts_alive:
  assumes "evinv B s"
  shows "list_all (\<lambda>(k, ids). set ids \<subseteq> okeys (subs_map s)) (contexts s)"
proof -
  have "set ids \<subseteq> okeys (subs_map s)" if "(k, ids) \<in> set (contexts s)" for k ids
  proof -
    have "map_of (contexts s) k = Some ids" using that omap_ok_distinct [OF evinvD(7) [OF assms]] by simp
    then have "ctx s k = ids" by (simp add: ctx_def)
    then show ?thesis using evinvD(3) [OF assms] by blast
  qed
  then show ?thesis unfolding list_all_iff by fast
qed

lemma handleTopicData_ok:
  assumes "evinv B s"
  shows "\<exists>s'. handleTopicData E t cur s = Some s' \<and> evinv B s'"
proof (cases "map_of (topics_map s) t")
  case (Some pre)
  obtain w where w: "handle_contexts E t pre cur (contexts s) s = Some (s\<lparr>se_world := w\<rparr>)"
    using handle_contexts_ok [OF contexts_alive [OF assms]] by blast
  have "evinv B (s\<lparr>se_world := w, topics_map := m\<rparr>)" for m by (rule evinv_cong [OF assms]) simp_all
  then show ?thesis using Some w by (simp add: handleTopicData_def)
qed (use assms in \<open>simp add: handleTopicData_def\<close>)

section \<open>Runs\<close>

text \<open>The lists of permissions fit the buffer they are written to.\<close>

definition fits :: "sys_env \<Rightarrow> publish_options option \<Rightarrow> bool" where
  "fits E opt \<longleftrightarrow>
     (case opt of None \<Rightarrow> True | Some o' \<Rightarrow>
        (case po_permissions o' of None \<Rightarrow> True | Some ps \<Rightarrow> join_permissions (sy_path_max E) True ps [] \<noteq> None))"

lemma publish_ok:
  assumes "evinv B s" "fits E opt"
  shows "\<exists>s'. system_event_wrap_publish E h name opt s = Some s' \<and> evinv B s'"
proof -
  have "evinv B (s\<lparr>se_published := x\<rparr>)" for x by (rule evinv_cong [OF assms(1)]) simp_all
  then show ?thesis
    using assms by (auto simp: system_event_wrap_publish_def fits_def Let_def split: option.splits)
qed

fun evop_ok :: "sys_env \<Rightarrow> evop \<Rightarrow> bool" where
  "evop_ok E (EvPublish h name opt) = fits E opt"
| "evop_ok E p = True"

lemma evstep_ok:
  assumes "evinv B s" "B < INT32_MAX" "evop_ok E p"
  shows "\<exists>s'. evstep E p s = Some s' \<and> evinv (B + 1) s'"
proof -
  have m: "evinv B s' \<Longrightarrow> evinv (B + 1) s'" for s' using evinv_mono [of B s' "B + 1"] by simp
  show ?thesis
  proof (cases p)
    case (EvSubscribe h name cb)
    then show ?thesis using subscribeEvent_ok [OF assms(1,2)] m [OF assms(1)]
      by (auto simp: system_event_wrap_subscribe_def split: option.splits prod.splits)
  next
    case (EvUnsubscribe h i)
    then show ?thesis using removeSubscribe_inv [OF assms(1), of "Some h" i] assms(1)
      by (auto simp: system_event_wrap_unsubscribe_def intro: m)
  next
    case (EvPublish h name opt)
    then show ?thesis using publish_ok [OF assms(1), of E opt h name] assms(3) m by auto
  next
    case (EvTopic t cur)
    then show ?thesis using handleTopicData_ok [OF assms(1), of E t cur] m by auto
  next
    case (EvDetach h)
    then show ?thesis using detachHandleResource_ok [OF assms(1), of h] m by auto
  next
    case EvDelete
    then show ?thesis using delete_event_manager_ok [OF assms(1)] m by auto
  qed
qed

lemma evrun_ok:
  assumes "evinv B s" "B + int (length ps) \<le> INT32_MAX" "list_all (evop_ok E) ps"
  shows "\<exists>s'. evrun E ps s = Some s' \<and> evinv (B + int (length ps)) s'"
  using assms
proof (induction ps arbitrary: B s)
  case (Cons p ps)
  obtain s1 where s1: "evstep E p s = Some s1" "evinv (B + 1) s1"
    using evstep_ok [OF Cons.prems(1), of E p] Cons.prems(2,3) by auto
  then show ?case using Cons.IH [OF s1(2)] Cons.prems(2,3) by (simp add: add.assoc)
qed simp

lemma new_sysev_ok: "evinv 0 (new_sysev I P w)"
  by (rule evinvI) (simp_all add: new_sysev_def ctx_def ids_named_def subs_count_def)

end
