(* ===== verification/SysEventProps.thy ===== *)
theory SysEventProps
  imports SysEventFacts ConcreteEngine
begin

text \<open>The properties of the event module.\<close>

section \<open>Subscription records\<close>

text \<open>C10: In every run of subscriptions, cancellations, publications, data from the topics, detachments and deletions of the
  manager no freed subscription record is used; afterwards every record is in the list of exactly one event of one
  instance, once, and every event that has a subscriber counts as subscribed. Publications whose lists of
  permissions overrun their buffer are excluded, and runs long enough to overflow the counter.\<close>

theorem event_records_stay_linked:
  assumes "list_all (evop_ok E) ps" "int (length ps) \<le> INT32_MAX"
  shows "\<exists>s. evrun E ps (new_sysev I P w) = Some s \<and> (\<forall>k. distinct (ctx s k)) \<and>
    (\<forall>i k k'. i \<in> set (ctx s k) \<and> i \<in> set (ctx s k') \<longrightarrow> k = k') \<and>
    (\<forall>i. (\<exists>k. i \<in> set (ctx s k)) \<longleftrightarrow> i \<in> okeys (subs_map s)) \<and>
    (\<forall>name. ids_named name s \<noteq> {} \<longrightarrow> isEventSubscribed name s)"
proof -
  obtain s where s: "evrun E ps (new_sysev I P w) = Some s" "evinv (int (length ps)) s"
    using evrun_ok [OF new_sysev_ok [of I P w], of ps E] assms by (auto simp del: of_nat_le_iff)
  have "isEventSubscribed name s" if "ids_named name s \<noteq> {}" for name
  proof -
    have "0 < card (ids_named name s)" using that evinvD(8) [OF s(2)] by (simp add: card_gt_0_iff)
    then have "0 < subs_count s name" using evinvD(5) [OF s(2), of name] by linarith
    then show ?thesis by (auto simp: isEventSubscribed_def subs_count_def split: option.splits)
  qed
  then show ?thesis using s(1) evinvD(1-3) [OF s(2)] by blast
qed

definition senv0 :: sys_env where
  "senv0 = \<lparr>sy_engine = engine0, sy_level = (\<lambda>i. 0), sy_to_string = (\<lambda>v. Some ''{}''),
     sy_subscribe = (\<lambda>t. 0), sy_publish = (\<lambda>m. 0), sy_path_max = 64\<rparr>"

definition event_type :: ftype where
  "event_type = StructMap 16 [(''params'', Prim FT_ANY_REF, 0), (''package'', Prim FT_STRING, 8)]"

definition inst_e :: inst where
  "inst_e = (new_inst (JFun 0))\<lparr>inst_cbs := \<lparr>callbacks =
     [(1, \<lparr>cd_cb = JFun 1, cd_params = [PType event_type, PEnd]\<rparr>)], curr_cid = 1\<rparr>\<rparr>"

theorem event_records_stay_linked_witness:
  "\<exists>s. evrun senv0 [EvSubscribe 1 (Some ''e'') 1, EvPublish 1 (Some ''e'') None, EvDetach 1]
      (new_sysev (\<lambda>h. Some inst_e) (\<lambda>h. ''app'') world0) = Some s \<and>
    (\<forall>i. (\<exists>k. i \<in> set (ctx s k)) \<longleftrightarrow> i \<in> okeys (subs_map s))"
proof -
  have "list_all (evop_ok senv0) [EvSubscribe 1 (Some ''e'') 1, EvPublish 1 (Some ''e'') None, EvDetach 1]"
    by (simp add: fits_def)
  moreover have "int (length [EvSubscribe 1 (Some ''e'') 1, EvPublish 1 (Some ''e'') None, EvDetach 1]) \<le> INT32_MAX" by simp
  ultimately show ?thesis
    using event_records_stay_linked [of senv0 _ "\<lambda>h. Some inst_e" "\<lambda>h. ''app''" world0] by blast
qed

section \<open>Delivery\<close>

definition receives :: "sysev \<Rightarrow> user_event_meta \<Rightarrow> event_key \<Rightarrow> int list \<Rightarrow> bool" where
  "receives s m k ids \<longleftrightarrow>
     (case k of (t, h, name) \<Rightarrow> t = user_topic \<and> name_matches name (UserData m) \<longrightarrow>
       (case se_inst s h of
          None \<Rightarrow> False
        | Some u \<Rightarrow> inst_detached u \<or> alive u \<and>
            list_all (\<lambda>i. case map_of (subs_map s) i of None \<Rightarrow> False | Some cb \<Rightarrow> takes u cb [event_type]) ids))"

text \<open>What an event published by an app is meant to call: for each instance of the same package, or of a package it names,
  every function subscribed to the event, with the parameters and the name of the package.\<close>

definition event_calls :: "sys_env \<Rightarrow> sysev \<Rightarrow> user_event_meta \<Rightarrow> event_key \<Rightarrow> int list \<Rightarrow> (jsval \<times> jsval list) list" where
  "event_calls E s m k ids =
     (case k of (t, h, name) \<Rightarrow>
        if t = user_topic \<and> name_matches name (UserData m) \<and> \<not> FeatureInstanceIsDetached (se_inst s h) then
          (case deal_user_event E (se_pkg s h) m of
             None \<Rightarrow> []
           | Some res \<Rightarrow>
               map (\<lambda>i. (taker (the (se_inst s h)) (the (map_of (subs_map s) i)),
                         [JObject [(''params'', res), (''package'', JStr (cstr (event_package name (UserData m))))]])) ids)
        else [])"

lemma event_args:
  "args_ok e I [event_type] [event_arg res pkg]"
  "args_values e [event_type] [event_arg res pkg] = [JObject [(''params'', res), (''package'', JStr (cstr pkg))]]"
  by (simp_all add: event_type_def event_arg_def arg_ok_def arg_value_def extractVariadicParam_def FT_IS_REFERENCE_iff)

lemma invoke_subs_calls:
  assumes "se_inst s h = Some u" "alive u"
    "list_all (\<lambda>i. case map_of (subs_map s) i of None \<Rightarrow> False | Some cb \<Rightarrow> takes u cb [event_type]) ids"
  shows "\<exists>w. invoke_subs E h (event_arg res pkg) ids s = Some (s\<lparr>se_world := w\<rparr>) \<and>
    calls w = calls (se_world s) @ map (\<lambda>i. (taker u (the (map_of (subs_map s) i)),
      [JObject [(''params'', res), (''package'', JStr (cstr pkg))]])) ids \<and>
    (balanced b M (se_world s) \<longrightarrow> balanced b M w)"
  using assms
proof (induction ids arbitrary: s)
  case Nil
  show ?case by (intro exI [of _ "se_world s"]) simp
next
  case (Cons i ids)
  obtain cb where cb: "map_of (subs_map s) i = Some cb" "takes u cb [event_type]"
    using Cons.prems(3) by (auto split: option.splits)
  let ?w = "snd (FeatureInvokeCallback (sy_engine E) (Some u) cb [event_arg res pkg] (se_world s))"
  have w: "calls ?w = calls (se_world s) @ [(taker u cb, [JObject [(''params'', res), (''package'', JStr (cstr pkg))]])]"
    "balanced b M (se_world s) \<Longrightarrow> balanced b M ?w"
    using invoke_takes [OF Cons.prems(2) cb(2) event_args(1)] by (simp_all only: event_args)
  obtain w' where w': "invoke_subs E h (event_arg res pkg) ids (s\<lparr>se_world := ?w\<rparr>) = Some (s\<lparr>se_world := w'\<rparr>)"
    "calls w' = calls ?w @ map (\<lambda>i. (taker u (the (map_of (subs_map s) i)),
      [JObject [(''params'', res), (''package'', JStr (cstr pkg))]])) ids" "balanced b M ?w \<longrightarrow> balanced b M w'"
    using Cons.IH [of "s\<lparr>se_world := ?w\<rparr>"] Cons.prems by auto
  then show ?case using w cb(1) Cons.prems(1) by (intro exI [of _ w']) simp
qed

lemma handleEvent_calls:
  assumes "receives s m (user_topic, h, name) ids"
  shows "\<exists>w. handleEvent E h name ids pre (UserData m) s = Some (s\<lparr>se_world := w\<rparr>) \<and>
    calls w = calls (se_world s) @ event_calls E s m (user_topic, h, name) ids \<and>
    (balanced b M (se_world s) \<longrightarrow> balanced b M w)"
proof (cases "name_matches name (UserData m) \<and> \<not> FeatureInstanceIsDetached (se_inst s h) \<and> deal_user_event E (se_pkg s h) m \<noteq> None")
  case True
  then obtain res where res: "deal_user_event E (se_pkg s h) m = Some res" by blast
  obtain u where u: "se_inst s h = Some u" "alive u"
    "list_all (\<lambda>i. case map_of (subs_map s) i of None \<Rightarrow> False | Some cb \<Rightarrow> takes u cb [event_type]) ids"
    using True assms by (auto simp: receives_def FeatureInstanceIsDetached_def split: option.splits)
  let ?s = "s\<lparr>se_world := js_new res (se_world s)\<rparr>"
  obtain w where w: "invoke_subs E h (event_arg res (event_package name (UserData m))) ids ?s = Some (?s\<lparr>se_world := w\<rparr>)"
    "calls w = calls (se_world ?s) @ map (\<lambda>i. (taker u (the (map_of (subs_map ?s) i)),
      [JObject [(''params'', res), (''package'', JStr (cstr (event_package name (UserData m))))]])) ids"
    "balanced b (add_mset res M) (se_world ?s) \<longrightarrow> balanced b (add_mset res M) w"
    using invoke_subs_calls [of ?s h u ids E res "event_package name (UserData m)" b "add_mset res M"] u by auto
  have "balanced b M (se_world s) \<Longrightarrow> balanced b M (feature_free_value res w)"
    using w(3) balanced_dup [of b M "se_world s" res] by (auto intro: balanced_free)
  then show ?thesis using True u(1) res w(1,2)
    by (intro exI [of _ "feature_free_value res w"]) (simp add: handleEvent_def deal_def event_calls_def user_topic_def)
next
  case False
  then show ?thesis
    by (intro exI [of _ "se_world s"]) (auto simp: handleEvent_def deal_def event_calls_def split: option.splits)
qed

lemma handle_contexts_calls:
  assumes "list_all (\<lambda>(k, ids). receives s m k ids) cs"
  shows "\<exists>w. handle_contexts E user_topic pre (UserData m) cs s = Some (s\<lparr>se_world := w\<rparr>) \<and>
    calls w = calls (se_world s) @ concat (map (\<lambda>(k, ids). event_calls E s m k ids) cs) \<and>
    (balanced b M (se_world s) \<longrightarrow> balanced b M w)"
  using assms
proof (induction cs arbitrary: s)
  case Nil
  show ?case by (intro exI [of _ "se_world s"]) simp
next
  case (Cons c cs)
  obtain t h name ids where c: "c = ((t, h, name), ids)" by (cases c) auto
  have frame: "receives (s\<lparr>se_world := w\<rparr>) m k i = receives s m k i" "event_calls E (s\<lparr>se_world := w\<rparr>) m k i = event_calls E s m k i" for w k i
    by (cases k; simp add: receives_def event_calls_def cong: option.case_cong)+
  show ?case
  proof (cases "t = user_topic")
    case True
    obtain w where w: "handleEvent E h name ids pre (UserData m) s = Some (s\<lparr>se_world := w\<rparr>)"
      "calls w = calls (se_world s) @ event_calls E s m (user_topic, h, name) ids" "balanced b M (se_world s) \<longrightarrow> balanced b M w"
      using handleEvent_calls [of s m h name ids E pre b M] Cons.prems by (auto simp: c True)
    obtain w' where "handle_contexts E user_topic pre (UserData m) cs (s\<lparr>se_world := w\<rparr>) = Some (s\<lparr>se_world := w'\<rparr>)"
      "calls w' = calls w @ concat (map (\<lambda>(k, ids). event_calls E s m k ids) cs)" "balanced b M w \<longrightarrow> balanced b M w'"
      using Cons.IH [of "s\<lparr>se_world := w\<rparr>"] Cons.prems by (auto simp: frame)
    then show ?thesis using w by (intro exI [of _ w']) (simp add: c True)
  next
    case False
    then have "event_calls E s m (t, h, name) ids = []" by (simp add: event_calls_def)
    then show ?thesis using Cons.IH [of s] Cons.prems False by (simp add: c)
  qed
qed


definition sysev_e :: sysev where
  "sysev_e = (new_sysev (\<lambda>h. Some inst_e) (\<lambda>h. if h = 1 then ''app'' else ''other'') world0)\<lparr>subs_map := [(0, 1), (1, 1)],
     topics_map := [(user_topic, None)], contexts := [((user_topic, 1, ''e''), [0]), ((user_topic, 2, ''e''), [1])]\<rparr>"

definition meta_e :: user_event_meta where
  "meta_e = \<lparr>um_eventName = ''e'', um_pkg = ''app'', um_params = [], um_permissions = []\<rparr>"

lemma inst_e_ok: "alive inst_e" "takes inst_e 1 [event_type]" "taker inst_e 1 = JFun 1" "\<not> inst_detached inst_e"
  by (simp_all add: alive_def inst_ok_def inst_e_def new_inst_def cbm_ok_def pm_ok_def em_ok_def omap_ok_def cbm_refs_def em_refs_def
      init_pm_def init_em_def takes_def taker_def getCallbackData_def)


section \<open>Cancelling\<close>

text \<open>An instance is allowed to cancel a subscription when a callback of its own has the number of the subscription's
  callback, whoever subscribed: the record of the other instance is gone from every list, the
  canceller loses its own callback of that number, the subscriber keeps its callback without a subscription, and every
  event goes on counting as subscribed as before.\<close>

theorem foreign_cancellation:
  assumes "map_of (subs_map s) i = Some cb" "se_inst s h2 = Some u2" "alive u2" "map_of (callbacks (inst_cbs u2)) cb \<noteq> None"
  shows "\<exists>s' u2'. s' = system_event_wrap_unsubscribe h2 i s \<and> map_of (subs_map s') i = None \<and>
    (\<forall>k. i \<notin> set (ctx s' k)) \<and> se_inst s' h2 = Some u2' \<and> map_of (callbacks (inst_cbs u2')) cb = None \<and>
    (\<forall>h1. h1 \<noteq> h2 \<longrightarrow> se_inst s' h1 = se_inst s h1) \<and> (\<forall>name. isEventSubscribed name s' = isEventSubscribed name s)"
proof -
  have pos: "0 < cb" using assms(3,4) by (force simp: alive_def inst_ok_def cbm_ok_def getCallbackData_def okeys_iff)
  then have "instanceMatchId h2 i s"
    using assms by (auto simp: instanceMatchId_def FeatureCheckCallbackId_def usable_def alive_def checkCallback_def getCallbackData_def)
  then have u: "system_event_wrap_unsubscribe h2 i s = removeSubscribe (Some h2) i s" by (simp add: system_event_wrap_unsubscribe_def)
  note r = removeSubscribe_fields [OF assms(1), of "Some h2"]
  obtain ok t w where f: "FeatureRemoveCallback (Some u2) cb (se_world s) = (ok, t, w)"
    by (cases "FeatureRemoveCallback (Some u2) cb (se_world s)")
  obtain u2' where u2': "t = Some u2'" "map_of (callbacks (inst_cbs u2')) cb = None"
    using remove_live [OF assms(3) f] by fastforce
  have "se_inst (removeSubscribe (Some h2) i s) = (se_inst s)(h2 := Some u2')"
    using assms(1,2) f u2'(1) by (simp add: removeSubscribe_def subs_uinit_def unlink_def)
  then show ?thesis using r u2'(2) unfolding u by (auto simp: isEventSubscribed_def)
qed

theorem foreign_cancellation_witness:
  "\<exists>s' u2'. s' = system_event_wrap_unsubscribe 2 0 sysev_e \<and> map_of (subs_map s') 0 = None \<and>
    se_inst s' 2 = Some u2' \<and> map_of (callbacks (inst_cbs u2')) 1 = None"
proof -
  have "map_of (subs_map sysev_e) 0 = Some 1" "se_inst sysev_e 2 = Some inst_e" by (simp_all add: sysev_e_def new_sysev_def)
  moreover have "map_of (callbacks (inst_cbs inst_e)) 1 \<noteq> None" by (simp add: inst_e_def)
  ultimately show ?thesis using foreign_cancellation [of sysev_e 0 1 2 inst_e] inst_e_ok(1) by blast
qed

section \<open>Other departures\<close>

text \<open>A package is taken for permitted when its name occurs anywhere in the list of permissions.\<close>

lemma permission_by_substring:
  "deal_user_event E ''com.app'' \<lparr>um_eventName = ''e'', um_pkg = ''x'', um_params = [], um_permissions = ''my.com.app.other''\<rparr> = Some JUndef"
  by (simp add: deal_user_event_def)

text \<open>One long permission overruns the buffer before its length is checked.\<close>

lemma long_permission_overflows:
  assumes "isEventSubscribed name s" "name \<noteq> []" "\<not> isSystemEvent name" "length name < 32" "length (se_pkg s h) < 32"
    "sy_path_max E \<le> length p"
  shows "system_event_wrap_publish E h (Some name) (Some \<lparr>po_params = None, po_permissions = Some [Some p]\<rparr>) s = None"
  using assms by (simp add: system_event_wrap_publish_def publish_params_def strcat_def)

end
