(* ===== verification/Services.thy ===== *)
theory Services
  imports HandleApi
begin

text \<open>
  What the service modules share: tables of objects that are made and deleted, runs of steps that may crash
  (\<open>None\<close>), and the contract of a service, a step that keeps an invariant and does not crash.
\<close>

section \<open>Tables of objects\<close>

definition live :: "'a option list \<Rightarrow> nat set" where
  "live xs = {i. i < length xs \<and> xs ! i \<noteq> None}"

lemma live_simps [simp]:
  "live [] = {}" "live (xs @ [Some x]) = insert (length xs) (live xs)" "live (xs[i := None]) = live xs - {i}"
  by (auto simp: live_def nth_append less_Suc_eq nth_list_update split: if_splits; metis nth_list_update_neq nth_list_update_eq option.distinct(1))+

lemma live_update [simp]: "i \<in> live xs \<Longrightarrow> live (xs[i := Some x]) = live xs"
  by (auto simp: live_def nth_list_update)

lemma live_facts: "length xs \<notin> live xs" "finite (live xs)" "i \<in> live xs \<Longrightarrow> i < length xs"
  by (auto simp: live_def)

lemma liveD: "i \<in> live xs \<Longrightarrow> \<exists>x. xs ! i = Some x"
  by (auto simp: live_def)

text \<open>How many live objects satisfy a predicate.\<close>

definition count_live :: "('a \<Rightarrow> bool) \<Rightarrow> 'a option list \<Rightarrow> nat" where
  "count_live P xs = length (filter (\<lambda>x. case x of None \<Rightarrow> False | Some y \<Rightarrow> P y) xs)"

lemma count_live_simps [simp]:
  "count_live P [] = 0" "count_live P (xs @ [Some x]) = (if P x then Suc (count_live P xs) else count_live P xs)"
  by (simp_all add: count_live_def)

lemma count_live_delete:
  assumes "i < length xs" "xs ! i = Some x"
  shows "count_live P xs = count_live P (xs[i := None]) + (if P x then 1 else 0)"
  using assms
proof (induction xs arbitrary: i)
  case (Cons y ys)
  then show ?case by (cases i) (auto simp: count_live_def split: option.splits)
qed simp

lemma count_live_0: "live xs = {} \<Longrightarrow> count_live P xs = 0"
  by (force simp: count_live_def live_def filter_empty_conv in_set_conv_nth split: option.splits)

lemma count_live_update:
  assumes "i < length xs" "xs ! i = Some x" "P y = P x"
  shows "count_live P (xs[i := Some y]) = count_live P xs"
  using count_live_delete [of i xs x P] count_live_delete [of i "xs[i := Some y]" y P] assms by simp

section \<open>Runs\<close>

fun run_steps :: "('p \<Rightarrow> 's \<Rightarrow> 's option) \<Rightarrow> 'p list \<Rightarrow> 's \<Rightarrow> 's option" where
  "run_steps step [] s = Some s"
| "run_steps step (p # ps) s = Option.bind (step p s) (run_steps step ps)"

lemma run_steps_append:
  "run_steps step (ps @ qs) s = Option.bind (run_steps step ps s) (run_steps step qs)"
  by (induction ps arbitrary: s) (simp_all, auto split: bind_splits)

locale service =
  fixes step :: "'p \<Rightarrow> 's \<Rightarrow> 's option"
    and legal :: "'p \<Rightarrow> bool"
    and inv :: "'s \<Rightarrow> bool"
  assumes step_safe: "inv s \<Longrightarrow> legal p \<Longrightarrow> \<exists>s'. step p s = Some s' \<and> inv s'"
begin

lemma run_safe: "inv s \<Longrightarrow> list_all legal ps \<Longrightarrow> \<exists>s'. run_steps step ps s = Some s' \<and> inv s'"
proof (induction ps arbitrary: s)
  case (Cons p ps)
  then obtain s1 where "step p s = Some s1" "inv s1" using step_safe [of s p] by auto
  then show ?case using Cons by simp
qed simp

end

end
