(* ===== verification/Settings.thy ===== *)
theory Settings
  imports Services FtContext
begin

text \<open>
  The settings service (\<open>modules/system_settings_impl.cpp\<close>): get and set requests, subscriptions, and the queue
  through which the thread of the settings daemon hands its messages to the loop. A request object is an
  index of \<open>st_reqs\<close>, deleted when its entry is \<open>None\<close>; the sets of addresses are lists of indices, iterated
  in the order the objects were made. The daemon is the environment: the results of its functions are fields of
  \<open>settings_env\<close>, its messages are steps. A result \<open>None\<close> is a crash: a deleted object is used, or a null pointer.
  A script that calls the service from inside one of its callbacks is not modelled.
\<close>

section \<open>State\<close>

datatype request =
    SetReq nat int
  | GetReq nat int string
  | SubInfo string nat int

fun rq_handle :: "request \<Rightarrow> nat" where
  "rq_handle (SetReq h pid) = h"
| "rq_handle (GetReq h pid key) = h"
| "rq_handle (SubInfo key h cid) = h"

record settings_env =
  st_engine :: engine
  st_ToString :: "jsval \<Rightarrow> string option"
  st_setprop :: "string \<Rightarrow> string \<Rightarrow> int"
  st_getprop :: "string \<Rightarrow> int"
  st_subscribe_prop :: "string \<Rightarrow> int"
  st_unsubscribe_prop :: "string \<Rightarrow> int"

record smessage =
  ms_status :: int
  ms_data :: "string option"

record settings =
  st_inst :: "nat \<Rightarrow> inst option"
  st_world :: world
  st_obj :: "nat \<Rightarrow> bool"
  st_refs :: "nat \<Rightarrow> nat"
  st_reqs :: "request option list"
  request_set :: "nat list"
  sub_set :: "nat list"
  msg_queue :: "(smessage \<times> nat) list"
  st_live :: bool
  st_answers :: "nat list"

type_synonym status = "(32 word \<times> string) option"

definition FT_ERR_GENERAL :: "32 word" where "FT_ERR_GENERAL = 200"
definition FT_ERR_TASK_FAILED :: "32 word" where "FT_ERR_TASK_FAILED = 1000"
definition ERR_ARGS :: "32 word" where "ERR_ARGS = 202"

definition GeneralError :: "string \<Rightarrow> status" where
  "GeneralError msg = Some (FT_ERR_GENERAL, msg)"

section \<open>Through the handle API\<close>

definition st_invoke :: "settings_env \<Rightarrow> nat \<Rightarrow> int \<Rightarrow> nval list \<Rightarrow> settings \<Rightarrow> settings" where
  "st_invoke E h cid ap s =
     s\<lparr>st_world := snd (FeatureInvokeCallback (st_engine E) (st_inst s h) cid ap (st_world s))\<rparr>"

definition st_remove :: "nat \<Rightarrow> int \<Rightarrow> settings \<Rightarrow> settings" where
  "st_remove h cid s =
     (let (r, t, w) = FeatureRemoveCallback (st_inst s h) cid (st_world s)
      in s\<lparr>st_inst := (st_inst s)(h := t), st_world := w\<rparr>)"

definition st_resolve :: "settings_env \<Rightarrow> nat \<Rightarrow> int \<Rightarrow> nval list \<Rightarrow> settings \<Rightarrow> settings" where
  "st_resolve E h pid ap s =
     (let (r, t, w) = FeaturePromiseResolve (st_engine E) (st_inst s h) pid ap (st_world s)
      in s\<lparr>st_inst := (st_inst s)(h := t), st_world := w\<rparr>)"

definition st_reject :: "nat \<Rightarrow> int \<Rightarrow> 32 word \<Rightarrow> string \<Rightarrow> settings \<Rightarrow> settings" where
  "st_reject h pid code msg s =
     (let (r, t, w) = FeaturePromiseReject (st_inst s h) pid code (Some msg) (st_world s)
      in s\<lparr>st_inst := (st_inst s)(h := t), st_world := w\<rparr>)"

section \<open>Request objects\<close>

definition new_request :: "request \<Rightarrow> settings \<Rightarrow> nat \<times> settings" where
  "new_request r s =
     (length (st_reqs s),
      s\<lparr>st_reqs := st_reqs s @ [Some r], st_refs := (st_refs s)(rq_handle r := Suc (st_refs s (rq_handle r)))\<rparr>)"

definition delete_request :: "nat \<Rightarrow> settings \<Rightarrow> settings option" where
  "delete_request i s =
     (case st_reqs s ! i of
        None \<Rightarrow> None
      | Some r \<Rightarrow>
          (let s1 = (case r of SubInfo key h cid \<Rightarrow> st_remove h cid s | _ \<Rightarrow> s)
           in Some (s1\<lparr>st_reqs := (st_reqs s1)[i := None],
                       st_refs := (st_refs s1)(rq_handle r := st_refs s1 (rq_handle r) - 1)\<rparr>)))"

text \<open>\<open>Call\<close> of the three kinds of objects.\<close>

definition set_call :: "settings_env \<Rightarrow> nat \<Rightarrow> int \<Rightarrow> int \<Rightarrow> settings \<Rightarrow> settings" where
  "set_call E h pid status s =
     (if status = 0 then st_resolve E h pid [] s
      else st_reject h pid FT_ERR_GENERAL ''miwear_settings setprop failed'' s)"

definition get_call :: "settings_env \<Rightarrow> nat \<Rightarrow> int \<Rightarrow> string \<Rightarrow> int \<Rightarrow> string option \<Rightarrow> settings \<Rightarrow> settings option" where
  "get_call E h pid key status args s =
     (if status = 0 then
        (case args of
           None \<Rightarrow> None
         | Some str \<Rightarrow>
             (let obj = ft_parse_json (st_engine E) str;
                  value = ft_obj_get_property obj key;
                  s1 = s\<lparr>st_world := feature_dup_value value (js_new obj (st_world s))\<rparr>;
                  s2 = (if ft_get_type obj = FT_TYPE_UNDEF
                        then st_reject h pid FT_ERR_TASK_FAILED ''invalid json string'' s1
                        else st_resolve E h pid [NAny value] s1)
              in Some (s2\<lparr>st_world := feature_free_value obj (feature_free_value value (st_world s2))\<rparr>)))
      else Some (st_reject h pid FT_ERR_GENERAL ''miwear_settings: getprop failed'' s))"

definition sub_call :: "settings_env \<Rightarrow> nat \<Rightarrow> int \<Rightarrow> int \<Rightarrow> string option \<Rightarrow> settings \<Rightarrow> settings option" where
  "sub_call E h cid status args s =
     (if status \<noteq> 0 then Some s
      else case args of
        None \<Rightarrow> None
      | Some str \<Rightarrow>
          (let value = ft_parse_json (st_engine E) str;
               s1 = s\<lparr>st_world := js_new value (st_world s)\<rparr>
           in if ft_get_type value = FT_TYPE_UNDEF then Some s1
              else (let s2 = st_invoke E h cid [NAny value] s1
                    in Some (s2\<lparr>st_world := feature_free_value value (st_world s2)\<rparr>))))"

definition request_call :: "settings_env \<Rightarrow> nat \<Rightarrow> smessage \<Rightarrow> settings \<Rightarrow> settings option" where
  "request_call E i msg s =
     (case st_reqs s ! i of
        None \<Rightarrow> None
      | Some (SetReq h pid) \<Rightarrow> Some (set_call E h pid (ms_status msg) (s\<lparr>st_answers := st_answers s @ [i]\<rparr>))
      | Some (GetReq h pid key) \<Rightarrow>
          get_call E h pid key (ms_status msg) (ms_data msg) (s\<lparr>st_answers := st_answers s @ [i]\<rparr>)
      | Some (SubInfo key h cid) \<Rightarrow> sub_call E h cid (ms_status msg) (ms_data msg) s)"

section \<open>The operations of the settings object\<close>

definition SetProp :: "settings_env \<Rightarrow> string \<Rightarrow> string \<Rightarrow> nat \<Rightarrow> int \<Rightarrow> settings \<Rightarrow> (status \<times> settings) option" where
  "SetProp E key value h pid s =
     (let (i, s1) = new_request (SetReq h pid) s
      in if st_setprop E key value \<noteq> 0
         then map_option (Pair (GeneralError ''miwear_settings_setprop failed'')) (delete_request i s1)
         else Some (None, s1\<lparr>request_set := request_set s1 @ [i]\<rparr>))"

definition GetProp :: "settings_env \<Rightarrow> string \<Rightarrow> nat \<Rightarrow> int \<Rightarrow> settings \<Rightarrow> (status \<times> settings) option" where
  "GetProp E key h pid s =
     (let (i, s1) = new_request (GetReq h pid key) s
      in if st_getprop E key \<noteq> 0
         then map_option (Pair (GeneralError ''miwear_settings_getprop failed'')) (delete_request i s1)
         else Some (None, s1\<lparr>request_set := request_set s1 @ [i]\<rparr>))"

text \<open>The first subscription of the instance to the key; the outer \<open>None\<close> is the use of a deleted object.\<close>

fun find_sub :: "string \<Rightarrow> nat \<Rightarrow> request option list \<Rightarrow> nat list \<Rightarrow> (nat \<times> int) option option" where
  "find_sub key h reqs [] = Some None"
| "find_sub key h reqs (i # ids) =
     (case reqs ! i of
        Some (SubInfo k h' cid) \<Rightarrow> if k = key \<and> h' = h then Some (Some (i, cid)) else find_sub key h reqs ids
      | _ \<Rightarrow> None)"

definition UpdateCid :: "nat \<Rightarrow> string \<Rightarrow> nat \<Rightarrow> int \<Rightarrow> int \<Rightarrow> settings \<Rightarrow> settings" where
  "UpdateCid i key h old cid s =
     (let s1 = st_remove h old s in s1\<lparr>st_reqs := (st_reqs s1)[i := Some (SubInfo key h cid)]\<rparr>)"

definition SubscribeProp :: "settings_env \<Rightarrow> string \<Rightarrow> nat \<Rightarrow> int \<Rightarrow> settings \<Rightarrow> (status \<times> settings) option" where
  "SubscribeProp E key h cid s =
     (case find_sub key h (st_reqs s) (sub_set s) of
        None \<Rightarrow> None
      | Some (Some (i, old)) \<Rightarrow> Some (None, UpdateCid i key h old cid s)
      | Some None \<Rightarrow>
          (let (i, s1) = new_request (SubInfo key h cid) s
           in if st_subscribe_prop E key \<noteq> 0
              then map_option (Pair (GeneralError ''miwear_settings_subscribe failed'')) (delete_request i s1)
              else Some (None, s1\<lparr>sub_set := sub_set s1 @ [i]\<rparr>)))"

text \<open>The loops that erase from a set and delete: those that are kept, and the state.\<close>

fun erase_where :: "(request \<Rightarrow> bool) \<Rightarrow> nat list \<Rightarrow> settings \<Rightarrow> (nat list \<times> settings) option" where
  "erase_where P [] s = Some ([], s)"
| "erase_where P (i # ids) s =
     (case st_reqs s ! i of
        None \<Rightarrow> None
      | Some r \<Rightarrow>
          (if P r then Option.bind (delete_request i s) (erase_where P ids)
           else map_option (\<lambda>(kept, s). (i # kept, s)) (erase_where P ids s)))"

fun is_sub_of :: "string \<Rightarrow> nat \<Rightarrow> request \<Rightarrow> bool" where
  "is_sub_of key h (SubInfo k h' cid) \<longleftrightarrow> k = key \<and> h' = h"
| "is_sub_of key h _ \<longleftrightarrow> False"

definition UnsubscribeProp :: "settings_env \<Rightarrow> string \<Rightarrow> nat \<Rightarrow> settings \<Rightarrow> (status \<times> settings) option" where
  "UnsubscribeProp E key h s =
     (if st_unsubscribe_prop E key \<noteq> 0 then Some (GeneralError ''miwear_settings_unsubscribe failed'', s)
      else map_option (\<lambda>(kept, s). (None, s\<lparr>sub_set := kept\<rparr>)) (erase_where (is_sub_of key h) (sub_set s) s))"

definition Detach :: "nat \<Rightarrow> settings \<Rightarrow> settings option" where
  "Detach h s =
     Option.bind (erase_where (\<lambda>r. rq_handle r = h) (request_set s) s) (\<lambda>(kept, s).
     let s = s\<lparr>request_set := kept\<rparr> in
     map_option (\<lambda>(kept, s). s\<lparr>sub_set := kept\<rparr>) (erase_where (\<lambda>r. rq_handle r = h) (sub_set s) s))"

text \<open>\<open>MiwearSettingsCallback\<close> copies the message and queues it, unless the object has been given up.\<close>

definition ProcessMessageAsync :: "smessage \<Rightarrow> nat \<Rightarrow> settings \<Rightarrow> settings" where
  "ProcessMessageAsync msg i s = s\<lparr>msg_queue := msg_queue s @ [(msg, i)]\<rparr>"

definition MiwearSettingsCallback :: "smessage \<Rightarrow> nat \<Rightarrow> settings \<Rightarrow> settings" where
  "MiwearSettingsCallback msg i s = (if st_live s then ProcessMessageAsync msg i s else s)"

definition process_message :: "settings_env \<Rightarrow> smessage \<Rightarrow> nat \<Rightarrow> settings \<Rightarrow> settings option" where
  "process_message E msg i s =
     Option.bind
       (if i \<in> set (request_set s) then
          Option.bind (request_call E i msg s) (\<lambda>s. delete_request i (s\<lparr>request_set := remove1 i (request_set s)\<rparr>))
        else Some s)
       (\<lambda>s. if i \<in> set (sub_set s) then request_call E i msg s else Some s)"

fun process_messages :: "settings_env \<Rightarrow> (smessage \<times> nat) list \<Rightarrow> settings \<Rightarrow> settings option" where
  "process_messages E [] s = Some s"
| "process_messages E ((msg, i) # q) s = Option.bind (process_message E msg i s) (process_messages E q)"

definition ProcessMessageAsyncCallback :: "settings_env \<Rightarrow> settings \<Rightarrow> settings option" where
  "ProcessMessageAsyncCallback E s = process_messages E (msg_queue s) (s\<lparr>msg_queue := []\<rparr>)"

definition Destroy :: "settings \<Rightarrow> settings" where
  "Destroy s = s\<lparr>st_live := False\<rparr>"

fun delete_objects :: "nat list \<Rightarrow> settings \<Rightarrow> settings option" where
  "delete_objects [] s = Some s"
| "delete_objects (i # ids) s = Option.bind (delete_request i s) (delete_objects ids)"

text \<open>\<open>~MiwearSettings\<close> deletes the objects of both sets and of the queue.\<close>

definition delete_settings :: "settings \<Rightarrow> settings option" where
  "delete_settings s =
     map_option (\<lambda>s. s\<lparr>request_set := [], sub_set := [], msg_queue := []\<rparr>)
       (delete_objects (sub_set s @ request_set s @ map snd (msg_queue s)) s)"

section \<open>The functions of the module\<close>

definition system_settings_wrap_getProp :: "settings_env \<Rightarrow> nat \<Rightarrow> int \<Rightarrow> string option \<Rightarrow> settings \<Rightarrow> settings option" where
  "system_settings_wrap_getProp E h pid key s =
     (if \<not> st_obj s h then Some (st_reject h pid FT_ERR_GENERAL ''Settings is nullptr'' s)
      else case key of
        None \<Rightarrow> Some (st_reject h pid ERR_ARGS ''key is nullptr'' s)
      | Some k \<Rightarrow> map_option snd (GetProp E k h pid s))"

definition system_settings_wrap_setProp ::
  "settings_env \<Rightarrow> nat \<Rightarrow> int \<Rightarrow> string option \<Rightarrow> jsval option \<Rightarrow> settings \<Rightarrow> settings option" where
  "system_settings_wrap_setProp E h pid key value s =
     (if \<not> st_obj s h then Some (st_reject h pid FT_ERR_GENERAL ''Settings is nullptr'' s)
      else case (key, value) of
        (Some k, Some v) \<Rightarrow>
          (if ft_get_type v \<noteq> FT_TYPE_STRING \<and> ft_get_type v \<noteq> FT_TYPE_NUMBER
           then Some (st_reject h pid ERR_ARGS ''setprop should be string or number'' s)
           else case ft_to_string (st_engine E) (st_ToString E) v of
             None \<Rightarrow> Some (st_reject h pid ERR_ARGS ''conver to string failed'' s)
           | Some val_str \<Rightarrow>
               map_option (\<lambda>(st, s). case st of None \<Rightarrow> s | Some (code, msg) \<Rightarrow> st_reject h pid code msg s)
                 (SetProp E k val_str h pid s))
      | _ \<Rightarrow> Some (st_reject h pid ERR_ARGS ''key or value is nullptr'' s))"

definition system_settings_wrap_subscribeProp ::
  "settings_env \<Rightarrow> nat \<Rightarrow> int \<Rightarrow> string option \<Rightarrow> int \<Rightarrow> settings \<Rightarrow> settings option" where
  "system_settings_wrap_subscribeProp E h pid key cid s =
     (if \<not> st_obj s h then Some (st_reject h pid FT_ERR_GENERAL ''Settings is nullptr'' s)
      else case key of
        None \<Rightarrow> Some (st_reject h pid ERR_ARGS ''key is nullptr'' s)
      | Some k \<Rightarrow>
          map_option (\<lambda>(st, s). case st of None \<Rightarrow> st_resolve E h pid [] s | Some (code, msg) \<Rightarrow> st_reject h pid code msg s)
            (SubscribeProp E k h cid s))"

definition system_settings_wrap_unsubscribeProp :: "settings_env \<Rightarrow> nat \<Rightarrow> string option \<Rightarrow> settings \<Rightarrow> settings option" where
  "system_settings_wrap_unsubscribeProp E h key s =
     (if \<not> st_obj s h then Some s
      else case key of
        None \<Rightarrow> None
      | Some k \<Rightarrow> map_option snd (UnsubscribeProp E k h s))"

definition system_settings_onRequired :: "nat \<Rightarrow> settings \<Rightarrow> settings" where
  "system_settings_onRequired h s = s\<lparr>st_obj := (st_obj s)(h := True)\<rparr>"

text \<open>A null object pointer is followed.\<close>

definition system_settings_onDetached :: "nat \<Rightarrow> settings \<Rightarrow> settings option" where
  "system_settings_onDetached h s =
     (if \<not> st_obj s h then None
      else map_option (\<lambda>s. s\<lparr>st_obj := (st_obj s)(h := False)\<rparr>) (Detach h s))"

section \<open>Runs\<close>

text \<open>
  The scripts call, the daemon sends messages about the objects it was given (\<open>i\<close>), the loop runs the queue, and
  instances are detached: the callback of the module, then the tables of the instance.
\<close>

datatype settings_op =
    StRequire nat
  | StGet nat int "string option"
  | StSet nat int "string option" "jsval option"
  | StSubscribe nat int "string option" int
  | StUnsubscribe nat "string option"
  | StMessage smessage nat
  | StLoop
  | StDetach nat
  | StDestroy

fun settings_step :: "settings_env \<Rightarrow> settings_op \<Rightarrow> settings \<Rightarrow> settings option" where
  "settings_step E (StRequire h) s = Some (system_settings_onRequired h s)"
| "settings_step E (StGet h pid key) s = system_settings_wrap_getProp E h pid key s"
| "settings_step E (StSet h pid key v) s = system_settings_wrap_setProp E h pid key v s"
| "settings_step E (StSubscribe h pid key cid) s = system_settings_wrap_subscribeProp E h pid key cid s"
| "settings_step E (StUnsubscribe h key) s = system_settings_wrap_unsubscribeProp E h key s"
| "settings_step E (StMessage msg i) s = Some (if i < length (st_reqs s) then MiwearSettingsCallback msg i s else s)"
| "settings_step E StLoop s = ProcessMessageAsyncCallback E s"
| "settings_step E (StDetach h) s =
     (if \<not> st_obj s h then Some s
      else map_option (\<lambda>s. case st_inst s h of
             None \<Rightarrow> s
           | Some t \<Rightarrow> (let (t', w') = onDetached (st_engine E) [] (t, st_world s)
                       in s\<lparr>st_inst := (st_inst s)(h := Some t'), st_world := w'\<rparr>))
         (system_settings_onDetached h s))"
| "settings_step E StDestroy s = Some (Destroy s)"

definition new_settings :: "(nat \<Rightarrow> inst option) \<Rightarrow> world \<Rightarrow> settings" where
  "new_settings I w = \<lparr>st_inst = I, st_world = w, st_obj = (\<lambda>h. False), st_refs = (\<lambda>h. 0), st_reqs = [], request_set = [],
     sub_set = [], msg_queue = [], st_live = True, st_answers = []\<rparr>"

end
