(* ===== verification/SettingsProps.thy ===== *)
theory SettingsProps
  imports Settings ConcreteEngine
begin

text \<open>
  The properties of the settings service: every request object is in one of the two sets until it is deleted, every
  get and set request is answered at most once, what a script receives for a get, and when closing the service crashes.
\<close>

section \<open>What the handle API leaves alone\<close>

definition st_core :: "settings \<Rightarrow> (nat \<Rightarrow> bool) \<times> (nat \<Rightarrow> nat) \<times> request option list \<times> nat list \<times> nat list \<times>
    (smessage \<times> nat) list \<times> bool" where
  "st_core s = (st_obj s, st_refs s, st_reqs s, request_set s, sub_set s, msg_queue s, st_live s)"

lemma st_core_api [simp]:
  "st_core (st_invoke E h cid ap s) = st_core s" "st_core (st_remove h cid s) = st_core s"
  "st_core (st_resolve E h pid ap s) = st_core s" "st_core (st_reject h pid code msg s) = st_core s"
  "st_core (s\<lparr>st_world := w\<rparr>) = st_core s" "st_core (s\<lparr>st_answers := a\<rparr>) = st_core s" "st_core (s\<lparr>st_inst := f\<rparr>) = st_core s"
  by (simp_all add: st_core_def st_invoke_def st_remove_def st_resolve_def st_reject_def split: prod.splits)

lemma answers_api [simp]:
  "st_answers (st_invoke E h cid ap s) = st_answers s" "st_answers (st_remove h cid s) = st_answers s"
  "st_answers (st_resolve E h pid ap s) = st_answers s" "st_answers (st_reject h pid code msg s) = st_answers s"
  by (simp_all add: st_invoke_def st_remove_def st_resolve_def st_reject_def split: prod.splits)

lemma st_coreD:
  assumes "st_core s' = st_core s"
  shows "st_obj s' = st_obj s" "st_refs s' = st_refs s" "st_reqs s' = st_reqs s" "request_set s' = request_set s"
    "sub_set s' = sub_set s" "msg_queue s' = msg_queue s" "st_live s' = st_live s"
  using assms by (simp_all add: st_core_def)

section \<open>Who owns the objects\<close>

definition own :: "nat list \<Rightarrow> settings \<Rightarrow> bool" where
  "own ids s \<longleftrightarrow> distinct ids \<and> set ids = live (st_reqs s) \<and>
     (\<forall>h. st_refs s h = count_live (\<lambda>r. rq_handle r = h) (st_reqs s))"

lemma own_mset: "own ids s \<Longrightarrow> mset ids = mset ids' \<Longrightarrow> own ids' s"
  by (auto simp: own_def dest: mset_eq_setD mset_eq_imp_distinct_iff)

lemma own_core: "own ids s \<Longrightarrow> st_core s' = st_core s \<Longrightarrow> own ids s'"
  using st_coreD [of s' s] by (simp add: own_def)

lemma own_live: "own ids s \<Longrightarrow> i \<in> set ids \<Longrightarrow> \<exists>r. st_reqs s ! i = Some r" "own ids s \<Longrightarrow> i \<in> set ids \<Longrightarrow> i < length (st_reqs s)"
  by (auto simp: own_def live_def)

lemma own_new:
  assumes "own ids s" "new_request r s = (i, s')"
  shows "own (i # ids) s'" "i = length (st_reqs s)" "st_reqs s' = st_reqs s @ [Some r]" "request_set s' = request_set s"
    "sub_set s' = sub_set s" "msg_queue s' = msg_queue s" "st_live s' = st_live s" "st_answers s' = st_answers s"
    "st_inst s' = st_inst s" "st_world s' = st_world s" "st_obj s' = st_obj s"
  using assms by (auto simp: own_def new_request_def live_facts)

text \<open>Objects are only deleted: the sets, the queue and the answers stay, and so does every live object.\<close>

definition deleted_from :: "settings \<Rightarrow> settings \<Rightarrow> bool" where
  "deleted_from s s' \<longleftrightarrow> request_set s' = request_set s \<and> sub_set s' = sub_set s \<and> msg_queue s' = msg_queue s \<and>
     st_live s' = st_live s \<and> st_answers s' = st_answers s \<and> st_obj s' = st_obj s \<and> length (st_reqs s') = length (st_reqs s) \<and>
     (\<forall>j\<in>live (st_reqs s'). st_reqs s' ! j = st_reqs s ! j)"

lemma deleted_trans: "deleted_from s s1 \<Longrightarrow> deleted_from s1 s2 \<Longrightarrow> deleted_from s s2"
  by (auto simp: deleted_from_def live_def)

lemma deleted_refl: "deleted_from s s"
  by (simp add: deleted_from_def)

lemma own_delete:
  assumes "own (i # ids) s"
  shows "\<exists>s'. delete_request i s = Some s' \<and> own ids s' \<and> deleted_from s s'"
proof -
  obtain r where r: "st_reqs s ! i = Some r" "i < length (st_reqs s)" using own_live [OF assms, of i] by auto
  define s1 where "s1 = (case r of SubInfo key h cid \<Rightarrow> st_remove h cid s | _ \<Rightarrow> s)"
  have c: "st_core s1 = st_core s" "st_answers s1 = st_answers s" by (auto simp: s1_def split: request.splits)
  let ?s = "s1\<lparr>st_reqs := (st_reqs s1)[i := None], st_refs := (st_refs s1)(rq_handle r := st_refs s1 (rq_handle r) - 1)\<rparr>"
  have "delete_request i s = Some ?s" using r(1) by (simp add: delete_request_def s1_def Let_def)
  moreover have "own ids ?s"
    using assms count_live_delete [OF r(2,1)] st_coreD(2,3) [OF c(1)] by (auto simp: own_def)
  moreover have "deleted_from s ?s" using st_coreD [OF c(1)] c(2)
    by (simp add: deleted_from_def live_def) (metis nth_list_update_neq nth_list_update_eq option.distinct(1))
  ultimately show ?thesis by blast
qed

lemma own_delete_all:
  assumes "own (ids @ rest) s"
  shows "\<exists>s'. delete_objects ids s = Some s' \<and> own rest s' \<and> deleted_from s s'"
  using assms
proof (induction ids arbitrary: s)
  case Nil
  then show ?case by (auto simp: deleted_refl)
next
  case (Cons i ids)
  then obtain s1 where "delete_request i s = Some s1" "own (ids @ rest) s1" "deleted_from s s1"
    using own_delete [of i "ids @ rest" s] by auto
  then show ?case using Cons.IH [of s1] deleted_trans by auto
qed

lemma own_erase:
  assumes "own (ids @ rest) s"
  shows "\<exists>kept s'. erase_where P ids s = Some (kept, s') \<and> own (kept @ rest) s' \<and> deleted_from s s' \<and> set kept \<subseteq> set ids"
  using assms
proof (induction ids arbitrary: s rest)
  case Nil
  then show ?case by (auto simp: deleted_refl)
next
  case (Cons i ids)
  obtain r where r: "st_reqs s ! i = Some r" using own_live(1) [OF Cons.prems, of i] by auto
  show ?case
  proof (cases "P r")
    case True
    obtain s1 where s1: "delete_request i s = Some s1" "own (ids @ rest) s1" "deleted_from s s1"
      using own_delete [of i "ids @ rest" s] Cons.prems by auto
    obtain kept s' where k: "erase_where P ids s1 = Some (kept, s')" "own (kept @ rest) s'" "deleted_from s1 s'" "set kept \<subseteq> set ids"
      using Cons.IH [OF s1(2)] by blast
    show ?thesis using r True s1(1) k deleted_trans [OF s1(3) k(3)] by auto
  next
    case False
    have "own (ids @ (i # rest)) s" by (rule own_mset [OF Cons.prems]) simp
    from Cons.IH [OF this] obtain kept s' where
      k: "erase_where P ids s = Some (kept, s')" "own (kept @ i # rest) s'" "deleted_from s s'" "set kept \<subseteq> set ids" by blast
    have "own ((i # kept) @ rest) s'" by (rule own_mset [OF k(2)]) simp
    then show ?thesis using r False k by auto
  qed
qed

section \<open>The invariant of the service\<close>

fun is_sub :: "request \<Rightarrow> bool" where
  "is_sub (SubInfo key h cid) \<longleftrightarrow> True"
| "is_sub _ \<longleftrightarrow> False"

definition msg_ok :: "smessage \<Rightarrow> bool" where
  "msg_ok m \<longleftrightarrow> (ms_status m = 0 \<longrightarrow> ms_data m \<noteq> None)"

definition kinds :: "settings \<Rightarrow> bool" where
  "kinds s \<longleftrightarrow> (\<forall>i\<in>set (sub_set s). \<exists>r. st_reqs s ! i = Some r \<and> is_sub r) \<and>
     (\<forall>i\<in>set (request_set s). \<exists>r. st_reqs s ! i = Some r \<and> \<not> is_sub r)"

definition answers_ok :: "settings \<Rightarrow> bool" where
  "answers_ok s \<longleftrightarrow> distinct (st_answers s) \<and>
     (\<forall>i\<in>set (st_answers s). i < length (st_reqs s) \<and> i \<notin> set (request_set s) \<and> i \<notin> set (sub_set s))"

definition st_queue_ok :: "settings \<Rightarrow> bool" where
  "st_queue_ok s \<longleftrightarrow> list_all (\<lambda>(m, i). i < length (st_reqs s) \<and> msg_ok m) (msg_queue s)"

definition stinv :: "settings \<Rightarrow> bool" where
  "stinv s \<longleftrightarrow> own (request_set s @ sub_set s) s \<and> kinds s \<and> answers_ok s \<and> st_queue_ok s"

lemma stinv_core:
  assumes "stinv s" "st_core s' = st_core s" "st_answers s' = st_answers s"
  shows "stinv s'"
  using assms(1,3) own_core [OF _ assms(2)] st_coreD [OF assms(2)] by (simp add: stinv_def kinds_def answers_ok_def st_queue_ok_def)

lemma stinvD:
  assumes "stinv s"
  shows "own (request_set s @ sub_set s) s" "kinds s" "answers_ok s" "st_queue_ok s"
  using assms by (simp_all add: stinv_def)

text \<open>Deleting and dropping from the sets keeps the invariant.\<close>

lemma stinv_shrink:
  assumes "stinv s" "deleted_from s s1" "own (R @ S) s1" "set R \<subseteq> set (request_set s)" "set S \<subseteq> set (sub_set s)"
  shows "stinv (s1\<lparr>request_set := R, sub_set := S\<rparr>)"
proof -
  have l: "set R \<union> set S = live (st_reqs s1)" using assms(3) by (auto simp: own_def)
  have same: "st_reqs s1 ! j = st_reqs s ! j" if "j \<in> set R \<union> set S" for j
    using assms(2) that unfolding l by (simp add: deleted_from_def)
  have "own (R @ S) (s1\<lparr>request_set := R, sub_set := S\<rparr>)" using assms(3) by (simp add: own_def)
  moreover have "kinds (s1\<lparr>request_set := R, sub_set := S\<rparr>)"
    using stinvD(2) [OF assms(1)] assms(4,5) same by (auto simp: kinds_def subset_iff)
  moreover have "answers_ok (s1\<lparr>request_set := R, sub_set := S\<rparr>)"
    using stinvD(3) [OF assms(1)] assms(2,4,5) by (auto simp: answers_ok_def deleted_from_def)
  moreover have "st_queue_ok (s1\<lparr>request_set := R, sub_set := S\<rparr>)"
    using stinvD(4) [OF assms(1)] assms(2) by (simp add: st_queue_ok_def deleted_from_def)
  ultimately show ?thesis by (simp add: stinv_def)
qed

lemma in_range: "stinv s \<Longrightarrow> i \<in> set (request_set s) \<or> i \<in> set (sub_set s) \<Longrightarrow> i < length (st_reqs s)"
  using own_live(2) [OF stinvD(1)] by auto

text \<open>A new object goes into one of the sets, or is deleted again at once.\<close>

lemma stinv_new:
  assumes "stinv s" "new_request r s = (i, s1)"
  shows "\<exists>s2. delete_request i s1 = Some s2 \<and> stinv s2" "\<not> is_sub r \<Longrightarrow> stinv (s1\<lparr>request_set := request_set s1 @ [i]\<rparr>)"
    "is_sub r \<Longrightarrow> stinv (s1\<lparr>sub_set := sub_set s1 @ [i]\<rparr>)"
proof -
  note n = own_new [OF stinvD(1) [OF assms(1)] assms(2)]
  have k: "\<forall>j\<in>set (request_set s) \<union> set (sub_set s). st_reqs s1 ! j = st_reqs s ! j \<and> j < length (st_reqs s)"
    using in_range [OF assms(1)] by (auto simp: n(3) nth_append)
  have kinds: "kinds s1" using stinvD(2) [OF assms(1)] k by (fastforce simp: kinds_def n(4,5))
  have none: "i \<notin> set (st_answers s)"
    using stinvD(3) [OF assms(1)] n(2) by (auto simp: answers_ok_def)
  have answers: "answers_ok s1"
    using stinvD(3) [OF assms(1)] by (auto simp: answers_ok_def n(3-5,8))
  have q: "st_queue_ok s1" using stinvD(4) [OF assms(1)] by (auto simp: st_queue_ok_def n(3,6) list_all_iff)
  obtain s2 where s2: "delete_request i s1 = Some s2" "own (request_set s @ sub_set s) s2" "deleted_from s1 s2"
    using own_delete [OF n(1)] by blast
  have same: "\<forall>j\<in>set (request_set s) \<union> set (sub_set s). st_reqs s2 ! j = st_reqs s1 ! j"
    using s2(2,3) by (auto simp: own_def deleted_from_def)
  have d: "request_set s2 = request_set s" "sub_set s2 = sub_set s" "msg_queue s2 = msg_queue s" "st_answers s2 = st_answers s1"
    "length (st_reqs s2) = length (st_reqs s1)"
    using s2(3) by (simp_all add: deleted_from_def n(4-6))
  have "kinds s2" using kinds same by (fastforce simp: kinds_def d n(4,5))
  moreover have "answers_ok s2" "st_queue_ok s2" using answers q by (simp_all add: answers_ok_def st_queue_ok_def d n(4-6))
  ultimately have "stinv s2" using s2(2) by (simp add: stinv_def d)
  then show "\<exists>s2. delete_request i s1 = Some s2 \<and> stinv s2" using s2(1) by blast
  show "stinv (s1\<lparr>request_set := request_set s1 @ [i]\<rparr>)" if "\<not> is_sub r"
  proof -
    have "own (request_set s @ [i] @ sub_set s) s1" by (rule own_mset [OF n(1)]) simp
    then have "own (request_set s @ [i] @ sub_set s) (s1\<lparr>request_set := request_set s1 @ [i]\<rparr>)" by (simp add: own_def)
    moreover have "kinds (s1\<lparr>request_set := request_set s1 @ [i]\<rparr>)" using kinds that n(2) by (auto simp: kinds_def n(3))
    moreover have "answers_ok (s1\<lparr>request_set := request_set s1 @ [i]\<rparr>)"
      using answers none by (auto simp: answers_ok_def n(4,8))
    ultimately show ?thesis using q by (simp add: stinv_def n(4,5) st_queue_ok_def)
  qed
  show "stinv (s1\<lparr>sub_set := sub_set s1 @ [i]\<rparr>)" if "is_sub r"
  proof -
    have "own (request_set s @ sub_set s @ [i]) s1" by (rule own_mset [OF n(1)]) simp
    then have "own (request_set s @ sub_set s @ [i]) (s1\<lparr>sub_set := sub_set s1 @ [i]\<rparr>)" by (simp add: own_def)
    moreover have "kinds (s1\<lparr>sub_set := sub_set s1 @ [i]\<rparr>)" using kinds that n(2) by (auto simp: kinds_def n(3))
    moreover have "answers_ok (s1\<lparr>sub_set := sub_set s1 @ [i]\<rparr>)" using answers none by (auto simp: answers_ok_def n(5,8))
    ultimately show ?thesis using q by (simp add: stinv_def n(4,5) st_queue_ok_def)
  qed
qed

section \<open>The operations keep the invariant\<close>

lemma SetProp_ok: "stinv s \<Longrightarrow> \<exists>st s'. SetProp E key v h pid s = Some (st, s') \<and> stinv s'"
proof -
  assume s: "stinv s"
  obtain i s1 where n: "new_request (SetReq h pid) s = (i, s1)" by fastforce
  show ?thesis using stinv_new(1,2) [OF s n] n by (auto simp: SetProp_def)
qed

lemma GetProp_ok: "stinv s \<Longrightarrow> \<exists>st s'. GetProp E key h pid s = Some (st, s') \<and> stinv s'"
proof -
  assume s: "stinv s"
  obtain i s1 where n: "new_request (GetReq h pid key) s = (i, s1)" by fastforce
  show ?thesis using stinv_new(1,2) [OF s n] n by (auto simp: GetProp_def)
qed

lemma find_sub_ok:
  assumes "\<forall>i\<in>set ids. \<exists>r. reqs ! i = Some r \<and> is_sub r"
  shows "\<exists>f. find_sub key h reqs ids = Some f \<and> (\<forall>i cid. f = Some (i, cid) \<longrightarrow> i \<in> set ids \<and> reqs ! i = Some (SubInfo key h cid))"
  using assms
proof (induction ids)
  case (Cons i ids)
  obtain k h' cid where "reqs ! i = Some (SubInfo k h' cid)" using Cons.prems by (force elim: is_sub.elims)
  then show ?case using Cons by auto
qed simp

lemma UpdateCid_ok:
  assumes "stinv s" "i \<in> set (sub_set s)" "st_reqs s ! i = Some (SubInfo key h old)"
  shows "stinv (UpdateCid i key h old cid s)"
proof -
  have i: "i < length (st_reqs s)" using in_range [OF assms(1)] assms(2) by blast
  note c = st_coreD [OF st_core_api(2) [of h old s]]
  have notr: "i \<notin> set (request_set s)" using stinvD(1) [OF assms(1)] assms(2) by (auto simp: own_def)
  have live: "i \<in> live (st_reqs s)" using assms(3) i by (simp add: live_def)
  have cl: "count_live (\<lambda>r. rq_handle r = x) ((st_reqs s)[i := Some (SubInfo key h cid)]) = count_live (\<lambda>r. rq_handle r = x) (st_reqs s)" for x
    using count_live_update [OF i assms(3)] by simp
  have "own (request_set s @ sub_set s) (UpdateCid i key h old cid s)"
    using stinvD(1) [OF assms(1)] live by (simp add: own_def UpdateCid_def Let_def c cl)
  moreover have "kinds (UpdateCid i key h old cid s)"
  proof -
    have "\<exists>r. (st_reqs s)[i := Some (SubInfo key h cid)] ! j = Some r \<and> is_sub r" if "j \<in> set (sub_set s)" for j
      using stinvD(2) [OF assms(1)] that i by (cases "j = i") (auto simp: kinds_def)
    moreover have "\<exists>r. (st_reqs s)[i := Some (SubInfo key h cid)] ! j = Some r \<and> \<not> is_sub r" if "j \<in> set (request_set s)" for j
      using stinvD(2) [OF assms(1)] that notr by (cases "j = i") (auto simp: kinds_def)
    ultimately show ?thesis by (simp add: kinds_def UpdateCid_def Let_def c)
  qed
  moreover have "answers_ok (UpdateCid i key h old cid s)" "st_queue_ok (UpdateCid i key h old cid s)"
    using stinvD(3,4) [OF assms(1)] by (simp_all add: answers_ok_def st_queue_ok_def UpdateCid_def Let_def c)
  ultimately show ?thesis by (simp add: stinv_def UpdateCid_def Let_def c)
qed

lemma SubscribeProp_ok:
  assumes "stinv s"
  shows "\<exists>st s'. SubscribeProp E key h cid s = Some (st, s') \<and> stinv s'"
proof -
  have "\<forall>i\<in>set (sub_set s). \<exists>r. st_reqs s ! i = Some r \<and> is_sub r" using stinvD(2) [OF assms] by (simp add: kinds_def)
  from find_sub_ok [OF this] obtain f where f: "find_sub key h (st_reqs s) (sub_set s) = Some f"
    "\<forall>i cid. f = Some (i, cid) \<longrightarrow> i \<in> set (sub_set s) \<and> st_reqs s ! i = Some (SubInfo key h cid)" by blast
  obtain i s1 where n: "new_request (SubInfo key h cid) s = (i, s1)" by fastforce
  show ?thesis
  proof (cases f)
    case None
    then show ?thesis using stinv_new(1,3) [OF assms n] n f(1) by (auto simp: SubscribeProp_def)
  next
    case (Some p)
    then show ?thesis using f UpdateCid_ok [OF assms] by (cases p) (auto simp: SubscribeProp_def)
  qed
qed

lemma UnsubscribeProp_ok:
  assumes "stinv s"
  shows "\<exists>st s'. UnsubscribeProp E key h s = Some (st, s') \<and> stinv s'"
proof -
  have "own (sub_set s @ request_set s) s" by (rule own_mset [OF stinvD(1) [OF assms]]) simp
  from own_erase [OF this, of "is_sub_of key h"] obtain kept s1 where
    e: "erase_where (is_sub_of key h) (sub_set s) s = Some (kept, s1)" "own (kept @ request_set s) s1" "deleted_from s s1"
    "set kept \<subseteq> set (sub_set s)" by blast
  have "own (request_set s @ kept) s1" by (rule own_mset [OF e(2)]) simp
  from stinv_shrink [OF assms e(3) this] e(4) have "stinv (s1\<lparr>request_set := request_set s, sub_set := kept\<rparr>)" by simp
  moreover have "s1\<lparr>request_set := request_set s, sub_set := kept\<rparr> = s1\<lparr>sub_set := kept\<rparr>" using e(3) by (simp add: deleted_from_def)
  ultimately show ?thesis using e(1) assms by (auto simp: UnsubscribeProp_def)
qed

lemma Detach_ok:
  assumes "stinv s"
  shows "\<exists>s'. Detach h s = Some s' \<and> stinv s' \<and> st_obj s' = st_obj s"
proof -
  let ?P = "\<lambda>r. rq_handle r = h"
  from own_erase [OF stinvD(1) [OF assms], of ?P] obtain R s1 where
    e: "erase_where ?P (request_set s) s = Some (R, s1)" "own (R @ sub_set s) s1" "deleted_from s s1" "set R \<subseteq> set (request_set s)"
    by blast
  define s2 where "s2 = s1\<lparr>request_set := R\<rparr>"
  have d: "sub_set s2 = sub_set s" "st_obj s2 = st_obj s" using e(3) by (simp_all add: s2_def deleted_from_def)
  have "s2 = s1\<lparr>request_set := R, sub_set := sub_set s\<rparr>" using e(3) by (simp add: s2_def deleted_from_def)
  then have i2: "stinv s2" using stinv_shrink [OF assms e(3,2,4)] by simp
  have "own (sub_set s2 @ R) s2" by (rule own_mset [OF stinvD(1) [OF i2]]) (simp add: s2_def)
  from own_erase [OF this, of ?P] obtain S s3 where
    k: "erase_where ?P (sub_set s2) s2 = Some (S, s3)" "own (S @ R) s3" "deleted_from s2 s3" "set S \<subseteq> set (sub_set s2)" by blast
  have "own (R @ S) s3" by (rule own_mset [OF k(2)]) simp
  from stinv_shrink [OF i2 k(3) this _ k(4)] have "stinv (s3\<lparr>request_set := R, sub_set := S\<rparr>)" by (simp add: s2_def)
  moreover have "s3\<lparr>request_set := R, sub_set := S\<rparr> = s3\<lparr>sub_set := S\<rparr>" "st_obj s3 = st_obj s"
    using k(3) d by (simp_all add: deleted_from_def s2_def)
  ultimately show ?thesis using e(1) k(1) d(1) by (auto simp: Detach_def s2_def Let_def)
qed

section \<open>Messages\<close>

lemma get_call_ok:
  assumes "msg_ok m"
  shows "\<exists>s'. get_call E h pid key (ms_status m) (ms_data m) s = Some s' \<and> st_core s' = st_core s \<and> st_answers s' = st_answers s"
  using assms by (cases "ms_data m") (auto simp: get_call_def msg_ok_def Let_def)

lemma sub_call_ok:
  assumes "msg_ok m"
  shows "\<exists>s'. sub_call E h cid (ms_status m) (ms_data m) s = Some s' \<and> st_core s' = st_core s \<and> st_answers s' = st_answers s"
  using assms by (cases "ms_data m") (auto simp: sub_call_def msg_ok_def Let_def)

lemma request_call_ok:
  assumes "st_reqs s ! i = Some r" "msg_ok m"
  shows "\<exists>s'. request_call E i m s = Some s' \<and> st_core s' = st_core s \<and> st_answers s' = (if is_sub r then st_answers s else st_answers s @ [i])"
proof (cases r)
  case (GetReq h pid key)
  then show ?thesis using assms(1) get_call_ok [OF assms(2), of E h pid key "s\<lparr>st_answers := st_answers s @ [i]\<rparr>"]
    by (auto simp: request_call_def)
qed (use assms sub_call_ok [OF assms(2), of E _ _ s] in \<open>auto simp: request_call_def set_call_def\<close>)

lemma process_request:
  assumes "stinv s" "msg_ok m" "i \<in> set (request_set s)"
  shows "\<exists>s1 s2. request_call E i m s = Some s1 \<and> delete_request i (s1\<lparr>request_set := remove1 i (request_set s1)\<rparr>) = Some s2 \<and>
    stinv s2 \<and> sub_set s2 = sub_set s \<and> msg_queue s2 = msg_queue s \<and> request_set s2 = remove1 i (request_set s) \<and>
    st_answers s2 = st_answers s @ [i]"
proof -
  obtain r where r: "st_reqs s ! i = Some r" "\<not> is_sub r" using stinvD(2) [OF assms(1)] assms(3) by (auto simp: kinds_def)
  obtain s1 where s1: "request_call E i m s = Some s1" "st_core s1 = st_core s" "st_answers s1 = st_answers s @ [i]"
    using request_call_ok [OF r(1) assms(2), of E] r(2) by auto
  note c = st_coreD [OF s1(2)]
  let ?R = "remove1 i (request_set s)"
  let ?s = "s1\<lparr>request_set := ?R\<rparr>"
  have dist: "distinct (request_set s)" "i \<notin> set (sub_set s)" using stinvD(1) [OF assms(1)] assms(3) by (auto simp: own_def)
  have "own (i # ?R @ sub_set s) s" by (rule own_mset [OF stinvD(1) [OF assms(1)]]) (use assms(3) in simp)
  then have "own (i # ?R @ sub_set s) ?s" by (simp add: own_def c)
  from own_delete [OF this] obtain s2 where s2: "delete_request i ?s = Some s2" "own (?R @ sub_set s) s2" "deleted_from ?s s2" by blast
  have d: "request_set s2 = ?R" "sub_set s2 = sub_set s" "msg_queue s2 = msg_queue s" "st_answers s2 = st_answers s @ [i]"
    "length (st_reqs s2) = length (st_reqs s)" using s2(3) s1(3) by (simp_all add: deleted_from_def c)
  have same: "\<forall>j\<in>set ?R \<union> set (sub_set s). st_reqs s2 ! j = st_reqs s ! j"
    using s2(2,3) by (auto simp: own_def deleted_from_def c)
  have "kinds s2" using stinvD(2) [OF assms(1)] same dist(1) by (auto simp: kinds_def d)
  moreover have "answers_ok s2"
    using stinvD(3) [OF assms(1)] in_range [OF assms(1)] assms(3) dist by (auto simp: answers_ok_def d)
  moreover have "st_queue_ok s2" using stinvD(4) [OF assms(1)] by (simp add: st_queue_ok_def d)
  ultimately have "stinv s2" using s2(2) by (simp add: stinv_def d)
  then show ?thesis using s1(1) s2(1) d c(4) by auto
qed

lemma process_message_ok:
  assumes "stinv s" "msg_ok m"
  shows "\<exists>s'. process_message E m i s = Some s' \<and> stinv s' \<and> msg_queue s' = msg_queue s"
proof -
  have sub: "\<exists>s'. (if i \<in> set (sub_set x) then request_call E i m x else Some x) = Some s' \<and> stinv s' \<and> msg_queue s' = msg_queue x"
    if x: "stinv x" for x
  proof (cases "i \<in> set (sub_set x)")
    case True
    then obtain r where r: "st_reqs x ! i = Some r" "is_sub r" using stinvD(2) [OF x] by (auto simp: kinds_def)
    from request_call_ok [OF r(1) assms(2), of E] r(2) obtain x' where
      x': "request_call E i m x = Some x'" "st_core x' = st_core x" "st_answers x' = st_answers x" by auto
    show ?thesis using x'(1) True stinv_core [OF x x'(2,3)] st_coreD(6) [OF x'(2)] by simp
  qed (use x in simp)
  show ?thesis
  proof (cases "i \<in> set (request_set s)")
    case True
    then obtain s1 s2 where "request_call E i m s = Some s1"
      "delete_request i (s1\<lparr>request_set := remove1 i (request_set s1)\<rparr>) = Some s2" "stinv s2" "msg_queue s2 = msg_queue s"
      using process_request [OF assms True, of E] by blast
    then show ?thesis using sub [of s2] True by (simp add: process_message_def)
  next
    case False
    then show ?thesis using sub [OF assms(1)] by (simp add: process_message_def)
  qed
qed

lemma process_messages_ok:
  "stinv s \<Longrightarrow> list_all (msg_ok \<circ> fst) q \<Longrightarrow> \<exists>s'. process_messages E q s = Some s' \<and> stinv s'"
proof (induction q arbitrary: s)
  case (Cons p q)
  obtain m i where p: "p = (m, i)" by fastforce
  obtain s1 where "process_message E m i s = Some s1" "stinv s1"
    using process_message_ok [OF Cons.prems(1), of m E i] Cons.prems(2) p by auto
  then show ?case using Cons p by auto
qed simp

lemma stinv_queue: "stinv s \<Longrightarrow> st_queue_ok (s\<lparr>msg_queue := q\<rparr>) \<Longrightarrow> stinv (s\<lparr>msg_queue := q\<rparr>)"
  by (auto simp: stinv_def own_def kinds_def answers_ok_def)

section \<open>Runs\<close>

fun settings_legal :: "settings_op \<Rightarrow> bool" where
  "settings_legal (StUnsubscribe h key) \<longleftrightarrow> key \<noteq> None"
| "settings_legal (StMessage m i) \<longleftrightarrow> msg_ok m"
| "settings_legal StDestroy \<longleftrightarrow> False"
| "settings_legal _ \<longleftrightarrow> True"

lemmas stinv_reject = stinv_core [OF _ st_core_api(4) answers_api(4)]
lemmas stinv_resolve = stinv_core [OF _ st_core_api(3) answers_api(3)]

lemma settled_result:
  assumes "\<exists>st s'. f = Some (st, s') \<and> stinv s'" "\<And>s. stinv s \<Longrightarrow> stinv (g s)"
  shows "\<exists>s'. map_option (\<lambda>(st, s). case st of None \<Rightarrow> g s | Some (code, msg) \<Rightarrow> st_reject h pid code msg s) f = Some s' \<and> stinv s'"
proof -
  obtain st s' where "f = Some (st, s')" "stinv s'" using assms(1) by blast
  then show ?thesis using assms(2) [of s'] stinv_reject [of s'] by (cases st) auto
qed

lemma settings_step_safe:
  assumes "stinv s" "settings_legal p"
  shows "\<exists>s'. settings_step E p s = Some s' \<and> stinv s'"
proof (cases p)
  case (StRequire h)
  then show ?thesis using assms(1) by (auto simp: system_settings_onRequired_def stinv_def own_def kinds_def answers_ok_def st_queue_ok_def)
next
  case (StGet h pid key)
  then show ?thesis using assms(1) GetProp_ok [OF assms(1), of E _ h pid] stinv_reject
    by (cases key) (auto simp: system_settings_wrap_getProp_def, metis option.simps(9) snd_conv)
next
  case (StSet h pid key v)
  have ok: "\<exists>s'. map_option (\<lambda>(st, s). case st of None \<Rightarrow> s | Some (code, msg) \<Rightarrow> st_reject h pid code msg s) (SetProp E k t h pid s) = Some s' \<and> stinv s'"
    for k t by (rule settled_result [OF SetProp_ok [OF assms(1)]])
  show ?thesis using StSet stinv_reject [OF assms(1)] ok
    by (auto simp: system_settings_wrap_setProp_def split: option.splits)
next
  case (StSubscribe h pid key cid)
  have ok: "\<exists>s'. map_option (\<lambda>(st, s). case st of None \<Rightarrow> st_resolve E h pid [] s | Some (code, msg) \<Rightarrow> st_reject h pid code msg s)
      (SubscribeProp E k h cid s) = Some s' \<and> stinv s'"
    for k by (rule settled_result [OF SubscribeProp_ok [OF assms(1)] stinv_resolve])
  show ?thesis using StSubscribe stinv_reject [OF assms(1)] ok by (auto simp: system_settings_wrap_subscribeProp_def split: option.splits)
next
  case (StUnsubscribe h key)
  then obtain k where "key = Some k" using assms(2) by auto
  then show ?thesis using StUnsubscribe UnsubscribeProp_ok [OF assms(1), of E k h] assms(1)
    by (auto simp: system_settings_wrap_unsubscribeProp_def)
next
  case (StMessage m i)
  then show ?thesis using assms stinvD(4) [OF assms(1)] stinv_queue [OF assms(1), of "msg_queue s @ [(m, i)]"]
    by (auto simp: MiwearSettingsCallback_def ProcessMessageAsync_def st_queue_ok_def)
next
  case StLoop
  have "list_all (msg_ok \<circ> fst) (msg_queue s)" using stinvD(4) [OF assms(1)] by (auto simp: st_queue_ok_def list_all_iff)
  then show ?thesis using StLoop process_messages_ok [OF stinv_queue [OF assms(1), of "[]"], of "msg_queue s" E]
    by (simp add: ProcessMessageAsyncCallback_def st_queue_ok_def)
next
  case (StDetach h)
  obtain s1 where s1: "Detach h s = Some s1" "stinv s1" using Detach_ok [OF assms(1)] by blast
  let ?s = "s1\<lparr>st_obj := (st_obj s1)(h := False)\<rparr>"
  have i: "stinv ?s" using s1(2) by (auto simp: stinv_def own_def kinds_def answers_ok_def st_queue_ok_def)
  show ?thesis
  proof (cases "st_obj s h")
    case True
    then show ?thesis using StDetach s1(1) i stinv_core [OF i]
      by (auto simp: system_settings_onDetached_def st_core_def split: option.splits prod.splits)
  qed (use StDetach assms(1) in simp)
qed (use assms(2) in simp)

interpretation settings_service: service "settings_step E" settings_legal stinv for E
  by unfold_locales (rule settings_step_safe)

lemma new_settings_ok: "stinv (new_settings I w)"
  by (simp add: stinv_def new_settings_def own_def kinds_def answers_ok_def st_queue_ok_def)


definition stenv0 :: settings_env where
  "stenv0 = \<lparr>st_engine = engine0, st_ToString = (\<lambda>v. None), st_setprop = (\<lambda>k v. 0), st_getprop = (\<lambda>k. 0),
     st_subscribe_prop = (\<lambda>k. 0), st_unsubscribe_prop = (\<lambda>k. 0)\<rparr>"

definition st_ops0 :: "settings_op list" where
  "st_ops0 = [StRequire 1, StSubscribe 1 0 (Some ''volume'') 1, StGet 1 1 (Some ''volume''), StMessage \<lparr>ms_status = 1, ms_data = None\<rparr> 1,
     StMessage \<lparr>ms_status = 1, ms_data = None\<rparr> 1, StLoop, StDetach 1]"


section \<open>The end of the service\<close>

lemma delete_objects_append: "delete_objects (is @ js) s = Option.bind (delete_objects is s) (delete_objects js)"
  by (induction "is" arbitrary: s) (simp_all, auto split: bind_splits)

lemma delete_dead: "own [] s \<Longrightarrow> i < length (st_reqs s) \<Longrightarrow> delete_request i s = None"
  by (auto simp: own_def live_def delete_request_def)


definition st_ops1 :: "settings_op list" where
  "st_ops1 = [StRequire 1, StGet 1 1 (Some ''volume''), StMessage \<lparr>ms_status = 1, ms_data = None\<rparr> 0]"


section \<open>What a script receives\<close>

lemma any_args:
  "args_ok e I [Prim FT_ANY_REF] [NAny v]" "args_values e [Prim FT_ANY_REF] [NAny v] = [v]"
  "arg_ok e I [NAny v] (Prim FT_ANY_REF)" "arg_value e [NAny v] (Prim FT_ANY_REF) = v"
  by (simp_all add: arg_ok_def arg_value_def extractVariadicParam_def FT_IS_REFERENCE_iff)

text \<open>C27: When the daemon answers a get request of a live instance with a JSON text, the promise of the request is
  resolved with the value the text has for the key, the request object is deleted and its reference to the
  instance returned; references stay balanced.\<close>

theorem setting_is_delivered:
  assumes "stinv s" "msg_queue s = [(m, i)]" "i \<in> set (request_set s)" "st_reqs s ! i = Some (GetReq h pid key)"
    and m: "ms_status m = 0" "ms_data m = Some str" "e_ParseJSON (st_engine E) str = Some (JObject ps)"
    and t: "st_inst s h = Some t" "alive t" "getPromiseData (inst_pm t) pid = Some d" "pd_type d = Prim FT_ANY_REF"
  shows "\<exists>s' t'. settings_step E StLoop s = Some s' \<and> st_inst s' h = Some t' \<and> settled_from t pid t' \<and>
    calls (st_world s') = calls (st_world s) @ resolve_calls d (JS_GetProperty (JObject ps) key) \<and>
    i \<notin> live (st_reqs s') \<and> Suc (st_refs s' h) = st_refs s h \<and>
    (balanced b (inst_refs t + M) (st_world s) \<longrightarrow> balanced b (inst_refs t' + M) (st_world s'))"
proof -
  define v obj where v: "v = JS_GetProperty (JObject ps) key" and obj: "obj = JObject ps"
  let ?w = "feature_dup_value v (js_new obj (st_world s))"
  have ok: "settle_ok (st_engine E) ?w d [NAny v]" "settle_value (st_engine E) d [NAny v] = v"
    using t(4) by (simp_all add: settle_ok_def settle_value_def any_args)
  obtain t' w' where r: "FeaturePromiseResolve (st_engine E) (Some t) pid [NAny v] ?w = (resolve_func d \<noteq> JUndef, Some t', w')"
    "calls w' = calls ?w @ resolve_calls d v" "settled_from t pid t'"
    "balanced b (inst_refs t + (M + {#obj, v#})) ?w \<longrightarrow> balanced b (inst_refs t' + (M + {#obj, v#})) w'"
    using resolve_live [OF t(2,3) ok(1), of b "M + {#obj, v#}"] unfolding ok(2) by blast
  let ?s0 = "s\<lparr>msg_queue := []\<rparr>"
  let ?s1 = "s\<lparr>msg_queue := [], st_answers := st_answers s @ [i], st_inst := (st_inst s)(h := Some t'),
    st_world := feature_free_value obj (feature_free_value v w')\<rparr>"
  have c: "request_call E i m ?s0 = Some ?s1"
    using assms(4) m t(1) r(1) v obj
    by (simp add: request_call_def get_call_def ft_parse_json_def ft_obj_get_property_def st_resolve_def Let_def ft_get_type_undef)
  have i0: "stinv ?s0" using stinv_queue [OF assms(1)] by (simp add: st_queue_ok_def)
  obtain s1 s2 where p: "request_call E i m ?s0 = Some s1" "delete_request i (s1\<lparr>request_set := remove1 i (request_set s1)\<rparr>) = Some s2"
    "stinv s2" "sub_set s2 = sub_set s"
    using process_request [OF i0, of m i E] m(1,2) assms(3) by (auto simp: msg_ok_def)
  have s2: "s2 = ?s1\<lparr>request_set := remove1 i (request_set s), st_reqs := (st_reqs s)[i := None],
      st_refs := (st_refs s)(h := st_refs s h - 1)\<rparr>"
    using p(1,2) c assms(4) by (auto simp: delete_request_def)
  have notsub: "i \<notin> set (sub_set s)" using stinvD(1) [OF assms(1)] assms(3) by (auto simp: own_def)
  have "settings_step E StLoop s = Some s2"
    using assms(2,3) p(1,2) notsub p(4) by (simp add: ProcessMessageAsyncCallback_def process_message_def)
  moreover have "0 < st_refs s h"
  proof -
    have "i < length (st_reqs s)" using in_range [OF assms(1)] assms(3) by blast
    from count_live_delete [OF this assms(4), of "\<lambda>r. rq_handle r = h"] show ?thesis
      using stinvD(1) [OF assms(1)] by (simp add: own_def)
  qed
  moreover have "balanced b (inst_refs t' + M) (st_world s2)" if bal: "balanced b (inst_refs t + M) (st_world s)"
  proof -
    have "balanced b (add_mset v (add_mset obj (inst_refs t + M))) ?w" using balanced_dup [OF balanced_dup [OF bal]] .
    then have "balanced b (inst_refs t' + (M + {#obj, v#})) w'" using r(4) by (simp add: ac_simps add_mset_commute)
    then have "balanced b (add_mset obj (inst_refs t' + M)) (feature_free_value v w')"
      by (intro balanced_free) (simp add: ac_simps add_mset_commute)
    then show ?thesis by (simp add: s2 balanced_free)
  qed
  ultimately show ?thesis using r(2,3) by (intro exI [of _ s2] exI [of _ t']) (simp add: s2 v [symmetric] del: JS_GetProperty.simps)
qed

definition inst_p :: inst where
  "inst_p = (new_inst (JFun 0))\<lparr>inst_pm := \<lparr>promises = [(0, PPromise (Prim FT_ANY_REF) (JFun 2) (JFun 3) (JFun 4))], curr_pid = 1\<rparr>\<rparr>"

lemma inst_p_ok: "alive inst_p" "getPromiseData (inst_pm inst_p) 0 = Some (PPromise (Prim FT_ANY_REF) (JFun 2) (JFun 3) (JFun 4))"
  by (simp_all add: alive_def inst_ok_def inst_p_def new_inst_def cbm_ok_def pm_ok_def em_ok_def omap_ok_def cbm_refs_def em_refs_def
      init_cbm_def init_em_def getPromiseData_def)

definition settings_g :: settings where
  "settings_g = (new_settings (\<lambda>h. if h = 1 then Some inst_p else None) world0)\<lparr>st_refs := (\<lambda>h. if h = 1 then 1 else 0),
     st_reqs := [Some (GetReq 1 0 ''volume'')], request_set := [0], msg_queue := [(\<lparr>ms_status = 0, ms_data = Some ''{}''\<rparr>, 0)]\<rparr>"

theorem setting_is_delivered_witness:
  "\<exists>s'. settings_step stenv0 StLoop settings_g = Some s' \<and>
    calls (st_world s') = [(JFun 3, [JObject [(''data'', JUndef)]])] \<and> 0 \<notin> live (st_reqs s')"
proof -
  have i: "stinv settings_g"
    by (auto simp: stinv_def settings_g_def new_settings_def own_def kinds_def answers_ok_def st_queue_ok_def msg_ok_def live_def count_live_def)
  have g: "msg_queue settings_g = [(\<lparr>ms_status = 0, ms_data = Some ''{}''\<rparr>, 0)]" "0 \<in> set (request_set settings_g)"
    "st_reqs settings_g ! 0 = Some (GetReq 1 0 ''volume'')" "st_inst settings_g 1 = Some inst_p" "st_world settings_g = world0"
    by (simp_all add: settings_g_def new_settings_def)
  have p: "e_ParseJSON (st_engine stenv0) ''{}'' = Some (JObject [])" by (simp add: stenv0_def engine0_def)
  obtain s' where "settings_step stenv0 StLoop settings_g = Some s'" "0 \<notin> live (st_reqs s')"
    "calls (st_world s') = calls world0 @ resolve_calls (PPromise (Prim FT_ANY_REF) (JFun 2) (JFun 3) (JFun 4)) (JS_GetProperty (JObject []) ''volume'')"
    using setting_is_delivered [OF i g(1-3) _ _ p g(4) inst_p_ok, of undefined "{#}"] g(5) by auto
  then show ?thesis by (intro exI [of _ s']) (simp add: call_unless_undef_def world0_def)
qed

text \<open>A get request that the daemon does not accept is dropped: the promise is not settled and no object is left to settle it.\<close>

lemma refused_get_is_never_answered:
  assumes "stinv s" "st_obj s h" "st_getprop E k \<noteq> 0"
  shows "\<exists>s'. settings_step E (StGet h pid (Some k)) s = Some s' \<and> st_inst s' = st_inst s \<and> st_world s' = st_world s \<and>
    request_set s' = request_set s"
  using assms by (auto simp: system_settings_wrap_getProp_def GetProp_def new_request_def delete_request_def)

end
