(* ===== verification/Interconnect.thy ===== *)
theory Interconnect
  imports Services FtContext
begin

text \<open>
  The interconnect service (\<open>modules/interconnect_impl.cpp\<close>): the connection of an app to its counterpart on the
  phone. \<open>InterconnectContext\<close> is one object per module; it follows the status messages of the link, keeps the
  promises of send and diagnosis calls that wait for the connection, and calls the functions that the script has set on the
  one interface object. Send tasks and their timers are indices of tables, deleted when the entry is
  \<open>None\<close>, closed when the timer is not running. The link (\<open>uv_miwear\<close>) and the clock are the environment: their calls are
  steps. \<open>ic_handle\<close> is the interface the context points to and \<open>ic_freed\<close> says that it has been freed. A result \<open>None\<close> is
  a crash: a failed assertion, the use of a deleted task or of the freed interface. A script that calls
  the service from inside one of its callbacks is not modelled.
\<close>

section \<open>State\<close>

definition MIWEAR_STATUS_CLIENT_INIT :: nat where "MIWEAR_STATUS_CLIENT_INIT = 0"
definition MIWEAR_STATUS_CLIENT_ID_SENT :: nat where "MIWEAR_STATUS_CLIENT_ID_SENT = 1"
definition MIWEAR_STATUS_CONNECT_FAILED :: nat where "MIWEAR_STATUS_CONNECT_FAILED = 2"
definition MIWEAR_STATUS_CONNECTION_CLOSED :: nat where "MIWEAR_STATUS_CONNECTION_CLOSED = 3"
definition MIWEAR_STATUS_PHONE_CONNECTED :: nat where "MIWEAR_STATUS_PHONE_CONNECTED = 5"
definition MIWEAR_STATUS_PHONE_DISCONNECTED :: nat where "MIWEAR_STATUS_PHONE_DISCONNECTED = 6"
definition MIWEAR_STATUS_PHONE_UNINSTALLED :: nat where "MIWEAR_STATUS_PHONE_UNINSTALLED = 7"

lemmas miwear_status_defs = MIWEAR_STATUS_CLIENT_INIT_def MIWEAR_STATUS_CLIENT_ID_SENT_def MIWEAR_STATUS_CONNECT_FAILED_def
  MIWEAR_STATUS_CONNECTION_CLOSED_def MIWEAR_STATUS_PHONE_CONNECTED_def MIWEAR_STATUS_PHONE_DISCONNECTED_def
  MIWEAR_STATUS_PHONE_UNINSTALLED_def

datatype StatusCode = kOk | kInvalidArgs | kUnsupported | kTimeout | kUnknown | kAppUninstall | kDisconnect

fun status_code :: "StatusCode \<Rightarrow> 32 word" where
  "status_code kOk = 0"
| "status_code kInvalidArgs = 202"
| "status_code kUnsupported = 203"
| "status_code kTimeout = 204"
| "status_code kUnknown = 1000"
| "status_code kAppUninstall = 1001"
| "status_code kDisconnect = 1006"

datatype SendResult = SendOk | SendFailed | SendTimeout

datatype imessage = MStatus nat | MData string | MOther

record send_task =
  sk_msg :: string
  sk_timer :: "nat option"
  sk_pid :: int

record send_timer =
  tm_data :: "nat option"
  tm_running :: bool

definition kInvalidPromiseId :: int where "kInvalidPromiseId = - 1"

record ic_env =
  ic_engine :: engine
  ic_ToString :: "jsval \<Rightarrow> string option"
  ic_connect :: "string \<Rightarrow> int"

record interconn =
  ic_handle :: "inst option"
  ic_freed :: bool
  ic_world :: world
  ic_status :: nat
  ic_package :: string
  connect_send :: bool
  is_pending_connect :: bool
  send_tasks :: "nat list"
  ic_tasks :: "send_task option list"
  ic_timers :: "send_timer list"
  ic_inflight :: "nat list"
  diagnosis_timer :: "bool option"
  diagnosis_promise_id :: int
  recv_func :: int
  conn_func :: int
  error_func :: int
  disconn_func :: int
  err_info :: "(string \<times> 32 word) option"
  ic_dead :: bool
  ic_miwear :: bool
  ic_answers :: "nat list"

section \<open>Through the interface handle\<close>

definition ic_invoke :: "ic_env \<Rightarrow> int \<Rightarrow> nval list \<Rightarrow> interconn \<Rightarrow> interconn option" where
  "ic_invoke E cid ap s =
     (if ic_freed s then None
      else Some (s\<lparr>ic_world := snd (FeatureInvokeCallback (ic_engine E) (ic_handle s) cid ap (ic_world s))\<rparr>))"

definition ic_remove :: "int \<Rightarrow> interconn \<Rightarrow> interconn option" where
  "ic_remove cid s =
     (if ic_freed s then None
      else (let (r, t, w) = FeatureRemoveCallback (ic_handle s) cid (ic_world s)
            in Some (s\<lparr>ic_handle := t, ic_world := w\<rparr>)))"

definition ic_resolve :: "ic_env \<Rightarrow> int \<Rightarrow> nval list \<Rightarrow> interconn \<Rightarrow> interconn option" where
  "ic_resolve E pid ap s =
     (if ic_freed s then None
      else (let (r, t, w) = FeaturePromiseResolve (ic_engine E) (ic_handle s) pid ap (ic_world s)
            in Some (s\<lparr>ic_handle := t, ic_world := w\<rparr>)))"

definition ic_reject :: "int \<Rightarrow> StatusCode \<Rightarrow> string \<Rightarrow> interconn \<Rightarrow> interconn option" where
  "ic_reject pid code msg s =
     (if ic_freed s then None
      else (let (r, t, w) = FeaturePromiseReject (ic_handle s) pid (status_code code) (Some msg) (ic_world s)
            in Some (s\<lparr>ic_handle := t, ic_world := w\<rparr>)))"

text \<open>A fresh object with one property, handed to \<open>f\<close> and released afterwards.\<close>

definition with_object :: "string \<Rightarrow> jsval \<Rightarrow> (nval \<Rightarrow> interconn \<Rightarrow> interconn option) \<Rightarrow> interconn \<Rightarrow> interconn option" where
  "with_object key v f s =
     (if ic_freed s \<or> ic_handle s = None then None
      else (let (obj, w) = js_set_prop (JObject []) key v (js_new (JObject []) (ic_world s))
            in map_option (\<lambda>s. s\<lparr>ic_world := feature_free_value obj (ic_world s)\<rparr>) (f (NAny obj) (s\<lparr>ic_world := w\<rparr>))))"

section \<open>Status\<close>

definition IsConnecting_status :: "nat \<Rightarrow> bool" where
  "IsConnecting_status status \<longleftrightarrow> status = MIWEAR_STATUS_CLIENT_INIT \<or> status = MIWEAR_STATUS_CLIENT_ID_SENT"

definition IsConnecting :: "interconn \<Rightarrow> bool" where
  "IsConnecting s \<longleftrightarrow> IsConnecting_status (ic_status s)"

definition IsConnected :: "interconn \<Rightarrow> bool" where
  "IsConnected s \<longleftrightarrow> ic_status s = MIWEAR_STATUS_PHONE_CONNECTED"

text \<open>\<open>status_name\<close> asserts that the status is in its table.\<close>

definition status_name_ok :: "interconn \<Rightarrow> bool" where
  "status_name_ok s \<longleftrightarrow> ic_status s < 8"

definition ic_connect_link :: "ic_env \<Rightarrow> interconn \<Rightarrow> int \<times> interconn" where
  "ic_connect_link E s =
     (if connect_send s then (1, s)
      else if ic_package s = [] then (- 1, s)
      else if ic_connect E (ic_package s) \<noteq> 0 then (- 2, s)
      else (0, s\<lparr>connect_send := True\<rparr>))"

section \<open>Diagnosis\<close>

definition diagnosis_status :: "nat \<Rightarrow> bool \<Rightarrow> StatusCode" where
  "diagnosis_status status is_timeout =
     (if is_timeout then kTimeout
      else if status = MIWEAR_STATUS_CONNECT_FAILED \<or> status = MIWEAR_STATUS_PHONE_DISCONNECTED then kUnknown
      else if status = MIWEAR_STATUS_PHONE_CONNECTED then kOk
      else if status = MIWEAR_STATUS_PHONE_UNINSTALLED then kAppUninstall
      else kUnknown)"

definition ProcessDiagnosisResult :: "ic_env \<Rightarrow> int \<Rightarrow> bool \<Rightarrow> interconn \<Rightarrow> interconn option" where
  "ProcessDiagnosisResult E pid is_timeout s =
     with_object ''status'' (JInt (status_code (diagnosis_status (ic_status s) is_timeout))) (\<lambda>v. ic_resolve E pid [v]) s"

definition ProcessPendingDiagnosis :: "ic_env \<Rightarrow> bool \<Rightarrow> interconn \<Rightarrow> interconn option" where
  "ProcessPendingDiagnosis E is_timeout s =
     (if diagnosis_promise_id s = kInvalidPromiseId then Some s
      else if diagnosis_timer s = None then None
      else map_option (\<lambda>s. s\<lparr>diagnosis_promise_id := kInvalidPromiseId\<rparr>)
             (ProcessDiagnosisResult E (diagnosis_promise_id s) is_timeout (s\<lparr>diagnosis_timer := Some False\<rparr>)))"

definition PendingDiagnosis :: "int \<Rightarrow> int \<Rightarrow> interconn \<Rightarrow> StatusCode \<times> interconn" where
  "PendingDiagnosis pid timeout s =
     (if timeout \<le> 0 then (kInvalidArgs, s)
      else if diagnosis_promise_id s \<noteq> kInvalidPromiseId then (kUnsupported, s)
      else (kOk, s\<lparr>diagnosis_promise_id := pid, diagnosis_timer := Some True\<rparr>))"

section \<open>Send tasks\<close>

definition SendMsg :: "nat \<Rightarrow> interconn \<Rightarrow> interconn option" where
  "SendMsg i s =
     (if \<not> IsConnected s \<or> ic_tasks s ! i = None then None
      else Some (s\<lparr>ic_inflight := ic_inflight s @ [i]\<rparr>))"

definition CreateSendTask :: "string \<Rightarrow> int \<Rightarrow> interconn \<Rightarrow> nat \<times> interconn" where
  "CreateSendTask msg pid s =
     (length (ic_tasks s),
      s\<lparr>ic_tasks := ic_tasks s @ [Some \<lparr>sk_msg = msg, sk_timer = None, sk_pid = pid\<rparr>],
        send_tasks := send_tasks s @ [length (ic_tasks s)]\<rparr>)"

definition getMsg :: "ic_env \<Rightarrow> jsval \<Rightarrow> StatusCode + string" where
  "getMsg E obj =
     (if ft_get_type obj \<noteq> FT_TYPE_OBJECT then Inl kInvalidArgs
      else case ft_to_string (ic_engine E) (ic_ToString E) obj of
        None \<Rightarrow> Inl kInvalidArgs
      | Some buffer \<Rightarrow> if buffer = [] then Inl kInvalidArgs else Inr buffer)"

definition PendingSendTask :: "ic_env \<Rightarrow> jsval option \<Rightarrow> int \<Rightarrow> interconn \<Rightarrow> StatusCode \<times> interconn" where
  "PendingSendTask E data pid s =
     (case data of
        None \<Rightarrow> (kInvalidArgs, s)
      | Some obj \<Rightarrow>
          (case getMsg E obj of
             Inl st \<Rightarrow> (st, s)
           | Inr buffer \<Rightarrow>
               (let (i, s1) = CreateSendTask buffer pid s; t = length (ic_timers s1)
                in (kOk, s1\<lparr>ic_timers := ic_timers s1 @ [\<lparr>tm_data = Some i, tm_running = True\<rparr>],
                            ic_tasks := (ic_tasks s1)[i := Some \<lparr>sk_msg = buffer, sk_timer = Some t, sk_pid = pid\<rparr>]\<rparr>))))"

definition close_timer :: "nat \<Rightarrow> interconn \<Rightarrow> interconn" where
  "close_timer t s = s\<lparr>ic_timers := (ic_timers s)[t := (ic_timers s ! t)\<lparr>tm_running := False\<rparr>]\<rparr>"

fun ProcessPendingSendTasks :: "nat list \<Rightarrow> interconn \<Rightarrow> interconn option" where
  "ProcessPendingSendTasks [] s = Some s"
| "ProcessPendingSendTasks (i # is) s =
     (case ic_tasks s ! i of
        None \<Rightarrow> None
      | Some k \<Rightarrow>
          (case sk_timer k of
             None \<Rightarrow> ProcessPendingSendTasks is s
           | Some t \<Rightarrow>
               Option.bind (SendMsg i ((close_timer t s)\<lparr>ic_tasks := (ic_tasks s)[i := Some (k\<lparr>sk_timer := None\<rparr>)]\<rparr>))
                 (ProcessPendingSendTasks is)))"

definition ProcessSendResult :: "ic_env \<Rightarrow> nat \<Rightarrow> SendResult \<Rightarrow> interconn \<Rightarrow> interconn option" where
  "ProcessSendResult E i result s =
     (if i \<notin> set (send_tasks s) then Some s
      else case ic_tasks s ! i of
        None \<Rightarrow> None
      | Some k \<Rightarrow>
          (let s1 = s\<lparr>send_tasks := remove1 i (send_tasks s), ic_answers := ic_answers s @ [i]\<rparr>
           in map_option (\<lambda>s. s\<lparr>ic_tasks := (ic_tasks s)[i := None]\<rparr>)
                (case result of
                   SendOk \<Rightarrow> ic_resolve E (sk_pid k) [] s1
                 | SendTimeout \<Rightarrow> ic_reject (sk_pid k) kTimeout ''send timeout'' s1
                 | SendFailed \<Rightarrow> ic_reject (sk_pid k) kDisconnect ''connection broken'' s1)))"

text \<open>The callbacks of a timer and of the link for one message.\<close>

definition timer_send_cb :: "ic_env \<Rightarrow> nat \<Rightarrow> interconn \<Rightarrow> interconn option" where
  "timer_send_cb E t s =
     (case tm_data (ic_timers s ! t) of
        None \<Rightarrow> None
      | Some i \<Rightarrow>
          (if ic_tasks s ! i = None then None
           else map_option (close_timer t) (ProcessSendResult E i SendTimeout s)))"

definition miwear_send_cb :: "ic_env \<Rightarrow> int \<Rightarrow> nat \<Rightarrow> interconn \<Rightarrow> interconn option" where
  "miwear_send_cb E status i s =
     (if ic_dead s then Some s
      else ProcessSendResult E i (if status = 0 then SendOk else SendFailed) s)"

section \<open>What the script has set\<close>

definition error_arg :: "string \<times> 32 word \<Rightarrow> nval" where
  "error_arg p = NStruct [(0, NStr (fst p)), (8, NBits (ucast (snd p)))]"

definition InvokeError :: "ic_env \<Rightarrow> string \<Rightarrow> StatusCode \<Rightarrow> interconn \<Rightarrow> interconn option" where
  "InvokeError E msg code s =
     (if error_func s = 0 then Some (s\<lparr>err_info := Some (msg, status_code code)\<rparr>)
      else ic_invoke E (error_func s) [error_arg (msg, status_code code)] s)"

definition InvokeConnect :: "ic_env \<Rightarrow> bool \<Rightarrow> interconn \<Rightarrow> interconn option" where
  "InvokeConnect E is_reconnect s =
     (if conn_func s = 0 then Some (s\<lparr>is_pending_connect := True\<rparr>)
      else if \<not> ic_freed s \<and> ic_handle s = None then Some s
      else with_object ''isReconnected'' (JBool is_reconnect) (\<lambda>v. ic_invoke E (conn_func s) [v]) s)"

definition InvokeDisconnect :: "ic_env \<Rightarrow> string \<Rightarrow> StatusCode \<Rightarrow> interconn \<Rightarrow> interconn option" where
  "InvokeDisconnect E msg code s = ic_invoke E (disconn_func s) [error_arg (msg, status_code code)] s"

definition InvokeRecv :: "ic_env \<Rightarrow> string \<Rightarrow> interconn \<Rightarrow> interconn option" where
  "InvokeRecv E data s =
     (if recv_func s = 0 then Some s else ic_invoke E (recv_func s) [NStruct [(0, NStr data)]] s)"

definition set_recv_func :: "int \<Rightarrow> interconn \<Rightarrow> interconn option" where
  "set_recv_func f s = map_option (\<lambda>s. s\<lparr>recv_func := f\<rparr>) (ic_remove (recv_func s) s)"

definition set_disconn_func :: "int \<Rightarrow> interconn \<Rightarrow> interconn option" where
  "set_disconn_func f s = map_option (\<lambda>s. s\<lparr>disconn_func := f\<rparr>) (ic_remove (disconn_func s) s)"

definition set_conn_func :: "ic_env \<Rightarrow> int \<Rightarrow> interconn \<Rightarrow> interconn option" where
  "set_conn_func E f s =
     Option.bind (ic_remove (conn_func s) s) (\<lambda>s.
     let s = s\<lparr>conn_func := f\<rparr> in
     if is_pending_connect s
     then map_option (\<lambda>s. s\<lparr>is_pending_connect := False\<rparr>) (InvokeConnect E True s)
     else Some s)"

definition set_error_func :: "ic_env \<Rightarrow> int \<Rightarrow> interconn \<Rightarrow> interconn option" where
  "set_error_func E f s =
     Option.bind (ic_remove (error_func s) s) (\<lambda>s.
     let s = s\<lparr>error_func := f\<rparr> in
     case err_info s of
       None \<Rightarrow> Some s
     | Some p \<Rightarrow> map_option (\<lambda>s. s\<lparr>err_info := None\<rparr>) (ic_invoke E f [error_arg p] s))"

section \<open>The link\<close>

definition miwear_connect_cb :: "ic_env \<Rightarrow> int \<Rightarrow> imessage \<Rightarrow> interconn \<Rightarrow> interconn option" where
  "miwear_connect_cb E status msg s =
     (if ic_dead s then
        Some (if msg = MStatus MIWEAR_STATUS_CONNECTION_CLOSED then s\<lparr>ic_miwear := False\<rparr> else s)
      else if status \<noteq> 0 then ProcessPendingDiagnosis E False s
      else case msg of
        MStatus n \<Rightarrow>
          (let old_status = ic_status s; s = s\<lparr>ic_status := n\<rparr>
           in if \<not> status_name_ok s then None
              else if n = MIWEAR_STATUS_CONNECT_FAILED then
                Option.bind (InvokeError E ''connect to app failed'' kUnknown s) (ProcessPendingDiagnosis E False)
              else if n = MIWEAR_STATUS_PHONE_CONNECTED then
                Option.bind (ProcessPendingDiagnosis E False s) (\<lambda>s.
                Option.bind (ProcessPendingSendTasks (send_tasks s) s)
                  (InvokeConnect E (IsConnecting_status old_status)))
              else if n = MIWEAR_STATUS_PHONE_DISCONNECTED then
                Option.bind (ProcessPendingDiagnosis E False s) (\<lambda>s.
                let s = s\<lparr>is_pending_connect := False\<rparr> in
                if IsConnecting_status old_status then InvokeError E ''connect to miwear server failed'' kDisconnect s
                else InvokeDisconnect E ''disconnect'' kUnknown s)
              else if n = MIWEAR_STATUS_PHONE_UNINSTALLED then
                Option.bind (ProcessPendingDiagnosis E False s) (InvokeDisconnect E ''phone app uninstalled'' kAppUninstall)
              else Some s)
      | MData data \<Rightarrow> InvokeRecv E data s
      | MOther \<Rightarrow> Some s)"

section \<open>The functions of the module\<close>

definition new_interconn :: "world \<Rightarrow> interconn" where
  "new_interconn w = \<lparr>ic_handle = None, ic_freed = False, ic_world = w, ic_status = MIWEAR_STATUS_CLIENT_INIT, ic_package = [],
     connect_send = False, is_pending_connect = False, send_tasks = [], ic_tasks = [], ic_timers = [], ic_inflight = [],
     diagnosis_timer = None, diagnosis_promise_id = kInvalidPromiseId, recv_func = 0, conn_func = 0, error_func = 0,
     disconn_func = 0, err_info = None, ic_dead = False, ic_miwear = True, ic_answers = []\<rparr>"

fun destroy_tasks :: "nat list \<Rightarrow> interconn \<Rightarrow> interconn option" where
  "destroy_tasks [] s = Some s"
| "destroy_tasks (i # is) s =
     (case ic_tasks s ! i of
        None \<Rightarrow> None
      | Some k \<Rightarrow>
          (let s1 = (case sk_timer k of
                       None \<Rightarrow> s
                     | Some t \<Rightarrow> s\<lparr>ic_timers := (ic_timers s)[t := \<lparr>tm_data = None, tm_running = False\<rparr>]\<rparr>)
           in destroy_tasks is (s1\<lparr>ic_tasks := (ic_tasks s1)[i := None]\<rparr>)))"

definition ic_destroy :: "interconn \<Rightarrow> interconn option" where
  "ic_destroy s =
     (let s1 = (if diagnosis_timer s = None then s
                else s\<lparr>diagnosis_timer := None, diagnosis_promise_id := kInvalidPromiseId\<rparr>)
      in map_option (\<lambda>s. s\<lparr>err_info := None, ic_dead := True\<rparr>) (destroy_tasks (send_tasks s1) s1))"

text \<open>\<open>shutdown\<close> takes the context away from the link and closes it.\<close>

definition system_interconnect_onDestroy :: "interconn \<Rightarrow> interconn option" where
  "system_interconnect_onDestroy s = ic_destroy s"

definition system_interconnect_onRequired :: "ic_env \<Rightarrow> string \<Rightarrow> interconn \<Rightarrow> interconn" where
  "system_interconnect_onRequired E pkg s = snd (ic_connect_link E (s\<lparr>ic_package := pkg\<rparr>))"

text \<open>
  \<open>t\<close> is the interface that is made on the first call; \<open>package\<close> is the member of the argument, \<open>None\<close> for
  a null argument. Later calls return the handle that is kept, whatever has become of it.
\<close>

definition system_interconnect_wrap_instance :: "ic_env \<Rightarrow> inst \<Rightarrow> string option \<Rightarrow> interconn \<Rightarrow> interconn option" where
  "system_interconnect_wrap_instance E t package s =
     (if ic_freed s then None
      else if ic_handle s \<noteq> None then Some s
      else
        (let s1 = (case package of None \<Rightarrow> s | Some p \<Rightarrow> s\<lparr>ic_package := p\<rparr>)
         in Some (snd (ic_connect_link E (s1\<lparr>ic_handle := Some t\<rparr>)))))"

definition ready_state :: "nat \<Rightarrow> 32 word" where
  "ready_state status = (if status = MIWEAR_STATUS_PHONE_CONNECTED then 1 else 2)"

definition MiwearConnect_getReadyState :: "ic_env \<Rightarrow> int \<Rightarrow> interconn \<Rightarrow> interconn option" where
  "MiwearConnect_getReadyState E pid s =
     (if \<not> status_name_ok s then None
      else with_object ''status'' (JInt (ready_state (ic_status s))) (\<lambda>v. ic_resolve E pid [v]) s)"

definition MiwearConnect_send :: "ic_env \<Rightarrow> int \<Rightarrow> jsval option \<Rightarrow> interconn \<Rightarrow> interconn option" where
  "MiwearConnect_send E pid data s =
     (let error = (\<lambda>st. ic_reject pid st (if st = kInvalidArgs then ''invalid args'' else ''pendingSendTask: unknown error''))
      in if IsConnected s then
           (case data of
              None \<Rightarrow> error kInvalidArgs s
            | Some obj \<Rightarrow>
                (case getMsg E obj of
                   Inl st \<Rightarrow> error st s
                 | Inr buffer \<Rightarrow> (let (i, s1) = CreateSendTask buffer pid s in SendMsg i s1)))
         else if IsConnecting s then
           (let (st, s1) = PendingSendTask E data pid s in if st \<noteq> kOk then error st s1 else Some s1)
         else ic_reject pid kDisconnect ''disconnect'' s)"

definition MiwearConnect_diagnosis :: "ic_env \<Rightarrow> int \<Rightarrow> int option \<Rightarrow> interconn \<Rightarrow> interconn option" where
  "MiwearConnect_diagnosis E pid param s =
     (let timeout = (case param of None \<Rightarrow> 10000 | Some t \<Rightarrow> t)
      in if IsConnecting s then
           (let (ret, s1) = PendingDiagnosis pid timeout s
            in if ret = kOk then Some s1
               else ic_reject pid kUnknown
                      (if ret = kInvalidArgs then ''timeout should be positive''
                       else if ret = kUnsupported then ''diag'' else ''pending diagnosis: unknown error'') s1)
         else ProcessDiagnosisResult E pid False s)"

definition MiwearConnect_getApkStatus :: "interconn \<Rightarrow> string" where
  "MiwearConnect_getApkStatus s =
     (if ic_status s = MIWEAR_STATUS_PHONE_CONNECTED then ''CONNECTED''
      else if ic_status s = MIWEAR_STATUS_PHONE_UNINSTALLED then ''UNINSTALLED''
      else ''DISCONNECTED'')"

text \<open>The interface object dies: its finalizer takes the context off it, not it off the context.\<close>

definition MiwearConnect_finalize :: "interconn \<Rightarrow> interconn" where
  "MiwearConnect_finalize s = (if ic_handle s = None then s else s\<lparr>ic_freed := True\<rparr>)"

section \<open>Runs\<close>

text \<open>
  Methods of the interface are called while it lives. \<open>IcLink\<close> is a call of the link's status callback, \<open>IcSent\<close> one of its send
  callback, \<open>IcTimer\<close> the end of a timer that runs, \<open>IcDiagTimer\<close> that of the diagnosis timer.
\<close>

datatype ic_op =
    IcRequired string
  | IcInstance inst "string option"
  | IcSend int "jsval option"
  | IcDiagnosis int "int option"
  | IcReadyState int
  | IcOnMessage int
  | IcOnOpen int
  | IcOnClose int
  | IcOnError int
  | IcLink int imessage
  | IcSent int nat
  | IcTimer nat
  | IcDiagTimer
  | IcFinalize
  | IcDestroy

definition on_interface :: "(interconn \<Rightarrow> interconn option) \<Rightarrow> interconn \<Rightarrow> interconn option" where
  "on_interface f s = (if ic_dead s \<or> ic_freed s \<or> ic_handle s = None then Some s else f s)"

fun ic_step :: "ic_env \<Rightarrow> ic_op \<Rightarrow> interconn \<Rightarrow> interconn option" where
  "ic_step E (IcRequired pkg) s = Some (if ic_dead s then s else system_interconnect_onRequired E pkg s)"
| "ic_step E (IcInstance t p) s = (if ic_dead s then Some s else system_interconnect_wrap_instance E t p s)"
| "ic_step E (IcSend pid data) s = on_interface (MiwearConnect_send E pid data) s"
| "ic_step E (IcDiagnosis pid param) s = on_interface (MiwearConnect_diagnosis E pid param) s"
| "ic_step E (IcReadyState pid) s = on_interface (MiwearConnect_getReadyState E pid) s"
| "ic_step E (IcOnMessage f) s = on_interface (set_recv_func f) s"
| "ic_step E (IcOnOpen f) s = on_interface (set_conn_func E f) s"
| "ic_step E (IcOnClose f) s = on_interface (set_disconn_func f) s"
| "ic_step E (IcOnError f) s = on_interface (set_error_func E f) s"
| "ic_step E (IcLink st msg) s = (if connect_send s \<and> ic_miwear s then miwear_connect_cb E st msg s else Some s)"
| "ic_step E (IcSent st i) s =
     (if i \<in> set (ic_inflight s) then miwear_send_cb E st i (s\<lparr>ic_inflight := remove1 i (ic_inflight s)\<rparr>) else Some s)"
| "ic_step E (IcTimer t) s =
     (if t < length (ic_timers s) \<and> tm_running (ic_timers s ! t) then timer_send_cb E t s else Some s)"
| "ic_step E IcDiagTimer s =
     (if diagnosis_timer s = Some True then ProcessPendingDiagnosis E True (s\<lparr>diagnosis_timer := Some False\<rparr>) else Some s)"
| "ic_step E IcFinalize s = Some (MiwearConnect_finalize s)"
| "ic_step E IcDestroy s = (if ic_dead s then Some s else system_interconnect_onDestroy s)"

end
