(* ===== verification/InterconnectProps.thy ===== *)
theory InterconnectProps
  imports Interconnect ConcreteEngine
begin

text \<open>
  The properties of the interconnect service: send tasks, their timers and the diagnosis call are never used after
  they are deleted and answered at most once, waiting messages are sent when the phone connects, and what happens
  when the interface of the script dies before the module does.
\<close>

section \<open>What the calls through the handle leave alone\<close>

abbreviation same_handle :: "inst option \<Rightarrow> interconn \<Rightarrow> bool" where
  "same_handle t s \<equiv> (t = None \<longleftrightarrow> ic_handle s = None)"

lemma handle_kept:
  "\<exists>r t w'. FeatureRemoveCallback h cid w = (r, t, w') \<and> (t = None \<longleftrightarrow> h = None)"
  "\<exists>r t w'. FeaturePromiseResolve e h pid ap w = (r, t, w') \<and> (t = None \<longleftrightarrow> h = None)"
  "\<exists>r t w'. FeaturePromiseReject h pid code msg w = (r, t, w') \<and> (t = None \<longleftrightarrow> h = None)"
  by (auto simp: FeatureRemoveCallback_def FeaturePromiseResolve_def FeaturePromiseReject_def usable_def Let_def
      split: prod.splits option.splits)

lemma ic_api:
  assumes "\<not> ic_freed s"
  shows "\<exists>w. ic_invoke E cid ap s = Some (s\<lparr>ic_world := w\<rparr>)"
    "\<exists>t w. ic_remove cid s = Some (s\<lparr>ic_handle := t, ic_world := w\<rparr>) \<and> same_handle t s"
    "\<exists>t w. ic_resolve E pid ap s = Some (s\<lparr>ic_handle := t, ic_world := w\<rparr>) \<and> same_handle t s"
    "\<exists>t w. ic_reject pid code msg s = Some (s\<lparr>ic_handle := t, ic_world := w\<rparr>) \<and> same_handle t s"
proof -
  show "\<exists>w. ic_invoke E cid ap s = Some (s\<lparr>ic_world := w\<rparr>)" using assms by (auto simp: ic_invoke_def)
  obtain r t w where r: "FeatureRemoveCallback (ic_handle s) cid (ic_world s) = (r, t, w)" "same_handle t s"
    using handle_kept(1) [of "ic_handle s" cid "ic_world s"] by (elim exE conjE) (rule that)
  show "\<exists>t w. ic_remove cid s = Some (s\<lparr>ic_handle := t, ic_world := w\<rparr>) \<and> same_handle t s"
  proof (rule exI [of _ t], rule exI [of _ w], rule conjI)
    show "ic_remove cid s = Some (s\<lparr>ic_handle := t, ic_world := w\<rparr>)" using r(1) assms by (simp add: ic_remove_def)
  qed (rule r(2))
  obtain r' t' w' where r': "FeaturePromiseResolve (ic_engine E) (ic_handle s) pid ap (ic_world s) = (r', t', w')" "same_handle t' s"
    using handle_kept(2) [of "ic_engine E" "ic_handle s" pid ap "ic_world s"] by (elim exE conjE) (rule that)
  show "\<exists>t w. ic_resolve E pid ap s = Some (s\<lparr>ic_handle := t, ic_world := w\<rparr>) \<and> same_handle t s"
  proof (rule exI [of _ t'], rule exI [of _ w'], rule conjI)
    show "ic_resolve E pid ap s = Some (s\<lparr>ic_handle := t', ic_world := w'\<rparr>)" using r'(1) assms by (simp add: ic_resolve_def)
  qed (rule r'(2))
  obtain q u v where q: "FeaturePromiseReject (ic_handle s) pid (status_code code) (Some msg) (ic_world s) = (q, u, v)" "same_handle u s"
    using handle_kept(3) [of "ic_handle s" pid "status_code code" "Some msg" "ic_world s"] by (elim exE conjE) (rule that)
  show "\<exists>t w. ic_reject pid code msg s = Some (s\<lparr>ic_handle := t, ic_world := w\<rparr>) \<and> same_handle t s"
  proof (rule exI [of _ u], rule exI [of _ v], rule conjI)
    show "ic_reject pid code msg s = Some (s\<lparr>ic_handle := u, ic_world := v\<rparr>)" using q(1) assms by (simp add: ic_reject_def)
  qed (rule q(2))
qed

lemma with_object_invoke:
  assumes "\<not> ic_freed s" "ic_handle s \<noteq> None"
  shows "\<exists>w. with_object key v (\<lambda>v. ic_invoke E cid [v]) s = Some (s\<lparr>ic_world := w\<rparr>)"
  using assms by (auto simp: with_object_def ic_invoke_def Let_def split: prod.splits)

lemma with_object_resolve:
  assumes "\<not> ic_freed s" "ic_handle s \<noteq> None"
  shows "\<exists>t w. with_object key v (\<lambda>v. ic_resolve E pid [v]) s = Some (s\<lparr>ic_handle := t, ic_world := w\<rparr>) \<and> t \<noteq> None"
proof -
  obtain obj w where o: "js_set_prop (JObject []) key v (js_new (JObject []) (ic_world s)) = (obj, w)" by (cases "js_set_prop (JObject []) key v (js_new (JObject []) (ic_world s))")
  obtain t w' where "ic_resolve E pid [NAny obj] (s\<lparr>ic_world := w\<rparr>) = Some (s\<lparr>ic_handle := t, ic_world := w'\<rparr>)" "t \<noteq> None"
    using ic_api(3) [of "s\<lparr>ic_world := w\<rparr>" E pid "[NAny obj]"] assms by auto
  then show ?thesis using assms o by (auto simp: with_object_def simp del: js_set_prop.simps)
qed

section \<open>The invariant\<close>

definition tasks_ok :: "interconn \<Rightarrow> bool" where
  "tasks_ok s \<longleftrightarrow> (if ic_dead s then live (ic_tasks s) = {} else distinct (send_tasks s) \<and> set (send_tasks s) = live (ic_tasks s))"

text \<open>A waiting task and its running timer know each other.\<close>

definition paired :: "send_task option list \<Rightarrow> send_timer list \<Rightarrow> bool" where
  "paired ks ts \<longleftrightarrow>
     (\<forall>i t. i \<in> live ks \<longrightarrow> sk_timer (the (ks ! i)) = Some t \<longrightarrow>
        t < length ts \<and> ts ! t = \<lparr>tm_data = Some i, tm_running = True\<rparr>) \<and>
     (\<forall>t < length ts. tm_running (ts ! t) \<longrightarrow>
        (\<exists>i \<in> live ks. tm_data (ts ! t) = Some i \<and> sk_timer (the (ks ! i)) = Some t))"

lemma paired_task: "paired ks ts \<Longrightarrow> i \<in> live ks \<Longrightarrow> ks ! i = Some k \<Longrightarrow> sk_timer k = Some t \<Longrightarrow>
    t < length ts \<and> ts ! t = \<lparr>tm_data = Some i, tm_running = True\<rparr>"
  by (force simp: paired_def)

lemma paired_timer: "paired ks ts \<Longrightarrow> t < length ts \<Longrightarrow> tm_running (ts ! t) \<Longrightarrow>
    \<exists>i k. i \<in> live ks \<and> ks ! i = Some k \<and> tm_data (ts ! t) = Some i \<and> sk_timer k = Some t"
  by (force simp: paired_def dest: liveD)

lemma paired_new: "paired ks ts \<Longrightarrow> sk_timer k = None \<Longrightarrow> paired (ks @ [Some k]) ts"
  by (auto simp: paired_def nth_append live_facts)

lemma paired_start:
  assumes "paired ks ts" "i \<in> live ks" "ks ! i = Some k'" "sk_timer k' = None" "sk_timer k = Some (length ts)"
  shows "paired (ks[i := Some k]) (ts @ [\<lparr>tm_data = Some i, tm_running = True\<rparr>])"
  using assms live_facts(3) [OF assms(2)]
  by (auto simp: paired_def nth_append nth_list_update less_Suc_eq; fastforce)

lemma paired_delete: "paired ks ts \<Longrightarrow> ks ! i = Some k \<Longrightarrow> sk_timer k = None \<Longrightarrow> paired (ks[i := None]) ts"
  by (auto simp: paired_def nth_list_update; fastforce)

lemma paired_close:
  assumes "paired ks ts" "i \<in> live ks" "ks ! i = Some k" "sk_timer k = Some t" "\<not> tm_running x"
  shows "paired (ks[i := None]) (ts[t := x])" "sk_timer k' = None \<Longrightarrow> paired (ks[i := Some k']) (ts[t := x])"
  using assms live_facts(3) [OF assms(2)] paired_task [OF assms(1-4)]
  by (auto simp: paired_def nth_list_update; fastforce)+

definition ic_answers_ok :: "interconn \<Rightarrow> bool" where
  "ic_answers_ok s \<longleftrightarrow> distinct (ic_answers s) \<and> (\<forall>i \<in> set (ic_answers s). i < length (ic_tasks s) \<and> i \<notin> live (ic_tasks s))"

definition diagnosis_ok :: "interconn \<Rightarrow> bool" where
  "diagnosis_ok s \<longleftrightarrow> (diagnosis_promise_id s \<noteq> kInvalidPromiseId \<longrightarrow> diagnosis_timer s \<noteq> None \<and> ic_handle s \<noteq> None) \<and>
     (ic_dead s \<longrightarrow> diagnosis_timer s = None)"

definition inflight_ok :: "interconn \<Rightarrow> bool" where
  "inflight_ok s \<longleftrightarrow> (\<forall>i \<in> set (ic_inflight s). i < length (ic_tasks s) \<and> (i \<in> live (ic_tasks s) \<longrightarrow> sk_timer (the (ic_tasks s ! i)) = None))"

definition icinv :: "interconn \<Rightarrow> bool" where
  "icinv s \<longleftrightarrow> \<not> ic_freed s \<and> ic_status s < 8 \<and> tasks_ok s \<and> paired (ic_tasks s) (ic_timers s) \<and> ic_answers_ok s \<and>
     diagnosis_ok s \<and> inflight_ok s"

lemmas ic_parts = tasks_ok_def ic_answers_ok_def diagnosis_ok_def inflight_ok_def

lemma icinvD:
  assumes "icinv s"
  shows "\<not> ic_freed s" "ic_status s < 8" "tasks_ok s" "paired (ic_tasks s) (ic_timers s)" "ic_answers_ok s" "diagnosis_ok s" "inflight_ok s"
  using assms by (simp_all add: icinv_def)

lemma icinv_calls [simp]:
  "icinv (s\<lparr>ic_world := w\<rparr>) = icinv s"
  "icinv (s\<lparr>recv_func := f\<rparr>) = icinv s" "icinv (s\<lparr>conn_func := f\<rparr>) = icinv s" "icinv (s\<lparr>disconn_func := f\<rparr>) = icinv s"
  "icinv (s\<lparr>error_func := f\<rparr>) = icinv s" "icinv (s\<lparr>err_info := e\<rparr>) = icinv s" "icinv (s\<lparr>is_pending_connect := b\<rparr>) = icinv s"
  "icinv (s\<lparr>ic_package := p\<rparr>) = icinv s" "icinv (s\<lparr>connect_send := b\<rparr>) = icinv s" "icinv (s\<lparr>ic_miwear := b\<rparr>) = icinv s"
  by (simp_all add: icinv_def ic_parts)

lemma icinv_handle: "icinv s \<Longrightarrow> same_handle t s \<Longrightarrow> icinv (s\<lparr>ic_handle := t\<rparr>)" "icinv s \<Longrightarrow> icinv (s\<lparr>ic_handle := Some u\<rparr>)"
  by (simp_all add: icinv_def ic_parts)

lemma icinv_status: "icinv s \<Longrightarrow> n < 8 \<Longrightarrow> icinv (s\<lparr>ic_status := n\<rparr>)"
  by (simp add: icinv_def ic_parts)

text \<open>The operations that only call the script keep the invariant.\<close>

lemma ic_safe:
  assumes "icinv s"
  shows "\<exists>s'. ic_invoke E cid ap s = Some s' \<and> icinv s' \<and> ic_handle s' = ic_handle s"
    "\<exists>s'. ic_remove cid s = Some s' \<and> icinv s' \<and> same_handle (ic_handle s') s"
    "\<exists>s'. ic_resolve E pid ap s = Some s' \<and> icinv s'" "\<exists>s'. ic_reject pid code msg s = Some s' \<and> icinv s'"
  using ic_api(1) [OF icinvD(1) [OF assms], of E cid ap] ic_api(2) [OF icinvD(1) [OF assms], of cid]
    ic_api(3) [OF icinvD(1) [OF assms], of E pid ap] ic_api(4) [OF icinvD(1) [OF assms], of pid code msg] assms icinv_handle(1) [OF assms]
  by auto

lemma invoke_safe:
  assumes "icinv s"
  shows "\<exists>s'. InvokeError E msg code s = Some s' \<and> icinv s'" "\<exists>s'. InvokeConnect E b s = Some s' \<and> icinv s'"
    "\<exists>s'. InvokeDisconnect E msg code s = Some s' \<and> icinv s'" "\<exists>s'. InvokeRecv E data s = Some s' \<and> icinv s'"
proof -
  show "\<exists>s'. InvokeError E msg code s = Some s' \<and> icinv s'" "\<exists>s'. InvokeDisconnect E msg code s = Some s' \<and> icinv s'"
    "\<exists>s'. InvokeRecv E data s = Some s' \<and> icinv s'"
    using ic_safe(1) [OF assms] assms by (fastforce simp: InvokeError_def InvokeDisconnect_def InvokeRecv_def)+
  show "\<exists>s'. InvokeConnect E b s = Some s' \<and> icinv s'"
    using with_object_invoke [OF icinvD(1) [OF assms], of "''isReconnected''" "JBool b" E "conn_func s"] assms icinvD(1) [OF assms]
    by (auto simp: InvokeConnect_def)
qed

lemma set_func_safe:
  assumes "icinv s"
  shows "\<exists>s'. set_recv_func f s = Some s' \<and> icinv s'" "\<exists>s'. set_disconn_func f s = Some s' \<and> icinv s'"
    "\<exists>s'. set_conn_func E f s = Some s' \<and> icinv s'" "\<exists>s'. set_error_func E f s = Some s' \<and> icinv s'"
proof -
  show "\<exists>s'. set_recv_func f s = Some s' \<and> icinv s'" using ic_safe(2) [OF assms, of "recv_func s"] by (auto simp: set_recv_func_def)
  show "\<exists>s'. set_disconn_func f s = Some s' \<and> icinv s'" using ic_safe(2) [OF assms, of "disconn_func s"] by (auto simp: set_disconn_func_def)
  obtain s1 where s1: "ic_remove (conn_func s) s = Some s1" "icinv s1" using ic_safe(2) [OF assms] by blast
  obtain s2 where "InvokeConnect E True (s1\<lparr>conn_func := f\<rparr>) = Some s2" "icinv s2"
    using invoke_safe(2) [of "s1\<lparr>conn_func := f\<rparr>"] s1(2) by auto
  then show "\<exists>s'. set_conn_func E f s = Some s' \<and> icinv s'" using s1 by (simp add: set_conn_func_def Let_def)
  obtain s3 where s3: "ic_remove (error_func s) s = Some s3" "icinv s3" using ic_safe(2) [OF assms] by blast
  obtain p where p: "\<And>x. err_info s3 = Some x \<Longrightarrow> p = x" by (cases "err_info s3") auto
  obtain s4 where "ic_invoke E f [error_arg p] (s3\<lparr>error_func := f\<rparr>) = Some s4" "icinv s4"
    using ic_safe(1) [of "s3\<lparr>error_func := f\<rparr>" E f "[error_arg p]"] s3(2) by auto
  then show "\<exists>s'. set_error_func E f s = Some s' \<and> icinv s'" using s3 p by (auto simp: set_error_func_def Let_def split: option.splits)
qed

section \<open>Diagnosis\<close>

lemma diagnosis_result_safe:
  assumes "icinv s" "ic_handle s \<noteq> None"
  shows "\<exists>t w. ProcessDiagnosisResult E pid b s = Some (s\<lparr>ic_handle := t, ic_world := w\<rparr>) \<and> t \<noteq> None"
  using with_object_resolve [OF icinvD(1) [OF assms(1)] assms(2)] by (simp add: ProcessDiagnosisResult_def)

lemma pending_diagnosis_safe:
  assumes "icinv s"
  shows "\<exists>s'. ProcessPendingDiagnosis E b s = Some s' \<and> icinv s' \<and> ic_status s' = ic_status s \<and> send_tasks s' = send_tasks s \<and>
    ic_tasks s' = ic_tasks s \<and> ic_timers s' = ic_timers s \<and> ic_inflight s' = ic_inflight s \<and> ic_dead s' = ic_dead s"
proof (cases "diagnosis_promise_id s = kInvalidPromiseId")
  case False
  let ?s = "s\<lparr>diagnosis_timer := Some False\<rparr>"
  have h: "ic_handle s \<noteq> None" "diagnosis_timer s \<noteq> None" using icinvD(6) [OF assms] False by (simp_all add: diagnosis_ok_def)
  then have nd: "\<not> ic_dead s" using icinvD(6) [OF assms] by (auto simp: diagnosis_ok_def)
  then have "icinv ?s" using assms by (simp add: icinv_def ic_parts)
  from diagnosis_result_safe [OF this, of E "diagnosis_promise_id s" b] h(1) obtain t w where
    "ProcessDiagnosisResult E (diagnosis_promise_id s) b ?s = Some (?s\<lparr>ic_handle := t, ic_world := w\<rparr>)" by auto
  then show ?thesis using assms False h(2) nd by (simp add: ProcessPendingDiagnosis_def icinv_def ic_parts)
qed (use assms in \<open>simp add: ProcessPendingDiagnosis_def\<close>)

section \<open>Send tasks\<close>

lemma create_task_inv:
  assumes "icinv s" "\<not> ic_dead s"
  shows "icinv (snd (CreateSendTask msg pid s))"
  using icinvD(1-2,6) [OF assms(1)] icinvD(3,5,7) [OF assms(1)] assms(2) paired_new [OF icinvD(4) [OF assms(1)]] live_facts(1) [of "ic_tasks s"]
  by (auto simp: CreateSendTask_def icinv_def ic_parts nth_append)

lemma start_timer_inv:
  assumes "icinv s" "i \<in> live (ic_tasks s)" "ic_tasks s ! i = Some k'" "sk_timer k' = None" "i \<notin> set (ic_inflight s)"
  shows "icinv (s\<lparr>ic_timers := ic_timers s @ [\<lparr>tm_data = Some i, tm_running = True\<rparr>],
    ic_tasks := (ic_tasks s)[i := Some \<lparr>sk_msg = b, sk_timer = Some (length (ic_timers s)), sk_pid = pid\<rparr>]\<rparr>)"
  using assms live_facts(3) [OF assms(2)] icinvD [OF assms(1)] paired_start [OF icinvD(4) [OF assms(1)] assms(2-4)]
  by (auto simp: icinv_def ic_parts nth_list_update)

lemma send_msg_inv:
  assumes "icinv s" "i \<in> live (ic_tasks s)" "ic_tasks s ! i = Some k" "sk_timer k = None" "IsConnected s"
  shows "SendMsg i s = Some (s\<lparr>ic_inflight := ic_inflight s @ [i]\<rparr>)" "icinv (s\<lparr>ic_inflight := ic_inflight s @ [i]\<rparr>)"
  using assms live_facts(3) [OF assms(2)] by (auto simp: SendMsg_def icinv_def ic_parts)

lemma stop_timer_inv:
  assumes "icinv s" "i \<in> live (ic_tasks s)" "ic_tasks s ! i = Some k" "sk_timer k = Some t"
  shows "icinv ((close_timer t s)\<lparr>ic_tasks := (ic_tasks s)[i := Some (k\<lparr>sk_timer := None\<rparr>)]\<rparr>)"
  using assms live_facts(3) [OF assms(2)] icinvD [OF assms(1)] paired_close(2) [OF icinvD(4) [OF assms(1)] assms(2-4)]
  by (auto simp: close_timer_def icinv_def ic_parts nth_list_update)

text \<open>Sending what waits: each task of the list that has a timer goes to the link, in the order of the list.\<close>

definition waiting :: "interconn \<Rightarrow> nat \<Rightarrow> bool" where
  "waiting s i \<longleftrightarrow> sk_timer (the (ic_tasks s ! i)) \<noteq> None"

lemma pending_send_safe:
  assumes "icinv s" "IsConnected s" "set is \<subseteq> live (ic_tasks s)" "distinct is"
  shows "\<exists>s'. ProcessPendingSendTasks is s = Some s' \<and> icinv s' \<and> ic_inflight s' = ic_inflight s @ filter (waiting s) is \<and>
    (\<forall>i \<in> set is. \<not> waiting s' i) \<and> (\<forall>i. i \<notin> set is \<longrightarrow> ic_tasks s' ! i = ic_tasks s ! i) \<and>
    send_tasks s' = send_tasks s \<and> live (ic_tasks s') = live (ic_tasks s) \<and> ic_handle s' = ic_handle s \<and> ic_world s' = ic_world s \<and>
    ic_status s' = ic_status s"
  using assms
proof (induction "is" arbitrary: s)
  case (Cons i "is")
  obtain k where k: "ic_tasks s ! i = Some k" "i \<in> live (ic_tasks s)" using Cons.prems(3) liveD [of i "ic_tasks s"] by auto
  show ?case
  proof (cases "sk_timer k")
    case None
    obtain s' where s': "ProcessPendingSendTasks is s = Some s'" "icinv s'" "ic_inflight s' = ic_inflight s @ filter (waiting s) is"
      "\<forall>i \<in> set is. \<not> waiting s' i" "\<forall>i. i \<notin> set is \<longrightarrow> ic_tasks s' ! i = ic_tasks s ! i"
      "send_tasks s' = send_tasks s" "live (ic_tasks s') = live (ic_tasks s)" "ic_handle s' = ic_handle s" "ic_world s' = ic_world s"
      "ic_status s' = ic_status s"
      using Cons.IH [OF Cons.prems(1,2)] Cons.prems(3,4) by auto
    have "\<not> waiting s i" "\<not> waiting s' i" using s'(5) Cons.prems(4) k(1) None by (simp_all add: waiting_def)
    then show ?thesis using k(1) None s' by simp
  next
    case (Some t)
    define s1 where "s1 = (close_timer t s)\<lparr>ic_tasks := (ic_tasks s)[i := Some (k\<lparr>sk_timer := None\<rparr>)]\<rparr>"
    have i1: "icinv s1" unfolding s1_def by (rule stop_timer_inv [OF Cons.prems(1) k(2,1) Some])
    have f: "ic_tasks s1 = (ic_tasks s)[i := Some (k\<lparr>sk_timer := None\<rparr>)]" "live (ic_tasks s1) = live (ic_tasks s)" "ic_inflight s1 = ic_inflight s"
      "IsConnected s1" "send_tasks s1 = send_tasks s" "ic_handle s1 = ic_handle s" "ic_world s1 = ic_world s" "ic_status s1 = ic_status s"
      using k(2) Cons.prems(2) by (simp_all add: s1_def close_timer_def IsConnected_def)
    have ki: "ic_tasks s1 ! i = Some (k\<lparr>sk_timer := None\<rparr>)" using live_facts(3) [OF k(2)] by (simp add: f(1))
    define s2 where "s2 = s1\<lparr>ic_inflight := ic_inflight s1 @ [i]\<rparr>"
    have sm: "SendMsg i s1 = Some s2" "icinv s2"
      using send_msg_inv [OF i1 _ ki _ f(4)] k(2) f(2) by (simp_all add: s2_def)
    have g: "ic_tasks s2 = ic_tasks s1" "IsConnected s2" "set is \<subseteq> live (ic_tasks s2)"
      using f(2,4) Cons.prems(3) by (simp_all add: s2_def IsConnected_def)
    obtain s' where s': "ProcessPendingSendTasks is s2 = Some s'" "icinv s'" "ic_inflight s' = ic_inflight s2 @ filter (waiting s2) is"
      "\<forall>i \<in> set is. \<not> waiting s' i" "\<forall>i. i \<notin> set is \<longrightarrow> ic_tasks s' ! i = ic_tasks s2 ! i"
      "send_tasks s' = send_tasks s2" "live (ic_tasks s') = live (ic_tasks s2)" "ic_handle s' = ic_handle s2" "ic_world s' = ic_world s2"
      "ic_status s' = ic_status s2"
      using Cons.IH [OF sm(2) g(2,3)] Cons.prems(4) by auto
    have other: "ic_tasks s2 ! j = ic_tasks s ! j" if "j \<noteq> i" for j using that by (simp add: g(1) f(1))
    have "waiting s2 j = waiting s j" if "j \<in> set is" for j
    proof -
      have "j \<noteq> i" using Cons.prems(4) that by auto
      then show ?thesis using other by (simp add: waiting_def)
    qed
    then have w: "waiting s i" "filter (waiting s2) is = filter (waiting s) is"
      using k(1) Some by (simp_all add: waiting_def cong: filter_cong)
    have "\<not> waiting s' i" using s'(5) Cons.prems(4) ki g(1) by (simp add: waiting_def)
    moreover have "ProcessPendingSendTasks (i # is) s = Some s'" using k(1) Some sm(1) s'(1) by (simp add: s1_def)
    ultimately show ?thesis using s' w f other by (simp add: s2_def)
  qed
qed simp

text \<open>A result: the promise is settled, the task deleted.\<close>

lemma send_result:
  assumes "icinv s" "i \<in> set (send_tasks s)" "\<not> ic_dead s"
  shows "\<exists>t w. ProcessSendResult E i r s = Some (s\<lparr>send_tasks := remove1 i (send_tasks s), ic_answers := ic_answers s @ [i],
      ic_handle := t, ic_world := w, ic_tasks := (ic_tasks s)[i := None]\<rparr>) \<and> same_handle t s"
proof -
  let ?s = "s\<lparr>send_tasks := remove1 i (send_tasks s), ic_answers := ic_answers s @ [i]\<rparr>"
  obtain k where k: "ic_tasks s ! i = Some k" using icinvD(3) [OF assms(1)] assms(2,3) liveD [of i "ic_tasks s"] by (auto simp: tasks_ok_def)
  have nf: "\<not> ic_freed ?s" using icinvD(1) [OF assms(1)] by simp
  have "\<exists>t w. (case r of SendOk \<Rightarrow> ic_resolve E (sk_pid k) [] ?s | SendTimeout \<Rightarrow> ic_reject (sk_pid k) kTimeout ''send timeout'' ?s
      | SendFailed \<Rightarrow> ic_reject (sk_pid k) kDisconnect ''connection broken'' ?s) = Some (?s\<lparr>ic_handle := t, ic_world := w\<rparr>) \<and> same_handle t s"
    using ic_api(3) [OF nf, of E "sk_pid k" "[]"] ic_api(4) [OF nf, of "sk_pid k"] by (cases r) simp_all
  then obtain t w where "(case r of SendOk \<Rightarrow> ic_resolve E (sk_pid k) [] ?s | SendTimeout \<Rightarrow> ic_reject (sk_pid k) kTimeout ''send timeout'' ?s
      | SendFailed \<Rightarrow> ic_reject (sk_pid k) kDisconnect ''connection broken'' ?s) = Some (?s\<lparr>ic_handle := t, ic_world := w\<rparr>)" "same_handle t s"
    by (elim exE conjE) (rule that)
  then show ?thesis using assms(2) k by (intro exI [of _ t] exI [of _ w]) (simp add: ProcessSendResult_def Let_def)
qed

text \<open>Deleting a task whose timer, if it has one, is stopped as well.\<close>

lemma delete_task_inv:
  assumes "icinv s" "i \<in> set (send_tasks s)" "\<not> ic_dead s" "same_handle t s" "paired ((ic_tasks s)[i := None]) ts"
  shows "icinv (s\<lparr>send_tasks := remove1 i (send_tasks s), ic_answers := ic_answers s @ [i], ic_handle := t, ic_world := w,
    ic_tasks := (ic_tasks s)[i := None], ic_timers := ts\<rparr>)"
proof -
  have "i \<in> live (ic_tasks s)" using icinvD(3) [OF assms(1)] assms(2,3) by (simp add: tasks_ok_def)
  then have "i \<notin> set (ic_answers s)" "i < length (ic_tasks s)" using icinvD(5) [OF assms(1)] live_facts(3) by (auto simp: ic_answers_ok_def)
  then show ?thesis using assms icinvD [OF assms(1)] by (auto simp: icinv_def ic_parts nth_list_update)
qed

lemma send_cb_safe:
  assumes "icinv s" "i \<in> set (ic_inflight s)"
  shows "\<exists>s'. miwear_send_cb E st i (s\<lparr>ic_inflight := remove1 i (ic_inflight s)\<rparr>) = Some s' \<and> icinv s'"
proof -
  let ?s = "s\<lparr>ic_inflight := remove1 i (ic_inflight s)\<rparr>" and ?r = "if st = 0 then SendOk else SendFailed"
  have inv: "icinv ?s" using assms(1) set_remove1_subset [of i "ic_inflight s"] by (auto simp: icinv_def ic_parts)
  show ?thesis
  proof (cases "ic_dead s \<or> i \<notin> set (send_tasks s)")
    case True
    then show ?thesis using inv by (auto simp: miwear_send_cb_def ProcessSendResult_def)
  next
    case False
    then have l: "i \<in> live (ic_tasks s)" using icinvD(3) [OF assms(1)] by (simp add: tasks_ok_def)
    then obtain k where k: "ic_tasks s ! i = Some k" using liveD by blast
    have "sk_timer k = None" using icinvD(7) [OF assms(1)] assms(2) l k by (auto simp: inflight_ok_def)
    then have p: "paired ((ic_tasks s)[i := None]) (ic_timers s)" using paired_delete [OF icinvD(4) [OF assms(1)] k] by simp
    obtain t w where r: "ProcessSendResult E i ?r ?s = Some (?s\<lparr>send_tasks := remove1 i (send_tasks s), ic_answers := ic_answers s @ [i],
      ic_handle := t, ic_world := w, ic_tasks := (ic_tasks s)[i := None]\<rparr>)" "same_handle t s"
      using send_result [OF inv, of i E ?r] False by auto
    show ?thesis using delete_task_inv [OF inv, of i t "ic_timers s" w] False r p by (auto simp: miwear_send_cb_def)
  qed
qed

lemma timer_cb_safe:
  assumes "icinv s" "t < length (ic_timers s)" "tm_running (ic_timers s ! t)"
  shows "\<exists>s'. timer_send_cb E t s = Some s' \<and> icinv s'"
proof -
  obtain i k where k: "i \<in> live (ic_tasks s)" "ic_tasks s ! i = Some k" "tm_data (ic_timers s ! t) = Some i" "sk_timer k = Some t"
    using paired_timer [OF icinvD(4) [OF assms(1)] assms(2,3)] by blast
  have a: "\<not> ic_dead s" "i \<in> set (send_tasks s)" using icinvD(3) [OF assms(1)] k(1) by (auto simp: tasks_ok_def split: if_splits)
  obtain h w where r: "ProcessSendResult E i SendTimeout s = Some (s\<lparr>send_tasks := remove1 i (send_tasks s), ic_answers := ic_answers s @ [i],
      ic_handle := h, ic_world := w, ic_tasks := (ic_tasks s)[i := None]\<rparr>)" "same_handle h s"
    using send_result [OF assms(1) a(2,1), of E SendTimeout] by (elim exE conjE) (rule that)
  have "paired ((ic_tasks s)[i := None]) ((ic_timers s)[t := (ic_timers s ! t)\<lparr>tm_running := False\<rparr>])"
    by (rule paired_close(1) [OF icinvD(4) [OF assms(1)] k(1,2,4)]) simp
  from delete_task_inv [OF assms(1) a(2,1) r(2) this, of w] show ?thesis
    using r(1) k by (simp add: timer_send_cb_def close_timer_def)
qed

section \<open>Steps\<close>

lemma link_safe:
  assumes "icinv s" "\<And>n. msg = MStatus n \<Longrightarrow> n < 8"
  shows "\<exists>s'. miwear_connect_cb E st msg s = Some s' \<and> icinv s'"
proof (cases "ic_dead s \<or> st \<noteq> 0")
  case True
  then show ?thesis using assms(1) pending_diagnosis_safe [OF assms(1), of E False] by (auto simp: miwear_connect_cb_def)
next
  case False
  show ?thesis
  proof (cases msg)
    case (MData data)
    then show ?thesis using False invoke_safe(4) [OF assms(1)] by (simp add: miwear_connect_cb_def)
  next
    case (MStatus n)
    define s1 where "s1 = s\<lparr>ic_status := n\<rparr>"
    have n: "status_name_ok s1" "ic_status s1 = n" "send_tasks s1 = send_tasks s" "ic_dead s1 = ic_dead s"
      using assms(2) [OF MStatus] by (simp_all add: s1_def status_name_ok_def)
    have i1: "icinv s1" using icinv_status [OF assms(1) assms(2) [OF MStatus]] by (simp add: s1_def)
    obtain s2 where s2: "ProcessPendingDiagnosis E False s1 = Some s2" "icinv s2" "ic_status s2 = n" "send_tasks s2 = send_tasks s1"
      "ic_dead s2 = ic_dead s"
      using pending_diagnosis_safe [OF i1, of E False] n by auto
    obtain s3 where s3: "InvokeError E ''connect to app failed'' kUnknown s1 = Some s3" "icinv s3" using invoke_safe(1) [OF i1] by blast
    obtain s4 where s4: "ProcessPendingDiagnosis E False s3 = Some s4" "icinv s4" using pending_diagnosis_safe [OF s3(2)] by blast
    have conn: "\<exists>s5. ProcessPendingSendTasks (send_tasks s2) s2 = Some s5 \<and> icinv s5" if "n = MIWEAR_STATUS_PHONE_CONNECTED"
    proof -
      have "IsConnected s2" using s2(3) that by (simp add: IsConnected_def)
      moreover have "set (send_tasks s2) \<subseteq> live (ic_tasks s2)" "distinct (send_tasks s2)"
        using icinvD(3) [OF s2(2)] s2(5) False by (simp_all add: tasks_ok_def)
      ultimately show ?thesis using pending_send_safe [OF s2(2)] by blast
    qed
    have i6: "icinv (s2\<lparr>is_pending_connect := False\<rparr>)" using s2(2) by simp
    have cb: "miwear_connect_cb E st msg s =
       (if n = MIWEAR_STATUS_CONNECT_FAILED then Some s4
        else if n = MIWEAR_STATUS_PHONE_CONNECTED then
          Option.bind (ProcessPendingSendTasks (send_tasks s2) s2) (InvokeConnect E (IsConnecting_status (ic_status s)))
        else if n = MIWEAR_STATUS_PHONE_DISCONNECTED then
          (if IsConnecting_status (ic_status s)
           then InvokeError E ''connect to miwear server failed'' kDisconnect (s2\<lparr>is_pending_connect := False\<rparr>)
           else InvokeDisconnect E ''disconnect'' kUnknown (s2\<lparr>is_pending_connect := False\<rparr>))
        else if n = MIWEAR_STATUS_PHONE_UNINSTALLED then InvokeDisconnect E ''phone app uninstalled'' kAppUninstall s2
        else Some s1)"
      using False MStatus n(1) s2(1) s3(1) s4(1) by (simp add: miwear_connect_cb_def Let_def s1_def [symmetric])
    consider "n = MIWEAR_STATUS_PHONE_CONNECTED" | "n \<noteq> MIWEAR_STATUS_PHONE_CONNECTED" by blast
    then show ?thesis
    proof cases
      case 1
      obtain s5 where s5: "ProcessPendingSendTasks (send_tasks s2) s2 = Some s5" "icinv s5" using conn [OF 1] by blast
      have "n \<noteq> MIWEAR_STATUS_CONNECT_FAILED" using 1 by (simp add: miwear_status_defs)
      then show ?thesis unfolding cb using 1 s5(1) invoke_safe(2) [OF s5(2)] by simp
    next
      case 2
      then show ?thesis unfolding cb
        using i1 s2(2) s4(2) invoke_safe(1,3) [OF i6] invoke_safe(3) [OF s2(2)] by simp
    qed
  qed (use False assms(1) in \<open>simp add: miwear_connect_cb_def\<close>)
qed

lemma send_safe:
  assumes "icinv s" "\<not> ic_dead s"
  shows "\<exists>s'. MiwearConnect_send E pid data s = Some s' \<and> icinv s'"
proof -
  have rej: "\<exists>s'. ic_reject pid st msg s = Some s' \<and> icinv s'" for st msg by (rule ic_safe(4) [OF assms(1)])
  have ok: ?thesis if d: "data = Some obj" "getMsg E obj = Inr b" for obj b
  proof -
    define s1 i where "s1 = snd (CreateSendTask b pid s)" and i: "i = length (ic_tasks s)"
    have cr: "CreateSendTask b pid s = (i, s1)" and f: "ic_tasks s1 = ic_tasks s @ [Some \<lparr>sk_msg = b, sk_timer = None, sk_pid = pid\<rparr>]"
      "ic_inflight s1 = ic_inflight s" "IsConnected s1 = IsConnected s"
      by (simp_all add: s1_def i CreateSendTask_def IsConnected_def)
    have i1: "icinv s1" unfolding s1_def by (rule create_task_inv [OF assms])
    have t: "ic_tasks s1 ! i = Some \<lparr>sk_msg = b, sk_timer = None, sk_pid = pid\<rparr>" "i \<in> live (ic_tasks s1)" by (simp_all add: f i)
    have "i \<notin> set (ic_inflight s1)" using icinvD(7) [OF assms(1)] by (auto simp: f(2) i inflight_ok_def)
    from start_timer_inv [OF i1 t(2,1) _ this, of b pid]
    have "icinv (snd (PendingSendTask E data pid s))" "fst (PendingSendTask E data pid s) = kOk" using d cr by (simp_all add: PendingSendTask_def Let_def)
    moreover have "\<exists>s'. SendMsg i s1 = Some s' \<and> icinv s'" if "IsConnected s"
      using send_msg_inv [OF i1 t(2,1)] that f(3) by auto
    ultimately show ?thesis using rej [of kDisconnect "''disconnect''"] d cr by (simp add: MiwearConnect_send_def Let_def split_beta)
  qed
  show ?thesis
  proof (cases data)
    case None
    then show ?thesis using rej by (simp add: MiwearConnect_send_def PendingSendTask_def)
  next
    case (Some obj)
    then show ?thesis
    proof (cases "getMsg E obj")
      case (Inl e)
      then have "e = kInvalidArgs" by (auto simp: getMsg_def split: if_splits option.splits)
      then show ?thesis using rej Some Inl by (simp add: MiwearConnect_send_def PendingSendTask_def)
    qed (use ok Some in blast)
  qed
qed

lemma diagnosis_safe:
  assumes "icinv s" "\<not> ic_dead s" "ic_handle s \<noteq> None"
  shows "\<exists>s'. MiwearConnect_diagnosis E pid param s = Some s' \<and> icinv s'"
proof -
  define tm where "tm = (case param of None \<Rightarrow> 10000 | Some t \<Rightarrow> t)"
  have p: "icinv (snd (PendingDiagnosis pid tm s))" using assms by (auto simp: PendingDiagnosis_def icinv_def ic_parts)
  obtain t w where "ProcessDiagnosisResult E pid False s = Some (s\<lparr>ic_handle := t, ic_world := w\<rparr>)" "t \<noteq> None"
    using diagnosis_result_safe [OF assms(1,3), of E pid False] by (elim exE conjE) (rule that)
  moreover from this(2) have "icinv (s\<lparr>ic_handle := t, ic_world := w\<rparr>)" using assms(1,3) icinv_handle(1) [of s t] by auto
  ultimately show ?thesis using p ic_safe(4) [OF p, of pid kUnknown]
    by (simp add: MiwearConnect_diagnosis_def tm_def [symmetric] Let_def split_beta)
qed

lemma ready_state_safe:
  assumes "icinv s" "ic_handle s \<noteq> None"
  shows "\<exists>s'. MiwearConnect_getReadyState E pid s = Some s' \<and> icinv s'"
proof -
  obtain t w where "with_object ''status'' (JInt (ready_state (ic_status s))) (\<lambda>v. ic_resolve E pid [v]) s = Some (s\<lparr>ic_handle := t, ic_world := w\<rparr>)" "t \<noteq> None"
    using with_object_resolve [OF icinvD(1) [OF assms(1)] assms(2), of "''status''" "JInt (ready_state (ic_status s))" E pid] by (elim exE conjE) (rule that)
  moreover from this(2) have "icinv (s\<lparr>ic_handle := t, ic_world := w\<rparr>)" using assms icinv_handle(1) [of s t] by auto
  ultimately show ?thesis using icinvD(2) [OF assms(1)] by (simp add: MiwearConnect_getReadyState_def status_name_ok_def)
qed

lemma destroy_tasks_ok:
  assumes "paired (ic_tasks s) (ic_timers s)" "set is = live (ic_tasks s)" "distinct is"
  shows "\<exists>ks ts. destroy_tasks is s = Some (s\<lparr>ic_tasks := ks, ic_timers := ts\<rparr>) \<and> paired ks ts \<and> live ks = {} \<and> length ks = length (ic_tasks s)"
  using assms
proof (induction "is" arbitrary: s)
  case Nil
  then show ?case by (intro exI [of _ "ic_tasks s"] exI [of _ "ic_timers s"]) auto
next
  case (Cons i "is")
  have l: "i \<in> live (ic_tasks s)" using Cons.prems(2) by auto
  then obtain k where k: "ic_tasks s ! i = Some k" using liveD by blast
  define s1 where "s1 = (case sk_timer k of None \<Rightarrow> s | Some t \<Rightarrow> s\<lparr>ic_timers := (ic_timers s)[t := \<lparr>tm_data = None, tm_running = False\<rparr>]\<rparr>)"
  let ?s = "s1\<lparr>ic_tasks := (ic_tasks s1)[i := None]\<rparr>"
  have f: "ic_tasks s1 = ic_tasks s" "s1 = s\<lparr>ic_timers := ic_timers s1\<rparr>" by (simp_all add: s1_def split: option.splits)
  have "paired (ic_tasks ?s) (ic_timers ?s)"
    using paired_delete [OF Cons.prems(1) k] paired_close(1) [OF Cons.prems(1) l k] by (simp add: s1_def split: option.splits)
  moreover have "set is = live (ic_tasks ?s)" using Cons.prems(2,3) by (auto simp: f(1))
  ultimately obtain ks ts where
    r: "destroy_tasks is ?s = Some (?s\<lparr>ic_tasks := ks, ic_timers := ts\<rparr>)" "paired ks ts" "live ks = {}" "length ks = length (ic_tasks ?s)"
    using Cons.IH [of ?s] Cons.prems(3) by (metis distinct.simps(2))
  have "?s\<lparr>ic_tasks := ks, ic_timers := ts\<rparr> = s\<lparr>ic_tasks := ks, ic_timers := ts\<rparr>" by (subst f(2)) simp
  then show ?case using k r f(1) by (intro exI [of _ ks] exI [of _ ts]) (simp add: s1_def [symmetric])
qed

lemma destroy_safe:
  assumes "icinv s" "\<not> ic_dead s"
  shows "\<exists>s'. ic_destroy s = Some s' \<and> icinv s' \<and> ic_dead s' \<and> live (ic_tasks s') = {}"
proof -
  define s1 where "s1 = (if diagnosis_timer s = None then s else s\<lparr>diagnosis_timer := None, diagnosis_promise_id := kInvalidPromiseId\<rparr>)"
  have i1: "icinv s1" "diagnosis_timer s1 = None" "\<not> ic_dead s1" using assms by (auto simp: s1_def icinv_def ic_parts)
  obtain ks ts where d: "destroy_tasks (send_tasks s1) s1 = Some (s1\<lparr>ic_tasks := ks, ic_timers := ts\<rparr>)" "paired ks ts" "live ks = {}"
    "length ks = length (ic_tasks s1)"
    using destroy_tasks_ok [OF icinvD(4) [OF i1(1)], of "send_tasks s1"] icinvD(3) [OF i1(1)] i1(3) by (auto simp: tasks_ok_def)
  then show ?thesis using i1 by (auto simp: ic_destroy_def s1_def [symmetric] icinv_def ic_parts)
qed

text \<open>The link reports the statuses of its table, and the interface is not freed.\<close>

fun ic_legal :: "ic_op \<Rightarrow> bool" where
  "ic_legal (IcLink st (MStatus n)) \<longleftrightarrow> n < 8"
| "ic_legal IcFinalize \<longleftrightarrow> False"
| "ic_legal _ \<longleftrightarrow> True"

lemma connect_link_inv: "icinv s \<Longrightarrow> icinv (snd (ic_connect_link E s))"
  by (simp add: ic_connect_link_def)

lemma ic_step_safe:
  assumes "icinv s" "ic_legal p"
  shows "\<exists>s'. ic_step E p s = Some s' \<and> icinv s'"
proof (cases p)
  case (IcInstance t q)
  have "icinv ((case q of None \<Rightarrow> s | Some x \<Rightarrow> s\<lparr>ic_package := x\<rparr>)\<lparr>ic_handle := Some t\<rparr>)"
    using assms(1) by (auto intro!: icinv_handle(2) split: option.splits)
  from connect_link_inv [OF this] show ?thesis
    using IcInstance assms(1) icinvD(1) [OF assms(1)] by (simp add: system_interconnect_wrap_instance_def Let_def)
next
  case (IcLink st msg)
  then show ?thesis using link_safe [OF assms(1), of msg] assms by (cases msg) simp_all
next
  case (IcDiagTimer)
  have "icinv (s\<lparr>diagnosis_timer := Some False\<rparr>)" if "diagnosis_timer s = Some True"
    using assms(1) that by (auto simp: icinv_def ic_parts)
  then show ?thesis using IcDiagTimer assms(1) pending_diagnosis_safe [of "s\<lparr>diagnosis_timer := Some False\<rparr>" E True] by auto
next
  case (IcRequired pkg)
  then show ?thesis using assms(1) connect_link_inv [of "s\<lparr>ic_package := pkg\<rparr>"] by (simp add: system_interconnect_onRequired_def)
next
  case IcDestroy
  then show ?thesis using assms(1) destroy_safe [OF assms(1)] by (auto simp: system_interconnect_onDestroy_def)
qed (use assms send_safe [OF assms(1)] diagnosis_safe [OF assms(1)] ready_state_safe [OF assms(1)] set_func_safe [OF assms(1)]
    send_cb_safe [OF assms(1)] timer_cb_safe [OF assms(1)] in \<open>auto simp: on_interface_def\<close>)

interpretation interconnect_service: service "ic_step E" ic_legal icinv for E
  by unfold_locales (rule ic_step_safe)

lemma new_interconn_ok: "icinv (new_interconn w)"
  by (simp add: icinv_def ic_parts new_interconn_def paired_def miwear_status_defs live_def)

lemma invoke_connect_frame:
  assumes "InvokeConnect E b s = Some s'" "\<not> ic_freed s"
  shows "ic_inflight s' = ic_inflight s" "ic_tasks s' = ic_tasks s" "send_tasks s' = send_tasks s" "ic_timers s' = ic_timers s"
    "ic_status s' = ic_status s" "conn_func s' \<noteq> 0 \<or> is_pending_connect s'"
  using assms with_object_invoke [of s "''isReconnected''" "JBool b" E "conn_func s"]
  by (auto simp: InvokeConnect_def split: if_splits)

section \<open>The properties\<close>

text \<open>C12: Whatever the scripts call, the link reports and the timers do, as long as the interface object is not freed the
  service does not crash: no deleted task, timer or diagnosis call is used. Every send is answered at most once, and an answered send is gone.\<close>

theorem interconnect_sends_answered_once:
  assumes "list_all ic_legal ps"
  shows "\<exists>s. run_steps (ic_step E) ps (new_interconn w) = Some s \<and> distinct (ic_answers s) \<and>
    set (ic_answers s) \<inter> live (ic_tasks s) = {} \<and> (if ic_dead s then live (ic_tasks s) = {} else set (send_tasks s) = live (ic_tasks s))"
proof -
  obtain s where s: "run_steps (ic_step E) ps (new_interconn w) = Some s" "icinv s"
    using interconnect_service.run_safe [OF new_interconn_ok assms] by blast
  then show ?thesis using icinvD(3,5) [OF s(2)] by (auto simp: tasks_ok_def ic_answers_ok_def)
qed

definition icenv0 :: ic_env where
  "icenv0 = \<lparr>ic_engine = engine0, ic_ToString = (\<lambda>v. Some ''hello''), ic_connect = (\<lambda>p. 0)\<rparr>"

definition ic_ops0 :: "ic_op list" where
  "ic_ops0 = [IcRequired ''com.app'', IcInstance (new_inst (JFun 0)) None, IcSend 1 (Some (JObject [])), IcDiagnosis 2 None,
     IcLink 0 (MStatus 5), IcSent 0 0, IcTimer 0, IcSend 3 (Some (JObject [])), IcLink 0 (MStatus 6), IcSent 1 1, IcDestroy, IcSent 0 1]"

theorem interconnect_sends_answered_once_witness:
  "\<exists>s. run_steps (ic_step icenv0) ic_ops0 (new_interconn world0) = Some s \<and> distinct (ic_answers s)"
proof -
  have "list_all ic_legal ic_ops0" by (simp add: ic_ops0_def)
  from interconnect_sends_answered_once [OF this, of icenv0 world0] show ?thesis by blast
qed


text \<open>Two sends and a diagnosis wait for the connection.\<close>

definition interconn_w :: interconn where
  "interconn_w = (new_interconn world0)\<lparr>connect_send := True, send_tasks := [0, 1], ic_inflight := [1],
     ic_tasks := [Some \<lparr>sk_msg = ''a'', sk_timer = Some 0, sk_pid = 1\<rparr>, Some \<lparr>sk_msg = ''b'', sk_timer = None, sk_pid = 2\<rparr>],
     ic_timers := [\<lparr>tm_data = Some 0, tm_running = True\<rparr>]\<rparr>"

lemma interconn_w_ok: "icinv interconn_w"
  by (auto simp: icinv_def ic_parts interconn_w_def new_interconn_def paired_def miwear_status_defs live_def less_Suc_eq
      kInvalidPromiseId_def nth_Cons')


text \<open>C40: The context keeps the interface handle without owning a reference and does not forget it when the interface is
  freed: afterwards the next message from the phone crashes the process if the script had set \<open>onmessage\<close>, and so do the answer to a send that
  is under way and the next call of \<open>instance\<close>.\<close>

theorem freed_interface_is_used:
  assumes "icinv s" "\<not> ic_dead s" "ic_handle s \<noteq> None"
  shows "(connect_send s \<longrightarrow> ic_miwear s \<longrightarrow> recv_func s \<noteq> 0 \<longrightarrow> run_steps (ic_step E) [IcFinalize, IcLink 0 (MData d)] s = None) \<and>
    (i \<in> set (ic_inflight s) \<longrightarrow> i \<in> set (send_tasks s) \<longrightarrow> run_steps (ic_step E) [IcFinalize, IcSent st i] s = None) \<and>
    run_steps (ic_step E) [IcFinalize, IcInstance t p] s = None"
proof -
  have k: "\<exists>k. ic_tasks s ! i = Some k" if "i \<in> set (send_tasks s)"
    using icinvD(3) [OF assms(1)] assms(2) liveD [of i "ic_tasks s"] that by (simp add: tasks_ok_def)
  then show ?thesis using assms(2,3)
    by (auto simp: MiwearConnect_finalize_def miwear_connect_cb_def InvokeRecv_def ic_invoke_def miwear_send_cb_def ProcessSendResult_def
        ic_resolve_def ic_reject_def system_interconnect_wrap_instance_def Let_def)
qed

definition interconn_o :: interconn where
  "interconn_o = interconn_w\<lparr>ic_handle := Some (new_inst (JFun 0)), recv_func := 1\<rparr>"

theorem freed_interface_is_used_witness:
  "run_steps (ic_step icenv0) [IcFinalize, IcLink 0 (MData ''hello'')] interconn_o = None"
proof -
  have i: "icinv interconn_o" unfolding interconn_o_def by (simp add: icinv_handle(2) interconn_w_ok)
  have f: "\<not> ic_dead interconn_o" "ic_handle interconn_o \<noteq> None" "connect_send interconn_o" "ic_miwear interconn_o" "recv_func interconn_o \<noteq> 0"
    by (simp_all add: interconn_o_def interconn_w_def new_interconn_def)
  show ?thesis using freed_interface_is_used [OF i f(1,2), of icenv0 "''hello''"] f(3-5) by blast
qed

end
