(* ===== verification/FileSystem.thy ===== *)
theory FileSystem
  imports TextUtils
begin

text \<open>
  The file system as the file module sees it through the C library: the calls \<open>access\<close>, \<open>stat\<close>, \<open>open\<close>, \<open>read\<close>,
  \<open>write\<close>, \<open>mkdir\<close>, \<open>rmdir\<close>, \<open>opendir\<close>, \<open>unlink\<close> and what libuv does for \<open>rename\<close>, \<open>copyfile\<close>. A file
  system is a list of names and nodes, in the order in which directories are read; a name is the list of
  its components. A path is resolved as POSIX prescribes where there are no symbolic links. Every call can fail with an error that the
  environment chooses; the errors that follow from the state are given by their numbers.
\<close>

section \<open>Names and nodes\<close>

datatype fnode = FDir int | FFile string int

type_synonym fname = "string list"
type_synonym fsys = "(fname \<times> fnode) list"

datatype fscall = CStat | COpen | CSeek | CRead | CWrite | CMkdir | COpendir | CUnlink | CRmdir | CRename | CCopy

record fs_env =
  fe_path :: path_env
  fe_cwd :: fname
  fe_fault :: "fscall \<Rightarrow> fname \<Rightarrow> int"
  fe_name_max :: nat
  fe_now :: int

definition ENOENT :: int where "ENOENT = 2"
definition EEXIST :: int where "EEXIST = 17"
definition ENOTDIR :: int where "ENOTDIR = 20"
definition EISDIR :: int where "EISDIR = 21"
definition EINVAL :: int where "EINVAL = 22"
definition ENOSPC :: int where "ENOSPC = 28"
definition ENAMETOOLONG :: int where "ENAMETOOLONG = 36"
definition ENOTEMPTY :: int where "ENOTEMPTY = 39"

lemmas errno_defs = ENOENT_def EEXIST_def ENOTDIR_def EISDIR_def EINVAL_def ENOSPC_def ENAMETOOLONG_def ENOTEMPTY_def

text \<open>The components of a path.\<close>

fun comps :: "string \<Rightarrow> string list" where
  "comps [] = [[]]"
| "comps (c # s) = (if c = CHR ''/'' then [] # comps s else (c # hd (comps s)) # tl (comps s))"

fun enter :: "fname \<Rightarrow> string \<Rightarrow> fname" where
  "enter k c = (if c = [] \<or> c = ''.'' then k else if c = ''..'' then butlast k else k @ [c])"

definition resolve :: "fs_env \<Rightarrow> string \<Rightarrow> fname" where
  "resolve E p = foldl enter (if prefix ''/'' p then [] else fe_cwd E) (comps p)"

text \<open>The path that names a node, and how long it is.\<close>

definition join :: "fname \<Rightarrow> string" where
  "join k = concat (map (\<lambda>c. CHR ''/'' # c) k)"

definition has_node :: "fname \<Rightarrow> fsys \<Rightarrow> bool" where
  "has_node k fs \<longleftrightarrow> k = [] \<or> map_of fs k \<noteq> None"

definition is_dir :: "fname \<Rightarrow> fsys \<Rightarrow> bool" where
  "is_dir k fs \<longleftrightarrow> k = [] \<or> (\<exists>t. map_of fs k = Some (FDir t))"

definition dir_node :: "fnode \<Rightarrow> bool" where
  "dir_node n = (case n of FDir t \<Rightarrow> True | FFile d t \<Rightarrow> False)"

lemma is_dir_code [code]:
  "is_dir k fs \<longleftrightarrow> k = [] \<or> (case map_of fs k of None \<Rightarrow> False | Some n \<Rightarrow> dir_node n)"
  by (auto simp: is_dir_def dir_node_def split: option.splits fnode.splits)

fun set_node :: "fname \<Rightarrow> fnode \<Rightarrow> fsys \<Rightarrow> fsys" where
  "set_node k n [] = [(k, n)]"
| "set_node k n ((k', n') # fs) = (if k' = k then (k, n) # fs else (k', n') # set_node k n fs)"

definition drop_node :: "fname \<Rightarrow> fsys \<Rightarrow> fsys" where
  "drop_node k fs = filter (\<lambda>(k', n). k' \<noteq> k) fs"

text \<open>The entries of a directory, without \<open>.\<close> and \<open>..\<close>: name and whether it is a directory.\<close>

definition is_child :: "fname \<Rightarrow> fname \<Rightarrow> bool" where
  "is_child k k' \<longleftrightarrow> k' \<noteq> [] \<and> butlast k' = k"

definition entries :: "fname \<Rightarrow> fsys \<Rightarrow> (string \<times> bool) list" where
  "entries k fs = map (\<lambda>(k', n). (last k', dir_node n)) (filter (\<lambda>(k', n). is_child k k') fs)"

text \<open>Where a new node can be made.\<close>

definition place_error :: "fs_env \<Rightarrow> fname \<Rightarrow> fsys \<Rightarrow> int" where
  "place_error E k fs =
     (if \<not> is_dir (butlast k) fs then (if has_node (butlast k) fs then ENOTDIR else ENOENT)
      else if fe_name_max E < length (join k) then ENAMETOOLONG else 0)"

section \<open>Calls\<close>

text \<open>The results are error numbers, 0 for success.\<close>

definition os_access :: "fs_env \<Rightarrow> string \<Rightarrow> fsys \<Rightarrow> bool" where
  "os_access E p fs = has_node (resolve E p) fs"

definition os_mkdir :: "fs_env \<Rightarrow> string \<Rightarrow> fsys \<Rightarrow> int \<times> fsys" where
  "os_mkdir E p fs =
     (let k = resolve E p; e = fe_fault E CMkdir k
      in if e \<noteq> 0 then (e, fs)
         else if has_node k fs then (EEXIST, fs)
         else if place_error E k fs \<noteq> 0 then (place_error E k fs, fs)
         else (0, fs @ [(k, FDir (fe_now E))]))"

definition os_opendir :: "fs_env \<Rightarrow> string \<Rightarrow> fsys \<Rightarrow> int \<times> (string \<times> bool) list" where
  "os_opendir E p fs =
     (let k = resolve E p; e = fe_fault E COpendir k
      in if e \<noteq> 0 then (e, [])
         else if \<not> has_node k fs then (ENOENT, [])
         else if \<not> is_dir k fs then (ENOTDIR, [])
         else (0, entries k fs))"

definition os_unlink :: "fs_env \<Rightarrow> string \<Rightarrow> fsys \<Rightarrow> int \<times> fsys" where
  "os_unlink E p fs =
     (let k = resolve E p; e = fe_fault E CUnlink k
      in if e \<noteq> 0 then (e, fs)
         else if is_dir k fs then (EISDIR, fs)
         else if \<not> has_node k fs then (ENOENT, fs)
         else (0, drop_node k fs))"

definition os_rmdir :: "fs_env \<Rightarrow> string \<Rightarrow> fsys \<Rightarrow> int \<times> fsys" where
  "os_rmdir E p fs =
     (let k = resolve E p; e = fe_fault E CRmdir k
      in if e \<noteq> 0 then (e, fs)
         else if \<not> has_node k fs then (ENOENT, fs)
         else if \<not> is_dir k fs then (ENOTDIR, fs)
         else if k = [] \<or> entries k fs \<noteq> [] then (ENOTEMPTY, fs)
         else (0, drop_node k fs))"

record fstat =
  fs_isdir :: bool
  fs_size :: nat
  fs_mtime :: int

definition os_stat :: "fs_env \<Rightarrow> string \<Rightarrow> fsys \<Rightarrow> int + fstat" where
  "os_stat E p fs =
     (let k = resolve E p; e = fe_fault E CStat k
      in if e \<noteq> 0 then Inl e
         else if k = [] then Inr \<lparr>fs_isdir = True, fs_size = 0, fs_mtime = 0\<rparr>
         else case map_of fs k of
           None \<Rightarrow> Inl ENOENT
         | Some (FDir t) \<Rightarrow> Inr \<lparr>fs_isdir = True, fs_size = 0, fs_mtime = t\<rparr>
         | Some (FFile d t) \<Rightarrow> Inr \<lparr>fs_isdir = False, fs_size = length d, fs_mtime = t\<rparr>)"

text \<open>
  Opening for reading, and for writing with \<open>O_CREAT\<close> and maybe \<open>O_TRUNC\<close>. A directory is refused, for reading when it is read in C,
  here when it is opened. A descriptor is the name of its file.
\<close>

definition os_open :: "fs_env \<Rightarrow> bool \<Rightarrow> bool \<Rightarrow> string \<Rightarrow> fsys \<Rightarrow> int \<times> fsys" where
  "os_open E wr trunc p fs =
     (let k = resolve E p; e = fe_fault E COpen k
      in if e \<noteq> 0 then (e, fs)
         else if is_dir k fs then (EISDIR, fs)
         else if has_node k fs then (0, if wr \<and> trunc then set_node k (FFile [] (fe_now E)) fs else fs)
         else if \<not> wr then (ENOENT, fs)
         else if place_error E k fs \<noteq> 0 then (place_error E k fs, fs)
         else (0, fs @ [(k, FFile [] (fe_now E))]))"

definition content :: "fname \<Rightarrow> fsys \<Rightarrow> string" where
  "content k fs = (case map_of fs k of Some (FFile d t) \<Rightarrow> d | _ \<Rightarrow> [])"

definition os_read :: "fs_env \<Rightarrow> fname \<Rightarrow> nat \<Rightarrow> nat \<Rightarrow> fsys \<Rightarrow> int + string" where
  "os_read E k off n fs =
     (if fe_fault E CRead k \<noteq> 0 then Inl (fe_fault E CRead k) else Inr (take n (drop off (content k fs))))"

text \<open>A write past the end leaves a hole of NULs.\<close>

definition overwrite :: "nat \<Rightarrow> string \<Rightarrow> string \<Rightarrow> string" where
  "overwrite off data d = take off (d @ replicate (off - length d) NUL) @ data @ drop (off + length data) d"

definition os_write :: "fs_env \<Rightarrow> fname \<Rightarrow> bool \<Rightarrow> nat \<Rightarrow> string \<Rightarrow> fsys \<Rightarrow> int \<times> fsys" where
  "os_write E k app off data fs =
     (if fe_fault E CWrite k \<noteq> 0 then (fe_fault E CWrite k, fs)
      else (0, set_node k (FFile (if app then content k fs @ data else overwrite off data (content k fs)) (fe_now E)) fs))"

definition os_copyfile :: "fs_env \<Rightarrow> string \<Rightarrow> string \<Rightarrow> fsys \<Rightarrow> int \<times> fsys" where
  "os_copyfile E p q fs =
     (let k = resolve E p; k' = resolve E q; e = fe_fault E CCopy k
      in if e \<noteq> 0 then (e, fs)
         else if \<not> has_node k fs then (ENOENT, fs)
         else if is_dir k fs \<or> is_dir k' fs then (EISDIR, fs)
         else if has_node k' fs \<or> place_error E k' fs = 0 then (0, set_node k' (FFile (content k fs) (fe_now E)) fs)
         else (place_error E k' fs, fs))"

text \<open>A node moves with what is below it; an empty directory and a file can be replaced by one of their kind.\<close>

definition rename_key :: "fname \<Rightarrow> fname \<Rightarrow> fname \<Rightarrow> fname" where
  "rename_key k k' x = (if prefix k x then k' @ drop (length k) x else x)"

definition os_rename :: "fs_env \<Rightarrow> string \<Rightarrow> string \<Rightarrow> fsys \<Rightarrow> int \<times> fsys" where
  "os_rename E p q fs =
     (let k = resolve E p; k' = resolve E q; e = fe_fault E CRename k;
          moved = map (\<lambda>(x, n). (rename_key k k' x, n)) (drop_node k' fs)
      in if e \<noteq> 0 then (e, fs)
         else if k = [] \<or> k' = [] then (EINVAL, fs)
         else if \<not> has_node k fs then (ENOENT, fs)
         else if k = k' then (0, fs)
         else if prefix k k' then (EINVAL, fs)
         else if has_node k' fs \<and> is_dir k' fs \<and> \<not> is_dir k fs then (EISDIR, fs)
         else if has_node k' fs \<and> \<not> is_dir k' fs \<and> is_dir k fs then (ENOTDIR, fs)
         else if is_dir k' fs \<and> entries k' fs \<noteq> [] then (ENOTEMPTY, fs)
         else if place_error E k' fs \<noteq> 0 then (place_error E k' fs, fs)
         else if \<not> list_all (\<lambda>(x, n). length (join x) \<le> fe_name_max E) moved then (ENAMETOOLONG, fs)
         else (0, moved))"

end
