(* ===== verification/Files.thy ===== *)
theory Files
  imports FileSystem FtContext Services
begin

text \<open>
  The file module (\<open>modules/file_impl.cpp\<close>): moving, copying, removing, reading and writing files, making, removing and
  listing directories. A request is an index of \<open>fl_reqs\<close>, freed when its entry is \<open>None\<close>; it is submitted to the thread pool of
  libuv (\<open>fl_queue\<close>), worked on (\<open>fl_done\<close>) and finished on the loop. The calls of the C library are those of
  \<open>FileSystem\<close>; \<open>fl_log\<close> records the requests that have been finished. A result \<open>None\<close> is a crash: a freed request or a null
  pointer is used, a buffer or an array overflows, a recursion does not end.
\<close>

section \<open>State\<close>

record callback_ids =
  ci_success :: int
  ci_fail :: int
  ci_complete :: int

datatype fs_type = UV_FS_RENAME | UV_FS_COPYFILE | UV_FS_ACCESS | UV_FS_UNLINK

record fs_req =
  fr_type :: fs_type
  fr_path :: string
  fr_new_path :: string
  fr_cbs :: callback_ids

datatype file_type =
    FILE_WRITEARRBUF
  | FILE_WRITETEXT
  | FILE_READARRBUF
  | FILE_READTEXT
  | FILE_GET
  | FILE_LIST
  | FILE_MKDIR
  | FILE_RMDIR

datatype file_info =
  FileInfo (fi_is_dir: bool) (fi_uri: string) (fi_length: nat) (fi_mtime: int) (fi_dir_num: nat) (fi_file_num: nat)
    (fi_dir_list: "file_info list")

text \<open>The one field \<open>flags\<close>: those of \<open>open\<close> (writing creates; \<open>O_TRUNC\<close>, \<open>O_APPEND\<close>), or a number.\<close>

datatype fflags = O_RDONLY | O_WRITE bool bool | Flags int

fun O_TRUNC :: "fflags \<Rightarrow> bool" where
  "O_TRUNC (O_WRITE trunc app) = trunc"
| "O_TRUNC _ = False"

fun O_APPEND :: "fflags \<Rightarrow> bool" where
  "O_APPEND (O_WRITE trunc app) = app"
| "O_APPEND _ = False"

record file_req =
  fq_type :: file_type
  fq_r :: int
  fq_len :: int
  fq_offset :: nat
  fq_filename :: string
  fq_buf :: "string option"
  fq_root :: "file_info option"
  fq_flags :: fflags
  fq_cbs :: callback_ids

datatype freq = FsReq fs_req | FReq file_req

fun freq_cbs :: "freq \<Rightarrow> callback_ids" where
  "freq_cbs (FsReq q) = fr_cbs q"
| "freq_cbs (FReq q) = fq_cbs q"

record file_env =
  fv_fs :: fs_env
  fv_engine :: engine
  fv_pkg :: string
  fv_hap :: string
  fv_disk :: bool
  fv_submit :: int
  fv_strerror :: "int \<Rightarrow> string"
  fv_written :: "string \<Rightarrow> nat"
  fv_to_buffer :: "jsval \<Rightarrow> string"
  fv_from_buffer :: "string \<Rightarrow> jsval"

record files =
  fl_inst :: "inst option"
  fl_world :: world
  fl_loop :: bool
  fl_fs :: fsys
  fl_reqs :: "freq option list"
  fl_queue :: "nat list"
  fl_done :: "(nat \<times> int) list"
  fl_refs :: nat
  fl_log :: "nat list"

definition PM :: "file_env \<Rightarrow> nat" where
  "PM E = PATH_MAX_LENGTH (fe_path (fv_fs E))"

definition INT32_MIN :: int where "INT32_MIN = - 2147483648"

definition E_GENERAL :: int where "E_GENERAL = 200"
definition E_ARGS :: int where "E_ARGS = 202"
definition E_IOERROR :: int where "E_IOERROR = 300"
definition E_PATH_NOT_EXISTS :: int where "E_PATH_NOT_EXISTS = 301"

definition error_code_map :: "int \<Rightarrow> int" where
  "error_code_map e = (if e = - 2 then E_PATH_NOT_EXISTS else if e = - 22 then E_ARGS else E_IOERROR)"

section \<open>Finishing a request\<close>

definition fl_invoke :: "file_env \<Rightarrow> int \<Rightarrow> nval list \<Rightarrow> files \<Rightarrow> files" where
  "fl_invoke E cid ap s =
     s\<lparr>fl_world := snd (FeatureInvokeCallback (fv_engine E) (fl_inst s) cid ap (fl_world s))\<rparr>"

definition fl_remove :: "int \<Rightarrow> files \<Rightarrow> files" where
  "fl_remove cid s =
     (let (r, h, w) = FeatureRemoveCallback (fl_inst s) cid (fl_world s) in s\<lparr>fl_inst := h, fl_world := w\<rparr>)"

definition remove_all_callback :: "callback_ids \<Rightarrow> files \<Rightarrow> files" where
  "remove_all_callback c s = fl_remove (ci_complete c) (fl_remove (ci_fail c) (fl_remove (ci_success c) s))"

text \<open>\<open>__invoke_fs_cb\<close> and \<open>__invoke_fr_cb\<close>; without \<open>succ_param\<close> the success callback gets no argument.\<close>

definition invoke_cb :: "file_env \<Rightarrow> nat \<Rightarrow> int \<Rightarrow> string \<Rightarrow> nval option \<Rightarrow> files \<Rightarrow> files option" where
  "invoke_cb E i status err succ_param s =
     (case fl_reqs s ! i of
        None \<Rightarrow> None
      | Some q \<Rightarrow>
          (let c = freq_cbs q;
               s1 = (if FeatureInstanceIsDetached (fl_inst s) then s
                     else
                       (let s1 = (if status \<noteq> 0 then fl_invoke E (ci_fail c) [NStr err, NBits (word_of_int status)] s
                                  else fl_invoke E (ci_success c) (case succ_param of None \<Rightarrow> [] | Some v \<Rightarrow> [v]) s)
                        in remove_all_callback c (fl_invoke E (ci_complete c) [] s1)))
           in Some (s1\<lparr>fl_refs := fl_refs s1 - 1, fl_reqs := (fl_reqs s1)[i := None], fl_log := fl_log s1 @ [i]\<rparr>)))"

definition fail_with :: "file_env \<Rightarrow> nat \<Rightarrow> int \<Rightarrow> files \<Rightarrow> files option" where
  "fail_with E i e s = invoke_cb E i (error_code_map e) (fv_strerror E e) None s"

definition new_file_req :: "freq \<Rightarrow> files \<Rightarrow> nat \<times> files" where
  "new_file_req q s = (length (fl_reqs s), s\<lparr>fl_reqs := fl_reqs s @ [Some q], fl_refs := Suc (fl_refs s)\<rparr>)"

text \<open>A request that libuv does not take is forgotten.\<close>

definition fl_submit :: "file_env \<Rightarrow> nat \<Rightarrow> freq \<Rightarrow> files \<Rightarrow> files" where
  "fl_submit E i q s =
     (let s = s\<lparr>fl_reqs := (fl_reqs s)[i := Some q]\<rparr>
      in if fv_submit E \<noteq> 0 then s else s\<lparr>fl_queue := fl_queue s @ [i]\<rparr>)"

section \<open>Requests of libuv\<close>

definition fs_work :: "file_env \<Rightarrow> fs_req \<Rightarrow> fsys \<Rightarrow> int \<times> fsys" where
  "fs_work E q fs =
     (case fr_type q of
        UV_FS_RENAME \<Rightarrow> os_rename (fv_fs E) (fr_path q) (fr_new_path q) fs
      | UV_FS_COPYFILE \<Rightarrow> os_copyfile (fv_fs E) (fr_path q) (fr_new_path q) fs
      | UV_FS_ACCESS \<Rightarrow> (if os_access (fv_fs E) (fr_path q) fs then 0 else ENOENT, fs)
      | UV_FS_UNLINK \<Rightarrow> os_unlink (fv_fs E) (fr_path q) fs)"

definition uv_fs_req_cb :: "file_env \<Rightarrow> nat \<Rightarrow> fs_req \<Rightarrow> int \<Rightarrow> files \<Rightarrow> files option" where
  "uv_fs_req_cb E i q result s =
     (if result < 0 then fail_with E i result s
      else if fr_type q = UV_FS_COPYFILE \<or> fr_type q = UV_FS_RENAME then
        (case app_absolute_to_relative_path (fe_path (fv_fs E)) (fv_pkg E) (Some (fr_new_path q)) of
           None \<Rightarrow> None
         | Some new_path \<Rightarrow> invoke_cb E i 0 [] (Some (NStr new_path)) s)
      else invoke_cb E i 0 [] None s)"

definition to_absolute :: "file_env \<Rightarrow> string \<Rightarrow> string option option" where
  "to_absolute E uri = app_relative_to_absolute_path (fe_path (fv_fs E)) (Some (fv_pkg E)) (Some uri)"

text \<open>In both operations a path that does not fit its buffer is a crash.\<close>

definition file_copy_or_move :: "file_env \<Rightarrow> bool \<Rightarrow> string option \<Rightarrow> string option \<Rightarrow> callback_ids \<Rightarrow> files \<Rightarrow> files option" where
  "file_copy_or_move E move srcUri dstUri c s =
     (let (i, s1) = new_file_req (FsReq \<lparr>fr_type = UV_FS_ACCESS, fr_path = [], fr_new_path = [], fr_cbs = c\<rparr>) s
      in if \<not> fl_loop s then invoke_cb E i E_GENERAL ''uvloop is null'' None s1
         else if srcUri = None \<or> dstUri = None \<or> (\<not> move \<and> is_path_in_tmp srcUri) \<or> is_path_in_tmp dstUri
         then invoke_cb E i E_ARGS ''invalid file path'' None s1
         else Option.bind (to_absolute E (the srcUri)) (\<lambda>path.
              Option.bind (to_absolute E (the dstUri)) (\<lambda>new_path.
              if path = None \<or> new_path = None then invoke_cb E i E_ARGS ''invalid file path'' None s1
              else Some (fl_submit E i (FsReq \<lparr>fr_type = (if move then UV_FS_RENAME else UV_FS_COPYFILE), fr_path = the path,
                                               fr_new_path = the new_path, fr_cbs = c\<rparr>) s1))))"

definition file_access_or_delete :: "file_env \<Rightarrow> bool \<Rightarrow> string option \<Rightarrow> callback_ids \<Rightarrow> files \<Rightarrow> files option" where
  "file_access_or_delete E acc uri c s =
     (let (i, s1) = new_file_req (FsReq \<lparr>fr_type = UV_FS_ACCESS, fr_path = [], fr_new_path = [], fr_cbs = c\<rparr>) s
      in if \<not> fl_loop s then invoke_cb E i E_GENERAL ''uvloop is null'' None s1
         else if uri = None \<or> is_path_in_tmp uri then invoke_cb E i E_ARGS ''invalid file path'' None s1
         else Option.bind (to_absolute E (the uri)) (\<lambda>path.
              if path = None then invoke_cb E i E_ARGS ''invalid file path'' None s1
              else Some (fl_submit E i (FsReq \<lparr>fr_type = (if acc then UV_FS_ACCESS else UV_FS_UNLINK), fr_path = the path,
                                               fr_new_path = [], fr_cbs = c\<rparr>) s1)))"

section \<open>Directories\<close>

text \<open>\<open>strrchr\<close>: what stands before the last slash.\<close>

definition dir_part :: "string \<Rightarrow> string" where
  "dir_part p = rev (drop 1 (dropWhile (\<lambda>c. c \<noteq> CHR ''/'') (rev p)))"

lemma dir_part_length: "CHR ''/'' \<in> set p \<Longrightarrow> length (dir_part p) < length p"
proof -
  assume "CHR ''/'' \<in> set p"
  then have "dropWhile (\<lambda>c. c \<noteq> CHR ''/'') (rev p) \<noteq> []" by (simp add: dropWhile_eq_Nil_conv)
  then show ?thesis using length_dropWhile_le [of "\<lambda>c. c \<noteq> CHR ''/''" "rev p"] by (cases "dropWhile (\<lambda>c. c \<noteq> CHR ''/'') (rev p)") (simp_all add: dir_part_def)
qed

text \<open>\<open>__create_dir\<close> on the field \<open>r\<close> and the file system. \<open>strncpy\<close> leaves no NUL when the path fills the buffer.\<close>

function create_dir :: "file_env \<Rightarrow> int \<Rightarrow> string \<Rightarrow> int \<Rightarrow> fsys \<Rightarrow> (int \<times> fsys) option" where
  "create_dir E flags path r fs =
     (if path = ''.'' \<or> path = ''/'' \<or> os_access (fv_fs E) path fs then Some (r, fs)
      else if flags = 1 \<and> PM E - 1 \<le> length path then None
      else if flags = 1 \<and> CHR ''/'' \<notin> set path then Some (r, fs)
      else Option.bind (if flags = 1 then create_dir E flags (dir_part path) r fs else Some (r, fs)) (\<lambda>(r, fs).
           let (e, fs') = os_mkdir (fv_fs E) path fs in Some (if e \<noteq> 0 then - e else r, fs')))"
  by pat_completeness auto
termination
  by (relation "measure (\<lambda>(E, flags, path, r, fs). length path)") (auto simp: dir_part_length)

declare create_dir.simps [simp del]

definition entry_path :: "file_env \<Rightarrow> string \<Rightarrow> string \<Rightarrow> string" where
  "entry_path E dirname name = snprintf (PM E) [] (dirname @ ''/'' @ name)"

text \<open>\<open>__remove_dir\<close>; the directory is read before its entries are removed. The fuel bounds the depth of the recursion.\<close>

fun remove_dir :: "file_env \<Rightarrow> int \<Rightarrow> nat \<Rightarrow> string \<Rightarrow> int \<Rightarrow> fsys \<Rightarrow> (int \<times> fsys) option"
  and remove_entries :: "file_env \<Rightarrow> int \<Rightarrow> nat \<Rightarrow> string \<Rightarrow> (string \<times> bool) list \<Rightarrow> int \<Rightarrow> fsys \<Rightarrow> (int \<times> fsys) option" where
  "remove_dir E flags 0 dirname r fs = None"
| "remove_dir E flags (Suc fuel) dirname r fs =
     (let (e, es) = os_opendir (fv_fs E) dirname fs
      in if e \<noteq> 0 then Some (- e, fs)
         else Option.bind (if flags = 1 then remove_entries E flags fuel dirname es r fs else Some (r, fs)) (\<lambda>(r, fs).
              let (e, fs') = os_rmdir (fv_fs E) dirname fs in Some (if e \<noteq> 0 then - e else r, fs')))"
| "remove_entries E flags fuel dirname [] r fs = Some (r, fs)"
| "remove_entries E flags fuel dirname ((name, d) # es) r fs =
     (let path = entry_path E dirname name
      in if d then Option.bind (remove_dir E flags fuel path r fs) (\<lambda>(r, fs). remove_entries E flags fuel dirname es r fs)
         else remove_entries E flags fuel dirname es r (snd (os_unlink (fv_fs E) path fs)))"

text \<open>\<open>__get_info_c\<close>: the information, and the field \<open>r\<close>.\<close>

definition get_info :: "file_env \<Rightarrow> string \<Rightarrow> fsys \<Rightarrow> file_info option \<times> int" where
  "get_info E path fs =
     (case os_stat (fv_fs E) path fs of
        Inl e \<Rightarrow> (None, - e)
      | Inr st \<Rightarrow>
          (case app_absolute_to_relative_path (fe_path (fv_fs E)) (fv_pkg E) (Some path) of
             None \<Rightarrow> (None, 0)
           | Some app_path \<Rightarrow> (Some (FileInfo (fs_isdir st) app_path (if fs_isdir st then 0 else fs_size st) (fs_mtime st) 0 0 []), 0)))"

definition add_child :: "file_info \<Rightarrow> file_info \<Rightarrow> file_info" where
  "add_child root i =
     (case root of FileInfo d uri len mt dn fn kids \<Rightarrow>
        if fi_is_dir i then FileInfo d uri len mt (Suc dn) fn (kids @ [i]) else FileInfo d uri len mt dn (Suc fn) (kids @ [i]))"

text \<open>\<open>__read_dir_c\<close>; \<open>deep\<close> is \<open>fr->type == FILE_GET && fr->flags == 1\<close>.\<close>

fun read_dir :: "file_env \<Rightarrow> fsys \<Rightarrow> bool \<Rightarrow> nat \<Rightarrow> string \<Rightarrow> file_info \<Rightarrow> int \<Rightarrow> (file_info \<times> int) option"
  and read_entries :: "file_env \<Rightarrow> fsys \<Rightarrow> bool \<Rightarrow> nat \<Rightarrow> string \<Rightarrow> (string \<times> bool) list \<Rightarrow> file_info \<Rightarrow> int \<Rightarrow> (file_info \<times> int) option" where
  "read_dir E fs deep 0 dirname root r = None"
| "read_dir E fs deep (Suc fuel) dirname root r =
     (let (e, es) = os_opendir (fv_fs E) dirname fs
      in if e \<noteq> 0 then Some (root, - e) else read_entries E fs deep fuel dirname es root r)"
| "read_entries E fs deep fuel dirname [] root r = Some (root, r)"
| "read_entries E fs deep fuel dirname ((name, d) # es) root r =
     (let path = entry_path E dirname name; (fi, r1) = get_info E path fs
      in case fi of
           None \<Rightarrow> read_entries E fs deep fuel dirname es root r1
         | Some i \<Rightarrow>
             Option.bind (if deep \<and> d then read_dir E fs deep fuel path i r1 else Some (i, r1)) (\<lambda>(i, r2).
             read_entries E fs deep fuel dirname es (add_child root i) r2))"

definition load_dir_work :: "file_env \<Rightarrow> file_req \<Rightarrow> fsys \<Rightarrow> (file_req \<times> fsys) option" where
  "load_dir_work E q fs =
     (let flags = (case fq_flags q of Flags i \<Rightarrow> i | _ \<Rightarrow> 0); q = q\<lparr>fq_r := 0, fq_offset := 0\<rparr>; path = fq_filename q
      in case fq_type q of
           FILE_MKDIR \<Rightarrow> map_option (\<lambda>(r, fs). (q\<lparr>fq_r := r\<rparr>, fs)) (create_dir E flags path 0 fs)
         | FILE_RMDIR \<Rightarrow> map_option (\<lambda>(r, fs). (q\<lparr>fq_r := r\<rparr>, fs)) (remove_dir E flags (PM E) path 0 fs)
         | _ \<Rightarrow>
             (case get_info E path fs of
                (None, r) \<Rightarrow> Some (q\<lparr>fq_r := r\<rparr>, fs)
              | (Some i, r) \<Rightarrow>
                  if fi_is_dir i
                  then map_option (\<lambda>(i, r). (q\<lparr>fq_r := r, fq_root := Some i\<rparr>, fs))
                         (read_dir E fs (fq_type q = FILE_GET \<and> flags = 1) (PM E) path i r)
                  else Some (q\<lparr>fq_r := r, fq_root := Some i\<rparr>, fs)))"

text \<open>The arrays are made with the counted size; more or fewer items than that are a crash.\<close>

definition sized_array :: "nat \<Rightarrow> nval list \<Rightarrow> nval option" where
  "sized_array n vs = (if length vs = n then Some (NArr vs) else None)"

definition file_info_val :: "file_info \<Rightarrow> nval" where
  "file_info_val i = NStruct [(0, NStr (fi_uri i)), (8, NBits (ucast (word_of_nat (fi_length i) :: 32 word))), (16, NBits (word_of_int (fi_mtime i * 1000)))]"

fun extended_file_info :: "int \<Rightarrow> file_info \<Rightarrow> nval option"
  and extended_file_infos :: "int \<Rightarrow> file_info list \<Rightarrow> nval list option" where
  "extended_file_info flags (FileInfo d uri len mt dn fn kids) =
     Option.bind (if flags \<noteq> 0 then Option.bind (extended_file_infos flags kids) (sized_array (dn + fn)) else Some (NArr [])) (\<lambda>sub.
     Some (NStruct [(0, NStr uri), (8, NBits (ucast (word_of_nat len :: 32 word))), (16, NBits (word_of_int (mt * 1000))),
                    (24, NStr (if d then ''dir'' else ''file'')), (32, sub)]))"
| "extended_file_infos flags [] = Some []"
| "extended_file_infos flags (i # is) =
     Option.bind (extended_file_info flags i) (\<lambda>v. map_option (Cons v) (extended_file_infos flags is))"

definition file_list :: "file_info \<Rightarrow> nval option" where
  "file_list root = sized_array (fi_file_num root) (map file_info_val (filter (\<lambda>i. \<not> fi_is_dir i) (fi_dir_list root)))"

definition load_dir_after_work_cb :: "file_env \<Rightarrow> nat \<Rightarrow> file_req \<Rightarrow> int \<Rightarrow> files \<Rightarrow> files option" where
  "load_dir_after_work_cb E i q status s =
     (if status \<noteq> 0 then fail_with E i status s
      else if fq_r q < 0 then fail_with E i (fq_r q) s
      else case fq_type q of
        FILE_GET \<Rightarrow>
          (case fq_root q of
             None \<Rightarrow> invoke_cb E i 0 [] None s
           | Some root \<Rightarrow>
               Option.bind (extended_file_info (case fq_flags q of Flags j \<Rightarrow> j | _ \<Rightarrow> 0) root) (\<lambda>v. invoke_cb E i 0 [] (Some v) s))
      | FILE_LIST \<Rightarrow>
          (case fq_root q of
             None \<Rightarrow> invoke_cb E i 0 [] (Some (NStruct [(0, NNull)])) s
           | Some root \<Rightarrow> Option.bind (file_list root) (\<lambda>v. invoke_cb E i 0 [] (Some (NStruct [(0, v)])) s))
      | _ \<Rightarrow> invoke_cb E i 0 [] None s)"

section \<open>Reading and writing\<close>

text \<open>Opening; when it fails the directories of the file are made and it is tried again.\<close>

definition open_file :: "file_env \<Rightarrow> file_req \<Rightarrow> fsys \<Rightarrow> (int \<times> file_req \<times> fsys) option" where
  "open_file E q fs =
     (let try_open = os_open (fv_fs E) (fq_flags q \<noteq> O_RDONLY) (O_TRUNC (fq_flags q)) (fq_filename q); (e, fs1) = try_open fs
      in if e = 0 then Some (0, q, fs1)
         else if PM E - 1 \<le> length (fq_filename q) \<or> CHR ''/'' \<notin> set (fq_filename q) then None
         else Option.bind (create_dir E 1 (dir_part (fq_filename q)) (fq_r q) fs1) (\<lambda>(r, fs2).
              let (e, fs3) = try_open fs2 in Some (e, q\<lparr>fq_flags := Flags 1, fq_r := r\<rparr>, fs3)))"

definition read_file :: "file_env \<Rightarrow> file_req \<Rightarrow> fsys \<Rightarrow> file_req" where
  "read_file E q fs =
     (let k = resolve (fv_fs E) (fq_filename q); e = fe_fault (fv_fs E) CSeek k
      in if e \<noteq> 0 then q\<lparr>fq_r := - e\<rparr>
         else case os_read (fv_fs E) k (fq_offset q) (nat (fq_len q)) fs of
           Inl e \<Rightarrow> q\<lparr>fq_buf := Some [], fq_r := - e\<rparr>
         | Inr d \<Rightarrow> q\<lparr>fq_buf := Some d, fq_len := int (length d), fq_r := int (length d)\<rparr>)"

text \<open>\<open>app\<close> is the flag the file was opened with; after a second attempt the field \<open>flags\<close> no longer has it.\<close>

definition write_file :: "file_env \<Rightarrow> bool \<Rightarrow> file_req \<Rightarrow> fsys \<Rightarrow> file_req \<times> fsys" where
  "write_file E app q fs =
     (let k = resolve (fv_fs E) (fq_filename q); e = fe_fault (fv_fs E) CSeek k
      in if \<not> fv_disk E then (q\<lparr>fq_r := - ENOSPC\<rparr>, fs)
         else case fq_buf q of
           None \<Rightarrow> (q\<lparr>fq_r := 0\<rparr>, fs)
         | Some data \<Rightarrow>
             (if fq_len q = 0 then (q\<lparr>fq_r := 0\<rparr>, fs)
              else if \<not> O_APPEND (fq_flags q) \<and> e \<noteq> 0 then (q\<lparr>fq_r := - e\<rparr>, fs)
              else (let d = take (fv_written E data) data; (e, fs') = os_write (fv_fs E) k app (fq_offset q) d fs
                    in (q\<lparr>fq_r := (if e \<noteq> 0 then - e else int (length d))\<rparr>, fs'))))"

definition load_file_work :: "file_env \<Rightarrow> file_req \<Rightarrow> fsys \<Rightarrow> (file_req \<times> fsys) option" where
  "load_file_work E q fs =
     (case (if fq_len q = INT32_MIN then map_sum id (\<lambda>st. q\<lparr>fq_len := int (fs_size st)\<rparr>) (os_stat (fv_fs E) (fq_filename q) fs)
            else Inr q) of
        Inl e \<Rightarrow> Some (q\<lparr>fq_r := - e\<rparr>, fs)
      | Inr q \<Rightarrow>
          (let oflags = fq_flags q
           in if oflags \<noteq> O_RDONLY \<and> \<not> fv_disk E then Some (q\<lparr>fq_r := - ENOSPC\<rparr>, fs)
              else map_option (\<lambda>(e, q, fs).
                     if e \<noteq> 0 then (q\<lparr>fq_r := - e\<rparr>, fs)
                     else if oflags = O_RDONLY then (read_file E q fs, fs)
                     else write_file E (O_APPEND oflags) q fs) (open_file E q fs)))"

definition load_after_work_cb :: "file_env \<Rightarrow> nat \<Rightarrow> file_req \<Rightarrow> int \<Rightarrow> files \<Rightarrow> files option" where
  "load_after_work_cb E i q status s =
     (if status \<noteq> 0 then fail_with E i status s
      else if fq_r q < 0 then fail_with E i (fq_r q) s
      else if fq_type q = FILE_READTEXT then
        Option.bind (fq_buf q) (\<lambda>buf. invoke_cb E i 0 [] (Some (NStruct [(0, NStr (take (nat (fq_len q)) buf))])) s)
      else if fq_type q = FILE_READARRBUF then
        Option.bind (fq_buf q) (\<lambda>buf.
          let buffer = fv_from_buffer E (take (nat (fq_len q)) buf)
          in map_option (\<lambda>s. s\<lparr>fl_world := feature_free_value buffer (fl_world s)\<rparr>)
               (invoke_cb E i 0 [] (Some (NStruct [(0, NAny buffer)])) (s\<lparr>fl_world := js_new buffer (fl_world s)\<rparr>)))
      else invoke_cb E i 0 [] None s)"

text \<open>
  \<open>__file_load\<close>: what is the same for the four operations, and \<open>fill\<close>, the part of the type: a refusal or the
  filled request. A path that starts with a slash is read in the directory of the app.
\<close>

definition load_path :: "file_env \<Rightarrow> file_type \<Rightarrow> string \<Rightarrow> string option option" where
  "load_path E type uri =
     (if prefix ''/'' uri \<and> (type = FILE_READTEXT \<or> type = FILE_READARRBUF) then
        (let path = fv_hap E @ ''/app/'' @ fv_pkg E @ uri in if PM E \<le> length path then None else Some (Some path))
      else to_absolute E uri)"

definition init_file_req :: "file_type \<Rightarrow> callback_ids \<Rightarrow> file_req" where
  "init_file_req type c = \<lparr>fq_type = type, fq_r = - 1, fq_len = 0, fq_offset = 0, fq_filename = [], fq_buf = None, fq_root = None,
     fq_flags = O_RDONLY, fq_cbs = c\<rparr>"

definition file_load :: "file_env \<Rightarrow> file_type \<Rightarrow> string option \<Rightarrow> callback_ids \<Rightarrow> (file_req \<Rightarrow> (int \<times> string) + file_req) \<Rightarrow> files \<Rightarrow> files option" where
  "file_load E type uri c fill s =
     (let q = init_file_req type c; (i, s1) = new_file_req (FReq q) s
      in if \<not> fl_loop s then invoke_cb E i E_GENERAL ''uvloop is null'' None s1
         else if uri = None \<or> uri = Some [] \<or> ((type = FILE_WRITETEXT \<or> type = FILE_WRITEARRBUF) \<and> is_path_in_tmp uri)
         then invoke_cb E i E_ARGS ''invalid file path'' None s1
         else Option.bind (load_path E type (the uri)) (\<lambda>app_path.
           case app_path of
             None \<Rightarrow> invoke_cb E i E_ARGS ''invalid file path'' None s1
           | Some p \<Rightarrow>
               (case fill (q\<lparr>fq_filename := p\<rparr>) of
                  Inl (code, msg) \<Rightarrow> invoke_cb E i code msg None s1
                | Inr q \<Rightarrow> Some (fl_submit E i (FReq q) s1))))"

definition system_file_wrap_writeText :: "file_env \<Rightarrow> string option \<Rightarrow> string option \<Rightarrow> bool \<Rightarrow> callback_ids \<Rightarrow> files \<Rightarrow> files option" where
  "system_file_wrap_writeText E uri txt app c =
     file_load E FILE_WRITETEXT uri c (\<lambda>q.
       case txt of
         None \<Rightarrow> Inl (E_ARGS, ''invalid text'')
       | Some t \<Rightarrow>
           (if t = [] then Inl (E_ARGS, ''invalid text'')
            else Inr (q\<lparr>fq_flags := O_WRITE (\<not> app) app, fq_len := int (length t), fq_buf := Some t\<rparr>)))"

definition system_file_wrap_writeArrayBuffer ::
  "file_env \<Rightarrow> string option \<Rightarrow> jsval option \<Rightarrow> int \<Rightarrow> bool \<Rightarrow> callback_ids \<Rightarrow> files \<Rightarrow> files option" where
  "system_file_wrap_writeArrayBuffer E uri buffer position app c =
     file_load E FILE_WRITEARRBUF uri c (\<lambda>q.
       case buffer of
         None \<Rightarrow> Inl (E_ARGS, ''invalid array buffer'')
       | Some v \<Rightarrow>
           (if ft_get_type v < 0 \<or> (position < 0 \<and> \<not> app) then Inl (E_ARGS, ''invalid array buffer'')
            else if ft_get_type v = FT_TYPE_BUFFER \<or> ft_get_type v = FT_TYPE_TYPED_BUFFER then
              (let b = fv_to_buffer E v
               in Inr (q\<lparr>fq_offset := (if app then 0 else nat position), fq_flags := O_WRITE False app,
                         fq_len := int (length b), fq_buf := Some b\<rparr>))
            else Inl (E_ARGS, ''invalid array buffer type'')))"

definition system_file_wrap_readText :: "file_env \<Rightarrow> string option \<Rightarrow> callback_ids \<Rightarrow> files \<Rightarrow> files option" where
  "system_file_wrap_readText E uri c =
     file_load E FILE_READTEXT uri c (\<lambda>q. Inr (q\<lparr>fq_offset := 0, fq_len := INT32_MIN, fq_flags := O_RDONLY\<rparr>))"

definition system_file_wrap_readArrayBuffer :: "file_env \<Rightarrow> string option \<Rightarrow> int \<Rightarrow> int \<Rightarrow> callback_ids \<Rightarrow> files \<Rightarrow> files option" where
  "system_file_wrap_readArrayBuffer E uri position len c =
     file_load E FILE_READARRBUF uri c (\<lambda>q.
       if 0 \<le> position \<and> (0 \<le> len \<or> len = INT32_MIN)
       then Inr (q\<lparr>fq_offset := nat position, fq_flags := O_RDONLY, fq_len := len\<rparr>)
       else Inl (error_code_map (- EINVAL), fv_strerror E (- EINVAL)))"

text \<open>\<open>__dir_load\<close>.\<close>

definition dir_load :: "file_env \<Rightarrow> file_type \<Rightarrow> string option \<Rightarrow> int \<Rightarrow> callback_ids \<Rightarrow> files \<Rightarrow> files option" where
  "dir_load E type uri flags c s =
     (let q = init_file_req type c; (i, s1) = new_file_req (FReq q) s
      in if \<not> fl_loop s then invoke_cb E i E_GENERAL ''uvloop is null'' None s1
         else if uri = None \<or> ((type = FILE_MKDIR \<or> type = FILE_RMDIR) \<and> is_path_in_tmp uri)
         then invoke_cb E i E_ARGS ''invalid path'' None s1
         else Option.bind (to_absolute E (the uri)) (\<lambda>app_path.
           case app_path of
             None \<Rightarrow> invoke_cb E i E_ARGS ''invalid path'' None s1
           | Some p \<Rightarrow> Some (fl_submit E i (FReq (q\<lparr>fq_filename := p, fq_flags := Flags flags\<rparr>)) s1)))"

definition bool_flag :: "bool \<Rightarrow> int" where
  "bool_flag b = (if b then 1 else 0)"

definition system_file_wrap_mkdir :: "file_env \<Rightarrow> string option \<Rightarrow> bool \<Rightarrow> callback_ids \<Rightarrow> files \<Rightarrow> files option" where
  "system_file_wrap_mkdir E uri recursive c = dir_load E FILE_MKDIR uri (bool_flag recursive) c"

definition system_file_wrap_rmdir :: "file_env \<Rightarrow> string option \<Rightarrow> bool \<Rightarrow> callback_ids \<Rightarrow> files \<Rightarrow> files option" where
  "system_file_wrap_rmdir E uri recursive c = dir_load E FILE_RMDIR uri (bool_flag recursive) c"

definition system_file_wrap_list :: "file_env \<Rightarrow> string option \<Rightarrow> callback_ids \<Rightarrow> files \<Rightarrow> files option" where
  "system_file_wrap_list E uri c = dir_load E FILE_LIST uri (- 1) c"

definition system_file_wrap_get :: "file_env \<Rightarrow> string option \<Rightarrow> bool \<Rightarrow> callback_ids \<Rightarrow> files \<Rightarrow> files option" where
  "system_file_wrap_get E uri recursive c = dir_load E FILE_GET uri (bool_flag recursive) c"

section \<open>Runs\<close>

text \<open>
  \<open>FlWork\<close> is a thread of the pool that takes a request, \<open>FlCancel\<close> the pool refusing it, \<open>FlAfter\<close> the loop that finishes one.
\<close>

definition is_load :: "file_type \<Rightarrow> bool" where
  "is_load t \<longleftrightarrow> t = FILE_WRITEARRBUF \<or> t = FILE_WRITETEXT \<or> t = FILE_READARRBUF \<or> t = FILE_READTEXT"

definition fl_work :: "file_env \<Rightarrow> nat \<Rightarrow> files \<Rightarrow> files option" where
  "fl_work E i s =
     (let s = s\<lparr>fl_queue := remove1 i (fl_queue s)\<rparr>
      in case fl_reqs s ! i of
           None \<Rightarrow> None
         | Some (FsReq q) \<Rightarrow>
             (let (e, fs) = fs_work E q (fl_fs s) in Some (s\<lparr>fl_fs := fs, fl_done := fl_done s @ [(i, - e)]\<rparr>))
         | Some (FReq q) \<Rightarrow>
             map_option (\<lambda>(q, fs). s\<lparr>fl_fs := fs, fl_reqs := (fl_reqs s)[i := Some (FReq q)], fl_done := fl_done s @ [(i, 0)]\<rparr>)
               (if is_load (fq_type q) then load_file_work E q (fl_fs s) else load_dir_work E q (fl_fs s)))"

definition fl_after :: "file_env \<Rightarrow> nat \<Rightarrow> int \<Rightarrow> files \<Rightarrow> files option" where
  "fl_after E i st s =
     (let s = s\<lparr>fl_done := remove1 (i, st) (fl_done s)\<rparr>
      in case fl_reqs s ! i of
           None \<Rightarrow> None
         | Some (FsReq q) \<Rightarrow> uv_fs_req_cb E i q st s
         | Some (FReq q) \<Rightarrow> if is_load (fq_type q) then load_after_work_cb E i q st s else load_dir_after_work_cb E i q st s)"

datatype file_op =
    FlMove bool "string option" "string option" callback_ids
  | FlAccess bool "string option" callback_ids
  | FlWriteText "string option" "string option" bool callback_ids
  | FlWriteBuffer "string option" "jsval option" int bool callback_ids
  | FlReadText "string option" callback_ids
  | FlReadBuffer "string option" int int callback_ids
  | FlMkdir "string option" bool callback_ids
  | FlRmdir "string option" bool callback_ids
  | FlList "string option" callback_ids
  | FlGet "string option" bool callback_ids
  | FlWork nat
  | FlCancel nat int
  | FlAfter nat int
  | FlDetach

fun file_step :: "file_env \<Rightarrow> file_op \<Rightarrow> files \<Rightarrow> files option" where
  "file_step E (FlMove move src dst c) s = file_copy_or_move E move src dst c s"
| "file_step E (FlAccess acc uri c) s = file_access_or_delete E acc uri c s"
| "file_step E (FlWriteText uri t app c) s = system_file_wrap_writeText E uri t app c s"
| "file_step E (FlWriteBuffer uri b pos app c) s = system_file_wrap_writeArrayBuffer E uri b pos app c s"
| "file_step E (FlReadText uri c) s = system_file_wrap_readText E uri c s"
| "file_step E (FlReadBuffer uri pos len c) s = system_file_wrap_readArrayBuffer E uri pos len c s"
| "file_step E (FlMkdir uri rec c) s = system_file_wrap_mkdir E uri rec c s"
| "file_step E (FlRmdir uri rec c) s = system_file_wrap_rmdir E uri rec c s"
| "file_step E (FlList uri c) s = system_file_wrap_list E uri c s"
| "file_step E (FlGet uri rec c) s = system_file_wrap_get E uri rec c s"
| "file_step E (FlWork i) s = (if i \<in> set (fl_queue s) then fl_work E i s else Some s)"
| "file_step E (FlCancel i st) s =
     Some (if i \<in> set (fl_queue s) then s\<lparr>fl_queue := remove1 i (fl_queue s), fl_done := fl_done s @ [(i, st)]\<rparr> else s)"
| "file_step E (FlAfter i st) s = (if (i, st) \<in> set (fl_done s) then fl_after E i st s else Some s)"
| "file_step E FlDetach s =
     Some (case fl_inst s of
             None \<Rightarrow> s
           | Some t \<Rightarrow> (let (t', w) = onDetached (fv_engine E) [] (t, fl_world s) in s\<lparr>fl_inst := Some t', fl_world := w\<rparr>))"

definition new_files :: "inst option \<Rightarrow> world \<Rightarrow> fsys \<Rightarrow> files" where
  "new_files I w fs = \<lparr>fl_inst = I, fl_world = w, fl_loop = True, fl_fs = fs, fl_reqs = [], fl_queue = [], fl_done = [],
     fl_refs = 0, fl_log = []\<rparr>"

end
