(* ===== verification/FileFacts.thy ===== *)
theory FileFacts
  imports Files TextProps
begin

text \<open>
  The invariant of the file module: every open request is submitted or worked on, its paths fit their buffers, the
  information it holds agrees with its counters, and the names of the file system are bounded. Every operation keeps it
  and does not crash.
\<close>

section \<open>Paths and names\<close>

definition valid_comp :: "string \<Rightarrow> bool" where
  "valid_comp c \<longleftrightarrow> c \<noteq> [] \<and> c \<noteq> ''.'' \<and> c \<noteq> ''..'' \<and> CHR ''/'' \<notin> set c"

definition valid_name :: "fname \<Rightarrow> bool" where
  "valid_name k \<longleftrightarrow> list_all valid_comp k"

lemma comps_ne: "comps s \<noteq> []"
  by (induction s) auto

lemma comps_slash: "comps (p @ CHR ''/'' # s) = comps p @ comps s"
  by (induction p) (auto simp: comps_ne)

lemma comps_plain: "CHR ''/'' \<notin> set c \<Longrightarrow> comps c = [c]"
  by (induction c) auto

lemma comps_no_slash: "c \<in> set (comps p) \<Longrightarrow> CHR ''/'' \<notin> set c"
proof (induction p arbitrary: c)
  case (Cons a p)
  have "comps p = hd (comps p) # tl (comps p)" by (simp add: comps_ne)
  then have "set (comps p) = insert (hd (comps p)) (set (tl (comps p)))" by (metis list.simps(15))
  then show ?case using Cons by (auto split: if_splits)
qed simp

lemma valid_enter: "valid_name k \<Longrightarrow> CHR ''/'' \<notin> set c \<Longrightarrow> valid_name (enter k c)"
  by (auto simp: valid_name_def valid_comp_def list_all_iff dest: in_set_butlastD)

lemma valid_foldl: "valid_name k \<Longrightarrow> \<forall>c\<in>set cs. CHR ''/'' \<notin> set c \<Longrightarrow> valid_name (foldl enter k cs)"
  by (induction cs arbitrary: k) (simp_all add: valid_enter del: enter.simps)

lemma resolve_valid: "valid_name (fe_cwd E) \<Longrightarrow> valid_name (resolve E p)"
  unfolding resolve_def by (rule valid_foldl) (auto simp: valid_name_def dest: comps_no_slash)

lemma resolve_entry:
  assumes "p \<noteq> []" "valid_comp c"
  shows "resolve E (p @ CHR ''/'' # c) = resolve E p @ [c]"
proof -
  have "prefix ''/'' (p @ CHR ''/'' # c) = prefix ''/'' p" using assms(1) by (cases p) simp_all
  then show ?thesis using assms(2) by (simp add: resolve_def comps_slash comps_plain valid_comp_def)
qed

lemma resolve_slash: "p \<noteq> [] \<Longrightarrow> resolve E (p @ ''/'') = resolve E p"
  using comps_slash [of p "[]"] by (cases p) (simp_all add: resolve_def)

lemma join_simps [simp]: "join [] = []" "join (k @ [c]) = join k @ CHR ''/'' # c" "join (c # k) = CHR ''/'' # c @ join k"
  by (simp_all add: join_def)

text \<open>A path in the form that \<open>join\<close> gives.\<close>

definition canonical :: "fs_env \<Rightarrow> string \<Rightarrow> bool" where
  "canonical E p \<longleftrightarrow> p \<noteq> [] \<and> p = join (resolve E p)"

lemma canonical_entry: "canonical E p \<Longrightarrow> valid_comp c \<Longrightarrow> canonical E (p @ CHR ''/'' # c)"
  using resolve_entry [of p c E] by (simp add: canonical_def)

lemma resolve_join: "valid_name k \<Longrightarrow> k \<noteq> [] \<Longrightarrow> resolve E (join k) = k"
proof (induction k rule: rev_induct)
  case (snoc c k)
  have c: "valid_comp c" "valid_name k" using snoc.prems(1) by (auto simp: valid_name_def)
  show ?case
  proof (cases "k = []")
    case True
    then show ?thesis using c by (simp add: resolve_def comps_plain valid_comp_def)
  next
    case False
    then have "join k \<noteq> []" by (cases k) simp_all
    then show ?thesis using resolve_entry [OF _ c(1)] snoc.IH [OF c(2) False] by simp
  qed
qed simp

lemma join_Nil_iff [simp]: "join k = [] \<longleftrightarrow> k = []"
  by (cases k) simp_all

lemma canonical_join: "valid_name k \<Longrightarrow> k \<noteq> [] \<Longrightarrow> canonical E (join k)"
  by (simp add: canonical_def resolve_join)

section \<open>File systems\<close>

definition fs_ok :: "fs_env \<Rightarrow> fsys \<Rightarrow> bool" where
  "fs_ok E fs \<longleftrightarrow> list_all (\<lambda>(k, n). k \<noteq> [] \<and> valid_name k \<and> length (join k) \<le> fe_name_max E) fs"

lemma fs_ok_subset: "fs_ok E fs \<Longrightarrow> set fs' \<subseteq> set fs \<Longrightarrow> fs_ok E fs'"
  by (auto simp: fs_ok_def list_all_iff)

lemma fs_ok_drop: "fs_ok E fs \<Longrightarrow> fs_ok E (drop_node k fs)"
  by (rule fs_ok_subset) (auto simp: drop_node_def)

lemma fs_ok_add: "fs_ok E fs \<Longrightarrow> k \<noteq> [] \<Longrightarrow> valid_name k \<Longrightarrow> length (join k) \<le> fe_name_max E \<Longrightarrow> fs_ok E (fs @ [(k, n)])"
  by (simp add: fs_ok_def)

lemma fs_ok_set: "fs_ok E fs \<Longrightarrow> k \<noteq> [] \<Longrightarrow> valid_name k \<Longrightarrow> length (join k) \<le> fe_name_max E \<Longrightarrow> fs_ok E (set_node k n fs)"
  by (induction k n fs rule: set_node.induct) (auto simp: fs_ok_def)

lemma fs_ok_node: "fs_ok E fs \<Longrightarrow> (k, n) \<in> set fs \<Longrightarrow> k \<noteq> [] \<and> valid_name k \<and> length (join k) \<le> fe_name_max E"
  by (auto simp: fs_ok_def list_all_iff)

lemma fs_ok_has: "fs_ok E fs \<Longrightarrow> has_node k fs \<Longrightarrow> k \<noteq> [] \<Longrightarrow> valid_name k \<and> length (join k) \<le> fe_name_max E"
  using fs_ok_node by (fastforce simp: has_node_def dest: map_of_SomeD)

lemma fs_ok_entries:
  assumes "fs_ok E fs" "(c, d) \<in> set (entries k fs)"
  shows "valid_comp c" "length (join k) + Suc (length c) \<le> fe_name_max E"
proof -
  obtain k' n where k: "(k', n) \<in> set fs" "k' \<noteq> []" "butlast k' = k" "c = last k'"
    using assms(2) by (auto simp: entries_def is_child_def)
  then have "k' = k @ [c]" by (metis append_butlast_last_id)
  then show "valid_comp c" "length (join k) + Suc (length c) \<le> fe_name_max E"
    using fs_ok_node [OF assms(1) k(1)] by (auto simp: valid_name_def)
qed

lemma place_error_ok: "place_error E k fs = 0 \<Longrightarrow> length (join k) \<le> fe_name_max E"
  by (simp add: place_error_def errno_defs split: if_splits)

definition env_ok :: "file_env \<Rightarrow> bool" where
  "env_ok E \<longleftrightarrow> (\<forall>c k. 0 \<le> fe_fault (fv_fs E) c k) \<and> fe_name_max (fv_fs E) < PM E - 1 \<and> fv_submit E = 0 \<and> valid_name (fe_cwd (fv_fs E))"

lemma env_okD:
  assumes "env_ok E"
  shows "0 \<le> fe_fault (fv_fs E) c k" "fe_name_max (fv_fs E) < PM E - 1" "fv_submit E = 0" "valid_name (resolve (fv_fs E) p)"
  using assms by (auto simp: env_ok_def resolve_valid)

text \<open>The calls keep the bounds, and their errors are positive.\<close>

lemma os_mkdir_ok:
  assumes "env_ok E" "fs_ok (fv_fs E) fs" "os_mkdir (fv_fs E) p fs = (e, fs')"
  shows "fs_ok (fv_fs E) fs'" "0 \<le> e"
  using assms env_okD [OF assms(1)] place_error_ok [of "fv_fs E" "resolve (fv_fs E) p" fs]
  by (auto simp: os_mkdir_def Let_def has_node_def place_error_def errno_defs intro!: fs_ok_add split: if_splits)

lemma os_unlink_ok: "fs_ok E fs \<Longrightarrow> fs_ok E (snd (os_unlink E p fs))"
  by (auto simp: os_unlink_def Let_def intro: fs_ok_drop)

lemma os_rmdir_ok:
  assumes "env_ok E" "fs_ok (fv_fs E) fs" "os_rmdir (fv_fs E) p fs = (e, fs')"
  shows "fs_ok (fv_fs E) fs'" "0 \<le> e"
  using assms env_okD(1) [OF assms(1)] by (auto simp: os_rmdir_def Let_def errno_defs intro: fs_ok_drop split: if_splits)

lemma os_opendir_ok:
  assumes "env_ok E" "os_opendir (fv_fs E) p fs = (e, es)"
  shows "0 \<le> e" "e = 0 \<Longrightarrow> es = entries (resolve (fv_fs E) p) fs"
  using assms env_okD(1) [OF assms(1)] by (auto simp: os_opendir_def Let_def errno_defs split: if_splits)

lemma os_open_ok:
  assumes "env_ok E" "fs_ok (fv_fs E) fs" "os_open (fv_fs E) wr trunc p fs = (e, fs')"
  shows "fs_ok (fv_fs E) fs'" "0 \<le> e" "e = 0 \<Longrightarrow> has_node (resolve (fv_fs E) p) fs' \<and> resolve (fv_fs E) p \<noteq> []"
proof -
  let ?k = "resolve (fv_fs E) p"
  have set: "has_node k (set_node k n fs)" for k n by (induction k n fs rule: set_node.induct) (auto simp: has_node_def)
  have len: "has_node ?k fs \<Longrightarrow> ?k \<noteq> [] \<Longrightarrow> length (join ?k) \<le> fe_name_max (fv_fs E)" using fs_ok_has [OF assms(2)] by blast
  have "fs_ok (fv_fs E) fs' \<and> 0 \<le> e \<and> (e = 0 \<longrightarrow> has_node ?k fs' \<and> ?k \<noteq> [])"
  proof (cases "fe_fault (fv_fs E) COpen ?k \<noteq> 0 \<or> is_dir ?k fs")
    case True
    then show ?thesis using assms env_okD(1) [OF assms(1)] by (auto simp: os_open_def Let_def errno_defs split: if_splits)
  next
    case False
    then have ne: "?k \<noteq> []" by (auto simp: is_dir_def)
    show ?thesis
    proof (cases "has_node ?k fs")
      case True
      then show ?thesis using False assms(2,3) ne len set env_okD(4) [OF assms(1)]
        by (auto simp: os_open_def Let_def intro!: fs_ok_set split: if_splits)
    next
      case absent: False
      then show ?thesis using False assms(2,3) ne env_okD(4) [OF assms(1)] place_error_ok [of "fv_fs E" ?k fs]
        by (auto simp: os_open_def Let_def errno_defs place_error_def has_node_def map_add_def intro!: fs_ok_add split: if_splits)
    qed
  qed
  then show "fs_ok (fv_fs E) fs'" "0 \<le> e" "e = 0 \<Longrightarrow> has_node ?k fs' \<and> ?k \<noteq> []" by blast+
qed

lemma fs_work_ok:
  assumes "env_ok E" "fs_ok (fv_fs E) fs" "fs_work E q fs = (e, fs')"
  shows "fs_ok (fv_fs E) fs'" "0 \<le> e"
proof -
  let ?k = "resolve (fv_fs E) (fr_path q)" and ?k' = "resolve (fv_fs E) (fr_new_path q)"
  have f: "0 \<le> fe_fault (fv_fs E) c k" for c k by (rule env_okD(1) [OF assms(1)])
  have v: "valid_name ?k'" by (rule env_okD(4) [OF assms(1)])
  have mv: "valid_name (rename_key ?k ?k' x)" if "valid_name x" for x
    using v that by (auto simp: rename_key_def valid_name_def list_all_iff dest: in_set_dropD)
  have ne: "rename_key ?k ?k' x \<noteq> []" if "x \<noteq> []" "?k' \<noteq> []" for x using that by (auto simp: rename_key_def)
  have ren: "fs_ok (fv_fs E) (map (\<lambda>(x, n). (rename_key ?k ?k' x, n)) (drop_node ?k' fs))"
    if "list_all (\<lambda>(x, n). length (join x) \<le> fe_name_max (fv_fs E)) (map (\<lambda>(x, n). (rename_key ?k ?k' x, n)) (drop_node ?k' fs))" "?k' \<noteq> []"
    using that fs_ok_drop [OF assms(2), of ?k'] mv ne by (fastforce simp: fs_ok_def list_all_iff)
  have "fs_ok (fv_fs E) fs' \<and> 0 \<le> e"
  proof (cases "fr_type q")
    case UV_FS_RENAME
    then show ?thesis using assms(2,3) f ren
      by (auto simp: fs_work_def os_rename_def Let_def errno_defs place_error_def split: if_splits)
  next
    case UV_FS_COPYFILE
    have len: "has_node ?k' fs \<or> place_error (fv_fs E) ?k' fs = 0 \<Longrightarrow> ?k' \<noteq> [] \<Longrightarrow> length (join ?k') \<le> fe_name_max (fv_fs E)"
      using place_error_ok fs_ok_has [OF assms(2)] by blast
    show ?thesis using UV_FS_COPYFILE assms(2,3) f v len
      by (auto simp: fs_work_def os_copyfile_def Let_def errno_defs place_error_def is_dir_def intro!: fs_ok_set split: if_splits)
  next
    case UV_FS_ACCESS
    then show ?thesis using assms(2,3) by (auto simp: fs_work_def errno_defs split: if_splits)
  next
    case UV_FS_UNLINK
    then show ?thesis using assms(2,3) f os_unlink_ok [OF assms(2), of "fr_path q"]
      by (auto simp: fs_work_def os_unlink_def Let_def errno_defs split: if_splits)
  qed
  then show "fs_ok (fv_fs E) fs'" "0 \<le> e" by blast+
qed

section \<open>A path that is made from an internal one turns back\<close>

lemma strstr_first: "prefix n (drop j s) \<Longrightarrow> j \<le> length s \<Longrightarrow> \<exists>i. strstr s n = Some i \<and> i \<le> j"
proof (induction s arbitrary: j)
  case (Cons c s)
  show ?case
  proof (cases j)
    case (Suc m)
    then show ?thesis using Cons.IH [of m] Cons.prems by (cases "prefix n (c # s)") auto
  qed (use Cons.prems in simp)
qed auto

lemma strstr_in: "strstr (a @ n @ b) n \<noteq> None"
  using strstr_first [of n "length a" "a @ n @ b"] by auto

lemma after_slash: "\<exists>a'. drop 1 (dropWhile (\<lambda>c. c \<noteq> CHR ''/'') (a @ CHR ''/'' # b)) = a' @ b"
proof (induction a)
  case (Cons c a)
  show ?case by (cases "c = CHR ''/''") (use Cons in \<open>auto intro: exI [of _ "a @ ''/''"]\<close>)
qed (auto intro: exI [of _ "[]"])

lemma moved_path_turns_back:
  assumes "to_absolute E uri = Some (Some p)" "length p < PM E - 1" "\<not> is_path_in_tmp (Some uri)"
  shows "app_absolute_to_relative_path (fe_path (fv_fs E)) (fv_pkg E) (Some p) \<noteq> None"
proof -
  let ?pe = "fe_path (fv_fs E)" and ?off = "drop (length APP_PATH_PREFIX) uri"
  define ty where "ty = takeWhile (\<lambda>c. c \<noteq> CHR ''/'') ?off"
  have x: "strstr uri APP_PATH_PREFIX \<noteq> None" using assms(1) by (auto simp: to_absolute_def app_relative_to_absolute_path_def split: if_splits)
  have nt: "ty \<noteq> type_list ! 3"
  proof
    assume "ty = type_list ! 3"
    moreover have "prefix ty ?off" unfolding ty_def by (metis prefixI takeWhile_dropWhile_id)
    ultimately show False using assms(3) x by (auto simp: is_path_in_tmp_def)
  qed
  define X where "X = ABS_PATH_PREFIX @ CHR ''/'' # ty @ CHR ''/'' # fv_pkg E"
  have "\<exists>g. p = snprintf (PM E) (pe_cwd ?pe) (ABS_PATH_PREFIX @ CHR ''/'' # ty @ CHR ''/'' # fv_pkg E) @ g"
    using assms(1) x nt
    by (auto simp: to_absolute_def app_relative_to_absolute_path_def Let_def ty_def [symmetric] PM_def strcat_def
        split: if_splits option.splits bind_splits)
  then obtain g where g: "p = snprintf (PM E) (pe_cwd ?pe) X @ g" unfolding X_def by blast
  have "take (PM E - length (pe_cwd ?pe) - 1) X = X"
    using assms(2) unfolding g by (simp add: snprintf_def min_def split: if_splits)
  then have p: "p = pe_cwd ?pe @ ABS_PATH_PREFIX @ CHR ''/'' # ty @ CHR ''/'' # fv_pkg E @ g" unfolding g snprintf_def X_def by simp
  obtain i where i: "strstr p ABS_PATH_PREFIX = Some i" "i \<le> length (pe_cwd ?pe)"
    using strstr_first [of ABS_PATH_PREFIX "length (pe_cwd ?pe)" p] unfolding p by auto
  define A where "A = drop (i + length ABS_PATH_PREFIX) (pe_cwd ?pe @ ABS_PATH_PREFIX)"
  have r: "drop (i + length ABS_PATH_PREFIX) p = A @ CHR ''/'' # ty @ CHR ''/'' # fv_pkg E @ g"
    using i(2) unfolding p A_def by simp
  obtain a where a: "drop 1 (dropWhile (\<lambda>c. c \<noteq> CHR ''/'') (drop (i + length ABS_PATH_PREFIX) p)) = a @ ty @ CHR ''/'' # fv_pkg E @ g"
    unfolding r using after_slash by blast
  have "strstr (a @ ty @ CHR ''/'' # fv_pkg E @ g) (fv_pkg E) \<noteq> None" using strstr_in [of "a @ ty @ ''/''" "fv_pkg E" g] by simp
  moreover have "CHR ''/'' \<in> set (drop (i + length ABS_PATH_PREFIX) p)" unfolding r by simp
  ultimately show ?thesis using i(1) a by (auto simp: app_absolute_to_relative_path_def Let_def)
qed

section \<open>Directories\<close>

lemma create_dir_ok:
  assumes "env_ok E" "fs_ok (fv_fs E) fs" "length path < PM E - 1"
  shows "\<exists>r' fs'. create_dir E flags path r fs = Some (r', fs') \<and> fs_ok (fv_fs E) fs'"
  using assms
proof (induction E flags path r fs rule: create_dir.induct)
  case (1 E flags path r fs)
  show ?case
  proof (cases "path = ''.'' \<or> path = ''/'' \<or> os_access (fv_fs E) path fs \<or> (flags = 1 \<and> CHR ''/'' \<notin> set path)")
    case True
    then show ?thesis using "1.prems" by (subst create_dir.simps) auto
  next
    case False
    have "\<exists>r1 fs1. (if flags = 1 then create_dir E flags (dir_part path) r fs else Some (r, fs)) = Some (r1, fs1) \<and> fs_ok (fv_fs E) fs1"
      using "1.IH" False "1.prems" dir_part_length [of path] by (cases "flags = 1") auto
    then obtain r1 fs1 where p: "(if flags = 1 then create_dir E flags (dir_part path) r fs else Some (r, fs)) = Some (r1, fs1)" "fs_ok (fv_fs E) fs1"
      by blast
    obtain e fs2 where m: "os_mkdir (fv_fs E) path fs1 = (e, fs2)" by (cases "os_mkdir (fv_fs E) path fs1")
    show ?thesis using False "1.prems" p m os_mkdir_ok(1) [OF "1.prems"(1) p(2)] by (subst create_dir.simps) auto
  qed
qed

text \<open>Below a canonical path that exists no path is cut off, and the recursion goes at most as deep as paths are long.\<close>

definition names_ok :: "file_env \<Rightarrow> string \<Rightarrow> (string \<times> bool) list \<Rightarrow> bool" where
  "names_ok E p es \<longleftrightarrow> list_all (\<lambda>(c, d). valid_comp c \<and> length p + Suc (length c) \<le> fe_name_max (fv_fs E)) es"

lemma entry_path_ok:
  assumes "env_ok E" "canonical (fv_fs E) p" "valid_comp c" "length p + Suc (length c) \<le> fe_name_max (fv_fs E)"
  shows "entry_path E p c = p @ CHR ''/'' # c" "canonical (fv_fs E) (p @ CHR ''/'' # c)" "length (p @ CHR ''/'' # c) < PM E - 1"
    "resolve (fv_fs E) (p @ CHR ''/'' # c) = resolve (fv_fs E) p @ [c]"
  using assms env_okD(2) [OF assms(1)] canonical_entry [OF assms(2,3)] resolve_entry [of p c "fv_fs E"]
  by (auto simp: entry_path_def snprintf_def canonical_def)

lemma opendir_names:
  assumes "env_ok E" "fs_ok (fv_fs E) fs" "canonical (fv_fs E) p" "os_opendir (fv_fs E) p fs = (0, es)"
  shows "names_ok E p es"
proof -
  have "es = entries (resolve (fv_fs E) p) fs" using os_opendir_ok(2) [OF assms(1,4)] by simp
  moreover have "join (resolve (fv_fs E) p) = p" using assms(3) by (simp add: canonical_def)
  ultimately show ?thesis using fs_ok_entries [OF assms(2), where k = "resolve (fv_fs E) p"] by (fastforce simp: names_ok_def list_all_iff)
qed

lemma remove_ok:
  "env_ok E \<Longrightarrow> fs_ok (fv_fs E) fs \<Longrightarrow> canonical (fv_fs E) p \<Longrightarrow> length p < PM E \<Longrightarrow> PM E < fuel + length p \<Longrightarrow>
    \<exists>r' fs'. remove_dir E flags fuel p r fs = Some (r', fs') \<and> fs_ok (fv_fs E) fs'"
  "env_ok E \<Longrightarrow> fs_ok (fv_fs E) fs \<Longrightarrow> canonical (fv_fs E) p \<Longrightarrow> PM E \<le> fuel + length p \<Longrightarrow> names_ok E p es \<Longrightarrow>
    \<exists>r' fs'. remove_entries E flags fuel p es r fs = Some (r', fs') \<and> fs_ok (fv_fs E) fs'"
proof (induction E flags fuel p r fs and E flags fuel p es r fs rule: remove_dir_remove_entries.induct)
  case (2 E flags fuel p r fs)
  obtain e es where o: "os_opendir (fv_fs E) p fs = (e, es)" by (cases "os_opendir (fv_fs E) p fs")
  show ?case
  proof (cases "e = 0")
    case True
    then have n: "names_ok E p es" using opendir_names [OF "2.prems"(1-3)] o by simp
    have "\<exists>r1 fs1. (if flags = 1 then remove_entries E flags fuel p es r fs else Some (r, fs)) = Some (r1, fs1) \<and> fs_ok (fv_fs E) fs1"
      using "2.IH" [OF o [symmetric] refl] True n "2.prems" by auto
    then obtain r1 fs1 where p: "(if flags = 1 then remove_entries E flags fuel p es r fs else Some (r, fs)) = Some (r1, fs1)" "fs_ok (fv_fs E) fs1"
      by blast
    obtain e' fs2 where "os_rmdir (fv_fs E) p fs1 = (e', fs2)" by (cases "os_rmdir (fv_fs E) p fs1")
    then show ?thesis using True o p os_rmdir_ok(1) [OF "2.prems"(1) p(2)] by (auto simp: Let_def)
  qed (use o "2.prems" in simp)
next
  case (4 E flags fuel p c d es r fs)
  have c: "valid_comp c" "length p + Suc (length c) \<le> fe_name_max (fv_fs E)" "names_ok E p es" using "4.prems"(5) by (auto simp: names_ok_def)
  note ep = entry_path_ok [OF "4.prems"(1,3) c(1,2)]
  have lt: "length (entry_path E p c) < PM E" "PM E < fuel + length (entry_path E p c)" using ep(1,3) "4.prems"(4) c(1) by (auto simp: valid_comp_def neq_Nil_conv)
  have cn: "canonical (fv_fs E) (entry_path E p c)" using ep(1,2) by simp
  show ?case
  proof (cases d)
    case True
    obtain r1 fs1 where "remove_dir E flags fuel (entry_path E p c) r fs = Some (r1, fs1)" "fs_ok (fv_fs E) fs1"
      using "4.IH"(1) [OF refl True "4.prems"(1,2) cn lt] by blast
    then show ?thesis using "4.IH"(2) [OF refl True, of "(r1, fs1)" r1 fs1] "4.prems" c(3) True by simp
  next
    case False
    then show ?thesis using "4.IH"(3) [OF refl] "4.prems" c(3) os_unlink_ok [OF "4.prems"(2), of "entry_path E p c"] by simp
  qed
qed simp_all

text \<open>The counters of an information agree with what it lists.\<close>

fun info_ok :: "file_info \<Rightarrow> bool" where
  "info_ok (FileInfo d uri len mt dn fn kids) \<longleftrightarrow>
     dn = length (filter fi_is_dir kids) \<and> fn = length (filter (\<lambda>i. \<not> fi_is_dir i) kids) \<and> list_all info_ok kids"

lemma get_info_ok:
  assumes "env_ok E" "get_info E p fs = (i, r)"
  shows "\<And>x. i = Some x \<Longrightarrow> info_ok x \<and> r = 0"
  using assms(2) by (auto simp: get_info_def split: sum.splits option.splits)

lemma add_child_ok: "info_ok root \<Longrightarrow> info_ok i \<Longrightarrow> info_ok (add_child root i)"
  by (cases root) (simp add: add_child_def)

lemma read_ok:
  "env_ok E \<Longrightarrow> fs_ok (fv_fs E) fs \<Longrightarrow> canonical (fv_fs E) p \<Longrightarrow> length p < PM E \<Longrightarrow> PM E < fuel + length p \<Longrightarrow> info_ok root \<Longrightarrow>
    \<exists>root' r'. read_dir E fs deep fuel p root r = Some (root', r') \<and> info_ok root'"
  "env_ok E \<Longrightarrow> fs_ok (fv_fs E) fs \<Longrightarrow> canonical (fv_fs E) p \<Longrightarrow> PM E \<le> fuel + length p \<Longrightarrow> names_ok E p es \<Longrightarrow> info_ok root \<Longrightarrow>
    \<exists>root' r'. read_entries E fs deep fuel p es root r = Some (root', r') \<and> info_ok root'"
proof (induction E fs deep fuel p root r and E fs deep fuel p es root r rule: read_dir_read_entries.induct)
  case (2 E fs deep fuel p root r)
  obtain e es where o: "os_opendir (fv_fs E) p fs = (e, es)" by (cases "os_opendir (fv_fs E) p fs")
  show ?case
  proof (cases "e = 0")
    case True
    then have "names_ok E p es" using opendir_names [OF "2.prems"(1-3)] o by simp
    then show ?thesis using "2.IH" [OF o [symmetric] refl] True o "2.prems" by simp
  qed (use o "2.prems" in simp)
next
  case (4 E fs deep fuel p c d es root r)
  have c: "valid_comp c" "length p + Suc (length c) \<le> fe_name_max (fv_fs E)" "names_ok E p es" using "4.prems"(5) by (auto simp: names_ok_def)
  note ep = entry_path_ok [OF "4.prems"(1,3) c(1,2)]
  have lt: "length (entry_path E p c) < PM E" "PM E < fuel + length (entry_path E p c)" using ep(1,3) "4.prems"(4) c(1) by (auto simp: valid_comp_def neq_Nil_conv)
  have cn: "canonical (fv_fs E) (entry_path E p c)" using ep(1,2) by simp
  obtain fi r1 where g: "get_info E (entry_path E p c) fs = (fi, r1)" by (cases "get_info E (entry_path E p c) fs")
  show ?case
  proof (cases fi)
    case None
    then show ?thesis using "4.IH"(1) [OF refl g [symmetric]] "4.prems" c(3) g by simp
  next
    case (Some i)
    have i: "info_ok i" using get_info_ok [OF "4.prems"(1) g Some] by blast
    have "\<exists>i' r2. (if deep \<and> d then read_dir E fs deep fuel (entry_path E p c) i r1 else Some (i, r1)) = Some (i', r2) \<and> info_ok i'"
      using "4.IH"(2) [OF refl g [symmetric] refl Some] cn lt "4.prems"(1,2) i by auto
    then obtain i' r2 where p: "(if deep \<and> d then read_dir E fs deep fuel (entry_path E p c) i r1 else Some (i, r1)) = Some (i', r2)" "info_ok i'"
      by blast
    show ?thesis using "4.IH"(3) [OF refl g [symmetric] refl Some, of "(i', r2)" i' r2] "4.prems" c(3) g Some p
        add_child_ok [OF "4.prems"(6) p(2)] by simp
  qed
qed simp_all

lemma extended_ok:
  "info_ok i \<Longrightarrow> \<exists>v. extended_file_info flags i = Some v"
  "list_all info_ok is \<Longrightarrow> \<exists>vs. extended_file_infos flags is = Some vs \<and> length vs = length is"
proof (induction flags i and flags "is" rule: extended_file_info_extended_file_infos.induct)
  case (1 flags d uri len mt dn fn kids)
  have "length kids = dn + fn" using "1.prems" sum_length_filter_compl [of fi_is_dir kids] by simp
  then show ?case using 1 by (auto simp: sized_array_def)
qed auto

lemma file_list_ok: "info_ok root \<Longrightarrow> \<exists>v. file_list root = Some v"
  by (cases root) (simp add: file_list_def sized_array_def)

section \<open>Reading and writing\<close>

lemma load_file_ok:
  assumes "env_ok E" "fs_ok (fv_fs E) fs" "length (fq_filename q) < PM E - 1" "CHR ''/'' \<in> set (fq_filename q)"
  shows "\<exists>q' fs'. load_file_work E q fs = Some (q', fs') \<and> fs_ok (fv_fs E) fs' \<and> fq_type q' = fq_type q \<and> fq_root q' = fq_root q \<and>
    (fq_flags q = O_RDONLY \<longrightarrow> 0 \<le> fq_r q' \<longrightarrow> fq_buf q' \<noteq> None)"
proof -
  let ?k = "resolve (fv_fs E) (fq_filename q)"
  have f: "0 \<le> fe_fault (fv_fs E) c k" for c k by (rule env_okD(1) [OF assms(1)])
  have read: "fq_type (read_file E x y) = fq_type x \<and> fq_root (read_file E x y) = fq_root x \<and> (0 \<le> fq_r (read_file E x y) \<longrightarrow> fq_buf (read_file E x y) \<noteq> None)" for x y
    using f by (auto simp: read_file_def Let_def os_read_def order_antisym)
  have wr: "fs_ok (fv_fs E) (snd (write_file E a x y)) \<and> fq_type (fst (write_file E a x y)) = fq_type x \<and>
      fq_root (fst (write_file E a x y)) = fq_root x"
    if "fs_ok (fv_fs E) y" "has_node ?k y" "?k \<noteq> []" "fq_filename x = fq_filename q" for a x y
    using that fs_ok_has [OF that(1,2,3)] by (auto simp: write_file_def os_write_def Let_def split: option.splits intro!: fs_ok_set)
  have stat: "os_stat (fv_fs E) p fs = Inl e \<Longrightarrow> 0 < e" for p e
    using f [of CStat "resolve (fv_fs E) p"] by (auto simp: os_stat_def Let_def errno_defs split: if_splits option.splits fnode.splits)
  have op: "\<exists>e x' y'. open_file E x y = Some (e, x', y') \<and> fs_ok (fv_fs E) y' \<and> 0 \<le> e \<and> fq_type x' = fq_type x \<and> fq_root x' = fq_root x \<and> fq_filename x' = fq_filename x \<and>
      (e = 0 \<longrightarrow> has_node ?k y' \<and> ?k \<noteq> [])" if y: "fs_ok (fv_fs E) y" and x: "fq_filename x = fq_filename q" for x y
  proof -
    define try_open where "try_open = os_open (fv_fs E) (fq_flags x \<noteq> O_RDONLY) (O_TRUNC (fq_flags x)) (fq_filename x)"
    note try_ok = os_open_ok [where p = "fq_filename x" and wr = "fq_flags x \<noteq> O_RDONLY" and trunc = "O_TRUNC (fq_flags x)", OF assms(1), folded try_open_def]
    obtain e y1 where o1: "try_open y = (e, y1)" by (cases "try_open y")
    note k1 = try_ok [OF y o1]
    have l: "length (dir_part (fq_filename x)) < PM E - 1" using dir_part_length [OF assms(4)] assms(3) by (simp add: x)
    obtain r y2 where c: "create_dir E 1 (dir_part (fq_filename x)) (fq_r x) y1 = Some (r, y2)" "fs_ok (fv_fs E) y2"
      using create_dir_ok [OF assms(1) k1(1) l] by blast
    obtain e' y3 where o2: "try_open y2 = (e', y3)" by (cases "try_open y2")
    note k2 = try_ok [OF c(2) o2]
    have "open_file E x y = (if e = 0 then Some (0, x, y1) else Some (e', x\<lparr>fq_flags := Flags 1, fq_r := r\<rparr>, y3))"
      using o1 o2 c(1) assms(3,4) [folded x] unfolding open_file_def try_open_def [symmetric] by (simp add: Let_def)
    then show ?thesis using k1 k2 by (cases "e = 0") (simp_all add: x)
  qed
  show ?thesis
  proof (cases "if fq_len q = INT32_MIN then map_sum id (\<lambda>st. q\<lparr>fq_len := int (fs_size st)\<rparr>) (os_stat (fv_fs E) (fq_filename q) fs) else Inr q")
    case (Inl e)
    then have "0 < e" using stat [of "fq_filename q" e] by (cases "os_stat (fv_fs E) (fq_filename q) fs") (auto split: if_splits)
    then show ?thesis using Inl assms(2) by (simp add: load_file_work_def)
  next
    case (Inr q1)
    then have q1: "fq_filename q1 = fq_filename q" "fq_type q1 = fq_type q" "fq_flags q1 = fq_flags q" "fq_root q1 = fq_root q"
      by (cases "os_stat (fv_fs E) (fq_filename q) fs"; auto split: if_splits)+
    obtain e q2 fs2 where o: "open_file E q1 fs = Some (e, q2, fs2)" "fs_ok (fv_fs E) fs2" "0 \<le> e" "fq_type q2 = fq_type q1" "fq_root q2 = fq_root q1"
      "fq_filename q2 = fq_filename q1" "e = 0 \<longrightarrow> has_node ?k fs2 \<and> ?k \<noteq> []"
      using op [OF assms(2) q1(1)] by blast
    have w: "load_file_work E q fs = (if fq_flags q \<noteq> O_RDONLY \<and> \<not> fv_disk E then Some (q1\<lparr>fq_r := - ENOSPC\<rparr>, fs)
        else Some (if e \<noteq> 0 then (q2\<lparr>fq_r := - e\<rparr>, fs2) else if fq_flags q = O_RDONLY then (read_file E q2 fs2, fs2)
          else write_file E (O_APPEND (fq_flags q)) q2 fs2))"
      using Inr o(1) q1(3) by (simp add: load_file_work_def Let_def)
    show ?thesis unfolding w using o(2-7) q1 assms(2) read [of q2 fs2] wr [OF o(2), of q2 "O_APPEND (fq_flags q)"]
      by (cases "write_file E (O_APPEND (fq_flags q)) q2 fs2") (auto simp: errno_defs)
  qed
qed

section \<open>The invariant\<close>

definition is_read :: "file_type \<Rightarrow> bool" where
  "is_read t \<longleftrightarrow> t = FILE_READTEXT \<or> t = FILE_READARRBUF"

fun worked_ok :: "file_env \<Rightarrow> freq \<Rightarrow> bool" where
  "worked_ok E (FsReq q) \<longleftrightarrow> (fr_type q = UV_FS_COPYFILE \<or> fr_type q = UV_FS_RENAME \<longrightarrow>
     app_absolute_to_relative_path (fe_path (fv_fs E)) (fv_pkg E) (Some (fr_new_path q)) \<noteq> None)"
| "worked_ok E (FReq q) \<longleftrightarrow>
     (is_read (fq_type q) \<longrightarrow> 0 \<le> fq_r q \<longrightarrow> fq_buf q \<noteq> None) \<and> (case fq_root q of None \<Rightarrow> True | Some i \<Rightarrow> info_ok i)"

fun req_ok :: "file_env \<Rightarrow> freq \<Rightarrow> bool" where
  "req_ok E (FsReq q) \<longleftrightarrow> worked_ok E (FsReq q)"
| "req_ok E (FReq q) \<longleftrightarrow> fq_r q < 0 \<and> fq_root q = None \<and> length (fq_filename q) < PM E - 1 \<and>
     (if is_load (fq_type q) then CHR ''/'' \<in> set (fq_filename q) \<and> (is_read (fq_type q) \<longrightarrow> fq_flags q = O_RDONLY)
      else canonical (fv_fs E) (fq_filename q))"

lemma req_worked: "req_ok E q \<Longrightarrow> worked_ok E q"
  by (cases q) auto

text \<open>\<open>ids\<close> are the open requests that an operation has in hand.\<close>

definition log_ok' :: "files \<Rightarrow> bool" where
  "log_ok' s \<longleftrightarrow> distinct (fl_log s) \<and> set (fl_log s) = {0..<length (fl_reqs s)} - live (fl_reqs s)"

definition flinv' :: "file_env \<Rightarrow> nat list \<Rightarrow> files \<Rightarrow> bool" where
  "flinv' E ids s \<longleftrightarrow> env_ok E \<and> fs_ok (fv_fs E) (fl_fs s) \<and>
     distinct (ids @ fl_queue s @ map fst (fl_done s)) \<and> set (ids @ fl_queue s @ map fst (fl_done s)) = live (fl_reqs s) \<and>
     fl_refs s = count_live (\<lambda>_. True) (fl_reqs s) \<and> log_ok' s \<and>
     (\<forall>i\<in>set (fl_queue s). req_ok E (the (fl_reqs s ! i))) \<and> (\<forall>i\<in>set (map fst (fl_done s)). worked_ok E (the (fl_reqs s ! i)))"

abbreviation flinv :: "file_env \<Rightarrow> files \<Rightarrow> bool" where
  "flinv E \<equiv> flinv' E []"

lemma flinv_world [simp]: "flinv' E ids (s\<lparr>fl_world := w\<rparr>) = flinv' E ids s" "flinv' E ids (s\<lparr>fl_inst := t\<rparr>) = flinv' E ids s"
  by (simp_all add: flinv'_def log_ok'_def)

lemma flinv_fs: "flinv' E ids s \<Longrightarrow> fs_ok (fv_fs E) fs \<Longrightarrow> flinv' E ids (s\<lparr>fl_fs := fs\<rparr>)"
  by (simp add: flinv'_def log_ok'_def)

lemma flinv_new:
  assumes "flinv E s" "new_file_req q s = (i, s1)"
  shows "flinv' E [i] s1" "fl_reqs s1 ! i = Some q" "fl_loop s1 = fl_loop s" "fl_fs s1 = fl_fs s"
proof -
  have s1: "i = length (fl_reqs s)" "s1 = s\<lparr>fl_reqs := fl_reqs s @ [Some q], fl_refs := Suc (fl_refs s)\<rparr>"
    using assms(2) by (simp_all add: new_file_req_def)
  have l: "i \<notin> live (fl_reqs s)" unfolding s1(1) by (rule live_facts(1))
  have old: "(fl_reqs s @ [Some q]) ! j = fl_reqs s ! j" if "j \<in> live (fl_reqs s)" for j
    using live_facts(3) [OF that] by (simp add: nth_append)
  have open_ids: "set (fl_queue s) \<union> fst ` set (fl_done s) = live (fl_reqs s)" using assms(1) by (simp add: flinv'_def)
  then have "i \<notin> set (fl_queue s) \<union> fst ` set (fl_done s)" using l by simp
  moreover have "j \<in> set (fl_queue s) \<Longrightarrow> (fl_reqs s @ [Some q]) ! j = fl_reqs s ! j" for j using old open_ids by blast
  moreover have "x \<in> set (fl_done s) \<Longrightarrow> (fl_reqs s @ [Some q]) ! fst x = fl_reqs s ! fst x" for x using old open_ids by blast
  moreover have "{0..<Suc i} - insert i (live (fl_reqs s)) = {0..<i} - live (fl_reqs s)" by auto
  ultimately show "flinv' E [i] s1" using assms(1) s1(1) live_facts(1) [of "fl_reqs s"] by (simp add: flinv'_def log_ok'_def s1(2))
  show "fl_reqs s1 ! i = Some q" "fl_loop s1 = fl_loop s" "fl_fs s1 = fl_fs s" using s1 by simp_all
qed

lemma flinv_submit:
  assumes "flinv' E [i] s" "req_ok E q"
  shows "flinv E (fl_submit E i q s)"
proof -
  have l: "i \<in> live (fl_reqs s)" using assms(1) by (auto simp: flinv'_def)
  then obtain q0 where "fl_reqs s ! i = Some q0" using liveD by blast
  then have "count_live (\<lambda>_. True) ((fl_reqs s)[i := Some q]) = count_live (\<lambda>_. True) (fl_reqs s)"
    by (intro count_live_update) (use live_facts(3) [OF l] in auto)
  moreover have "fv_submit E = 0" using assms(1) env_okD(3) by (simp add: flinv'_def)
  moreover have "the ((fl_reqs s)[i := Some q] ! j) = (if j = i then q else the (fl_reqs s ! j))" for j
    using live_facts(3) [OF l] by (simp add: nth_list_update)
  ultimately show ?thesis using assms l by (simp add: flinv'_def log_ok'_def fl_submit_def) auto
qed

lemma flinv_done:
  assumes "flinv' E [i] s" "worked_ok E q"
  shows "flinv E (s\<lparr>fl_reqs := (fl_reqs s)[i := Some q], fl_done := fl_done s @ [(i, st)]\<rparr>)"
proof -
  have l: "i \<in> live (fl_reqs s)" using assms(1) by (auto simp: flinv'_def)
  then obtain q0 where "fl_reqs s ! i = Some q0" using liveD by blast
  then have "count_live (\<lambda>_. True) ((fl_reqs s)[i := Some q]) = count_live (\<lambda>_. True) (fl_reqs s)"
    by (intro count_live_update) (use live_facts(3) [OF l] in auto)
  moreover have "the ((fl_reqs s)[i := Some q] ! j) = (if j = i then q else the (fl_reqs s ! j))" for j
    using live_facts(3) [OF l] by (simp add: nth_list_update)
  ultimately show ?thesis using assms l by (simp add: flinv'_def log_ok'_def)
qed

lemma flinv_take:
  assumes "flinv E s"
  shows "i \<in> set (fl_queue s) \<Longrightarrow> flinv' E [i] (s\<lparr>fl_queue := remove1 i (fl_queue s)\<rparr>)"
    "(i, st) \<in> set (fl_done s) \<Longrightarrow> flinv' E [i] (s\<lparr>fl_done := remove1 (i, st) (fl_done s)\<rparr>)"
proof -
  have d: "distinct (fl_queue s @ map fst (fl_done s))" "set (fl_queue s @ map fst (fl_done s)) = live (fl_reqs s)"
    using assms by (simp_all add: flinv'_def)
  show "flinv' E [i] (s\<lparr>fl_queue := remove1 i (fl_queue s)\<rparr>)" if q: "i \<in> set (fl_queue s)"
    using assms q by (auto simp: flinv'_def log_ok'_def)
  show "flinv' E [i] (s\<lparr>fl_done := remove1 (i, st) (fl_done s)\<rparr>)" if q: "(i, st) \<in> set (fl_done s)"
  proof -
    have "mset (i # map fst (remove1 (i, st) (fl_done s))) = mset (map fst (fl_done s))"
    proof -
      have "mset (fl_done s) = add_mset (i, st) (mset (remove1 (i, st) (fl_done s)))" using q by simp
      then have "image_mset fst (mset (fl_done s)) = add_mset i (image_mset fst (mset (remove1 (i, st) (fl_done s))))" by (metis fst_conv image_mset_add_mset)
      then show ?thesis by simp
    qed
    then have m: "distinct (i # map fst (remove1 (i, st) (fl_done s))) = distinct (map fst (fl_done s))"
      "set (i # map fst (remove1 (i, st) (fl_done s))) = set (map fst (fl_done s))"
      using mset_eq_imp_distinct_iff mset_eq_setD by blast+
    define R where "R = remove1 (i, st) (fl_done s)"
    have "insert i (fst ` set R) = fst ` set (fl_done s)" "set R \<subseteq> set (fl_done s)" "distinct (i # map fst R)"
      using m d(1) set_remove1_subset [of "(i, st)" "fl_done s"] by (simp_all add: R_def)
    moreover have "i \<in> fst ` set (fl_done s)" using q by force
    moreover from this have "i \<in> live (fl_reqs s)" "i \<notin> set (fl_queue s)" using d by auto
    ultimately show ?thesis using assms d unfolding R_def [symmetric] by (simp add: flinv'_def log_ok'_def) blast
  qed
qed

lemma flinv_finish:
  assumes "flinv' E [i] s"
  shows "\<exists>s'. invoke_cb E i status err v s = Some s' \<and> flinv E s'"
proof -
  have l: "i \<in> live (fl_reqs s)" using assms by (auto simp: flinv'_def)
  then obtain q where q: "fl_reqs s ! i = Some q" using liveD by blast
  have api: "\<exists>t w. remove_all_callback c x = x\<lparr>fl_inst := t, fl_world := w\<rparr>" for c x
    by (simp add: remove_all_callback_def fl_remove_def split: prod.splits) blast
  obtain t w where "invoke_cb E i status err v s =
      Some (s\<lparr>fl_inst := t, fl_world := w, fl_refs := fl_refs s - 1, fl_reqs := (fl_reqs s)[i := None], fl_log := fl_log s @ [i]\<rparr>)"
  proof (cases "FeatureInstanceIsDetached (fl_inst s)")
    case True
    then show ?thesis using that [where t = "fl_inst s" and w = "fl_world s"] q by (simp add: invoke_cb_def)
  next
    case False
    define x where "x = (if status \<noteq> 0 then fl_invoke E (ci_fail (freq_cbs q)) [NStr err, NBits (word_of_int status)] s
                  else fl_invoke E (ci_success (freq_cbs q)) (case v of None \<Rightarrow> [] | Some v \<Rightarrow> [v]) s)"
    have inv: "\<exists>w. fl_invoke E c ap y = y\<lparr>fl_world := w\<rparr>" for c ap y by (auto simp: fl_invoke_def)
    have "\<exists>w. x = s\<lparr>fl_world := w\<rparr>" unfolding x_def by (cases "status \<noteq> 0") (simp_all add: inv)
    then obtain w1 where x: "x = s\<lparr>fl_world := w1\<rparr>" by blast
    obtain w0 where "fl_invoke E (ci_complete (freq_cbs q)) [] x = s\<lparr>fl_world := w0\<rparr>" using inv [of "ci_complete (freq_cbs q)" "[]" x] by (auto simp: x)
    moreover obtain t w where "remove_all_callback (freq_cbs q) (s\<lparr>fl_world := w0\<rparr>) = (s\<lparr>fl_world := w0\<rparr>)\<lparr>fl_inst := t, fl_world := w\<rparr>" using api by blast
    ultimately have "remove_all_callback (freq_cbs q) (fl_invoke E (ci_complete (freq_cbs q)) [] x) = s\<lparr>fl_inst := t, fl_world := w\<rparr>" by simp
    then show ?thesis using that [where t = t and w = w] q False unfolding invoke_cb_def x_def by (simp add: Let_def)
  qed
  moreover have "count_live (\<lambda>_. True) (fl_reqs s) = Suc (count_live (\<lambda>_. True) ((fl_reqs s)[i := None]))"
    using count_live_delete [OF live_facts(3) [OF l] q, of "\<lambda>_. True"] by simp
  moreover have ni: "i \<notin> set (fl_queue s)" "i \<notin> fst ` set (fl_done s)" using assms by (auto simp: flinv'_def)
  moreover have "j \<in> set (fl_queue s) \<Longrightarrow> (fl_reqs s)[i := None] ! j = fl_reqs s ! j" for j using ni by (metis nth_list_update_neq)
  moreover have "x \<in> set (fl_done s) \<Longrightarrow> (fl_reqs s)[i := None] ! fst x = fl_reqs s ! fst x" for x using ni by (metis image_eqI nth_list_update_neq)
  moreover have "set (fl_queue s) \<union> fst ` set (fl_done s) = live (fl_reqs s) - {i}" using assms ni by (auto simp: flinv'_def)
  moreover have "insert i ({0..<length (fl_reqs s)} - live (fl_reqs s)) = {0..<length (fl_reqs s)} - (live (fl_reqs s) - {i})"
    using live_facts(3) [OF l] by auto
  ultimately show ?thesis using assms l by (simp add: flinv'_def log_ok'_def)
qed

section \<open>Steps\<close>

text \<open>The paths of the arguments fit and are in normal form.\<close>

definition path_fits :: "file_env \<Rightarrow> string option option \<Rightarrow> bool" where
  "path_fits E r \<longleftrightarrow> (case r of None \<Rightarrow> False | Some None \<Rightarrow> True | Some (Some p) \<Rightarrow> CHR ''/'' \<in> set p \<and> length p < PM E - 1)"

definition uri_fits :: "file_env \<Rightarrow> string option \<Rightarrow> bool" where
  "uri_fits E uri \<longleftrightarrow> (case uri of None \<Rightarrow> True | Some u \<Rightarrow> path_fits E (to_absolute E u))"

definition dir_fits :: "file_env \<Rightarrow> string option \<Rightarrow> bool" where
  "dir_fits E uri \<longleftrightarrow> uri_fits E uri \<and>
     (case uri of None \<Rightarrow> True | Some u \<Rightarrow> (case to_absolute E u of Some (Some p) \<Rightarrow> canonical (fv_fs E) p | _ \<Rightarrow> True))"

definition read_fits :: "file_env \<Rightarrow> string option \<Rightarrow> bool" where
  "read_fits E uri \<longleftrightarrow> (case uri of None \<Rightarrow> True | Some u \<Rightarrow> path_fits E (load_path E FILE_READTEXT u))"

fun file_legal :: "file_env \<Rightarrow> file_op \<Rightarrow> bool" where
  "file_legal E (FlMove move src dst c) \<longleftrightarrow> uri_fits E src \<and> uri_fits E dst"
| "file_legal E (FlAccess acc uri c) \<longleftrightarrow> uri_fits E uri"
| "file_legal E (FlWriteText uri t app c) \<longleftrightarrow> uri_fits E uri"
| "file_legal E (FlWriteBuffer uri b pos app c) \<longleftrightarrow> uri_fits E uri"
| "file_legal E (FlReadText uri c) \<longleftrightarrow> read_fits E uri"
| "file_legal E (FlReadBuffer uri pos len c) \<longleftrightarrow> read_fits E uri"
| "file_legal E (FlMkdir uri rec c) \<longleftrightarrow> dir_fits E uri"
| "file_legal E (FlRmdir uri rec c) \<longleftrightarrow> dir_fits E uri"
| "file_legal E (FlList uri c) \<longleftrightarrow> dir_fits E uri"
| "file_legal E (FlGet uri rec c) \<longleftrightarrow> dir_fits E uri"
| "file_legal E (FlCancel i st) \<longleftrightarrow> st < 0"
| "file_legal E _ \<longleftrightarrow> True"

lemma path_fitsD: "path_fits E r \<Longrightarrow> \<exists>x. r = Some x \<and> (\<forall>p. x = Some p \<longrightarrow> CHR ''/'' \<in> set p \<and> length p < PM E - 1)"
  by (auto simp: path_fits_def split: option.splits)

lemma uri_fitsD:
  "uri_fits E (Some u) \<Longrightarrow> \<exists>x. to_absolute E u = Some x \<and> (\<forall>p. x = Some p \<longrightarrow> CHR ''/'' \<in> set p \<and> length p < PM E - 1)"
  using path_fitsD [of E "to_absolute E u"] by (simp add: uri_fits_def)

lemma move_ok:
  assumes "flinv E s" "uri_fits E src" "uri_fits E dst"
  shows "\<exists>s'. file_copy_or_move E move src dst c s = Some s' \<and> flinv E s'"
proof -
  let ?q = "FsReq \<lparr>fr_type = UV_FS_ACCESS, fr_path = [], fr_new_path = [], fr_cbs = c\<rparr>"
  obtain i s1 where n: "new_file_req ?q s = (i, s1)" by (cases "new_file_req ?q s")
  note fin = flinv_finish [OF flinv_new(1) [OF assms(1) n]] and sub = flinv_submit [OF flinv_new(1) [OF assms(1) n]]
  show ?thesis
  proof (cases "\<not> fl_loop s \<or> src = None \<or> dst = None \<or> (\<not> move \<and> is_path_in_tmp src) \<or> is_path_in_tmp dst")
    case True
    then show ?thesis using n fin flinv_new(3) [OF assms(1) n] by (auto simp: file_copy_or_move_def)
  next
    case False
    then obtain a b where ab: "src = Some a" "dst = Some b" by auto
    obtain x where x: "to_absolute E a = Some x" using uri_fitsD assms(2) unfolding ab by blast
    obtain y where y: "to_absolute E b = Some y" "\<And>p. y = Some p \<Longrightarrow> length p < PM E - 1"
      using uri_fitsD assms(3) unfolding ab by blast
    have "worked_ok E (FsReq \<lparr>fr_type = t, fr_path = p, fr_new_path = p', fr_cbs = c\<rparr>)" if "y = Some p'" for t p p'
      using moved_path_turns_back [of E b p'] y that False ab by auto
    then show ?thesis using n fin sub flinv_new(3) [OF assms(1) n] False ab x y(1)
      by (cases x; cases y) (auto simp: file_copy_or_move_def)
  qed
qed

lemma access_ok:
  assumes "flinv E s" "uri_fits E uri"
  shows "\<exists>s'. file_access_or_delete E acc uri c s = Some s' \<and> flinv E s'"
proof -
  let ?q = "FsReq \<lparr>fr_type = UV_FS_ACCESS, fr_path = [], fr_new_path = [], fr_cbs = c\<rparr>"
  obtain i s1 where n: "new_file_req ?q s = (i, s1)" by (cases "new_file_req ?q s")
  note fin = flinv_finish [OF flinv_new(1) [OF assms(1) n]] and sub = flinv_submit [OF flinv_new(1) [OF assms(1) n]]
  show ?thesis
  proof (cases "\<not> fl_loop s \<or> uri = None \<or> is_path_in_tmp uri")
    case True
    then show ?thesis using n fin flinv_new(3) [OF assms(1) n] by (auto simp: file_access_or_delete_def)
  next
    case False
    then obtain a where a: "uri = Some a" by auto
    obtain x where x: "to_absolute E a = Some x" using uri_fitsD assms(2) unfolding a by blast
    then show ?thesis using n fin sub flinv_new(3) [OF assms(1) n] False a
      by (cases x) (auto simp: file_access_or_delete_def)
  qed
qed

lemma file_load_ok:
  assumes "flinv E s" "is_load type" "\<And>u. uri = Some u \<Longrightarrow> path_fits E (load_path E type u)"
    and fill: "\<And>q q'. fq_type q = type \<Longrightarrow> fill q = Inr q' \<Longrightarrow> fq_type q' = fq_type q \<and> fq_r q' = fq_r q \<and> fq_root q' = fq_root q \<and> fq_filename q' = fq_filename q \<and>
      (is_read (fq_type q) \<longrightarrow> fq_flags q' = O_RDONLY)"
  shows "\<exists>s'. file_load E type uri c fill s = Some s' \<and> flinv E s'"
proof -
  let ?q = "init_file_req type c"
  obtain i s1 where n: "new_file_req (FReq ?q) s = (i, s1)" by (cases "new_file_req (FReq ?q) s")
  note fin = flinv_finish [OF flinv_new(1) [OF assms(1) n]] and sub = flinv_submit [OF flinv_new(1) [OF assms(1) n]]
  show ?thesis
  proof (cases "\<not> fl_loop s \<or> uri = None \<or> uri = Some [] \<or> ((type = FILE_WRITETEXT \<or> type = FILE_WRITEARRBUF) \<and> is_path_in_tmp uri)")
    case True
    then show ?thesis using n fin flinv_new(3) [OF assms(1) n] by (auto simp: file_load_def Let_def)
  next
    case False
    then obtain u where u: "uri = Some u" by auto
    obtain x where x: "load_path E type u = Some x" "\<And>p. x = Some p \<Longrightarrow> CHR ''/'' \<in> set p \<and> length p < PM E - 1"
      using path_fitsD [OF assms(3) [OF u]] by blast
    show ?thesis
    proof (cases x)
      case None
      then show ?thesis using n fin flinv_new(3) [OF assms(1) n] False u x(1) by (simp add: file_load_def Let_def)
    next
      case (Some p)
      have ld: "file_load E type uri c fill s = (case fill (?q\<lparr>fq_filename := p\<rparr>) of
          Inl (code, msg) \<Rightarrow> invoke_cb E i code msg None s1 | Inr q \<Rightarrow> Some (fl_submit E i (FReq q) s1))"
        using n flinv_new(3) [OF assms(1) n] False u x(1) Some by (auto simp: file_load_def Let_def)
      show ?thesis
      proof (cases "fill (?q\<lparr>fq_filename := p\<rparr>)")
        case (Inl a)
        then show ?thesis using ld fin by (cases a) simp
      next
        case (Inr q')
        have "req_ok E (FReq q')" using fill [OF _ Inr] x(2) [OF Some] assms(2) by (simp add: init_file_req_def)
        then show ?thesis using ld Inr sub by simp
      qed
    qed
  qed
qed

lemma dir_load_ok:
  assumes "flinv E s" "\<not> is_load type" "dir_fits E uri"
  shows "\<exists>s'. dir_load E type uri flags c s = Some s' \<and> flinv E s'"
proof -
  let ?q = "init_file_req type c"
  obtain i s1 where n: "new_file_req (FReq ?q) s = (i, s1)" by (cases "new_file_req (FReq ?q) s")
  note fin = flinv_finish [OF flinv_new(1) [OF assms(1) n]] and sub = flinv_submit [OF flinv_new(1) [OF assms(1) n]]
  show ?thesis
  proof (cases "\<not> fl_loop s \<or> uri = None \<or> ((type = FILE_MKDIR \<or> type = FILE_RMDIR) \<and> is_path_in_tmp uri)")
    case True
    then show ?thesis using n fin flinv_new(3) [OF assms(1) n] by (auto simp: dir_load_def Let_def)
  next
    case False
    then obtain u where u: "uri = Some u" by auto
    obtain x where x: "to_absolute E u = Some x" "\<And>p. x = Some p \<Longrightarrow> length p < PM E - 1"
      using uri_fitsD assms(3) unfolding dir_fits_def u by blast
    show ?thesis
    proof (cases x)
      case None
      then show ?thesis using n fin flinv_new(3) [OF assms(1) n] False u x(1) by (simp add: dir_load_def Let_def)
    next
      case (Some p)
      have "canonical (fv_fs E) p" using assms(3) x(1) Some by (simp add: dir_fits_def u)
      then have "req_ok E (FReq (?q\<lparr>fq_filename := p, fq_flags := Flags flags\<rparr>))"
        using x(2) [OF Some] assms(2) by (simp add: init_file_req_def)
      then have "\<exists>s'. Some (fl_submit E i (FReq (?q\<lparr>fq_filename := p, fq_flags := Flags flags\<rparr>)) s1) = Some s' \<and> flinv E s'" using sub by blast
      moreover have "dir_load E type uri flags c s = Some (fl_submit E i (FReq (?q\<lparr>fq_filename := p, fq_flags := Flags flags\<rparr>)) s1)"
        using n flinv_new(3) [OF assms(1) n] False u x(1) Some by (auto simp: dir_load_def Let_def)
      ultimately show ?thesis by simp
    qed
  qed
qed

lemma load_dir_work_ok:
  assumes "env_ok E" "fs_ok (fv_fs E) fs" "req_ok E (FReq q)" "\<not> is_load (fq_type q)"
  shows "\<exists>q' fs'. load_dir_work E q fs = Some (q', fs') \<and> fs_ok (fv_fs E) fs' \<and> worked_ok E (FReq q')"
proof -
  let ?fl = "case fq_flags q of Flags i \<Rightarrow> i | _ \<Rightarrow> 0" and ?p = "fq_filename q"
  have p: "canonical (fv_fs E) ?p" "length ?p < PM E - 1" "?p \<noteq> []" "fq_root q = None" using assms(3,4) by (auto simp: canonical_def)
  then have l: "length ?p < PM E" "PM E < PM E + length ?p" by auto
  have nr: "\<not> is_read (fq_type q)" using assms(4) by (auto simp: is_load_def is_read_def)
  obtain r1 fs1 where c: "create_dir E ?fl ?p 0 fs = Some (r1, fs1)" "fs_ok (fv_fs E) fs1" using create_dir_ok [OF assms(1,2) p(2)] by blast
  obtain r2 fs2 where d: "remove_dir E ?fl (PM E) ?p 0 fs = Some (r2, fs2)" "fs_ok (fv_fs E) fs2"
    using remove_ok(1) [OF assms(1,2) p(1) l] by blast
  obtain gi gr where g: "get_info E ?p fs = (gi, gr)" by (cases "get_info E ?p fs")
  show ?thesis
  proof (cases gi)
    case None
    then show ?thesis using c d g assms(2) p(4) nr by (cases "fq_type q") (simp_all add: load_dir_work_def Let_def is_read_def)
  next
    case (Some i)
    have ok: "info_ok i" using get_info_ok [OF assms(1) g Some] by simp
    obtain i' r3 where "read_dir E fs (fq_type q = FILE_GET \<and> ?fl = 1) (PM E) ?p i gr = Some (i', r3)" "info_ok i'"
      using read_ok(1) [OF assms(1,2) p(1) l ok] by blast
    then show ?thesis using c d g assms(2,4) p(4) nr Some ok
      by (cases "fq_type q") (simp_all add: load_dir_work_def Let_def is_load_def is_read_def)
  qed
qed

lemma work_ok:
  assumes "flinv E s" "i \<in> set (fl_queue s)"
  shows "\<exists>s'. fl_work E i s = Some s' \<and> flinv E s'"
proof -
  let ?s = "s\<lparr>fl_queue := remove1 i (fl_queue s)\<rparr>"
  have t: "flinv' E [i] ?s" by (rule flinv_take(1) [OF assms])
  have e: "env_ok E" "fs_ok (fv_fs E) (fl_fs s)" and q: "req_ok E (the (fl_reqs s ! i))" "i \<in> live (fl_reqs s)"
    using assms by (auto simp: flinv'_def)
  then obtain r where r: "fl_reqs s ! i = Some r" "req_ok E r" using liveD by fastforce
  show ?thesis
  proof (cases r)
    case (FsReq a)
    obtain er fs where w: "fs_work E a (fl_fs s) = (er, fs)" by (cases "fs_work E a (fl_fs s)")
    have same: "(fl_reqs s)[i := Some r] = fl_reqs s" using r(1) by (metis list_update_id)
    have "flinv E (?s\<lparr>fl_fs := fs, fl_reqs := (fl_reqs s)[i := Some r], fl_done := fl_done s @ [(i, - er)]\<rparr>)"
      using flinv_done [OF flinv_fs [OF t fs_work_ok(1) [OF e w]] req_worked [OF r(2)]] by simp
    then show ?thesis using r(1) FsReq w same by (simp add: fl_work_def Let_def)
  next
    case (FReq a)
    have "\<exists>q' fs'. (if is_load (fq_type a) then load_file_work E a (fl_fs s) else load_dir_work E a (fl_fs s)) = Some (q', fs') \<and>
        fs_ok (fv_fs E) fs' \<and> worked_ok E (FReq q')"
    proof (cases "is_load (fq_type a)")
      case True
      have f: "length (fq_filename a) < PM E - 1" "CHR ''/'' \<in> set (fq_filename a)" using r(2) FReq True by auto
      obtain q' fs' where w: "load_file_work E a (fl_fs s) = Some (q', fs')" "fs_ok (fv_fs E) fs'" "fq_type q' = fq_type a" "fq_root q' = fq_root a"
        "fq_flags a = O_RDONLY \<longrightarrow> 0 \<le> fq_r q' \<longrightarrow> fq_buf q' \<noteq> None" using load_file_ok [OF e f] by blast
      then show ?thesis using r(2) FReq True by auto
    next
      case False
      then show ?thesis using load_dir_work_ok [OF e] r(2) FReq by simp
    qed
    then obtain q' fs' where w: "(if is_load (fq_type a) then load_file_work E a (fl_fs s) else load_dir_work E a (fl_fs s)) = Some (q', fs')"
      "fs_ok (fv_fs E) fs'" "worked_ok E (FReq q')" by blast
    have "flinv E (?s\<lparr>fl_fs := fs', fl_reqs := (fl_reqs s)[i := Some (FReq q')], fl_done := fl_done s @ [(i, 0)]\<rparr>)"
      using flinv_done [OF flinv_fs [OF t w(2)] w(3)] by simp
    then show ?thesis using r(1) FReq w(1) unfolding fl_work_def Let_def by auto
  qed
qed

lemma after_ok:
  assumes "flinv E s" "(i, st) \<in> set (fl_done s)"
  shows "\<exists>s'. fl_after E i st s = Some s' \<and> flinv E s'"
proof -
  let ?s = "s\<lparr>fl_done := remove1 (i, st) (fl_done s)\<rparr>"
  have t: "flinv' E [i] ?s" by (rule flinv_take(2) [OF assms])
  have i: "i \<in> fst ` set (fl_done s)" using assms(2) by force
  then have "worked_ok E (the (fl_reqs s ! i))" "i \<in> live (fl_reqs s)" using assms(1) by (auto simp: flinv'_def)
  then obtain r where r: "fl_reqs s ! i = Some r" "worked_ok E r" using liveD by fastforce
  note fin = flinv_finish [OF t]
  show ?thesis
  proof (cases r)
    case (FsReq q)
    have "uv_fs_req_cb E i q st ?s = (if st < 0 then fail_with E i st ?s
        else if fr_type q = UV_FS_COPYFILE \<or> fr_type q = UV_FS_RENAME then
          invoke_cb E i 0 [] (Some (NStr (the (app_absolute_to_relative_path (fe_path (fv_fs E)) (fv_pkg E) (Some (fr_new_path q)))))) ?s
        else invoke_cb E i 0 [] None ?s)" using r(2) FsReq by (auto simp: uv_fs_req_cb_def)
    then show ?thesis using r(1) FsReq fin by (simp add: fl_after_def Let_def fail_with_def)
  next
    case (FReq q)
    have buf: "\<exists>b. fq_buf q = Some b" if "is_read (fq_type q)" "\<not> fq_r q < 0" using r(2) that by (auto simp: FReq)
    have info: "info_ok x" if "fq_root q = Some x" for x using r(2) that by (simp add: FReq)
    have ld: "\<exists>s'. load_after_work_cb E i q st ?s = Some s' \<and> flinv E s'"
    proof (cases "st \<noteq> 0 \<or> fq_r q < 0 \<or> \<not> is_read (fq_type q)")
      case True
      then show ?thesis using fin by (auto simp: load_after_work_cb_def fail_with_def is_read_def)
    next
      case False
      then obtain b where b: "fq_buf q = Some b" using buf by blast
      define v where "v = fv_from_buffer E (take (nat (fq_len q)) b)"
      have "flinv' E [i] (?s\<lparr>fl_world := js_new v (fl_world s)\<rparr>)" using t by simp
      from flinv_finish [OF this] obtain s1 where
        "invoke_cb E i 0 [] (Some (NStruct [(0, NAny v)])) (?s\<lparr>fl_world := js_new v (fl_world s)\<rparr>) = Some s1" "flinv E s1" by blast
      then show ?thesis using False b fin unfolding load_after_work_cb_def is_read_def by (auto simp: v_def [symmetric] Let_def)
    qed
    have dl: "\<exists>s'. load_dir_after_work_cb E i q st ?s = Some s' \<and> flinv E s'"
    proof (cases "fq_root q")
      case None
      then show ?thesis using fin by (auto simp: load_dir_after_work_cb_def fail_with_def split: file_type.splits)
    next
      case (Some x)
      obtain v u where "extended_file_info (case fq_flags q of Flags j \<Rightarrow> j | _ \<Rightarrow> 0) x = Some v" "file_list x = Some u"
        using extended_ok(1) [OF info [OF Some]] file_list_ok [OF info [OF Some]] by blast
      then show ?thesis using fin Some by (auto simp: load_dir_after_work_cb_def fail_with_def split: file_type.splits)
    qed
    show ?thesis using r(1) FReq ld dl by (simp add: fl_after_def Let_def)
  qed
qed

lemma cancel_ok:
  assumes "flinv E s" "i \<in> set (fl_queue s)"
  shows "flinv E (s\<lparr>fl_queue := remove1 i (fl_queue s), fl_done := fl_done s @ [(i, st)]\<rparr>)"
proof -
  have t: "flinv' E [i] (s\<lparr>fl_queue := remove1 i (fl_queue s)\<rparr>)" by (rule flinv_take(1) [OF assms])
  have q: "req_ok E (the (fl_reqs s ! i))" "i \<in> live (fl_reqs s)" using assms by (auto simp: flinv'_def)
  then obtain r where r: "fl_reqs s ! i = Some r" "req_ok E r" using liveD by fastforce
  have "(fl_reqs s)[i := Some r] = fl_reqs s" using r(1) by (metis list_update_id)
  then show ?thesis using flinv_done [OF t req_worked [OF r(2)], of st] by simp
qed

lemma file_step_safe:
  assumes "flinv E s" "file_legal E p"
  shows "\<exists>s'. file_step E p s = Some s' \<and> flinv E s'"
proof (cases p)
  case (FlWriteText uri t app c)
  then show ?thesis using assms
    by (auto simp: system_file_wrap_writeText_def uri_fits_def load_path_def is_load_def is_read_def path_fits_def
        intro!: file_load_ok split: option.splits if_splits)
next
  case (FlWriteBuffer uri b pos app c)
  then show ?thesis using assms
    by (auto simp: system_file_wrap_writeArrayBuffer_def uri_fits_def load_path_def is_load_def is_read_def Let_def
        intro!: file_load_ok split: option.splits if_splits)
next
  case (FlReadText uri c)
  then show ?thesis using assms
    by (auto simp: system_file_wrap_readText_def read_fits_def is_load_def intro!: file_load_ok split: option.splits)
next
  case (FlReadBuffer uri pos len c)
  have "load_path E FILE_READARRBUF u = load_path E FILE_READTEXT u" for u by (simp add: load_path_def)
  then show ?thesis using FlReadBuffer assms
    by (auto simp: system_file_wrap_readArrayBuffer_def read_fits_def is_load_def intro!: file_load_ok split: option.splits if_splits)
next
  case (FlCancel i st)
  then show ?thesis using assms(1) cancel_ok [OF assms(1)] by simp
next
  case FlDetach
  then show ?thesis using assms(1) by (auto split: option.splits prod.splits)
qed (use assms move_ok [OF assms(1)] access_ok [OF assms(1)] dir_load_ok [OF assms(1)] work_ok [OF assms(1)] after_ok [OF assms(1)] in
    \<open>auto simp: system_file_wrap_mkdir_def system_file_wrap_rmdir_def system_file_wrap_list_def system_file_wrap_get_def is_load_def\<close>)

interpretation file_service: service "file_step E" "file_legal E" "flinv E" for E
  by unfold_locales (rule file_step_safe)

lemma new_files_ok: "env_ok E \<Longrightarrow> fs_ok (fv_fs E) fs \<Longrightarrow> flinv E (new_files I w fs)"
  by (simp add: flinv'_def log_ok'_def new_files_def)

end
