(* ===== verification/FileProps.thy ===== *)
theory FileProps
  imports FileFacts ConcreteEngine
begin

text \<open>
  The properties of the file module: every request is finished at most once and none is lost, what has been written
  is what is read, and the directories that are made and removed are exactly those asked for.
\<close>

section \<open>Requests\<close>


definition fenv0 :: file_env where
  "fenv0 = \<lparr>fv_fs = \<lparr>fe_path = \<lparr>PATH_MAX_LENGTH = 256, pe_cwd = []\<rparr>, fe_cwd = [], fe_fault = (\<lambda>c k. 0), fe_name_max = 200, fe_now = 7\<rparr>,
     fv_engine = engine0, fv_pkg = ''app'', fv_hap = ''data'', fv_disk = True, fv_submit = 0, fv_strerror = (\<lambda>e. ''error''),
     fv_written = length, fv_to_buffer = (\<lambda>v. []), fv_from_buffer = (\<lambda>s. JObject [])\<rparr>"

definition fs0 :: fsys where
  "fs0 = map (\<lambda>n. (take n [''data'', ''quickapp'', ''files'', ''app''], FDir 1)) [1, 2, 3]"

definition cbs0 :: callback_ids where
  "cbs0 = \<lparr>ci_success = 1, ci_fail = 2, ci_complete = 3\<rparr>"

lemma fenv0_ok: "env_ok fenv0" "fs_ok (fv_fs fenv0) fs0"
  by (simp_all add: env_ok_def fenv0_def fs_ok_def fs0_def valid_name_def valid_comp_def PM_def)

lemma fenv0_simps [simp]:
  "PM fenv0 = 256" "fe_fault (fv_fs fenv0) c k = 0" "fe_name_max (fv_fs fenv0) = 200" "fv_disk fenv0" "fv_written fenv0 = length"
  by (simp_all add: PM_def fenv0_def)

lemma fenv0_absolute:
  "to_absolute fenv0 ''internal://files/a'' = Some (Some ''/data/quickapp/files/app/a'')"
  "to_absolute fenv0 ''internal://files/d/e'' = Some (Some ''/data/quickapp/files/app/d/e'')"
  by (simp_all add: to_absolute_def fenv0_def app_relative_to_absolute_path_def APP_PATH_PREFIX_def ABS_PATH_PREFIX_def type_list_def
      snprintf_def strcat_def Let_def)

lemma fenv0_canonical: "canonical (fv_fs fenv0) ''/data/quickapp/files/app/d/e''"
  using canonical_join [of "[''data'', ''quickapp'', ''files'', ''app'', ''d'', ''e'']"] by (simp add: valid_name_def valid_comp_def)

definition file_ops0 :: "file_op list" where
  "file_ops0 = [FlWriteText (Some ''internal://files/a'') (Some ''hi'') False cbs0, FlMkdir (Some ''internal://files/d/e'') True cbs0,
     FlMkdir None True cbs0, FlWork 0, FlAfter 0 0, FlReadText (Some ''internal://files/a'') cbs0, FlCancel 3 (- 125), FlAfter 3 (- 125),
     FlDetach, FlWork 1, FlRmdir (Some ''internal://files/d/e'') True cbs0]"

lemma file_ops0_legal: "list_all (file_legal fenv0) file_ops0"
  by (simp add: file_ops0_def uri_fits_def dir_fits_def read_fits_def load_path_def path_fits_def fenv0_absolute fenv0_canonical fenv0_ok)


section \<open>What is written is read\<close>

lemma create_dir_adds:
  "create_dir E flags p r fs = Some (r', fs') \<Longrightarrow> \<exists>ds. fs' = fs @ ds \<and> list_all (\<lambda>(k, n). dir_node n) ds"
proof (induction E flags p r fs arbitrary: r' fs' rule: create_dir.induct)
  case (1 E flags p r fs)
  show ?case
  proof (cases "p = ''.'' \<or> p = ''/'' \<or> os_access (fv_fs E) p fs \<or> (flags = 1 \<and> (PM E - 1 \<le> length p \<or> CHR ''/'' \<notin> set p))")
    case True
    then show ?thesis using "1.prems" by (subst (asm) create_dir.simps) (auto split: if_splits)
  next
    case False
    obtain r1 fs1 where p: "(if flags = 1 then create_dir E flags (dir_part p) r fs else Some (r, fs)) = Some (r1, fs1)"
      and m: "fs' = snd (os_mkdir (fv_fs E) p fs1)"
      using "1.prems" False by (subst (asm) create_dir.simps) (auto split: bind_splits if_splits prod.splits)
    have "\<exists>ds. fs1 = fs @ ds \<and> list_all (\<lambda>(k, n). dir_node n) ds"
    proof (cases "flags = 1")
      case True
      then show ?thesis using "1.IH" [of r1 fs1] False p by auto
    qed (use p in \<open>auto intro: exI [of _ "[]"]\<close>)
    then show ?thesis using m by (auto simp: os_mkdir_def Let_def dir_node_def)
  qed
qed

lemma set_node_get: "map_of (set_node k n fs) k = Some n"
  by (induction k n fs rule: set_node.induct) auto

text \<open>A file that could be opened for writing.\<close>

lemma open_file_content:
  assumes "open_file E q fs = Some (0, q', fs')" "fq_flags q = O_WRITE trunc app"
  shows "fq_filename q' = fq_filename q" "fq_len q' = fq_len q" "fq_offset q' = fq_offset q" "fq_buf q' = fq_buf q"
    "\<exists>t. map_of fs' (resolve (fv_fs E) (fq_filename q)) =
       Some (FFile (if trunc then [] else content (resolve (fv_fs E) (fq_filename q)) fs) t)"
    "resolve (fv_fs E) (fq_filename q) \<noteq> []"
proof -
  let ?k = "resolve (fv_fs E) (fq_filename q)" and ?open = "os_open (fv_fs E) True trunc (fq_filename q)"
  have opened: "(\<exists>t. map_of y' ?k = Some (FFile (if trunc then [] else content ?k y) t)) \<and> ?k \<noteq> []" if "?open y = (0, y')" for y y'
    using that set_node_get [of ?k _ y]
    by (auto simp: os_open_def Let_def errno_defs is_dir_def has_node_def content_def place_error_def map_add_def split: if_splits option.splits fnode.splits)
  obtain e fs1 where o: "?open fs = (e, fs1)" by (cases "?open fs")
  show "fq_filename q' = fq_filename q" "fq_len q' = fq_len q" "fq_offset q' = fq_offset q" "fq_buf q' = fq_buf q"
    using assms by (auto simp: open_file_def Let_def split: prod.splits if_splits bind_splits)
  have "(\<exists>t. map_of fs' ?k = Some (FFile (if trunc then [] else content ?k fs) t)) \<and> ?k \<noteq> []"
  proof (cases "e = 0")
    case True
    then show ?thesis using assms o opened [of fs] by (simp add: open_file_def Let_def)
  next
    case False
    obtain r fs2 where c: "create_dir E 1 (dir_part (fq_filename q)) (fq_r q) fs1 = Some (r, fs2)" "?open fs2 = (0, fs')"
      using assms o False by (auto simp: open_file_def Let_def split: prod.splits if_splits bind_splits)
    have same: "fs1 = fs" using o False by (auto simp: os_open_def Let_def split: if_splits)
    obtain ds where ds: "fs2 = fs @ ds" "list_all (\<lambda>(k, n). dir_node n) ds"
      using create_dir_adds [OF c(1)] same by blast
    have dir: "map_of ds ?k = Some n \<Longrightarrow> \<exists>t. n = FDir t" for n
      using ds(2) by (cases n) (fastforce simp: list_all_iff dir_node_def dest: map_of_SomeD)+
    have nd: "?k \<noteq> []" "\<not> is_dir ?k fs2" "fe_fault (fv_fs E) COpen ?k = 0"
      using c(2) opened [OF c(2)] by (auto simp: os_open_def Let_def errno_defs split: if_splits)
    have "map_of fs ?k = None"
      using o False nd ds(1) by (auto simp: os_open_def Let_def is_dir_def has_node_def same map_add_def split: if_splits option.splits)
    moreover from this have "map_of fs2 ?k = None" using nd ds(1) dir by (cases "map_of ds ?k") (auto simp: is_dir_def map_add_def)
    ultimately show ?thesis using opened [OF c(2)] by (cases trunc) (simp_all add: content_def)
  qed
  then show "\<exists>t. map_of fs' ?k = Some (FFile (if trunc then [] else content ?k fs) t)" "?k \<noteq> []" by blast+
qed

lemma write_file_work:
  assumes "env_ok E" "load_file_work E q fs = Some (q1, fs1)" "0 \<le> fq_r q1" "fq_flags q = O_WRITE (\<not> app) app" "fq_offset q = 0"
    "fq_buf q = Some t" "fq_len q = int (length t)" "t \<noteq> []" "fv_written E t = length t"
  shows "\<exists>m. map_of fs1 (resolve (fv_fs E) (fq_filename q)) =
      Some (FFile ((if app then content (resolve (fv_fs E) (fq_filename q)) fs else []) @ t) m)"
    "resolve (fv_fs E) (fq_filename q) \<noteq> []"
proof -
  let ?k = "resolve (fv_fs E) (fq_filename q)"
  have f: "0 \<le> fe_fault (fv_fs E) c k" for c k by (rule env_okD(1) [OF assms(1)])
  have disk: "fv_disk E"
    using assms(2-4,7) by (auto simp: load_file_work_def INT32_MIN_def errno_defs Let_def split: if_splits)
  obtain e q2 fs2 where o: "open_file E q fs = Some (e, q2, fs2)"
    using assms(2,4,7) disk by (auto simp: load_file_work_def INT32_MIN_def Let_def)
  have r: "(q1, fs1) = (if e \<noteq> 0 then (q2\<lparr>fq_r := - e\<rparr>, fs2) else write_file E app q2 fs2)"
    using assms(2,4,7) disk o by (auto simp: load_file_work_def INT32_MIN_def Let_def)
  have "0 \<le> e"
    using o f by (auto simp: open_file_def os_open_def place_error_def errno_defs Let_def split: prod.splits if_splits bind_splits)
  then have e: "e = 0" using r assms(3) by (auto split: if_splits)
  note c = open_file_content [OF o [unfolded e] assms(4)]
  have w: "fe_fault (fv_fs E) CWrite ?k = 0"
    using r assms(3,5-8) disk e c(1-4) f [of CWrite ?k] f [of CSeek ?k]
    by (auto simp: write_file_def os_write_def Let_def split: if_splits)
  obtain m where m: "map_of fs2 ?k = Some (FFile (if \<not> app then [] else content ?k fs) m)" using c(5) by blast
  have s: "O_APPEND (fq_flags q2) \<or> fe_fault (fv_fs E) CSeek ?k = 0"
    using r assms(3,5-8) disk e c(1-4) f [of CSeek ?k]
    by (auto simp: write_file_def Let_def split: if_splits prod.splits)
  have "fs1 = set_node ?k (FFile ((if app then content ?k fs else []) @ t) (fe_now (fv_fs E))) fs2"
    using r e disk w s m assms(5-9) c(1-4) by (auto simp: write_file_def os_write_def content_def overwrite_def Let_def split: if_splits)
  then show "\<exists>m. map_of fs1 ?k = Some (FFile ((if app then content ?k fs else []) @ t) m)" by (simp add: set_node_get)
  show "?k \<noteq> []" by (rule c(6))
qed

text \<open>C29: A text that was written is what a later read of the file yields, with its length: the
  text alone, or after what the file held when it was appended. This holds also when the directories of the file had to be made
  first.\<close>

theorem written_text_is_read:
  assumes "env_ok E" "load_file_work E q fs = Some (q1, fs1)" "0 \<le> fq_r q1" "fq_flags q = O_WRITE (\<not> app) app" "fq_offset q = 0"
    "fq_buf q = Some t" "fq_len q = int (length t)" "t \<noteq> []" "fv_written E t = length t"
    and "fq_filename p = fq_filename q" "fq_flags p = O_RDONLY" "fq_len p = INT32_MIN" "fq_offset p = 0"
    "\<forall>c\<in>{CStat, COpen, CSeek, CRead}. fe_fault (fv_fs E) c (resolve (fv_fs E) (fq_filename q)) = 0"
  shows "\<exists>p'. load_file_work E p fs1 = Some (p', fs1) \<and>
    fq_buf p' = Some ((if app then content (resolve (fv_fs E) (fq_filename q)) fs else []) @ t) \<and> fq_len p' = fq_r p' \<and>
    fq_r p' = int (length ((if app then content (resolve (fv_fs E) (fq_filename q)) fs else []) @ t))"
proof -
  obtain m where m: "map_of fs1 (resolve (fv_fs E) (fq_filename q)) =
      Some (FFile ((if app then content (resolve (fv_fs E) (fq_filename q)) fs else []) @ t) m)"
    and k: "resolve (fv_fs E) (fq_filename q) \<noteq> []"
    using write_file_work [OF assms(1-9)] by blast
  show ?thesis using assms(10-14) k
    by (simp add: load_file_work_def os_stat_def open_file_def os_open_def is_dir_def has_node_def read_file_def os_read_def content_def Let_def m)
qed

definition write_req0 :: file_req where
  "write_req0 = (init_file_req FILE_WRITETEXT cbs0)\<lparr>fq_filename := ''/data/quickapp/files/a'', fq_flags := O_WRITE True False,
     fq_len := 2, fq_buf := Some ''hi''\<rparr>"

definition read_req0 :: file_req where
  "read_req0 = (init_file_req FILE_READTEXT cbs0)\<lparr>fq_filename := ''/data/quickapp/files/a'', fq_len := INT32_MIN\<rparr>"

lemma fenv0_resolve: "resolve (fv_fs fenv0) ''/data/quickapp/files/a'' = [''data'', ''quickapp'', ''files'', ''a'']"
  using resolve_join [of "[''data'', ''quickapp'', ''files'', ''a'']" "fv_fs fenv0"] by (simp add: valid_name_def valid_comp_def)

lemma written_text_is_read_witness:
  "\<exists>q1 fs1 p'. load_file_work fenv0 write_req0 fs0 = Some (q1, fs1) \<and> load_file_work fenv0 read_req0 fs1 = Some (p', fs1) \<and>
     fq_buf p' = Some ''hi''"
proof -
  let ?k = "[''data'', ''quickapp'', ''files'', ''a'']"
  have k: "\<not> is_dir ?k fs0" "\<not> has_node ?k fs0" by (simp_all add: fs0_def is_dir_def has_node_def)
  have "place_error (fv_fs fenv0) ?k fs0 = 0" by (simp add: fs0_def is_dir_def has_node_def place_error_def)
  then have o: "os_open (fv_fs fenv0) True True ''/data/quickapp/files/a'' fs0 = (0, fs0 @ [(?k, FFile [] (fe_now (fv_fs fenv0)))])"
    using k by (simp add: os_open_def Let_def fenv0_resolve)
  have "\<exists>q1 fs1. load_file_work fenv0 write_req0 fs0 = Some (q1, fs1) \<and> fq_r q1 = 2"
    by (simp add: write_req0_def load_file_work_def INT32_MIN_def open_file_def write_file_def os_write_def Let_def o init_file_req_def)
  then obtain q1 fs1 where w: "load_file_work fenv0 write_req0 fs0 = Some (q1, fs1)" "fq_r q1 = 2" by blast
  have r: "\<forall>c\<in>{CStat, COpen, CSeek, CRead}. fe_fault (fv_fs fenv0) c (resolve (fv_fs fenv0) (fq_filename write_req0)) = 0"
    by simp
  have "\<exists>p'. load_file_work fenv0 read_req0 fs1 = Some (p', fs1) \<and> fq_buf p' = Some ''hi''"
    using written_text_is_read [OF fenv0_ok(1) w(1), of False "''hi''" read_req0] w(2) r
    by (simp add: write_req0_def read_req0_def init_file_req_def) blast
  then show ?thesis using w(1) by blast
qed

section \<open>Directories\<close>

text \<open>Every node is in a directory, and no name is twice.\<close>

definition wf_fs :: "fsys \<Rightarrow> bool" where
  "wf_fs fs \<longleftrightarrow> distinct (map fst fs) \<and> list_all (\<lambda>(k, n). k \<noteq> [] \<and> is_dir (butlast k) fs) fs"

lemma dir_part_join: "CHR ''/'' \<notin> set c \<Longrightarrow> dir_part (p @ CHR ''/'' # c) = p"
proof -
  assume "CHR ''/'' \<notin> set c"
  then have "dropWhile (\<lambda>x. x \<noteq> CHR ''/'') (rev c @ CHR ''/'' # rev p) = CHR ''/'' # rev p" by (induction c rule: rev_induct) auto
  then show ?thesis by (simp add: dir_part_def)
qed

lemma has_node_iff: "has_node k fs \<longleftrightarrow> k = [] \<or> k \<in> fst ` set fs"
  by (metis domIff dom_map_of_conv_image_fst has_node_def)

lemma is_dir_add: "is_dir k fs \<Longrightarrow> is_dir k (fs @ ds)"
  by (auto simp: is_dir_def map_add_def)

lemma is_dir_new: "\<not> has_node k fs \<Longrightarrow> k \<in> set ks \<Longrightarrow> is_dir k (fs @ map (\<lambda>x. (x, FDir t)) ks)"
  by (induction ks) (auto simp: is_dir_def has_node_def map_add_def)

lemma is_dir_has: "is_dir k fs \<Longrightarrow> has_node k fs"
  by (auto simp: is_dir_def has_node_def)

lemma wf_fsD: "wf_fs fs \<Longrightarrow> (k, n) \<in> set fs \<Longrightarrow> map_of fs k = Some n \<and> k \<noteq> [] \<and> is_dir (butlast k) fs"
  by (auto simp: wf_fs_def list_all_iff)

lemma wf_ancestor:
  assumes "wf_fs fs"
  shows "has_node x fs \<Longrightarrow> strict_prefix y x \<Longrightarrow> is_dir y fs"
proof (induction x rule: rev_induct)
  case (snoc c x)
  then obtain n where "(x @ [c], n) \<in> set fs" by (auto simp: has_node_iff)
  then have d: "is_dir x fs" using wf_fsD [OF assms] by fastforce
  show ?case
  proof (cases "y = x")
    case False
    then have "strict_prefix y x" using snoc.prems(2) by (auto simp: strict_prefix_def)
    then show ?thesis using snoc.IH d by (auto simp: is_dir_def has_node_def)
  qed (use d in simp)
qed simp

lemma wf_prefix: "wf_fs fs \<Longrightarrow> is_dir x fs \<Longrightarrow> prefix y x \<Longrightarrow> is_dir y fs"
  using wf_ancestor [of fs x y] is_dir_has [of x fs] by (auto simp: strict_prefix_def)

text \<open>The directories on the way to \<open>k\<close> that are missing.\<close>

definition missing_dirs :: "fname \<Rightarrow> fsys \<Rightarrow> fname list" where
  "missing_dirs k fs = filter (\<lambda>x. \<not> has_node x fs) (prefixes k)"

lemma create_dir_exact:
  assumes "env_ok E" "valid_name k" "length (join k) \<le> fe_name_max (fv_fs E)"
    "\<forall>x. fe_fault (fv_fs E) CMkdir x = 0" "wf_fs fs" "\<forall>x. prefix x k \<longrightarrow> has_node x fs \<longrightarrow> is_dir x fs"
  shows "create_dir E 1 (join k) r fs = Some (r, fs @ map (\<lambda>x. (x, FDir (fe_now (fv_fs E)))) (missing_dirs k fs))"
  using assms(2,3,6)
proof (induction k rule: rev_induct)
  case Nil
  then show ?case using env_okD(2) [OF assms(1)] by (subst create_dir.simps) (auto simp: missing_dirs_def has_node_def)
next
  case (snoc c k)
  have c: "valid_comp c" "valid_name k" using snoc.prems(1) by (auto simp: valid_name_def)
  have res: "resolve (fv_fs E) (join (k @ [c])) = k @ [c]" by (rule resolve_join) (use snoc.prems(1) in auto)
  have ne: "join (k @ [c]) \<noteq> ''.''" "join (k @ [c]) \<noteq> ''/''"
    using c(1) by (auto simp: valid_comp_def append_eq_Cons_conv)
  have sl: "CHR ''/'' \<in> set (join (k @ [c]))" "dir_part (join (k @ [c])) = join k"
    using c(1) by (simp_all add: dir_part_join valid_comp_def)
  have m: "missing_dirs (k @ [c]) fs = missing_dirs k fs @ (if has_node (k @ [c]) fs then [] else [k @ [c]])"
    by (simp add: missing_dirs_def)
  show ?case
  proof (cases "has_node (k @ [c]) fs")
    case True
    then have d: "is_dir (k @ [c]) fs" using snoc.prems(3) by (simp del: prefix_snoc)
    have "has_node x fs" if "x \<in> set (prefixes (k @ [c]))" for x
      using is_dir_has [OF wf_prefix [OF assms(5) d]] that by (simp del: prefix_snoc prefixes_snoc)
    then have "missing_dirs (k @ [c]) fs = []" unfolding missing_dirs_def filter_empty_conv by blast
    then show ?thesis using True res by (subst create_dir.simps) (simp add: os_access_def del: join_simps)
  next
    case False
    let ?ds = "map (\<lambda>x. (x, FDir (fe_now (fv_fs E)))) (missing_dirs k fs)"
    have IH: "create_dir E 1 (join k) r fs = Some (r, fs @ ?ds)"
      by (rule snoc.IH) (use c snoc.prems in auto)
    have n: "\<not> has_node (k @ [c]) (fs @ ?ds)" using False by (auto simp: has_node_iff missing_dirs_def dest: prefix_length_le)
    have "has_node k fs \<Longrightarrow> is_dir k fs" using snoc.prems(3) by simp
    then have d: "is_dir k (fs @ ?ds)" using is_dir_add is_dir_new [of k fs "missing_dirs k fs"] by (cases "has_node k fs") (auto simp: missing_dirs_def)
    have "os_mkdir (fv_fs E) (join (k @ [c])) (fs @ ?ds) = (0, fs @ ?ds @ [(k @ [c], FDir (fe_now (fv_fs E)))])"
      using n d assms(4) snoc.prems(2) res by (simp add: os_mkdir_def place_error_def Let_def del: join_simps)
    then show ?thesis using ne sl res False IH m env_okD(2) [OF assms(1)] snoc.prems(2)
      by (subst create_dir.simps) (simp add: os_access_def del: join_simps)
  qed
qed

text \<open>C31: Making a directory recursively adds exactly the directories on the way that are missing, from the
  outside in, leaves everything else as it is and reports success.\<close>

theorem recursive_mkdir_makes_missing_dirs:
  assumes "env_ok E" "valid_name k" "length (join k) \<le> fe_name_max (fv_fs E)"
    and "\<forall>x. fe_fault (fv_fs E) CMkdir x = 0" "wf_fs fs" "\<forall>x. prefix x k \<longrightarrow> has_node x fs \<longrightarrow> is_dir x fs"
    and "fq_type q = FILE_MKDIR" "fq_flags q = Flags 1" "fq_filename q = join k"
  shows "load_dir_work E q fs =
    Some (q\<lparr>fq_r := 0, fq_offset := 0\<rparr>, fs @ map (\<lambda>x. (x, FDir (fe_now (fv_fs E)))) (filter (\<lambda>x. \<not> has_node x fs) (prefixes k)))"
  using create_dir_exact [OF assms(1-6), of 0] assms(7-9) by (simp add: load_dir_work_def missing_dirs_def)

definition mkdir_req0 :: file_req where
  "mkdir_req0 = (init_file_req FILE_MKDIR cbs0)\<lparr>fq_filename := ''/data/quickapp/files/app/d'', fq_flags := Flags 1\<rparr>"

lemma fs0_wf: "wf_fs fs0"
  by (simp add: wf_fs_def fs0_def is_dir_def)

lemma recursive_mkdir_makes_missing_dirs_witness:
  "\<exists>q. load_dir_work fenv0 mkdir_req0 fs0 = Some (q, fs0 @ [([''data'', ''quickapp'', ''files'', ''app''], FDir (fe_now (fv_fs fenv0))),
     ([''data'', ''quickapp'', ''files'', ''app'', ''d''], FDir (fe_now (fv_fs fenv0)))])"
proof -
  let ?k = "[''data'', ''quickapp'', ''files'', ''app'', ''d'']"
  have d: "\<forall>x. prefix x ?k \<longrightarrow> has_node x fs0 \<longrightarrow> is_dir x fs0"
    by (auto simp: has_node_def is_dir_def fs0_def)
  have v: "valid_name ?k" by (simp add: valid_name_def valid_comp_def)
  have q: "fq_type mkdir_req0 = FILE_MKDIR" "fq_flags mkdir_req0 = Flags 1" "fq_filename mkdir_req0 = join ?k"
    by (simp_all add: mkdir_req0_def init_file_req_def)
  have l: "length (join ?k) \<le> fe_name_max (fv_fs fenv0)" by simp
  have f: "filter (\<lambda>x. \<not> has_node x fs0) (prefixes ?k) = [[''data'', ''quickapp'', ''files'', ''app''], ?k]"
    by (simp add: has_node_def fs0_def)
  show ?thesis using recursive_mkdir_makes_missing_dirs [OF fenv0_ok(1) v l _ fs0_wf d q] unfolding f by simp
qed

text \<open>With a slash at the end the directory is made, and reported as one that existed before.\<close>

lemma trailing_slash_fails:
  assumes "env_ok E" "valid_name k" "k \<noteq> []" "length (join k) < fe_name_max (fv_fs E)" "\<not> has_node k fs"
    and "\<forall>x. fe_fault (fv_fs E) CMkdir x = 0" "wf_fs fs" "\<forall>x. prefix x k \<longrightarrow> has_node x fs \<longrightarrow> is_dir x fs"
  shows "create_dir E 1 (join k @ ''/'') r fs =
    Some (- EEXIST, fs @ map (\<lambda>x. (x, FDir (fe_now (fv_fs E)))) (missing_dirs k fs))"
proof -
  let ?fs = "fs @ map (\<lambda>x. (x, FDir (fe_now (fv_fs E)))) (missing_dirs k fs)"
  have c: "create_dir E 1 (join k) r fs = Some (r, ?fs)" by (rule create_dir_exact) (use assms in auto)
  have res: "resolve (fv_fs E) (join k @ ''/'') = k" using assms(2,3) resolve_slash [of "join k" "fv_fs E"] by (simp add: resolve_join)
  have "k \<in> set (missing_dirs k fs)" using assms(5) by (simp add: missing_dirs_def)
  then have "has_node k ?fs" by (force simp: has_node_iff)
  then have m: "os_mkdir (fv_fs E) (join k @ ''/'') ?fs = (EEXIST, ?fs)" using res assms(6) by (simp add: os_mkdir_def)
  have "join k @ ''/'' \<noteq> ''.''" "join k @ ''/'' \<noteq> ''/''" "dir_part (join k @ ''/'') = join k"
    using assms(3) dir_part_join [of "[]" "join k"] by simp_all
  then show ?thesis using c m res assms(1,4,5) env_okD(2) [OF assms(1)]
    by (subst create_dir.simps) (simp add: os_access_def errno_defs)
qed

section \<open>Removing a directory\<close>

definition prune :: "fname list \<Rightarrow> fsys \<Rightarrow> fsys" where
  "prune ks fs = filter (\<lambda>(x, n). \<forall>k\<in>set ks. \<not> prefix k x) fs"

lemma map_of_prune: "map_of (prune ks fs) x = (if \<forall>k\<in>set ks. \<not> prefix k x then map_of fs x else None)"
  by (induction fs) (auto simp: prune_def)

lemma wf_prune:
  assumes "wf_fs fs" "[] \<notin> set ks"
  shows "wf_fs (prune ks fs)"
proof -
  have "is_dir (butlast x) (prune ks fs)" if "(x, n) \<in> set (prune ks fs)" for x n
    using that wf_fsD [OF assms(1), of x n] by (auto simp: prune_def is_dir_def map_of_prune [unfolded prune_def] dest: prefix_order.trans [OF _ prefixI [OF append_butlast_last_id [symmetric]]])
  moreover have "distinct (map fst (prune ks fs))" using assms(1) by (simp add: prune_def wf_fs_def distinct_map_filter)
  ultimately show ?thesis using assms(1) by (auto simp: wf_fs_def list_all_iff prune_def)
qed

lemma prune_file:
  assumes "wf_fs fs" "\<not> is_dir k fs"
  shows "drop_node k fs = prune [k] fs"
proof -
  have "prefix k x \<Longrightarrow> x = k" if "(x, n) \<in> set fs" for x n
    using wf_ancestor [OF assms(1), of x k] assms(2) that by (force simp: has_node_iff strict_prefix_def)
  then show ?thesis by (auto simp: drop_node_def prune_def intro!: filter_cong)
qed

lemma entries_iff: "(c, d) \<in> set (entries k fs) \<longleftrightarrow> (\<exists>n. (k @ [c], n) \<in> set fs \<and> dir_node n = d)"
proof -
  have "is_child k x \<and> last x = c \<longleftrightarrow> x = k @ [c]" for x by (auto simp: is_child_def)
  then show ?thesis by (auto simp: entries_def image_iff) metis+
qed

lemma entries_distinct:
  assumes "distinct (map fst fs)"
  shows "distinct (map fst (entries k fs))"
proof -
  have "map fst (entries k fs) = map last (filter (is_child k) (map fst fs))"
    by (induction fs) (auto simp: entries_def)
  moreover have "inj_on last {x. is_child k x}" by (auto simp: inj_on_def is_child_def) (metis append_butlast_last_id)
  ultimately show ?thesis using assms by (auto simp: distinct_map intro: inj_on_subset)
qed

definition no_remove_faults :: "file_env \<Rightarrow> bool" where
  "no_remove_faults E \<longleftrightarrow> (\<forall>x. fe_fault (fv_fs E) COpendir x = 0 \<and> fe_fault (fv_fs E) CRmdir x = 0 \<and> fe_fault (fv_fs E) CUnlink x = 0)"

lemma prune_prune: "prune ks (prune ls fs) = prune (ls @ ks) fs"
  by (auto simp: prune_def intro!: filter_cong)

lemma unlink_prune:
  assumes "no_remove_faults E" "wf_fs fs" "resolve (fv_fs E) p = k" "map_of fs k = Some n" "\<not> dir_node n" "k \<noteq> []"
  shows "snd (os_unlink (fv_fs E) p fs) = prune [k] fs"
proof -
  have "\<not> is_dir k fs" using assms(4-6) by (auto simp: is_dir_def dir_node_def)
  then show ?thesis using assms prune_file [OF assms(2)] by (simp add: os_unlink_def no_remove_faults_def has_node_def)
qed

text \<open>When the entries of a directory are gone it is empty, and removing it removes what was below it.\<close>

lemma rmdir_prune:
  assumes "no_remove_faults E" "wf_fs fs" "resolve (fv_fs E) p = k" "is_dir k fs" "k \<noteq> []"
    and "ks = map (\<lambda>(c, d). k @ [c]) (entries k fs)"
  shows "os_rmdir (fv_fs E) p (prune ks fs) = (0, prune [k] fs)"
proof -
  have kn: "\<forall>l\<in>set ks. \<not> prefix l k" using assms(6) by (auto dest: prefix_length_le)
  have d: "is_dir k (prune ks fs)" using assms(4) kn by (simp add: is_dir_def map_of_prune)
  have below: "\<exists>l\<in>set ks. prefix l x" if x: "has_node x fs" "strict_prefix k x" for x
  proof -
    obtain c y where y: "x = k @ c # y" using strict_prefixE' [OF x(2)] by metis
    have "has_node (k @ [c]) fs"
    proof (cases "y = []")
      case False
      then show ?thesis using wf_ancestor [OF assms(2) x(1), of "k @ [c]"] is_dir_has by (simp add: y strict_prefix_def)
    qed (use x y in simp)
    then obtain n where "(k @ [c], n) \<in> set fs" by (auto simp: has_node_iff)
    then have "(c, dir_node n) \<in> set (entries k fs)" by (auto simp: entries_iff)
    then show ?thesis using y assms(6) by force
  qed
  have "entries k (prune ks fs) = []"
  proof (rule ccontr)
    assume "entries k (prune ks fs) \<noteq> []"
    then obtain c d where "(c, d) \<in> set (entries k (prune ks fs))" by (cases "entries k (prune ks fs)") auto
    then obtain n where n: "(k @ [c], n) \<in> set (prune ks fs)" by (auto simp: entries_iff)
    then have "(c, dir_node n) \<in> set (entries k fs)" by (auto simp: entries_iff prune_def)
    then have "k @ [c] \<in> set ks" using assms(6) by force
    then show False using n by (auto simp: prune_def)
  qed
  moreover have "drop_node k (prune ks fs) = prune [k] fs"
  proof -
    have "(x \<noteq> k \<and> (\<forall>l\<in>set ks. \<not> prefix l x)) = (\<not> prefix k x)" if "(x, n) \<in> set fs" for x n
    proof -
      have "has_node x fs" using that by (force simp: has_node_iff)
      moreover have "prefix l x \<Longrightarrow> l \<in> set ks \<Longrightarrow> prefix k x" for l using assms(6) by (auto simp: prefix_def)
      ultimately show ?thesis using below [of x] by (auto simp: strict_prefix_def)
    qed
    then show ?thesis by (auto simp: drop_node_def prune_def intro!: filter_cong)
  qed
  ultimately show ?thesis using assms(1,3,5) d is_dir_has [OF d] by (simp add: os_rmdir_def no_remove_faults_def)
qed

lemma remove_exact:
  "flags = 1 \<Longrightarrow> env_ok E \<Longrightarrow> no_remove_faults E \<Longrightarrow> fs_ok (fv_fs E) fs \<Longrightarrow> wf_fs fs \<Longrightarrow> canonical (fv_fs E) p \<Longrightarrow>
    length p < PM E \<Longrightarrow> PM E < fuel + length p \<Longrightarrow> is_dir (resolve (fv_fs E) p) fs \<Longrightarrow>
    remove_dir E flags fuel p r fs = Some (r, prune [resolve (fv_fs E) p] fs)"
  "flags = 1 \<Longrightarrow> env_ok E \<Longrightarrow> no_remove_faults E \<Longrightarrow> fs_ok (fv_fs E) fs \<Longrightarrow> wf_fs fs \<Longrightarrow> canonical (fv_fs E) p \<Longrightarrow>
    PM E \<le> fuel + length p \<Longrightarrow> names_ok E p es \<Longrightarrow> distinct (map fst es) \<Longrightarrow>
    (\<forall>(c, d) \<in> set es. \<exists>n. map_of fs (resolve (fv_fs E) p @ [c]) = Some n \<and> dir_node n = d) \<Longrightarrow>
    remove_entries E flags fuel p es r fs = Some (r, prune (map (\<lambda>(c, d). resolve (fv_fs E) p @ [c]) es) fs)"
proof (induction E flags fuel p r fs and E flags fuel p es r fs rule: remove_dir_remove_entries.induct)
  case (2 E flags fuel p r fs)
  let ?k = "resolve (fv_fs E) p"
  have o: "os_opendir (fv_fs E) p fs = (0, entries ?k fs)"
    using "2.prems"(3,9) is_dir_has by (simp add: os_opendir_def no_remove_faults_def)
  have k: "?k \<noteq> []" using "2.prems"(6) by (auto simp: canonical_def)
  have n: "names_ok E p (entries ?k fs)" by (rule opendir_names [OF "2.prems"(2,4,6) o])
  have es: "\<forall>(c, d) \<in> set (entries ?k fs). \<exists>n. map_of fs (?k @ [c]) = Some n \<and> dir_node n = d"
    using wf_fsD [OF "2.prems"(5)] by (auto simp: entries_iff)
  have d: "distinct (map fst (entries ?k fs))" using "2.prems"(5) by (simp add: wf_fs_def entries_distinct)
  have "remove_entries E flags fuel p (entries ?k fs) r fs = Some (r, prune (map (\<lambda>(c, d). ?k @ [c]) (entries ?k fs)) fs)"
    using "2.IH" [OF o [symmetric] refl] "2.prems" n es d by simp
  then show ?case using o rmdir_prune [OF "2.prems"(3,5) refl "2.prems"(9) k refl] "2.prems"(1) by simp
next
  case (4 E flags fuel p c d es r fs)
  let ?k = "resolve (fv_fs E) p"
  have c: "valid_comp c" "length p + Suc (length c) \<le> fe_name_max (fv_fs E)" "names_ok E p es" using "4.prems"(8) by (auto simp: names_ok_def)
  note ep = entry_path_ok [OF "4.prems"(2,6) c(1,2)]
  have lt: "length (entry_path E p c) < PM E" "PM E < fuel + length (entry_path E p c)" using ep(1,3) "4.prems"(7) c(1) by (auto simp: valid_comp_def neq_Nil_conv)
  have cn: "canonical (fv_fs E) (entry_path E p c)" "resolve (fv_fs E) (entry_path E p c) = ?k @ [c]" using ep by simp_all
  obtain n where n: "map_of fs (?k @ [c]) = Some n" "dir_node n = d" using "4.prems"(10) by auto
  let ?fs = "prune [?k @ [c]] fs"
  have rest: "\<forall>(c', d') \<in> set es. \<exists>n. map_of ?fs (?k @ [c']) = Some n \<and> dir_node n = d'"
    using "4.prems"(9,10) by (force simp: map_of_prune)
  have ok: "fs_ok (fv_fs E) ?fs" by (rule fs_ok_subset [OF "4.prems"(4)]) (auto simp: prune_def)
  have wf: "wf_fs ?fs" by (rule wf_prune [OF "4.prems"(5)]) simp
  have fin: "prune (map (\<lambda>(c, d). ?k @ [c]) es) ?fs = prune (map (\<lambda>(c, d). ?k @ [c]) ((c, d) # es)) fs" by (simp add: prune_prune)
  have d': "distinct (map fst es)" using "4.prems"(9) by simp
  show ?case
  proof (cases d)
    case True
    then have "is_dir (?k @ [c]) fs" using n by (cases n) (auto simp: is_dir_def dir_node_def)
    then have "remove_dir E flags fuel (entry_path E p c) r fs = Some (r, ?fs)"
      using "4.IH"(1) [OF refl True "4.prems"(1-5) cn(1) lt] cn(2) by simp
    then show ?thesis using "4.IH"(2) [OF refl True, of "(r, ?fs)" r ?fs] "4.prems"(1-3,6,7) ok wf c(3) d' rest fin True by simp
  next
    case False
    have "snd (os_unlink (fv_fs E) (entry_path E p c) fs) = ?fs"
      by (rule unlink_prune [OF "4.prems"(3,5) cn(2) n(1)]) (use n(2) False in simp_all)
    then show ?thesis using "4.IH"(3) [OF refl False] "4.prems"(1-3,6,7) ok wf c(3) d' rest fin False by simp
  qed
qed (simp_all add: prune_def case_prod_unfold)

text \<open>C30: Removing a directory recursively removes exactly the directory and what is below it, and reports success.\<close>

theorem recursive_rmdir_removes_subtree:
  assumes "env_ok E" "no_remove_faults E" "fs_ok (fv_fs E) fs" "wf_fs fs" "is_dir k fs" "k \<noteq> []" "valid_name k"
    and "length (join k) < PM E" "fq_type q = FILE_RMDIR" "fq_flags q = Flags 1" "fq_filename q = join k"
  shows "load_dir_work E q fs = Some (q\<lparr>fq_r := 0, fq_offset := 0\<rparr>, filter (\<lambda>(x, n). \<not> prefix k x) fs)"
proof -
  have "remove_dir E 1 (PM E) (join k) 0 fs = Some (0, prune [resolve (fv_fs E) (join k)] fs)"
    by (rule remove_exact(1)) (use assms in \<open>simp_all add: canonical_join resolve_join neq_Nil_conv\<close>)
  then show ?thesis using assms(6,7,9-11) by (simp add: load_dir_work_def resolve_join prune_def)
qed

definition rmdir_req0 :: file_req where
  "rmdir_req0 = (init_file_req FILE_RMDIR cbs0)\<lparr>fq_filename := ''/data/quickapp'', fq_flags := Flags 1\<rparr>"

lemma recursive_rmdir_removes_subtree_witness:
  "\<exists>q. load_dir_work fenv0 rmdir_req0 fs0 = Some (q, [([''data''], FDir 1)])"
proof -
  let ?k = "[''data'', ''quickapp'']"
  have d: "is_dir ?k fs0" by (simp add: is_dir_def fs0_def)
  have v: "valid_name ?k" by (simp add: valid_name_def valid_comp_def)
  have q: "fq_type rmdir_req0 = FILE_RMDIR" "fq_flags rmdir_req0 = Flags 1" "fq_filename rmdir_req0 = join ?k"
    by (simp_all add: rmdir_req0_def init_file_req_def)
  have n: "no_remove_faults fenv0" by (simp add: no_remove_faults_def)
  have l: "length (join ?k) < PM fenv0" by simp
  have f: "filter (\<lambda>(x, n). \<not> prefix ?k x) fs0 = [([''data''], FDir 1)]" by (simp add: fs0_def)
  show ?thesis using recursive_rmdir_removes_subtree [OF fenv0_ok(1) n fenv0_ok(2) fs0_wf d _ v l q] by (simp add: f)
qed

section \<open>What reading does beside reading\<close>

text \<open>Reading an array buffer from a file that is missing fails, after the directories of the file have been made.\<close>

lemma reading_makes_directories:
  assumes "env_ok E" "valid_name (k @ [c])" "length (join (k @ [c])) < PM E - 1" "length (join k) \<le> fe_name_max (fv_fs E)" "k \<noteq> []"
    and "\<forall>x y. fe_fault (fv_fs E) x y = 0" "wf_fs fs" "\<forall>x. prefix x k \<longrightarrow> has_node x fs \<longrightarrow> is_dir x fs" "\<not> has_node (k @ [c]) fs"
    and "fq_flags q = O_RDONLY" "fq_filename q = join (k @ [c])" "fq_len q \<noteq> INT32_MIN"
  shows "\<exists>q'. load_file_work E q fs = Some (q', fs @ map (\<lambda>x. (x, FDir (fe_now (fv_fs E)))) (missing_dirs k fs)) \<and> fq_r q' = - ENOENT"
proof -
  let ?fs = "fs @ map (\<lambda>x. (x, FDir (fe_now (fv_fs E)))) (missing_dirs k fs)"
  have c: "CHR ''/'' \<notin> set c" "valid_name k" using assms(2) by (auto simp: valid_name_def valid_comp_def)
  have res: "resolve (fv_fs E) (join (k @ [c])) = k @ [c]" by (rule resolve_join [OF assms(2)]) simp
  have open_missing: "os_open (fv_fs E) False False (join (k @ [c])) fs' = (ENOENT, fs')" if "\<not> has_node (k @ [c]) fs'" for fs'
    using that is_dir_has [of "k @ [c]" fs'] by (auto simp: os_open_def res assms(6) Let_def simp del: join_simps)
  have n: "\<not> has_node (k @ [c]) ?fs" using assms(9) by (auto simp: has_node_iff missing_dirs_def dest: prefix_length_le)
  have m: "create_dir E 1 (join k) r fs = Some (r, ?fs)" for r by (rule create_dir_exact) (use assms c in auto)
  show ?thesis using open_missing [OF assms(9)] open_missing [OF n] m assms(3,10-12) dir_part_join [OF c(1), of "join k"]
    by (simp add: load_file_work_def open_file_def Let_def errno_defs)
qed

text \<open>A path of an app can lead out of its directory: the components \<open>..\<close> are not refused.\<close>

lemma read_path_leaves_the_app:
  "load_path fenv0 FILE_READTEXT ''/../other/a'' = Some (Some ''data/app/app/../other/a'')"
  "resolve (fv_fs fenv0) ''data/app/app/../other/a'' = [''data'', ''app'', ''other'', ''a'']"
proof -
  show "load_path fenv0 FILE_READTEXT ''/../other/a'' = Some (Some ''data/app/app/../other/a'')"
    by (simp add: load_path_def fenv0_def PM_def)
  have "comps ''data/app/app/../other/a'' = [''data'', ''app'', ''app'', ''..'', ''other'', ''a'']"
    using comps_slash [of "''data''" "''app/app/../other/a''"] comps_slash [of "''app''" "''app/../other/a''"]
      comps_slash [of "''app''" "''../other/a''"] comps_slash [of "''..''" "''other/a''"] comps_slash [of "''other''" "''a''"]
    by (simp add: comps_plain del: comps.simps)
  then show "resolve (fv_fs fenv0) ''data/app/app/../other/a'' = [''data'', ''app'', ''other'', ''a'']"
    by (simp add: resolve_def fenv0_def del: comps.simps)
qed

end
