(* ===== verification/Workers.thy ===== *)
theory Workers
  imports Services ConcreteEngine
begin

text \<open>
  The workers of an instance (\<open>src/worker_manager.cpp\<close>): native work that runs on the thread pool of libuv and then reports
  on the loop. A worker is an index of \<open>wm_all\<close>; workers are never deleted. \<open>wm_events\<close> records the calls of the functions of the
  client. A result \<open>None\<close> is a crash.
\<close>

section \<open>State\<close>

definition FEATURE_WORKER_INITED :: int where "FEATURE_WORKER_INITED = 0"
definition FEATURE_WORKER_RUNNING :: int where "FEATURE_WORKER_RUNNING = 2"

text \<open>The states as \<open>include/feature_exports.h\<close> numbers them for the clients.\<close>

definition CLIENT_WORKER_PENDING :: int where "CLIENT_WORKER_PENDING = 0"
definition CLIENT_WORKER_INVALID :: int where "CLIENT_WORKER_INVALID = 2"

definition FeatureWorkerCancelSuccess :: int where "FeatureWorkerCancelSuccess = 0"
definition FeatureWorkerCancelInvalid :: int where "FeatureWorkerCancelInvalid = 2"

record worker =
  wk_user_data :: bool
  wk_do_free :: bool
  wk_pid :: int
  wk_status :: int

text \<open>\<open>DoFree i own\<close>: the user data is released, by the function of the client or by \<open>free\<close>.\<close>

datatype worker_event = DoWork nat | DoAfter nat | DoFree nat bool

record workers =
  wm_handle :: "inst option"
  wm_loop :: bool
  wm_world :: world
  wm_all :: "worker list"
  wm_pending :: "nat list"
  wm_queue :: "nat list"
  wm_done :: "(nat \<times> int) list"
  wm_events :: "worker_event list"

section \<open>Operations\<close>

definition worker_init :: "workers \<Rightarrow> workers" where
  "worker_init s = s\<lparr>wm_loop := True\<rparr>"

definition worker_create :: "int \<Rightarrow> nat \<Rightarrow> bool \<Rightarrow> workers \<Rightarrow> nat \<times> workers" where
  "worker_create pid buf_size fr s =
     (length (wm_all s),
      s\<lparr>wm_all := wm_all s @ [\<lparr>wk_user_data = buf_size \<noteq> 0, wk_do_free = fr, wk_pid = pid, wk_status = FEATURE_WORKER_INITED\<rparr>],
        wm_pending := wm_pending s @ [length (wm_all s)]\<rparr>)"

text \<open>\<open>ret\<close> is the result of \<open>uv_queue_work\<close>, which uses the loop.\<close>

definition worker_commit :: "int \<Rightarrow> nat \<Rightarrow> workers \<Rightarrow> (bool \<times> workers) option" where
  "worker_commit ret i s =
     (if \<not> wm_loop s then None
      else if ret \<noteq> 0 then Some (False, s)
      else Some (True, s\<lparr>wm_queue := wm_queue s @ [i]\<rparr>))"

text \<open>The two functions that \<open>commit\<close> hands to libuv: on a thread of the pool, and on the loop.\<close>

definition set_status :: "nat \<Rightarrow> int \<Rightarrow> workers \<Rightarrow> workers" where
  "set_status i st s = s\<lparr>wm_all := (wm_all s)[i := (wm_all s ! i)\<lparr>wk_status := st\<rparr>]\<rparr>"

definition worker_run :: "nat \<Rightarrow> workers \<Rightarrow> workers" where
  "worker_run i s =
     (let s = set_status i FEATURE_WORKER_RUNNING s
      in s\<lparr>wm_queue := remove1 i (wm_queue s), wm_done := wm_done s @ [(i, 0)], wm_events := wm_events s @ [DoWork i]\<rparr>)"

definition worker_after :: "nat \<Rightarrow> int \<Rightarrow> workers \<Rightarrow> workers" where
  "worker_after i status s =
     (let s = set_status i status s; k = wm_all s ! i
      in s\<lparr>wm_done := remove1 (i, status) (wm_done s),
           wm_events := wm_events s @ DoAfter i # (if wk_user_data k then [DoFree i (wk_do_free k)] else [])\<rparr>)"

definition worker_resolve :: "engine \<Rightarrow> nat \<Rightarrow> nval \<Rightarrow> workers \<Rightarrow> bool \<times> workers" where
  "worker_resolve e i v s =
     (let (r, h, w) = FeaturePromiseResolve e (wm_handle s) (wk_pid (wm_all s ! i)) [v] (wm_world s)
      in (r, s\<lparr>wm_handle := h, wm_world := w\<rparr>))"

definition worker_reject :: "nat \<Rightarrow> 32 word \<Rightarrow> string option \<Rightarrow> workers \<Rightarrow> bool \<times> workers" where
  "worker_reject i code msg s =
     (let (r, h, w) = FeaturePromiseReject (wm_handle s) (wk_pid (wm_all s ! i)) code msg (wm_world s)
      in (r, s\<lparr>wm_handle := h, wm_world := w\<rparr>))"

definition worker_checkValid :: "nat \<Rightarrow> workers \<Rightarrow> bool" where
  "worker_checkValid i s \<longleftrightarrow> i \<in> set (wm_pending s)"

text \<open>\<open>uv_cancel\<close> is the function of libuv, a parameter.\<close>

definition worker_cancel :: "(nat \<Rightarrow> workers \<Rightarrow> workers) \<Rightarrow> nat \<Rightarrow> workers \<Rightarrow> bool \<times> workers" where
  "worker_cancel uv_cancel i s = (if i \<in> set (wm_pending s) then (False, s) else (True, uv_cancel i s))"

definition FeatureWorkerGetState :: "nat \<Rightarrow> workers \<Rightarrow> int" where
  "FeatureWorkerGetState i s = wk_status (wm_all s ! i)"

definition FeatureWorkerCancel :: "(nat \<Rightarrow> workers \<Rightarrow> workers) \<Rightarrow> nat \<Rightarrow> workers \<Rightarrow> int \<times> workers" where
  "FeatureWorkerCancel uv_cancel i s =
     (if \<not> worker_checkValid i s then (FeatureWorkerCancelInvalid, s)
      else (FeatureWorkerCancelSuccess, snd (worker_cancel uv_cancel i s)))"

section \<open>Runs\<close>

datatype worker_op =
    WkCreate int nat bool
  | WkCommit nat int
  | WkRun nat
  | WkAfter nat int
  | WkResolve nat nval
  | WkReject nat "32 word" "string option"
  | WkCancel nat

text \<open>A client has only the workers that were made for it.\<close>

fun worker_step :: "(nat \<Rightarrow> workers \<Rightarrow> workers) \<Rightarrow> engine \<Rightarrow> worker_op \<Rightarrow> workers \<Rightarrow> workers option" where
  "worker_step uv_cancel e (WkCreate pid n fr) s = Some (snd (worker_create pid n fr s))"
| "worker_step uv_cancel e (WkCommit i ret) s = (if i < length (wm_all s) then map_option snd (worker_commit ret i s) else Some s)"
| "worker_step uv_cancel e (WkRun i) s = Some (if i \<in> set (wm_queue s) then worker_run i s else s)"
| "worker_step uv_cancel e (WkAfter i st) s = Some (if (i, st) \<in> set (wm_done s) then worker_after i st s else s)"
| "worker_step uv_cancel e (WkResolve i v) s = Some (if i < length (wm_all s) then snd (worker_resolve e i v s) else s)"
| "worker_step uv_cancel e (WkReject i c m) s = Some (if i < length (wm_all s) then snd (worker_reject i c m s) else s)"
| "worker_step uv_cancel e (WkCancel i) s = Some (if i < length (wm_all s) then snd (FeatureWorkerCancel uv_cancel i s) else s)"

text \<open>An instance makes its manager without a handle and without a loop.\<close>

definition new_workers :: "world \<Rightarrow> workers" where
  "new_workers w = \<lparr>wm_handle = None, wm_loop = False, wm_world = w, wm_all = [], wm_pending = [], wm_queue = [], wm_done = [], wm_events = []\<rparr>"

definition commits :: "worker_op list \<Rightarrow> nat list" where
  "commits ps = concat (map (\<lambda>p. case p of WkCommit i r \<Rightarrow> [i] | _ \<Rightarrow> []) ps)"

fun event_worker :: "worker_event \<Rightarrow> nat" where
  "event_worker (DoWork i) = i"
| "event_worker (DoAfter i) = i"
| "event_worker (DoFree i own) = i"

text \<open>What has happened to a worker, and all that happens to it.\<close>

definition history :: "nat \<Rightarrow> workers \<Rightarrow> worker_event list" where
  "history i s = filter (\<lambda>e. event_worker e = i) (wm_events s)"

definition whole_life :: "nat \<Rightarrow> worker \<Rightarrow> worker_event list" where
  "whole_life i k = [DoWork i, DoAfter i] @ (if wk_user_data k then [DoFree i (wk_do_free k)] else [])"

section \<open>The invariant\<close>

definition wm_open :: "workers \<Rightarrow> nat set" where
  "wm_open s = set (wm_queue s) \<union> fst ` set (wm_done s)"

definition wk_ok :: "nat \<Rightarrow> workers \<Rightarrow> bool" where
  "wk_ok i s \<longleftrightarrow> (if i \<in> set (wm_queue s) then history i s = []
     else if i \<in> fst ` set (wm_done s) then history i s = [DoWork i] else history i s \<in> {[], whole_life i (wm_all s ! i)})"

text \<open>\<open>cs\<close> are the workers that may have been committed.\<close>

definition wkinv :: "nat set \<Rightarrow> workers \<Rightarrow> bool" where
  "wkinv cs s \<longleftrightarrow> wm_loop s \<and> wm_pending s = [0..<length (wm_all s)] \<and> distinct (wm_queue s @ map fst (wm_done s)) \<and>
     wm_open s \<subseteq> {0..<length (wm_all s)} \<inter> cs \<and> snd ` set (wm_done s) \<subseteq> {0} \<and>
     (\<forall>i. history i s \<noteq> [] \<longrightarrow> i < length (wm_all s) \<and> i \<in> cs) \<and> (\<forall>i < length (wm_all s). wk_ok i s)"

lemma history_simps [simp]:
  "history i (s\<lparr>wm_queue := q\<rparr>) = history i s" "history i (s\<lparr>wm_done := d\<rparr>) = history i s"
  "history i (s\<lparr>wm_handle := h\<rparr>) = history i s" "history i (s\<lparr>wm_world := w\<rparr>) = history i s"
  "history i (s\<lparr>wm_all := a\<rparr>) = history i s" "history i (s\<lparr>wm_pending := p\<rparr>) = history i s"
  "history i (s\<lparr>wm_events := wm_events s @ es\<rparr>) = history i s @ filter (\<lambda>e. event_worker e = i) es"
  by (simp_all add: history_def)

lemma whole_life_status [simp]: "whole_life i (k\<lparr>wk_status := st\<rparr>) = whole_life i k"
  by (simp add: whole_life_def)

lemma wkinvD:
  assumes "wkinv cs s"
  shows "wm_loop s" "wm_pending s = [0..<length (wm_all s)]" "distinct (wm_queue s)" "distinct (map fst (wm_done s))"
    "i \<in> set (wm_queue s) \<Longrightarrow> i \<notin> fst ` set (wm_done s)" "i \<in> wm_open s \<Longrightarrow> i < length (wm_all s) \<and> i \<in> cs"
    "(i, st) \<in> set (wm_done s) \<Longrightarrow> st = 0" "history i s \<noteq> [] \<Longrightarrow> i < length (wm_all s) \<and> i \<in> cs"
    "i < length (wm_all s) \<Longrightarrow> wk_ok i s"
  using assms unfolding wkinv_def by (auto dest!: subsetD)

lemma remove1_fst: "distinct (map fst xs) \<Longrightarrow> (i, x) \<in> set xs \<Longrightarrow> map fst (remove1 (i, x) xs) = remove1 i (map fst xs)"
  by (induction xs) (auto simp: rev_image_eqI)

lemma whole_life_tl: "DoWork i # tl (whole_life i k) = whole_life i k"
  by (simp add: whole_life_def)

lemma create_keeps:
  assumes "wkinv cs s"
  shows "wkinv cs (snd (worker_create pid n fr s))"
proof -
  let ?n = "length (wm_all s)" and ?s = "snd (worker_create pid n fr s)"
  have same: "wm_queue ?s = wm_queue s" "wm_done ?s = wm_done s" "wm_open ?s = wm_open s" "history i ?s = history i s" for i
    by (simp_all add: worker_create_def wm_open_def)
  have "wk_ok i ?s" if "i < ?n" for i
    using wkinvD(9) [OF assms that] that by (auto simp: wk_ok_def same worker_create_def nth_append)
  moreover have "wk_ok ?n ?s"
    using wkinvD(6,8) [OF assms, of ?n] by (auto simp: wk_ok_def same wm_open_def)
  ultimately have "\<forall>i < Suc ?n. wk_ok i ?s" by (simp add: less_Suc_eq)
  then show ?thesis using assms by (fastforce simp: wkinv_def same worker_create_def wm_open_def less_Suc_eq)
qed

lemma commit_keeps:
  assumes "wkinv cs s" "i < length (wm_all s)" "i \<notin> cs"
  shows "\<exists>b s'. worker_commit ret i s = Some (b, s') \<and> wkinv (insert i cs) s'"
proof (cases "ret = 0")
  case True
  let ?s = "s\<lparr>wm_queue := wm_queue s @ [i]\<rparr>"
  have i: "i \<notin> wm_open s" "history i s = []" using wkinvD(6,8) [OF assms(1), of i] assms(3) by auto
  have "wk_ok j ?s" if "j < length (wm_all s)" for j
    using wkinvD(9) [OF assms(1) that] i by (auto simp: wk_ok_def)
  then have "wkinv (insert i cs) ?s" using assms i by (auto simp: wkinv_def wm_open_def)
  then show ?thesis using True wkinvD(1) [OF assms(1)] by (auto simp: worker_commit_def)
next
  case False
  have "wkinv (insert i cs) s" using assms(1) by (auto simp: wkinv_def)
  then show ?thesis using False wkinvD(1) [OF assms(1)] by (auto simp: worker_commit_def)
qed

lemma worker_parts:
  "wm_queue (worker_run i s) = remove1 i (wm_queue s)" "wm_done (worker_run i s) = wm_done s @ [(i, 0)]"
  "length (wm_all (worker_run i s)) = length (wm_all s)" "wm_loop (worker_run i s) = wm_loop s" "wm_pending (worker_run i s) = wm_pending s"
  "history j (worker_run i s) = history j s @ (if j = i then [DoWork i] else [])"
  "wm_queue (worker_after i st s) = wm_queue s" "wm_done (worker_after i st s) = remove1 (i, st) (wm_done s)"
  "length (wm_all (worker_after i st s)) = length (wm_all s)" "wm_loop (worker_after i st s) = wm_loop s" "wm_pending (worker_after i st s) = wm_pending s"
  "i < length (wm_all s) \<Longrightarrow> history j (worker_after i st s) = history j s @ (if j = i then tl (whole_life i (wm_all s ! i)) else [])"
  "i < length (wm_all s) \<Longrightarrow> whole_life j (wm_all (worker_run i s) ! j) = whole_life j (wm_all s ! j)"
  "i < length (wm_all s) \<Longrightarrow> whole_life j (wm_all (worker_after i st s) ! j) = whole_life j (wm_all s ! j)"
proof -
  show "history j (worker_run i s) = history j s @ (if j = i then [DoWork i] else [])"
    by (auto simp: worker_run_def set_status_def history_def)
  show "i < length (wm_all s) \<Longrightarrow> history j (worker_after i st s) = history j s @ (if j = i then tl (whole_life i (wm_all s ! i)) else [])"
    by (auto simp: worker_after_def set_status_def history_def whole_life_def Let_def)
qed (auto simp: worker_run_def worker_after_def set_status_def Let_def nth_list_update)

lemma run_keeps:
  assumes "wkinv cs s" "i \<in> set (wm_queue s)"
  shows "wkinv cs (worker_run i s)"
proof -
  let ?s = "worker_run i s"
  have i: "i < length (wm_all s)" "i \<in> cs" "i \<notin> fst ` set (wm_done s)" "history i s = []"
    using wkinvD(5,6) [OF assms(1), of i] wkinvD(9) [OF assms(1), of i] assms(2) by (auto simp: wm_open_def wk_ok_def)
  have op: "wm_open ?s = wm_open s" using assms(2) wkinvD(3) [OF assms(1)] by (auto simp: wm_open_def worker_parts)
  have "wk_ok j ?s" if "j < length (wm_all s)" for j
  proof (cases "j = i")
    case True
    then show ?thesis using i wkinvD(3) [OF assms(1)] by (simp add: wk_ok_def worker_parts)
  next
    case False
    then show ?thesis using wkinvD(9) [OF assms(1) that] i(1) by (simp add: wk_ok_def worker_parts split: if_splits)
  qed
  moreover have "distinct (wm_queue ?s @ map fst (wm_done ?s))" using assms i(3) unfolding wkinv_def by (auto simp: worker_parts)
  moreover have "\<forall>j. history j ?s \<noteq> [] \<longrightarrow> j < length (wm_all s) \<and> j \<in> cs" using wkinvD(8) [OF assms(1)] i by (auto simp: worker_parts)
  ultimately show ?thesis using assms(1) unfolding wkinv_def op by (auto simp: worker_parts)
qed

lemma after_keeps:
  assumes "wkinv cs s" "(i, st) \<in> set (wm_done s)"
  shows "wkinv cs (worker_after i st s)"
proof -
  let ?s = "worker_after i st s"
  have f: "i \<in> fst ` set (wm_done s)" using assms(2) by force
  have i: "i < length (wm_all s)" "i \<in> cs" "i \<notin> set (wm_queue s)" "history i s = [DoWork i]"
    using wkinvD(5,6) [OF assms(1), of i] wkinvD(9) [OF assms(1), of i] f by (auto simp: wm_open_def wk_ok_def split: if_splits)
  have m: "map fst (remove1 (i, st) (wm_done s)) = remove1 i (map fst (wm_done s))"
    by (rule remove1_fst [OF wkinvD(4) [OF assms(1)] assms(2)])
  have d: "fst ` set (remove1 (i, st) (wm_done s)) = fst ` set (wm_done s) - {i}" "distinct (map fst (remove1 (i, st) (wm_done s)))"
  proof -
    have "set (map fst (remove1 (i, st) (wm_done s))) = set (map fst (wm_done s)) - {i}" unfolding m using wkinvD(4) [OF assms(1)] by simp
    then show "fst ` set (remove1 (i, st) (wm_done s)) = fst ` set (wm_done s) - {i}" by simp
  qed (use wkinvD(4) [OF assms(1)] in \<open>simp add: m\<close>)
  have "wk_ok j ?s" if "j < length (wm_all s)" for j
  proof (cases "j = i")
    case True
    then show ?thesis using i d(1) by (simp add: wk_ok_def worker_parts whole_life_tl)
  next
    case False
    then show ?thesis using wkinvD(9) [OF assms(1) that] i d(1) by (simp add: wk_ok_def worker_parts split: if_splits)
  qed
  moreover have "distinct (wm_queue ?s @ map fst (wm_done ?s))" using assms(1) d unfolding wkinv_def by (auto simp: worker_parts dest: notin_set_remove1)
  moreover have "j < length (wm_all s) \<and> j \<in> cs" if "history j ?s \<noteq> []" for j
    using wkinvD(8) [OF assms(1), of j] i(1,2) that worker_parts(12) [OF i(1), of j st] by (cases "j = i") simp_all
  moreover have "wm_open ?s \<subseteq> wm_open s" using d(1) by (auto simp: wm_open_def worker_parts)
  moreover have "snd ` set (wm_done ?s) \<subseteq> {0}"
    using wkinvD(7) [OF assms(1)] subsetD [OF set_remove1_subset [of "(i, st)" "wm_done s"]] by (force simp: worker_parts(8))
  ultimately show ?thesis using assms(1) unfolding wkinv_def worker_parts(9-11) by blast
qed

lemma wkinv_world: "wkinv cs (s\<lparr>wm_handle := h, wm_world := w\<rparr>) = wkinv cs s"
  by (simp add: wkinv_def wm_open_def wk_ok_def)

lemma worker_calls_keep:
  "wkinv cs s \<Longrightarrow> wkinv cs (snd (worker_resolve e i v s))" "wkinv cs s \<Longrightarrow> wkinv cs (snd (worker_reject i c m s))"
  by (simp_all add: worker_resolve_def worker_reject_def wkinv_world split: prod.splits)

text \<open>A worker that was made is pending for ever, so it is never cancelled.\<close>

lemma cancel_does_nothing: "wkinv cs s \<Longrightarrow> i < length (wm_all s) \<Longrightarrow> FeatureWorkerCancel uv_cancel i s = (FeatureWorkerCancelSuccess, s)"
  by (simp add: FeatureWorkerCancel_def worker_cancel_def worker_checkValid_def wkinvD(2))

lemma worker_step_keeps:
  assumes "wkinv cs s" "set (commits [p]) \<inter> cs = {}"
  shows "\<exists>s'. worker_step uv_cancel e p s = Some s' \<and> wkinv (set (commits [p]) \<union> cs) s'"
proof (cases p)
  case (WkCommit i ret)
  then have "i \<notin> cs" using assms(2) by (simp add: commits_def)
  moreover have "wkinv (insert i cs) s" using assms(1) by (auto simp: wkinv_def)
  ultimately show ?thesis using commit_keeps [OF assms(1), of i ret] WkCommit by (cases "i < length (wm_all s)") (auto simp: commits_def)
qed (use assms in \<open>auto simp: commits_def create_keeps run_keeps after_keeps worker_calls_keep cancel_does_nothing\<close>)

lemma worker_run_keeps:
  "wkinv cs s \<Longrightarrow> distinct (commits ps) \<Longrightarrow> set (commits ps) \<inter> cs = {} \<Longrightarrow>
    \<exists>s'. run_steps (worker_step uv_cancel e) ps s = Some s' \<and> wkinv (set (commits ps) \<union> cs) s'"
proof (induction ps arbitrary: cs s)
  case (Cons p ps)
  have c: "commits (p # ps) = commits [p] @ commits ps" by (simp add: commits_def)
  obtain s1 where s1: "worker_step uv_cancel e p s = Some s1" "wkinv (set (commits [p]) \<union> cs) s1"
    using worker_step_keeps [OF Cons.prems(1)] Cons.prems(3) unfolding c by force
  have "distinct (commits ps)" "set (commits ps) \<inter> (set (commits [p]) \<union> cs) = {}" using Cons.prems(2,3) unfolding c by auto
  from Cons.IH [OF s1(2) this] obtain s2 where "run_steps (worker_step uv_cancel e) ps s1 = Some s2" "wkinv (set (commits ps) \<union> (set (commits [p]) \<union> cs)) s2" by blast
  then show ?case using s1(1) unfolding c by (auto simp: Un_ac)
qed (simp add: commits_def)

lemma new_workers_ok: "wkinv {} (worker_init (new_workers w))"
  by (simp add: wkinv_def worker_init_def new_workers_def wm_open_def history_def)

section \<open>The properties\<close>


definition worker_ops0 :: "worker_op list" where
  "worker_ops0 = [WkCreate 1 16 False, WkCreate 2 0 True, WkCommit 0 0, WkCancel 0, WkRun 0, WkCommit 1 0, WkAfter 0 0]"


text \<open>No source file initialises the manager of an instance: its workers cannot be committed, and settle no promise.\<close>

lemma uninitialised_manager:
  "worker_commit ret i (snd (worker_create pid n fr (new_workers w))) = None"
  "wm_handle s = None \<Longrightarrow> fst (worker_resolve e i v s) = False" "wm_handle s = None \<Longrightarrow> fst (worker_reject i c m s) = False"
  by (simp_all add: worker_commit_def worker_create_def new_workers_def worker_resolve_def worker_reject_def
      FeaturePromiseResolve_def FeaturePromiseReject_def usable_def)

text \<open>The header tells clients other numbers: a running worker is invalid for them, and one that has succeeded is pending.\<close>

lemma client_states:
  "FEATURE_WORKER_RUNNING = CLIENT_WORKER_INVALID"
  "i < length (wm_all s) \<Longrightarrow> FeatureWorkerGetState i (worker_after i 0 s) = CLIENT_WORKER_PENDING"
  by (simp_all add: FEATURE_WORKER_RUNNING_def CLIENT_WORKER_INVALID_def CLIENT_WORKER_PENDING_def FeatureWorkerGetState_def worker_after_def set_status_def Let_def)

end
