(* ===== verification/UrlCheck.thy ===== *)
theory UrlCheck
  imports TextUtils
begin

text \<open>
  The check of a URL (\<open>modules/net_utils.cpp\<close>): a match against a regular expression, computed by derivatives, and the language of
  the expression.
\<close>

section \<open>Regular expressions\<close>

text \<open>\<open>RSet neg cs\<close>: one character that is among \<open>cs\<close>, or is not.\<close>

datatype rx = RNull | REps | RSet bool "char list" | RSeq rx rx | RAlt rx rx | RStar rx

definition ROpt :: "rx \<Rightarrow> rx" where
  "ROpt r = RAlt REps r"

definition RPlus :: "rx \<Rightarrow> rx" where
  "RPlus r = RSeq r (RStar r)"

definition RLit :: "string \<Rightarrow> rx" where
  "RLit s = foldr (\<lambda>c. RSeq (RSet False [c])) s REps"

fun nullable :: "rx \<Rightarrow> bool" where
  "nullable RNull = False"
| "nullable REps = True"
| "nullable (RSet neg cs) = False"
| "nullable (RSeq r s) = (nullable r \<and> nullable s)"
| "nullable (RAlt r s) = (nullable r \<or> nullable s)"
| "nullable (RStar r) = True"

fun deriv :: "char \<Rightarrow> rx \<Rightarrow> rx" where
  "deriv c RNull = RNull"
| "deriv c REps = RNull"
| "deriv c (RSet neg cs) = (if (c \<in> set cs) \<noteq> neg then REps else RNull)"
| "deriv c (RSeq r s) = (if nullable r then RAlt (RSeq (deriv c r) s) (deriv c s) else RSeq (deriv c r) s)"
| "deriv c (RAlt r s) = RAlt (deriv c r) (deriv c s)"
| "deriv c (RStar r) = RSeq (deriv c r) (RStar r)"

definition regex_match :: "rx \<Rightarrow> string \<Rightarrow> bool" where
  "regex_match r s = nullable (foldl (\<lambda>r c. deriv c r) r s)"

fun rx_lang :: "rx \<Rightarrow> string set" where
  "rx_lang RNull = {}"
| "rx_lang REps = {[]}"
| "rx_lang (RSet neg cs) = {[c] |c. (c \<in> set cs) \<noteq> neg}"
| "rx_lang (RSeq r s) = {u @ v |u v. u \<in> rx_lang r \<and> v \<in> rx_lang s}"
| "rx_lang (RAlt r s) = rx_lang r \<union> rx_lang s"
| "rx_lang (RStar r) = {concat us |us. set us \<subseteq> rx_lang r}"

lemma nullable_lang: "nullable r \<longleftrightarrow> [] \<in> rx_lang r"
  by (induction r) (auto intro: exI [of _ "[]"])

lemma star_first:
  "c # s \<in> rx_lang (RStar r) \<longleftrightarrow> (\<exists>u v. c # u \<in> rx_lang r \<and> v \<in> rx_lang (RStar r) \<and> s = u @ v)"
proof
  assume "c # s \<in> rx_lang (RStar r)"
  then obtain us where "c # s = concat us" "set us \<subseteq> rx_lang r" by auto
  then show "\<exists>u v. c # u \<in> rx_lang r \<and> v \<in> rx_lang (RStar r) \<and> s = u @ v"
  proof (induction us)
    case (Cons x us)
    show ?case
    proof (cases x)
      case (Cons d u)
      then show ?thesis using Cons.prems by auto
    qed (use Cons in auto)
  qed simp
next
  assume "\<exists>u v. c # u \<in> rx_lang r \<and> v \<in> rx_lang (RStar r) \<and> s = u @ v"
  then obtain u us where "c # u \<in> rx_lang r" "set us \<subseteq> rx_lang r" "s = u @ concat us" by auto
  then have "c # s = concat ((c # u) # us)" "set ((c # u) # us) \<subseteq> rx_lang r" by auto
  then show "c # s \<in> rx_lang (RStar r)" unfolding rx_lang.simps by blast
qed

lemma deriv_lang: "s \<in> rx_lang (deriv c r) \<longleftrightarrow> c # s \<in> rx_lang r"
proof (induction r arbitrary: s)
  case (RSeq r1 r2)
  have "c # s \<in> rx_lang (RSeq r1 r2) \<longleftrightarrow> (\<exists>u v. c # u \<in> rx_lang r1 \<and> v \<in> rx_lang r2 \<and> s = u @ v) \<or> ([] \<in> rx_lang r1 \<and> c # s \<in> rx_lang r2)"
    by (auto simp: Cons_eq_append_conv)
  then show ?case using RSeq by (auto simp: nullable_lang)
next
  case (RStar r)
  then show ?case unfolding star_first by auto
qed auto

lemma regex_match_lang: "regex_match r s \<longleftrightarrow> s \<in> rx_lang r"
  by (induction s arbitrary: r) (simp_all add: regex_match_def nullable_lang deriv_lang)

lemma lit_lang [simp]: "rx_lang (RLit s) = {s}"
  by (induction s) (auto simp: RLit_def)

lemma opt_lang [simp]: "rx_lang (ROpt r) = insert [] (rx_lang r)"
  by (simp add: ROpt_def)

lemma seq_lit: "s \<in> rx_lang r \<Longrightarrow> l @ s \<in> rx_lang (RSeq (RLit l) r)"
  by auto

lemma seq_opt: "s \<in> rx_lang r \<Longrightarrow> s \<in> rx_lang (RSeq (ROpt r') r)"
  by (auto intro: exI [of _ "[]"])

lemma star_set_lang: "s \<in> rx_lang (RStar (RSet neg cs)) \<longleftrightarrow> list_all (\<lambda>c. (c \<in> set cs) \<noteq> neg) s"
proof (induction s)
  case Nil
  then show ?case by (auto intro: exI [of _ "[]"])
next
  case (Cons c s)
  have "c # s \<in> rx_lang (RStar (RSet neg cs)) \<longleftrightarrow> (c \<in> set cs) \<noteq> neg \<and> s \<in> rx_lang (RStar (RSet neg cs))"
    unfolding star_first by auto
  then show ?case using Cons by simp
qed

section \<open>The check\<close>

text \<open>\<open>^http(([^:\/?#]+):)?(//([^\/?#]*))?([^?#]*)(\?([^#]*))?(#(.*))?\<close>, matched as a whole; within brackets a backslash is a character.\<close>

definition url_regex :: rx where
  "url_regex =
     RSeq (RLit ''http'') (RSeq (ROpt (RSeq (RPlus (RSet True (CHR 0x5C # '':/?#''))) (RLit '':'')))
       (RSeq (ROpt (RSeq (RLit ''//'') (RStar (RSet True (CHR 0x5C # ''/?#'')))))
       (RSeq (RStar (RSet True ''?#''))
       (RSeq (ROpt (RSeq (RLit ''?'') (RStar (RSet True ''#''))))
             (ROpt (RSeq (RLit ''#'') (RStar (RSet True []))))))))"

definition check_url :: "string option \<Rightarrow> bool" where
  "check_url url = (case url of None \<Rightarrow> False | Some u \<Rightarrow> u \<noteq> [] \<and> regex_match url_regex u)"

text \<open>Every string is a path, a query and a fragment.\<close>

lemma tail_lang:
  "t \<in> rx_lang (RSeq (RStar (RSet True ''?#'')) (RSeq (ROpt (RSeq (RLit ''?'') (RStar (RSet True ''#'')))) (ROpt (RSeq (RLit ''#'') (RStar (RSet True []))))))"
proof -
  define p where "p = takeWhile (\<lambda>c. c \<notin> set ''?#'') t"
  define u where "u = dropWhile (\<lambda>c. c \<notin> set ''?#'') t"
  have p: "p \<in> rx_lang (RStar (RSet True ''?#''))" unfolding star_set_lang p_def by (auto simp: list_all_iff dest: set_takeWhileD)
  have frag: "v \<in> rx_lang (ROpt (RSeq (RLit ''#'') (RStar (RSet True []))))" if "v = [] \<or> hd v = CHR ''#''" for v
  proof (cases v)
    case (Cons c v')
    have "v' \<in> rx_lang (RStar (RSet True []))" unfolding star_set_lang by (simp add: list_all_iff)
    then show ?thesis using that Cons by (auto simp del: rx_lang.simps(6))
  qed simp
  have "u \<in> rx_lang (RSeq (ROpt (RSeq (RLit ''?'') (RStar (RSet True ''#'')))) (ROpt (RSeq (RLit ''#'') (RStar (RSet True [])))))"
  proof (cases "u = [] \<or> hd u = CHR ''#''")
    case True
    then show ?thesis using frag [OF True] by (auto simp del: rx_lang.simps(6))
  next
    case False
    then obtain u' where u': "u = CHR ''?'' # u'" using hd_dropWhile [of "\<lambda>c. c \<notin> set ''?#''" t] unfolding u_def [symmetric] by (cases u) auto
    define q where "q = takeWhile (\<lambda>c. c \<noteq> CHR ''#'') u'"
    define v where "v = dropWhile (\<lambda>c. c \<noteq> CHR ''#'') u'"
    have "q \<in> rx_lang (RStar (RSet True ''#''))" unfolding star_set_lang q_def by (auto simp: list_all_iff dest: set_takeWhileD)
    then have "CHR ''?'' # q \<in> rx_lang (ROpt (RSeq (RLit ''?'') (RStar (RSet True ''#''))))" by (auto simp del: rx_lang.simps(6))
    moreover have "v \<in> rx_lang (ROpt (RSeq (RLit ''#'') (RStar (RSet True []))))"
      by (rule frag) (use hd_dropWhile [of "\<lambda>c. c \<noteq> CHR ''#''" u'] in \<open>auto simp: v_def\<close>)
    moreover have "u = (CHR ''?'' # q) @ v" by (simp add: u' q_def v_def)
    ultimately show ?thesis by (subst rx_lang.simps(4)) blast
  qed
  moreover have "t = p @ u" by (simp add: p_def u_def)
  ultimately show ?thesis using p by (subst rx_lang.simps(4)) blast
qed

text \<open>A URL passes the check exactly when it starts with \<open>http\<close>: the rest of the regular expression excludes nothing.\<close>

theorem check_url_is_prefix: "check_url (Some u) \<longleftrightarrow> prefix ''http'' u"
proof
  assume "check_url (Some u)"
  then show "prefix ''http'' u" by (auto simp: check_url_def regex_match_lang url_regex_def simp del: rx_lang.simps(5,6))
next
  assume "prefix ''http'' u"
  then obtain t where t: "u = ''http'' @ t" by (auto simp: prefix_def)
  have "u \<in> rx_lang url_regex" unfolding url_regex_def t by (intro seq_lit seq_opt tail_lang)
  then show "check_url (Some u)" by (simp add: check_url_def regex_match_lang t)
qed

end
