(* ===== verification/Fetch.thy ===== *)
theory Fetch
  imports FtContext Services UrlCheck "HOL-Library.List_Lexorder" "HOL-Library.Char_ord"
begin

text \<open>
  The fetch module (\<open>modules/fetch_impl.cpp\<close>) with the headers of \<open>modules/net_utils.cpp\<close>: the arguments of a script are made
  into a request of libuv-ext, the response into an object the promise is resolved with. A fetch is an index of \<open>fx_all\<close>, freed
  when its entry is \<open>None\<close>; \<open>fx_inflight\<close> are the fetches whose request has been committed, \<open>fx_sent\<close> records what was
  committed, \<open>fx_log\<close> which fetches were freed and \<open>fx_settled\<close> which promises were settled. A result \<open>None\<close> is a crash: a freed fetch or a
  null pointer is used, or memory outside the body of a response is read.
\<close>

section \<open>Data\<close>

datatype method_type = GET | OPTIONS | HEAD | POST | PUT | DELETE | TRACE | CONNECT

datatype response_type = RT_NONE | RT_TXT | RT_JSON | RT_FILE | RT_ARRAYBUFFER

datatype content_type = CT_TEXT | CT_URLENCODED | CT_STREAM | CT_JSON

definition fetch_method_names :: "string list" where
  "fetch_method_names = [[], ''GET'', ''OPTIONS'', ''HEAD'', ''POST'', ''PUT'', ''DELETE'', ''TRACE'', ''CONNECT'']"

definition fetch_methods :: "method_type list" where
  "fetch_methods = [GET, OPTIONS, HEAD, POST, PUT, DELETE, TRACE, CONNECT]"

definition method_name :: "method_type \<Rightarrow> string" where
  "method_name m = (case m of GET \<Rightarrow> ''GET'' | OPTIONS \<Rightarrow> ''OPTIONS'' | HEAD \<Rightarrow> ''HEAD'' | POST \<Rightarrow> ''POST'' | PUT \<Rightarrow> ''PUT''
     | DELETE \<Rightarrow> ''DELETE'' | TRACE \<Rightarrow> ''TRACE'' | CONNECT \<Rightarrow> ''CONNECT'')"

text \<open>The members of an object as cJSON gives them.\<close>

datatype citem = CNull | CFalse | CTrue | CNumber int | CString string | COther

type_synonym headers = "(string, string) omap"

record content_t =
  ct_type :: "content_type option"
  ct_data :: string
  ct_buf :: "string option"
  ct_size :: nat

record fetch =
  ft_pid :: int
  ft_filename :: string
  ft_download :: bool
  ft_response_type :: response_type
  ft_content :: content_t
  ft_url :: string

text \<open>What is handed to the request of the library.\<close>

record request_data =
  rd_url :: string
  rd_method :: string
  rd_data :: "string option"
  rd_size :: nat
  rd_headers :: "string list"
  rd_timeout :: int
  rd_download :: bool
  rd_filename :: string

record fetch_para =
  fp_url :: "string option"
  fp_data :: "jsval option"
  fp_header :: "jsval option"
  fp_method :: "string option"
  fp_response_type :: string
  fp_timeout :: int

datatype request_state = UV_REQUEST_DONE | REQUEST_CANCEL | REQUEST_ERROR

text \<open>The body is followed by a NUL in its buffer.\<close>

record response =
  rs_state :: request_state
  rs_headers :: "string option"
  rs_body :: "string option"
  rs_size :: nat
  rs_httpcode :: int

record fetch_env =
  fx_engine :: engine
  fx_to_string :: "jsval \<Rightarrow> string option"
  fx_to_buffer :: "jsval \<Rightarrow> string"
  fx_cjson :: "string \<Rightarrow> (string \<times> citem) list"
  fx_path :: path_env
  fx_dot :: string
  fx_pkg :: string
  fx_time :: string
  fx_create :: int

record fetches =
  fx_inst :: "inst option"
  fx_world :: world
  fx_all :: "fetch option list"
  fx_linklist :: "nat list"
  fx_inflight :: "nat list"
  fx_refs :: nat
  fx_sent :: "(nat \<times> request_data) list"
  fx_settled :: "nat list"
  fx_log :: "nat list"

definition GENERAL :: int where "GENERAL = 200"
definition ARGSERROR :: int where "ARGSERROR = 202"
definition TIMEOUT :: int where "TIMEOUT = 204"
definition IOERROR :: int where "IOERROR = 300"
definition DEFAULT_TIMEOUT :: int where "DEFAULT_TIMEOUT = 20000"

text \<open>The codes of libcurl by number.\<close>

definition map_curl_to_custom_error :: "int \<Rightarrow> int" where
  "map_curl_to_custom_error c =
     (if c \<in> {2, 27, 23} then GENERAL
      else if c \<in> {43, 48, 49} then ARGSERROR
      else if c = 28 then TIMEOUT
      else if c \<in> {26, 56, 55} then IOERROR
      else GENERAL)"

section \<open>Names of types and methods\<close>

definition get_response_type :: "string \<Rightarrow> response_type" where
  "get_response_type t =
     (if t = ''arraybuffer'' then RT_ARRAYBUFFER
      else if t = ''file'' then RT_FILE
      else if t = ''json'' then RT_JSON
      else if t = ''text'' then RT_TXT else RT_NONE)"

text \<open>\<open>buf\<close> has room for 127 characters.\<close>

definition get_content_type :: "string \<Rightarrow> content_type option" where
  "get_content_type t =
     (let buf = take 127 (takeWhile (\<lambda>c. c \<noteq> CHR '';'') t)
      in if buf = ''stream'' then Some CT_STREAM
         else if buf = ''text'' then Some CT_TEXT
         else if buf = ''urlencoded'' then Some CT_URLENCODED
         else if buf = ''application/json'' then Some CT_JSON else None)"

definition get_method :: "string option \<Rightarrow> method_type option" where
  "get_method m =
     (case m of
        None \<Rightarrow> Some GET
      | Some t \<Rightarrow>
          (if t = [] then Some GET
           else let i = unat (type_contain fetch_method_names t True) in if i = 0 then None else Some (fetch_methods ! (i - 1))))"

section \<open>Headers\<close>

function decimal_nat :: "nat \<Rightarrow> string" where
  "decimal_nat n = (if n < 10 then [char_of (48 + n)] else decimal_nat (n div 10) @ [char_of (48 + n mod 10)])"
  by pat_completeness auto
termination
  by (relation "measure id") auto

declare decimal_nat.simps [simp del]

definition decimal :: "int \<Rightarrow> string" where
  "decimal i = (if i < 0 then CHR ''-'' # decimal_nat (nat (- i)) else decimal_nat (nat i))"

text \<open>\<open>std::map::insert\<close> keeps an entry that is there.\<close>

definition header_insert :: "string \<Rightarrow> string \<Rightarrow> headers \<Rightarrow> headers" where
  "header_insert k v hs = (if map_of hs k = None then omap_put k v hs else hs)"

definition CONTENT_TYPE :: string where "CONTENT_TYPE = ''Content-Type''"

definition parse_header_cb :: "string \<Rightarrow> citem \<Rightarrow> headers \<Rightarrow> headers option" where
  "parse_header_cb key item hs =
     (case item of
        CString v \<Rightarrow>
          Some (if strcasecmp key CONTENT_TYPE \<and> strstr v ''charset='' = None then
                  (let hs1 = header_insert CONTENT_TYPE v hs
                   in omap_put CONTENT_TYPE (the (map_of hs1 CONTENT_TYPE) @ ''; charset=utf-8'') hs1)
                else header_insert key v hs)
      | CNumber i \<Rightarrow> Some (header_insert key (decimal i) hs)
      | _ \<Rightarrow> None)"

text \<open>\<open>ft_map_for_every_entry\<close>: \<open>Inl\<close> when the entries are left early, with what has been made so far.\<close>

fun for_every_entry :: "(string \<Rightarrow> citem \<Rightarrow> 'a \<Rightarrow> 'a option) \<Rightarrow> (string \<times> citem) list \<Rightarrow> 'a \<Rightarrow> 'a + 'a" where
  "for_every_entry cb [] a = Inr a"
| "for_every_entry cb ((k, i) # es) a =
     (if i = CNull then for_every_entry cb es a
      else case cb k i a of None \<Rightarrow> Inl a | Some a' \<Rightarrow> for_every_entry cb es a')"

text \<open>The string of an object is not null; \<open>None\<close> would be a null pointer handed to cJSON, which has no entries.\<close>

definition ft_map_for_every_entry ::
  "fetch_env \<Rightarrow> jsval \<Rightarrow> (string \<Rightarrow> citem \<Rightarrow> 'a \<Rightarrow> 'a option) \<Rightarrow> 'a \<Rightarrow> 'a + 'a" where
  "ft_map_for_every_entry E data cb a =
     (if ft_get_type data \<noteq> FT_TYPE_OBJECT then Inl a
      else case ft_to_string (fx_engine E) (fx_to_string E) data of
             None \<Rightarrow> Inr a
           | Some str \<Rightarrow> for_every_entry cb (fx_cjson E str) a)"

definition check_header :: "fetch_env \<Rightarrow> jsval \<Rightarrow> headers \<Rightarrow> bool \<times> headers" where
  "check_header E js hs =
     (if ft_get_type js = FT_TYPE_STRING then (ft_to_string (fx_engine E) (fx_to_string E) js = Some [], hs)
      else case ft_map_for_every_entry E js parse_header_cb hs of Inl hs' \<Rightarrow> (False, hs') | Inr hs' \<Rightarrow> (True, hs'))"

definition get_cy_from_header :: "headers \<Rightarrow> content_type option" where
  "get_cy_from_header hs =
     (case map_of hs ''content-type'' of
        Some t \<Rightarrow> get_content_type t
      | None \<Rightarrow> (case map_of hs ''Content-Type'' of Some t \<Rightarrow> get_content_type t | None \<Rightarrow> None))"

definition get_cy_from_response :: "headers \<Rightarrow> response_type" where
  "get_cy_from_response hs =
     (case (case map_of hs ''content-type'' of None \<Rightarrow> map_of hs ''Content-Type'' | Some t \<Rightarrow> Some t) of
        None \<Rightarrow> RT_TXT
      | Some t \<Rightarrow> if takeWhile (\<lambda>c. c \<noteq> CHR '';'') t = ''application/json'' then RT_JSON else RT_TXT)"

section \<open>The data of a request\<close>

definition get_post_data_cb :: "string \<Rightarrow> citem \<Rightarrow> string \<Rightarrow> string option" where
  "get_post_data_cb key item out =
     (let out = (if out = [] then out else out @ ''&'') @ key @ ''=''
      in case item of
           CNumber i \<Rightarrow> Some (out @ decimal i)
         | CString v \<Rightarrow> Some (out @ v)
         | CFalse \<Rightarrow> Some (out @ ''false'')
         | CTrue \<Rightarrow> Some (out @ ''true'')
         | _ \<Rightarrow> None)"

definition content_default :: "content_type option \<Rightarrow> content_type \<Rightarrow> content_type option" where
  "content_default ct d = (case ct of None \<Rightarrow> Some d | Some c \<Rightarrow> Some c)"

text \<open>\<open>None\<close> is a crash, \<open>Some None\<close> a refusal. A string that is null is copied, which crashes.\<close>

definition get_pdata_and_content_type :: "fetch_env \<Rightarrow> jsval \<Rightarrow> content_type option \<Rightarrow> content_t \<Rightarrow> content_t option option" where
  "get_pdata_and_content_type E data ct out =
     (let t = ft_get_type data;
          string = (\<lambda>c. map_option (\<lambda>s. Some (out\<lparr>ct_type := c, ct_data := s, ct_size := length s\<rparr>)) (ft_to_string (fx_engine E) (fx_to_string E) data))
      in if t = FT_TYPE_BUFFER \<or> t = FT_TYPE_TYPED_BUFFER then
           Some (Some (out\<lparr>ct_type := content_default ct CT_STREAM, ct_buf := Some (fx_to_buffer E data), ct_size := length (fx_to_buffer E data)\<rparr>))
         else if t = FT_TYPE_NULL \<or> t = FT_TYPE_UNDEF \<or> t = FT_TYPE_NONE then Some (Some (out\<lparr>ct_type := content_default ct CT_TEXT\<rparr>))
         else if t = FT_TYPE_STRING then string (content_default ct CT_TEXT)
         else if t = FT_TYPE_OBJECT then
           (if ct \<noteq> None \<and> ct \<noteq> Some CT_URLENCODED then string ct
            else Some (case ft_map_for_every_entry E data get_post_data_cb (ct_data out) of
                         Inl _ \<Rightarrow> None
                       | Inr d \<Rightarrow> Some (out\<lparr>ct_type := Some CT_URLENCODED, ct_data := d, ct_size := length d\<rparr>)))
         else Some None)"

section \<open>Making a fetch\<close>

definition fx_reject :: "int \<Rightarrow> int \<Rightarrow> string option \<Rightarrow> fetches \<Rightarrow> fetches" where
  "fx_reject pid code msg s =
     (let (r, h, w) = FeaturePromiseReject (fx_inst s) pid (word_of_int code) msg (fx_world s)
      in s\<lparr>fx_inst := h, fx_world := w\<rparr>)"

definition fx_resolve :: "fetch_env \<Rightarrow> int \<Rightarrow> jsval \<Rightarrow> fetches \<Rightarrow> fetches" where
  "fx_resolve E pid v s =
     (let (r, h, w) = FeaturePromiseResolve (fx_engine E) (fx_inst s) pid [NAny v] (fx_world s)
      in s\<lparr>fx_inst := h, fx_world := w\<rparr>)"

text \<open>\<open>basename\<close> takes the slashes at the end off its argument.\<close>

definition strip_slashes :: "string \<Rightarrow> string" where
  "strip_slashes u = rev (dropWhile (\<lambda>c. c = CHR ''/'') (rev u))"

definition last_part :: "string \<Rightarrow> string" where
  "last_part u = rev (takeWhile (\<lambda>c. c \<noteq> CHR ''/'') (rev u))"

text \<open>The fetch and the URL, which \<open>basename\<close> may have changed; \<open>None\<close> when a path runs over its buffer.\<close>

definition fetch_create :: "fetch_env \<Rightarrow> int \<Rightarrow> string \<Rightarrow> string \<Rightarrow> content_t \<Rightarrow> (fetch \<times> string) option" where
  "fetch_create E pid url response_type ct =
     (let rt = get_response_type response_type;
          f = \<lparr>ft_pid = pid, ft_filename = [], ft_download = (rt = RT_FILE), ft_response_type = rt, ft_content = ct, ft_url = []\<rparr>
      in if rt \<noteq> RT_FILE then Some (f, url)
         else let url = strip_slashes url; filename = last_part url; filename = (if length filename = length url then fx_time E else filename)
              in map_option (\<lambda>path. (f\<lparr>ft_filename := (case path of
                                          None \<Rightarrow> app_absolute_path_generator (fx_path E) (fx_dot E) (fx_pkg E) ''files'' filename
                                        | Some p \<Rightarrow> p)\<rparr>, url))
                   (app_relative_to_absolute_path (fx_path E) (Some (fx_pkg E)) (Some filename)))"

definition bytes_of :: "string \<Rightarrow> byte list" where
  "bytes_of = map of_char"

definition string_of :: "byte list \<Rightarrow> string" where
  "string_of = map (\<lambda>b. char_of (unat b))"

text \<open>A URL without escapes is escaped.\<close>

definition prepare_url :: "string \<Rightarrow> string option" where
  "prepare_url url =
     Option.bind (url_decode (bytes_of url)) (\<lambda>decode.
       if c_bytes decode = bytes_of url then map_option (string_of \<circ> c_bytes) (url_encode (c_bytes decode)) else Some url)"

definition request_create :: "string \<Rightarrow> fetch \<Rightarrow> int \<Rightarrow> method_type \<Rightarrow> headers \<Rightarrow> request_data" where
  "request_create url f timeout m hs =
     \<lparr>rd_url = url, rd_method = method_name m,
      rd_data = (if ct_data (ft_content f) = [] then ct_buf (ft_content f) else Some (ct_data (ft_content f))), rd_size = ct_size (ft_content f),
      rd_headers = map (\<lambda>(k, v). k @ '': '' @ v) hs, rd_timeout = timeout, rd_download = ft_download f, rd_filename = ft_filename f\<rparr>"

definition check_any :: "jsval option \<Rightarrow> bool" where
  "check_any v = (case v of None \<Rightarrow> False | Some x \<Rightarrow> 0 \<le> ft_get_type x)"

text \<open>The arguments: a refusal, or the method, the headers and the content.\<close>

definition fetch_args :: "fetch_env \<Rightarrow> fetch_para \<Rightarrow> (string + method_type \<times> headers \<times> content_t) option" where
  "fetch_args E obj =
     (let ct = \<lparr>ct_type = None, ct_data = [], ct_buf = None, ct_size = 0\<rparr>
      in if \<not> check_url (fp_url obj) then Some (Inl ''invalid url'')
         else case get_method (fp_method obj) of
           None \<Rightarrow> Some (Inl ''invalid method'')
         | Some m \<Rightarrow>
             (let (ok, hs) = (if check_any (fp_header obj) then check_header E (the (fp_header obj)) [] else (True, []))
              in if \<not> ok then Some (Inl ''invalid headers'')
                 else if check_any (fp_data obj) \<and> m \<noteq> GET \<and> m \<noteq> HEAD then
                   map_option (\<lambda>r. case r of None \<Rightarrow> Inl ''invalid data'' | Some c \<Rightarrow> Inr (m, hs, c))
                     (get_pdata_and_content_type E (the (fp_data obj)) (get_cy_from_header hs) ct)
                 else Some (Inr (m, omap_put ''Content-Type'' ''text/plain; charset=utf-8'' hs, ct))))"

text \<open>When the library gives no request, the fetch and the reference it holds are forgotten.\<close>

definition system_fetch_wrap_fetch :: "fetch_env \<Rightarrow> int \<Rightarrow> fetch_para \<Rightarrow> fetches \<Rightarrow> fetches option" where
  "system_fetch_wrap_fetch E pid obj s =
     (let timeout = (if 0 < fp_timeout obj then fp_timeout obj else DEFAULT_TIMEOUT)
      in Option.bind (fetch_args E obj) (\<lambda>args.
           case args of
             Inl msg \<Rightarrow> Some (fx_reject pid ARGSERROR (Some msg) s)
           | Inr (m, hs, c) \<Rightarrow>
               Option.bind (fetch_create E pid (the (fp_url obj)) (fp_response_type obj) c) (\<lambda>(f, url).
               let i = length (fx_all s); s = s\<lparr>fx_refs := Suc (fx_refs s)\<rparr>
               in if fx_create E \<noteq> 0
                  then Some (fx_reject pid GENERAL (Some ''create request err'') (s\<lparr>fx_all := fx_all s @ [Some f]\<rparr>))
                  else map_option (\<lambda>enc.
                         s\<lparr>fx_all := fx_all s @ [Some (f\<lparr>ft_url := enc\<rparr>)], fx_inflight := fx_inflight s @ [i],
                           fx_sent := fx_sent s @ [(i, request_create enc f timeout m hs)], fx_linklist := fx_linklist s @ [i]\<rparr>)
                       (prepare_url url))))"

section \<open>The response\<close>

text \<open>\<open>strtol\<close> with base 10 at the width of \<open>long\<close>; its two extreme results are those of an overflow.\<close>

definition LONG_MAX :: int where "LONG_MAX = 2 ^ 63 - 1"
definition LONG_MIN :: int where "LONG_MIN = - (2 ^ 63)"

definition is_space :: "char \<Rightarrow> bool" where
  "is_space c \<longleftrightarrow> c = CHR '' '' \<or> (9 \<le> (of_char c :: nat) \<and> (of_char c :: nat) \<le> 13)"

definition digits_value :: "string \<Rightarrow> int" where
  "digits_value s =
     foldl (\<lambda>n c. 10 * n + (of_char c - 48)) 0 (takeWhile (\<lambda>c. 48 \<le> (of_char c :: nat) \<and> (of_char c :: nat) \<le> 57) s)"

definition strtol :: "string \<Rightarrow> int" where
  "strtol s =
     (let t = dropWhile is_space s;
          v = (if prefix ''-'' t then - digits_value (drop 1 t) else if prefix ''+'' t then digits_value (drop 1 t) else digits_value t)
      in max LONG_MIN (min LONG_MAX v))"

text \<open>A length that is negative becomes a huge one.\<close>

definition adjusted_size :: "response \<Rightarrow> nat" where
  "adjusted_size rs =
     (case rs_headers rs of
        None \<Rightarrow> rs_size rs
      | Some h \<Rightarrow>
          (case (strstr h ''Content-Length: '', strstr h ''Content-Encoding: '') of
             (Some i, None) \<Rightarrow>
               (let len = strtol (drop (i + 16) h)
                in if len \<noteq> LONG_MIN \<and> len \<noteq> LONG_MAX then nat (len mod 2 ^ 64) else rs_size rs)
           | _ \<Rightarrow> (case rs_body rs of None \<Rightarrow> 0 | Some b \<Rightarrow> length (cstr b))))"

text \<open>
  \<open>get_response_data\<close>: the value, or \<open>None\<close> when a byte outside the buffer of the body is read. The text is read up to \<open>n\<close> bytes, the last
  of which is looked at first.
\<close>

definition text_value :: "string \<Rightarrow> nat \<Rightarrow> jsval option" where
  "text_value body n =
     (if n = 0 \<or> length body + 1 < n then None
      else if (body @ [NUL]) ! (n - 1) = NUL then Some (JStr (cstr body))
      else Some (JStr (cstr (take n body))))"

definition get_response_data :: "fetch_env \<Rightarrow> fetch \<Rightarrow> string option \<Rightarrow> nat \<Rightarrow> jsval option" where
  "get_response_data E f body n =
     (case body of
        None \<Rightarrow> Some (JStr [])
      | Some b \<Rightarrow>
          (if ft_response_type f = RT_JSON then
             (if length b < n then None else Some (ft_parse_json (fx_engine E) (take n b)))
           else if ft_download f then
             (case app_absolute_to_relative_path (fx_path E) (fx_pkg E) (Some b) of
                None \<Rightarrow> None
              | Some path \<Rightarrow> text_value path (length path + 1))
           else text_value b n))"

definition fetch_free :: "nat \<Rightarrow> fetches \<Rightarrow> fetches option" where
  "fetch_free i s =
     (case fx_all s ! i of
        None \<Rightarrow> None
      | Some _ \<Rightarrow> Some (s\<lparr>fx_linklist := remove1 i (fx_linklist s), fx_refs := fx_refs s - 1, fx_all := (fx_all s)[i := None],
                           fx_log := fx_log s @ [i]\<rparr>))"

text \<open>The part of \<open>fetch_request_cb\<close> for a response that is done. Its headers are copied, so they must not be null.\<close>

definition response_done :: "fetch_env \<Rightarrow> nat \<Rightarrow> fetch \<Rightarrow> response \<Rightarrow> fetches \<Rightarrow> fetches option" where
  "response_done E i f rs s =
     Option.bind (rs_headers rs) (\<lambda>h.
       let header = JObject (ft_form_headers h);
           w = js_new (JObject []) (js_new header (fx_world s));
           f = (if ft_response_type f = RT_NONE then
                  (let (ok, hs) = check_header E header [] in if ok then f\<lparr>ft_response_type := get_cy_from_response hs\<rparr> else f)
                else f)
       in Option.bind (get_response_data E f (rs_body rs) (adjusted_size rs)) (\<lambda>data.
          let w = js_new data w;
              (result, w) = js_set_prop (JObject []) ''code'' (JInt (word_of_int (rs_httpcode rs))) w;
              (result, w) = js_set_prop result ''headers'' header w;
              (result, w) = js_set_prop result ''data'' data w;
              s = s\<lparr>fx_world := w, fx_settled := fx_settled s @ [i]\<rparr>;
              s = (if 0 \<le> ft_get_type data then fx_resolve E (ft_pid f) result s
                   else fx_reject (ft_pid f) IOERROR (Some ''responseType dosen't match response data'') s)
          in Some (s\<lparr>fx_world := feature_free_value result (fx_world s)\<rparr>)))"

definition fetch_request_cb :: "fetch_env \<Rightarrow> nat \<Rightarrow> response \<Rightarrow> fetches \<Rightarrow> fetches option" where
  "fetch_request_cb E i rs s =
     (let s = s\<lparr>fx_inflight := remove1 i (fx_inflight s)\<rparr>
      in case fx_all s ! i of
           None \<Rightarrow> None
         | Some f \<Rightarrow>
             Option.bind
               (if FeatureInstanceIsDetached (fx_inst s) then Some s
                else case rs_state rs of
                  UV_REQUEST_DONE \<Rightarrow> response_done E i f rs s
                | REQUEST_CANCEL \<Rightarrow> Some s
                | REQUEST_ERROR \<Rightarrow>
                    Some (fx_reject (ft_pid f) (map_curl_to_custom_error (rs_httpcode rs)) (rs_body rs) (s\<lparr>fx_settled := fx_settled s @ [i]\<rparr>)))
               (fetch_free i))"

text \<open>\<open>system_fetch_onDestroy\<close>: the requests are deleted, so none comes back.\<close>

fun free_fetches :: "nat list \<Rightarrow> fetches \<Rightarrow> fetches option" where
  "free_fetches [] s = Some s"
| "free_fetches (i # is) s = Option.bind (fetch_free i (s\<lparr>fx_inflight := remove1 i (fx_inflight s)\<rparr>)) (free_fetches is)"

definition system_fetch_onDestroy :: "fetches \<Rightarrow> fetches option" where
  "system_fetch_onDestroy s = free_fetches (fx_linklist s) s"

section \<open>Runs\<close>

text \<open>\<open>FxDone\<close> and \<open>FxSaved\<close> are responses, the second to a request whose body was saved in a file.\<close>

datatype fetch_op =
    FxFetch int fetch_para
  | FxDone nat response
  | FxSaved nat response
  | FxDetach

definition is_download :: "nat \<Rightarrow> fetches \<Rightarrow> bool" where
  "is_download i s = (case fx_all s ! i of None \<Rightarrow> False | Some f \<Rightarrow> ft_download f)"

fun fetch_step :: "fetch_env \<Rightarrow> fetch_op \<Rightarrow> fetches \<Rightarrow> fetches option" where
  "fetch_step E (FxFetch pid obj) s = system_fetch_wrap_fetch E pid obj s"
| "fetch_step E (FxDone i rs) s = (if i \<in> set (fx_inflight s) \<and> \<not> is_download i s then fetch_request_cb E i rs s else Some s)"
| "fetch_step E (FxSaved i rs) s = (if i \<in> set (fx_inflight s) \<and> is_download i s then fetch_request_cb E i rs s else Some s)"
| "fetch_step E FxDetach s =
     Some (case fx_inst s of
             None \<Rightarrow> s
           | Some t \<Rightarrow> (let (t', w) = onDetached (fx_engine E) [] (t, fx_world s) in s\<lparr>fx_inst := Some t', fx_world := w\<rparr>))"

definition new_fetches :: "inst option \<Rightarrow> world \<Rightarrow> fetches" where
  "new_fetches I w = \<lparr>fx_inst = I, fx_world = w, fx_all = [], fx_linklist = [], fx_inflight = [], fx_refs = 0, fx_sent = [],
     fx_settled = [], fx_log = []\<rparr>"

end
