(* ===== verification/FetchProps.thy ===== *)
theory FetchProps
  imports Fetch TextProps ConcreteEngine SettingsProps
begin

text \<open>
  The properties of the fetch module: its invariant, that every fetch is answered and freed once, what is sent for the arguments
  of a script and what a response is made into.
\<close>

section \<open>The invariant\<close>

definition fx_log_ok :: "fetches \<Rightarrow> bool" where
  "fx_log_ok s \<longleftrightarrow> distinct (fx_log s) \<and> set (fx_log s) = {0..<length (fx_all s)} - live (fx_all s) \<and>
     distinct (fx_settled s) \<and> set (fx_settled s) \<inter> live (fx_all s) = {} \<and> set (fx_settled s) \<subseteq> {0..<length (fx_all s)}"

definition downloads_ok :: "fetches \<Rightarrow> bool" where
  "downloads_ok s \<longleftrightarrow> (\<forall>i\<in>live (fx_all s). ft_download (the (fx_all s ! i)) \<longleftrightarrow> ft_response_type (the (fx_all s ! i)) = RT_FILE)"

definition fxinv :: "fetch_env \<Rightarrow> fetches \<Rightarrow> bool" where
  "fxinv E s \<longleftrightarrow> fx_create E = 0 \<and> distinct (fx_linklist s) \<and> set (fx_linklist s) = live (fx_all s) \<and>
     distinct (fx_inflight s) \<and> set (fx_inflight s) = live (fx_all s) \<and>
     fx_refs s = count_live (\<lambda>_. True) (fx_all s) \<and> fx_log_ok s \<and> downloads_ok s"

lemma fxinvD:
  assumes "fxinv E s"
  shows "fx_create E = 0" "distinct (fx_linklist s)" "set (fx_linklist s) = live (fx_all s)" "distinct (fx_inflight s)"
    "set (fx_inflight s) = live (fx_all s)" "fx_refs s = count_live (\<lambda>_. True) (fx_all s)" "fx_log_ok s" "downloads_ok s"
  using assms by (simp_all add: fxinv_def)

lemma fxinv_world [simp]: "fxinv E (s\<lparr>fx_world := w\<rparr>) = fxinv E s" "fxinv E (s\<lparr>fx_inst := h\<rparr>) = fxinv E s"
  by (simp_all add: fxinv_def fx_log_ok_def downloads_ok_def)

lemma fx_reject_parts: "\<exists>h w. fx_reject pid code msg s = s\<lparr>fx_inst := h, fx_world := w\<rparr>"
  by (auto simp: fx_reject_def split: prod.splits)

lemma fx_resolve_parts: "\<exists>h w. fx_resolve E pid v s = s\<lparr>fx_inst := h, fx_world := w\<rparr>"
  by (auto simp: fx_resolve_def split: prod.splits)

text \<open>A response: its headers are there, and its size is that of the body at most.\<close>

definition sized_response :: "response \<Rightarrow> bool" where
  "sized_response rs \<longleftrightarrow> rs_state rs = UV_REQUEST_DONE \<longrightarrow> rs_headers rs \<noteq> None \<and>
     (case rs_body rs of None \<Rightarrow> True | Some b \<Rightarrow> 1 \<le> adjusted_size rs \<and> adjusted_size rs \<le> length b)"

definition saved_response :: "fetch_env \<Rightarrow> response \<Rightarrow> bool" where
  "saved_response E rs \<longleftrightarrow> rs_state rs = UV_REQUEST_DONE \<longrightarrow> rs_headers rs \<noteq> None \<and>
     (case rs_body rs of None \<Rightarrow> True | Some b \<Rightarrow> app_absolute_to_relative_path (fx_path E) (fx_pkg E) (Some b) \<noteq> None)"

definition args_fit :: "fetch_env \<Rightarrow> fetch_para \<Rightarrow> bool" where
  "args_fit E obj \<longleftrightarrow>
     (case fetch_args E obj of
        None \<Rightarrow> False
      | Some (Inl msg) \<Rightarrow> True
      | Some (Inr (m, hs, c)) \<Rightarrow> fetch_create E 0 (the (fp_url obj)) (fp_response_type obj) c \<noteq> None)"

fun fetch_legal :: "fetch_env \<Rightarrow> fetch_op \<Rightarrow> bool" where
  "fetch_legal E (FxFetch pid obj) \<longleftrightarrow> args_fit E obj"
| "fetch_legal E (FxDone i rs) \<longleftrightarrow> sized_response rs"
| "fetch_legal E (FxSaved i rs) \<longleftrightarrow> saved_response E rs"
| "fetch_legal E FxDetach \<longleftrightarrow> True"

section \<open>URLs\<close>

lemma url_decode_total: "\<exists>d. url_decode s = Some d"
proof -
  have "length buf + length s < cap \<Longrightarrow> \<exists>d. url_decode_loop cap s buf = Some d" for cap buf
  proof (induction cap s buf rule: url_decode_loop.induct)
    case (2 cap c s buf)
    then show ?case by (cases "c = 37") (auto simp: put_char_def split: list.splits)
  qed (simp add: put_char_def)
  then show ?thesis by (simp add: url_decode_def)
qed

lemma prepare_url_total: "\<exists>p. prepare_url u = Some p"
  using url_decode_total [of "bytes_of u"] by (auto simp: prepare_url_def url_encode_eq)

section \<open>Every operation keeps the invariant\<close>

lemma fxinv_new:
  assumes "fxinv E s" "ft_download f \<longleftrightarrow> ft_response_type f = RT_FILE"
  shows "fxinv E (s\<lparr>fx_refs := Suc (fx_refs s), fx_all := fx_all s @ [Some f], fx_inflight := fx_inflight s @ [length (fx_all s)],
    fx_sent := x, fx_linklist := fx_linklist s @ [length (fx_all s)]\<rparr>)" (is "fxinv E ?s")
proof -
  let ?n = "length (fx_all s)"
  have n: "?n \<notin> live (fx_all s)" by (rule live_facts(1))
  have old: "(fx_all s @ [Some f]) ! j = fx_all s ! j" if "j \<in> live (fx_all s)" for j
    using live_facts(3) [OF that] by (simp add: nth_append)
  have "downloads_ok ?s" using fxinvD(8) [OF assms(1)] assms(2) by (auto simp: downloads_ok_def old)
  moreover have "{0..<Suc ?n} - insert ?n (live (fx_all s)) = {0..<?n} - live (fx_all s)" by auto
  moreover have "set (fx_settled s) \<subseteq> {0..<?n}" "set (fx_settled s) \<inter> live (fx_all s) = {}"
    using fxinvD(7) [OF assms(1)] by (simp_all add: fx_log_ok_def)
  then have "set (fx_settled s) \<subseteq> {0..<Suc ?n}" "?n \<notin> set (fx_settled s)" by auto
  ultimately show ?thesis using fxinvD(1-7) [OF assms(1)] n
    by (simp add: fxinv_def fx_log_ok_def)
qed

lemma fetch_created:
  "fetch_create E pid url rt c = Some (f, url') \<Longrightarrow> ft_download f \<longleftrightarrow> ft_response_type f = RT_FILE"
  by (auto simp: fetch_create_def Let_def split: if_splits)

lemma fetch_create_fits: "fetch_create E 0 url rt c \<noteq> None \<Longrightarrow> \<exists>f url'. fetch_create E pid url rt c = Some (f, url')"
  by (auto simp: fetch_create_def Let_def split: if_splits)

lemma wrap_fetch_ok:
  assumes "fxinv E s" "args_fit E obj"
  shows "\<exists>s'. system_fetch_wrap_fetch E pid obj s = Some s' \<and> fxinv E s'"
proof (cases "fetch_args E obj")
  case None
  then show ?thesis using assms(2) by (simp add: args_fit_def)
next
  case (Some a)
  show ?thesis
  proof (cases a)
    case (Inl msg)
    obtain h w where "fx_reject pid ARGSERROR (Some msg) s = s\<lparr>fx_inst := h, fx_world := w\<rparr>" using fx_reject_parts by blast
    then show ?thesis using Some Inl assms(1) by (simp add: system_fetch_wrap_fetch_def)
  next
    case (Inr b)
    obtain m hs c where b: "b = (m, hs, c)" by (cases b)
    obtain f url where f: "fetch_create E pid (the (fp_url obj)) (fp_response_type obj) c = Some (f, url)"
      using assms(2) Some Inr b fetch_create_fits by (fastforce simp: args_fit_def)
    obtain enc where e: "prepare_url url = Some enc" using prepare_url_total by blast
    have "ft_download (f\<lparr>ft_url := enc\<rparr>) \<longleftrightarrow> ft_response_type (f\<lparr>ft_url := enc\<rparr>) = RT_FILE" using fetch_created [OF f] by simp
    from fxinv_new [OF assms(1) this] show ?thesis
      using Some Inr b f e fxinvD(1) [OF assms(1)] by (simp add: system_fetch_wrap_fetch_def Let_def)
  qed
qed

text \<open>What is left to do after a response: the fetch is freed.\<close>

definition answered_only :: "nat \<Rightarrow> fetches \<Rightarrow> fetches \<Rightarrow> bool" where
  "answered_only i s s' \<longleftrightarrow> fx_all s' = fx_all s \<and> fx_linklist s' = fx_linklist s \<and> fx_inflight s' = fx_inflight s \<and> fx_refs s' = fx_refs s \<and>
     fx_log s' = fx_log s \<and> (fx_settled s' = fx_settled s \<or> fx_settled s' = fx_settled s @ [i])"

lemma free_ok:
  assumes "fxinv E s" "i \<in> live (fx_all s)" "answered_only i (s\<lparr>fx_inflight := remove1 i (fx_inflight s)\<rparr>) s1"
  shows "\<exists>s'. fetch_free i s1 = Some s' \<and> fxinv E s'"
proof -
  obtain f where f: "fx_all s ! i = Some f" "i < length (fx_all s)" using liveD [OF assms(2)] live_facts(3) [OF assms(2)] by blast
  have s1: "fx_all s1 = fx_all s" "fx_linklist s1 = fx_linklist s" "fx_inflight s1 = remove1 i (fx_inflight s)" "fx_refs s1 = fx_refs s"
    "fx_log s1 = fx_log s" "fx_settled s1 = fx_settled s \<or> fx_settled s1 = fx_settled s @ [i]" using assms(3) by (simp_all add: answered_only_def)
  let ?s = "s1\<lparr>fx_linklist := remove1 i (fx_linklist s1), fx_refs := fx_refs s1 - 1, fx_all := (fx_all s1)[i := None], fx_log := fx_log s1 @ [i]\<rparr>"
  note D = fxinvD [OF assms(1)]
  have "i \<notin> set (fx_settled s)" "i \<notin> set (fx_log s)" using D(7) assms(2) by (auto simp: fx_log_ok_def)
  then have l: "fx_log_ok ?s" using D(7) assms(2) f(2) s1 by (auto simp: fx_log_ok_def)
  have d: "downloads_ok ?s" using D(8) by (auto simp: downloads_ok_def s1)
  have "fxinv E ?s" using D l d count_live_delete [OF f(2,1), of "\<lambda>_. True"] by (simp add: fxinv_def s1)
  then show ?thesis using f(1) by (simp add: fetch_free_def s1)
qed

lemma answered_reject: "answered_only i s (fx_reject pid code msg (s\<lparr>fx_settled := fx_settled s @ [i]\<rparr>))"
  using fx_reject_parts [of pid code msg "s\<lparr>fx_settled := fx_settled s @ [i]\<rparr>"] by (auto simp: answered_only_def)

lemma text_ok: "1 \<le> n \<Longrightarrow> n \<le> length b + 1 \<Longrightarrow> \<exists>v. text_value b n = Some v"
  by (simp add: text_value_def)

lemma data_ok:
  assumes "\<And>b. rs_body rs = Some b \<Longrightarrow>
    if ft_download f then app_absolute_to_relative_path (fx_path E) (fx_pkg E) (Some b) \<noteq> None \<and> ft_response_type f \<noteq> RT_JSON
    else 1 \<le> adjusted_size rs \<and> adjusted_size rs \<le> length b"
  shows "\<exists>v. get_response_data E f (rs_body rs) (adjusted_size rs) = Some v"
proof (cases "rs_body rs")
  case (Some b)
  show ?thesis
  proof (cases "ft_download f")
    case True
    then obtain path where "app_absolute_to_relative_path (fx_path E) (fx_pkg E) (Some b) = Some path" "ft_response_type f \<noteq> RT_JSON"
      using assms [OF Some] by auto
    then show ?thesis using Some True text_ok [of "length path + 1" path] by (simp add: get_response_data_def)
  next
    case False
    then show ?thesis using Some assms [OF Some] text_ok [of "adjusted_size rs" b] by (auto simp: get_response_data_def)
  qed
qed (simp add: get_response_data_def)

lemma response_done_ok:
  assumes "rs_headers rs \<noteq> None"
    and "\<And>b. rs_body rs = Some b \<Longrightarrow>
      if ft_download f then app_absolute_to_relative_path (fx_path E) (fx_pkg E) (Some b) \<noteq> None else 1 \<le> adjusted_size rs \<and> adjusted_size rs \<le> length b"
    and "ft_download f \<longleftrightarrow> ft_response_type f = RT_FILE"
  shows "\<exists>s'. response_done E i f rs s = Some s' \<and> answered_only i s s'"
proof -
  obtain h where h: "rs_headers rs = Some h" using assms(1) by blast
  define header where "header = JObject (ft_form_headers h)"
  define g where "g = (if ft_response_type f = RT_NONE then
    (let (ok, hs) = check_header E header [] in if ok then f\<lparr>ft_response_type := get_cy_from_response hs\<rparr> else f) else f)"
  have g: "ft_download g = ft_download f" "ft_pid g = ft_pid f" "ft_download f \<Longrightarrow> ft_response_type g \<noteq> RT_JSON"
    using assms(3) by (auto simp: g_def split: prod.splits)
  obtain v where v: "get_response_data E g (rs_body rs) (adjusted_size rs) = Some v"
    using data_ok [of rs g E] assms(2) g(1,3) by auto
  define w1 where "w1 = js_new v (js_new (JObject []) (js_new header (fx_world s)))"
  obtain r1 w2 where p1: "js_set_prop (JObject []) ''code'' (JInt (word_of_int (rs_httpcode rs))) w1 = (r1, w2)" by fastforce
  obtain r2 w3 where p2: "js_set_prop r1 ''headers'' header w2 = (r2, w3)" by fastforce
  obtain r3 w4 where p3: "js_set_prop r2 ''data'' v w3 = (r3, w4)" by fastforce
  let ?s = "s\<lparr>fx_world := w4, fx_settled := fx_settled s @ [i]\<rparr>"
  define s1 where "s1 = (if 0 \<le> ft_get_type v then fx_resolve E (ft_pid g) r3 ?s
    else fx_reject (ft_pid g) IOERROR (Some ''responseType dosen't match response data'') ?s)"
  have "response_done E i f rs s = Some (s1\<lparr>fx_world := feature_free_value r3 (fx_world s1)\<rparr>)"
    using h v p1 p2 p3 unfolding response_done_def by (simp add: header_def [symmetric] g_def [symmetric] w1_def [symmetric] s1_def [symmetric])
  moreover have "\<exists>t w. s1 = ?s\<lparr>fx_inst := t, fx_world := w\<rparr>"
  proof (cases "0 \<le> ft_get_type v")
    case True
    then show ?thesis unfolding s1_def using fx_resolve_parts [of E "ft_pid g" r3 ?s] by (simp only: if_True)
  next
    case False
    then show ?thesis unfolding s1_def
      using fx_reject_parts [of "ft_pid g" IOERROR "Some ''responseType dosen't match response data''" ?s] by (simp only: if_False)
  qed
  then obtain t w where "s1 = ?s\<lparr>fx_inst := t, fx_world := w\<rparr>" by (elim exE) (rule that)
  ultimately show ?thesis by (simp add: answered_only_def)
qed

lemma request_cb_ok:
  assumes "fxinv E s" "i \<in> set (fx_inflight s)"
    and "is_download i s \<Longrightarrow> saved_response E rs" "\<not> is_download i s \<Longrightarrow> sized_response rs"
  shows "\<exists>s'. fetch_request_cb E i rs s = Some s' \<and> fxinv E s'"
proof -
  have l: "i \<in> live (fx_all s)" using fxinvD(5) [OF assms(1)] assms(2) by simp
  obtain f where f: "fx_all s ! i = Some f" using liveD [OF l] by blast
  have dl: "ft_download f \<longleftrightarrow> ft_response_type f = RT_FILE" using fxinvD(8) [OF assms(1)] l f by (force simp: downloads_ok_def)
  let ?s = "s\<lparr>fx_inflight := remove1 i (fx_inflight s)\<rparr>"
  define r where "r = (if FeatureInstanceIsDetached (fx_inst ?s) then Some ?s
    else case rs_state rs of UV_REQUEST_DONE \<Rightarrow> response_done E i f rs ?s | REQUEST_CANCEL \<Rightarrow> Some ?s
    | REQUEST_ERROR \<Rightarrow> Some (fx_reject (ft_pid f) (map_curl_to_custom_error (rs_httpcode rs)) (rs_body rs) (?s\<lparr>fx_settled := fx_settled ?s @ [i]\<rparr>)))"
  have "\<exists>s1. r = Some s1 \<and> answered_only i ?s s1"
  proof (cases "FeatureInstanceIsDetached (fx_inst ?s)")
    case False
    show ?thesis
    proof (cases "rs_state rs")
      case UV_REQUEST_DONE
      have hdr: "rs_headers rs \<noteq> None" using assms(3,4) f UV_REQUEST_DONE by (cases "ft_download f") (auto simp: is_download_def saved_response_def sized_response_def)
      have body: "if ft_download f then app_absolute_to_relative_path (fx_path E) (fx_pkg E) (Some b) \<noteq> None else 1 \<le> adjusted_size rs \<and> adjusted_size rs \<le> length b"
        if "rs_body rs = Some b" for b
        using assms(3,4) f UV_REQUEST_DONE that by (cases "ft_download f") (auto simp: is_download_def saved_response_def sized_response_def)
      show ?thesis using False UV_REQUEST_DONE response_done_ok [OF hdr body dl, of i ?s] by (simp add: r_def)
    next
      case REQUEST_CANCEL
      then show ?thesis using False by (simp add: r_def answered_only_def)
    next
      case REQUEST_ERROR
      then show ?thesis using False answered_reject [of i ?s] by (simp add: r_def)
    qed
  qed (simp add: r_def answered_only_def)
  then obtain s1 where s1: "r = Some s1" "answered_only i ?s s1" by blast
  have "fetch_request_cb E i rs s = fetch_free i s1"
    using f s1(1) unfolding fetch_request_cb_def r_def by (simp add: Let_def)
  then show ?thesis using free_ok [OF assms(1) l s1(2)] by simp
qed

lemma fetch_step_safe:
  assumes "fxinv E s" "fetch_legal E p"
  shows "\<exists>s'. fetch_step E p s = Some s' \<and> fxinv E s'"
proof (cases p)
  case FxDetach
  then show ?thesis using assms(1) by (auto split: option.splits prod.splits)
next
  case (FxFetch pid obj)
  then show ?thesis using wrap_fetch_ok [OF assms(1)] assms(2) by simp
next
  case (FxDone i rs)
  show ?thesis
  proof (cases "i \<in> set (fx_inflight s) \<and> \<not> is_download i s")
    case True
    then show ?thesis using FxDone assms request_cb_ok [OF assms(1), of i rs] by simp
  qed (use FxDone assms in auto)
next
  case (FxSaved i rs)
  show ?thesis
  proof (cases "i \<in> set (fx_inflight s) \<and> is_download i s")
    case True
    then show ?thesis using FxSaved assms request_cb_ok [OF assms(1), of i rs] by simp
  qed (use FxSaved assms in auto)
qed

interpretation fetch_service: service "fetch_step E" "fetch_legal E" "fxinv E" for E
  by unfold_locales (rule fetch_step_safe)

lemma new_fetches_ok: "fx_create E = 0 \<Longrightarrow> fxinv E (new_fetches I w)"
  by (simp add: fxinv_def new_fetches_def fx_log_ok_def downloads_ok_def)

lemma free_fetches_ok:
  "fxinv E s \<Longrightarrow> distinct js \<Longrightarrow> set js \<subseteq> live (fx_all s) \<Longrightarrow>
    \<exists>s'. free_fetches js s = Some s' \<and> fxinv E s' \<and> live (fx_all s') = live (fx_all s) - set js \<and> fx_settled s' = fx_settled s"
proof (induction js arbitrary: s)
  case (Cons i js)
  let ?s = "s\<lparr>fx_inflight := remove1 i (fx_inflight s)\<rparr>"
  have l: "i \<in> live (fx_all s)" using Cons.prems(3) by simp
  have "answered_only i ?s ?s" by (simp add: answered_only_def)
  from free_ok [OF Cons.prems(1) l this] obtain s1 where s1: "fetch_free i ?s = Some s1" "fxinv E s1" by blast
  have p: "live (fx_all s1) = live (fx_all s) - {i}" "fx_settled s1 = fx_settled s"
    using s1(1) liveD [OF l] by (auto simp: fetch_free_def)
  obtain s2 where "free_fetches js s1 = Some s2" "fxinv E s2" "live (fx_all s2) = live (fx_all s1) - set js" "fx_settled s2 = fx_settled s1"
    using Cons.IH [OF s1(2)] Cons.prems(2,3) p(1) by auto
  then show ?case using s1(1) p by (auto simp: Let_def)
qed simp

section \<open>The properties\<close>


definition fxenv0 :: fetch_env where
  "fxenv0 = \<lparr>fx_engine = engine0, fx_to_string = (\<lambda>v. None), fx_to_buffer = (\<lambda>v. []), fx_cjson = (\<lambda>s. []),
     fx_path = \<lparr>PATH_MAX_LENGTH = 256, pe_cwd = []\<rparr>, fx_dot = [], fx_pkg = ''app'', fx_time = ''now'', fx_create = 0\<rparr>"

definition fetch0 :: "string \<Rightarrow> fetch_para" where
  "fetch0 u = \<lparr>fp_url = Some u, fp_data = None, fp_header = None, fp_method = Some ''get'', fp_response_type = ''text'', fp_timeout = 0\<rparr>"

definition reply0 :: response where
  "reply0 = \<lparr>rs_state = UV_REQUEST_DONE, rs_headers = Some ''Content-Length: 2'', rs_body = Some ''ok'', rs_size = 2, rs_httpcode = 200\<rparr>"

lemma reply0_size: "adjusted_size reply0 = 2"
  by (simp add: adjusted_size_def reply0_def strtol_def is_space_def digits_value_def LONG_MIN_def LONG_MAX_def)

lemma reply0_simps: "rs_state reply0 = UV_REQUEST_DONE" "rs_headers reply0 = Some ''Content-Length: 2''" "rs_body reply0 = Some ''ok''" "rs_httpcode reply0 = 200"
  by (simp_all add: reply0_def)

definition fetch_ops0 :: "fetch_op list" where
  "fetch_ops0 = [FxFetch 0 (fetch0 ''ftp:''), FxFetch 1 (fetch0 ''http:a''), FxFetch 2 (fetch0 ''http:b''), FxDone 0 reply0, FxDetach]"

lemma fetch_ops0_legal: "list_all (fetch_legal fxenv0) fetch_ops0"
proof -
  have "args_fit fxenv0 (fetch0 u)" for u
    by (simp add: args_fit_def fetch_args_def fetch0_def check_any_def get_method_def fetch_create_def get_response_type_def Let_def split: option.splits)
  then show ?thesis by (simp add: fetch_ops0_def sized_response_def reply0_size reply0_simps)
qed


text \<open>The response of a live instance that is to be text or JSON; its body has the size its headers give.\<close>

definition body_value :: "fetch_env \<Rightarrow> fetch \<Rightarrow> string \<Rightarrow> jsval" where
  "body_value E f b = (if ft_response_type f = RT_JSON then ft_parse_json (fx_engine E) b else JStr b)"

lemma body_data:
  assumes "ft_download f = False" "b \<noteq> []" "NUL \<notin> set b"
  shows "get_response_data E f (Some b) (length b) = Some (body_value E f b)"
proof -
  have "(b @ [NUL]) ! (length b - 1) = last b" using assms(2) by (simp add: nth_append last_conv_nth)
  moreover have "last b \<noteq> NUL" using assms(2,3) last_in_set [of b] by metis
  ultimately have "text_value b (length b) = Some (JStr b)" using assms(2,3) by (simp add: text_value_def cstr_id)
  then show ?thesis using assms(1) by (simp add: get_response_data_def body_value_def)
qed

lemma call_balance:
  assumes "js_set_prop (JObject []) ''code'' (JInt c) (js_new v (js_new (JObject []) (js_new (JObject hs) w))) = (r1, w2)"
    "js_set_prop r1 ''headers'' (JObject hs) w2 = (r2, w3)" "js_set_prop r2 ''data'' v w3 = (r3, w4)"
  shows "r3 = JObject [(''code'', JInt c), (''headers'', JObject hs), (''data'', v)]" "calls w4 = calls w" "ifaces w4 = ifaces w"
    "balanced b M w \<Longrightarrow> balanced b (add_mset r3 M) w4"
proof -
  have r: "r1 = JObject [(''code'', JInt c)]" "r2 = JObject [(''code'', JInt c), (''headers'', JObject hs)]"
    using assms(1,2) by (auto simp: Let_def)
  show "r3 = JObject [(''code'', JInt c), (''headers'', JObject hs), (''data'', v)]" using assms(3) r(2) by (auto simp: Let_def)
  show "calls w4 = calls w" "ifaces w4 = ifaces w" using assms r by (auto simp: Let_def)
  assume bal: "balanced b M w"
  have "balanced b (add_mset v (add_mset (JObject []) (add_mset (JObject hs) M))) (js_new v (js_new (JObject []) (js_new (JObject hs) w)))"
    using balanced_dup [OF balanced_dup [OF balanced_dup [OF bal]]] .
  then have "balanced b (add_mset (JInt c) (add_mset (JObject []) (add_mset v (add_mset (JObject hs) M)))) (js_new v (js_new (JObject []) (js_new (JObject hs) w)))"
    by (subst balanced_nonref) (simp_all only: add_mset_commute is_ref.simps not_False_eq_True)
  from balanced_set_prop [OF this assms(1)] have "balanced b (add_mset (JObject hs) (add_mset r1 (add_mset v M))) w2" by (simp add: add_mset_commute)
  from balanced_set_prop [OF this [unfolded r] assms(2) [unfolded r(1)]] have "balanced b (add_mset v (add_mset r2 M)) w3" by (simp add: add_mset_commute)
  from balanced_set_prop [OF this [unfolded r] assms(3) [unfolded r(2)]] show "balanced b (add_mset r3 M) w4" .
qed

text \<open>C28: When the response to a fetch of a live instance comes, whole and to be text or JSON, the promise of the fetch is resolved with an object that
  has the HTTP code, the headers by name and the body, as text or as the value its JSON has. The fetch is freed
  and references stay balanced.\<close>

theorem response_is_delivered:
  assumes "fxinv E s" "i \<in> set (fx_inflight s)" "fx_all s ! i = Some f" "ft_response_type f \<in> {RT_TXT, RT_JSON}"
    and r: "rs_state rs = UV_REQUEST_DONE" "rs_headers rs = Some h" "rs_body rs = Some b" "adjusted_size rs = length b" "b \<noteq> []" "NUL \<notin> set b"
    and v: "v = body_value E f b" "0 \<le> ft_get_type v"
    and t: "fx_inst s = Some t" "alive t" "getPromiseData (inst_pm t) (ft_pid f) = Some d" "pd_type d = Prim FT_ANY_REF"
  shows "\<exists>s' t'. fetch_step E (FxDone i rs) s = Some s' \<and> fx_inst s' = Some t' \<and> settled_from t (ft_pid f) t' \<and>
    calls (fx_world s') = calls (fx_world s) @ resolve_calls d
      (JObject [(''code'', JInt (word_of_int (rs_httpcode rs))), (''headers'', JObject (ft_form_headers h)), (''data'', v)]) \<and>
    i \<notin> live (fx_all s') \<and> Suc (fx_refs s') = fx_refs s \<and>
    (balanced n (inst_refs t + M) (fx_world s) \<longrightarrow> balanced n (inst_refs t' + M) (fx_world s'))"
proof -
  let ?c = "word_of_int (rs_httpcode rs)" and ?hs = "ft_form_headers h"
  have l: "i \<in> live (fx_all s)" using fxinvD(5) [OF assms(1)] assms(2) by simp
  have dl: "ft_download f = False" using fxinvD(8) [OF assms(1)] l assms(3,4) by (auto simp: downloads_ok_def)
  obtain r1 w2 where p1: "js_set_prop (JObject []) ''code'' (JInt ?c) (js_new v (js_new (JObject []) (js_new (JObject ?hs) (fx_world s)))) = (r1, w2)"
    by fastforce
  obtain r2 w3 where p2: "js_set_prop r1 ''headers'' (JObject ?hs) w2 = (r2, w3)" by fastforce
  obtain r3 w4 where p3: "js_set_prop r2 ''data'' v w3 = (r3, w4)" by fastforce
  note B = call_balance [OF p1 p2 p3]
  have ok: "settle_ok (fx_engine E) w4 d [NAny r3]" "settle_value (fx_engine E) d [NAny r3] = r3"
    using t(4) by (simp_all add: settle_ok_def settle_value_def any_args)
  obtain t' w' where q: "FeaturePromiseResolve (fx_engine E) (Some t) (ft_pid f) [NAny r3] w4 = (resolve_func d \<noteq> JUndef, Some t', w')"
    "calls w' = calls w4 @ resolve_calls d r3" "settled_from t (ft_pid f) t'"
    "balanced n (inst_refs t + (M + {#r3#})) w4 \<longrightarrow> balanced n (inst_refs t' + (M + {#r3#})) w'"
    using resolve_live [OF t(2,3) ok(1), of n "M + {#r3#}"] unfolding ok(2) by blast
  let ?s0 = "s\<lparr>fx_inflight := remove1 i (fx_inflight s)\<rparr>"
  let ?s1 = "?s0\<lparr>fx_inst := Some t', fx_world := feature_free_value r3 w', fx_settled := fx_settled s @ [i]\<rparr>"
  have d: "response_done E i f rs ?s0 = Some ?s1"
    using assms(4) r v body_data [OF dl r(5,6), of E] t(1) q(1) p1 p2 p3
    unfolding response_done_def by (auto simp: fx_resolve_def)
  have "answered_only i ?s0 ?s1" by (simp add: answered_only_def)
  from free_ok [OF assms(1) l this] obtain s' where s': "fetch_free i ?s1 = Some s'" by blast
  then have e: "s' = ?s1\<lparr>fx_linklist := remove1 i (fx_linklist s), fx_refs := fx_refs s - 1, fx_all := (fx_all s)[i := None], fx_log := fx_log s @ [i]\<rparr>"
    using assms(3) by (simp add: fetch_free_def)
  have "\<not> FeatureInstanceIsDetached (fx_inst s)" using t(1,2) by (simp add: FeatureInstanceIsDetached_def alive_def)
  then have "fetch_step E (FxDone i rs) s = Some s'" using assms(2,3) dl d r(1) s' by (simp add: is_download_def fetch_request_cb_def Let_def)
  moreover have "0 < fx_refs s" using fxinvD(6) [OF assms(1)] count_live_delete [OF live_facts(3) [OF l] assms(3), of "\<lambda>_. True"] by simp
  moreover have "balanced n (inst_refs t' + M) (fx_world s')" if bal: "balanced n (inst_refs t + M) (fx_world s)"
    using B(4) [OF bal] q(4) by (simp add: e balanced_free)
  ultimately show ?thesis using q(2,3) B(1,2) by (intro exI [of _ s'] exI [of _ t']) (simp add: e)
qed

definition fetches_g :: fetches where
  "fetches_g = (new_fetches (Some inst_p) world0)\<lparr>fx_all := [Some \<lparr>ft_pid = 0, ft_filename = [], ft_download = False, ft_response_type = RT_TXT,
       ft_content = \<lparr>ct_type = None, ct_data = [], ct_buf = None, ct_size = 0\<rparr>, ft_url = ''http:a''\<rparr>],
     fx_linklist := [0], fx_inflight := [0], fx_refs := 1\<rparr>"

theorem response_is_delivered_witness:
  "\<exists>s'. fetch_step fxenv0 (FxDone 0 reply0) fetches_g = Some s' \<and>
    calls (fx_world s') = resolve_calls (PPromise (Prim FT_ANY_REF) (JFun 2) (JFun 3) (JFun 4))
      (JObject [(''code'', JInt 200), (''headers'', JObject (ft_form_headers ''Content-Length: 2'')), (''data'', JStr ''ok'')]) \<and> fx_refs s' = 0"
proof -
  let ?f = "\<lparr>ft_pid = 0, ft_filename = [], ft_download = False, ft_response_type = RT_TXT,
    ft_content = \<lparr>ct_type = None, ct_data = [], ct_buf = None, ct_size = 0\<rparr>, ft_url = ''http:a''\<rparr>"
  have i: "fxinv fxenv0 fetches_g"
    by (auto simp: fxinv_def fx_log_ok_def downloads_ok_def fetches_g_def new_fetches_def fxenv0_def live_def count_live_def)
  have g: "0 \<in> set (fx_inflight fetches_g)" "fx_all fetches_g ! 0 = Some ?f" "fx_inst fetches_g = Some inst_p"
    "fx_world fetches_g = world0" "fx_refs fetches_g = 1"
    by (simp_all add: fetches_g_def new_fetches_def)
  have n: "adjusted_size reply0 = length ''ok''" by (simp add: reply0_size)
  have v: "JStr ''ok'' = body_value fxenv0 ?f ''ok''" "0 \<le> ft_get_type (JStr ''ok'')"
    by (simp_all add: body_value_def ft_get_type_def FT_TYPE_STRING_def FT_TYPE_BOOL_def)
  obtain s' where "fetch_step fxenv0 (FxDone 0 reply0) fetches_g = Some s'" "Suc (fx_refs s') = 1"
    "calls (fx_world s') = calls world0 @ resolve_calls (PPromise (Prim FT_ANY_REF) (JFun 2) (JFun 3) (JFun 4))
      (JObject [(''code'', JInt 200), (''headers'', JObject (ft_form_headers ''Content-Length: 2'')), (''data'', JStr ''ok'')])"
    using response_is_delivered [OF i g(1,2) _ reply0_simps(1-3) n _ _ v g(3) inst_p_ok(1), of _ undefined "{#}"] inst_p_ok(2) g(4,5) reply0_simps(4)
    by (simp del: resolve_calls.simps) blast
  then show ?thesis by (intro exI [of _ s']) (simp add: world0_calls del: resolve_calls.simps)
qed

text \<open>When the headers give a length that is not that of the body, memory before or after the body is read.\<close>

lemma wrong_length_leaves_body:
  assumes "fx_all s ! i = Some f" "\<not> ft_download f" "ft_response_type f = RT_TXT" "fx_inst s = Some t" "alive t"
    and "rs_state rs = UV_REQUEST_DONE" "rs_headers rs = Some h" "rs_body rs = Some b" "adjusted_size rs = 0 \<or> length b + 1 < adjusted_size rs"
  shows "fetch_request_cb E i rs s = None"
proof -
  have "get_response_data E f (Some b) (adjusted_size rs) = None" using assms(2,3,9) by (auto simp: get_response_data_def text_value_def)
  then have "response_done E i f rs s' = None" for s' using assms(3,7,8) by (simp add: response_done_def Let_def)
  then show ?thesis using assms(1,4-6) by (simp add: fetch_request_cb_def FeatureInstanceIsDetached_def alive_def Let_def)
qed

lemma length_zero_leaves_body: "adjusted_size (reply0\<lparr>rs_headers := Some ''Content-Length: 0''\<rparr>) = 0"
  by (simp add: adjusted_size_def reply0_def strtol_def is_space_def digits_value_def LONG_MIN_def LONG_MAX_def)

end
