(* ===== verification/Spec2Isabelle.thy ===== *)
theory Spec2Isabelle
  imports CoreProps CallProps MemProps LifeProps ProtoProps MessagingProps TextProps StorageProps SysEventProps SettingsProps InterconnectProps FileProps Workers FetchProps
begin

text \<open>
  A verification development for the Feature framework: the C++ runtime under \<open>src/\<close> and
  \<open>include/\<close> that exposes native ``features'' (modules such as storage, network or sensors,
  implemented under \<open>modules/\<close>) to quick apps running on QuickJS.

  \<^bold>\<open>How the program works.\<close>
  A feature registers a descriptor (\<open>include/feature_description.h\<close>): its name, its members and, for
  every method, property and event, the types of its values as machine words that are either a
  primitive code or the address of a type descriptor. A script requires the feature: the manager
  (\<open>src/backend/qjs/feature_manager_qjs.cpp\<close>) makes a prototype for the module and an instance in one of
  its slots, and hands a script object to the script. When the script calls a method, the glue
  (\<open>src/feature_ffi_templates.h\<close>) converts the arguments to native values, calls the native stub and
  converts the result back. Native code answers later by promise or callback ids
  (\<open>src/promise_manager.cpp\<close>, \<open>src/callback_manager.h\<close>), emits events
  (\<open>src/feature_event_manager.h\<close>), allocates reference-counted memory (\<open>src/feature_exports.cpp\<close>), posts
  tasks and asks for permissions. When the script object dies, or the runtime is torn down, the instance is
  detached: it gives back every script reference it holds, and its handle becomes inert.

  \<^bold>\<open>The theories, in the order of their imports.\<close>
  \<^item> \<open>Prelude\<close>: ordered maps as association lists, sums over them, general lemmas. \<open>HandleTable\<close> and
    \<open>RefOwner\<close>: the locales of the two interfaces the managers share, tables that hand out increasing ids
    and tables that own script references; interpreted in \<open>Callbacks\<close>, \<open>Promises\<close> and \<open>Events\<close>.
  \<^item> \<open>JsWorld\<close>: script values, the reference count of every value, and the calls made into the engine.
    The theories of the managers pass this world explicitly.
  \<^item> \<open>FeatureTypes\<close>: \<open>include/feature_types.h\<close>, \<open>include/feature_description.h\<close>, \<open>src/feature_common.cpp\<close>; the
    flags and tag tests on words, the descriptors as trees, parameter counts, sizes, optional defaults, and
    duplication and release of the script references in a native value.
  \<^item> \<open>ToTarget\<close>, \<open>ToNative\<close>: \<open>src/feature_convertor_templates.h\<close> with the QuickJS primitives of
    \<open>src/backend/qjs/value_translator_qjs.h\<close>; native values to script values and back.
  \<^item> \<open>Callbacks\<close>, \<open>Promises\<close>, \<open>Events\<close>: the managers of callback ids, promise ids and subscriptions.
    \<open>Instance\<close>: \<open>src/backend/qjs/feature_instance_qjs.cpp\<close> and the handle functions of
    \<open>src/feature_exports.cpp\<close> on top of them. \<open>CoreProps\<close>: their properties.
  \<^item> \<open>MethodCall\<close>: \<open>src/feature_ffi_templates.h\<close> and the entry points of the manager for methods,
    properties and events; \<open>CallProps\<close>: the properties of calls and conversions.
  \<^item> \<open>FeatureMemory\<close>, \<open>FeatureArrays\<close>: the heap of reference-counted native objects and the array
    functions; \<open>HeapClient\<close>: runs of a client; \<open>MemProps\<close>: the properties.
  \<^item> \<open>Lifecycle\<close>: registry, prototypes, slots, instances, task queue, permission requests and the
    manager (\<open>src/feature_registry.cpp\<close>, \<open>src/feature_prototype.cpp\<close>, \<open>src/feature_instance.cpp\<close>,
    \<open>src/feature_manager.cpp\<close>, \<open>src/permissions_manager.cpp\<close>). \<open>LifecycleInv\<close> states the contract and the
    invariant, \<open>LifecycleOps\<close> the teardown, \<open>LifecycleRun\<close> the task queue, \<open>LifecycleClient\<close> whole runs,
    \<open>LifecycleFacts\<close> what follows; \<open>LifeProps\<close>: the properties.
  \<^item> \<open>ProtoReflect\<close>: the reflection of protobuf messages (\<open>src/protobuf\<close>), \<open>ProtoFacts\<close> its lemmas,
    \<open>ProtoProps\<close> its properties.
  \<^item> \<open>ConcreteEngine\<close>: an engine the witnesses compute with. \<open>HandleApi\<close>: what invoking and removing a callback does,
    as the service modules use it.
  \<^item> \<open>Messaging\<close>: the message channel (\<open>modules/message_channel_impl.cpp\<close>, \<open>modules/message_transport.cpp\<close>):
    requests with their timers and replies, sessions, broadcasts, the C interface; \<open>MessagingFacts\<close>, \<open>MessagingProps\<close>.
  \<^item> \<open>TextUtils\<close>, \<open>TextProps\<close>: URL escapes, headers, splitting, paths (\<open>modules/net_utils.cpp\<close>,
    \<open>modules/crypto_utils.cpp\<close>, \<open>modules/app_path.cpp\<close>). \<open>strtok_r\<close>, \<open>strstr\<close>, \<open>strcat\<close> and \<open>snprintf\<close> are
    modelled as the C standard describes them.
  \<^item> \<open>Storage\<close>, \<open>StorageProps\<close>: the storage service (\<open>modules/storage_impl.cpp\<close>) over a key-value store.
  \<^item> \<open>SysEvents\<close>, \<open>SysEventFacts\<close>, \<open>SysEventProps\<close>: the event module (\<open>modules/event_impl.cpp\<close>,
    \<open>modules/event\<close>): subscription records, topics, delivery and publication.
  \<^item> \<open>FtContext\<close>: what the services use of the functions on script values (\<open>include/feature_context.h\<close>).
    \<open>Services\<close>: tables of objects, runs, and the locale \<open>service\<close> of a step that keeps an invariant and does not
    crash, interpreted by the next four.
  \<^item> \<open>Settings\<close>, \<open>SettingsProps\<close>: the settings service (\<open>modules/system_settings_impl.cpp\<close>). \<open>Interconnect\<close>,
    \<open>InterconnectProps\<close>: the connection to the phone (\<open>modules/interconnect_impl.cpp\<close>).
  \<^item> \<open>FileSystem\<close>: the calls of the C library on files and directories, as POSIX describes them; \<open>Files\<close>: the file module
    (\<open>modules/file_impl.cpp\<close>) over them; \<open>FileFacts\<close> its invariant, \<open>FileProps\<close> its properties.
  \<^item> \<open>UrlCheck\<close>: the regular expression for URLs, by derivatives; \<open>Fetch\<close>, \<open>FetchProps\<close>: the fetch module
    (\<open>modules/fetch_impl.cpp\<close>) with the header objects and error codes of \<open>modules/net_utils.cpp\<close>.
  \<^item> \<open>Workers\<close>: the workers of an instance (\<open>src/worker_manager.cpp\<close>), with their properties.

  \<^bold>\<open>Conventions.\<close>
  A map of the code is an association list sorted by its keys, as the iteration order of \<open>std::map\<close>
  requires. Script values are compared by equality. Operations on the engine that are not under
  \<open>src/\<close> (number conversions, JSON) are fields of the record \<open>engine\<close>; what the
  properties need of them is the predicate \<open>engine_ok\<close>, which \<open>engine0\<close> satisfies. The services have records of
  their own for what surrounds them: \<open>menv\<close> (the binder services and timers of messages), \<open>db_env\<close> (the
  key-value store), \<open>sys_env\<close> (the topics of uORB), \<open>settings_env\<close> (the settings daemon), \<open>ic_env\<close> (the link to the phone),
  \<open>fs_env\<close> and \<open>file_env\<close> (the errors of the file system, the thread pool of libuv), \<open>fetch_env\<close> (the HTTP library, cJSON) and \<open>path_env\<close> (the size of path buffers, the working directory).
  What happens at a time the code does not choose (a reply, a timer, the completion of a
  request, data on a topic) is a step of a run, so that the properties of runs hold for every order. Fallible code returns a
  flag or a code as in the source; where the source aborts or reads freed memory the result is \<open>None\<close>
  (life cycle, conversions to native values, services; there also a write past the end of a buffer) or \<open>UB\<close> (heap), so that ``the result is a value'' includes
  ``no abort and no use after free''. Ids are \<open>int\<close>s that wrap at 32 bits; the properties that need fresh ids
  assume that the counter has not wrapped.

  \<^bold>\<open>What the groups of lemmas show.\<close>
  The ownership lemmas of \<open>RefOwner\<close> count, for every script value, the references a table owns; each operation of
  the managers keeps the balance, whence detachment restores all counts. The conversion lemmas of \<open>ToTarget\<close> and
  \<open>ToNative\<close> compare the converters with the denotation \<open>target_of\<close>. The heap lemmas (\<open>heap_ok\<close>) state that counts are
  the numbers of references and that objects are ranked, which makes release terminate: fuel of the rank of the
  heap is enough, and \<open>release_is_safe\<close> gives the bound. The lemmas about \<open>lc_inv\<close> relate reference counts, slots,
  script objects, open permission requests and the log of native callbacks in every reachable state.
  \<open>ProtoFacts\<close> types the messages and follows the properties of the object made for a message. \<open>MessagingFacts\<close> keeps an invariant
  over requests, boards, timers and receivers, \<open>StorageProps\<close> one over handles and pending operations, and
  \<open>SysEventFacts\<close> one over subscription records; \<open>SettingsProps\<close> says which set owns each request object, and
  \<open>InterconnectProps\<close> pairs waiting sends with their running timers; each service operation is shown to preserve it. \<open>FileFacts\<close> shows
  that paths fit their buffers and that recursions into directories end: a path below a directory is longer than that of the
  directory, so fuel of the size of the path buffer is enough. \<open>FileProps\<close> says what writing, making and removing do to the file system. \<open>TextProps\<close>
  reduces the loops over \<open>strtok_r\<close> to the list of non-empty pieces of a string. \<open>FetchProps\<close> follows every fetch from its arguments
  to its end and says what its promise is resolved with; \<open>UrlCheck\<close> computes the language of the URL pattern.

  \<^bold>\<open>Not modelled.\<close>
  Calls of a script back into an instance while one of its callbacks runs; the wamr backend; the member tables of
  script prototypes; weak references to script objects; the user-data table of the manager; the copy of the
  arguments kept by a permission request; the release of protobuf messages; allocation failure; 29-bit
  wrap of slot numbers. In \<open>convertValueToNative\<close> and \<open>convertValueToTarget\<close> protobuf reflection is a field of the
  engine record; \<open>ProtoReflect\<close> models its code on its own. The map of interface
  prototypes compares the addresses of names, the model compares names: the two agree as long as a module
  has one descriptor for an interface. Posting from another thread is the same operation at some
  point between two others (the queue is under a mutex). Of the service modules under \<open>modules/\<close> the message channel,
  storage, events, settings, interconnection, files, fetching and the path and text utilities are modelled; the others (uploads and downloads, sensors, crypto, media,
  device information) are calls into platform services and libraries that are not under \<open>src/\<close>.
  In the file system there are no symbolic links and no changes from outside; the memory of arguments on the native side is not counted there.
  In the utilities the limit of disk space is left out. The Rust binding, the interface generator and the tests are not part of the
  C++ runtime.
\<close>

end
